(* ===== verification/Prelude.thy ===== *)
theory Prelude
  imports Main "HOL-Library.Word" "HOL-Library.Sublist"
begin

text \<open>
  Shared vocabulary of the development: the parts of Go's language and standard library that
  every component uses (byte strings, \<^verbatim>\<open>strings.HasPrefix\<close> and friends, decimal printing and
  parsing, first-match loops over slices), JSON trees (what \<^verbatim>\<open>map[string]any\<close> documents are
  before they are printed), and generic lemmas on lists and options.

  A Go string is a list of bytes, so it is a HOL \<^typ>\<open>string\<close>. A Go error is a value of a sum:
  \<open>Inl\<close> the error, \<open>Inr\<close> the result.
\<close>

named_theorems gostr \<open>rules for Go's string functions\<close>
named_theorems jsimps \<open>reading and writing keys of JSON objects\<close>
named_theorems loops \<open>what first-match loops and slice surgery return\<close>

section \<open>Strings\<close>

definition HasPrefix :: "string \<Rightarrow> string \<Rightarrow> bool" where
  "HasPrefix s p \<longleftrightarrow> take (length p) s = p"

definition TrimPrefix :: "string \<Rightarrow> string \<Rightarrow> string" where
  "TrimPrefix s p = (if HasPrefix s p then drop (length p) s else s)"

lemma HasPrefix_prefix: "HasPrefix s p \<longleftrightarrow> prefix p s"
  by (metis HasPrefix_def append_eq_conv_conj append_take_drop_id prefix_def)

lemma HasPrefix_append [gostr, simp]: "HasPrefix (p @ s) p"
  by (simp add: HasPrefix_def)

lemma TrimPrefix_append [gostr, simp]: "TrimPrefix (p @ s) p = s"
  by (simp add: TrimPrefix_def)

lemma HasPrefix_TrimPrefix: "HasPrefix s p \<Longrightarrow> p @ TrimPrefix s p = s"
  by (metis HasPrefix_def TrimPrefix_def append_take_drop_id)

subsection \<open>White space\<close>

text \<open>
  \<^verbatim>\<open>strings.TrimSpace\<close> removes the code points for which \<^verbatim>\<open>unicode.IsSpace\<close> holds from both
  ends. On the bytes of a string these are exactly the UTF-8 sequences below: the six ASCII
  spaces, U+0085, U+00A0, U+1680, U+2000 to U+200A, U+2028, U+2029, U+202F, U+205F and U+3000.
\<close>

definition ascii_spaces :: "char list" where
  "ascii_spaces = [CHR 0x20, CHR 0x09, CHR 0x0A, CHR 0x0B, CHR 0x0C, CHR 0x0D]"

definition wide_spaces :: "string list" where
  "wide_spaces =
     [[CHR 0xC2, CHR 0x85], [CHR 0xC2, CHR 0xA0], [CHR 0xE1, CHR 0x9A, CHR 0x80],
      [CHR 0xE2, CHR 0x80, CHR 0x80], [CHR 0xE2, CHR 0x80, CHR 0x81],
      [CHR 0xE2, CHR 0x80, CHR 0x82], [CHR 0xE2, CHR 0x80, CHR 0x83],
      [CHR 0xE2, CHR 0x80, CHR 0x84], [CHR 0xE2, CHR 0x80, CHR 0x85],
      [CHR 0xE2, CHR 0x80, CHR 0x86], [CHR 0xE2, CHR 0x80, CHR 0x87],
      [CHR 0xE2, CHR 0x80, CHR 0x88], [CHR 0xE2, CHR 0x80, CHR 0x89],
      [CHR 0xE2, CHR 0x80, CHR 0x8A], [CHR 0xE2, CHR 0x80, CHR 0xA8],
      [CHR 0xE2, CHR 0x80, CHR 0xA9], [CHR 0xE2, CHR 0x80, CHR 0xAF],
      [CHR 0xE2, CHR 0x81, CHR 0x9F], [CHR 0xE3, CHR 0x80, CHR 0x80]]"

definition space_seqs :: "string list" where
  "space_seqs = map (\<lambda>c. [c]) ascii_spaces @ wide_spaces"

fun strip_seqs :: "string list \<Rightarrow> string \<Rightarrow> string" where
  "strip_seqs ws s =
     (case find (\<lambda>w. w \<noteq> [] \<and> HasPrefix s w) ws of
        None \<Rightarrow> s
      | Some w \<Rightarrow> (if length (drop (length w) s) < length s
                  then strip_seqs ws (drop (length w) s) else s))"

declare strip_seqs.simps [simp del]

definition TrimSpace :: "string \<Rightarrow> string" where
  "TrimSpace s =
     rev (strip_seqs (map rev space_seqs) (rev (strip_seqs space_seqs s)))"

text \<open>A string with no byte of a white-space sequence at either end is left alone.\<close>

definition space_lead :: "char set" where
  "space_lead = hd ` set space_seqs"

definition space_tail :: "char set" where
  "space_tail = last ` set space_seqs"

lemma strip_seqs_Nil [gostr, simp]: "strip_seqs ws [] = []"
  by (subst strip_seqs.simps) (auto split: option.splits simp: find_Some_iff HasPrefix_def)

lemma strip_seqs_id:
  assumes "\<And>w. w \<in> set ws \<Longrightarrow> w \<noteq> [] \<Longrightarrow> \<not> HasPrefix s w"
  shows "strip_seqs ws s = s"
proof -
  have "find (\<lambda>w. w \<noteq> [] \<and> HasPrefix s w) ws = None"
    using assms by (auto simp: find_None_iff)
  then show ?thesis by (subst strip_seqs.simps) simp
qed

lemma strip_seqs_suffix: "suffix (strip_seqs ws s) s"
proof (induction ws s rule: strip_seqs.induct)
  case (1 ws s)
  show ?case
  proof (cases "find (\<lambda>w. w \<noteq> [] \<and> HasPrefix s w) ws")
    case None
    then show ?thesis by (simp add: strip_seqs.simps [of ws s])
  next
    case (Some w)
    show ?thesis
    proof (cases "length (drop (length w) s) < length s")
      case True
      with 1 Some have "suffix (strip_seqs ws (drop (length w) s)) (drop (length w) s)" by blast
      then have "suffix (strip_seqs ws (drop (length w) s)) s"
        using suffix_drop suffix_order.order_trans by blast
      with True Some show ?thesis by (simp add: strip_seqs.simps [of ws s])
    next
      case False
      with Some show ?thesis by (simp add: strip_seqs.simps [of ws s])
    qed
  qed
qed

lemma strip_seqs_length: "length (strip_seqs ws s) \<le> length s"
  using strip_seqs_suffix suffix_length_le by blast

lemma strip_seqs_clean:
  assumes "w \<in> set ws" "w \<noteq> []"
  shows "\<not> HasPrefix (strip_seqs ws s) w"
  using assms
proof (induction ws s rule: strip_seqs.induct)
  case (1 ws s)
  show ?case
  proof (cases "find (\<lambda>w. w \<noteq> [] \<and> HasPrefix s w) ws")
    case None
    then have "strip_seqs ws s = s" by (simp add: strip_seqs.simps [of ws s])
    with None 1(2,3) show ?thesis by (auto simp: find_None_iff)
  next
    case (Some v)
    then have v: "v \<noteq> []" "HasPrefix s v" by (auto simp: find_Some_iff)
    then have "s \<noteq> []" by (auto simp: HasPrefix_def)
    with v have "length (drop (length v) s) < length s" by simp
    with 1 Some show ?thesis by (simp add: strip_seqs.simps [of ws s])
  qed
qed

lemma strip_seqs_idem [gostr, simp]: "strip_seqs ws (strip_seqs ws s) = strip_seqs ws s"
  by (rule strip_seqs_id) (rule strip_seqs_clean)

lemma TrimSpace_Nil [gostr, simp]: "TrimSpace [] = []"
  by (simp add: TrimSpace_def)

lemma TrimSpace_length: "length (TrimSpace s) \<le> length s"
  unfolding TrimSpace_def by (metis le_trans length_rev strip_seqs_length)

lemma space_seqs_nonempty [simp]: "w \<in> set space_seqs \<Longrightarrow> w \<noteq> []"
  by (auto simp: space_seqs_def wide_spaces_def)

lemma TrimSpace_id:
  assumes "s = [] \<or> hd s \<notin> space_lead \<and> last s \<notin> space_tail"
  shows "TrimSpace s = s"
proof (cases "s = []")
  case False
  with assms have hd: "hd s \<notin> space_lead" and la: "last s \<notin> space_tail" by auto
  have l: "strip_seqs space_seqs s = s"
  proof (rule strip_seqs_id)
    fix w assume w: "w \<in> set space_seqs" "w \<noteq> []"
    show "\<not> HasPrefix s w"
    proof
      assume "HasPrefix s w"
      then have "hd s = hd w"
        using w False by (metis HasPrefix_prefix hd_append2 prefix_def)
      with hd w show False by (auto simp: space_lead_def)
    qed
  qed
  have r: "strip_seqs (map rev space_seqs) (rev s) = rev s"
  proof (rule strip_seqs_id)
    fix w assume w: "w \<in> set (map rev space_seqs)" "w \<noteq> []"
    then obtain v where v: "v \<in> set space_seqs" "w = rev v" by auto
    show "\<not> HasPrefix (rev s) w"
    proof
      assume "HasPrefix (rev s) w"
      then have "hd (rev s) = hd w"
        using w False by (metis HasPrefix_prefix hd_append2 prefix_def)
      with v w False have "last s = last v" by (simp add: hd_rev)
      with la v show False by (auto simp: space_tail_def)
    qed
  qed
  show ?thesis by (simp add: TrimSpace_def l r)
qed simp

subsection \<open>Decimal numbers\<close>

definition digit_char :: "nat \<Rightarrow> char" where
  "digit_char d = char_of (48 + d)"

definition is_digit :: "char \<Rightarrow> bool" where
  "is_digit c \<longleftrightarrow> 48 \<le> (of_char c :: nat) \<and> (of_char c :: nat) \<le> 57"

definition digit_val :: "char \<Rightarrow> nat" where
  "digit_val c = (of_char c :: nat) - 48"

text \<open>\<^verbatim>\<open>strconv.Itoa\<close> and \<^verbatim>\<open>fmt.Sprintf("%d", n)\<close> on a non-negative integer.\<close>

fun nat_str :: "nat \<Rightarrow> string" where
  "nat_str n = (if n < 10 then [digit_char n] else nat_str (n div 10) @ [digit_char (n mod 10)])"

declare nat_str.simps [simp del]

definition int_str :: "int \<Rightarrow> string" where
  "int_str z = (if z < 0 then CHR ''-'' # nat_str (nat (- z)) else nat_str (nat z))"

definition digits_val :: "string \<Rightarrow> nat" where
  "digits_val s = foldl (\<lambda>a c. 10 * a + digit_val c) 0 s"

lemma digit_val_char [simp]: "d < 10 \<Longrightarrow> digit_val (digit_char d) = d"
  by (simp add: digit_val_def digit_char_def of_char_of)

lemma is_digit_char [simp]: "d < 10 \<Longrightarrow> is_digit (digit_char d)"
  by (simp add: is_digit_def digit_char_def of_char_of)

lemma digits_val_snoc: "digits_val (s @ [c]) = 10 * digits_val s + digit_val c"
  by (simp add: digits_val_def)

lemma digits_val_nat_str [gostr, simp]: "digits_val (nat_str n) = n"
proof (induction n rule: nat_str.induct)
  case (1 n)
  show ?case
  proof (cases "n < 10")
    case True
    then show ?thesis by (subst nat_str.simps) (simp add: digits_val_def)
  next
    case False
    with 1 have "digits_val (nat_str (n div 10)) = n div 10" by simp
    with False show ?thesis by (subst nat_str.simps) (simp add: digits_val_snoc)
  qed
qed

lemma nat_str_digits: "c \<in> set (nat_str n) \<Longrightarrow> is_digit c"
proof (induction n rule: nat_str.induct)
  case (1 n)
  then show ?case by (cases "n < 10") (auto simp: nat_str.simps [of n])
qed

lemma nat_str_nonempty [simp]: "nat_str n \<noteq> []"
  by (subst nat_str.simps) simp

lemma nat_str_inject [simp]: "nat_str m = nat_str n \<longleftrightarrow> m = n"
  by (metis digits_val_nat_str)

lemma is_digit_not [simp]: "\<not> is_digit (CHR '':'')" "\<not> is_digit (CHR ''-'')"
  by (simp_all add: is_digit_def)

text \<open>
  \<^verbatim>\<open>strconv.ParseInt(s, 10, 64)\<close> and \<^verbatim>\<open>strconv.Atoi\<close>: an optional sign, at least one digit,
  nothing else, and a value that fits in 64 bits. \<open>None\<close> is the error.
\<close>

definition ParseInt64 :: "string \<Rightarrow> int option" where
  "ParseInt64 s =
     (let (neg, ds) = (case s of [] \<Rightarrow> (False, [])
                        | c # cs \<Rightarrow> (if c = CHR ''-'' then (True, cs)
                                    else if c = CHR ''+'' then (False, cs) else (False, s)));
          v = int (digits_val ds); z = (if neg then - v else v)
      in if ds = [] \<or> \<not> list_all is_digit ds \<or> z < - (2 ^ 63) \<or> 2 ^ 63 - 1 < z
         then None else Some z)"

lemma ParseInt64_range: "ParseInt64 s = Some z \<Longrightarrow> - (2 ^ 63) \<le> z \<and> z < 2 ^ 63"
  by (auto simp: ParseInt64_def Let_def split: if_splits prod.splits)

lemma ParseInt64_nat_str [gostr]:
  assumes "n < 2 ^ 63"
  shows "ParseInt64 (nat_str n) = Some (int n)"
proof -
  obtain c cs where s: "nat_str n = c # cs" by (metis neq_Nil_conv nat_str_nonempty)
  have all: "list_all is_digit (nat_str n)" by (auto simp: list_all_iff dest: nat_str_digits)
  with s have "is_digit c" by simp
  then have "c \<noteq> CHR ''-''" "c \<noteq> CHR ''+''" by (auto simp: is_digit_def)
  with s have "(case nat_str n of [] \<Rightarrow> (False, []) | c # cs \<Rightarrow> (if c = CHR ''-'' then (True, cs)
       else if c = CHR ''+'' then (False, cs) else (False, nat_str n))) = (False, nat_str n)"
    by simp
  with all assms show ?thesis by (simp add: ParseInt64_def)
qed

section \<open>Loops over slices\<close>

text \<open>The first index whose element satisfies a test: \<^verbatim>\<open>for i := range xs { if p(xs[i]) ... }\<close>.\<close>

fun index_where :: "('a \<Rightarrow> bool) \<Rightarrow> 'a list \<Rightarrow> nat option" where
  "index_where p [] = None"
| "index_where p (x # xs) = (if p x then Some 0 else map_option Suc (index_where p xs))"

lemma index_where_Some [loops]:
  "index_where p xs = Some i \<longleftrightarrow> i < length xs \<and> p (xs ! i) \<and> (\<forall>j < i. \<not> p (xs ! j))"
proof (induction xs arbitrary: i)
  case Nil
  then show ?case by simp
next
  case (Cons x xs)
  show ?case
  proof (cases "p x")
    case True
    then show ?thesis by (cases i) (auto intro: exI [of _ 0])
  next
    case False
    with Cons show ?thesis by (cases i) (auto simp: less_Suc_eq_0_disj)
  qed
qed

lemma index_where_None [loops]: "index_where p xs = None \<longleftrightarrow> (\<forall>x \<in> set xs. \<not> p x)"
  by (induction xs) auto

text \<open>\<^verbatim>\<open>append(xs[:i], xs[i+1:]...)\<close>\<close>

definition remove_at :: "nat \<Rightarrow> 'a list \<Rightarrow> 'a list" where
  "remove_at i xs = take i xs @ drop (Suc i) xs"

lemma remove_at_simps [loops, simp]:
  "remove_at i [] = []"
  "remove_at 0 (x # xs) = xs"
  "remove_at (Suc i) (x # xs) = x # remove_at i xs"
  by (simp_all add: remove_at_def)

lemma length_remove_at [loops, simp]: "i < length xs \<Longrightarrow> length (remove_at i xs) = length xs - 1"
  by (simp add: remove_at_def)

lemma set_remove_at: "set (remove_at i xs) \<subseteq> set xs"
  by (auto simp: remove_at_def dest: in_set_takeD in_set_dropD)

lemma map_remove_at: "map f (remove_at i xs) = remove_at i (map f xs)"
  by (simp add: remove_at_def take_map drop_map)

lemma distinct_remove_at: "distinct xs \<Longrightarrow> distinct (remove_at i xs)"
  by (simp add: remove_at_def set_take_disj_set_drop_if_distinct)

lemma remove_at_split:
  "i < length xs \<Longrightarrow> \<exists>ys zs. xs = ys @ xs ! i # zs \<and> length ys = i \<and> remove_at i xs = ys @ zs"
  by (metis id_take_nth_drop length_take min.absorb4 remove_at_def)

lemma list_update_split:
  "i < length xs \<Longrightarrow> \<exists>ys zs. xs = ys @ xs ! i # zs \<and> length ys = i \<and> xs[i := y] = ys @ y # zs"
  by (metis id_take_nth_drop length_take min.absorb4 upd_conv_take_nth_drop)

text \<open>The last \<open>n\<close> elements of a slice, \<^verbatim>\<open>xs[len(xs)-n:]\<close> when there are more than \<open>n\<close>.\<close>

definition lastn :: "nat \<Rightarrow> 'a list \<Rightarrow> 'a list" where
  "lastn n xs = drop (length xs - n) xs"

lemma length_lastn [simp]: "length (lastn n xs) = min n (length xs)"
  by (simp add: lastn_def)

lemma lastn_all: "length xs \<le> n \<Longrightarrow> lastn n xs = xs"
  by (simp add: lastn_def)

lemma lastn_snoc_full: "length xs = n \<Longrightarrow> n \<noteq> 0 \<Longrightarrow> lastn n (xs @ [x]) = tl xs @ [x]"
  by (cases xs) (auto simp: lastn_def)

lemma lastn_lastn_snoc: "lastn n (lastn n xs @ [x]) = lastn n (xs @ [x])"
proof (cases "length xs \<le> n")
  case True
  then show ?thesis by (simp add: lastn_all)
next
  case False
  then show ?thesis
    by (cases n) (auto simp: lastn_def Suc_diff_Suc min_def)
qed

lemma set_lastn: "set (lastn n xs) \<subseteq> set xs"
  by (auto simp: lastn_def dest: in_set_dropD)

lemma suffix_lastn: "suffix (lastn n xs) xs"
  by (simp add: lastn_def suffix_drop)

text \<open>
  \<^verbatim>\<open>for i, x := range xs { if err := check(i, x); err != nil { return err } }\<close>
\<close>

fun first_err :: "nat \<Rightarrow> (nat \<Rightarrow> 'a \<Rightarrow> 'e option) \<Rightarrow> 'a list \<Rightarrow> 'e option" where
  "first_err i f [] = None"
| "first_err i f (x # xs) = (case f i x of Some e \<Rightarrow> Some e | None \<Rightarrow> first_err (Suc i) f xs)"

definition range_err :: "(nat \<Rightarrow> 'a \<Rightarrow> 'e option) \<Rightarrow> 'a list \<Rightarrow> 'e option" where
  "range_err f xs = first_err 0 f xs"

lemma first_err_None: "first_err i f xs = None \<longleftrightarrow> (\<forall>j < length xs. f (i + j) (xs ! j) = None)"
proof (induction xs arbitrary: i)
  case (Cons x xs)
  show ?case by (auto simp: Cons All_less_Suc2 split: option.splits)
qed simp

lemma range_err_None [loops]: "range_err f xs = None \<longleftrightarrow> (\<forall>j < length xs. f j (xs ! j) = None)"
  by (simp add: range_err_def first_err_None)

text \<open>When the index only shows in the message, no error means that every element passes.\<close>

lemma range_err_set:
  assumes "\<And>i j x. f i x = None \<longleftrightarrow> f j x = None"
  shows "range_err f xs = None \<longleftrightarrow> (\<forall>x \<in> set xs. \<forall>i. f i x = None)"
proof -
  have "range_err f xs = None \<longleftrightarrow> (\<forall>j < length xs. f 0 (xs ! j) = None)"
    unfolding range_err_None using assms by meson
  also have "\<dots> \<longleftrightarrow> (\<forall>x \<in> set xs. f 0 x = None)"
    by (simp add: all_set_conv_all_nth)
  also have "\<dots> \<longleftrightarrow> (\<forall>x \<in> set xs. \<forall>i. f i x = None)"
    using assms by meson
  finally show ?thesis .
qed

lemma range_err_Nil [simp]: "range_err f [] = None"
  by (simp add: range_err_def)

text \<open>The first error of two checks made one after the other.\<close>

fun or_else :: "'e option \<Rightarrow> 'e option \<Rightarrow> 'e option" where
  "or_else None e = e"
| "or_else (Some x) e = Some x"

lemma or_else_None [simp]: "or_else a b = None \<longleftrightarrow> a = None \<and> b = None"
  by (cases a) auto

end
