(* ===== verification/Netaddr.thy ===== *)
theory Netaddr
  imports Prelude
begin

text \<open>
  \<^verbatim>\<open>net.ParseIP\<close> and \<^verbatim>\<open>net.ParseCIDR\<close>, as far as the rules and the configuration builder use
  them: whether a string is an address or a prefix, and of which family. Both are
  \<^verbatim>\<open>netip.ParseAddr\<close> underneath, which looks for the first of \<^verbatim>\<open>. : %\<close> to choose a parser.
\<close>

datatype family = V4 | V6

section \<open>IPv4\<close>

fun split_on :: "char \<Rightarrow> string \<Rightarrow> string list" where
  "split_on sep [] = [[]]"
| "split_on sep (c # cs) =
     (if c = sep then [] # split_on sep cs
      else (case split_on sep cs of [] \<Rightarrow> [[c]] | p # ps \<Rightarrow> (c # p) # ps))"

text \<open>One field: decimal digits without a leading zero, at most 255.\<close>

definition octet_ok :: "string \<Rightarrow> bool" where
  "octet_ok s \<longleftrightarrow> s \<noteq> [] \<and> list_all is_digit s \<and> (hd s = CHR ''0'' \<longrightarrow> length s = 1)
                \<and> digits_val s \<le> 255"

definition parseIPv4 :: "string \<Rightarrow> bool" where
  "parseIPv4 s \<longleftrightarrow> length (split_on CHR ''.'' s) = 4 \<and> list_all octet_ok (split_on CHR ''.'' s)"

section \<open>IPv6\<close>

definition is_hex :: "char \<Rightarrow> bool" where
  "is_hex c \<longleftrightarrow> is_digit c \<or> (97 \<le> (of_char c :: nat) \<and> (of_char c :: nat) \<le> 102)
                          \<or> (65 \<le> (of_char c :: nat) \<and> (of_char c :: nat) \<le> 70)"

text \<open>
  The loop of \<^verbatim>\<open>netip.parseIPv6\<close>: \<open>i\<close> counts the 16-bit groups read, \<open>ell\<close> says whether a
  double colon was seen. The result is the number of groups read and the final \<open>ell\<close>, or
  \<open>None\<close> for an error.
\<close>

function v6_loop :: "nat \<Rightarrow> bool \<Rightarrow> string \<Rightarrow> (nat \<times> bool) option" where
  "v6_loop i ell s =
     (if 8 \<le> i then (if s = [] then Some (i, ell) else None)
      else let h = takeWhile is_hex s; r = dropWhile is_hex s in
        if h = [] \<or> 4 < length h then None
        else if r \<noteq> [] \<and> hd r = CHR ''.'' then
          (if \<not> ell \<and> i \<noteq> 6 then None
           else if 8 < i + 2 then None
           else if parseIPv4 s then Some (i + 2, ell) else None)
        else if r = [] then Some (i + 1, ell)
        else if hd r \<noteq> CHR '':'' then None
        else if length r = 1 then None
        else if r ! 1 = CHR '':'' then
          (if ell then None
           else if length r = 2 then Some (i + 1, True)
           else v6_loop (i + 1) True (drop 2 r))
        else v6_loop (i + 1) ell (tl r))"
  by pat_completeness auto
termination by (relation "measure (\<lambda>(i, ell, s). 8 - i)") auto

declare v6_loop.simps [simp del]

definition parseIPv6 :: "string \<Rightarrow> bool" where
  "parseIPv6 s =
     (if s = ''::'' then True
      else let lead = HasPrefix s ''::'' in
        (case v6_loop 0 lead (TrimPrefix s ''::'') of
           None \<Rightarrow> False
         | Some (i, ell) \<Rightarrow> (if i < 8 then ell else \<not> ell)))"

section \<open>Addresses and prefixes\<close>

text \<open>A zone (\<^verbatim>\<open>%eth0\<close>) is never accepted by the two functions of package \<^verbatim>\<open>net\<close>.\<close>

definition ParseAddr :: "string \<Rightarrow> family option" where
  "ParseAddr s =
     (if CHR ''%'' \<in> set s then None
      else case find (\<lambda>c. c = CHR ''.'' \<or> c = CHR '':'') s of
        None \<Rightarrow> None
      | Some c \<Rightarrow> (if c = CHR ''.'' then (if parseIPv4 s then Some V4 else None)
                  else (if parseIPv6 s then Some V6 else None)))"

definition ParseIP :: "string \<Rightarrow> bool" where
  "ParseIP s \<longleftrightarrow> ParseAddr s \<noteq> None"

fun bit_len :: "family \<Rightarrow> nat" where
  "bit_len V4 = 32"
| "bit_len V6 = 128"

definition ParseCIDR :: "string \<Rightarrow> bool" where
  "ParseCIDR s \<longleftrightarrow>
     (let addr = takeWhile (\<lambda>c. c \<noteq> CHR ''/'') s; rest = dropWhile (\<lambda>c. c \<noteq> CHR ''/'') s in
      rest \<noteq> [] \<and>
      (case ParseAddr addr of
         None \<Rightarrow> False
       | Some f \<Rightarrow> (let m = tl rest in
           m \<noteq> [] \<and> list_all is_digit m \<and> digits_val m \<le> bit_len f)))"

lemma ParseCIDR_has_slash: "ParseCIDR s \<Longrightarrow> CHR ''/'' \<in> set s"
  by (auto simp: ParseCIDR_def Let_def dropWhile_eq_Nil_conv)

lemma ParseCIDR_not_ParseIP_char: "ParseIP s \<Longrightarrow> CHR ''%'' \<notin> set s"
  by (auto simp: ParseIP_def ParseAddr_def split: if_splits)

lemmas addr_eval = ParseCIDR_def ParseAddr_def ParseIP_def parseIPv4_def parseIPv6_def octet_ok_def
  v6_loop.simps is_hex_def is_digit_def digits_val_def digit_val_def HasPrefix_def TrimPrefix_def

end
