(* ===== verification/Json.thy ===== *)
theory Json
  imports Prelude
begin

text \<open>
  JSON documents and \<^verbatim>\<open>encoding/json\<close> on them. A document is a tree; the program builds it as a
  \<^verbatim>\<open>map[string]any\<close> or from a struct by its field tags, and reads it back field by field. The
  model of \<^verbatim>\<open>json.Unmarshal\<close> on a struct follows the package: the keys of an object are taken
  in order, each is matched to the field of exactly that name or else to one that is equal to it
  under case folding, unknown keys are skipped, \<^verbatim>\<open>null\<close> leaves a field alone (and empties a
  slice), and a value of the wrong type or out of range is an error.
\<close>

section \<open>Trees\<close>

text \<open>
  Numbers are integers, except that a number literal with a fraction or an exponent is kept as
  its text: no field of the program accepts one where it expects an integer. Objects are
  association lists; the objects the program builds have distinct keys.
\<close>

datatype json = JNull | JBool bool | JNum int | JFloat string | JStr string | JArr "json list"
  | JObj "(string \<times> json) list"

fun jget :: "json \<Rightarrow> string \<Rightarrow> json option" where
  "jget (JObj kvs) k = map_of kvs k"
| "jget _ k = None"

fun alset :: "string \<Rightarrow> json \<Rightarrow> (string \<times> json) list \<Rightarrow> (string \<times> json) list" where
  "alset k v [] = [(k, v)]"
| "alset k v ((k', v') # kvs) = (if k = k' then (k, v) # kvs else (k', v') # alset k v kvs)"

text \<open>\<^verbatim>\<open>doc[k] = v\<close>\<close>

fun jset :: "string \<Rightarrow> json \<Rightarrow> json \<Rightarrow> json" where
  "jset k v (JObj kvs) = JObj (alset k v kvs)"
| "jset k v j = j"

fun is_obj :: "json \<Rightarrow> bool" where
  "is_obj (JObj _) = True"
| "is_obj _ = False"

fun jelems :: "json \<Rightarrow> json list" where
  "jelems (JArr xs) = xs"
| "jelems _ = []"

fun jstr :: "json \<Rightarrow> string option" where
  "jstr (JStr s) = Some s"
| "jstr _ = None"

fun jnum :: "json \<Rightarrow> int option" where
  "jnum (JNum n) = Some n"
| "jnum _ = None"

lemma map_of_alset [simp]: "map_of (alset k v kvs) = (map_of kvs)(k \<mapsto> v)"
  by (induction k v kvs rule: alset.induct) auto

lemma is_obj_jset [jsimps, simp]: "is_obj (jset k v j) = is_obj j"
  by (cases j) auto

lemma jget_jset [jsimps, simp]:
  "is_obj j \<Longrightarrow> jget (jset k v j) k' = (if k' = k then Some v else jget j k')"
  by (cases j) auto

lemma jget_None_not_obj: "\<not> is_obj j \<Longrightarrow> jget j k = None"
  by (cases j) auto

text \<open>The keys of an object: \<^verbatim>\<open>json.Marshal\<close> writes each of them once.\<close>

fun jkeys :: "json \<Rightarrow> string list" where
  "jkeys (JObj kvs) = map fst kvs"
| "jkeys _ = []"

lemma set_map_fst_alset: "set (map fst (alset k v kvs)) = insert k (set (map fst kvs))"
  by (induction k v kvs rule: alset.induct) auto

lemma distinct_alset: "distinct (map fst kvs) \<Longrightarrow> distinct (map fst (alset k v kvs))"
  by (induction k v kvs rule: alset.induct) (auto simp: set_map_fst_alset simp del: set_map)

lemma distinct_jkeys_jset: "distinct (jkeys j) \<Longrightarrow> distinct (jkeys (jset k v j))"
  by (cases j) (auto intro: distinct_alset simp del: set_map)

text \<open>\<^verbatim>\<open>if cond { doc[k] = v }\<close>\<close>

definition jset_if :: "bool \<Rightarrow> string \<Rightarrow> json \<Rightarrow> json \<Rightarrow> json" where
  "jset_if c k v j = (if c then jset k v j else j)"

lemma is_obj_jset_if [jsimps, simp]: "is_obj (jset_if c k v j) = is_obj j"
  by (simp add: jset_if_def)

lemma jget_jset_if [jsimps, simp]:
  "is_obj j \<Longrightarrow> jget (jset_if c k v j) k' = (if c \<and> k' = k then Some v else jget j k')"
  by (simp add: jset_if_def)

lemma distinct_jkeys_jset_if: "distinct (jkeys j) \<Longrightarrow> distinct (jkeys (jset_if c k v j))"
  by (simp add: jset_if_def distinct_jkeys_jset)

section \<open>Field names\<close>

text \<open>
  \<^verbatim>\<open>foldName\<close>: ASCII letters are folded to one case, and the two other code points that fold to
  an ASCII letter, U+017F to S and U+212A to K, with them. Field names are ASCII, so further
  folding cannot make a key match.
\<close>

fun foldName :: "string \<Rightarrow> string" where
  "foldName [] = []"
| "foldName (c # cs) =
     (if 97 \<le> (of_char c :: nat) \<and> (of_char c :: nat) \<le> 122
      then char_of ((of_char c :: nat) - 32) # foldName cs
      else if c = CHR 0xC5 \<and> cs \<noteq> [] \<and> hd cs = CHR 0xBF then CHR ''S'' # foldName (tl cs)
      else if c = CHR 0xE2 \<and> 2 \<le> length cs \<and> take 2 cs = [CHR 0x84, CHR 0xAA]
           then CHR ''K'' # foldName (drop 2 cs)
      else c # foldName cs)"

section \<open>Structs\<close>

type_synonym 'r dec = "json \<Rightarrow> 'r \<Rightarrow> 'r option"
type_synonym 'r fields = "(string \<times> 'r dec) list"

definition find_field :: "'r fields \<Rightarrow> string \<Rightarrow> 'r dec option" where
  "find_field fs k =
     (case map_of fs k of
        Some d \<Rightarrow> Some d
      | None \<Rightarrow> map_option snd (find (\<lambda>(n, d). foldName n = foldName k) fs))"

fun dec_fields :: "'r fields \<Rightarrow> (string \<times> json) list \<Rightarrow> 'r \<Rightarrow> 'r option" where
  "dec_fields fs [] r = Some r"
| "dec_fields fs ((k, v) # kvs) r =
     (case find_field fs k of
        None \<Rightarrow> dec_fields fs kvs r
      | Some d \<Rightarrow> (case d v r of None \<Rightarrow> None | Some r' \<Rightarrow> dec_fields fs kvs r'))"

fun dec_struct :: "'r fields \<Rightarrow> 'r dec" where
  "dec_struct fs JNull r = Some r"
| "dec_struct fs (JObj kvs) r = dec_fields fs kvs r"
| "dec_struct fs _ r = None"

fun dec_string :: "string dec" where
  "dec_string JNull s = Some s"
| "dec_string (JStr t) s = Some t"
| "dec_string _ s = None"

fun dec_bool :: "bool dec" where
  "dec_bool JNull b = Some b"
| "dec_bool (JBool c) b = Some c"
| "dec_bool _ b = None"

text \<open>An integer field of \<open>lo .. hi\<close>.\<close>

fun dec_int :: "int \<Rightarrow> int \<Rightarrow> int dec" where
  "dec_int lo hi JNull n = Some n"
| "dec_int lo hi (JNum k) n = (if lo \<le> k \<and> k \<le> hi then Some k else None)"
| "dec_int lo hi _ n = None"

fun dec_word16 :: "16 word dec" where
  "dec_word16 JNull w = Some w"
| "dec_word16 (JNum k) w = (if 0 \<le> k \<and> k < 65536 then Some (word_of_int k) else None)"
| "dec_word16 _ w = None"

fun opt_all :: "('a \<Rightarrow> 'b option) \<Rightarrow> 'a list \<Rightarrow> 'b list option" where
  "opt_all f [] = Some []"
| "opt_all f (x # xs) =
     (case f x of None \<Rightarrow> None
      | Some y \<Rightarrow> (case opt_all f xs of None \<Rightarrow> None | Some ys \<Rightarrow> Some (y # ys)))"

definition dec_slice :: "'a dec \<Rightarrow> 'a \<Rightarrow> 'a list dec" where
  "dec_slice d zero v xs =
     (case v of JNull \<Rightarrow> Some []
      | JArr vs \<Rightarrow> opt_all (\<lambda>v. d v zero) vs
      | _ \<Rightarrow> None)"

text \<open>A field of a struct: decode over the present value, store the result.\<close>

definition fld :: "('r \<Rightarrow> 'a) \<Rightarrow> ('a \<Rightarrow> 'r \<Rightarrow> 'r) \<Rightarrow> 'a dec \<Rightarrow> 'r dec" where
  "fld get put d v r = (case d v (get r) of None \<Rightarrow> None | Some x \<Rightarrow> Some (put x r))"

text \<open>Encoding: a tagged field, and one with \<^verbatim>\<open>omitempty\<close>.\<close>

definition jopt :: "bool \<Rightarrow> string \<Rightarrow> json \<Rightarrow> (string \<times> json) list" where
  "jopt keep k v = (if keep then [(k, v)] else [])"

definition enc_slice :: "('a \<Rightarrow> json) \<Rightarrow> 'a list \<Rightarrow> json" where
  "enc_slice e xs = JArr (map e xs)"

lemma find_field_exact [jsimps]: "map_of fs k = Some d \<Longrightarrow> find_field fs k = Some d"
  by (simp add: find_field_def)

lemma dec_fields_Cons [jsimps]:
  "map_of fs k = Some d \<Longrightarrow> dec_fields fs ((k, v) # kvs) r
     = (case d v r of None \<Rightarrow> None | Some r' \<Rightarrow> dec_fields fs kvs r')"
  by (simp add: find_field_def)

lemma dec_fields_append:
  "dec_fields fs (xs @ ys) r
     = (case dec_fields fs xs r of None \<Rightarrow> None | Some r' \<Rightarrow> dec_fields fs ys r')"
  by (induction fs xs r rule: dec_fields.induct) (auto split: option.splits)

lemma dec_fields_jopt [jsimps]:
  assumes "map_of fs k = Some d" and "keep \<Longrightarrow> d v r = Some r'" and "\<not> keep \<Longrightarrow> r' = r"
  shows "dec_fields fs (jopt keep k v) r = Some r'"
  using assms by (cases keep) (auto simp: jopt_def find_field_def)

lemma opt_all_map [jsimps]: "(\<And>x. x \<in> set xs \<Longrightarrow> f (g x) = Some (h x)) \<Longrightarrow>
  opt_all f (map g xs) = Some (map h xs)"
  by (induction xs) auto

lemma dec_slice_enc [jsimps]:
  assumes "\<And>x. x \<in> set xs \<Longrightarrow> d (e x) zero = Some x"
  shows "dec_slice d zero (enc_slice e xs) ys = Some xs"
  using opt_all_map [of xs "\<lambda>v. d v zero" e "\<lambda>x. x"] assms
  by (simp add: dec_slice_def enc_slice_def)

text \<open>When an object has exactly the fields of the struct, in order, they are decoded one by one.\<close>

fun dec_seq :: "'r dec list \<Rightarrow> json list \<Rightarrow> 'r \<Rightarrow> 'r option" where
  "dec_seq (d # ds) (v # vs) r = (case d v r of None \<Rightarrow> None | Some r' \<Rightarrow> dec_seq ds vs r')"
| "dec_seq _ _ r = Some r"

lemma dec_fields_zip:
  assumes "distinct (map fst (pre @ suf))" "length vs = length suf"
  shows "dec_fields (pre @ suf) (zip (map fst suf) vs) r = dec_seq (map snd suf) vs r"
  using assms
proof (induction suf arbitrary: pre vs r)
  case (Cons f suf)
  obtain k d where f: "f = (k, d)" by fastforce
  obtain w ws where vs: "vs = w # ws" using Cons.prems(2) by (cases vs) auto
  have "map_of (pre @ f # suf) k = Some d"
    using Cons.prems(1) f by (intro map_of_is_SomeI) auto
  moreover have "dec_fields (pre @ f # suf) (zip (map fst suf) ws) r' = dec_seq (map snd suf) ws r'" for r'
    using Cons.IH [of "pre @ [f]" ws r'] Cons.prems vs by simp
  ultimately show ?case using f vs by (simp add: find_field_def split: option.splits)
qed simp

lemmas dec_fields_exact = dec_fields_zip [where pre = "[]", simplified]

lemma fld_Some: "d v (get r) = Some x \<Longrightarrow> fld get put d v r = Some (put x r)"
  by (simp add: fld_def)

lemma dec_seq_step:
  "d v r = Some r' \<Longrightarrow> dec_seq ds vs r' = Some r'' \<Longrightarrow> dec_seq (d # ds) (v # vs) r = Some r''"
  by simp

lemma dec_seq_end: "r = r' \<Longrightarrow> dec_seq [] [] r = Some r'"
  by simp

text \<open>Objects with optional fields are decoded piece by piece.\<close>

lemma dec_app: "dec_fields fs xs r = Some r' \<Longrightarrow> dec_fields fs ys r' = Some r'' \<Longrightarrow>
    dec_fields fs (xs @ ys) r = Some r''"
  by (simp add: dec_fields_append)

lemma dec_one_fld:
  "map_of fs n = Some (fld get put d) \<Longrightarrow> d v (get r) = Some x \<Longrightarrow> dec_fields fs [(n, v)] r = Some (put x r)"
  by (simp add: find_field_def fld_def)

lemma dec_opt_fld:
  "map_of fs n = Some (fld get put d) \<Longrightarrow> (keep \<Longrightarrow> d v (get r) = Some x) \<Longrightarrow> (\<not> keep \<Longrightarrow> put x r = r) \<Longrightarrow>
    dec_fields fs (jopt keep n v) r = Some (put x r)"
  by (simp add: jopt_def find_field_def fld_def)

lemma opt_all_length: "opt_all f xs = Some ys \<Longrightarrow> length ys = length xs"
  by (induction xs arbitrary: ys) (auto split: option.splits)

end
