(* ===== verification/Rules.thy ===== *)
theory Rules
  imports Netaddr Json "HOL-Library.Multiset"
begin

text \<open>
  Package \<^verbatim>\<open>internal/rules\<close>: the routing-rules model (\<^verbatim>\<open>model.go\<close>), its compiler to the route block
  of a sing-box configuration (\<^verbatim>\<open>compile.go\<close>) and the \<^verbatim>\<open>rules.json\<close> store (\<^verbatim>\<open>store.go\<close>).

  \<^verbatim>\<open>regexp.Compile\<close> is the argument \<open>re\<close>: whether a pattern compiles. A file is what
  \<^verbatim>\<open>os.ReadFile\<close> and the JSON scanner make of it: absent, unreadable, not JSON, or a tree.
\<close>

section \<open>The model: model.go\<close>

type_synonym Action = string

definition ActionProxy :: Action where "ActionProxy = ''proxy''"
definition ActionDirect :: Action where "ActionDirect = ''direct''"
definition ActionBlock :: Action where "ActionBlock = ''block''"

definition Action_Valid :: "Action \<Rightarrow> bool" where
  "Action_Valid a \<longleftrightarrow> a = ActionProxy \<or> a = ActionDirect \<or> a = ActionBlock"

record PortSpec =
  ps_Single :: "16 word"
  ps_From :: "16 word"
  ps_To :: "16 word"

definition Covers :: "PortSpec \<Rightarrow> 16 word \<Rightarrow> bool" where
  "Covers p port =
     (if ps_Single p \<noteq> 0 then ps_Single p = port
      else ps_From p \<le> port \<and> port \<le> ps_To p)"

record DomainMatcher =
  dm_Kind :: string
  dm_Value :: string

record Conditions =
  c_Processes :: "string list"
  c_Domains :: "DomainMatcher list"
  c_IPCIDRs :: "string list"
  c_Geo :: "string list"
  c_Ports :: "PortSpec list"
  c_Protocols :: "string list"

definition no_conditions :: Conditions where
  "no_conditions = \<lparr> c_Processes = [], c_Domains = [], c_IPCIDRs = [], c_Geo = [],
                     c_Ports = [], c_Protocols = [] \<rparr>"

definition IsEmpty :: "Conditions \<Rightarrow> bool" where
  "IsEmpty c \<longleftrightarrow> length (c_Processes c) + length (c_Domains c) + length (c_IPCIDRs c)
                + length (c_Geo c) + length (c_Ports c) + length (c_Protocols c) = 0"

record Rule =
  ru_ID :: string
  ru_Name :: string
  ru_Enabled :: bool
  ru_Action :: Action
  ru_Conditions :: Conditions

datatype rule_error =
    RuleIDRequired
  | RuleActionInvalid string
  | RuleConditionsEmpty
  | PortBothSet nat
  | PortRangeInvalid nat
  | DomainKindInvalid nat string
  | DomainValueEmpty nat
  | DomainRegexInvalid nat string
  | CIDRInvalid nat string
  | GeoPrefixInvalid nat string

definition domain_kinds :: "string list" where
  "domain_kinds = [''exact'', ''suffix'', ''keyword'', ''regex'']"

definition check_port :: "nat \<Rightarrow> PortSpec \<Rightarrow> rule_error option" where
  "check_port i p =
     (if ps_Single p \<noteq> 0 \<and> (ps_From p \<noteq> 0 \<or> ps_To p \<noteq> 0) then Some (PortBothSet i)
      else if ps_Single p = 0 \<and> (ps_From p = 0 \<or> ps_To p = 0 \<or> ps_From p > ps_To p)
        then Some (PortRangeInvalid i)
      else None)"

definition check_domain :: "(string \<Rightarrow> bool) \<Rightarrow> nat \<Rightarrow> DomainMatcher \<Rightarrow> rule_error option" where
  "check_domain re i d =
     (if dm_Kind d \<notin> set domain_kinds then Some (DomainKindInvalid i (dm_Kind d))
      else if dm_Value d = [] then Some (DomainValueEmpty i)
      else if dm_Kind d = ''regex'' \<and> \<not> re (dm_Value d)
        then Some (DomainRegexInvalid i (dm_Value d))
      else None)"

definition check_cidr :: "nat \<Rightarrow> string \<Rightarrow> rule_error option" where
  "check_cidr i s =
     (if \<not> ParseCIDR s then (if \<not> ParseIP s then Some (CIDRInvalid i s) else None) else None)"

definition check_geo :: "nat \<Rightarrow> string \<Rightarrow> rule_error option" where
  "check_geo i g =
     (if \<not> (HasPrefix g ''geosite:'' \<or> HasPrefix g ''geoip:'') then Some (GeoPrefixInvalid i g)
      else None)"

definition Rule_Validate :: "(string \<Rightarrow> bool) \<Rightarrow> Rule \<Rightarrow> rule_error option" where
  "Rule_Validate re r =
     (if ru_ID r = [] then Some RuleIDRequired
      else if \<not> Action_Valid (ru_Action r) then Some (RuleActionInvalid (ru_Action r))
      else if IsEmpty (ru_Conditions r) then Some RuleConditionsEmpty
      else or_else (range_err check_port (c_Ports (ru_Conditions r)))
          (or_else (range_err (check_domain re) (c_Domains (ru_Conditions r)))
          (or_else (range_err check_cidr (c_IPCIDRs (ru_Conditions r)))
                   (range_err check_geo (c_Geo (ru_Conditions r))))))"

record Group =
  g_ID :: string
  g_Name :: string
  g_Locked :: bool
  g_Enabled :: bool
  g_Rules :: "Rule list"

record Model =
  m_Groups :: "Group list"
  m_DefaultAction :: Action

datatype model_error =
    DefaultActionInvalid string
  | RuleInGroup string rule_error

definition Model_Validate :: "(string \<Rightarrow> bool) \<Rightarrow> Model \<Rightarrow> model_error option" where
  "Model_Validate re m =
     (if \<not> Action_Valid (m_DefaultAction m) then Some (DefaultActionInvalid (m_DefaultAction m))
      else range_err (\<lambda>gi g. range_err (\<lambda>ri r. map_option (RuleInGroup (g_Name g)) (Rule_Validate re r))
                             (g_Rules g)) (m_Groups m))"

section \<open>The compiler: compile.go\<close>

definition toAny :: "string list \<Rightarrow> json list" where
  "toAny = map JStr"

text \<open>The two port loops and the domain and geo loops of \<^verbatim>\<open>compileRule\<close>.\<close>

fun port_singles :: "PortSpec list \<Rightarrow> json list" where
  "port_singles [] = []"
| "port_singles (p # ps) =
     (if ps_Single p \<noteq> 0 then JNum (uint (ps_Single p)) # port_singles ps else port_singles ps)"

fun port_ranges :: "PortSpec list \<Rightarrow> json list" where
  "port_ranges [] = []"
| "port_ranges (p # ps) =
     (if ps_Single p \<noteq> 0 then port_ranges ps
      else JStr (nat_str (unat (ps_From p)) @ '':'' @ nat_str (unat (ps_To p))) # port_ranges ps)"

fun domains_of :: "string \<Rightarrow> DomainMatcher list \<Rightarrow> json list" where
  "domains_of k [] = []"
| "domains_of k (d # ds) =
     (if dm_Kind d = k then JStr (dm_Value d) # domains_of k ds else domains_of k ds)"

definition geo_tag :: "string \<Rightarrow> string option" where
  "geo_tag g =
     (if HasPrefix g ''geosite:'' then Some (''geosite-'' @ TrimPrefix g ''geosite:'')
      else if HasPrefix g ''geoip:'' then Some (''geoip-'' @ TrimPrefix g ''geoip:'')
      else None)"

definition rule_sets :: "string list \<Rightarrow> json list" where
  "rule_sets gs = map JStr (List.map_filter geo_tag gs)"

definition set_arr :: "string \<Rightarrow> json list \<Rightarrow> json \<Rightarrow> json" where
  "set_arr k v rule = (if length v > 0 then jset k (JArr v) rule else rule)"

definition compileRule :: "Rule \<Rightarrow> json" where
  "compileRule r =
     (let c = ru_Conditions r;
          rule = JObj [(''outbound'', JStr (ru_Action r))];
          rule = set_arr ''process_name'' (toAny (c_Processes c)) rule;
          rule = set_arr ''ip_cidr'' (toAny (c_IPCIDRs c)) rule;
          rule = set_arr ''network'' (toAny (c_Protocols c)) rule;
          rule = set_arr ''port'' (port_singles (c_Ports c)) rule;
          rule = set_arr ''port_range'' (port_ranges (c_Ports c)) rule;
          rule = set_arr ''domain'' (domains_of ''exact'' (c_Domains c)) rule;
          rule = set_arr ''domain_suffix'' (domains_of ''suffix'' (c_Domains c)) rule;
          rule = set_arr ''domain_keyword'' (domains_of ''keyword'' (c_Domains c)) rule;
          rule = set_arr ''domain_regex'' (domains_of ''regex'' (c_Domains c)) rule
      in set_arr ''rule_set'' (rule_sets (c_Geo c)) rule)"

fun compile_rules :: "Rule list \<Rightarrow> json list" where
  "compile_rules [] = []"
| "compile_rules (r # rs) =
     (if \<not> ru_Enabled r then compile_rules rs else compileRule r # compile_rules rs)"

fun compile_groups :: "Group list \<Rightarrow> json list" where
  "compile_groups [] = []"
| "compile_groups (g # gs) =
     (if \<not> g_Enabled g then compile_groups gs else compile_rules (g_Rules g) @ compile_groups gs)"

definition Compile :: "(string \<Rightarrow> bool) \<Rightarrow> Model \<Rightarrow> model_error + json" where
  "Compile re m =
     (case Model_Validate re m of
        Some e \<Rightarrow> Inl e
      | None \<Rightarrow> Inr (jset ''rules'' (JArr (compile_groups (m_Groups m)))
                     (JObj [(''final'', JStr (m_DefaultAction m))])))"

section \<open>The store: store.go\<close>

definition DefaultModel :: Model where
  "DefaultModel =
     \<lparr> m_Groups =
         [ \<lparr> g_ID = ''safety'', g_Name = ''Safety'', g_Locked = True, g_Enabled = True,
             g_Rules =
               [ \<lparr> ru_ID = ''private'', ru_Name = ''Private IPs'', ru_Enabled = True,
                   ru_Action = ActionDirect,
                   ru_Conditions = no_conditions \<lparr> c_IPCIDRs :=
                     [''10.0.0.0/8'', ''172.16.0.0/12'', ''192.168.0.0/16'',
                      ''127.0.0.0/8'', ''fc00::/7'', ''fe80::/10'', ''224.0.0.0/4''] \<rparr> \<rparr> ] \<rparr>,
           \<lparr> g_ID = ''user'', g_Name = ''My Rules'', g_Locked = False, g_Enabled = True,
             g_Rules = [] \<rparr> ],
       m_DefaultAction = ActionProxy \<rparr>"

subsection \<open>The JSON form of the model, by the struct tags\<close>

definition enc_PortSpec :: "PortSpec \<Rightarrow> json" where
  "enc_PortSpec p = JObj (jopt (ps_Single p \<noteq> 0) ''single'' (JNum (uint (ps_Single p)))
     @ jopt (ps_From p \<noteq> 0) ''from'' (JNum (uint (ps_From p)))
     @ jopt (ps_To p \<noteq> 0) ''to'' (JNum (uint (ps_To p))))"

definition enc_DomainMatcher :: "DomainMatcher \<Rightarrow> json" where
  "enc_DomainMatcher d = JObj [(''kind'', JStr (dm_Kind d)), (''value'', JStr (dm_Value d))]"

definition enc_Conditions :: "Conditions \<Rightarrow> json" where
  "enc_Conditions c = JObj
     (jopt (c_Processes c \<noteq> []) ''processes'' (enc_slice JStr (c_Processes c))
      @ jopt (c_Domains c \<noteq> []) ''domains'' (enc_slice enc_DomainMatcher (c_Domains c))
      @ jopt (c_IPCIDRs c \<noteq> []) ''ip_cidrs'' (enc_slice JStr (c_IPCIDRs c))
      @ jopt (c_Geo c \<noteq> []) ''geo'' (enc_slice JStr (c_Geo c))
      @ jopt (c_Ports c \<noteq> []) ''ports'' (enc_slice enc_PortSpec (c_Ports c))
      @ jopt (c_Protocols c \<noteq> []) ''protocols'' (enc_slice JStr (c_Protocols c)))"

definition enc_Rule :: "Rule \<Rightarrow> json" where
  "enc_Rule r = JObj [(''id'', JStr (ru_ID r)), (''name'', JStr (ru_Name r)),
     (''enabled'', JBool (ru_Enabled r)), (''action'', JStr (ru_Action r)),
     (''conditions'', enc_Conditions (ru_Conditions r))]"

definition enc_Group :: "Group \<Rightarrow> json" where
  "enc_Group g = JObj ([(''id'', JStr (g_ID g)), (''name'', JStr (g_Name g))]
     @ jopt (g_Locked g) ''locked'' (JBool (g_Locked g))
     @ [(''enabled'', JBool (g_Enabled g)), (''rules'', enc_slice enc_Rule (g_Rules g))])"

definition enc_Model :: "Model \<Rightarrow> json" where
  "enc_Model m = JObj [(''groups'', enc_slice enc_Group (m_Groups m)),
     (''default_action'', JStr (m_DefaultAction m))]"

definition PortSpec_fields :: "PortSpec fields" where
  "PortSpec_fields =
     [(''single'', fld ps_Single (\<lambda>x. ps_Single_update (\<lambda>_. x)) dec_word16),
      (''from'', fld ps_From (\<lambda>x. ps_From_update (\<lambda>_. x)) dec_word16),
      (''to'', fld ps_To (\<lambda>x. ps_To_update (\<lambda>_. x)) dec_word16)]"

definition DomainMatcher_fields :: "DomainMatcher fields" where
  "DomainMatcher_fields =
     [(''kind'', fld dm_Kind (\<lambda>x. dm_Kind_update (\<lambda>_. x)) dec_string),
      (''value'', fld dm_Value (\<lambda>x. dm_Value_update (\<lambda>_. x)) dec_string)]"

definition Conditions_fields :: "Conditions fields" where
  "Conditions_fields =
     [(''processes'', fld c_Processes (\<lambda>x. c_Processes_update (\<lambda>_. x)) (dec_slice dec_string [])),
      (''domains'', fld c_Domains (\<lambda>x. c_Domains_update (\<lambda>_. x))
         (dec_slice (dec_struct DomainMatcher_fields) \<lparr> dm_Kind = [], dm_Value = [] \<rparr>)),
      (''ip_cidrs'', fld c_IPCIDRs (\<lambda>x. c_IPCIDRs_update (\<lambda>_. x)) (dec_slice dec_string [])),
      (''geo'', fld c_Geo (\<lambda>x. c_Geo_update (\<lambda>_. x)) (dec_slice dec_string [])),
      (''ports'', fld c_Ports (\<lambda>x. c_Ports_update (\<lambda>_. x))
         (dec_slice (dec_struct PortSpec_fields) \<lparr> ps_Single = 0, ps_From = 0, ps_To = 0 \<rparr>)),
      (''protocols'', fld c_Protocols (\<lambda>x. c_Protocols_update (\<lambda>_. x)) (dec_slice dec_string []))]"

definition zero_Rule :: Rule where
  "zero_Rule = \<lparr> ru_ID = [], ru_Name = [], ru_Enabled = False, ru_Action = [],
                 ru_Conditions = no_conditions \<rparr>"

definition Rule_fields :: "Rule fields" where
  "Rule_fields =
     [(''id'', fld ru_ID (\<lambda>x. ru_ID_update (\<lambda>_. x)) dec_string),
      (''name'', fld ru_Name (\<lambda>x. ru_Name_update (\<lambda>_. x)) dec_string),
      (''enabled'', fld ru_Enabled (\<lambda>x. ru_Enabled_update (\<lambda>_. x)) dec_bool),
      (''action'', fld ru_Action (\<lambda>x. ru_Action_update (\<lambda>_. x)) dec_string),
      (''conditions'', fld ru_Conditions (\<lambda>x. ru_Conditions_update (\<lambda>_. x))
         (dec_struct Conditions_fields))]"

definition zero_Group :: Group where
  "zero_Group = \<lparr> g_ID = [], g_Name = [], g_Locked = False, g_Enabled = False, g_Rules = [] \<rparr>"

definition Group_fields :: "Group fields" where
  "Group_fields =
     [(''id'', fld g_ID (\<lambda>x. g_ID_update (\<lambda>_. x)) dec_string),
      (''name'', fld g_Name (\<lambda>x. g_Name_update (\<lambda>_. x)) dec_string),
      (''locked'', fld g_Locked (\<lambda>x. g_Locked_update (\<lambda>_. x)) dec_bool),
      (''enabled'', fld g_Enabled (\<lambda>x. g_Enabled_update (\<lambda>_. x)) dec_bool),
      (''rules'', fld g_Rules (\<lambda>x. g_Rules_update (\<lambda>_. x))
         (dec_slice (dec_struct Rule_fields) zero_Rule))]"

definition Model_fields :: "Model fields" where
  "Model_fields =
     [(''groups'', fld m_Groups (\<lambda>x. m_Groups_update (\<lambda>_. x))
         (dec_slice (dec_struct Group_fields) zero_Group)),
      (''default_action'', fld m_DefaultAction (\<lambda>x. m_DefaultAction_update (\<lambda>_. x)) dec_string)]"

definition zero_Model :: Model where
  "zero_Model = \<lparr> m_Groups = [], m_DefaultAction = [] \<rparr>"

definition dec_Model :: "json \<Rightarrow> Model option" where
  "dec_Model j = dec_struct Model_fields j zero_Model"

subsection \<open>Load and Save\<close>

datatype disk = Absent | Unreadable | NotJSON | Tree json

definition Load :: "disk \<Rightarrow> Model" where
  "Load f =
     (case f of
        Absent \<Rightarrow> DefaultModel
      | Unreadable \<Rightarrow> DefaultModel
      | NotJSON \<Rightarrow> DefaultModel
      | Tree j \<Rightarrow>
          (case dec_Model j of
             None \<Rightarrow> DefaultModel
           | Some m \<Rightarrow> (if m_DefaultAction m = [] then m \<lparr> m_DefaultAction := ActionProxy \<rparr> else m)))"

text \<open>
  \<^verbatim>\<open>config.WriteAtomic\<close> either replaces the file or leaves it: \<open>ok\<close> says whether it succeeded.
\<close>

definition Save :: "bool \<Rightarrow> Model \<Rightarrow> disk \<Rightarrow> bool \<times> disk" where
  "Save ok m f = (if ok then (True, Tree (enc_Model m)) else (False, f))"


section \<open>Round trips through JSON\<close>

lemma uint16_bound [simp]: "uint (w :: 16 word) < 65536"
  using uint_bounded [of w] by simp

lemma dec_word16_uint [jsimps, simp]: "dec_word16 (JNum (uint w)) v = Some w"
  by simp

lemma dec_enc_PortSpec [jsimps]:
  "dec_struct PortSpec_fields (enc_PortSpec p) \<lparr> ps_Single = 0, ps_From = 0, ps_To = 0 \<rparr> = Some p"
  by (cases p) (auto simp: enc_PortSpec_def PortSpec_fields_def jopt_def find_field_def fld_def)

lemma dec_enc_DomainMatcher [jsimps]:
  "dec_struct DomainMatcher_fields (enc_DomainMatcher d) z = Some d"
  by (cases d) (auto simp: enc_DomainMatcher_def DomainMatcher_fields_def find_field_def fld_def)

lemma dec_strings [jsimps]: "dec_slice dec_string z (enc_slice JStr xs) ys = Some xs"
  by (rule dec_slice_enc) simp

lemma dec_enc_Conditions [jsimps]:
  "dec_struct Conditions_fields (enc_Conditions c) no_conditions = Some c"
proof -
  define f where "f = Conditions_fields"
  have 1: "dec_fields f (jopt (c_Processes c \<noteq> []) ''processes'' (enc_slice JStr (c_Processes c)))
      r = Some (r \<lparr> c_Processes := c_Processes c \<rparr>)" if "c_Processes r = []" for r
    by (rule dec_fields_jopt, simp add: f_def Conditions_fields_def)
       (use that in \<open>auto simp: f_def Conditions_fields_def fld_def dec_strings\<close>)
  have 2: "dec_fields f (jopt (c_Domains c \<noteq> []) ''domains'' (enc_slice enc_DomainMatcher (c_Domains c)))
      r = Some (r \<lparr> c_Domains := c_Domains c \<rparr>)" if "c_Domains r = []" for r
    by (rule dec_fields_jopt, simp add: f_def Conditions_fields_def)
       (use that in \<open>auto simp: f_def Conditions_fields_def fld_def dec_slice_enc dec_enc_DomainMatcher\<close>)
  have 3: "dec_fields f (jopt (c_IPCIDRs c \<noteq> []) ''ip_cidrs'' (enc_slice JStr (c_IPCIDRs c)))
      r = Some (r \<lparr> c_IPCIDRs := c_IPCIDRs c \<rparr>)" if "c_IPCIDRs r = []" for r
    by (rule dec_fields_jopt, simp add: f_def Conditions_fields_def)
       (use that in \<open>auto simp: f_def Conditions_fields_def fld_def dec_strings\<close>)
  have 4: "dec_fields f (jopt (c_Geo c \<noteq> []) ''geo'' (enc_slice JStr (c_Geo c)))
      r = Some (r \<lparr> c_Geo := c_Geo c \<rparr>)" if "c_Geo r = []" for r
    by (rule dec_fields_jopt, simp add: f_def Conditions_fields_def)
       (use that in \<open>auto simp: f_def Conditions_fields_def fld_def dec_strings\<close>)
  have 5: "dec_fields f (jopt (c_Ports c \<noteq> []) ''ports'' (enc_slice enc_PortSpec (c_Ports c)))
      r = Some (r \<lparr> c_Ports := c_Ports c \<rparr>)" if "c_Ports r = []" for r
    by (rule dec_fields_jopt, simp add: f_def Conditions_fields_def)
       (use that in \<open>auto simp: f_def Conditions_fields_def fld_def dec_slice_enc dec_enc_PortSpec\<close>)
  have 6: "dec_fields f (jopt (c_Protocols c \<noteq> []) ''protocols'' (enc_slice JStr (c_Protocols c)))
      r = Some (r \<lparr> c_Protocols := c_Protocols c \<rparr>)" if "c_Protocols r = []" for r
    by (rule dec_fields_jopt, simp add: f_def Conditions_fields_def)
       (use that in \<open>auto simp: f_def Conditions_fields_def fld_def dec_strings\<close>)
  show ?thesis
    unfolding enc_Conditions_def dec_struct.simps dec_fields_append f_def [symmetric]
    by (simp add: 1 2 3 4 5 6 no_conditions_def)
qed

lemma dec_enc_Rule [jsimps]: "dec_struct Rule_fields (enc_Rule r) zero_Rule = Some r"
  by (cases r)
     (simp add: enc_Rule_def Rule_fields_def find_field_def fld_def zero_Rule_def dec_enc_Conditions)

lemma dec_enc_Group [jsimps]: "dec_struct Group_fields (enc_Group g) zero_Group = Some g"
  by (cases g)
     (auto simp: enc_Group_def Group_fields_def find_field_def fld_def zero_Group_def jopt_def
        dec_slice_enc dec_enc_Rule)

lemma dec_enc_Model [jsimps]: "dec_Model (enc_Model m) = Some m"
  by (cases m)
     (auto simp: dec_Model_def enc_Model_def Model_fields_def find_field_def fld_def zero_Model_def
        dec_slice_enc dec_enc_Group)

section \<open>Validation\<close>

lemma Rule_Validate_None:
  "Rule_Validate re r = None \<longleftrightarrow>
     ru_ID r \<noteq> [] \<and> Action_Valid (ru_Action r) \<and> \<not> IsEmpty (ru_Conditions r) \<and>
     (\<forall>p \<in> set (c_Ports (ru_Conditions r)). \<forall>i. check_port i p = None) \<and>
     (\<forall>d \<in> set (c_Domains (ru_Conditions r)). \<forall>i. check_domain re i d = None) \<and>
     (\<forall>s \<in> set (c_IPCIDRs (ru_Conditions r)). ParseCIDR s \<or> ParseIP s) \<and>
     (\<forall>g \<in> set (c_Geo (ru_Conditions r)). HasPrefix g ''geosite:'' \<or> HasPrefix g ''geoip:'')"
proof -
  have p: "range_err check_port ps = None \<longleftrightarrow> (\<forall>p \<in> set ps. \<forall>i. check_port i p = None)" for ps
    by (rule range_err_set) (simp add: check_port_def)
  have d: "range_err (check_domain re) ds = None \<longleftrightarrow> (\<forall>d \<in> set ds. \<forall>i. check_domain re i d = None)"
    for ds by (rule range_err_set) (simp add: check_domain_def)
  have c: "range_err check_cidr ss = None \<longleftrightarrow> (\<forall>s \<in> set ss. \<forall>i. check_cidr i s = None)" for ss
    by (rule range_err_set) (simp add: check_cidr_def)
  have g: "range_err check_geo gs = None \<longleftrightarrow> (\<forall>g \<in> set gs. \<forall>i. check_geo i g = None)" for gs
    by (rule range_err_set) (simp add: check_geo_def)
  show ?thesis
    unfolding Rule_Validate_def
    by (simp add: p d c g) (simp add: check_cidr_def check_geo_def; blast)
qed

lemma check_port_None:
  "check_port i p = None \<longleftrightarrow>
     (ps_Single p \<noteq> 0 \<and> ps_From p = 0 \<and> ps_To p = 0) \<or>
     (ps_Single p = 0 \<and> ps_From p \<noteq> 0 \<and> ps_From p \<le> ps_To p)"
  by (auto simp: check_port_def not_less word_neq_0_conv)

lemma check_domain_None:
  "check_domain re i d = None \<longleftrightarrow>
     dm_Kind d \<in> set domain_kinds \<and> dm_Value d \<noteq> [] \<and> (dm_Kind d = ''regex'' \<longrightarrow> re (dm_Value d))"
  by (auto simp: check_domain_def)

lemma Model_Validate_None:
  "Model_Validate re m = None \<longleftrightarrow>
     Action_Valid (m_DefaultAction m) \<and>
     (\<forall>g \<in> set (m_Groups m). \<forall>r \<in> set (g_Rules g). Rule_Validate re r = None)"
  by (auto simp: Model_Validate_def range_err_None all_set_conv_all_nth)

lemma DefaultModel_Validate: "Model_Validate re DefaultModel = None"
proof -
  have "ParseCIDR ''10.0.0.0/8''" "ParseCIDR ''172.16.0.0/12''" "ParseCIDR ''192.168.0.0/16''"
    "ParseCIDR ''127.0.0.0/8''" "ParseCIDR ''fc00::/7''" "ParseCIDR ''fe80::/10''"
    "ParseCIDR ''224.0.0.0/4''" by code_simp+
  then show ?thesis
    by (simp add: Model_Validate_None DefaultModel_def Action_Valid_def Rule_Validate_None
        no_conditions_def IsEmpty_def ActionProxy_def ActionDirect_def)
qed

section \<open>What the compiler writes\<close>

text \<open>
  Reading a compiled rule back: the strings of an array, the ports, the domain matchers of each
  kind, the geo names.
\<close>

definition strs :: "string \<Rightarrow> json \<Rightarrow> string list" where
  "strs k j = (case jget j k of Some v \<Rightarrow> List.map_filter jstr (jelems v) | None \<Rightarrow> [])"

definition nums :: "string \<Rightarrow> json \<Rightarrow> int list" where
  "nums k j = (case jget j k of Some v \<Rightarrow> List.map_filter jnum (jelems v) | None \<Rightarrow> [])"

definition single_port :: "int \<Rightarrow> PortSpec" where
  "single_port n = \<lparr> ps_Single = word_of_int n, ps_From = 0, ps_To = 0 \<rparr>"

definition range_port :: "string \<Rightarrow> PortSpec" where
  "range_port s = \<lparr> ps_Single = 0,
     ps_From = of_nat (digits_val (takeWhile is_digit s)),
     ps_To = of_nat (digits_val (tl (dropWhile is_digit s))) \<rparr>"

definition geo_name :: "string \<Rightarrow> string" where
  "geo_name t = (if HasPrefix t ''geosite-'' then ''geosite:'' @ TrimPrefix t ''geosite-''
                 else ''geoip:'' @ TrimPrefix t ''geoip-'')"

definition matchers :: "string \<Rightarrow> string \<Rightarrow> json \<Rightarrow> DomainMatcher list" where
  "matchers k kind j = map (\<lambda>v. \<lparr> dm_Kind = kind, dm_Value = v \<rparr>) (strs k j)"

definition decompile :: "json \<Rightarrow> Conditions" where
  "decompile j =
     \<lparr> c_Processes = strs ''process_name'' j,
       c_Domains = matchers ''domain'' ''exact'' j @ matchers ''domain_suffix'' ''suffix'' j
         @ matchers ''domain_keyword'' ''keyword'' j @ matchers ''domain_regex'' ''regex'' j,
       c_IPCIDRs = strs ''ip_cidr'' j,
       c_Geo = map geo_name (strs ''rule_set'' j),
       c_Ports = map single_port (nums ''port'' j) @ map range_port (strs ''port_range'' j),
       c_Protocols = strs ''network'' j \<rparr>"

lemma is_obj_set_arr [jsimps, simp]: "is_obj (set_arr k v j) = is_obj j"
  by (simp add: set_arr_def)

lemma jget_set_arr [jsimps, simp]:
  "is_obj j \<Longrightarrow> jget (set_arr k v j) k' = (if k' = k \<and> v \<noteq> [] then Some (JArr v) else jget j k')"
  by (auto simp: set_arr_def)

lemma jget_compileRule:
  "jget (compileRule r) k =
     (let c = ru_Conditions r;
          arr = (\<lambda>v. if v = [] then None else Some (JArr v))
      in if k = ''outbound'' then Some (JStr (ru_Action r))
         else if k = ''process_name'' then arr (toAny (c_Processes c))
         else if k = ''ip_cidr'' then arr (toAny (c_IPCIDRs c))
         else if k = ''network'' then arr (toAny (c_Protocols c))
         else if k = ''port'' then arr (port_singles (c_Ports c))
         else if k = ''port_range'' then arr (port_ranges (c_Ports c))
         else if k = ''domain'' then arr (domains_of ''exact'' (c_Domains c))
         else if k = ''domain_suffix'' then arr (domains_of ''suffix'' (c_Domains c))
         else if k = ''domain_keyword'' then arr (domains_of ''keyword'' (c_Domains c))
         else if k = ''domain_regex'' then arr (domains_of ''regex'' (c_Domains c))
         else if k = ''rule_set'' then arr (rule_sets (c_Geo c))
         else None)"
  unfolding compileRule_def Let_def by (auto split: if_splits)

lemma map_filter_jstr [simp]: "List.map_filter jstr (map JStr xs) = xs"
  by (induction xs) (auto simp: List.map_filter_simps)

lemma map_filter_jnum [simp]: "List.map_filter jnum (map JNum xs) = xs"
  by (induction xs) (auto simp: List.map_filter_simps)

lemma strs_arr:
  "jget j k = (if v = [] then None else Some (JArr v)) \<Longrightarrow> strs k j = List.map_filter jstr v"
  by (simp add: strs_def List.map_filter_simps split: if_splits)

lemma nums_arr:
  "jget j k = (if v = [] then None else Some (JArr v)) \<Longrightarrow> nums k j = List.map_filter jnum v"
  by (simp add: nums_def List.map_filter_simps split: if_splits)

lemma strs_compileRule:
  "strs ''process_name'' (compileRule r) = c_Processes (ru_Conditions r)"
  "strs ''ip_cidr'' (compileRule r) = c_IPCIDRs (ru_Conditions r)"
  "strs ''network'' (compileRule r) = c_Protocols (ru_Conditions r)"
  "strs ''port_range'' (compileRule r) = List.map_filter jstr (port_ranges (c_Ports (ru_Conditions r)))"
  "nums ''port'' (compileRule r) = List.map_filter jnum (port_singles (c_Ports (ru_Conditions r)))"
  "strs ''domain'' (compileRule r) = List.map_filter jstr (domains_of ''exact'' (c_Domains (ru_Conditions r)))"
  "strs ''domain_suffix'' (compileRule r) = List.map_filter jstr (domains_of ''suffix'' (c_Domains (ru_Conditions r)))"
  "strs ''domain_keyword'' (compileRule r) = List.map_filter jstr (domains_of ''keyword'' (c_Domains (ru_Conditions r)))"
  "strs ''domain_regex'' (compileRule r) = List.map_filter jstr (domains_of ''regex'' (c_Domains (ru_Conditions r)))"
  "strs ''rule_set'' (compileRule r) = List.map_filter geo_tag (c_Geo (ru_Conditions r))"
  by (subst strs_arr nums_arr, simp add: jget_compileRule Let_def, simp add: toAny_def rule_sets_def)+

lemma matchers_domains_of:
  "map (\<lambda>v. \<lparr> dm_Kind = k, dm_Value = v \<rparr>) (List.map_filter jstr (domains_of k ds))
     = filter (\<lambda>d. dm_Kind d = k) ds"
  by (induction ds) (auto simp: List.map_filter_simps)

lemma mset_by_kind:
  assumes "\<forall>d \<in> set ds. dm_Kind d \<in> set domain_kinds"
  shows "mset (filter (\<lambda>d. dm_Kind d = ''exact'') ds @ filter (\<lambda>d. dm_Kind d = ''suffix'') ds
     @ filter (\<lambda>d. dm_Kind d = ''keyword'') ds @ filter (\<lambda>d. dm_Kind d = ''regex'') ds) = mset ds"
  using assms by (induction ds) (auto simp: domain_kinds_def)

lemma takeWhile_nat_str: "takeWhile is_digit (nat_str n @ CHR '':'' # s) = nat_str n"
  by (simp add: takeWhile_append takeWhile_eq_all_conv nat_str_digits)

lemma dropWhile_nat_str: "dropWhile is_digit (nat_str n @ CHR '':'' # s) = CHR '':'' # s"
  by (simp add: dropWhile_append nat_str_digits)

lemma singles_back:
  assumes "\<forall>p \<in> set ps. \<forall>i. check_port i p = None"
  shows "map single_port (List.map_filter jnum (port_singles ps)) = filter (\<lambda>p. ps_Single p \<noteq> 0) ps"
  using assms by (induction ps) (auto simp: List.map_filter_simps single_port_def check_port_None)

lemma ranges_back:
  assumes "\<forall>p \<in> set ps. \<forall>i. check_port i p = None"
  shows "map range_port (List.map_filter jstr (port_ranges ps)) = filter (\<lambda>p. ps_Single p = 0) ps"
  using assms
  by (induction ps)
     (auto simp: List.map_filter_simps range_port_def takeWhile_nat_str dropWhile_nat_str)

lemma mset_ports: "mset (filter (\<lambda>p. ps_Single p \<noteq> 0) ps @ filter (\<lambda>p. ps_Single p = 0) ps) = mset ps"
  by (induction ps) auto

lemma geo_back:
  assumes "\<forall>g \<in> set gs. HasPrefix g ''geosite:'' \<or> HasPrefix g ''geoip:''"
  shows "map geo_name (List.map_filter geo_tag gs) = gs"
  using assms
proof (induction gs)
  case (Cons g gs)
  have "\<exists>t. geo_tag g = Some t \<and> geo_name t = g"
  proof (cases "HasPrefix g ''geosite:''")
    case True
    then obtain s where "g = ''geosite:'' @ s" by (metis HasPrefix_TrimPrefix)
    then show ?thesis by (simp add: geo_tag_def geo_name_def HasPrefix_def TrimPrefix_def)
  next
    case False
    with Cons.prems obtain s where "g = ''geoip:'' @ s" by (metis HasPrefix_TrimPrefix list.set_intros(1))
    then show ?thesis by (simp add: geo_tag_def geo_name_def HasPrefix_def TrimPrefix_def)
  qed
  with Cons show ?case by (auto simp: List.map_filter_simps)
qed (simp add: List.map_filter_simps)


text \<open>A rule with the same conditions, up to the order in which ports and domains are listed.\<close>

definition same_conditions :: "Conditions \<Rightarrow> Conditions \<Rightarrow> bool" where
  "same_conditions c d \<longleftrightarrow>
     c_Processes c = c_Processes d \<and> mset (c_Domains c) = mset (c_Domains d) \<and>
     c_IPCIDRs c = c_IPCIDRs d \<and> c_Geo c = c_Geo d \<and>
     mset (c_Ports c) = mset (c_Ports d) \<and> c_Protocols c = c_Protocols d"

lemma decompile_compileRule:
  assumes "Rule_Validate re r = None"
  shows "same_conditions (decompile (compileRule r)) (ru_Conditions r)"
proof -
  let ?c = "ru_Conditions r"
  from assms have ports: "\<forall>p \<in> set (c_Ports ?c). \<forall>i. check_port i p = None"
    and doms: "\<forall>d \<in> set (c_Domains ?c). dm_Kind d \<in> set domain_kinds"
    and geo: "\<forall>g \<in> set (c_Geo ?c). HasPrefix g ''geosite:'' \<or> HasPrefix g ''geoip:''"
    by (auto simp: Rule_Validate_None check_domain_None)
  show ?thesis
    unfolding same_conditions_def decompile_def matchers_def strs_compileRule matchers_domains_of
    using mset_by_kind [OF doms] mset_ports [of "c_Ports ?c"]
    by (simp add: singles_back [OF ports] ranges_back [OF ports] geo_back [OF geo])
qed

text \<open>Two rules with the same conditions are both empty or both not.\<close>

lemma same_conditions_empty: "same_conditions c d \<Longrightarrow> IsEmpty c \<longleftrightarrow> IsEmpty d"
  unfolding same_conditions_def IsEmpty_def by (auto dest: mset_eq_length)

definition condition_keys :: "string list" where
  "condition_keys = [''process_name'', ''ip_cidr'', ''network'', ''port'', ''port_range'', ''domain'',
     ''domain_suffix'', ''domain_keyword'', ''domain_regex'', ''rule_set'']"

lemma decompile_no_keys:
  assumes "\<forall>k \<in> set condition_keys. jget j k = None"
  shows "IsEmpty (decompile j)"
  using assms
  by (simp add: condition_keys_def decompile_def IsEmpty_def strs_def nums_def matchers_def)

definition active_rules :: "Model \<Rightarrow> Rule list" where
  "active_rules m = filter ru_Enabled (concat (map g_Rules (filter g_Enabled (m_Groups m))))"

lemma compile_rules_filter: "compile_rules rs = map compileRule (filter ru_Enabled rs)"
  by (induction rs) auto

lemma compile_groups_active: "compile_groups (m_Groups m) = map compileRule (active_rules m)"
proof -
  have "compile_groups gs
      = map compileRule (filter ru_Enabled (concat (map g_Rules (filter g_Enabled gs))))" for gs
    by (induction gs) (auto simp: compile_rules_filter)
  then show ?thesis by (simp add: active_rules_def)
qed

lemma Compile_Inr:
  "Compile re m = Inr doc \<longleftrightarrow> Model_Validate re m = None \<and>
     doc = jset ''rules'' (JArr (map compileRule (active_rules m)))
             (JObj [(''final'', JStr (m_DefaultAction m))])"
  by (auto simp: Compile_def compile_groups_active split: option.splits)

lemma active_rules_valid:
  "Model_Validate re m = None \<Longrightarrow> r \<in> set (active_rules m) \<Longrightarrow> Rule_Validate re r = None"
  by (auto simp: Model_Validate_None active_rules_def)

section \<open>Properties\<close>

text \<open>
  C8. A model that validates compiles, and the compiled route block has exactly one entry for each
  enabled rule of each enabled group, in order, under the default action. From each entry
  the rule's action and all of its conditions can be read back: none is lost or added.
\<close>

theorem Compile_faithful:
  assumes "Model_Validate re m = None"
  shows "\<exists>doc. Compile re m = Inr doc \<and>
     jget doc ''final'' = Some (JStr (m_DefaultAction m)) \<and>
     (\<exists>es. jget doc ''rules'' = Some (JArr es) \<and>
        list_all2 (\<lambda>e r. jget e ''outbound'' = Some (JStr (ru_Action r)) \<and>
                         same_conditions (decompile e) (ru_Conditions r)) es (active_rules m))"
proof -
  let ?es = "map compileRule (active_rules m)"
  have "list_all2 (\<lambda>e r. jget e ''outbound'' = Some (JStr (ru_Action r)) \<and>
      same_conditions (decompile e) (ru_Conditions r)) ?es (active_rules m)"
    using assms
    by (auto simp: list_all2_conv_all_nth jget_compileRule Let_def
        intro!: decompile_compileRule active_rules_valid)
  with assms show ?thesis by (auto simp: Compile_Inr)
qed

theorem Compile_faithful_witness:
  "\<exists>doc. Compile (\<lambda>_. True) DefaultModel = Inr doc \<and>
     jget doc ''final'' = Some (JStr (m_DefaultAction DefaultModel)) \<and>
     (\<exists>es. jget doc ''rules'' = Some (JArr es) \<and>
        list_all2 (\<lambda>e r. jget e ''outbound'' = Some (JStr (ru_Action r)) \<and>
                         same_conditions (decompile e) (ru_Conditions r)) es
          (active_rules DefaultModel))"
  by (rule Compile_faithful) (rule DefaultModel_Validate)

text \<open>
  No rule that validates compiles to a catch-all: the compiled object always has at least one
  of the condition keys, so it never captures every flow.
\<close>

theorem compileRule_has_condition:
  assumes "Rule_Validate re r = None"
  shows "\<exists>k \<in> set condition_keys. jget (compileRule r) k \<noteq> None"
proof (rule ccontr)
  assume "\<not> ?thesis"
  then have "IsEmpty (decompile (compileRule r))" by (intro decompile_no_keys) auto
  then have "IsEmpty (ru_Conditions r)"
    using decompile_compileRule [OF assms] same_conditions_empty by blast
  with assms show False by (simp add: Rule_Validate_None)
qed

definition sample_rule :: Rule where
  "sample_rule = \<lparr> ru_ID = ''r1'', ru_Name = ''web'', ru_Enabled = True, ru_Action = ''block'',
     ru_Conditions = no_conditions \<lparr>
       c_Domains := [\<lparr> dm_Kind = ''suffix'', dm_Value = ''example.org'' \<rparr>],
       c_Geo := [''geoip:ru''],
       c_Ports := [\<lparr> ps_Single = 443, ps_From = 0, ps_To = 0 \<rparr>,
                   \<lparr> ps_Single = 0, ps_From = 8000, ps_To = 8080 \<rparr>] \<rparr> \<rparr>"

lemma sample_rule_valid: "Rule_Validate re sample_rule = None"
  by (simp add: sample_rule_def Rule_Validate_None Action_Valid_def ActionBlock_def ActionProxy_def
      ActionDirect_def no_conditions_def IsEmpty_def check_port_None check_domain_None domain_kinds_def
      HasPrefix_def)

theorem compileRule_has_condition_witness:
  "Rule_Validate (\<lambda>_. True) sample_rule = None \<and>
   (\<exists>k \<in> set condition_keys. jget (compileRule sample_rule) k \<noteq> None)"
  using compileRule_has_condition [OF sample_rule_valid] sample_rule_valid by blast

text \<open>
  What is saved is what is loaded: after a successful \<^verbatim>\<open>Save\<close> of a model, \<^verbatim>\<open>Load\<close> returns that
  model, except that an empty default action is read as proxy; after a failed one, \<^verbatim>\<open>Load\<close> returns
  what it returned before.
\<close>

theorem Load_Save:
  "Load (snd (Save ok m f)) =
     (if ok then (if m_DefaultAction m = [] then m \<lparr> m_DefaultAction := ActionProxy \<rparr> else m)
      else Load f)"
  by (simp add: Save_def Load_def dec_enc_Model)

text \<open>
  A missing, unreadable or corrupt \<^verbatim>\<open>rules.json\<close> never blocks the route compiler: for such a file the
  loaded model compiles, and for every file the loaded default action is not empty.
\<close>

theorem Load_never_blocks:
  "m_DefaultAction (Load f) \<noteq> [] \<and>
   ((\<exists>j. f = Tree j \<and> dec_Model j \<noteq> None) \<or> (\<exists>doc. Compile re (Load f) = Inr doc))"
proof -
  have "\<exists>doc. Compile re DefaultModel = Inr doc"
    using DefaultModel_Validate by (simp add: Compile_Inr)
  moreover have "m_DefaultAction DefaultModel \<noteq> []" "ActionProxy \<noteq> []"
    by (simp_all add: DefaultModel_def ActionProxy_def)
  ultimately show ?thesis by (cases f) (auto simp: Load_def split: option.splits)
qed

end
