(* ===== verification/Json_Text.thy ===== *)
theory Json_Text
  imports Json
begin

text \<open>
  The text of JSON documents: what \<^verbatim>\<open>json.Marshal\<close> prints and what \<^verbatim>\<open>json.Unmarshal\<close> scans.
  The printer escapes as the package does (quotes, backslashes, control characters, the HTML
  characters, U+2028 and U+2029; a byte that is not part of a UTF-8 sequence becomes U+FFFD). The
  scanner accepts the JSON grammar with white space, all escapes and surrogate pairs. The one
  limit of the package that is left out is its nesting depth of 10000.

  The main fact is \<open>json_parse_print\<close>: a tree whose strings are UTF-8 is read back from its text.
\<close>

section \<open>UTF-8\<close>

abbreviation byte :: "char \<Rightarrow> nat" where "byte c \<equiv> of_char c"

definition cont :: "char \<Rightarrow> bool" where
  "cont c \<longleftrightarrow> 128 \<le> byte c \<and> byte c < 192"

text \<open>
  \<^verbatim>\<open>utf8.DecodeRuneInString\<close>: the length of the well-formed sequence at the head, 0 when there is
  none.
\<close>

fun rune_len :: "string \<Rightarrow> nat" where
  "rune_len [] = 0"
| "rune_len (a # s) =
     (if byte a < 128 then 1
      else if 194 \<le> byte a \<and> byte a < 224 then
        (case s of b # _ \<Rightarrow> (if cont b then 2 else 0) | [] \<Rightarrow> 0)
      else if 224 \<le> byte a \<and> byte a < 240 then
        (case s of b # c # _ \<Rightarrow>
           (if cont b \<and> cont c \<and> (byte a = 224 \<longrightarrow> 160 \<le> byte b) \<and> (byte a = 237 \<longrightarrow> byte b < 160)
            then 3 else 0) | _ \<Rightarrow> 0)
      else if 240 \<le> byte a \<and> byte a < 245 then
        (case s of b # c # d # _ \<Rightarrow>
           (if cont b \<and> cont c \<and> cont d \<and> (byte a = 240 \<longrightarrow> 144 \<le> byte b)
               \<and> (byte a = 244 \<longrightarrow> byte b < 144)
            then 4 else 0) | _ \<Rightarrow> 0)
      else 0)"

lemma rune_len_le: "rune_len s \<le> length s"
  by (cases s rule: rune_len.cases) (auto split: list.splits)

function utf8_ok :: "string \<Rightarrow> bool" where
  "utf8_ok s = (if s = [] then True else if rune_len s = 0 then False
                else utf8_ok (drop (rune_len s) s))"
  by pat_completeness auto
termination by (relation "measure length") auto

declare utf8_ok.simps [simp del]

definition rune_error :: string where
  "rune_error = [CHR 0xEF, CHR 0xBF, CHR 0xBD]"

text \<open>\<^verbatim>\<open>utf8.AppendRune\<close> for a code point that is not a surrogate.\<close>

definition utf8_enc :: "nat \<Rightarrow> string" where
  "utf8_enc n =
     (if n < 128 then [char_of n]
      else if n < 2048 then [char_of (192 + n div 64), char_of (128 + n mod 64)]
      else if n < 65536 then
        [char_of (224 + n div 4096), char_of (128 + n div 64 mod 64), char_of (128 + n mod 64)]
      else [char_of (240 + n div 262144), char_of (128 + n div 4096 mod 64),
            char_of (128 + n div 64 mod 64), char_of (128 + n mod 64)])"

section \<open>Printing\<close>

definition hex_char :: "nat \<Rightarrow> char" where
  "hex_char d = (if d < 10 then char_of (48 + d) else char_of (87 + d))"

definition esc_ascii :: "char \<Rightarrow> string" where
  "esc_ascii c =
     (if c = CHR 0x22 \<or> c = CHR 0x5C then [CHR 0x5C, c]
      else if c = CHR 0x08 then [CHR 0x5C, CHR ''b'']
      else if c = CHR 0x0C then [CHR 0x5C, CHR ''f'']
      else if c = CHR 0x0A then [CHR 0x5C, CHR ''n'']
      else if c = CHR 0x0D then [CHR 0x5C, CHR ''r'']
      else if c = CHR 0x09 then [CHR 0x5C, CHR ''t'']
      else if byte c < 32 \<or> c = CHR ''<'' \<or> c = CHR ''>'' \<or> c = CHR ''&''
        then [CHR 0x5C, CHR ''u'', CHR ''0'', CHR ''0'', hex_char (byte c div 16), hex_char (byte c mod 16)]
      else [c])"

definition line_sep :: string where "line_sep = [CHR 0xE2, CHR 0x80, CHR 0xA8]"
definition para_sep :: string where "para_sep = [CHR 0xE2, CHR 0x80, CHR 0xA9]"

function print_str :: "string \<Rightarrow> string" where
  "print_str s =
     (if s = [] then []
      else if byte (hd s) < 128 then esc_ascii (hd s) @ print_str (tl s)
      else if rune_len s = 0 then CHR 0x5C # ''ufffd'' @ print_str (tl s)
      else if take 3 s = line_sep then CHR 0x5C # ''u2028'' @ print_str (drop 3 s)
      else if take 3 s = para_sep then CHR 0x5C # ''u2029'' @ print_str (drop 3 s)
      else take (rune_len s) s @ print_str (drop (rune_len s) s))"
  by pat_completeness auto
termination by (relation "measure length") (auto simp: line_sep_def para_sep_def)

declare print_str.simps [simp del]

lemma print_str_unescaped: "list_all (\<lambda>c. byte c < 128 \<and> esc_ascii c = [c]) s \<Longrightarrow> print_str s = s"
  by (induction s) (simp_all add: print_str.simps)

definition quote :: "string \<Rightarrow> string" where
  "quote s = CHR 0x22 # print_str s @ [CHR 0x22]"

fun commas :: "string list \<Rightarrow> string" where
  "commas [] = []"
| "commas [x] = x"
| "commas (x # xs) = x @ CHR '','' # commas xs"

fun json_print :: "json \<Rightarrow> string" where
  "json_print JNull = ''null''"
| "json_print (JBool b) = (if b then ''true'' else ''false'')"
| "json_print (JNum n) = int_str n"
| "json_print (JFloat s) = s"
| "json_print (JStr s) = quote s"
| "json_print (JArr xs) = CHR ''['' # commas (map json_print xs) @ '']''"
| "json_print (JObj kvs) =
     CHR ''{'' # commas (map (\<lambda>(k, v). quote k @ CHR '':'' # json_print v) kvs) @ ''}''"

section \<open>Scanning\<close>

definition is_ws :: "char \<Rightarrow> bool" where
  "is_ws c \<longleftrightarrow> c = CHR 0x20 \<or> c = CHR 0x09 \<or> c = CHR 0x0D \<or> c = CHR 0x0A"

abbreviation skip_ws :: "string \<Rightarrow> string" where "skip_ws \<equiv> dropWhile is_ws"

definition hex_val :: "char \<Rightarrow> nat option" where
  "hex_val c =
     (if 48 \<le> byte c \<and> byte c \<le> 57 then Some (byte c - 48)
      else if 97 \<le> byte c \<and> byte c \<le> 102 then Some (byte c - 87)
      else if 65 \<le> byte c \<and> byte c \<le> 70 then Some (byte c - 55)
      else None)"

text \<open>\<^verbatim>\<open>getu4\<close> on the four characters after \<^verbatim>\<open>\u\<close>.\<close>

fun hex4 :: "string \<Rightarrow> nat option" where
  "hex4 (a # b # c # d # _) =
     (case (hex_val a, hex_val b, hex_val c, hex_val d) of
        (Some a, Some b, Some c, Some d) \<Rightarrow> Some (((a * 16 + b) * 16 + c) * 16 + d)
      | _ \<Rightarrow> None)"
| "hex4 _ = None"

text \<open>The text a \<^verbatim>\<open>\u\<close> escape stands for and the input after it (\<open>s\<close> starts at the hex digits).\<close>

definition unicode_esc :: "string \<Rightarrow> (string \<times> string) option" where
  "unicode_esc s =
     (case hex4 s of
        None \<Rightarrow> None
      | Some u \<Rightarrow>
          (if 55296 \<le> u \<and> u < 57344 then
             (let r = drop 4 s in
              case (if take 2 r = [CHR 0x5C, CHR ''u''] then hex4 (drop 2 r) else None) of
                Some v \<Rightarrow>
                  (if u < 56320 \<and> 56320 \<le> v \<and> v < 57344
                   then Some (utf8_enc (65536 + (u - 55296) * 1024 + (v - 56320)), drop 6 r)
                   else Some (rune_error, r))
              | None \<Rightarrow> Some (rune_error, r))
           else Some (utf8_enc u, drop 4 s)))"

definition simple_esc :: "char \<Rightarrow> char option" where
  "simple_esc c =
     map_of [(CHR 0x22, CHR 0x22), (CHR 0x5C, CHR 0x5C), (CHR ''/'', CHR ''/''),
             (CHR ''b'', CHR 0x08), (CHR ''f'', CHR 0x0C), (CHR ''n'', CHR 0x0A),
             (CHR ''r'', CHR 0x0D), (CHR ''t'', CHR 0x09)] c"

text \<open>The rest of a string literal after its opening quote.\<close>

lemma unicode_esc_shorter: "unicode_esc s = Some (t, r) \<Longrightarrow> length r < length s"
  by (cases s rule: hex4.cases)
     (auto simp: unicode_esc_def Let_def split: option.splits if_splits)

function parse_str :: "string \<Rightarrow> (string \<times> string) option" where
  "parse_str s =
     (case s of
        [] \<Rightarrow> None
      | c # cs \<Rightarrow>
          (if c = CHR 0x22 then Some ([], cs)
           else if c = CHR 0x5C then
             (case cs of
                [] \<Rightarrow> None
              | e # es \<Rightarrow>
                  (if e = CHR ''u'' then
                     (case unicode_esc es of
                        None \<Rightarrow> None
                      | Some (t, r) \<Rightarrow> map_option (apfst (\<lambda>x. t @ x)) (parse_str r))
                   else
                     (case simple_esc e of
                        None \<Rightarrow> None
                      | Some d \<Rightarrow> map_option (apfst (\<lambda>x. d # x)) (parse_str es))))
           else if byte c < 32 then None
           else if rune_len s = 0 then map_option (apfst (\<lambda>x. rune_error @ x)) (parse_str cs)
           else map_option (apfst (\<lambda>x. take (rune_len s) s @ x)) (parse_str (drop (rune_len s) s))))"
  by pat_completeness auto
termination
proof (relation "measure length", goal_cases)
  case (2 s c cs e es x t r)
  then show ?case using unicode_esc_shorter [of es t r] by simp
qed auto

declare parse_str.simps [simp del]

section \<open>Numbers\<close>

text \<open>The number literal at the head of the input: an integer, or a literal kept as text.\<close>

definition digits1 :: "string \<Rightarrow> (string \<times> string) option" where
  "digits1 s = (if takeWhile is_digit s = [] then None
                else Some (takeWhile is_digit s, dropWhile is_digit s))"

definition int_part :: "string \<Rightarrow> (string \<times> string) option" where
  "int_part s = (case s of [] \<Rightarrow> None
     | c # cs \<Rightarrow> (if c = CHR ''0'' then Some (''0'', cs) else digits1 s))"

definition frac_part :: "string \<Rightarrow> (string \<times> string) option" where
  "frac_part s = (case s of
       c # cs \<Rightarrow> (if c = CHR ''.''
                  then map_option (apfst (\<lambda>x. CHR ''.'' # x)) (digits1 cs) else Some ([], s))
     | [] \<Rightarrow> Some ([], s))"

definition exp_part :: "string \<Rightarrow> (string \<times> string) option" where
  "exp_part s = (case s of
       c # cs \<Rightarrow>
         (if c = CHR ''e'' \<or> c = CHR ''E'' then
            (case cs of
               d # ds \<Rightarrow> (if d = CHR ''+'' \<or> d = CHR ''-''
                           then map_option (apfst (\<lambda>x. c # d # x)) (digits1 ds)
                           else map_option (apfst (\<lambda>x. c # x)) (digits1 cs))
             | [] \<Rightarrow> None)
          else Some ([], s))
     | [] \<Rightarrow> Some ([], s))"

definition parse_num :: "string \<Rightarrow> (json \<times> string) option" where
  "parse_num s =
     (let neg = HasPrefix s ''-''; t = TrimPrefix s ''-'' in
      case int_part t of None \<Rightarrow> None | Some (i, r) \<Rightarrow>
      (case frac_part r of None \<Rightarrow> None | Some (f, r) \<Rightarrow>
      (case exp_part r of None \<Rightarrow> None | Some (e, r) \<Rightarrow>
        Some (if f = [] \<and> e = []
              then JNum (if neg then - int (digits_val i) else int (digits_val i))
              else JFloat ((if neg then ''-'' else []) @ i @ f @ e), r))))"

section \<open>Values\<close>

text \<open>Recursive descent; the fuel is the length of the input, which is always enough.\<close>

fun parse_val :: "nat \<Rightarrow> string \<Rightarrow> (json \<times> string) option"
and parse_elems :: "nat \<Rightarrow> string \<Rightarrow> (json list \<times> string) option"
and parse_members :: "nat \<Rightarrow> string \<Rightarrow> ((string \<times> json) list \<times> string) option" where
  "parse_val 0 s = None"
| "parse_val (Suc n) s =
     (case skip_ws s of
        [] \<Rightarrow> None
      | c # cs \<Rightarrow>
          (if c = CHR ''{'' then
             (if HasPrefix (skip_ws cs) ''}'' then Some (JObj [], tl (skip_ws cs))
              else map_option (apfst JObj) (parse_members n cs))
           else if c = CHR ''['' then
             (if HasPrefix (skip_ws cs) '']'' then Some (JArr [], tl (skip_ws cs))
              else map_option (apfst JArr) (parse_elems n cs))
           else if c = CHR 0x22 then map_option (apfst JStr) (parse_str cs)
           else if HasPrefix (c # cs) ''null'' then Some (JNull, drop 3 cs)
           else if HasPrefix (c # cs) ''true'' then Some (JBool True, drop 3 cs)
           else if HasPrefix (c # cs) ''false'' then Some (JBool False, drop 4 cs)
           else parse_num (c # cs)))"
| "parse_elems 0 s = None"
| "parse_elems (Suc n) s =
     (case parse_val n s of
        None \<Rightarrow> None
      | Some (v, r) \<Rightarrow>
          (case skip_ws r of
             [] \<Rightarrow> None
           | c # cs \<Rightarrow>
               (if c = CHR '','' then map_option (apfst (\<lambda>vs. v # vs)) (parse_elems n cs)
                else if c = CHR '']'' then Some ([v], cs)
                else None)))"
| "parse_members 0 s = None"
| "parse_members (Suc n) s =
     (case skip_ws s of
        [] \<Rightarrow> None
      | q # qs \<Rightarrow>
          (if q \<noteq> CHR 0x22 then None
           else case parse_str qs of
             None \<Rightarrow> None
           | Some (k, r) \<Rightarrow>
               (case skip_ws r of
                  [] \<Rightarrow> None
                | d # ds \<Rightarrow>
                    (if d \<noteq> CHR '':'' then None
                     else case parse_val n ds of
                       None \<Rightarrow> None
                     | Some (v, r) \<Rightarrow>
                         (case skip_ws r of
                            [] \<Rightarrow> None
                          | c # cs \<Rightarrow>
                              (if c = CHR '','' then
                                 map_option (apfst (\<lambda>kvs. (k, v) # kvs)) (parse_members n cs)
                               else if c = CHR ''}'' then Some ([(k, v)], cs)
                               else None))))))"

definition json_parse :: "string \<Rightarrow> json option" where
  "json_parse s =
     (case parse_val (2 * length s) s of
        Some (v, r) \<Rightarrow> (if skip_ws r = [] then Some v else None)
      | None \<Rightarrow> None)"


section \<open>Reading back what was printed\<close>

subsection \<open>Strings\<close>

lemma char_consts:
  "char_of (226 :: nat) = CHR 0xE2" "char_of (128 :: nat) = CHR 0x80" "char_of (168 :: nat) = CHR 0xA8"
  "char_of (169 :: nat) = CHR 0xA9" "char_of (48 :: nat) = CHR ''0''"
  by code_simp+

lemma hex_val_char [simp]: "d < 16 \<Longrightarrow> hex_val (hex_char d) = Some d"
  by (auto simp: hex_val_def hex_char_def of_char_of)

lemma hex_val_zero [simp]: "hex_val (CHR ''0'') = Some 0"
  by (simp add: hex_val_def)

lemma unicode_esc_ascii:
  assumes "n < 128"
  shows "unicode_esc (CHR ''0'' # CHR ''0'' # hex_char (n div 16) # hex_char (n mod 16) # r)
    = Some ([char_of n], r)"
  using assms by (simp add: unicode_esc_def utf8_enc_def)

lemma parse_str_quote: "parse_str (CHR 0x22 # r) = Some ([], r)"
  by (simp add: parse_str.simps)

lemma parse_str_esc_ascii:
  assumes "byte c < 128" "parse_str r = Some (t, q)"
  shows "parse_str (esc_ascii c @ r) = Some (c # t, q)"
proof -
  have u: "parse_str (CHR 0x5C # CHR ''u'' # CHR ''0'' # CHR ''0'' # hex_char (byte c div 16)
      # hex_char (byte c mod 16) # r) = Some (c # t, q)"
    using assms by (subst parse_str.simps) (simp add: unicode_esc_ascii)
  have s: "parse_str (CHR 0x5C # e # r) = Some (d # t, q)" if "simple_esc e = Some d" "e \<noteq> CHR ''u''" for e d
    using assms that by (subst parse_str.simps) simp
  have p: "parse_str (c # r) = Some (c # t, q)" if "c \<noteq> CHR 0x22" "c \<noteq> CHR 0x5C" "\<not> byte c < 32"
    using assms that by (subst parse_str.simps) simp
  show ?thesis
    unfolding esc_ascii_def using u p by (auto simp: s simple_esc_def)
qed

lemma rune_len_take: "take (rune_len s) s @ drop (rune_len s) s = s"
  by simp

lemma rune_len_append: "0 < rune_len s \<Longrightarrow> rune_len (take (rune_len s) s @ r) = rune_len s"
  by (cases s rule: rune_len.cases) (auto split: list.splits if_splits)

lemma rune_len_sep: "take 3 s = line_sep \<or> take 3 s = para_sep \<Longrightarrow> rune_len s = 3"
proof -
  assume "take 3 s = line_sep \<or> take 3 s = para_sep"
  then have "\<exists>r. s = line_sep @ r \<or> s = para_sep @ r" by (metis append_take_drop_id)
  then show ?thesis by (auto simp: line_sep_def para_sep_def cont_def)
qed

lemma parse_str_plain:
  assumes "x \<noteq> []" "hd x \<noteq> CHR 0x22" "hd x \<noteq> CHR 0x5C" "\<not> byte (hd x) < 32" "rune_len x \<noteq> 0"
  shows "parse_str x = map_option (apfst (\<lambda>t. take (rune_len x) x @ t)) (parse_str (drop (rune_len x) x))"
  using assms by (subst parse_str.simps) (auto simp: neq_Nil_conv)

lemma parse_str_rune:
  assumes "\<not> byte (hd s) < 128" "0 < rune_len s" "parse_str r = Some (t, q)"
  shows "parse_str (take (rune_len s) s @ r) = Some (take (rune_len s) s @ t, q)"
proof -
  define x where "x = take (rune_len s) s @ r"
  have l: "rune_len x = rune_len s" unfolding x_def using assms(2) by (rule rune_len_append)
  have ne: "s \<noteq> []" using assms(2) by (cases s) auto
  then have h: "x \<noteq> []" "hd x = hd s" using assms(2) by (simp_all add: x_def)
  have "hd x \<noteq> CHR 0x22" "hd x \<noteq> CHR 0x5C" "\<not> byte (hd x) < 32" using assms(1) h by auto
  with h l assms(2) have "parse_str x
      = map_option (apfst (\<lambda>t. take (rune_len x) x @ t)) (parse_str (drop (rune_len x) x))"
    by (intro parse_str_plain) auto
  with l assms(3) rune_len_le [of s] show ?thesis by (simp add: x_def)
qed

lemma utf8_ok_Cons_ascii: "utf8_ok (c # s) \<Longrightarrow> byte c < 128 \<Longrightarrow> utf8_ok s"
  by (subst (asm) utf8_ok.simps) simp

lemma parse_str_sep:
  assumes "parse_str r = Some (t, q)"
  shows "parse_str (CHR 0x5C # ''u2028'' @ r) = Some (line_sep @ t, q)"
    and "parse_str (CHR 0x5C # ''u2029'' @ r) = Some (para_sep @ t, q)"
proof -
  have "unicode_esc (''2028'' @ r) = Some (line_sep, r)"
    by (simp add: unicode_esc_def hex_val_def utf8_enc_def line_sep_def char_consts)
  with assms show "parse_str (CHR 0x5C # ''u2028'' @ r) = Some (line_sep @ t, q)"
    by (subst parse_str.simps) simp
  have "unicode_esc (''2029'' @ r) = Some (para_sep, r)"
    by (simp add: unicode_esc_def hex_val_def utf8_enc_def para_sep_def char_consts)
  with assms show "parse_str (CHR 0x5C # ''u2029'' @ r) = Some (para_sep @ t, q)"
    by (subst parse_str.simps) simp
qed

lemma parse_print_str:
  assumes "utf8_ok s"
  shows "parse_str (print_str s @ CHR 0x22 # r) = Some (s, r)"
  using assms
proof (induction s rule: print_str.induct)
  case (1 s)
  consider "s = []" | "s \<noteq> []" "byte (hd s) < 128"
    | "s \<noteq> []" "\<not> byte (hd s) < 128" "take 3 s = line_sep"
    | "s \<noteq> []" "\<not> byte (hd s) < 128" "take 3 s \<noteq> line_sep" "take 3 s = para_sep"
    | "s \<noteq> []" "\<not> byte (hd s) < 128" "take 3 s \<noteq> line_sep" "take 3 s \<noteq> para_sep" by blast
  then show ?case
  proof cases
    case 1
    then show ?thesis by (simp add: print_str.simps parse_str_quote)
  next
    case 2
    then have "utf8_ok (tl s)" using "1.prems" utf8_ok_Cons_ascii [of "hd s" "tl s"] by simp
    with 2 "1.IH"(1) have "parse_str (print_str (tl s) @ CHR 0x22 # r) = Some (tl s, r)" by blast
    with 2 show ?thesis
      using parse_str_esc_ascii [of "hd s"] by (subst print_str.simps) simp
  next
    case 3
    then have l: "rune_len s = 3" by (simp add: rune_len_sep)
    with 3 "1.prems" have "utf8_ok (drop 3 s)" by (simp add: utf8_ok.simps [of s])
    with 3 l "1.IH"(3) have ih: "parse_str (print_str (drop 3 s) @ CHR 0x22 # r) = Some (drop 3 s, r)"
      by simp
    from 3 have "line_sep @ drop 3 s = s" by (metis append_take_drop_id)
    with 3 l show ?thesis
      using parse_str_sep(1) [OF ih] by (subst print_str.simps) simp
  next
    case 4
    then have l: "rune_len s = 3" by (simp add: rune_len_sep)
    with 4 "1.prems" have "utf8_ok (drop 3 s)" by (simp add: utf8_ok.simps [of s])
    with 4 l "1.IH"(4) have ih: "parse_str (print_str (drop 3 s) @ CHR 0x22 # r) = Some (drop 3 s, r)"
      by simp
    from 4 have "para_sep @ drop 3 s = s" by (metis append_take_drop_id)
    with 4 l show ?thesis
      using parse_str_sep(2) [OF ih] by (subst print_str.simps) simp
  next
    case 5
    with "1.prems" have l: "0 < rune_len s" and u: "utf8_ok (drop (rune_len s) s)"
      by (simp_all add: utf8_ok.simps [of s] split: if_splits)
    with 5 "1.IH"(5)
    have "parse_str (print_str (drop (rune_len s) s) @ CHR 0x22 # r) = Some (drop (rune_len s) s, r)"
      by simp
    from parse_str_rune [OF 5(2) l this] 5 l show ?thesis
      by (subst print_str.simps) simp
  qed
qed

subsection \<open>Numbers\<close>

text \<open>What may follow a number for it to end there.\<close>

definition num_end :: "string \<Rightarrow> bool" where
  "num_end r \<longleftrightarrow> (case r of [] \<Rightarrow> True
     | c # _ \<Rightarrow> \<not> is_digit c \<and> c \<noteq> CHR ''.'' \<and> c \<noteq> CHR ''e'' \<and> c \<noteq> CHR ''E'')"

lemma nat_str_hd_zero: "hd (nat_str n) = CHR ''0'' \<Longrightarrow> n = 0"
proof (induction n rule: nat_str.induct)
  case (1 n)
  show ?case
  proof (cases "n < 10")
    case True
    then have "of_char (hd (nat_str n)) = 48 + n"
      by (simp add: nat_str.simps [of n] digit_char_def of_char_of)
    with 1 show ?thesis by simp
  next
    case False
    with 1 have "n div 10 = 0" by (simp add: nat_str.simps [of n] hd_append)
    with False show ?thesis by simp
  qed
qed

lemma int_part_nat_str:
  assumes "num_end r"
  shows "int_part (nat_str n @ r) = Some (nat_str n, r)"
proof -
  have tw: "takeWhile is_digit (nat_str n @ r) = nat_str n" "dropWhile is_digit (nat_str n @ r) = r"
    using assms by (cases r; auto simp: takeWhile_append dropWhile_append nat_str_digits num_end_def)+
  obtain c cs where s: "nat_str n = c # cs" by (metis neq_Nil_conv nat_str_nonempty)
  show ?thesis
  proof (cases "c = CHR ''0''")
    case True
    with s nat_str_hd_zero [of n] have "n = 0" by simp
    then have "nat_str n = ''0''" by (simp add: nat_str.simps digit_char_def char_consts)
    with s True show ?thesis by (simp add: int_part_def)
  next
    case False
    with s tw show ?thesis by (simp add: int_part_def digits1_def)
  qed
qed

lemma parse_num_int_str:
  assumes "num_end r"
  shows "parse_num (int_str z @ r) = Some (JNum z, r)"
proof -
  have fe: "frac_part r = Some ([], r)" "exp_part r = Some ([], r)"
    using assms by (auto simp: frac_part_def exp_part_def num_end_def split: list.splits)
  show ?thesis
  proof (cases "z < 0")
    case True
    then show ?thesis
      using int_part_nat_str [OF assms, of "nat (- z)"] fe
      by (simp add: parse_num_def int_str_def HasPrefix_def TrimPrefix_def)
  next
    case False
    obtain c cs where s: "nat_str (nat z) = c # cs" by (metis neq_Nil_conv nat_str_nonempty)
    then have "c \<noteq> CHR ''-''" using nat_str_digits [of c "nat z"] by auto
    then have "\<not> HasPrefix (nat_str (nat z) @ r) ''-''" by (simp add: s HasPrefix_def)
    with False show ?thesis
      using int_part_nat_str [OF assms, of "nat z"] fe
      by (simp add: parse_num_def int_str_def TrimPrefix_def)
  qed
qed


subsection \<open>Values\<close>

text \<open>The trees the program builds: UTF-8 strings and integer numbers.\<close>

fun json_ok :: "json \<Rightarrow> bool" where
  "json_ok (JFloat _) = False"
| "json_ok (JStr s) = utf8_ok s"
| "json_ok (JArr xs) = list_all json_ok xs"
| "json_ok (JObj kvs) = list_all (\<lambda>(k, v). utf8_ok k \<and> json_ok v) kvs"
| "json_ok _ = True"

lemma int_str_hd: "\<exists>c cs. int_str z = c # cs \<and> (is_digit c \<or> c = CHR ''-'')"
proof (cases "z < 0")
  case False
  obtain c cs where "nat_str (nat z) = c # cs" by (metis neq_Nil_conv nat_str_nonempty)
  with False show ?thesis using nat_str_digits [of c "nat z"] by (simp add: int_str_def)
qed (simp add: int_str_def)

lemma json_print_hd:
  assumes "json_ok j"
  shows "\<exists>c cs. json_print j = c # cs \<and> \<not> is_ws c \<and> c \<noteq> CHR '']'' \<and> c \<noteq> CHR ''}''"
proof (cases j)
  case (JNum z)
  then show ?thesis using int_str_hd [of z] by (auto simp: is_ws_def is_digit_def)
qed (use assms in \<open>auto simp: is_ws_def quote_def\<close>)

lemma num_end_sep [simp]: "num_end (CHR '','' # r)" "num_end (CHR '']'' # r)" "num_end (CHR ''}'' # r)"
  by (simp_all add: num_end_def is_digit_def)

lemma is_ws_not [simp]: "\<not> is_ws (CHR '','')" "\<not> is_ws (CHR '']'')" "\<not> is_ws (CHR ''}'')"
  "\<not> is_ws (CHR ''['')" "\<not> is_ws (CHR ''{'')" "\<not> is_ws (CHR '':'')" "\<not> is_ws (CHR 0x22)"
  by (simp_all add: is_ws_def)

definition reads_back :: "json \<Rightarrow> bool" where
  "reads_back j \<longleftrightarrow> (\<forall>n r. num_end r \<longrightarrow> length (json_print j) \<le> n \<longrightarrow>
     parse_val n (json_print j @ r) = Some (j, r))"

lemma parse_elems_print:
  assumes "xs \<noteq> []" "\<forall>x \<in> set xs. reads_back x" "length (commas (map json_print xs)) + 1 \<le> n"
  shows "parse_elems n (commas (map json_print xs) @ CHR '']'' # r) = Some (xs, r)"
  using assms
proof (induction xs arbitrary: n)
  case (Cons x xs)
  obtain m where n: "n = Suc m" using Cons.prems(3) by (cases n) auto
  have x: "reads_back x" using Cons.prems(2) by simp
  show ?case
  proof (cases "xs = []")
    case True
    with x Cons.prems(3) n have "parse_val m (json_print x @ CHR '']'' # r) = Some (x, CHR '']'' # r)"
      by (simp add: reads_back_def)
    with True n show ?thesis by simp
  next
    case False
    then have c: "commas (map json_print (x # xs)) = json_print x @ CHR '','' # commas (map json_print xs)"
      by (cases xs) auto
    let ?t = "CHR '','' # commas (map json_print xs) @ CHR '']'' # r"
    from c Cons.prems(3) n have "length (json_print x) \<le> m" by simp
    with x have "parse_val m (json_print x @ ?t) = Some (x, ?t)" by (simp add: reads_back_def)
    moreover have "parse_elems m (commas (map json_print xs) @ CHR '']'' # r) = Some (xs, r)"
      using Cons.IH [OF False] Cons.prems(2,3) c n by simp
    ultimately show ?thesis unfolding c n by simp
  qed
qed simp

abbreviation member :: "string \<times> json \<Rightarrow> string" where
  "member kv \<equiv> (case kv of (k, v) \<Rightarrow> quote k @ CHR '':'' # json_print v)"

lemma parse_members_print:
  assumes "kvs \<noteq> []" "\<forall>(k, v) \<in> set kvs. utf8_ok k \<and> reads_back v"
    "length (commas (map member kvs)) + 1 \<le> n"
  shows "parse_members n (commas (map member kvs) @ CHR ''}'' # r) = Some (kvs, r)"
  using assms
proof (induction kvs arbitrary: n)
  case (Cons kv kvs)
  obtain k v where kv: "kv = (k, v)" by fastforce
  obtain m where n: "n = Suc m" using Cons.prems(3) by (cases n) auto
  from Cons.prems(2) kv have k: "utf8_ok k" and v: "reads_back v" by auto
  have key: "parse_str (print_str k @ CHR 0x22 # t) = Some (k, t)" for t by (rule parse_print_str [OF k])
  show ?case
  proof (cases "kvs = []")
    case True
    with v Cons.prems(3) n kv
    have "parse_val m (json_print v @ CHR ''}'' # r) = Some (v, CHR ''}'' # r)"
      by (simp add: reads_back_def quote_def)
    with True n kv key show ?thesis by (simp add: quote_def)
  next
    case False
    then have c: "commas (map member (kv # kvs)) = member kv @ CHR '','' # commas (map member kvs)"
      by (cases kvs) auto
    let ?t = "CHR '','' # commas (map member kvs) @ CHR ''}'' # r"
    from c Cons.prems(3) n kv have "length (json_print v) \<le> m" by simp
    with v have "parse_val m (json_print v @ ?t) = Some (v, ?t)" by (simp add: reads_back_def)
    moreover have "parse_members m (commas (map member kvs) @ CHR ''}'' # r) = Some (kvs, r)"
      using Cons.IH [OF False] Cons.prems(2,3) c n by simp
    ultimately show ?thesis unfolding c n using kv key by (simp add: quote_def)
  qed
qed simp

lemma commas_hd: "xs \<noteq> [] \<Longrightarrow> hd xs = c # cs \<Longrightarrow> \<exists>t. commas xs = c # t"
  by (cases xs rule: commas.cases) auto

lemma json_reads_back: "json_ok j \<Longrightarrow> reads_back j"
proof (induction j)
  case (JArr xs)
  have all: "\<forall>x \<in> set xs. reads_back x" using JArr by (auto simp: list_all_iff)
  show ?case
    unfolding reads_back_def
  proof (intro allI impI)
    fix n r assume l: "length (json_print (JArr xs)) \<le> n"
    then obtain m where n: "n = Suc m" by (cases n) auto
    show "parse_val n (json_print (JArr xs) @ r) = Some (JArr xs, r)"
    proof (cases "xs = []")
      case False
      have "json_ok (hd xs)" using JArr.prems False by (simp add: list_all_iff)
      then obtain c cs where "json_print (hd xs) = c # cs" "\<not> is_ws c" "c \<noteq> CHR '']''"
        using json_print_hd by blast
      moreover from this False obtain t where "commas (map json_print xs) = c # t"
        using commas_hd [of "map json_print xs"] by (auto simp: hd_map)
      ultimately have "\<not> HasPrefix (skip_ws (commas (map json_print xs) @ CHR '']'' # r)) '']''"
        by (simp add: HasPrefix_def)
      with n l parse_elems_print [OF False all, of m r] show ?thesis by simp
    qed (simp add: n HasPrefix_def)
  qed
next
  case (JObj kvs)
  have all: "\<forall>(k, v) \<in> set kvs. utf8_ok k \<and> reads_back v"
    using JObj by (auto simp: list_all_iff)
  show ?case
    unfolding reads_back_def
  proof (intro allI impI)
    fix n r assume l: "length (json_print (JObj kvs)) \<le> n"
    then obtain m where n: "n = Suc m" by (cases n) auto
    show "parse_val n (json_print (JObj kvs) @ r) = Some (JObj kvs, r)"
    proof (cases "kvs = []")
      case False
      have "\<exists>cs. hd (map member kvs) = CHR 0x22 # cs"
        using False by (cases kvs) (auto simp: quote_def)
      with False obtain t where "commas (map member kvs) = CHR 0x22 # t"
        using commas_hd [of "map member kvs"] by auto
      then have "\<not> HasPrefix (skip_ws (commas (map member kvs) @ CHR ''}'' # r)) ''}''"
        by (simp add: HasPrefix_def)
      with n l parse_members_print [OF False all, of m r] show ?thesis by simp
    qed (simp add: n HasPrefix_def)
  qed
next
  case (JNum z)
  show ?case
    unfolding reads_back_def
  proof (intro allI impI)
    fix n r assume r: "num_end r" and l: "length (json_print (JNum z)) \<le> n"
    obtain c cs where z: "int_str z = c # cs" and c: "is_digit c \<or> c = CHR ''-''"
      using int_str_hd by blast
    from l z obtain m where n: "n = Suc m" by (cases n) auto
    have "\<not> is_ws c" "c \<noteq> CHR ''{''" "c \<noteq> CHR ''[''" "c \<noteq> CHR 0x22" "c \<noteq> CHR ''n''" "c \<noteq> CHR ''t''"
      "c \<noteq> CHR ''f''" using c by (auto simp: is_ws_def is_digit_def)
    with z n parse_num_int_str [OF r, of z]
    show "parse_val n (json_print (JNum z) @ r) = Some (JNum z, r)" by (simp add: HasPrefix_def)
  qed
next
  case (JStr s)
  then show ?case
    by (auto simp: reads_back_def quote_def parse_print_str dest!: Suc_le_D)
qed (auto simp: reads_back_def HasPrefix_def is_ws_def dest!: Suc_le_D)

lemma json_parse_print:
  assumes "json_ok j"
  shows "json_parse (json_print j) = Some j"
proof -
  have "parse_val (2 * length (json_print j)) (json_print j @ []) = Some (j, [])"
    using json_reads_back [OF assms] by (simp add: reads_back_def num_end_def del: append_Nil2)
  then show ?thesis by (simp add: json_parse_def)
qed


subsection \<open>Size\<close>

text \<open>A bound on the length of a text that does not need the text.\<close>

fun json_bound :: "json \<Rightarrow> nat" where
  "json_bound (JNum n) = length (int_str n)"
| "json_bound (JFloat s) = length s"
| "json_bound (JStr s) = 2 + 6 * length s"
| "json_bound (JArr xs) = 2 + sum_list (map (\<lambda>x. 1 + json_bound x) xs)"
| "json_bound (JObj kvs) = 2 + sum_list (map (\<lambda>(k, v). 4 + 6 * length k + json_bound v) kvs)"
| "json_bound _ = 5"

lemma length_print_str: "length (print_str s) \<le> 6 * length s"
proof (induction s rule: print_str.induct)
  case (1 s)
  have e: "length (esc_ascii c) \<le> 6" for c by (simp add: esc_ascii_def)
  show ?case
  proof (cases s)
    case (Cons c cs)
    then have sc: "s \<noteq> []" "hd s = c" "tl s = cs" "length s = Suc (length cs)" by auto
    consider "byte c < 128" | "\<not> byte c < 128" "rune_len s = 0"
      | "\<not> byte c < 128" "rune_len s \<noteq> 0" "take 3 s = line_sep \<or> take 3 s = para_sep"
      | "\<not> byte c < 128" "rune_len s \<noteq> 0" "take 3 s \<noteq> line_sep" "take 3 s \<noteq> para_sep" by blast
    then show ?thesis
    proof cases
      case 1
      with "1.IH"(1) sc e [of c] show ?thesis by (simp add: print_str.simps [of s])
    next
      case 2
      with "1.IH"(2) sc show ?thesis by (simp add: print_str.simps [of s])
    next
      case 3
      with sc have "length (print_str (drop 3 s)) \<le> 6 * length (drop 3 s)"
        using "1.IH"(3,4) by (cases "take 3 s = line_sep") auto
      moreover have "3 \<le> length s" using 3 rune_len_le [of s] rune_len_sep [of s] by simp
      ultimately have b: "6 + length (print_str (drop 3 s)) \<le> 6 * length s" by simp
      have "length (print_str s) = 6 + length (print_str (drop 3 s))"
        using 3 sc by (cases "take 3 s = line_sep") (simp_all add: print_str.simps [of s])
      with b show ?thesis by simp
    next
      case 4
      with "1.IH"(5) sc have "length (print_str (drop (rune_len s) s)) \<le> 6 * length (drop (rune_len s) s)"
        by simp
      with 4 sc rune_len_le [of s] show ?thesis by (simp add: print_str.simps [of s])
    qed
  qed (simp add: print_str.simps)
qed

lemma length_commas: "length (commas xs) \<le> sum_list (map (\<lambda>x. 1 + length x) xs)"
  by (induction xs rule: commas.induct) auto

lemma length_json_print: "length (json_print j) \<le> json_bound j"
proof (induction j)
  case (JStr s)
  then show ?case using length_print_str [of s] by (simp add: quote_def)
next
  case (JArr xs)
  have "sum_list (map (\<lambda>x. 1 + length (json_print x)) xs) \<le> sum_list (map (\<lambda>x. 1 + json_bound x) xs)"
    by (intro sum_list_mono) (simp add: JArr)
  with length_commas [of "map json_print xs"] show ?case by (simp add: comp_def)
next
  case (JObj kvs)
  have "sum_list (map (\<lambda>kv. 1 + length (member kv)) kvs)
      \<le> sum_list (map (\<lambda>(k, v). 4 + 6 * length k + json_bound v) kvs)"
  proof (intro sum_list_mono)
    fix kv assume kv: "kv \<in> set kvs"
    obtain k v where e: "kv = (k, v)" by fastforce
    then have "length (json_print v) \<le> json_bound v" using JObj kv by auto
    with e length_print_str [of k]
    show "1 + length (member kv) \<le> (\<lambda>(k, v). 4 + 6 * length k + json_bound v) kv"
      by (simp add: quote_def)
  qed
  with length_commas [of "map member kvs"] show ?case by (simp add: comp_def)
qed auto

end
