(* ===== verification/Base64.thy ===== *)
theory Base64
  imports Prelude
begin

text \<open>
  \<^verbatim>\<open>encoding/base64\<close>: the standard and the URL alphabet, with and without padding. Decoding skips
  carriage returns and line feeds and, as the package does outside its strict mode, ignores the
  unused low bits of the last character.
\<close>

definition upper_lower_digits :: string where
  "upper_lower_digits =
     ''ABCDEFGHIJKLMNOPQRSTUVWXYZabcdefghijklmnopqrstuvwxyz0123456789''"

definition std_alphabet :: string where "std_alphabet = upper_lower_digits @ ''+/''"
definition url_alphabet :: string where "url_alphabet = upper_lower_digits @ ''-_''"

abbreviation bval :: "char \<Rightarrow> nat" where "bval c \<equiv> of_char c"

fun b64_groups :: "string \<Rightarrow> nat list" where
  "b64_groups [] = []"
| "b64_groups [a] = [bval a div 4, bval a mod 4 * 16]"
| "b64_groups [a, b] = [bval a div 4, bval a mod 4 * 16 + bval b div 16, bval b mod 16 * 4]"
| "b64_groups (a # b # c # r) =
     bval a div 4 # (bval a mod 4 * 16 + bval b div 16) # (bval b mod 16 * 4 + bval c div 64)
     # bval c mod 64 # b64_groups r"

text \<open>\<^verbatim>\<open>EncodeToString\<close> of the raw (unpadded) encodings.\<close>

definition b64_encode_raw :: "string \<Rightarrow> string \<Rightarrow> string" where
  "b64_encode_raw alph s = map (\<lambda>n. alph ! n) (b64_groups s)"

text \<open>\<^verbatim>\<open>base64.StdEncoding\<close>, with padding.\<close>

definition b64_std :: "string \<Rightarrow> string" where
  "b64_std s = b64_encode_raw std_alphabet s @ replicate ((4 - length (b64_groups s) mod 4) mod 4) (CHR ''='')"

fun b64_bytes :: "nat list \<Rightarrow> string option" where
  "b64_bytes [] = Some []"
| "b64_bytes [p] = None"
| "b64_bytes [p, q] = Some [char_of (p * 4 + q div 16)]"
| "b64_bytes [p, q, r] = Some [char_of (p * 4 + q div 16), char_of (q mod 16 * 16 + r div 4)]"
| "b64_bytes (p # q # r # s # rest) =
     map_option (\<lambda>t. char_of (p * 4 + q div 16) # char_of (q mod 16 * 16 + r div 4)
                     # char_of (r mod 4 * 64 + s) # t) (b64_bytes rest)"

definition b64_vals :: "string \<Rightarrow> string \<Rightarrow> nat list option" where
  "b64_vals alph s =
     (if list_all (\<lambda>c. c \<in> set alph) s
      then Some (map (\<lambda>c. the (index_where (\<lambda>d. d = c) alph)) s) else None)"

definition strip_newlines :: "string \<Rightarrow> string" where
  "strip_newlines = filter (\<lambda>c. c \<noteq> CHR 0x0A \<and> c \<noteq> CHR 0x0D)"

definition pad_ok :: "string \<Rightarrow> string \<Rightarrow> bool" where
  "pad_ok body pads \<longleftrightarrow>
     (pads = [] \<and> length body mod 4 = 0) \<or> (pads = ''='' \<and> length body mod 4 = 3)
     \<or> (pads = ''=='' \<and> length body mod 4 = 2)"

definition b64_decode :: "string \<Rightarrow> bool \<Rightarrow> string \<Rightarrow> string option" where
  "b64_decode alph padded s =
     (let t = strip_newlines s;
          body = (if padded then takeWhile (\<lambda>c. c \<noteq> CHR ''='') t else t);
          pads = drop (length body) t
      in if padded \<and> \<not> pad_ok body pads then None
         else case b64_vals alph body of None \<Rightarrow> None | Some ns \<Rightarrow> b64_bytes ns)"

section \<open>Round trip\<close>

lemma bval_less [simp]: "bval c < 256"
  by (rule nat_of_char_less_256)

lemma pack: "y < k \<Longrightarrow> (x * k + y) div k = x" "y < k \<Longrightarrow> (x * k + y) mod k = y" for x y k :: nat
  by simp_all

lemma bval_parts:
  "bval b div 16 < 16" "bval c div 64 < 4" "bval a div 4 < 64" "bval c mod 64 < 64"
  using bval_less [of a] bval_less [of b] bval_less [of c] by linarith+

lemma split_byte: "n div k * k + n mod k = n" "n mod k + n div k * k = n" for n k :: nat
  by simp_all

lemma b64_bytes_groups: "b64_bytes (b64_groups s) = Some s"
proof (induction s rule: b64_groups.induct)
  case (4 a b c r)
  with pack [OF bval_parts(1) [of b], of "bval a mod 4"] pack [OF bval_parts(2) [of c], of "bval b mod 16"]
  show ?case by (simp add: mult.commute)
next
  case (3 a b)
  with pack [OF bval_parts(1) [of b], of "bval a mod 4"]
  show ?case by (simp add: mult.commute)
qed (simp_all add: mult.commute)

lemma pack_less: "x < m \<Longrightarrow> y < k \<Longrightarrow> x * k + y < m * k" for x y k m :: nat
proof -
  assume "x < m" "y < k"
  then have "x * k + y < x * k + k" by simp
  also have "x * k + k \<le> m * k" using \<open>x < m\<close> by (metis Suc_leI add.commute mult_Suc mult_le_mono1)
  finally show ?thesis .
qed

lemma b64_groups_less: "n \<in> set (b64_groups s) \<Longrightarrow> n < 64"
proof (induction s rule: b64_groups.induct)
  case (4 a b c r)
  have "bval a mod 4 * 16 + bval b div 16 < 4 * 16" "bval b mod 16 * 4 + bval c div 64 < 16 * 4"
    using bval_parts(1) [of b] bval_parts(2) [of c] by (intro pack_less; simp)+
  with 4 bval_parts(3) [of a] show ?case by auto
next
  case (2 a)
  have "bval a mod 4 < 4" by simp
  with 2 bval_parts(3) [of a] show ?case by auto
next
  case (3 a b)
  have "bval a mod 4 * 16 + bval b div 16 < 4 * 16"
    using bval_parts(1) [of b] by (intro pack_less; simp)
  moreover have "bval b mod 16 < 16" by simp
  ultimately have ?case if "n \<notin> {bval a div 4}" using 3 that by auto
  then show ?case using bval_parts(3) [of a] by blast
qed simp

lemma index_where_distinct:
  assumes "distinct xs" "n < length xs"
  shows "index_where (\<lambda>d. d = xs ! n) xs = Some n"
  using assms by (auto simp: index_where_Some nth_eq_iff_index_eq)

lemma b64_vals_encode:
  assumes "distinct alph" "length alph = 64" "\<forall>n \<in> set ns. n < 64"
  shows "b64_vals alph (map (\<lambda>n. alph ! n) ns) = Some ns"
proof -
  have "map ((\<lambda>c. the (index_where (\<lambda>d. d = c) alph)) \<circ> (\<lambda>n. alph ! n)) ns = ns"
    using assms by (intro map_idI) (auto simp: index_where_distinct)
  with assms show ?thesis by (simp add: b64_vals_def list_all_iff)
qed

lemma alphabets:
  "distinct std_alphabet" "length std_alphabet = 64" "distinct url_alphabet" "length url_alphabet = 64"
  by code_simp+

lemma url_no_newline: "strip_newlines (map (\<lambda>n. url_alphabet ! n) ns) = map (\<lambda>n. url_alphabet ! n) ns"
  if "\<forall>n \<in> set ns. n < 64"
proof -
  have "list_all (\<lambda>c. c \<noteq> CHR 0x0A \<and> c \<noteq> CHR 0x0D) url_alphabet" by code_simp
  then have "url_alphabet ! n \<noteq> CHR 0x0A \<and> url_alphabet ! n \<noteq> CHR 0x0D" if "n < 64" for n
    using that alphabets(4) by (auto simp: list_all_length)
  with that show ?thesis by (simp add: strip_newlines_def filter_map comp_def)
qed

lemma b64_url_roundtrip [gostr]:
  "b64_decode url_alphabet False (b64_encode_raw url_alphabet s) = Some s"
  using b64_groups_less [of _ s]
  by (simp add: b64_decode_def b64_encode_raw_def url_no_newline b64_vals_encode alphabets
      b64_bytes_groups Let_def)

lemma std_alphabet_plain: "c \<in> set std_alphabet \<Longrightarrow> c \<noteq> CHR ''='' \<and> c \<noteq> CHR 0x0A \<and> c \<noteq> CHR 0x0D"
proof -
  have "list_all (\<lambda>c. c \<noteq> CHR ''='' \<and> c \<noteq> CHR 0x0A \<and> c \<noteq> CHR 0x0D) std_alphabet" by code_simp
  then show "c \<in> set std_alphabet \<Longrightarrow> ?thesis" by (simp add: list_all_iff)
qed

lemma set_encode: "c \<in> set (b64_encode_raw std_alphabet s) \<Longrightarrow> c \<in> set std_alphabet"
  using b64_groups_less [of _ s] alphabets(2) by (auto simp: b64_encode_raw_def)

lemma length_groups_mod: "length (b64_groups s) mod 4 \<noteq> 1"
  by (induction s rule: b64_groups.induct) simp_all

lemma length_groups: "3 * length (b64_groups s) \<le> 4 * length s + 2"
  by (induction s rule: b64_groups.induct) simp_all

lemma length_b64_std: "3 * length (b64_std s) \<le> 4 * length s + 11"
proof -
  have "(4 - length (b64_groups s) mod 4) mod 4 \<le> 3" by linarith
  with length_groups [of s] show ?thesis by (simp add: b64_std_def b64_encode_raw_def)
qed

lemma pad_ok_std:
  assumes "length body mod 4 \<noteq> 1"
  shows "pad_ok body (replicate ((4 - length body mod 4) mod 4) (CHR ''=''))"
proof -
  have "length body mod 4 < 4" by simp
  with assms consider "length body mod 4 = 0" | "length body mod 4 = 2" | "length body mod 4 = 3" by linarith
  moreover have "replicate 2 (CHR ''='') = ''==''" by (simp add: numeral_2_eq_2)
  ultimately show ?thesis by cases (simp_all add: pad_ok_def)
qed

lemma b64_std_roundtrip: "b64_decode std_alphabet True (b64_std s) = Some s"
proof -
  let ?e = "b64_encode_raw std_alphabet s" and ?p = "replicate ((4 - length (b64_groups s) mod 4) mod 4) (CHR ''='')"
  have strip: "strip_newlines (?e @ ?p) = ?e @ ?p"
    using std_alphabet_plain set_encode [of _ s] by (auto simp: strip_newlines_def filter_id_conv)
  have tw: "takeWhile (\<lambda>c. c \<noteq> CHR ''='') (?e @ ?p) = ?e"
    using std_alphabet_plain set_encode [of _ s] by (subst takeWhile_append2) (auto simp: takeWhile_replicate)
  have "length ?e = length (b64_groups s)" by (simp add: b64_encode_raw_def)
  with pad_ok_std [of ?e] length_groups_mod [of s] have "pad_ok ?e ?p" by simp
  moreover have "b64_vals std_alphabet ?e = Some (b64_groups s)"
    unfolding b64_encode_raw_def using alphabets b64_groups_less by (intro b64_vals_encode) auto
  ultimately show ?thesis
    by (simp add: b64_decode_def b64_std_def strip tw b64_bytes_groups)
qed

end
