(* ===== verification/Ruleshare.thy ===== *)
theory Ruleshare
  imports Rules Json_Text Base64
begin

text \<open>
  Package \<^verbatim>\<open>internal/ruleshare\<close>: rule groups as an \<^verbatim>\<open>itgray://rules/import/\<close> link, which is the
  unpadded URL base64 of a JSON envelope. The whole path is computed here, down to the bytes.
\<close>

section \<open>Links\<close>

definition CurrentSchema :: int where "CurrentSchema = 1"
definition ImportPrefix :: string where "ImportPrefix = ''itgray://rules/import/''"
definition maxPayloadBytes :: nat where "maxPayloadBytes = 64 * 1024"
definition maxRules :: nat where "maxRules = 500"

datatype share_error = ErrMalformed | ErrUnsupportedVersion | ErrTooLarge | ErrEmpty
  | ErrRule string rule_error

record Payload =
  p_Version :: int
  p_Name :: string
  p_Groups :: "Group list"

record wireEnvelope =
  w_V :: int
  w_Kind :: string
  w_Name :: string
  w_Groups :: "Group list"

fun countRules :: "Group list \<Rightarrow> nat" where
  "countRules [] = 0"
| "countRules (g # gs) = length (g_Rules g) + countRules gs"

definition enc_wireEnvelope :: "wireEnvelope \<Rightarrow> json" where
  "enc_wireEnvelope e = JObj [(''v'', JNum (w_V e)), (''kind'', JStr (w_Kind e)),
     (''name'', JStr (w_Name e)), (''groups'', enc_slice enc_Group (w_Groups e))]"

definition wireEnvelope_fields :: "wireEnvelope fields" where
  "wireEnvelope_fields =
     [(''v'', fld w_V (\<lambda>x. w_V_update (\<lambda>_. x)) (dec_int (- (2 ^ 63)) (2 ^ 63 - 1))),
      (''kind'', fld w_Kind (\<lambda>x. w_Kind_update (\<lambda>_. x)) dec_string),
      (''name'', fld w_Name (\<lambda>x. w_Name_update (\<lambda>_. x)) dec_string),
      (''groups'', fld w_Groups (\<lambda>x. w_Groups_update (\<lambda>_. x))
         (dec_slice (dec_struct Group_fields) zero_Group))]"

definition dec_wireEnvelope :: "json \<Rightarrow> wireEnvelope option" where
  "dec_wireEnvelope j = dec_struct wireEnvelope_fields j
     \<lparr> w_V = 0, w_Kind = [], w_Name = [], w_Groups = [] \<rparr>"

text \<open>The normalisation loop of \<^verbatim>\<open>Encode\<close>: identifiers and the lock are not shared.\<close>

definition share_group :: "Group \<Rightarrow> Group" where
  "share_group g =
     zero_Group \<lparr> g_Name := g_Name g, g_Enabled := g_Enabled g,
       g_Rules := map (\<lambda>r. r \<lparr> ru_ID := [] \<rparr>) (g_Rules g) \<rparr>"

definition share_envelope :: "string \<Rightarrow> Group list \<Rightarrow> wireEnvelope" where
  "share_envelope name groups =
     \<lparr> w_V = CurrentSchema, w_Kind = ''rules'', w_Name = name, w_Groups = map share_group groups \<rparr>"

definition Encode :: "string \<Rightarrow> Group list \<Rightarrow> share_error + string" where
  "Encode name groups =
     (if countRules groups = 0 then Inl ErrEmpty
      else Inr (ImportPrefix @ b64_encode_raw url_alphabet
                 (json_print (enc_wireEnvelope (share_envelope name groups)))))"

text \<open>The validation loop of \<^verbatim>\<open>Decode\<close>, and the groups it leaves.\<close>

definition check_imported :: "(string \<Rightarrow> bool) \<Rightarrow> Rule \<Rightarrow> share_error option" where
  "check_imported re r =
     (let chk = (if ru_ID r = [] then r \<lparr> ru_ID := ''import'' \<rparr> else r)
      in map_option (ErrRule (ru_Name chk)) (Rule_Validate re chk))"

definition clear_ids :: "Group \<Rightarrow> Group" where
  "clear_ids g = g \<lparr> g_ID := [], g_Rules := map (\<lambda>r. r \<lparr> ru_ID := [] \<rparr>) (g_Rules g) \<rparr>"

definition Decode :: "(string \<Rightarrow> bool) \<Rightarrow> string \<Rightarrow> share_error + Payload" where
  "Decode re link =
     (if \<not> HasPrefix link ImportPrefix then Inl ErrMalformed
      else case b64_decode url_alphabet False (TrimPrefix link ImportPrefix) of
        None \<Rightarrow> Inl ErrMalformed
      | Some raw \<Rightarrow>
          (if length raw > maxPayloadBytes then Inl ErrTooLarge
           else case Option.bind (json_parse raw) dec_wireEnvelope of
             None \<Rightarrow> Inl ErrMalformed
           | Some env \<Rightarrow>
               (if w_V env > CurrentSchema then Inl ErrUnsupportedVersion
                else if w_Kind env \<noteq> ''rules'' then Inl ErrMalformed
                else if countRules (w_Groups env) = 0 then Inl ErrEmpty
                else if countRules (w_Groups env) > maxRules then Inl ErrTooLarge
                else case range_err (\<lambda>gi g. range_err (\<lambda>ri. check_imported re) (g_Rules g))
                            (w_Groups env) of
                  Some e \<Rightarrow> Inl e
                | None \<Rightarrow> Inr \<lparr> p_Version = w_V env, p_Name = w_Name env,
                                p_Groups = map clear_ids (w_Groups env) \<rparr>)))"

section \<open>Lemmas\<close>

lemma dec_enc_wireEnvelope:
  assumes "- (2 ^ 63) \<le> w_V e" "w_V e < 2 ^ 63"
  shows "dec_wireEnvelope (enc_wireEnvelope e) = Some e"
  using assms
  by (cases e)
     (simp add: dec_wireEnvelope_def enc_wireEnvelope_def wireEnvelope_fields_def find_field_def
       fld_def dec_slice_enc dec_enc_Group)

lemma countRules_map: "(\<And>g. length (g_Rules (f g)) = length (g_Rules g)) \<Longrightarrow>
  countRules (map f gs) = countRules gs"
  by (induction gs) auto

lemma countRules_sum: "countRules gs = sum_list (map (length \<circ> g_Rules) gs)"
  by (induction gs) auto

lemma clear_ids_share [simp]: "clear_ids (share_group g) = share_group g"
  by (simp add: clear_ids_def share_group_def zero_Group_def)

text \<open>A rule is importable when it is valid under some identifier.\<close>

definition importable :: "(string \<Rightarrow> bool) \<Rightarrow> Rule \<Rightarrow> bool" where
  "importable re r \<longleftrightarrow> Rule_Validate re (r \<lparr> ru_ID := ''import'' \<rparr>) = None"

lemma importable_id [simp]: "importable re (r \<lparr> ru_ID := i \<rparr>) = importable re r"
  by (simp add: importable_def)

lemma check_imported_None: "check_imported re r = None \<longleftrightarrow> importable re r"
  by (auto simp: check_imported_def Let_def importable_def Rule_Validate_None)

lemma imported_None:
  "range_err (\<lambda>gi g. range_err (\<lambda>ri. check_imported re) (g_Rules g)) gs = None
     \<longleftrightarrow> (\<forall>g \<in> set gs. \<forall>r \<in> set (g_Rules g). importable re r)"
  by (auto simp: range_err_None all_set_conv_all_nth check_imported_None)

lemma Decode_link:
  assumes "length raw \<le> maxPayloadBytes" "Option.bind (json_parse raw) dec_wireEnvelope = Some env"
    and "w_V env \<le> CurrentSchema" "w_Kind env = ''rules''"
    and "countRules (w_Groups env) \<noteq> 0" "countRules (w_Groups env) \<le> maxRules"
    and "\<forall>g \<in> set (w_Groups env). \<forall>r \<in> set (g_Rules g). importable re r"
  shows "Decode re (ImportPrefix @ b64_encode_raw url_alphabet raw)
    = Inr \<lparr> p_Version = w_V env, p_Name = w_Name env, p_Groups = map clear_ids (w_Groups env) \<rparr>"
  using assms imported_None [of re "w_Groups env"] by (simp add: Decode_def b64_url_roundtrip)

lemma Decode_share:
  assumes "countRules gs \<noteq> 0" "countRules gs \<le> maxRules"
    and "\<forall>g \<in> set gs. \<forall>r \<in> set (g_Rules g). importable re r"
    and "json_ok (enc_wireEnvelope (share_envelope name gs))"
    and "length (json_print (enc_wireEnvelope (share_envelope name gs))) \<le> maxPayloadBytes"
  shows "\<exists>link. Encode name gs = Inr link \<and>
     Decode re link = Inr \<lparr> p_Version = CurrentSchema, p_Name = name, p_Groups = map share_group gs \<rparr>"
proof -
  let ?e = "share_envelope name gs"
  have "dec_wireEnvelope (enc_wireEnvelope ?e) = Some ?e"
    by (rule dec_enc_wireEnvelope) (simp_all add: share_envelope_def CurrentSchema_def)
  then have dec: "Option.bind (json_parse (json_print (enc_wireEnvelope ?e))) dec_wireEnvelope = Some ?e"
    using assms(4) by (simp add: json_parse_print)
  have cnt: "countRules (map share_group gs) = countRules gs"
    by (rule countRules_map) (simp add: share_group_def)
  have imp: "\<forall>g \<in> set (map share_group gs). \<forall>r \<in> set (g_Rules g). importable re r"
    using assms(3) by (auto simp: share_group_def)
  have e: "w_V ?e = CurrentSchema" "w_Kind ?e = ''rules''" "w_Name ?e = name"
    "w_Groups ?e = map share_group gs" by (simp_all add: share_envelope_def)
  have "map clear_ids (map share_group gs) = map share_group gs" by (simp add: comp_def)
  with Decode_link [OF assms(5) dec, unfolded e] assms(1,2) cnt imp show ?thesis
    by (simp add: Encode_def)
qed

lemma Decode_bounds:
  assumes "Decode re link = Inr p"
  shows "1 \<le> countRules (p_Groups p) \<and> countRules (p_Groups p) \<le> maxRules \<and>
     p_Version p \<le> CurrentSchema \<and>
     list_all (\<lambda>g. g_ID g = [] \<and> list_all (\<lambda>r. ru_ID r = [] \<and> importable re r) (g_Rules g)) (p_Groups p)"
proof -
  from assms obtain env :: wireEnvelope where env: "w_V env \<le> CurrentSchema"
      "countRules (w_Groups env) \<noteq> 0" "countRules (w_Groups env) \<le> maxRules"
      "\<forall>g \<in> set (w_Groups env). \<forall>r \<in> set (g_Rules g). importable re r"
    and p: "p = \<lparr> p_Version = w_V env, p_Name = w_Name env, p_Groups = map clear_ids (w_Groups env) \<rparr>"
    by (auto simp: Decode_def imported_None not_less split: if_splits option.splits)
  have "countRules (map clear_ids (w_Groups env)) = countRules (w_Groups env)"
    by (rule countRules_map) (simp add: clear_ids_def)
  with env p show ?thesis by (auto simp: list_all_iff clear_ids_def)
qed

definition sample_group :: Group where
  "sample_group = \<lparr> g_ID = ''g1'', g_Name = ''Web'', g_Locked = False, g_Enabled = True,
     g_Rules = [sample_rule] \<rparr>"

lemma sample_group_importable:
  "\<forall>g \<in> set [sample_group]. \<forall>r \<in> set (g_Rules g). importable re r"
  using sample_rule_valid by (auto simp: sample_group_def importable_def Rule_Validate_None)

lemma sample_group_count:
  "countRules [sample_group] \<noteq> 0" "countRules [sample_group] \<le> maxRules"
  by (simp_all add: sample_group_def maxRules_def)

lemma sample_group_utf8: "json_ok (enc_wireEnvelope (share_envelope ''Web'' [sample_group]))"
  by code_simp

lemma sample_group_length:
  "length (json_print (enc_wireEnvelope (share_envelope ''Web'' [sample_group]))) \<le> maxPayloadBytes"
proof -
  have "json_bound (enc_wireEnvelope (share_envelope ''Web'' [sample_group])) \<le> maxPayloadBytes"
    by (simp add: enc_wireEnvelope_def share_envelope_def sample_group_def sample_rule_def share_group_def
        enc_slice_def enc_Group_def enc_Rule_def enc_Conditions_def enc_DomainMatcher_def
        enc_PortSpec_def jopt_def no_conditions_def zero_Group_def CurrentSchema_def int_str_def
        nat_str.simps maxPayloadBytes_def)
  then show ?thesis using length_json_print le_trans by blast
qed

lemmas sample_group_facts = sample_group_count sample_group_importable sample_group_utf8 sample_group_length

section \<open>Properties\<close>

text \<open>
  Sharing round trip: a link made from groups whose rules validate, whose strings are UTF-8
  and that fit the limits (64 KiB of JSON, 500 rules) decodes to the same name and groups,
  with the identifiers and the lock cleared and everything else kept.
\<close>

theorem Decode_Encode:
  assumes "countRules gs \<noteq> 0" "countRules gs \<le> maxRules"
    and "\<forall>g \<in> set gs. \<forall>r \<in> set (g_Rules g). importable re r"
    and "json_ok (enc_wireEnvelope (share_envelope name gs))"
    and "length (json_print (enc_wireEnvelope (share_envelope name gs))) \<le> maxPayloadBytes"
  shows "\<exists>link. Encode name gs = Inr link \<and>
     Decode re link = Inr \<lparr> p_Version = CurrentSchema, p_Name = name, p_Groups = map share_group gs \<rparr>"
  using assms by (rule Decode_share)

theorem Decode_Encode_witness:
  "\<exists>link. Encode ''Web'' [sample_group] = Inr link \<and>
     Decode (\<lambda>_. True) link = Inr \<lparr> p_Version = CurrentSchema, p_Name = ''Web'',
       p_Groups = map share_group [sample_group] \<rparr>"
  using Decode_Encode [OF sample_group_facts] .

text \<open>
  C36. Whatever link is given, a decoded payload is within bounds and safe to import: between 1 and
  500 rules, no identifier taken from the link, and every rule validates once it is given
  an identifier.
\<close>

theorem Decode_safe:
  assumes "Decode re link = Inr p"
  shows "1 \<le> countRules (p_Groups p) \<and> countRules (p_Groups p) \<le> maxRules \<and>
     p_Version p \<le> CurrentSchema \<and>
     list_all (\<lambda>g. g_ID g = [] \<and> list_all (\<lambda>r. ru_ID r = [] \<and> importable re r) (g_Rules g)) (p_Groups p)"
  using assms by (rule Decode_bounds)

theorem Decode_safe_witness:
  "\<exists>link p. Decode (\<lambda>_. True) link = Inr p \<and> 1 \<le> countRules (p_Groups p) \<and>
     countRules (p_Groups p) \<le> maxRules"
  using Decode_share [OF sample_group_facts, of "\<lambda>_. True"] Decode_safe by blast

end
