(* ===== verification/Store_Spec.thy ===== *)
theory Store_Spec
  imports Prelude
begin

text \<open>
  The contract of the program's file stores: one document, read by \<open>load\<close>, replaced by \<open>save\<close>
  through \<^verbatim>\<open>config.WriteAtomic\<close>, which either replaces the whole file or leaves it as it was.
  \<open>wf\<close> says which documents the type of the store has (numbers in range), and \<open>norm\<close> what reading
  makes of a document that was written: a store may repair fields, and reading may report errors.
  The services that mutate a store do so by load, change, save; the lemmas here say what such a
  round keeps, once for all stores.
\<close>

locale json_store =
  fixes load :: "'d \<Rightarrow> 'r"
    and save :: "bool \<Rightarrow> 'm \<Rightarrow> 'd \<Rightarrow> bool \<times> 'd"
    and wf :: "'m \<Rightarrow> bool"
    and norm :: "'m \<Rightarrow> 'r"
  assumes load_save: "wf m \<Longrightarrow> load (snd (save True m d)) = norm m"
    and save_result: "fst (save ok m d) = ok"
    and save_failed: "snd (save False m d) = d"
begin

lemma save_cases: "save ok m d = (ok, if ok then snd (save True m d) else d)"
  using save_result [of ok m d] save_failed [of m d] by (cases ok) (auto simp: prod_eq_iff)

lemma load_after: "wf m \<Longrightarrow> load (snd (save ok m d)) = (if ok then norm m else load d)"
  using load_save save_failed by (cases ok) auto

lemma inv_after:
  assumes "wf m" "I (load d)" "I (norm m)"
  shows "I (load (snd (save ok m d)))"
  using assms by (simp add: load_after)

end

end
