(* ===== verification/Rules_Service.thy ===== *)
theory Rules_Service
  imports Ruleshare Store_Spec
begin

text \<open>
  \<^verbatim>\<open>internal/bindings/rules.go\<close>: the \<^verbatim>\<open>RulesService\<close> behind the \<^verbatim>\<open>rules.*\<close> calls of the renderer.
  Every operation runs under the service mutex, so an operation is one atomic step on the state:
  the file \<^verbatim>\<open>rules.json\<close> and the events published on the hub. \<open>ok\<close> says whether the write of
  the file succeeds; the clock and the random bytes that \<^verbatim>\<open>newID\<close> draws are arguments.
\<close>

section \<open>State and helpers\<close>

record rules_state =
  rs_disk :: disk
  rs_events :: "string list"

datatype svc_error = EmptyGroupName | LockedGroup | GroupNotFound string | RuleNotFound string
  | BadRule rule_error | BadLink share_error | SaveFailed

definition EventRulesChanged :: string where "EventRulesChanged = ''rules:changed''"

type_synonym draw = "int \<times> string"

definition hex_lower :: "nat \<Rightarrow> char" where
  "hex_lower d = (if d < 10 then char_of (48 + d) else char_of (87 + d))"

definition newID :: "string \<Rightarrow> draw \<Rightarrow> string" where
  "newID pfx dr = pfx @ int_str (fst dr) @ ''-''
     @ concat (map (\<lambda>c. [hex_lower (of_char c div 16), hex_lower (of_char c mod 16)]) (take 2 (snd dr)))"

definition indexOfGroup :: "Model \<Rightarrow> string \<Rightarrow> nat option" where
  "indexOfGroup m i = index_where (\<lambda>g. g_ID g = i) (m_Groups m)"

fun find_rule_from :: "nat \<Rightarrow> Group list \<Rightarrow> string \<Rightarrow> (nat \<times> nat) option" where
  "find_rule_from gi [] i = None"
| "find_rule_from gi (g # gs) i =
     (case index_where (\<lambda>r. ru_ID r = i) (g_Rules g) of
        Some ri \<Rightarrow> Some (gi, ri)
      | None \<Rightarrow> find_rule_from (Suc gi) gs i)"

definition findRule :: "Model \<Rightarrow> string \<Rightarrow> (nat \<times> nat) option" where
  "findRule m i = find_rule_from 0 (m_Groups m) i"

text \<open>\<^verbatim>\<open>store.Save\<close>, then \<^verbatim>\<open>publishChanged\<close>: the end of every mutation.\<close>

definition publishChanged :: "rules_state \<Rightarrow> rules_state" where
  "publishChanged s = s \<lparr> rs_events := rs_events s @ [EventRulesChanged] \<rparr>"

definition commit :: "bool \<Rightarrow> Model \<Rightarrow> 'a \<Rightarrow> rules_state \<Rightarrow> (svc_error + 'a) \<times> rules_state" where
  "commit ok m v s =
     (case Save ok m (rs_disk s) of (saved, d) \<Rightarrow>
        (if saved then (Inr v, publishChanged (s \<lparr> rs_disk := d \<rparr>))
         else (Inl SaveFailed, s \<lparr> rs_disk := d \<rparr>)))"

definition update_group :: "nat \<Rightarrow> (Group \<Rightarrow> Group) \<Rightarrow> Model \<Rightarrow> Model" where
  "update_group i f m = m \<lparr> m_Groups := (m_Groups m)[i := f (m_Groups m ! i)] \<rparr>"

section \<open>Operations\<close>

record RuleView =
  rv_ID :: string
  rv_Name :: string
  rv_Enabled :: bool
  rv_Action :: string
  rv_Conditions :: Conditions

record GroupView =
  gv_ID :: string
  gv_Name :: string
  gv_Locked :: bool
  gv_Enabled :: bool
  gv_Rules :: "RuleView list"

definition groupsToViews :: "Group list \<Rightarrow> GroupView list" where
  "groupsToViews gs = map (\<lambda>g.
     \<lparr> gv_ID = g_ID g, gv_Name = g_Name g, gv_Locked = g_Locked g, gv_Enabled = g_Enabled g,
       gv_Rules = map (\<lambda>r. \<lparr> rv_ID = ru_ID r, rv_Name = ru_Name r, rv_Enabled = ru_Enabled r,
                              rv_Action = ru_Action r, rv_Conditions = ru_Conditions r \<rparr>) (g_Rules g) \<rparr>) gs"

definition toRulesView :: "Model \<Rightarrow> string \<times> GroupView list" where
  "toRulesView m = (m_DefaultAction m, groupsToViews (m_Groups m))"

definition RulesService_List :: "rules_state \<Rightarrow> string \<times> GroupView list" where
  "RulesService_List s = toRulesView (Load (rs_disk s))"

definition GroupAdd :: "bool \<Rightarrow> string \<Rightarrow> draw \<Rightarrow> rules_state \<Rightarrow> (svc_error + string) \<times> rules_state" where
  "GroupAdd ok name dr s =
     (if TrimSpace name = [] then (Inl EmptyGroupName, s)
      else let m = Load (rs_disk s); gid = newID ''g'' dr in
        commit ok (m \<lparr> m_Groups := m_Groups m
            @ [zero_Group \<lparr> g_ID := gid, g_Name := name, g_Enabled := True \<rparr>] \<rparr>) gid s)"

definition GroupEdit :: "bool \<Rightarrow> string \<Rightarrow> string \<Rightarrow> bool \<Rightarrow> rules_state \<Rightarrow> (svc_error + unit) \<times> rules_state" where
  "GroupEdit ok gid name enabled s =
     (if gid = ''safety'' then (Inl LockedGroup, s)
      else let m = Load (rs_disk s) in
        case indexOfGroup m gid of
          None \<Rightarrow> (Inl (GroupNotFound gid), s)
        | Some idx \<Rightarrow>
            (if g_Locked (m_Groups m ! idx) then (Inl LockedGroup, s)
             else commit ok (update_group idx (\<lambda>g. g \<lparr> g_Name := name, g_Enabled := enabled \<rparr>) m) () s))"

definition GroupRemove :: "bool \<Rightarrow> string \<Rightarrow> rules_state \<Rightarrow> (svc_error + unit) \<times> rules_state" where
  "GroupRemove ok gid s =
     (if gid = ''safety'' then (Inl LockedGroup, s)
      else let m = Load (rs_disk s) in
        case indexOfGroup m gid of
          None \<Rightarrow> (Inl (GroupNotFound gid), s)
        | Some idx \<Rightarrow>
            (if g_Locked (m_Groups m ! idx) then (Inl LockedGroup, s)
             else commit ok (m \<lparr> m_Groups := remove_at idx (m_Groups m) \<rparr>) () s))"

definition RuleAdd :: "(string \<Rightarrow> bool) \<Rightarrow> bool \<Rightarrow> string \<Rightarrow> Rule \<Rightarrow> draw \<Rightarrow> rules_state
    \<Rightarrow> (svc_error + string) \<times> rules_state" where
  "RuleAdd re ok gid r dr s =
     (if gid = ''safety'' then (Inl LockedGroup, s)
      else let r = r \<lparr> ru_ID := newID ''r'' dr \<rparr> in
        case Rule_Validate re r of
          Some e \<Rightarrow> (Inl (BadRule e), s)
        | None \<Rightarrow>
            (let m = Load (rs_disk s) in
             case indexOfGroup m gid of
               None \<Rightarrow> (Inl (GroupNotFound gid), s)
             | Some idx \<Rightarrow>
                 (if g_Locked (m_Groups m ! idx) then (Inl LockedGroup, s)
                  else commit ok (update_group idx (\<lambda>g. g \<lparr> g_Rules := g_Rules g @ [r] \<rparr>) m) (ru_ID r) s)))"

definition RuleEdit :: "(string \<Rightarrow> bool) \<Rightarrow> bool \<Rightarrow> Rule \<Rightarrow> rules_state \<Rightarrow> (svc_error + unit) \<times> rules_state" where
  "RuleEdit re ok r s =
     (case Rule_Validate re r of
        Some e \<Rightarrow> (Inl (BadRule e), s)
      | None \<Rightarrow>
          (let m = Load (rs_disk s) in
           case findRule m (ru_ID r) of
             None \<Rightarrow> (Inl (RuleNotFound (ru_ID r)), s)
           | Some (gi, ri) \<Rightarrow>
               (if g_Locked (m_Groups m ! gi) then (Inl LockedGroup, s)
                else commit ok (update_group gi (\<lambda>g. g \<lparr> g_Rules := (g_Rules g)[ri := r] \<rparr>) m) () s)))"

definition RuleRemove :: "bool \<Rightarrow> string \<Rightarrow> rules_state \<Rightarrow> (svc_error + unit) \<times> rules_state" where
  "RuleRemove ok i s =
     (let m = Load (rs_disk s) in
      case findRule m i of
        None \<Rightarrow> (Inl (RuleNotFound i), s)
      | Some (gi, ri) \<Rightarrow>
          (if g_Locked (m_Groups m ! gi) then (Inl LockedGroup, s)
           else commit ok (update_group gi (\<lambda>g. g \<lparr> g_Rules := remove_at ri (g_Rules g) \<rparr>) m) () s))"

definition RuleToggle :: "bool \<Rightarrow> string \<Rightarrow> rules_state \<Rightarrow> (svc_error + unit) \<times> rules_state" where
  "RuleToggle ok i s =
     (let m = Load (rs_disk s) in
      case findRule m i of
        None \<Rightarrow> (Inl (RuleNotFound i), s)
      | Some (gi, ri) \<Rightarrow>
          (if g_Locked (m_Groups m ! gi) then (Inl LockedGroup, s)
           else commit ok (update_group gi (\<lambda>g. g \<lparr> g_Rules :=
               (g_Rules g)[ri := (g_Rules g ! ri) \<lparr> ru_Enabled := \<not> ru_Enabled (g_Rules g ! ri) \<rparr>] \<rparr>) m) () s))"

definition RuleMove :: "bool \<Rightarrow> string \<Rightarrow> string \<Rightarrow> rules_state \<Rightarrow> (svc_error + unit) \<times> rules_state" where
  "RuleMove ok i toGroupID s =
     (if toGroupID = ''safety'' then (Inl LockedGroup, s)
      else let m = Load (rs_disk s) in
        case findRule m i of
          None \<Rightarrow> (Inl (RuleNotFound i), s)
        | Some (gi, ri) \<Rightarrow>
            (if g_Locked (m_Groups m ! gi) then (Inl LockedGroup, s)
             else case indexOfGroup m toGroupID of
               None \<Rightarrow> (Inl (GroupNotFound toGroupID), s)
             | Some to \<Rightarrow>
                 (if g_Locked (m_Groups m ! to) then (Inl LockedGroup, s)
                  else let r = g_Rules (m_Groups m ! gi) ! ri;
                           m = update_group gi (\<lambda>g. g \<lparr> g_Rules := remove_at ri (g_Rules g) \<rparr>) m
                       in commit ok (update_group to (\<lambda>g. g \<lparr> g_Rules := g_Rules g @ [r] \<rparr>) m) () s)))"

text \<open>The loops of \<^verbatim>\<open>guardSafetyUnchanged\<close> keep the last group with the identifier.\<close>

definition last_safety :: "Model \<Rightarrow> Group option" where
  "last_safety m = (case filter (\<lambda>g. g_ID g = ''safety'') (m_Groups m) of
     [] \<Rightarrow> None | gs \<Rightarrow> Some (last gs))"

definition guardSafetyUnchanged :: "Model \<Rightarrow> Model \<Rightarrow> svc_error option" where
  "guardSafetyUnchanged cur next =
     (case last_safety cur of
        None \<Rightarrow> None
      | Some c \<Rightarrow>
          (case last_safety next of
             None \<Rightarrow> Some LockedGroup
           | Some n \<Rightarrow>
               (if g_Name n \<noteq> g_Name c \<or> g_Enabled n \<noteq> g_Enabled c
                   \<or> length (g_Rules n) \<noteq> length (g_Rules c) then Some LockedGroup
                else range_err (\<lambda>i r. if ru_ID r \<noteq> ru_ID (g_Rules n ! i) then Some LockedGroup else None)
                       (g_Rules c))))"

definition validate_all :: "(string \<Rightarrow> bool) \<Rightarrow> Model \<Rightarrow> svc_error option" where
  "validate_all re m =
     range_err (\<lambda>gi g. range_err (\<lambda>ri r. map_option BadRule (Rule_Validate re r)) (g_Rules g)) (m_Groups m)"

definition ReplaceAll :: "(string \<Rightarrow> bool) \<Rightarrow> bool \<Rightarrow> Model \<Rightarrow> rules_state \<Rightarrow> (svc_error + unit) \<times> rules_state" where
  "ReplaceAll re ok next s =
     (case validate_all re next of
        Some e \<Rightarrow> (Inl e, s)
      | None \<Rightarrow>
          (case guardSafetyUnchanged (Load (rs_disk s)) next of
             Some e \<Rightarrow> (Inl e, s)
           | None \<Rightarrow> commit ok next () s))"

definition count_action :: "Action \<Rightarrow> Group list \<Rightarrow> nat" where
  "count_action a gs = length (filter (\<lambda>r. ru_Action r = a) (concat (map g_Rules gs)))"

record ImportPreviewView =
  ip_Name :: string
  ip_Groups :: "GroupView list"
  ip_ProxyCount :: nat
  ip_DirectCount :: nat
  ip_BlockCount :: nat

definition ImportPreview :: "(string \<Rightarrow> bool) \<Rightarrow> string \<Rightarrow> svc_error + ImportPreviewView" where
  "ImportPreview re link =
     (case Decode re link of
        Inl e \<Rightarrow> Inl (BadLink e)
      | Inr p \<Rightarrow> Inr \<lparr> ip_Name = p_Name p, ip_Groups = groupsToViews (p_Groups p),
          ip_ProxyCount = count_action ActionProxy (p_Groups p),
          ip_DirectCount = count_action ActionDirect (p_Groups p),
          ip_BlockCount = count_action ActionBlock (p_Groups p) \<rparr>)"

text \<open>The loops of \<^verbatim>\<open>ImportApply\<close>; the draws of \<^verbatim>\<open>newID\<close> are consumed in order.\<close>

fun import_rules :: "(string \<Rightarrow> bool) \<Rightarrow> (nat \<Rightarrow> draw) \<Rightarrow> nat \<Rightarrow> Rule list \<Rightarrow> rule_error + (Rule list \<times> nat)" where
  "import_rules re dr n [] = Inr ([], n)"
| "import_rules re dr n (r # rs) =
     (let r = r \<lparr> ru_ID := newID ''r'' (dr n) \<rparr> in
      case Rule_Validate re r of
        Some e \<Rightarrow> Inl e
      | None \<Rightarrow> (case import_rules re dr (Suc n) rs of
                   Inl e \<Rightarrow> Inl e
                 | Inr (rs, n) \<Rightarrow> Inr (r # rs, n)))"

fun import_groups :: "(string \<Rightarrow> bool) \<Rightarrow> (nat \<Rightarrow> draw) \<Rightarrow> nat \<Rightarrow> Group list \<Rightarrow> rule_error + Group list" where
  "import_groups re dr n [] = Inr []"
| "import_groups re dr n (g # gs) =
     (case import_rules re dr (Suc n) (g_Rules g) of
        Inl e \<Rightarrow> Inl e
      | Inr (rs, k) \<Rightarrow>
          (case import_groups re dr k gs of
             Inl e \<Rightarrow> Inl e
           | Inr gs \<Rightarrow> Inr (zero_Group \<lparr> g_ID := newID ''g'' (dr n), g_Name := g_Name g,
                                     g_Enabled := True, g_Rules := rs \<rparr> # gs)))"

definition ImportApply :: "(string \<Rightarrow> bool) \<Rightarrow> bool \<Rightarrow> string \<Rightarrow> (nat \<Rightarrow> draw) \<Rightarrow> rules_state
    \<Rightarrow> (svc_error + unit) \<times> rules_state" where
  "ImportApply re ok link dr s =
     (case Decode re link of
        Inl e \<Rightarrow> (Inl (BadLink e), s)
      | Inr p \<Rightarrow>
          (let m = Load (rs_disk s) in
           case import_groups re dr 0 (p_Groups p) of
             Inl e \<Rightarrow> (Inl (BadRule e), s)
           | Inr gs \<Rightarrow> commit ok (m \<lparr> m_Groups := m_Groups m @ gs \<rparr>) () s))"

definition ExportGroup :: "string \<Rightarrow> rules_state \<Rightarrow> svc_error + string" where
  "ExportGroup gid s =
     (if gid = ''safety'' then Inl LockedGroup
      else let m = Load (rs_disk s) in
        case indexOfGroup m gid of
          None \<Rightarrow> Inl (GroupNotFound gid)
        | Some idx \<Rightarrow>
            (if g_Locked (m_Groups m ! idx) then Inl LockedGroup
             else case Encode (g_Name (m_Groups m ! idx)) [m_Groups m ! idx] of
               Inl e \<Rightarrow> Inl (BadLink e) | Inr l \<Rightarrow> Inr l))"


section \<open>The service as a machine\<close>

text \<open>One call of a mutating method, with the outcome of the write and the draws it makes.\<close>

datatype rules_op =
    OpGroupAdd string draw
  | OpGroupEdit string string bool
  | OpGroupRemove string
  | OpRuleAdd string Rule draw
  | OpRuleEdit Rule
  | OpRuleRemove string
  | OpRuleToggle string
  | OpRuleMove string string
  | OpReplaceAll Model
  | OpImportApply string "nat \<Rightarrow> draw"

definition void :: "(svc_error + 'a) \<times> rules_state \<Rightarrow> (svc_error + unit) \<times> rules_state" where
  "void r = (case fst r of Inl e \<Rightarrow> Inl e | Inr _ \<Rightarrow> Inr (), snd r)"

fun exec :: "(string \<Rightarrow> bool) \<Rightarrow> bool \<Rightarrow> rules_op \<Rightarrow> rules_state \<Rightarrow> (svc_error + unit) \<times> rules_state" where
  "exec re ok (OpGroupAdd n d) s = void (GroupAdd ok n d s)"
| "exec re ok (OpGroupEdit i n e) s = GroupEdit ok i n e s"
| "exec re ok (OpGroupRemove i) s = GroupRemove ok i s"
| "exec re ok (OpRuleAdd i r d) s = void (RuleAdd re ok i r d s)"
| "exec re ok (OpRuleEdit r) s = RuleEdit re ok r s"
| "exec re ok (OpRuleRemove i) s = RuleRemove ok i s"
| "exec re ok (OpRuleToggle i) s = RuleToggle ok i s"
| "exec re ok (OpRuleMove i g) s = RuleMove ok i g s"
| "exec re ok (OpReplaceAll m) s = ReplaceAll re ok m s"
| "exec re ok (OpImportApply l d) s = ImportApply re ok l d s"

fun run_ops :: "(string \<Rightarrow> bool) \<Rightarrow> (bool \<times> rules_op) list \<Rightarrow> rules_state \<Rightarrow> rules_state" where
  "run_ops re [] s = s"
| "run_ops re ((ok, p) # ps) s = run_ops re ps (snd (exec re ok p s))"

section \<open>The store contract\<close>

definition heal :: "Model \<Rightarrow> Model" where
  "heal m = (if m_DefaultAction m = [] then m \<lparr> m_DefaultAction := ActionProxy \<rparr> else m)"

interpretation rstore: json_store Load Save "\<lambda>_. True" heal
  by unfold_locales (simp_all add: Save_def Load_def dec_enc_Model heal_def)

lemma heal_groups [simp]: "m_Groups (heal m) = m_Groups m"
  by (simp add: heal_def)

lemma commit_ok: "commit True m v s = (Inr v, publishChanged (s \<lparr> rs_disk := Tree (enc_Model m) \<rparr>))"
  by (simp add: commit_def Save_def)

lemma commit_failed: "commit False m v s = (Inl SaveFailed, s)"
  by (simp add: commit_def Save_def)

lemma load_commit:
  "Load (rs_disk (snd (commit ok m v s))) = (if ok then heal m else Load (rs_disk s))"
proof -
  have "rs_disk (snd (commit ok m v s)) = snd (Save ok m (rs_disk s))"
    by (simp add: commit_def publishChanged_def split: prod.split)
  then show ?thesis by (simp add: rstore.load_after)
qed

text \<open>
  What a mutation does: nothing, or the commit of a model related to the loaded one. The
  relation is one case per operation.
\<close>

inductive edit :: "(string \<Rightarrow> bool) \<Rightarrow> Model \<Rightarrow> Model \<Rightarrow> bool" for re where
  append: "list_all (\<lambda>g. \<not> g_Locked g \<and> list_all (\<lambda>r. Rule_Validate re r = None) (g_Rules g)) gs
     \<Longrightarrow> edit re m (m \<lparr> m_Groups := m_Groups m @ gs \<rparr>)"
| remove: "i < length (m_Groups m) \<Longrightarrow> \<not> g_Locked (m_Groups m ! i)
     \<Longrightarrow> edit re m (m \<lparr> m_Groups := remove_at i (m_Groups m) \<rparr>)"
| change: "i < length (m_Groups m) \<Longrightarrow> \<not> g_Locked (m_Groups m ! i) \<Longrightarrow> \<not> g_Locked (f (m_Groups m ! i))
     \<Longrightarrow> (\<And>r. r \<in> set (g_Rules (f (m_Groups m ! i))) \<Longrightarrow>
            Rule_Validate re r = None \<or> (\<exists>r' \<in> set (g_Rules (m_Groups m ! i)). Rule_Validate re r = Rule_Validate re r'))
     \<Longrightarrow> edit re m (update_group i f m)"
| change2: "i < length (m_Groups m) \<Longrightarrow> \<not> g_Locked (m_Groups m ! i) \<Longrightarrow> ri < length (g_Rules (m_Groups m ! i))
     \<Longrightarrow> j < length (m_Groups m) \<Longrightarrow> \<not> g_Locked (m_Groups m ! j)
     \<Longrightarrow> edit re m (update_group j (\<lambda>g. g \<lparr> g_Rules := g_Rules g @ [g_Rules (m_Groups m ! i) ! ri] \<rparr>)
           (update_group i (\<lambda>g. g \<lparr> g_Rules := remove_at ri (g_Rules g) \<rparr>) m))"

definition locked_groups :: "Model \<Rightarrow> Group list" where
  "locked_groups m = filter g_Locked (m_Groups m)"

lemma locked_update_group:
  assumes "i < length (m_Groups m)" "\<not> g_Locked (m_Groups m ! i)" "\<not> g_Locked (f (m_Groups m ! i))"
  shows "locked_groups (update_group i f m) = locked_groups m"
proof -
  obtain ys zs where "m_Groups m = ys @ m_Groups m ! i # zs"
    "(m_Groups m)[i := f (m_Groups m ! i)] = ys @ f (m_Groups m ! i) # zs"
    using list_update_split [OF assms(1)] by blast
  with assms show ?thesis
    by (simp add: locked_groups_def update_group_def) (metis (no_types, lifting) filter.simps(2) filter_append)
qed

lemma locked_remove_at:
  assumes "i < length gs" "\<not> g_Locked (gs ! i)"
  shows "filter g_Locked (remove_at i gs) = filter g_Locked gs"
  using remove_at_split [OF assms(1)] assms(2) by (metis (no_types, lifting) filter.simps(2) filter_append)

lemma update_group_simps [simp]:
  "length (m_Groups (update_group i f m)) = length (m_Groups m)"
  "m_DefaultAction (update_group i f m) = m_DefaultAction m"
  by (simp_all add: update_group_def)

lemma update_group_nth:
  "j < length (m_Groups m) \<Longrightarrow> m_Groups (update_group i f m) ! j
     = (if i = j then f (m_Groups m ! j) else m_Groups m ! j)"
  by (simp add: update_group_def nth_list_update)

lemma edit_locked: "edit re m m' \<Longrightarrow> locked_groups m' = locked_groups m"
proof (induction rule: edit.induct)
  case (append gs m)
  then show ?case by (auto simp: locked_groups_def list_all_iff filter_empty_conv)
next
  case (remove i m)
  then show ?case by (simp add: locked_groups_def locked_remove_at)
next
  case (change i m f)
  then show ?case by (simp add: locked_update_group)
next
  case (change2 i m ri j)
  then show ?case by (simp add: locked_update_group update_group_nth)
qed

definition rules_valid :: "(string \<Rightarrow> bool) \<Rightarrow> Model \<Rightarrow> bool" where
  "rules_valid re m \<longleftrightarrow> list_all (\<lambda>g. list_all (\<lambda>r. Rule_Validate re r = None) (g_Rules g)) (m_Groups m)"

lemma rules_valid_nth:
  "rules_valid re m \<longleftrightarrow> (\<forall>i < length (m_Groups m). \<forall>r \<in> set (g_Rules (m_Groups m ! i)). Rule_Validate re r = None)"
  unfolding rules_valid_def list_all_iff by (rule all_set_conv_all_nth)

lemma edit_valid: "edit re m m' \<Longrightarrow> rules_valid re m \<Longrightarrow> rules_valid re m' \<and> m_DefaultAction m' = m_DefaultAction m"
proof (induction rule: edit.induct)
  case (append gs m)
  then show ?case by (auto simp: rules_valid_def list_all_iff)
next
  case (remove i m)
  then show ?case using set_remove_at by (fastforce simp: rules_valid_def list_all_iff)
next
  case (change i m f)
  then show ?case by (auto simp: rules_valid_nth update_group_nth split: if_splits)
next
  case (change2 i m ri j)
  have "g_Rules (m_Groups m ! i) ! ri \<in> set (g_Rules (m_Groups m ! i))" using change2 by simp
  with change2 show ?case
    by (auto simp: rules_valid_nth update_group_nth dest!: set_remove_at [THEN subsetD])
qed


section \<open>Every operation is an edit\<close>

lemma indexOfGroup_Some: "indexOfGroup m i = Some k \<Longrightarrow> k < length (m_Groups m) \<and> g_ID (m_Groups m ! k) = i"
  by (simp add: indexOfGroup_def index_where_Some)

lemma find_rule_from_Some:
  "find_rule_from n gs i = Some (gi, ri) \<Longrightarrow> n \<le> gi \<and> gi - n < length gs
     \<and> ri < length (g_Rules (gs ! (gi - n))) \<and> ru_ID (g_Rules (gs ! (gi - n)) ! ri) = i"
proof (induction gs arbitrary: n)
  case (Cons g gs)
  show ?case
  proof (cases "index_where (\<lambda>r. ru_ID r = i) (g_Rules g)")
    case None
    with Cons.prems have "find_rule_from (Suc n) gs i = Some (gi, ri)" by simp
    from Cons.IH [OF this] show ?thesis by (auto simp: nth_Cons split: nat.splits)
       (metis Suc_diff_Suc Suc_le_lessD diff_Suc_Suc nat.inject)+
  next
    case (Some k)
    with Cons.prems show ?thesis by (auto simp: index_where_Some)
  qed
qed simp

lemma findRule_Some:
  "findRule m i = Some (gi, ri) \<Longrightarrow> gi < length (m_Groups m)
     \<and> ri < length (g_Rules (m_Groups m ! gi)) \<and> ru_ID (g_Rules (m_Groups m ! gi) ! ri) = i"
  using find_rule_from_Some [of 0 "m_Groups m" i gi ri] by (simp add: findRule_def)

lemma import_rules_valid: "import_rules re dr n rs = Inr (rs', k) \<Longrightarrow> list_all (\<lambda>r. Rule_Validate re r = None) rs'"
  by (induction re dr n rs arbitrary: rs' k rule: import_rules.induct)
     (auto simp: Let_def split: option.splits sum.splits)

lemma import_groups_valid:
  "import_groups re dr n gs = Inr gs' \<Longrightarrow>
     list_all (\<lambda>g. \<not> g_Locked g \<and> list_all (\<lambda>r. Rule_Validate re r = None) (g_Rules g)) gs'"
proof (induction gs arbitrary: n gs')
  case (Cons g gs)
  then obtain rs k hs where rs: "import_rules re dr (Suc n) (g_Rules g) = Inr (rs, k)"
    and hs: "import_groups re dr k gs = Inr hs"
    and gs': "gs' = zero_Group \<lparr> g_ID := newID ''g'' (dr n), g_Name := g_Name g, g_Enabled := True,
        g_Rules := rs \<rparr> # hs"
    by (auto split: sum.splits)
  from Cons.IH [OF hs] import_rules_valid [OF rs] gs' show ?case by (simp add: zero_Group_def)
qed simp

text \<open>The outcome of an operation: refused without a trace, or the commit of an edit.\<close>

definition outcome :: "(string \<Rightarrow> bool) \<Rightarrow> bool \<Rightarrow> rules_state \<Rightarrow> (svc_error + unit) \<times> rules_state \<Rightarrow> bool" where
  "outcome re ok s res \<longleftrightarrow> (\<exists>e. res = (Inl e, s)) \<or>
     (\<exists>m'. edit re (Load (rs_disk s)) m' \<and> res = commit ok m' () s)"

lemma outcome_refused [intro, simp]: "outcome re ok s (Inl e, s)"
  by (simp add: outcome_def)

lemma outcome_edit [intro]: "edit re (Load (rs_disk s)) m' \<Longrightarrow> outcome re ok s (commit ok m' () s)"
  by (auto simp: outcome_def)

lemma void_commit [simp]: "void (commit ok m v s) = commit ok m () s"
  by (cases ok) (simp_all add: void_def commit_ok commit_failed)

lemma void_refused [simp]: "void (Inl e, s) = (Inl e, s)"
  by (simp add: void_def)

lemma in_set_remove_at: "x \<in> set (remove_at i xs) \<Longrightarrow> x \<in> set xs"
  using set_remove_at by fast

lemma in_set_update: "x \<in> set (xs[i := y]) \<Longrightarrow> x = y \<or> x \<in> set xs"
  using set_update_subset_insert by fast

lemma GroupAdd_outcome: "outcome re ok s (void (GroupAdd ok n d s))"
  by (auto simp: GroupAdd_def Let_def zero_Group_def intro!: outcome_edit edit.append)

lemma GroupEdit_outcome: "outcome re ok s (GroupEdit ok i n e s)"
  by (auto simp: GroupEdit_def Let_def split: option.splits dest!: indexOfGroup_Some
      intro!: outcome_edit edit.change)

lemma GroupRemove_outcome: "outcome re ok s (GroupRemove ok i s)"
  by (auto simp: GroupRemove_def Let_def split: option.splits dest!: indexOfGroup_Some
      intro!: outcome_edit edit.remove)

lemma RuleAdd_outcome: "outcome re ok s (void (RuleAdd re ok i r d s))"
  by (auto simp: RuleAdd_def Let_def split: option.splits dest!: indexOfGroup_Some
      intro!: outcome_edit edit.change)

lemma RuleEdit_outcome: "outcome re ok s (RuleEdit re ok r s)"
  by (auto simp: RuleEdit_def Let_def split: option.splits dest!: findRule_Some
      dest!: in_set_update intro: nth_mem intro!: outcome_edit edit.change)

lemma RuleRemove_outcome: "outcome re ok s (RuleRemove ok i s)"
  by (auto simp: RuleRemove_def Let_def split: option.splits dest!: findRule_Some
      dest!: in_set_remove_at intro!: outcome_edit edit.change)

lemma Validate_toggle [simp]: "Rule_Validate re (r \<lparr> ru_Enabled := b \<rparr>) = Rule_Validate re r"
  by (simp add: Rule_Validate_def)

lemma RuleToggle_outcome: "outcome re ok s (RuleToggle ok i s)"
proof (cases "findRule (Load (rs_disk s)) i")
  case (Some p)
  obtain gi ri where p: "p = (gi, ri)" by fastforce
  define m where "m = Load (rs_disk s)"
  have b: "gi < length (m_Groups m)" "ri < length (g_Rules (m_Groups m ! gi))"
    using findRule_Some Some p by (auto simp: m_def)
  have "edit re m (update_group gi (\<lambda>g. g \<lparr> g_Rules :=
      (g_Rules g)[ri := (g_Rules g ! ri) \<lparr> ru_Enabled := \<not> ru_Enabled (g_Rules g ! ri) \<rparr>] \<rparr>) m)"
    if "\<not> g_Locked (m_Groups m ! gi)"
    using b that nth_mem [OF b(2)]
    by (intro edit.change) (fastforce dest!: in_set_update)+
  with Some p show ?thesis by (auto simp: RuleToggle_def Let_def m_def)
qed (simp add: RuleToggle_def)

lemma RuleMove_outcome: "outcome re ok s (RuleMove ok i g s)"
proof (cases "findRule (Load (rs_disk s)) i")
  case (Some p)
  obtain gi ri where p: "p = (gi, ri)" by fastforce
  define m where "m = Load (rs_disk s)"
  have b: "gi < length (m_Groups m)" "ri < length (g_Rules (m_Groups m ! gi))"
    using findRule_Some Some p by (auto simp: m_def)
  show ?thesis
  proof (cases "indexOfGroup m g")
    case None
    with Some p show ?thesis by (simp add: RuleMove_def Let_def m_def)
  next
    case (Some to)
    then have "to < length (m_Groups m)" using indexOfGroup_Some by blast
    with b have "edit re m (update_group to (\<lambda>g. g \<lparr> g_Rules := g_Rules g @ [g_Rules (m_Groups m ! gi) ! ri] \<rparr>)
        (update_group gi (\<lambda>g. g \<lparr> g_Rules := remove_at ri (g_Rules g) \<rparr>) m))"
      if "\<not> g_Locked (m_Groups m ! gi)" "\<not> g_Locked (m_Groups m ! to)"
      using that by (intro edit.change2)
    with Some \<open>findRule (Load (rs_disk s)) i = Some p\<close> p show ?thesis
      by (auto simp: RuleMove_def Let_def m_def)
  qed
qed (simp add: RuleMove_def)

lemma ImportApply_outcome: "outcome re ok s (ImportApply re ok l d s)"
  by (auto simp: ImportApply_def Let_def split: sum.splits intro!: outcome_edit edit.append
      import_groups_valid)

fun is_replace :: "rules_op \<Rightarrow> bool" where
  "is_replace (OpReplaceAll m) = True"
| "is_replace _ = False"

lemmas op_outcomes = GroupAdd_outcome GroupEdit_outcome GroupRemove_outcome RuleAdd_outcome
  RuleEdit_outcome RuleRemove_outcome RuleToggle_outcome RuleMove_outcome ImportApply_outcome

lemma exec_outcome: "\<not> is_replace p \<Longrightarrow> outcome re ok s (exec re ok p s)"
  by (cases p) (simp_all add: op_outcomes)

lemma ReplaceAll_cases:
  "(\<exists>e. ReplaceAll re ok m s = (Inl e, s)) \<or>
   (rules_valid re m \<and> guardSafetyUnchanged (Load (rs_disk s)) m = None \<and> ReplaceAll re ok m s = commit ok m () s)"
proof -
  have "validate_all re m = None \<longleftrightarrow> rules_valid re m"
    unfolding validate_all_def rules_valid_nth
    by (auto simp: range_err_None all_set_conv_all_nth)
  then show ?thesis by (auto simp: ReplaceAll_def split: option.splits)
qed


section \<open>Properties\<close>

lemma exec_locked:
  assumes "\<not> is_replace p"
  shows "locked_groups (Load (rs_disk (snd (exec re ok p s)))) = locked_groups (Load (rs_disk s))"
  using exec_outcome [OF assms, of re ok s] edit_locked
  by (auto simp: outcome_def load_commit locked_groups_def)

text \<open>
  Locked groups are out of reach of every operation but ReplaceAll: after any sequence of
  the other calls, whichever of them fail, the locked groups of the stored model are the
  same groups with the same rules in the same order.
\<close>

theorem locked_groups_preserved:
  assumes "list_all (\<lambda>(ok, p). \<not> is_replace p) ps"
  shows "locked_groups (Load (rs_disk (run_ops re ps s))) = locked_groups (Load (rs_disk s))"
  using assms
proof (induction re ps s rule: run_ops.induct)
  case (2 re ok p ps s)
  then show ?case using exec_locked [of p re ok s] by simp
qed simp

theorem locked_groups_preserved_witness:
  "locked_groups (Load (rs_disk (run_ops (\<lambda>_. True)
       [(True, OpGroupRemove ''user''), (True, OpRuleRemove ''private''), (False, OpGroupAdd ''x'' (1, ''ab''))]
       \<lparr> rs_disk = Absent, rs_events = [] \<rparr>)))
     = locked_groups (Load (rs_disk \<lparr> rs_disk = Absent, rs_events = [] \<rparr>))"
  by (rule locked_groups_preserved) simp

definition good_op :: "rules_op \<Rightarrow> bool" where
  "good_op p = (case p of OpReplaceAll m \<Rightarrow> Action_Valid (m_DefaultAction m) | _ \<Rightarrow> True)"

lemma Model_Validate_rules:
  "Model_Validate re m = None \<longleftrightarrow> Action_Valid (m_DefaultAction m) \<and> rules_valid re m"
  by (simp add: Model_Validate_None rules_valid_def list_all_iff)

lemma heal_valid: "Action_Valid (m_DefaultAction m) \<Longrightarrow> heal m = m"
  by (auto simp: heal_def Action_Valid_def ActionProxy_def ActionDirect_def ActionBlock_def)

lemma DefaultModel_action: "m_DefaultAction DefaultModel = ActionProxy"
  by (simp add: DefaultModel_def)

lemma exec_valid:
  assumes "Model_Validate re (Load (rs_disk s)) = None" "good_op p"
  shows "Model_Validate re (Load (rs_disk (snd (exec re ok p s)))) = None"
proof (cases p)
  case (OpReplaceAll m)
  with assms ReplaceAll_cases [of re ok m s] show ?thesis
    by (auto simp: load_commit good_op_def heal_valid Model_Validate_rules)
next
  case other: (OpGroupAdd _ _)
  then show ?thesis using exec_outcome [of p re ok s] assms edit_valid
    by (auto simp: outcome_def load_commit Model_Validate_rules heal_valid)
qed (use exec_outcome [of p re ok s] assms edit_valid in
      \<open>auto simp: outcome_def load_commit Model_Validate_rules heal_valid\<close>)

text \<open>
  The service keeps the stored model compilable: starting from a model that validates, after
  any sequence of calls, failed writes included, the stored model validates, provided that
  every ReplaceAll carries a known default action.
\<close>

theorem service_keeps_valid:
  assumes "Model_Validate re (Load (rs_disk s)) = None" "list_all (\<lambda>(ok, p). good_op p) ps"
  shows "Model_Validate re (Load (rs_disk (run_ops re ps s))) = None"
  using assms
proof (induction re ps s rule: run_ops.induct)
  case (2 re ok p ps s)
  then show ?case using exec_valid [of re s p ok] by simp
qed simp

theorem service_keeps_valid_witness:
  "Model_Validate (\<lambda>_. True) (Load (rs_disk (run_ops (\<lambda>_. True)
       [(True, OpReplaceAll DefaultModel), (True, OpRuleAdd ''user'' sample_rule (1, ''ab''))]
       \<lparr> rs_disk = NotJSON, rs_events = [] \<rparr>))) = None"
  by (rule service_keeps_valid)
     (simp_all add: Load_def DefaultModel_Validate good_op_def Action_Valid_def DefaultModel_action)

text \<open>
  Every mutation is all or nothing: a call that fails leaves the file and the event log as they
  were, and one that succeeds has written the file and published exactly one change event.
\<close>

theorem mutation_atomic:
  "case exec re ok p s of
     (Inl e, s') \<Rightarrow> s' = s
   | (Inr v, s') \<Rightarrow> ok \<and> (\<exists>m. rs_disk s' = Tree (enc_Model m)) \<and>
                    rs_events s' = rs_events s @ [EventRulesChanged]"
proof (cases "is_replace p")
  case True
  then obtain m where "p = OpReplaceAll m" by (cases p) auto
  with ReplaceAll_cases [of re ok m s] show ?thesis
    by (cases ok) (auto simp: commit_ok commit_failed publishChanged_def split: prod.splits sum.splits)
next
  case False
  from exec_outcome [OF this, of re ok s] show ?thesis
    by (cases ok) (auto simp: outcome_def commit_ok commit_failed publishChanged_def split: prod.splits sum.splits)
qed

definition all_rules :: "Model \<Rightarrow> Rule multiset" where
  "all_rules m = (\<Sum>g \<leftarrow> m_Groups m. mset (g_Rules g))"

lemma all_rules_update:
  assumes "i < length (m_Groups m)"
  shows "all_rules (update_group i f m) + mset (g_Rules (m_Groups m ! i))
    = all_rules m + mset (g_Rules (f (m_Groups m ! i)))"
proof -
  define g where "g = m_Groups m ! i"
  obtain ys zs where e: "m_Groups m = ys @ g # zs" "(m_Groups m)[i := f g] = ys @ f g # zs"
    using list_update_split [OF assms] unfolding g_def by blast
  have "all_rules (update_group i f m) = (\<Sum>g \<leftarrow> ys @ f g # zs. mset (g_Rules g))"
    by (simp add: all_rules_def update_group_def e(2) flip: g_def)
  moreover have "all_rules m = (\<Sum>g \<leftarrow> ys @ g # zs. mset (g_Rules g))"
    by (simp add: all_rules_def e(1))
  ultimately show ?thesis by (simp add: g_def [symmetric])
qed

lemma mset_remove_at: "i < length xs \<Longrightarrow> add_mset (xs ! i) (mset (remove_at i xs)) = mset xs"
  using remove_at_split [of i xs] by (metis add_mset_add_single mset.simps(2) mset_append union_mset_add_mset_right)


lemma index_where_map: "index_where (\<lambda>x. p (f x)) xs = index_where p (map f xs)"
  by (induction xs) auto

lemma indexOfGroup_update:
  assumes "\<And>h. g_ID (f h) = g_ID h"
  shows "indexOfGroup (update_group i f m) g = indexOfGroup m g"
proof -
  have "map g_ID (m_Groups (update_group i f m)) = map g_ID (m_Groups m)"
    by (cases "i < length (m_Groups m)")
       (simp_all add: update_group_def map_update assms list_update_same_conv list_update_beyond)
  moreover have "indexOfGroup k g = index_where (\<lambda>x. x = g) (map g_ID (m_Groups k))" for k
    unfolding indexOfGroup_def by (rule index_where_map)
  ultimately show ?thesis by simp
qed

text \<open>
  Moving a rule neither loses nor duplicates anything: after a successful RuleMove the stored
  model has the same rules, and the rule that was moved is the last one of the first group
  with the destination's identifier.
\<close>

theorem RuleMove_conserves:
  assumes "RuleMove ok i g s = (Inr (), s')"
  shows "all_rules (Load (rs_disk s')) = all_rules (Load (rs_disk s)) \<and>
     (\<exists>k r rs. indexOfGroup (Load (rs_disk s')) g = Some k \<and> ru_ID r = i \<and>
        g_Rules (m_Groups (Load (rs_disk s')) ! k) = rs @ [r])"
proof -
  define m where "m = Load (rs_disk s)"
  from assms obtain gi ri to where f: "findRule m i = Some (gi, ri)" and t: "indexOfGroup m g = Some to"
    and c: "commit ok (update_group to (\<lambda>h. h \<lparr> g_Rules := g_Rules h @ [g_Rules (m_Groups m ! gi) ! ri] \<rparr>)
        (update_group gi (\<lambda>h. h \<lparr> g_Rules := remove_at ri (g_Rules h) \<rparr>) m)) () s = (Inr (), s')"
    by (auto simp: RuleMove_def Let_def m_def split: if_splits option.splits)
  define r where "r = g_Rules (m_Groups m ! gi) ! ri"
  define m1 where "m1 = update_group gi (\<lambda>h. h \<lparr> g_Rules := remove_at ri (g_Rules h) \<rparr>) m"
  define m2 where "m2 = update_group to (\<lambda>h. h \<lparr> g_Rules := g_Rules h @ [r] \<rparr>) m1"
  have gi: "gi < length (m_Groups m)" "ri < length (g_Rules (m_Groups m ! gi))" "ru_ID r = i"
    using findRule_Some [OF f] by (auto simp: r_def)
  have to: "to < length (m_Groups m)" using indexOfGroup_Some [OF t] by simp
  have after: "Load (rs_disk s') = heal m2"
    using c load_commit [of ok m2 "()" s]
    by (cases ok) (simp_all add: m2_def m1_def r_def commit_failed)
  define X where "X = mset (remove_at ri (g_Rules (m_Groups m ! gi)))"
  have "mset (g_Rules (m_Groups m ! gi)) = add_mset r X"
    using mset_remove_at [OF gi(2)] by (simp add: X_def r_def)
  with all_rules_update [OF gi(1), of "\<lambda>h. h \<lparr> g_Rules := remove_at ri (g_Rules h) \<rparr>"]
  have "add_mset r (all_rules m1) + X = all_rules m + X" by (simp add: m1_def X_def)
  then have 1: "add_mset r (all_rules m1) = all_rules m" by simp
  have 2: "all_rules m2 = add_mset r (all_rules m1)"
    using all_rules_update [of to m1 "\<lambda>h. h \<lparr> g_Rules := g_Rules h @ [r] \<rparr>"] to
    by (simp add: m2_def m1_def)
  have "indexOfGroup m2 g = Some to"
    using t by (simp add: m2_def m1_def indexOfGroup_update)
  moreover have "g_Rules (m_Groups m2 ! to) = g_Rules (m_Groups m1 ! to) @ [r]"
    using to by (simp add: m2_def m1_def update_group_nth)
  ultimately show ?thesis
    using after 1 2 gi(3) by (auto simp: all_rules_def m_def indexOfGroup_def)
qed

definition moved_model :: Model where
  "moved_model = DefaultModel \<lparr> m_Groups := m_Groups DefaultModel
     @ [sample_group \<lparr> g_ID := ''other'' \<rparr>] \<rparr>"

theorem RuleMove_conserves_witness:
  "\<exists>s'. RuleMove True ''r1'' ''user'' \<lparr> rs_disk = Tree (enc_Model moved_model), rs_events = [] \<rparr> = (Inr (), s')
     \<and> all_rules (Load (rs_disk s')) = all_rules moved_model"
proof -
  let ?s = "\<lparr> rs_disk = Tree (enc_Model moved_model), rs_events = [] \<rparr>"
  have l: "Load (Tree (enc_Model moved_model)) = moved_model"
    by (simp add: Load_def dec_enc_Model moved_model_def DefaultModel_action ActionProxy_def)
  have f: "findRule moved_model ''r1'' = Some (2, 0)" "indexOfGroup moved_model ''user'' = Some 1"
    "\<not> g_Locked (m_Groups moved_model ! 2)" "\<not> g_Locked (m_Groups moved_model ! 1)"
    by (simp_all add: moved_model_def DefaultModel_def sample_group_def sample_rule_def findRule_def
        indexOfGroup_def)
  have "\<exists>s'. RuleMove True ''r1'' ''user'' ?s = (Inr (), s')"
    using f by (simp add: RuleMove_def l Let_def commit_ok)
  then show ?thesis using RuleMove_conserves [of True "''r1''" "''user''" ?s] l by auto
qed


lemma count_actions_sum:
  assumes "list_all (\<lambda>r. Action_Valid (ru_Action r)) rs"
  shows "length (filter (\<lambda>r. ru_Action r = ActionProxy) rs) + length (filter (\<lambda>r. ru_Action r = ActionDirect) rs)
    + length (filter (\<lambda>r. ru_Action r = ActionBlock) rs) = length rs"
  using assms
  by (induction rs) (auto simp: Action_Valid_def ActionProxy_def ActionDirect_def ActionBlock_def)

lemma countRules_concat: "countRules gs = length (concat (map g_Rules gs))"
  by (induction gs) auto

text \<open>
  The three counts of an import preview add up to the number of rules of the link, so the
  preview accounts for every rule that the import would add.
\<close>

theorem ImportPreview_counts:
  assumes "Decode re link = Inr p"
  shows "\<exists>v. ImportPreview re link = Inr v \<and>
     ip_ProxyCount v + ip_DirectCount v + ip_BlockCount v = countRules (p_Groups p)"
proof -
  have "list_all (\<lambda>r. Action_Valid (ru_Action r)) (concat (map g_Rules (p_Groups p)))"
    using Decode_bounds [OF assms] by (auto simp: list_all_iff importable_def Rule_Validate_None)
  from count_actions_sum [OF this] assms show ?thesis
    by (simp add: ImportPreview_def count_action_def countRules_concat)
qed

theorem ImportPreview_counts_witness:
  "\<exists>link v. ImportPreview (\<lambda>_. True) link = Inr v \<and>
     ip_ProxyCount v + ip_DirectCount v + ip_BlockCount v = 1"
proof -
  obtain link where "Decode (\<lambda>_. True) link
      = Inr \<lparr> p_Version = CurrentSchema, p_Name = ''Web'', p_Groups = map share_group [sample_group] \<rparr>"
    using Decode_share [OF sample_group_facts, of "\<lambda>_. True"] by blast
  from ImportPreview_counts [OF this] show ?thesis
    by (simp add: share_group_def sample_group_def) blast
qed

definition first_run :: rules_state where
  "first_run = \<lparr> rs_disk = Absent, rs_events = [] \<rparr>"

definition unlocked_model :: Model where
  "unlocked_model = DefaultModel \<lparr> m_Groups := map (\<lambda>g. g \<lparr> g_Locked := False,
     g_Rules := map (\<lambda>r. r \<lparr> ru_Action := ActionBlock \<rparr>) (g_Rules g) \<rparr>) (m_Groups DefaultModel) \<rparr>"

text \<open>
  ReplaceAll does not protect the safety group: on a fresh store it accepts a model in which the
  group keeps its name, its flag and its rule identifiers but is no longer locked and its rule
  blocks the private networks instead of letting them pass. (The comment on the guard says that
  it rejects every change of the group's rules.)
\<close>

theorem ReplaceAll_changes_safety:
  "fst (ReplaceAll re True unlocked_model first_run) = Inr () \<and>
   locked_groups (Load (rs_disk first_run)) \<noteq> [] \<and>
   locked_groups (Load (rs_disk (snd (ReplaceAll re True unlocked_model first_run)))) = [] \<and>
   map ru_Action (active_rules (Load (rs_disk (snd (ReplaceAll re True unlocked_model first_run))))) = [ActionBlock]"
proof -
  have v: "rules_valid re unlocked_model"
    using DefaultModel_Validate [of re]
    by (auto simp: unlocked_model_def Model_Validate_rules rules_valid_def list_all_iff Rule_Validate_None
        Action_Valid_def)
  have h: "heal unlocked_model = unlocked_model"
    by (simp add: unlocked_model_def heal_def DefaultModel_action ActionProxy_def)
  have "validate_all re unlocked_model = None"
    using v unfolding validate_all_def rules_valid_nth by (auto simp: range_err_None all_set_conv_all_nth)
  moreover have "guardSafetyUnchanged DefaultModel unlocked_model = None"
    by (simp add: guardSafetyUnchanged_def unlocked_model_def DefaultModel_def last_safety_def range_err_None)
  ultimately have r: "ReplaceAll re True unlocked_model first_run = commit True unlocked_model () first_run"
    by (simp add: ReplaceAll_def first_run_def Load_def)
  show ?thesis
    unfolding r load_commit
    by (simp add: h commit_ok first_run_def Load_def locked_groups_def)
       (simp add: unlocked_model_def DefaultModel_def active_rules_def)
qed

text \<open>
  ReplaceAll accepts an unknown default action, after which the stored model no longer compiles:
  the check of the model's default action that the compiler makes is missing from this one
  entry point, and only an empty action is repaired on load.
\<close>

theorem ReplaceAll_default_action:
  "fst (ReplaceAll re True (DefaultModel \<lparr> m_DefaultAction := ''reject'' \<rparr>) first_run) = Inr () \<and>
   Compile re (Load (rs_disk (snd (ReplaceAll re True (DefaultModel \<lparr> m_DefaultAction := ''reject'' \<rparr>) first_run))))
     = Inl (DefaultActionInvalid ''reject'')"
proof -
  let ?m = "DefaultModel \<lparr> m_DefaultAction := ''reject'' \<rparr>"
  have "validate_all re ?m = None"
    using DefaultModel_Validate [of re]
    by (auto simp: validate_all_def range_err_None Model_Validate_None all_set_conv_all_nth)
  moreover have "guardSafetyUnchanged DefaultModel ?m = None"
    by (simp add: guardSafetyUnchanged_def DefaultModel_def last_safety_def range_err_None)
  ultimately have r: "ReplaceAll re True ?m first_run = commit True ?m () first_run"
    by (simp add: ReplaceAll_def first_run_def Load_def)
  show ?thesis
    unfolding r load_commit
    by (simp add: commit_ok heal_def Compile_def Model_Validate_def Action_Valid_def
        ActionProxy_def ActionDirect_def ActionBlock_def)
qed

end
