(* ===== verification/Vless.thy ===== *)
theory Vless
  imports Json
begin

text \<open>
  Package \<^verbatim>\<open>internal/vless\<close>: the connection settings of a VLESS server (\<^verbatim>\<open>Config\<close> of url.go), the
  transport and security enumerations (transport.go) and the compatibility check (compat.go).
  The enumerations are integers as in the source: the zero value and values read from a file may
  be none of the named constants.
\<close>

section \<open>transport.go\<close>

type_synonym Transport = int
type_synonym Security = int

definition TransportTCP :: Transport where "TransportTCP = 1"
definition TransportWS :: Transport where "TransportWS = 2"
definition TransportGRPC :: Transport where "TransportGRPC = 3"
definition TransportHTTPUpgrade :: Transport where "TransportHTTPUpgrade = 4"
definition TransportXHTTP :: Transport where "TransportXHTTP = 5"
definition TransportMKCP :: Transport where "TransportMKCP = 6"
definition TransportQUIC :: Transport where "TransportQUIC = 7"

definition SecurityNone :: Security where "SecurityNone = 1"
definition SecurityTLS :: Security where "SecurityTLS = 2"
definition SecurityReality :: Security where "SecurityReality = 3"

lemmas transport_defs = TransportTCP_def TransportWS_def TransportGRPC_def TransportHTTPUpgrade_def
  TransportXHTTP_def TransportMKCP_def TransportQUIC_def
lemmas security_defs = SecurityNone_def SecurityTLS_def SecurityReality_def

definition Transport_String :: "Transport \<Rightarrow> string" where
  "Transport_String t =
     (if t = TransportTCP then ''tcp''
      else if t = TransportWS then ''ws''
      else if t = TransportGRPC then ''grpc''
      else if t = TransportHTTPUpgrade then ''httpupgrade''
      else if t = TransportXHTTP then ''xhttp''
      else if t = TransportMKCP then ''mkcp''
      else if t = TransportQUIC then ''quic''
      else [])"

definition ParseTransport :: "string \<Rightarrow> Transport \<times> bool" where
  "ParseTransport s =
     (if s = [] \<or> s = ''tcp'' then (TransportTCP, True)
      else if s = ''ws'' then (TransportWS, True)
      else if s = ''grpc'' then (TransportGRPC, True)
      else if s = ''httpupgrade'' then (TransportHTTPUpgrade, True)
      else if s = ''xhttp'' then (TransportXHTTP, True)
      else if s = ''mkcp'' \<or> s = ''kcp'' then (TransportMKCP, True)
      else if s = ''quic'' then (TransportQUIC, True)
      else (0, False))"

definition Security_String :: "Security \<Rightarrow> string" where
  "Security_String s =
     (if s = SecurityNone then ''none''
      else if s = SecurityTLS then ''tls''
      else if s = SecurityReality then ''reality''
      else [])"

definition ParseSecurity :: "string \<Rightarrow> Security \<times> bool" where
  "ParseSecurity s =
     (if s = [] \<or> s = ''none'' then (SecurityNone, True)
      else if s = ''tls'' then (SecurityTLS, True)
      else if s = ''reality'' then (SecurityReality, True)
      else (0, False))"

section \<open>Config of url.go\<close>

record Config =
  v_Address :: string
  v_Port :: "16 word"
  v_UUID :: string
  v_Flow :: string
  v_Encryption :: string
  v_Remark :: string
  v_Security :: Security
  v_SNI :: string
  v_ALPN :: "string list"
  v_Fingerprint :: string
  v_AllowInsecure :: bool
  v_RealityPublicKey :: string
  v_RealityShortID :: string
  v_RealitySpiderX :: string
  v_Transport :: Transport
  v_Path :: string
  v_WSHost :: string
  v_GRPCServiceName :: string
  v_GRPCMode :: string
  v_XHTTPMode :: string
  v_HeaderType :: string
  v_Seed :: string
  v_QUICSec :: string
  v_QUICKey :: string

definition zero_Config :: Config where
  "zero_Config = \<lparr> v_Address = [], v_Port = 0, v_UUID = [], v_Flow = [], v_Encryption = [], v_Remark = [],
     v_Security = 0, v_SNI = [], v_ALPN = [], v_Fingerprint = [], v_AllowInsecure = False,
     v_RealityPublicKey = [], v_RealityShortID = [], v_RealitySpiderX = [], v_Transport = 0, v_Path = [],
     v_WSHost = [], v_GRPCServiceName = [], v_GRPCMode = [], v_XHTTPMode = [], v_HeaderType = [],
     v_Seed = [], v_QUICSec = [], v_QUICKey = [] \<rparr>"

text \<open>
  The struct has no tags, so \<^verbatim>\<open>encoding/json\<close> uses the Go field names; a nil slice is \<^verbatim>\<open>null\<close>.
\<close>

definition enc_ALPN :: "string list \<Rightarrow> json" where
  "enc_ALPN xs = (if xs = [] then JNull else enc_slice JStr xs)"

definition enc_Config :: "Config \<Rightarrow> json" where
  "enc_Config c = JObj
     [(''Address'', JStr (v_Address c)), (''Port'', JNum (uint (v_Port c))), (''UUID'', JStr (v_UUID c)),
      (''Flow'', JStr (v_Flow c)), (''Encryption'', JStr (v_Encryption c)), (''Remark'', JStr (v_Remark c)),
      (''Security'', JNum (v_Security c)), (''SNI'', JStr (v_SNI c)), (''ALPN'', enc_ALPN (v_ALPN c)),
      (''Fingerprint'', JStr (v_Fingerprint c)), (''AllowInsecure'', JBool (v_AllowInsecure c)),
      (''RealityPublicKey'', JStr (v_RealityPublicKey c)), (''RealityShortID'', JStr (v_RealityShortID c)),
      (''RealitySpiderX'', JStr (v_RealitySpiderX c)), (''Transport'', JNum (v_Transport c)),
      (''Path'', JStr (v_Path c)), (''WSHost'', JStr (v_WSHost c)),
      (''GRPCServiceName'', JStr (v_GRPCServiceName c)), (''GRPCMode'', JStr (v_GRPCMode c)),
      (''XHTTPMode'', JStr (v_XHTTPMode c)), (''HeaderType'', JStr (v_HeaderType c)),
      (''Seed'', JStr (v_Seed c)), (''QUICSec'', JStr (v_QUICSec c)), (''QUICKey'', JStr (v_QUICKey c))]"

abbreviation dec_go_int :: "int dec" where
  "dec_go_int \<equiv> dec_int (- (2 ^ 63)) (2 ^ 63 - 1)"

definition Config_fields :: "Config fields" where
  "Config_fields =
     [(''Address'', fld v_Address (\<lambda>x. v_Address_update (\<lambda>_. x)) dec_string),
      (''Port'', fld v_Port (\<lambda>x. v_Port_update (\<lambda>_. x)) dec_word16),
      (''UUID'', fld v_UUID (\<lambda>x. v_UUID_update (\<lambda>_. x)) dec_string),
      (''Flow'', fld v_Flow (\<lambda>x. v_Flow_update (\<lambda>_. x)) dec_string),
      (''Encryption'', fld v_Encryption (\<lambda>x. v_Encryption_update (\<lambda>_. x)) dec_string),
      (''Remark'', fld v_Remark (\<lambda>x. v_Remark_update (\<lambda>_. x)) dec_string),
      (''Security'', fld v_Security (\<lambda>x. v_Security_update (\<lambda>_. x)) dec_go_int),
      (''SNI'', fld v_SNI (\<lambda>x. v_SNI_update (\<lambda>_. x)) dec_string),
      (''ALPN'', fld v_ALPN (\<lambda>x. v_ALPN_update (\<lambda>_. x)) (dec_slice dec_string [])),
      (''Fingerprint'', fld v_Fingerprint (\<lambda>x. v_Fingerprint_update (\<lambda>_. x)) dec_string),
      (''AllowInsecure'', fld v_AllowInsecure (\<lambda>x. v_AllowInsecure_update (\<lambda>_. x)) dec_bool),
      (''RealityPublicKey'', fld v_RealityPublicKey (\<lambda>x. v_RealityPublicKey_update (\<lambda>_. x)) dec_string),
      (''RealityShortID'', fld v_RealityShortID (\<lambda>x. v_RealityShortID_update (\<lambda>_. x)) dec_string),
      (''RealitySpiderX'', fld v_RealitySpiderX (\<lambda>x. v_RealitySpiderX_update (\<lambda>_. x)) dec_string),
      (''Transport'', fld v_Transport (\<lambda>x. v_Transport_update (\<lambda>_. x)) dec_go_int),
      (''Path'', fld v_Path (\<lambda>x. v_Path_update (\<lambda>_. x)) dec_string),
      (''WSHost'', fld v_WSHost (\<lambda>x. v_WSHost_update (\<lambda>_. x)) dec_string),
      (''GRPCServiceName'', fld v_GRPCServiceName (\<lambda>x. v_GRPCServiceName_update (\<lambda>_. x)) dec_string),
      (''GRPCMode'', fld v_GRPCMode (\<lambda>x. v_GRPCMode_update (\<lambda>_. x)) dec_string),
      (''XHTTPMode'', fld v_XHTTPMode (\<lambda>x. v_XHTTPMode_update (\<lambda>_. x)) dec_string),
      (''HeaderType'', fld v_HeaderType (\<lambda>x. v_HeaderType_update (\<lambda>_. x)) dec_string),
      (''Seed'', fld v_Seed (\<lambda>x. v_Seed_update (\<lambda>_. x)) dec_string),
      (''QUICSec'', fld v_QUICSec (\<lambda>x. v_QUICSec_update (\<lambda>_. x)) dec_string),
      (''QUICKey'', fld v_QUICKey (\<lambda>x. v_QUICKey_update (\<lambda>_. x)) dec_string)]"

section \<open>compat.go\<close>

datatype compat_error = RealityTransport string | RealityNoKey | RealityNoSNI

datatype compat_msg = DroppedFlow string | NoSNI | InsecureQUIC

definition flow_ok :: "Config \<Rightarrow> bool" where
  "flow_ok c \<longleftrightarrow> v_Transport c = TransportTCP \<and>
     (v_Security c = SecurityTLS \<or> v_Security c = SecurityReality) \<and>
     (v_Flow c = ''xtls-rprx-vision'' \<or> v_Flow c = ''xtls-rprx-vision-udp443'')"

definition Normalize :: "Config \<Rightarrow> compat_error + (compat_msg list \<times> Config)" where
  "Normalize c =
     (if v_Security c = SecurityReality \<and>
         \<not> (v_Transport c = TransportTCP \<or> v_Transport c = TransportGRPC \<or> v_Transport c = TransportXHTTP)
      then Inl (RealityTransport (Transport_String (v_Transport c)))
      else if v_Security c = SecurityReality \<and> v_RealityPublicKey c = [] then Inl RealityNoKey
      else if v_Security c = SecurityReality \<and> v_SNI c = [] then Inl RealityNoSNI
      else
        let drop_flow = (v_Flow c \<noteq> [] \<and> \<not> flow_ok c);
            msgs = (if drop_flow then [DroppedFlow (v_Flow c)] else [])
              @ (if v_Security c = SecurityTLS \<and> v_SNI c = [] then [NoSNI] else [])
              @ (if v_Security c = SecurityNone \<and> v_Transport c = TransportQUIC then [InsecureQUIC] else [])
        in Inr (msgs, if drop_flow then c \<lparr> v_Flow := [] \<rparr> else c))"

section \<open>Lemmas\<close>

lemma uint_16_bound: "uint (w :: 16 word) < 65536"
  using uint_bounded [of w] by simp

definition go_int :: "int \<Rightarrow> bool" where
  "go_int n \<longleftrightarrow> - (2 ^ 63) \<le> n \<and> n < 2 ^ 63"

lemma dec_enc_ALPN: "dec_slice dec_string [] (enc_ALPN xs) ys = Some xs"
  by (simp add: enc_ALPN_def dec_slice_enc) (simp add: dec_slice_def)

lemma dec_int_ok: "lo \<le> n \<and> n < 2 ^ 63 \<Longrightarrow> dec_int lo (2 ^ 63 - 1) (JNum n) m = Some n"
  by simp

lemma dec_word16_ok: "dec_word16 (JNum (uint w)) v = Some w"
  using uint_16_bound [of w] by simp

lemma Config_keys: "distinct (map fst Config_fields)"
  by (simp add: Config_fields_def)

lemma dec_enc_Config:
  assumes "go_int (v_Security c)" "go_int (v_Transport c)"
  shows "dec_struct Config_fields (enc_Config c) zero_Config = Some c"
proof -
  define vs where "vs = [JStr (v_Address c), JNum (uint (v_Port c)), JStr (v_UUID c), JStr (v_Flow c),
      JStr (v_Encryption c), JStr (v_Remark c), JNum (v_Security c), JStr (v_SNI c), enc_ALPN (v_ALPN c),
      JStr (v_Fingerprint c), JBool (v_AllowInsecure c), JStr (v_RealityPublicKey c),
      JStr (v_RealityShortID c), JStr (v_RealitySpiderX c), JNum (v_Transport c), JStr (v_Path c),
      JStr (v_WSHost c), JStr (v_GRPCServiceName c), JStr (v_GRPCMode c), JStr (v_XHTTPMode c),
      JStr (v_HeaderType c), JStr (v_Seed c), JStr (v_QUICSec c), JStr (v_QUICKey c)]"
  have "enc_Config c = JObj (zip (map fst Config_fields) vs)"
    by (simp add: enc_Config_def Config_fields_def vs_def)
  moreover have "length vs = length Config_fields" by (simp add: Config_fields_def vs_def)
  moreover have "dec_seq (map snd Config_fields) vs zero_Config = Some c"
    unfolding Config_fields_def vs_def list.map snd_conv
    by ((rule dec_seq_step, rule fld_Some,
          (rule dec_string.simps dec_bool.simps dec_word16_ok dec_enc_ALPN
           | rule dec_int_ok, use assms in \<open>simp add: go_int_def\<close>))+,
        rule dec_seq_end, rule Config.equality, simp_all add: zero_Config_def)
  ultimately show ?thesis by (simp add: dec_fields_exact [OF Config_keys])
qed

lemma Transport_String_known:
  "t \<in> {TransportTCP, TransportWS, TransportGRPC, TransportHTTPUpgrade, TransportXHTTP, TransportMKCP,
      TransportQUIC} \<Longrightarrow> Transport_String t \<noteq> [] \<and> ParseTransport (Transport_String t) = (t, True)"
  by (elim insertE emptyE; simp add: Transport_String_def ParseTransport_def transport_defs)

lemma Transport_String_unknown:
  "t \<notin> {TransportTCP, TransportWS, TransportGRPC, TransportHTTPUpgrade, TransportXHTTP, TransportMKCP,
      TransportQUIC} \<Longrightarrow> Transport_String t = []"
  by (simp add: Transport_String_def)

lemma ParseTransport_known:
  "snd (ParseTransport x) \<Longrightarrow> fst (ParseTransport x) \<in> {TransportTCP, TransportWS, TransportGRPC,
     TransportHTTPUpgrade, TransportXHTTP, TransportMKCP, TransportQUIC}"
  by (auto simp: ParseTransport_def split: if_splits)

lemma Security_String_known:
  "s \<in> {SecurityNone, SecurityTLS, SecurityReality} \<Longrightarrow>
     Security_String s \<noteq> [] \<and> ParseSecurity (Security_String s) = (s, True)"
  by (elim insertE emptyE; simp add: Security_String_def ParseSecurity_def security_defs)

lemma ParseSecurity_known:
  "snd (ParseSecurity x) \<Longrightarrow> fst (ParseSecurity x) \<in> {SecurityNone, SecurityTLS, SecurityReality}"
  by (auto simp: ParseSecurity_def split: if_splits)

lemma Normalize_Inr:
  assumes "Normalize c = Inr (msgs, d)"
  shows "d = (if v_Flow c \<noteq> [] \<and> \<not> flow_ok c then c \<lparr> v_Flow := [] \<rparr> else c)"
    and "v_Security c = SecurityReality \<Longrightarrow>
       v_Transport c \<in> {TransportTCP, TransportGRPC, TransportXHTTP} \<and> v_RealityPublicKey c \<noteq> [] \<and> v_SNI c \<noteq> []"
  using assms by (auto simp: Normalize_def Let_def split: if_splits)

text \<open>What a configuration must satisfy for xray to accept it.\<close>

definition compatible :: "Config \<Rightarrow> bool" where
  "compatible c \<longleftrightarrow>
     (v_Security c = SecurityReality \<longrightarrow>
        v_Transport c \<in> {TransportTCP, TransportGRPC, TransportXHTTP} \<and> v_RealityPublicKey c \<noteq> [] \<and> v_SNI c \<noteq> [])
     \<and> (v_Flow c = [] \<or> flow_ok c)"

section \<open>Properties\<close>

text \<open>
  The names of transports and securities and their values determine each other: parsing the name
  of a known value gives that value back, and a value that was parsed has a name that parses to
  the same value.
\<close>

theorem enum_round_trips:
  "(Transport_String t \<noteq> [] \<longrightarrow> ParseTransport (Transport_String t) = (t, True)) \<and>
   (Security_String s \<noteq> [] \<longrightarrow> ParseSecurity (Security_String s) = (s, True)) \<and>
   (snd (ParseTransport x) \<longrightarrow> ParseTransport (Transport_String (fst (ParseTransport x))) = ParseTransport x) \<and>
   (snd (ParseSecurity x) \<longrightarrow> ParseSecurity (Security_String (fst (ParseSecurity x))) = ParseSecurity x)"
proof (intro conjI impI)
  assume "Transport_String t \<noteq> []"
  then show "ParseTransport (Transport_String t) = (t, True)"
    using Transport_String_known Transport_String_unknown by blast
next
  assume "Security_String s \<noteq> []"
  then have "s \<in> {SecurityNone, SecurityTLS, SecurityReality}"
    by (simp add: Security_String_def split: if_splits)
  then show "ParseSecurity (Security_String s) = (s, True)" using Security_String_known by blast
next
  assume "snd (ParseTransport x)"
  then show "ParseTransport (Transport_String (fst (ParseTransport x))) = ParseTransport x"
    using Transport_String_known [OF ParseTransport_known] by (simp add: prod_eq_iff)
next
  assume "snd (ParseSecurity x)"
  then show "ParseSecurity (Security_String (fst (ParseSecurity x))) = ParseSecurity x"
    using Security_String_known [OF ParseSecurity_known] by (simp add: prod_eq_iff)
qed

theorem enum_round_trips_witness:
  "Transport_String TransportGRPC \<noteq> [] \<and> ParseTransport (Transport_String TransportGRPC) = (TransportGRPC, True)
   \<and> snd (ParseSecurity ''reality'')"
  using enum_round_trips [of TransportGRPC SecurityTLS "''kcp''"]
  by (simp add: Transport_String_def ParseSecurity_def transport_defs)

text \<open>
  Normalising either rejects a configuration or returns one that is compatible, changing nothing but
  an unsupported flow; a compatible configuration is accepted unchanged, so normalising twice
  is the same as once.
\<close>

theorem Normalize_compatible:
  "(case Normalize c of
      Inl e \<Rightarrow> \<not> compatible c
    | Inr (msgs, d) \<Rightarrow> compatible d \<and> d \<lparr> v_Flow := v_Flow c \<rparr> = c \<and>
        (\<exists>msgs'. Normalize d = Inr (msgs', d))) \<and>
   (\<not> compatible c \<or> (\<exists>msgs. Normalize c = Inr (msgs, c)))"
proof (cases "Normalize c")
  case (Inl e)
  then have "\<not> compatible c" by (auto simp: Normalize_def compatible_def Let_def split: if_splits)
  with Inl show ?thesis by simp
next
  case (Inr p)
  obtain msgs d where p: "p = (msgs, d)" by fastforce
  note n = Normalize_Inr [OF Inr [unfolded p]]
  have d: "compatible d" using n by (auto simp: compatible_def flow_ok_def)
  have idem: "\<exists>msgs'. Normalize e = Inr (msgs', e)" if "compatible e" for e
    using that by (auto simp: Normalize_def compatible_def Let_def)
  have "d \<lparr> v_Flow := v_Flow c \<rparr> = c" using n(1) by simp
  moreover have "\<exists>msgs. Normalize c = Inr (msgs, c)" if "compatible c" using idem that by blast
  ultimately show ?thesis using Inr p d idem by auto
qed

theorem Normalize_compatible_witness:
  "\<exists>msgs. Normalize (zero_Config \<lparr> v_Security := SecurityTLS, v_Transport := TransportTCP,
       v_Flow := ''xtls-rprx-vision'' \<rparr>) = Inr (msgs, zero_Config \<lparr> v_Security := SecurityTLS,
       v_Transport := TransportTCP, v_Flow := ''xtls-rprx-vision'' \<rparr>)"
  using Normalize_compatible [of "zero_Config \<lparr> v_Security := SecurityTLS, v_Transport := TransportTCP,
       v_Flow := ''xtls-rprx-vision'' \<rparr>"]
  by (simp add: compatible_def flow_ok_def security_defs zero_Config_def)

end
