(* ===== verification/Server_Store.thy ===== *)
theory Server_Store
  imports Vless Json_Text Store_Spec Rules
begin

text \<open>
  Package \<^verbatim>\<open>internal/server\<close>: server entries (model.go), their identifiers (identity.go) and the
  \<^verbatim>\<open>servers.json\<close> store with the merge that a subscription sync makes (store.go). \<open>sha\<close> is
  \<^verbatim>\<open>sha256.Sum256\<close> on bytes. The search for a free identifier has no bound in the source, so it is a
  partial function and everything that uses it returns an option: \<open>None\<close> is the loop that does
  not end.
\<close>

section \<open>model.go\<close>

type_synonym Origin = string

definition OriginManual :: Origin where "OriginManual = ''manual''"
definition OriginSubscription :: Origin where "OriginSubscription = ''subscription''"

record Server =
  s_ID :: string
  s_Origin :: Origin
  s_SourceID :: string
  s_Name :: string
  s_Remark :: string
  s_Vless :: Config
  s_Tags :: "string list"
  s_LatencyMS :: "int option"
  s_Favorite :: bool
  s_Disabled :: bool

definition hex_digit :: "nat \<Rightarrow> char" where
  "hex_digit d = (if d < 10 then char_of (48 + d) else char_of (87 + d))"

definition hex_encode :: "string \<Rightarrow> string" where
  "hex_encode s = concat (map (\<lambda>c. [hex_digit (of_char c div 16), hex_digit (of_char c mod 16)]) s)"

definition StableID :: "(string \<Rightarrow> string) \<Rightarrow> Config \<Rightarrow> string" where
  "StableID sha c =
     hex_encode (take 8 (sha (v_Address c @ '':'' @ nat_str (unat (v_Port c)) @ '':'' @ v_UUID c)))"

definition hostPort :: "string \<Rightarrow> 16 word \<Rightarrow> string" where
  "hostPort addr port =
     (if CHR '':'' \<in> set addr then ''['' @ addr @ '']:'' @ nat_str (unat port)
      else addr @ '':'' @ nat_str (unat port))"

definition New :: "(string \<Rightarrow> string) \<Rightarrow> Config \<Rightarrow> Origin \<Rightarrow> string \<Rightarrow> Server" where
  "New sha c origin sourceID =
     \<lparr> s_ID = StableID sha c, s_Origin = origin, s_SourceID = sourceID,
       s_Name = (if v_Remark c = [] then hostPort (v_Address c) (v_Port c) else v_Remark c),
       s_Remark = v_Remark c, s_Vless = c, s_Tags = [], s_LatencyMS = None,
       s_Favorite = False, s_Disabled = False \<rparr>"

section \<open>identity.go\<close>

definition ConnectionID :: "(string \<Rightarrow> string) \<Rightarrow> Config \<Rightarrow> string" where
  "ConnectionID sha c = hex_encode (take 16 (sha (json_print (enc_Config (c \<lparr> v_Remark := [] \<rparr>)))))"

definition variant_id :: "(string \<Rightarrow> string) \<Rightarrow> string \<Rightarrow> string" where
  "variant_id sha seed = ''sub-'' @ hex_encode (take 16 (sha seed))"

definition variant_seed :: "string \<Rightarrow> string \<Rightarrow> string" where
  "variant_seed sourceID key = sourceID @ [CHR 0x00] @ key"

partial_function (option) variant_loop ::
  "(string \<Rightarrow> string) \<Rightarrow> string \<Rightarrow> string list \<Rightarrow> nat \<Rightarrow> string \<Rightarrow> string option" where
  "variant_loop sha seed reserved attempt i =
     (if i \<in> set reserved
      then variant_loop sha seed reserved (attempt + 1)
             (variant_id sha (seed @ [CHR 0x00] @ nat_str attempt))
      else Some i)"

definition availableVariantID :: "(string \<Rightarrow> string) \<Rightarrow> string \<Rightarrow> string \<Rightarrow> string list \<Rightarrow> string option" where
  "availableVariantID sha sourceID key reserved =
     variant_loop sha (variant_seed sourceID key) reserved 1 (variant_id sha (variant_seed sourceID key))"

definition own :: "string \<Rightarrow> Server \<Rightarrow> bool" where
  "own sourceID s \<longleftrightarrow> s_Origin s = OriginSubscription \<and> s_SourceID s = sourceID"

text \<open>\<^verbatim>\<open>oldByConnection\<close> keeps the first entry per key, \<^verbatim>\<open>oldByEndpoint\<close> all of them in order.\<close>

definition oldByConnection :: "(string \<Rightarrow> string) \<Rightarrow> string \<Rightarrow> Server list \<Rightarrow> string \<Rightarrow> Server option" where
  "oldByConnection sha sourceID existing key =
     find (\<lambda>s. own sourceID s \<and> ConnectionID sha (s_Vless s) = key) existing"

definition oldByEndpoint :: "(string \<Rightarrow> string) \<Rightarrow> string \<Rightarrow> Server list \<Rightarrow> string \<Rightarrow> Server list" where
  "oldByEndpoint sha sourceID existing endpoint =
     filter (\<lambda>s. own sourceID s \<and> StableID sha (s_Vless s) = endpoint) existing"

text \<open>The loop that drops repeated connections: the first of each is kept.\<close>

fun unique_by :: "('a \<Rightarrow> 'k) \<Rightarrow> 'k list \<Rightarrow> 'a list \<Rightarrow> 'a list" where
  "unique_by f seen [] = []"
| "unique_by f seen (x # xs) =
     (if f x \<in> set seen then unique_by f seen xs else x # unique_by f (f x # seen) xs)"

definition incoming_unique :: "(string \<Rightarrow> string) \<Rightarrow> Server list \<Rightarrow> Server list" where
  "incoming_unique sha incoming = unique_by (\<lambda>s. ConnectionID sha (s_Vless s)) [] incoming"

definition endpoint_count :: "(string \<Rightarrow> string) \<Rightarrow> Server list \<Rightarrow> string \<Rightarrow> nat" where
  "endpoint_count sha unique endpoint =
     length (filter (\<lambda>s. StableID sha (s_Vless s) = endpoint) unique)"

text \<open>The body of the last loop: the identifier that an incoming entry gets.\<close>

definition assign_id :: "(string \<Rightarrow> string) \<Rightarrow> Server list \<Rightarrow> string \<Rightarrow> Server list \<Rightarrow> string list \<Rightarrow> Server
    \<Rightarrow> string option" where
  "assign_id sha existing sourceID unique reserved s =
     (let key = ConnectionID sha (s_Vless s);
          endpoint = StableID sha (s_Vless s);
          old = oldByEndpoint sha sourceID existing endpoint
      in case oldByConnection sha sourceID existing key of
           Some m \<Rightarrow> Some (s_ID m)
         | None \<Rightarrow>
             (if length old = 1 \<and> endpoint_count sha unique endpoint = 1 then Some (s_ID (old ! 0))
              else if endpoint_count sha unique endpoint > 1 \<or> s_ID s \<in> set reserved \<or> length old > 0
                then availableVariantID sha sourceID key reserved
              else Some (s_ID s)))"

fun assign_ids :: "(string \<Rightarrow> string) \<Rightarrow> Server list \<Rightarrow> string \<Rightarrow> Server list \<Rightarrow> string list \<Rightarrow> Server list
    \<Rightarrow> Server list option" where
  "assign_ids sha existing sourceID unique reserved [] = Some []"
| "assign_ids sha existing sourceID unique reserved (s # ss) =
     (case assign_id sha existing sourceID unique reserved s of
        None \<Rightarrow> None
      | Some i \<Rightarrow>
          (case assign_ids sha existing sourceID unique (i # reserved) ss of
             None \<Rightarrow> None
           | Some rest \<Rightarrow> Some (s \<lparr> s_ID := i \<rparr> # rest)))"

definition reconcileIncomingIDs :: "(string \<Rightarrow> string) \<Rightarrow> Server list \<Rightarrow> Server list \<Rightarrow> string \<Rightarrow> Server list option" where
  "reconcileIncomingIDs sha existing incoming sourceID =
     (let unique = incoming_unique sha incoming
      in assign_ids sha existing sourceID unique (map s_ID existing) unique)"

section \<open>store.go\<close>

text \<open>\<^verbatim>\<open>existingByID\<close>: the last entry with an identifier wins.\<close>

definition existingByID :: "Server list \<Rightarrow> string \<Rightarrow> Server option" where
  "existingByID existing i = find (\<lambda>s. s_ID s = i) (rev existing)"

definition keep_local :: "Server list \<Rightarrow> Server \<Rightarrow> Server" where
  "keep_local existing s =
     (case existingByID existing (s_ID s) of
        None \<Rightarrow> s
      | Some old \<Rightarrow> s \<lparr> s_Tags := s_Tags old, s_LatencyMS := s_LatencyMS old,
                       s_Favorite := s_Favorite old, s_Disabled := s_Disabled old \<rparr>)"

definition Merge :: "(string \<Rightarrow> string) \<Rightarrow> Server list \<Rightarrow> Server list \<Rightarrow> string \<Rightarrow> Server list option" where
  "Merge sha existing incoming sourceID =
     (case reconcileIncomingIDs sha existing incoming sourceID of
        None \<Rightarrow> None
      | Some inc \<Rightarrow>
          Some (map (keep_local existing) inc
            @ filter (\<lambda>old. s_ID old \<notin> s_ID ` set inc \<and> \<not> own sourceID old) existing))"

text \<open>The JSON form of a server, by its tags.\<close>

definition enc_Server :: "Server \<Rightarrow> json" where
  "enc_Server s = JObj
     ([(''id'', JStr (s_ID s)), (''origin'', JStr (s_Origin s))]
      @ jopt (s_SourceID s \<noteq> []) ''source_id'' (JStr (s_SourceID s))
      @ [(''name'', JStr (s_Name s))]
      @ jopt (s_Remark s \<noteq> []) ''remark'' (JStr (s_Remark s))
      @ [(''vless'', enc_Config (s_Vless s))]
      @ jopt (s_Tags s \<noteq> []) ''tags'' (enc_slice JStr (s_Tags s))
      @ jopt (s_LatencyMS s \<noteq> None) ''latency_ms'' (JNum (case s_LatencyMS s of Some n \<Rightarrow> n | None \<Rightarrow> 0))
      @ jopt (s_Favorite s) ''favorite'' (JBool (s_Favorite s))
      @ jopt (s_Disabled s) ''disabled'' (JBool (s_Disabled s)))"

fun dec_int_ptr :: "int option dec" where
  "dec_int_ptr JNull p = Some None"
| "dec_int_ptr j p = map_option Some (dec_go_int j 0)"

definition Server_fields :: "Server fields" where
  "Server_fields =
     [(''id'', fld s_ID (\<lambda>x. s_ID_update (\<lambda>_. x)) dec_string),
      (''origin'', fld s_Origin (\<lambda>x. s_Origin_update (\<lambda>_. x)) dec_string),
      (''source_id'', fld s_SourceID (\<lambda>x. s_SourceID_update (\<lambda>_. x)) dec_string),
      (''name'', fld s_Name (\<lambda>x. s_Name_update (\<lambda>_. x)) dec_string),
      (''remark'', fld s_Remark (\<lambda>x. s_Remark_update (\<lambda>_. x)) dec_string),
      (''vless'', fld s_Vless (\<lambda>x. s_Vless_update (\<lambda>_. x)) (dec_struct Config_fields)),
      (''tags'', fld s_Tags (\<lambda>x. s_Tags_update (\<lambda>_. x)) (dec_slice dec_string [])),
      (''latency_ms'', fld s_LatencyMS (\<lambda>x. s_LatencyMS_update (\<lambda>_. x)) dec_int_ptr),
      (''favorite'', fld s_Favorite (\<lambda>x. s_Favorite_update (\<lambda>_. x)) dec_bool),
      (''disabled'', fld s_Disabled (\<lambda>x. s_Disabled_update (\<lambda>_. x)) dec_bool)]"

definition zero_Server :: Server where
  "zero_Server = \<lparr> s_ID = [], s_Origin = [], s_SourceID = [], s_Name = [], s_Remark = [],
     s_Vless = zero_Config, s_Tags = [], s_LatencyMS = None, s_Favorite = False, s_Disabled = False \<rparr>"

text \<open>\<open>None\<close> is the error of \<^verbatim>\<open>Load\<close>: an unreadable or unparsable file.\<close>

definition Servers_Load :: "disk \<Rightarrow> Server list option" where
  "Servers_Load f =
     (case f of
        Absent \<Rightarrow> Some []
      | Unreadable \<Rightarrow> None
      | NotJSON \<Rightarrow> None
      | Tree j \<Rightarrow> dec_slice (dec_struct Server_fields) zero_Server j [])"

definition Servers_Save :: "bool \<Rightarrow> Server list \<Rightarrow> disk \<Rightarrow> bool \<times> disk" where
  "Servers_Save ok ss f = (if ok then (True, Tree (enc_slice enc_Server ss)) else (False, f))"


section \<open>Free identifiers\<close>

lemma variant_loop_free: "variant_loop sha seed reserved a i = Some j \<Longrightarrow> j \<notin> set reserved"
  by (rule variant_loop.raw_induct [of "\<lambda>sha seed reserved a i j. j \<notin> set reserved"])
     (auto split: if_splits)

abbreviation candidate :: "(string \<Rightarrow> string) \<Rightarrow> string \<Rightarrow> nat \<Rightarrow> string" where
  "candidate sha seed k \<equiv> variant_id sha (seed @ [CHR 0x00] @ nat_str k)"

lemma variant_loop_reaches:
  assumes "candidate sha seed (a + n) \<notin> set reserved"
  shows "\<exists>j. variant_loop sha seed reserved a i = Some j"
  using assms
proof (induction n arbitrary: a i)
  case 0
  then show ?case by (subst variant_loop.simps) (subst variant_loop.simps, simp)
next
  case (Suc n)
  then have "\<exists>j. variant_loop sha seed reserved (a + 1) (candidate sha seed a) = Some j"
    by (intro Suc.IH) simp
  then show ?case by (subst variant_loop.simps) simp
qed

lemma free_candidate:
  assumes "inj_on f {a..a + length xs}"
  shows "\<exists>n \<le> length xs. f (a + n) \<notin> set xs"
proof (rule ccontr)
  assume "\<not> ?thesis"
  then have "f ` {a..a + length xs} \<subseteq> set xs"
    by (auto simp: image_subset_iff) (metis le_add_diff_inverse nat_add_left_cancel_le)
  then have "card (f ` {a..a + length xs}) \<le> length xs"
    by (meson List.finite_set card_length card_mono le_trans)
  with card_image [OF assms] show False by simp
qed

lemma availableVariantID_total:
  assumes "inj_on (candidate sha (variant_seed src key)) {1..1 + length reserved}"
  shows "\<exists>j. availableVariantID sha src key reserved = Some j"
  using free_candidate [OF assms] variant_loop_reaches unfolding availableVariantID_def by blast

section \<open>Which old entry an incoming one takes over\<close>

definition old_target :: "(string \<Rightarrow> string) \<Rightarrow> Server list \<Rightarrow> string \<Rightarrow> Server list \<Rightarrow> Server \<Rightarrow> Server option" where
  "old_target sha existing src unique s =
     (case oldByConnection sha src existing (ConnectionID sha (s_Vless s)) of
        Some m \<Rightarrow> Some m
      | None \<Rightarrow>
          (let old = oldByEndpoint sha src existing (StableID sha (s_Vless s))
           in if length old = 1 \<and> endpoint_count sha unique (StableID sha (s_Vless s)) = 1
              then Some (old ! 0) else None))"

text \<open>Equal connection hashes come with equal endpoint hashes, on the entries at hand.\<close>

definition no_collision :: "(string \<Rightarrow> string) \<Rightarrow> Server list \<Rightarrow> bool" where
  "no_collision sha ss \<longleftrightarrow>
     list_all (\<lambda>s. list_all (\<lambda>t. ConnectionID sha (s_Vless s) = ConnectionID sha (s_Vless t) \<longrightarrow>
                                StableID sha (s_Vless s) = StableID sha (s_Vless t)) ss) ss"

lemma no_collisionD:
  "no_collision sha ss \<Longrightarrow> s \<in> set ss \<Longrightarrow> t \<in> set ss \<Longrightarrow>
     ConnectionID sha (s_Vless s) = ConnectionID sha (s_Vless t) \<Longrightarrow>
     StableID sha (s_Vless s) = StableID sha (s_Vless t)"
  unfolding no_collision_def list_all_iff by blast

lemma oldByConnection_Some:
  "oldByConnection sha src existing key = Some m \<Longrightarrow>
     m \<in> set existing \<and> own src m \<and> ConnectionID sha (s_Vless m) = key"
  by (auto simp: oldByConnection_def find_Some_iff)

lemma availableVariantID_free: "availableVariantID sha src key reserved = Some i \<Longrightarrow> i \<notin> set reserved"
  unfolding availableVariantID_def by (rule variant_loop_free)

lemma assign_id_cases:
  assumes "assign_id sha existing src unique reserved s = Some i"
  shows "(\<exists>m. old_target sha existing src unique s = Some m \<and> i = s_ID m) \<or>
         (old_target sha existing src unique s = None \<and> i \<notin> set reserved)"
proof (cases "oldByConnection sha src existing (ConnectionID sha (s_Vless s))")
  case None
  with assms availableVariantID_free [of sha src "ConnectionID sha (s_Vless s)" reserved i]
  show ?thesis by (auto simp: assign_id_def old_target_def Let_def split: if_splits)
next
  case (Some m)
  with assms show ?thesis by (simp add: assign_id_def old_target_def)
qed

lemma oldByEndpoint_first:
  assumes "length (oldByEndpoint sha src existing e) = 1"
  shows "oldByEndpoint sha src existing e ! 0 \<in> set existing"
    and "own src (oldByEndpoint sha src existing e ! 0)"
    and "StableID sha (s_Vless (oldByEndpoint sha src existing e ! 0)) = e"
proof -
  have "oldByEndpoint sha src existing e ! 0 \<in> set (oldByEndpoint sha src existing e)"
    using assms by (intro nth_mem) simp
  then show "oldByEndpoint sha src existing e ! 0 \<in> set existing"
    "own src (oldByEndpoint sha src existing e ! 0)"
    "StableID sha (s_Vless (oldByEndpoint sha src existing e ! 0)) = e"
    by (simp_all add: oldByEndpoint_def)
qed

lemma old_target_Some:
  assumes "old_target sha existing src unique s = Some m"
  shows "(m \<in> set existing \<and> own src m \<and> ConnectionID sha (s_Vless m) = ConnectionID sha (s_Vless s)) \<or>
     (m \<in> set existing \<and> own src m \<and> StableID sha (s_Vless m) = StableID sha (s_Vless s) \<and>
      endpoint_count sha unique (StableID sha (s_Vless s)) = 1)"
proof (cases "oldByConnection sha src existing (ConnectionID sha (s_Vless s))")
  case None
  with assms have l: "length (oldByEndpoint sha src existing (StableID sha (s_Vless s))) = 1"
    and c: "endpoint_count sha unique (StableID sha (s_Vless s)) = 1"
    and m: "m = oldByEndpoint sha src existing (StableID sha (s_Vless s)) ! 0"
    by (simp_all add: old_target_def Let_def split: if_splits)
  from oldByEndpoint_first [OF l] c show ?thesis by (simp add: m)
next
  case (Some k)
  with assms have "k = m" by (simp add: old_target_def)
  with oldByConnection_Some [OF Some] show ?thesis by simp
qed

lemma old_target_own: "old_target sha existing src unique s = Some m \<Longrightarrow> m \<in> set existing \<and> own src m"
  using old_target_Some by blast

lemma old_target_stable:
  assumes "no_collision sha (existing @ unique)" "s \<in> set unique"
    and "old_target sha existing src unique s = Some m"
  shows "StableID sha (s_Vless m) = StableID sha (s_Vless s) \<and>
     (ConnectionID sha (s_Vless m) = ConnectionID sha (s_Vless s) \<or>
      endpoint_count sha unique (StableID sha (s_Vless s)) = 1)"
  using old_target_Some [OF assms(3)] no_collisionD [OF assms(1), of m s] assms(2) by auto

lemma filter_one:
  assumes "length (filter P xs) = 1" "x \<in> set xs" "y \<in> set xs" "P x" "P y"
  shows "x = y"
proof -
  obtain z where "filter P xs = [z]" using assms(1) by (auto simp: length_Suc_conv)
  moreover have "x \<in> set (filter P xs)" "y \<in> set (filter P xs)" using assms by simp_all
  ultimately show ?thesis by simp
qed

lemma old_target_inj:
  assumes "no_collision sha (existing @ unique)" "s \<in> set unique" "t \<in> set unique"
    and "old_target sha existing src unique s = Some m" "old_target sha existing src unique t = Some m"
  shows "ConnectionID sha (s_Vless s) = ConnectionID sha (s_Vless t)"
proof -
  let ?e = "StableID sha (s_Vless s)"
  have e: "StableID sha (s_Vless t) = ?e"
    using old_target_stable [OF assms(1,2,4)] old_target_stable [OF assms(1,3,5)] by simp
  consider "ConnectionID sha (s_Vless m) = ConnectionID sha (s_Vless s)"
      "ConnectionID sha (s_Vless m) = ConnectionID sha (s_Vless t)"
    | "endpoint_count sha unique ?e = 1"
    using old_target_stable [OF assms(1,2,4)] old_target_stable [OF assms(1,3,5)] e by auto
  then show ?thesis
  proof cases
    case 2
    then have "s = t" using assms(2,3) e
      by (intro filter_one [where P = "\<lambda>x. StableID sha (s_Vless x) = ?e" and xs = unique])
         (simp_all add: endpoint_count_def)
    then show ?thesis by simp
  qed simp
qed

section \<open>The merged list\<close>

lemma unique_by_distinct:
  "distinct (map f (unique_by f seen xs)) \<and> f ` set (unique_by f seen xs) \<inter> set seen = {}
   \<and> set (unique_by f seen xs) \<subseteq> set xs"
  by (induction f seen xs rule: unique_by.induct) auto

lemma unique_by_covers: "x \<in> set xs \<Longrightarrow> f x \<in> set seen \<or> f x \<in> f ` set (unique_by f seen xs)"
  by (induction f seen xs rule: unique_by.induct) auto

lemma assign_ids_distinct:
  assumes "assign_ids sha existing src unique reserved ss = Some out"
    and "set (map s_ID existing) \<subseteq> set reserved" "set ss \<subseteq> set unique"
    and "distinct (map (\<lambda>s. ConnectionID sha (s_Vless s)) ss)"
    and "no_collision sha (existing @ unique)" "distinct (map s_ID existing)"
  shows "distinct (map s_ID out) \<and> (\<forall>x \<in> set out. s_ID x \<in> set reserved \<longrightarrow>
     (\<exists>s \<in> set ss. \<exists>m. old_target sha existing src unique s = Some m \<and> s_ID x = s_ID m))"
  using assms
proof (induction ss arbitrary: reserved out)
  case (Cons s ss)
  from Cons.prems(1) obtain i rest where i: "assign_id sha existing src unique reserved s = Some i"
    and rest: "assign_ids sha existing src unique (i # reserved) ss = Some rest"
    and out: "out = s \<lparr> s_ID := i \<rparr> # rest" by (auto split: option.splits)
  have ih: "distinct (map s_ID rest)" "\<forall>x \<in> set rest. s_ID x \<in> set (i # reserved) \<longrightarrow>
      (\<exists>t \<in> set ss. \<exists>m. old_target sha existing src unique t = Some m \<and> s_ID x = s_ID m)"
    using Cons.IH [OF rest] Cons.prems by auto
  have "i \<notin> s_ID ` set rest"
  proof
    assume "i \<in> s_ID ` set rest"
    then obtain t m where t: "t \<in> set ss" "old_target sha existing src unique t = Some m" "i = s_ID m"
      using ih(2) by auto
    then have m: "m \<in> set existing" using old_target_own by blast
    then have "i \<in> set reserved" using t(3) Cons.prems(2) by auto
    then obtain m' where m': "old_target sha existing src unique s = Some m'" "i = s_ID m'"
      using assign_id_cases [OF i] by blast
    with m t(3) have "m = m'"
      using old_target_own [OF m'(1)] Cons.prems(6) by (metis distinct_map inj_onD)
    with m' t have "ConnectionID sha (s_Vless s) = ConnectionID sha (s_Vless t)"
      using old_target_inj [of sha existing unique s t] Cons.prems(3,5) by auto
    with t(1) Cons.prems(4) show False by (auto simp: image_iff)
  qed
  moreover have "s_ID x \<in> set reserved \<longrightarrow>
      (\<exists>t \<in> set (s # ss). \<exists>m. old_target sha existing src unique t = Some m \<and> s_ID x = s_ID m)"
    if "x \<in> set out" for x
    using that ih(2) assign_id_cases [OF i] by (auto simp: out)
  ultimately show ?case using ih(1) out by auto
qed simp

lemma assign_ids_fields:
  "assign_ids sha existing src unique reserved ss = Some out \<Longrightarrow>
     map (\<lambda>s. s \<lparr> s_ID := [] \<rparr>) out = map (\<lambda>s. s \<lparr> s_ID := [] \<rparr>) ss"
  by (induction ss arbitrary: reserved out) (auto split: option.splits)


lemma assign_ids_takes:
  assumes "assign_ids sha existing src unique reserved ss = Some out" "s \<in> set ss"
    and "old_target sha existing src unique s = Some m"
  shows "s \<lparr> s_ID := s_ID m \<rparr> \<in> set out"
  using assms
proof (induction ss arbitrary: reserved out)
  case (Cons x ss)
  then obtain i rest where i: "assign_id sha existing src unique reserved x = Some i"
    and rest: "assign_ids sha existing src unique (i # reserved) ss = Some rest"
    and out: "out = x \<lparr> s_ID := i \<rparr> # rest" by (auto split: option.splits)
  show ?case
  proof (cases "s = x")
    case True
    with assign_id_cases [OF i] Cons.prems(3) out show ?thesis by auto
  next
    case False
    with Cons.prems Cons.IH [OF rest] out show ?thesis by simp
  qed
qed simp

lemma find_distinct_ID:
  assumes "distinct (map s_ID xs)" "m \<in> set xs"
  shows "find (\<lambda>s. s_ID s = s_ID m) xs = Some m"
  using assms by (induction xs) (auto simp: image_iff)

lemma existingByID_distinct:
  assumes "distinct (map s_ID existing)" "m \<in> set existing"
  shows "existingByID existing (s_ID m) = Some m"
  unfolding existingByID_def using assms by (intro find_distinct_ID) (simp_all add: rev_map [symmetric])

lemma keep_local_simps [simp]:
  "s_ID (keep_local existing s) = s_ID s" "s_Vless (keep_local existing s) = s_Vless s"
  "s_Name (keep_local existing s) = s_Name s" "s_Origin (keep_local existing s) = s_Origin s"
  "s_SourceID (keep_local existing s) = s_SourceID s"
  by (simp_all add: keep_local_def split: option.splits)

text \<open>The shape of a merge, from which the properties follow.\<close>

lemma Merge_shape:
  assumes "Merge sha existing incoming src = Some out"
    and "distinct (map s_ID existing)" "no_collision sha (existing @ incoming)"
  obtains inc where
    "reconcileIncomingIDs sha existing incoming src = Some inc"
    "out = map (keep_local existing) inc @ filter (\<lambda>old. \<not> own src old) existing"
    "distinct (map s_ID inc)"
    "\<And>old. old \<in> set existing \<Longrightarrow> \<not> own src old \<Longrightarrow> s_ID old \<notin> s_ID ` set inc"
proof -
  let ?u = "incoming_unique sha incoming"
  from assms(1) obtain inc where inc: "reconcileIncomingIDs sha existing incoming src = Some inc"
    and out: "out = map (keep_local existing) inc
        @ filter (\<lambda>old. s_ID old \<notin> s_ID ` set inc \<and> \<not> own src old) existing"
    by (auto simp: Merge_def split: option.splits)
  have a: "assign_ids sha existing src ?u (map s_ID existing) ?u = Some inc"
    using inc by (simp add: reconcileIncomingIDs_def Let_def)
  have u: "set ?u \<subseteq> set incoming" "distinct (map (\<lambda>s. ConnectionID sha (s_Vless s)) ?u)"
    unfolding incoming_unique_def
    using unique_by_distinct [of "\<lambda>s. ConnectionID sha (s_Vless s)" "[]" incoming] by auto
  have "no_collision sha (existing @ ?u)"
    using assms(3) u(1) unfolding no_collision_def list_all_iff by auto
  note d = assign_ids_distinct [OF a _ _ u(2) this assms(2)]
  have d1: "distinct (map s_ID inc)" using d by simp
  have d2: "s_ID old \<notin> s_ID ` set inc" if old: "old \<in> set existing" "\<not> own src old" for old
  proof
    assume "s_ID old \<in> s_ID ` set inc"
    then obtain x where x: "x \<in> set inc" "s_ID x = s_ID old" by auto
    with old(1) have "s_ID x \<in> set (map s_ID existing)" by (simp add: image_iff) (metis)
    with d x obtain s m where "old_target sha existing src ?u s = Some m" "s_ID old = s_ID m"
      by fastforce
    then have "m \<in> set existing" "own src m" "s_ID m = s_ID old" using old_target_own by auto
    with old assms(2) show False by (metis distinct_map inj_onD)
  qed
  have "filter (\<lambda>old. s_ID old \<notin> s_ID ` set inc \<and> \<not> own src old) existing
      = filter (\<lambda>old. \<not> own src old) existing"
    using d2 by (intro filter_cong) auto
  with that inc out d1 d2 show thesis by simp
qed

section \<open>Properties\<close>

lemma Merge_ids:
  assumes "Merge sha existing incoming src = Some out"
    and "distinct (map s_ID existing)" "no_collision sha (existing @ incoming)"
  shows "distinct (map s_ID out)"
proof -
  from Merge_shape [OF assms] obtain inc where
    out: "out = map (keep_local existing) inc @ filter (\<lambda>old. \<not> own src old) existing"
    and d: "distinct (map s_ID inc)"
    and n: "\<And>old. old \<in> set existing \<Longrightarrow> \<not> own src old \<Longrightarrow> s_ID old \<notin> s_ID ` set inc" by metis
  have m: "map s_ID (map (keep_local existing) inc) = map s_ID inc" by simp
  have "distinct (map s_ID (filter (\<lambda>old. \<not> own src old) existing))"
    using assms(2) by (rule distinct_map_filter)
  moreover have "set (map s_ID inc) \<inter> set (map s_ID (filter (\<lambda>old. \<not> own src old) existing)) = {}"
    using n by (auto simp: image_iff disjoint_iff) (metis)
  ultimately show ?thesis using out d m by (simp add: comp_def)
qed

text \<open>
  C16. Merging a synced list keeps the identifiers of the server list distinct: when the existing
  identifiers are distinct and no two of the entries at hand collide in the hash, the merged
  list has distinct identifiers.
\<close>

theorem Merge_distinct:
  assumes "Merge sha existing incoming src = Some out"
    and "distinct (map s_ID existing)" "no_collision sha (existing @ incoming)"
  shows "distinct (map s_ID out)"
  using assms by (rule Merge_ids)

text \<open>
  A sync touches only its own subscription: the entries of other sources and the manual ones stay
  in the list verbatim and in order, after the synced ones; the synced ones carry exactly the
  connections of the incoming list, each once, so entries of this subscription that the incoming
  list no longer has are gone.
\<close>

theorem Merge_only_own_source:
  assumes "Merge sha existing incoming src = Some out"
    and "distinct (map s_ID existing)" "no_collision sha (existing @ incoming)"
  shows "\<exists>new. out = new @ filter (\<lambda>s. \<not> own src s) existing \<and>
     map s_Vless new = map s_Vless (incoming_unique sha incoming) \<and>
     (\<lambda>s. ConnectionID sha (s_Vless s)) ` set new = (\<lambda>s. ConnectionID sha (s_Vless s)) ` set incoming"
proof -
  let ?key = "\<lambda>s. ConnectionID sha (s_Vless s)"
  let ?u = "incoming_unique sha incoming"
  from Merge_shape [OF assms] obtain inc where
    r: "reconcileIncomingIDs sha existing incoming src = Some inc"
    and out: "out = map (keep_local existing) inc @ filter (\<lambda>old. \<not> own src old) existing" by metis
  have "map (\<lambda>s. s \<lparr> s_ID := [] \<rparr>) inc = map (\<lambda>s. s \<lparr> s_ID := [] \<rparr>) ?u"
    using r by (intro assign_ids_fields) (simp add: reconcileIncomingIDs_def Let_def)
  then have "map s_Vless (map (\<lambda>s. s \<lparr> s_ID := [] \<rparr>) inc) = map s_Vless (map (\<lambda>s. s \<lparr> s_ID := [] \<rparr>) ?u)"
    by simp
  then have v: "map s_Vless (map (keep_local existing) inc) = map s_Vless ?u"
    by (simp add: comp_def)
  have "?key ` set (map (keep_local existing) inc) = ?key ` set ?u"
    using arg_cong [OF v, of "\<lambda>l. ConnectionID sha ` set l"] by (simp add: image_image)
  also have "\<dots> = ?key ` set incoming"
    using unique_by_covers [of _ incoming ?key "[]"] unique_by_distinct [of ?key "[]" incoming]
    unfolding incoming_unique_def by auto
  finally show ?thesis using out v by blast
qed

text \<open>
  A server that is still offered keeps its identity and the user's settings: when an incoming entry
  has the connection of an existing entry of the same subscription, the merged list has an entry
  with that connection, the old identifier and the old tags, latency, favourite and disabled flags.
\<close>

theorem Merge_keeps_local_fields:
  assumes "Merge sha existing incoming src = Some out"
    and "distinct (map s_ID existing)"
    and "s \<in> set (incoming_unique sha incoming)"
    and "oldByConnection sha src existing (ConnectionID sha (s_Vless s)) = Some old"
  shows "s \<lparr> s_ID := s_ID old, s_Tags := s_Tags old, s_LatencyMS := s_LatencyMS old,
            s_Favorite := s_Favorite old, s_Disabled := s_Disabled old \<rparr> \<in> set out"
proof -
  let ?u = "incoming_unique sha incoming"
  from assms(1) obtain inc where inc: "assign_ids sha existing src ?u (map s_ID existing) ?u = Some inc"
    and out: "map (keep_local existing) inc \<in> {xs. set xs \<subseteq> set out}"
    by (auto simp: Merge_def reconcileIncomingIDs_def Let_def split: option.splits)
  have "old_target sha existing src ?u s = Some old" using assms(4) by (simp add: old_target_def)
  from assign_ids_takes [OF inc assms(3) this]
  have "keep_local existing (s \<lparr> s_ID := s_ID old \<rparr>) \<in> set out" using out by auto
  moreover have "existingByID existing (s_ID old) = Some old"
    using existingByID_distinct [OF assms(2)] oldByConnection_Some [OF assms(4)] by blast
  ultimately show ?thesis by (simp add: keep_local_def)
qed

lemma assign_ids_total:
  assumes "\<And>key k. k \<le> length reserved + length ss \<Longrightarrow>
      inj_on (candidate sha (variant_seed src key)) {1..1 + k}"
  shows "\<exists>out. assign_ids sha existing src unique reserved ss = Some out"
  using assms
proof (induction ss arbitrary: reserved)
  case (Cons s ss)
  have "\<exists>i. availableVariantID sha src key reserved = Some i" for key
    using Cons.prems [of "length reserved"] by (intro availableVariantID_total) simp
  then have "\<exists>i. assign_id sha existing src unique reserved s = Some i"
    by (auto simp: assign_id_def Let_def split: option.splits)
  then obtain i where i: "assign_id sha existing src unique reserved s = Some i" by blast
  have "\<exists>out. assign_ids sha existing src unique (i # reserved) ss = Some out"
    using Cons.prems by (intro Cons.IH) simp
  with i show ?case by auto
qed simp


lemma Merge_total:
  assumes "\<And>key. inj_on (candidate sha (variant_seed src key)) {1..1 + (length existing + length incoming)}"
  shows "\<exists>out. Merge sha existing incoming src = Some out"
proof -
  let ?u = "incoming_unique sha incoming"
  have l: "length (unique_by f seen xs) \<le> length xs" for f :: "Server \<Rightarrow> string" and seen xs
    by (induction f seen xs rule: unique_by.induct) auto
  have "length ?u \<le> length incoming" unfolding incoming_unique_def by (rule l)
  then have "\<exists>out. assign_ids sha existing src ?u (map s_ID existing) ?u = Some out"
    by (intro assign_ids_total inj_on_subset [OF assms]) auto
  then show ?thesis by (auto simp: Merge_def reconcileIncomingIDs_def Let_def)
qed

text \<open>A sample: an entry of the subscription, one of another, and two incoming entries.\<close>

definition sample_server :: "string \<Rightarrow> string \<Rightarrow> string \<Rightarrow> Server" where
  "sample_server i src addr = zero_Server \<lparr> s_ID := i, s_Origin := OriginSubscription, s_SourceID := src,
     s_Vless := zero_Config \<lparr> v_Address := addr, v_Port := 443 \<rparr>, s_Favorite := True \<rparr>"

definition old_servers :: "Server list" where
  "old_servers = [sample_server ''a'' ''s1'' ''h1'', sample_server ''b'' ''s2'' ''h1'']"

definition new_servers :: "Server list" where
  "new_servers = [(sample_server ''n1'' ''s1'' ''h1'') \<lparr> s_Favorite := False \<rparr>, sample_server ''n2'' ''s1'' ''h2'']"

text \<open>A hash for the samples that tells short texts apart: one inner byte, then the text backwards.\<close>

definition toy_sha :: "string \<Rightarrow> string" where
  "toy_sha x = (if 13 < length x then x ! 13 else CHR 0x00) # rev x"

definition plain_char :: "char \<Rightarrow> bool" where
  "plain_char c \<longleftrightarrow> 32 \<le> byte c \<and> byte c < 128 \<and> c \<noteq> CHR 0x22 \<and> c \<noteq> CHR 0x5C
     \<and> c \<noteq> CHR ''<'' \<and> c \<noteq> CHR ''>'' \<and> c \<noteq> CHR ''&''"

lemma print_str_plain: "list_all plain_char s \<Longrightarrow> print_str s = s"
proof (induction s)
  case (Cons c s)
  then have c: "byte c < 128" "\<not> byte c < 32" "c \<noteq> CHR 0x22" "c \<noteq> CHR 0x5C" "c \<noteq> CHR ''<''"
    "c \<noteq> CHR ''>''" "c \<noteq> CHR ''&''" and s: "print_str s = s" by (simp_all add: plain_char_def)
  have "c \<noteq> CHR 0x08" "c \<noteq> CHR 0x0C" "c \<noteq> CHR 0x0A" "c \<noteq> CHR 0x0D" "c \<noteq> CHR 0x09"
    using c(2) by (rule_tac [!] notI) simp_all
  with c have "esc_ascii c = [c]" by (simp add: esc_ascii_def)
  with c(1) s show ?case by (subst print_str.simps) simp
qed (simp add: print_str.simps)

lemma json_print_first:
  "\<exists>t. json_print (JObj ((k, v) # kvs)) = CHR ''{'' # quote k @ CHR '':'' # json_print v @ t"
  by (cases kvs) auto

lemma json_print_Config:
  assumes "list_all plain_char (v_Address c)"
  shows "\<exists>t. json_print (enc_Config c) =
     CHR ''{'' # CHR 0x22 # ''Address'' @ CHR 0x22 # CHR '':'' # CHR 0x22 # v_Address c @ t"
proof -
  have "print_str ''Address'' = ''Address''" by (rule print_str_plain) (simp add: plain_char_def)
  then have q: "quote ''Address'' = CHR 0x22 # ''Address'' @ [CHR 0x22]" by (simp add: quote_def)
  obtain kvs where "enc_Config c = JObj ((''Address'', JStr (v_Address c)) # kvs)"
    unfolding enc_Config_def by blast
  with json_print_first [of "''Address''" "JStr (v_Address c)" kvs] obtain t where
    "json_print (enc_Config c) = CHR ''{'' # quote ''Address'' @ CHR '':'' # quote (v_Address c) @ t" by auto
  with q print_str_plain [OF assms] show ?thesis by (auto simp: quote_def)
qed

text \<open>The first byte of the hash of a connection to a host of two letters is the second letter.\<close>

lemma toy_ConnectionID:
  assumes "list_all plain_char [a, b]"
  shows "take 2 (ConnectionID toy_sha (zero_Config \<lparr> v_Address := [a, b], v_Port := p \<rparr>))
    = [hex_digit (of_char b div 16), hex_digit (of_char b mod 16)]"
proof -
  let ?c = "zero_Config \<lparr> v_Address := [a, b], v_Port := p, v_Remark := [] \<rparr>"
  obtain t where "json_print (enc_Config ?c)
      = CHR ''{'' # CHR 0x22 # ''Address'' @ CHR 0x22 # CHR '':'' # CHR 0x22 # [a, b] @ t"
    using json_print_Config [of ?c] assms by auto
  moreover have "zero_Config \<lparr> v_Address := [a, b], v_Port := p \<rparr> \<lparr> v_Remark := [] \<rparr> = ?c" by simp
  ultimately show ?thesis by (simp add: ConnectionID_def toy_sha_def hex_encode_def)
qed

abbreviation host_cfg :: "string \<Rightarrow> Config" where
  "host_cfg a \<equiv> zero_Config \<lparr> v_Address := a, v_Port := 443 \<rparr>"

lemma toy_keys_differ: "ConnectionID toy_sha (host_cfg ''h1'') \<noteq> ConnectionID toy_sha (host_cfg ''h2'')"
proof -
  have "take 2 (ConnectionID toy_sha (host_cfg ''h1'')) \<noteq> take 2 (ConnectionID toy_sha (host_cfg ''h2''))"
    using toy_ConnectionID [of "CHR ''h''" "CHR ''1''" 443] toy_ConnectionID [of "CHR ''h''" "CHR ''2''" 443]
    by (simp add: plain_char_def hex_digit_def)
  then show ?thesis by metis
qed

lemma toy_candidates: "inj_on (candidate toy_sha (variant_seed src key)) {1..5}"
proof (rule inj_onI)
  fix k j :: nat
  assume k: "k \<in> {1..5}" and j: "j \<in> {1..5}"
    and e: "candidate toy_sha (variant_seed src key) k = candidate toy_sha (variant_seed src key) j"
  have "take 8 (candidate toy_sha (variant_seed src key) m) ! 7 = hex_digit (m mod 16)" if "m \<in> {1..5}" for m
  proof -
    have "(48 + m) mod 16 = m mod 16" using mod_mult_self2 [of m 16 3] by (simp add: add.commute)
    with that show ?thesis
      by (simp add: variant_id_def toy_sha_def hex_encode_def nat_str.simps digit_char_def of_char_of)
  qed
  with k j e have "hex_digit (k mod 16) = hex_digit (j mod 16)" by metis
  moreover have "k = 1 \<or> k = 2 \<or> k = 3 \<or> k = 4 \<or> k = 5" "j = 1 \<or> j = 2 \<or> j = 3 \<or> j = 4 \<or> j = 5"
    using k j by auto
  ultimately show "k = j" by (auto simp: hex_digit_def)
qed

lemma sample_vless: "s \<in> set (old_servers @ new_servers) \<Longrightarrow> s_Vless s = host_cfg ''h1'' \<or> s_Vless s = host_cfg ''h2''"
  by (auto simp: old_servers_def new_servers_def sample_server_def)

lemma sample_no_collision: "no_collision toy_sha (old_servers @ new_servers)"
  unfolding no_collision_def list_all_iff
  using sample_vless toy_keys_differ by metis

lemma sample_distinct: "distinct (map s_ID old_servers)"
  by (simp add: old_servers_def sample_server_def)


lemma sample_merge: "\<exists>out. Merge toy_sha old_servers new_servers ''s1'' = Some out"
proof (rule Merge_total)
  have "1 + (length old_servers + length new_servers) = 5" by (simp add: old_servers_def new_servers_def)
  then show "inj_on (candidate toy_sha (variant_seed ''s1'' key))
      {1..1 + (length old_servers + length new_servers)}" for key
    using toy_candidates [of "''s1''" key] by metis
qed

lemma sample_key: "oldByConnection toy_sha ''s1'' old_servers (ConnectionID toy_sha (host_cfg ''h1''))
    = Some (sample_server ''a'' ''s1'' ''h1'')"
  by (simp add: oldByConnection_def old_servers_def own_def sample_server_def)

definition first_new :: Server where "first_new = hd new_servers"

lemma first_new_in: "first_new \<in> set (incoming_unique toy_sha new_servers)"
  by (simp add: incoming_unique_def new_servers_def first_new_def)

lemma first_new_vless: "s_Vless first_new = host_cfg ''h1''"
  by (simp add: new_servers_def first_new_def sample_server_def)

section \<open>Round trip of servers.json\<close>

definition server_wf :: "Server \<Rightarrow> bool" where
  "server_wf s \<longleftrightarrow> go_int (v_Security (s_Vless s)) \<and> go_int (v_Transport (s_Vless s)) \<and>
     (case s_LatencyMS s of None \<Rightarrow> True | Some n \<Rightarrow> go_int n)"

lemma dec_enc_Server:
  assumes "server_wf s"
  shows "dec_struct Server_fields (enc_Server s) zero_Server = Some s"
proof -
  have v: "dec_struct Config_fields (enc_Config (s_Vless s)) zero_Config = Some (s_Vless s)"
    using assms by (intro dec_enc_Config) (simp_all add: server_wf_def)
  have f: "map_of Server_fields ''source_id'' = Some (fld s_SourceID (\<lambda>x. s_SourceID_update (\<lambda>_. x)) dec_string)"
    "map_of Server_fields ''remark'' = Some (fld s_Remark (\<lambda>x. s_Remark_update (\<lambda>_. x)) dec_string)"
    "map_of Server_fields ''tags'' = Some (fld s_Tags (\<lambda>x. s_Tags_update (\<lambda>_. x)) (dec_slice dec_string []))"
    "map_of Server_fields ''latency_ms'' = Some (fld s_LatencyMS (\<lambda>x. s_LatencyMS_update (\<lambda>_. x)) dec_int_ptr)"
    "map_of Server_fields ''favorite'' = Some (fld s_Favorite (\<lambda>x. s_Favorite_update (\<lambda>_. x)) dec_bool)"
    "map_of Server_fields ''disabled'' = Some (fld s_Disabled (\<lambda>x. s_Disabled_update (\<lambda>_. x)) dec_bool)"
    "map_of Server_fields ''id'' = Some (fld s_ID (\<lambda>x. s_ID_update (\<lambda>_. x)) dec_string)"
    "map_of Server_fields ''origin'' = Some (fld s_Origin (\<lambda>x. s_Origin_update (\<lambda>_. x)) dec_string)"
    "map_of Server_fields ''name'' = Some (fld s_Name (\<lambda>x. s_Name_update (\<lambda>_. x)) dec_string)"
    "map_of Server_fields ''vless'' = Some (fld s_Vless (\<lambda>x. s_Vless_update (\<lambda>_. x)) (dec_struct Config_fields))"
    by (simp_all add: Server_fields_def)
  have l: "s_LatencyMS s \<noteq> None \<Longrightarrow>
      dec_int_ptr (JNum (case s_LatencyMS s of Some n \<Rightarrow> n | None \<Rightarrow> 0)) p = Some (s_LatencyMS s)" for p
    using assms by (auto simp: server_wf_def go_int_def)
  have "dec_fields Server_fields ([(''id'', JStr (s_ID s))] @ [(''origin'', JStr (s_Origin s))]
      @ jopt (s_SourceID s \<noteq> []) ''source_id'' (JStr (s_SourceID s)) @ [(''name'', JStr (s_Name s))]
      @ jopt (s_Remark s \<noteq> []) ''remark'' (JStr (s_Remark s)) @ [(''vless'', enc_Config (s_Vless s))]
      @ jopt (s_Tags s \<noteq> []) ''tags'' (enc_slice JStr (s_Tags s))
      @ jopt (s_LatencyMS s \<noteq> None) ''latency_ms'' (JNum (case s_LatencyMS s of Some n \<Rightarrow> n | None \<Rightarrow> 0))
      @ jopt (s_Favorite s) ''favorite'' (JBool (s_Favorite s))
      @ jopt (s_Disabled s) ''disabled'' (JBool (s_Disabled s))) zero_Server = Some s"
    apply (rule dec_app, rule dec_one_fld [OF f(7)], rule dec_string.simps)
    apply (rule dec_app, rule dec_one_fld [OF f(8)], rule dec_string.simps)
    apply (rule dec_app, rule dec_opt_fld [OF f(1), where x = "s_SourceID s"], simp, simp add: zero_Server_def)
    apply (rule dec_app, rule dec_one_fld [OF f(9)], rule dec_string.simps)
    apply (rule dec_app, rule dec_opt_fld [OF f(2), where x = "s_Remark s"], simp, simp add: zero_Server_def)
    apply (rule dec_app, rule dec_one_fld [OF f(10)], simp add: zero_Server_def, rule v)
    apply (rule dec_app, rule dec_opt_fld [OF f(3), where x = "s_Tags s"], simp add: dec_strings, simp add: zero_Server_def)
    apply (rule dec_app, rule dec_opt_fld [OF f(4), where x = "s_LatencyMS s"], erule l, simp add: zero_Server_def)
    apply (rule dec_app, rule dec_opt_fld [OF f(5), where x = "s_Favorite s"], simp, simp add: zero_Server_def)
    apply (rule dec_opt_fld [OF f(6), where x = "s_Disabled s", THEN trans], simp, simp add: zero_Server_def)
    apply (simp add: zero_Server_def)
    done
  then show ?thesis by (simp add: enc_Server_def)
qed

interpretation sstore: json_store Servers_Load Servers_Save "list_all server_wf" Some
proof
  fix m d
  assume "list_all server_wf m"
  then show "Servers_Load (snd (Servers_Save True m d)) = Some m"
    unfolding Servers_Load_def Servers_Save_def
    by (simp add: dec_slice_enc dec_enc_Server list_all_iff)
qed (simp_all add: Servers_Save_def)

section \<open>Termination and witnesses\<close>

text \<open>
  The merge ends: the search for a free identifier finds one when the hash does not repeat itself on
  the first attempts, as many as there are entries.
\<close>

theorem Merge_terminates:
  assumes "\<And>key. inj_on (candidate sha (variant_seed src key)) {1..1 + (length existing + length incoming)}"
  shows "\<exists>out. Merge sha existing incoming src = Some out"
  using assms by (rule Merge_total)

theorem Merge_terminates_witness: "\<exists>out. Merge toy_sha old_servers new_servers ''s1'' = Some out"
proof (rule Merge_terminates)
  have "1 + (length old_servers + length new_servers) = 5" by (simp add: old_servers_def new_servers_def)
  then show "inj_on (candidate toy_sha (variant_seed ''s1'' key))
      {1..1 + (length old_servers + length new_servers)}" for key
    using toy_candidates [of "''s1''" key] by metis
qed

theorem Merge_distinct_witness:
  "\<exists>out. Merge toy_sha old_servers new_servers ''s1'' = Some out \<and> distinct (map s_ID out)"
  using sample_merge Merge_distinct [OF _ sample_distinct sample_no_collision] by blast

theorem Merge_only_own_source_witness:
  "\<exists>new. Merge toy_sha old_servers new_servers ''s1'' = Some (new @ [sample_server ''b'' ''s2'' ''h1''])"
proof -
  have "filter (\<lambda>s. \<not> own ''s1'' s) old_servers = [sample_server ''b'' ''s2'' ''h1'']"
    by (simp add: old_servers_def own_def sample_server_def)
  then show ?thesis
    using sample_merge Merge_only_own_source [OF _ sample_distinct sample_no_collision] by fastforce
qed

theorem Merge_keeps_local_fields_witness:
  "\<exists>out. Merge toy_sha old_servers new_servers ''s1'' = Some out \<and>
     (\<exists>s \<in> set out. s_ID s = ''a'' \<and> s_Favorite s \<and> s_Vless s = s_Vless first_new)"
proof -
  obtain out where out: "Merge toy_sha old_servers new_servers ''s1'' = Some out" using sample_merge by blast
  from Merge_keeps_local_fields [OF this sample_distinct first_new_in] sample_key
  have "first_new \<lparr> s_ID := ''a'', s_Tags := [], s_LatencyMS := None, s_Favorite := True, s_Disabled := False \<rparr> \<in> set out"
    unfolding first_new_vless by (simp add: sample_server_def zero_Server_def)
  with out show ?thesis by (intro exI conjI bexI) auto
qed

text \<open>
  A server list that is saved is loaded back field by field, and a failed save leaves what the next
  load returns unchanged; a missing file is the empty list.
\<close>

theorem Servers_Load_Save:
  assumes "list_all server_wf ss"
  shows "Servers_Load (snd (Servers_Save ok ss f)) = (if ok then Some ss else Servers_Load f) \<and>
     Servers_Load Absent = Some []"
  using sstore.load_after [OF assms] by (simp add: Servers_Load_def)

theorem Servers_Load_Save_witness:
  "Servers_Load (snd (Servers_Save True old_servers Absent)) = Some old_servers"
proof -
  have "list_all server_wf old_servers"
    by (simp add: old_servers_def sample_server_def server_wf_def zero_Server_def zero_Config_def go_int_def)
  then show ?thesis using Servers_Load_Save [of old_servers True Absent] by simp
qed

end
