(* ===== verification/Configgen.thy ===== *)
theory Configgen
  imports Rules Vless
begin

text \<open>
  Package \<^verbatim>\<open>internal/configgen\<close>: the sing-box configuration (singbox.go) and the xray configuration
  (xray.go) that one connection needs. Documents are JSON trees; the source's \<^verbatim>\<open>[]any\<close> and
  \<^verbatim>\<open>[]map[string]any\<close> slices are both JSON arrays, so its type switches on them are one case here.
  Log output is left out.
\<close>

section \<open>singbox.go\<close>

type_synonym Mode = string

definition ModeSysProxy :: Mode where "ModeSysProxy = []"
definition ModeTun :: Mode where "ModeTun = ''tun''"

record SingboxInput =
  in_Mode :: Mode
  in_SocksInboundPort :: int
  in_HTTPInboundPort :: int
  in_TunName :: string
  in_TunIPv4 :: string
  in_MTU :: int
  in_XraySOCKSHost :: string
  in_XraySOCKSPort :: int
  in_Rules :: Model
  in_DNSUpstreams :: "string list"
  in_AllowLAN :: bool
  in_IPv6Strategy :: string
  in_TunIPv6 :: string
  in_FakeIPv6Range :: string
  in_FakeIP :: bool
  in_RouteExcludeAddress :: "string list"
  in_LogLevel :: string
  in_GeoRuleSets :: "string \<rightharpoonup> string"

definition logLevelOrDefault :: "string \<Rightarrow> string" where
  "logLevelOrDefault level =
     (if level \<in> set [''trace'', ''debug'', ''info'', ''warn'', ''error'', ''fatal'', ''panic'']
      then level else ''info'')"

definition localGeoResolver :: string where "localGeoResolver = ''8.8.8.8''"

definition dns_server :: "string \<Rightarrow> string \<Rightarrow> string \<Rightarrow> json" where
  "dns_server tag srv detour = JObj [(''tag'', JStr tag), (''type'', JStr ''tls''),
     (''server'', JStr srv), (''detour'', JStr detour)]"

definition buildDNSBlock :: "SingboxInput \<Rightarrow> string list \<Rightarrow> json" where
  "buildDNSBlock i upstreams =
     (let strategy = (if in_IPv6Strategy i = [] then ''prefer_ipv4'' else in_IPv6Strategy i) in
      if in_Mode i = ModeTun \<and> in_FakeIP i then
        let fakeipServer = jset_if (in_FakeIPv6Range i \<noteq> []) ''inet6_range'' (JStr (in_FakeIPv6Range i))
              (JObj [(''tag'', JStr ''fakeip''), (''type'', JStr ''fakeip''),
                     (''inet4_range'', JStr ''198.18.0.0/15'')])
        in JObj [(''servers'', JArr [dns_server ''remote'' (upstreams ! 0) ''proxy'', fakeipServer,
                                     dns_server ''local'' localGeoResolver ''direct'']),
                 (''rules'', JArr [JObj [(''query_type'', JArr [JStr ''A'', JStr ''AAAA'']),
                                        (''server'', JStr ''fakeip'')]]),
                 (''final'', JStr ''remote''),
                 (''independent_cache'', JBool True),
                 (''strategy'', JStr strategy)]
      else JObj [(''servers'', JArr [dns_server ''default'' (upstreams ! 0) ''proxy'',
                                     dns_server ''local'' localGeoResolver ''direct'']),
                 (''final'', JStr ''default''),
                 (''strategy'', JStr strategy)])"

definition defaultDomainResolverFor :: "SingboxInput \<Rightarrow> string" where
  "defaultDomainResolverFor i = (if in_Mode i = ModeTun \<and> in_FakeIP i then ''remote'' else ''default'')"

text \<open>\<^verbatim>\<open>collectRuleSetTags\<close>: the tags of every rule, first occurrences in order.\<close>

fun dedup :: "string list \<Rightarrow> string list \<Rightarrow> string list" where
  "dedup seen [] = []"
| "dedup seen (t # ts) = (if t \<in> set seen then dedup seen ts else t # dedup (t # seen) ts)"

definition rule_tags :: "json \<Rightarrow> string list" where
  "rule_tags r = (if is_obj r then strs ''rule_set'' r else [])"

definition route_rules :: "json \<Rightarrow> json list" where
  "route_rules route = (case jget route ''rules'' of Some v \<Rightarrow> jelems v | None \<Rightarrow> [])"

definition collectRuleSetTags :: "json \<Rightarrow> string list" where
  "collectRuleSetTags route = dedup [] (concat (map rule_tags (route_rules route)))"

definition GeoTags :: "(string \<Rightarrow> bool) \<Rightarrow> Model \<Rightarrow> string list" where
  "GeoTags re m =
     (case Compile re m of
        Inl e \<Rightarrow> []
      | Inr route \<Rightarrow> filter (\<lambda>t. HasPrefix t ''geosite-'' \<or> HasPrefix t ''geoip-'') (collectRuleSetTags route))"

definition lanBypassCIDRs :: "string list" where
  "lanBypassCIDRs = [''10.0.0.0/8'', ''172.16.0.0/12'', ''192.168.0.0/16'', ''127.0.0.0/8'',
     ''fc00::/7'', ''fe80::/10'', ''224.0.0.0/4'']"

definition lanBypassRule :: json where
  "lanBypassRule = JObj [(''ip_cidr'', JArr (map JStr lanBypassCIDRs)), (''outbound'', JStr ''direct'')]"

definition insert_second :: "json list \<Rightarrow> json list \<Rightarrow> json list" where
  "insert_second new rs = (case rs of [] \<Rightarrow> new | r # rs \<Rightarrow> r # new @ rs)"

definition prependLanBypass :: "json list \<Rightarrow> json list" where
  "prependLanBypass rs = insert_second [lanBypassRule] rs"

definition lan_equivalent :: "json \<Rightarrow> bool" where
  "lan_equivalent r \<longleftrightarrow> is_obj r \<and> jget r ''outbound'' = Some (JStr ''direct'') \<and>
     (case jget r ''ip_cidr'' of
        Some (JArr xs) \<Rightarrow> list_all (\<lambda>want. want \<in> set (List.map_filter jstr xs)) lanBypassCIDRs
      | _ \<Rightarrow> False)"

definition hasEquivalentLanBypass :: "json list \<Rightarrow> bool" where
  "hasEquivalentLanBypass rs = list_ex lan_equivalent rs"

definition sniffRule :: json where "sniffRule = JObj [(''action'', JStr ''sniff'')]"

definition hijackDnsRule :: json where
  "hijackDnsRule = JObj [(''protocol'', JStr ''dns''), (''action'', JStr ''hijack-dns'')]"

definition blockIPv6Rule :: json where
  "blockIPv6Rule = JObj [(''ip_cidr'', JArr [JStr ''::/0'']), (''outbound'', JStr ''block'')]"

definition catchAllRule :: json where "catchAllRule = JObj [(''outbound'', JStr ''proxy'')]"

definition applyTunModeKillswitch :: "json \<Rightarrow> bool \<Rightarrow> bool \<Rightarrow> json" where
  "applyTunModeKillswitch route lanBypassPrepended blockIPv6 =
     (let route = jset ''final'' (JStr ''block'') route;
          rs = route_rules route;
          lan = (lanBypassPrepended \<or> hasEquivalentLanBypass rs);
          rs = insert_second (hijackDnsRule # (if lan then [] else [lanBypassRule])) rs;
          tail = (if blockIPv6 then [blockIPv6Rule] else []) @ [catchAllRule]
      in jset ''rules'' (JArr (rs @ tail)) route)"

definition localProxyInbounds :: "int \<Rightarrow> int \<Rightarrow> json list" where
  "localProxyInbounds socksPort httpPort =
     (if socksPort > 0
      then [JObj [(''type'', JStr ''socks''), (''tag'', JStr ''in-socks''), (''listen'', JStr ''127.0.0.1''),
                  (''listen_port'', JNum socksPort)]] else [])
     @ (if httpPort > 0 \<and> httpPort \<noteq> socksPort
        then [JObj [(''type'', JStr ''http''), (''tag'', JStr ''in-http''), (''listen'', JStr ''127.0.0.1''),
                    (''listen_port'', JNum httpPort)]] else [])"

definition buildInbounds :: "SingboxInput \<Rightarrow> json \<Rightarrow> json list" where
  "buildInbounds i primary =
     (if in_Mode i = ModeTun
      then primary # localProxyInbounds (in_SocksInboundPort i) (in_HTTPInboundPort i)
      else if in_Mode i = ModeSysProxy
      then (if in_HTTPInboundPort i > 0 \<and> in_HTTPInboundPort i \<noteq> in_SocksInboundPort i
            then localProxyInbounds (in_SocksInboundPort i) (in_HTTPInboundPort i)
            else [primary])
      else [primary])"

text \<open>The pieces of \<^verbatim>\<open>BuildSingbox\<close>, in its order.\<close>

datatype singbox_error = SBRules model_error | SBNoRuleSet string

definition primary_inbound :: "SingboxInput \<Rightarrow> json" where
  "primary_inbound i =
     (if in_Mode i = ModeTun then
        let address = in_TunIPv4 i # (if in_TunIPv6 i \<noteq> [] then [in_TunIPv6 i] else []);
            inbound = JObj [(''type'', JStr ''tun''), (''tag'', JStr ''in-tun''),
              (''interface_name'', JStr (in_TunName i)), (''address'', JArr (map JStr address)),
              (''auto_route'', JBool True), (''strict_route'', JBool False)];
            inbound = jset_if (in_MTU i > 0) ''mtu'' (JNum (in_MTU i)) inbound
        in jset_if (in_RouteExcludeAddress i \<noteq> []) ''route_exclude_address''
             (JArr (map JStr (in_RouteExcludeAddress i))) inbound
      else JObj [(''type'', JStr ''mixed''), (''tag'', JStr ''in-local''), (''listen'', JStr ''127.0.0.1''),
                 (''listen_port'', JNum (in_SocksInboundPort i))])"

definition build_route :: "SingboxInput \<Rightarrow> json \<Rightarrow> json" where
  "build_route i route =
     (let route = jset ''rules'' (JArr (sniffRule # route_rules route)) route;
          route = (if in_AllowLAN i
                   then jset ''rules'' (JArr (prependLanBypass (filter is_obj (route_rules route)))) route
                   else route);
          route = (if in_Mode i = ModeTun
                   then jset ''auto_detect_interface'' (JBool True)
                          (applyTunModeKillswitch route (in_AllowLAN i)
                             (in_TunIPv6 i \<noteq> [] \<and> in_FakeIPv6Range i = []))
                   else route)
      in jset ''default_domain_resolver'' (JStr (defaultDomainResolverFor i)) route)"

definition rule_set_decl :: "string \<Rightarrow> string \<Rightarrow> json" where
  "rule_set_decl tag path = JObj [(''tag'', JStr tag), (''type'', JStr ''local''),
     (''format'', JStr ''binary''), (''path'', JStr path)]"

fun rule_set_decls :: "(string \<rightharpoonup> string) \<Rightarrow> string list \<Rightarrow> singbox_error + json list" where
  "rule_set_decls sets [] = Inr []"
| "rule_set_decls sets (t # ts) =
     (case sets t of
        None \<Rightarrow> Inl (SBNoRuleSet t)
      | Some path \<Rightarrow> (case rule_set_decls sets ts of
                       Inl e \<Rightarrow> Inl e
                     | Inr ds \<Rightarrow> Inr (rule_set_decl t path # ds)))"

definition outbounds :: "SingboxInput \<Rightarrow> json" where
  "outbounds i = JArr
     [JObj [(''type'', JStr ''socks''), (''tag'', JStr ''proxy''), (''server'', JStr (in_XraySOCKSHost i)),
            (''server_port'', JNum (in_XraySOCKSPort i)), (''version'', JStr ''5'')],
      JObj [(''type'', JStr ''direct''), (''tag'', JStr ''direct''), (''domain_resolver'', JStr ''local'')],
      JObj [(''type'', JStr ''block''), (''tag'', JStr ''block'')]]"

definition BuildSingbox :: "(string \<Rightarrow> bool) \<Rightarrow> SingboxInput \<Rightarrow> singbox_error + json" where
  "BuildSingbox re i =
     (case Compile re (in_Rules i) of
        Inl e \<Rightarrow> Inl (SBRules e)
      | Inr compiled \<Rightarrow>
          (let route = build_route i compiled;
               upstreams = (if in_DNSUpstreams i = [] then [''1.1.1.1'', ''8.8.8.8''] else in_DNSUpstreams i);
               tags = collectRuleSetTags route
           in case rule_set_decls (in_GeoRuleSets i) tags of
                Inl e \<Rightarrow> Inl e
              | Inr decls \<Rightarrow>
                  Inr (JObj
                    [(''log'', JObj [(''level'', JStr (logLevelOrDefault (in_LogLevel i))), (''timestamp'', JBool True)]),
                     (''dns'', buildDNSBlock i upstreams),
                     (''outbounds'', outbounds i),
                     (''route'', jset_if (tags \<noteq> []) ''rule_set'' (JArr decls) route),
                     (''inbounds'', JArr (buildInbounds i (primary_inbound i)))])))"

section \<open>xray.go\<close>

definition XrayAPIPort :: int where "XrayAPIPort = 13355"

record XrayInput =
  x_Server :: Config
  x_SocksPort :: int
  x_ServerIP :: string

definition orDefaultStr :: "string \<Rightarrow> string \<Rightarrow> string" where
  "orDefaultStr s def = (if s = [] then def else s)"

definition tls_settings :: "Config \<Rightarrow> json" where
  "tls_settings c =
     (let tls = JObj [(''serverName'', JStr (orDefaultStr (v_SNI c) (v_Address c))),
                      (''allowInsecure'', JBool (v_AllowInsecure c))];
          tls = jset_if (v_Fingerprint c \<noteq> []) ''fingerprint'' (JStr (v_Fingerprint c)) tls
      in jset_if (v_ALPN c \<noteq> []) ''alpn'' (JArr (map JStr (v_ALPN c))) tls)"

definition reality_settings :: "Config \<Rightarrow> json" where
  "reality_settings c = JObj [(''serverName'', JStr (v_SNI c)), (''fingerprint'', JStr (v_Fingerprint c)),
     (''publicKey'', JStr (v_RealityPublicKey c)), (''shortId'', JStr (v_RealityShortID c)),
     (''spiderX'', JStr (v_RealitySpiderX c))]"

definition stream_security :: "Config \<Rightarrow> json \<Rightarrow> json" where
  "stream_security c ss =
     (if v_Security c = SecurityReality
      then jset ''realitySettings'' (reality_settings c) (jset ''security'' (JStr ''reality'') ss)
      else if v_Security c = SecurityTLS
      then jset ''tlsSettings'' (tls_settings c) (jset ''security'' (JStr ''tls'') ss)
      else jset ''security'' (JStr ''none'') ss)"

definition stream_transport :: "Config \<Rightarrow> json \<Rightarrow> json" where
  "stream_transport c ss =
     (if v_Transport c = TransportWS
      then jset ''wsSettings'' (JObj [(''path'', JStr (v_Path c)),
             (''headers'', JObj [(''Host'', JStr (v_WSHost c))])]) ss
      else if v_Transport c = TransportGRPC
      then jset ''grpcSettings'' (JObj [(''serviceName'', JStr (v_GRPCServiceName c)),
             (''multiMode'', JBool (v_GRPCMode c = ''multi''))]) ss
      else if v_Transport c = TransportHTTPUpgrade
      then jset ''httpupgradeSettings'' (JObj [(''path'', JStr (v_Path c)), (''host'', JStr (v_WSHost c))]) ss
      else if v_Transport c = TransportXHTTP
      then jset ''xhttpSettings'' (jset_if (v_WSHost c \<noteq> []) ''host'' (JStr (v_WSHost c))
             (JObj [(''path'', JStr (v_Path c)), (''mode'', JStr (v_XHTTPMode c))])) ss
      else if v_Transport c = TransportMKCP
      then jset ''kcpSettings'' (JObj [(''header'', JObj [(''type'', JStr (orDefaultStr (v_HeaderType c) ''none''))]),
             (''seed'', JStr (v_Seed c))]) ss
      else if v_Transport c = TransportQUIC
      then jset ''quicSettings'' (JObj [(''security'', JStr (v_QUICSec c)), (''key'', JStr (v_QUICKey c)),
             (''header'', JObj [(''type'', JStr (orDefaultStr (v_HeaderType c) ''none''))])]) ss
      else if v_Transport c = TransportTCP \<and> v_HeaderType c = ''http''
      then jset ''tcpSettings'' (JObj [(''header'', JObj [(''type'', JStr ''http'')])]) ss
      else ss)"

definition buildStream :: "Config \<Rightarrow> json" where
  "buildStream c =
     stream_transport c (stream_security c (JObj [(''network'', JStr (Transport_String (v_Transport c)))]))"

definition xray_outbound :: "XrayInput \<Rightarrow> json" where
  "xray_outbound i =
     (let c = x_Server i; address = (if x_ServerIP i \<noteq> [] then x_ServerIP i else v_Address c) in
      JObj [(''protocol'', JStr ''vless''), (''tag'', JStr ''proxy''),
        (''settings'', JObj [(''vnext'', JArr [JObj [(''address'', JStr address),
           (''port'', JNum (uint (v_Port c))),
           (''users'', JArr [JObj [(''id'', JStr (v_UUID c)), (''flow'', JStr (v_Flow c)),
              (''encryption'', JStr (orDefaultStr (v_Encryption c) ''none''))]])]])]),
        (''streamSettings'', buildStream c)])"

definition xray_inbounds :: "XrayInput \<Rightarrow> json list" where
  "xray_inbounds i =
     [JObj [(''tag'', JStr ''socks-in''), (''listen'', JStr ''127.0.0.1''), (''port'', JNum (x_SocksPort i)),
            (''protocol'', JStr ''socks''),
            (''settings'', JObj [(''udp'', JBool True), (''auth'', JStr ''noauth'')])],
      JObj [(''tag'', JStr ''api''), (''listen'', JStr ''127.0.0.1''), (''port'', JNum XrayAPIPort),
            (''protocol'', JStr ''dokodemo-door''),
            (''settings'', JObj [(''address'', JStr ''127.0.0.1'')])]]"

definition BuildXray :: "XrayInput \<Rightarrow> json" where
  "BuildXray i = JObj
     [(''log'', JObj [(''loglevel'', JStr ''warning'')]),
      (''api'', JObj [(''tag'', JStr ''api''), (''services'', JArr [JStr ''StatsService''])]),
      (''inbounds'', JArr (xray_inbounds i)),
      (''outbounds'', JArr [xray_outbound i]),
      (''routing'', JObj [(''rules'', JArr [JObj [(''type'', JStr ''field''),
         (''inboundTag'', JArr [JStr ''api'']), (''outboundTag'', JStr ''api'')]])]),
      (''stats'', JObj []),
      (''policy'', JObj [(''system'', JObj [(''statsInboundUplink'', JBool True), (''statsInboundDownlink'', JBool True),
         (''statsOutboundUplink'', JBool True), (''statsOutboundDownlink'', JBool True)])])]"


section \<open>The route block\<close>

lemma route_rules_jset [simp]:
  "is_obj r \<Longrightarrow> route_rules (jset k v r) = (if k = ''rules'' then jelems v else route_rules r)"
  by (simp add: route_rules_def)

lemma is_obj_compileRule [simp]: "is_obj (compileRule r)"
  by (simp add: compileRule_def Let_def)

lemma Compile_route:
  assumes "Compile re m = Inr route"
  shows "is_obj route" "route_rules route = map compileRule (active_rules m)"
    "jget route ''final'' = Some (JStr (m_DefaultAction m))"
  using assms by (auto simp: Compile_Inr route_rules_def)

lemma is_obj_killswitch [simp]: "is_obj r \<Longrightarrow> is_obj (applyTunModeKillswitch r a b)"
  by (simp add: applyTunModeKillswitch_def Let_def)

lemma is_obj_build_route [simp]: "is_obj route \<Longrightarrow> is_obj (build_route i route)"
  by (simp add: build_route_def Let_def)

definition user_rules :: "SingboxInput \<Rightarrow> json list" where
  "user_rules i = map compileRule (active_rules (in_Rules i))"

definition has_lan_rule :: "SingboxInput \<Rightarrow> bool" where
  "has_lan_rule i \<longleftrightarrow> in_AllowLAN i \<or> \<not> hasEquivalentLanBypass (user_rules i)"

definition blocks_v6 :: "SingboxInput \<Rightarrow> bool" where
  "blocks_v6 i \<longleftrightarrow> in_TunIPv6 i \<noteq> [] \<and> in_FakeIPv6Range i = []"

definition expected_rules :: "SingboxInput \<Rightarrow> json list" where
  "expected_rules i =
     (if in_Mode i = ModeTun
      then [sniffRule, hijackDnsRule] @ (if has_lan_rule i then [lanBypassRule] else []) @ user_rules i
           @ (if blocks_v6 i then [blockIPv6Rule] else []) @ [catchAllRule]
      else sniffRule # (if in_AllowLAN i then [lanBypassRule] else []) @ user_rules i)"

lemma sniff_not_lan [simp]: "\<not> lan_equivalent sniffRule"
  by (simp add: lan_equivalent_def sniffRule_def)

lemma lan_is_lan: "lan_equivalent lanBypassRule"
  by (simp add: lan_equivalent_def lanBypassRule_def list_all_iff)

lemma filter_objs [simp]: "filter is_obj (sniffRule # map compileRule rs) = sniffRule # map compileRule rs"
  by (simp add: sniffRule_def filter_map comp_def)

lemma build_route_rules:
  assumes "Compile re (in_Rules i) = Inr route"
  shows "route_rules (build_route i route) = expected_rules i"
  using Compile_route [OF assms]
  by (simp add: build_route_def Let_def expected_rules_def applyTunModeKillswitch_def insert_second_def
      prependLanBypass_def hasEquivalentLanBypass_def has_lan_rule_def blocks_v6_def user_rules_def
      lan_is_lan del: filter.simps)

lemma build_route_final:
  assumes "Compile re (in_Rules i) = Inr route"
  shows "jget (build_route i route) ''final''
    = Some (JStr (if in_Mode i = ModeTun then ''block'' else m_DefaultAction (in_Rules i)))"
  using Compile_route [OF assms]
  by (simp add: build_route_def Let_def applyTunModeKillswitch_def)

text \<open>Taking a successful build apart.\<close>

lemma BuildSingbox_Inr:
  assumes "BuildSingbox re i = Inr doc"
  obtains route decls where
    "Compile re (in_Rules i) = Inr route"
    "rule_set_decls (in_GeoRuleSets i) (collectRuleSetTags (build_route i route)) = Inr decls"
    "jget doc ''route'' = Some (jset_if (collectRuleSetTags (build_route i route) \<noteq> []) ''rule_set''
        (JArr decls) (build_route i route))"
    "jget doc ''outbounds'' = Some (outbounds i)"
    "jget doc ''dns'' = Some (buildDNSBlock i (if in_DNSUpstreams i = [] then [''1.1.1.1'', ''8.8.8.8'']
        else in_DNSUpstreams i))"
    "jget doc ''inbounds'' = Some (JArr (buildInbounds i (primary_inbound i)))"
  using assms by (auto simp: BuildSingbox_def Let_def split: sum.splits)

lemma route_rules_jset_if [simp]:
  "is_obj r \<Longrightarrow> k \<noteq> ''rules'' \<Longrightarrow> route_rules (jset_if c k v r) = route_rules r"
  by (simp add: jset_if_def)

lemma BuildSingbox_route:
  assumes "BuildSingbox re i = Inr doc"
  obtains route where "jget doc ''route'' = Some route" "route_rules route = expected_rules i"
    "jget route ''final'' = Some (JStr (if in_Mode i = ModeTun then ''block'' else m_DefaultAction (in_Rules i)))"
    "is_obj route"
proof -
  from BuildSingbox_Inr [OF assms] obtain r decls where c: "Compile re (in_Rules i) = Inr r"
    and d: "jget doc ''route'' = Some (jset_if (collectRuleSetTags (build_route i r) \<noteq> []) ''rule_set''
        (JArr decls) (build_route i r))" by metis
  show thesis
    using that [OF d] build_route_rules [OF c] build_route_final [OF c] Compile_route(1) [OF c] by simp
qed

lemma rule_set_decls_ok:
  "(\<And>t. t \<in> set ts \<Longrightarrow> sets t \<noteq> None) \<Longrightarrow>
     rule_set_decls sets ts = Inr (map (\<lambda>t. rule_set_decl t (the (sets t))) ts)"
  by (induction ts) (auto split: option.splits)

lemma rule_set_decls_Inr:
  "rule_set_decls sets ts = Inr ds \<Longrightarrow>
     (\<forall>t \<in> set ts. sets t \<noteq> None) \<and> ds = map (\<lambda>t. rule_set_decl t (the (sets t))) ts"
  by (induction ts arbitrary: ds) (auto split: option.splits sum.splits)

lemma set_dedup: "set (dedup seen ts) = set ts - set seen"
  by (induction seen ts rule: dedup.induct) auto

lemma distinct_dedup: "distinct (dedup seen ts)"
  by (induction seen ts rule: dedup.induct) (auto simp: set_dedup)

text \<open>Reading references out of a document.\<close>

definition key_str :: "string \<Rightarrow> json \<Rightarrow> string option" where
  "key_str k j = (case jget j k of Some v \<Rightarrow> jstr v | None \<Rightarrow> None)"

definition keys_in :: "string \<Rightarrow> json list \<Rightarrow> string list" where
  "keys_in k xs = List.map_filter (key_str k) xs"

definition arr_at :: "string \<Rightarrow> json \<Rightarrow> json list" where
  "arr_at k j = (case jget j k of Some v \<Rightarrow> jelems v | None \<Rightarrow> [])"

definition refs_closed :: "json \<Rightarrow> json \<Rightarrow> json list \<Rightarrow> bool" where
  "refs_closed route dns outs \<longleftrightarrow>
     (let tags = keys_in ''tag'' outs; servers = keys_in ''tag'' (arr_at ''servers'' dns) in
      list_all (\<lambda>t. t \<in> set tags) (keys_in ''outbound'' (arr_at ''rules'' route)) \<and>
      list_all (\<lambda>t. t \<in> set (keys_in ''tag'' (arr_at ''rule_set'' route)))
        (concat (map rule_tags (arr_at ''rules'' route))) \<and>
      list_all (\<lambda>t. t \<in> set tags) (keys_in ''final'' [route]) \<and> keys_in ''final'' [route] \<noteq> [] \<and>
      list_all (\<lambda>t. t \<in> set tags) (keys_in ''detour'' (arr_at ''servers'' dns)) \<and>
      list_all (\<lambda>t. t \<in> set servers)
        (keys_in ''final'' [dns] @ keys_in ''server'' (arr_at ''rules'' dns)
         @ keys_in ''default_domain_resolver'' [route] @ keys_in ''domain_resolver'' outs) \<and>
      keys_in ''final'' [dns] \<noteq> [] \<and> keys_in ''default_domain_resolver'' [route] \<noteq> [])"

lemma keys_in_simps [simp]:
  "keys_in k [] = []"
  "keys_in k (x # xs) = (case key_str k x of Some t \<Rightarrow> t # keys_in k xs | None \<Rightarrow> keys_in k xs)"
  "keys_in k (xs @ ys) = keys_in k xs @ keys_in k ys"
  by (simp_all add: keys_in_def List.map_filter_simps List.map_filter_def split: option.splits)

lemma outbound_tags: "keys_in ''tag'' (jelems (outbounds i)) = [''proxy'', ''direct'', ''block'']"
  by (simp add: outbounds_def key_str_def)

lemma dns_tags:
  "keys_in ''tag'' (arr_at ''servers'' (buildDNSBlock i ups)) =
     (if in_Mode i = ModeTun \<and> in_FakeIP i then [''remote'', ''fakeip'', ''local''] else [''default'', ''local''])"
  by (simp add: buildDNSBlock_def Let_def arr_at_def dns_server_def key_str_def)

lemma dns_refs:
  "keys_in ''detour'' (arr_at ''servers'' (buildDNSBlock i ups)) = [''proxy'', ''direct'']"
  "keys_in ''server'' (arr_at ''rules'' (buildDNSBlock i ups))
     = (if in_Mode i = ModeTun \<and> in_FakeIP i then [''fakeip''] else [])"
  "keys_in ''final'' [buildDNSBlock i ups]
     = (if in_Mode i = ModeTun \<and> in_FakeIP i then [''remote''] else [''default''])"
  by (simp_all add: buildDNSBlock_def Let_def arr_at_def dns_server_def key_str_def)

lemma key_str_compileRule: "key_str ''outbound'' (compileRule r) = Some (ru_Action r)"
  by (simp add: key_str_def jget_compileRule Let_def)

lemma user_outbounds: "keys_in ''outbound'' (map compileRule rs) = map ru_Action rs"
  by (induction rs) (simp_all add: key_str_compileRule)

lemma expected_outbounds:
  assumes "Model_Validate re (in_Rules i) = None"
  shows "list_all (\<lambda>t. t \<in> set [''proxy'', ''direct'', ''block'']) (keys_in ''outbound'' (expected_rules i))"
proof -
  have "Action_Valid (ru_Action r)" if "r \<in> set (active_rules (in_Rules i))" for r
    using active_rules_valid [OF assms that] by (simp add: Rule_Validate_None)
  then show ?thesis
    by (auto simp: expected_rules_def user_rules_def user_outbounds list_all_iff key_str_def sniffRule_def
        hijackDnsRule_def lanBypassRule_def blockIPv6Rule_def catchAllRule_def Action_Valid_def
        ActionProxy_def ActionDirect_def ActionBlock_def)
qed

lemma route_resolver:
  "is_obj route \<Longrightarrow> jget (build_route i route) ''default_domain_resolver''
     = Some (JStr (defaultDomainResolverFor i))"
  by (simp add: build_route_def Let_def)

lemma declared_tags:
  assumes "rule_set_decls sets ts = Inr decls"
  shows "keys_in ''tag'' decls = ts"
proof -
  have "decls = map (\<lambda>t. rule_set_decl t (the (sets t))) ts" using rule_set_decls_Inr [OF assms] by simp
  moreover have "keys_in ''tag'' (map (\<lambda>t. rule_set_decl t (f t)) us) = us" for f us
    by (induction us) (simp_all add: rule_set_decl_def key_str_def)
  ultimately show ?thesis by simp
qed

lemma BuildSingbox_refs:
  assumes "BuildSingbox re i = Inr doc"
  obtains route dns outs where "jget doc ''route'' = Some route" "jget doc ''dns'' = Some dns"
    "jget doc ''outbounds'' = Some (JArr outs)" "refs_closed route dns outs"
proof -
  from BuildSingbox_Inr [OF assms] obtain r decls where c: "Compile re (in_Rules i) = Inr r"
    and ds: "rule_set_decls (in_GeoRuleSets i) (collectRuleSetTags (build_route i r)) = Inr decls"
    and d: "jget doc ''route'' = Some (jset_if (collectRuleSetTags (build_route i r) \<noteq> []) ''rule_set''
        (JArr decls) (build_route i r))"
    and o: "jget doc ''outbounds'' = Some (outbounds i)"
    and n: "jget doc ''dns'' = Some (buildDNSBlock i (if in_DNSUpstreams i = [] then [''1.1.1.1'', ''8.8.8.8'']
        else in_DNSUpstreams i))" by metis
  let ?b = "build_route i r" let ?tags = "collectRuleSetTags (build_route i r)"
  let ?route = "jset_if (?tags \<noteq> []) ''rule_set'' (JArr decls) ?b"
  let ?dns = "buildDNSBlock i (if in_DNSUpstreams i = [] then [''1.1.1.1'', ''8.8.8.8''] else in_DNSUpstreams i)"
  have ob: "is_obj ?b" using Compile_route(1) [OF c] by simp
  have v: "Model_Validate re (in_Rules i) = None" using c by (simp add: Compile_Inr)
  have rules: "arr_at ''rules'' ?route = expected_rules i"
    using build_route_rules [OF c] ob by (simp add: arr_at_def route_rules_def)
  have tags: "set (concat (map rule_tags (expected_rules i))) = set ?tags"
    using build_route_rules [OF c] by (simp add: collectRuleSetTags_def set_dedup)
  have decl: "?tags \<noteq> [] \<Longrightarrow> keys_in ''tag'' (arr_at ''rule_set'' ?route) = ?tags"
    using declared_tags [OF ds] ob by (simp add: arr_at_def)
  have sets: "list_all (\<lambda>t. t \<in> set (keys_in ''tag'' (arr_at ''rule_set'' ?route)))
      (concat (map rule_tags (expected_rules i)))"
    using tags decl by (cases "?tags = []") (auto simp: list_all_iff)
  have final: "keys_in ''final'' [?route]
      = [if in_Mode i = ModeTun then ''block'' else m_DefaultAction (in_Rules i)]"
    using build_route_final [OF c] ob by (simp add: key_str_def)
  have "m_DefaultAction (in_Rules i) \<in> set [''proxy'', ''direct'', ''block'']"
    using v by (auto simp: Model_Validate_None Action_Valid_def ActionProxy_def ActionDirect_def ActionBlock_def)
  with final have fin: "list_all (\<lambda>t. t \<in> set [''proxy'', ''direct'', ''block'']) (keys_in ''final'' [?route])"
    by simp
  have res: "keys_in ''default_domain_resolver'' [?route] = [defaultDomainResolverFor i]"
    using route_resolver [OF Compile_route(1) [OF c], of i] ob by (simp add: key_str_def)
  obtain outs where outs: "outbounds i = JArr outs" "jelems (outbounds i) = outs" by (simp add: outbounds_def)
  have dom: "keys_in ''domain_resolver'' outs = [''local'']"
    using outs by (simp add: outbounds_def key_str_def) (auto simp: key_str_def)
  have "refs_closed ?route ?dns outs"
    unfolding refs_closed_def Let_def rules outs(2) [symmetric] outbound_tags dns_tags dns_refs res
    using expected_outbounds [OF v] sets fin final dom outs(2)
    by (simp add: defaultDomainResolverFor_def)
  with that d n o outs(1) show thesis by metis
qed

lemma rule_tags_fixed [simp]:
  "rule_tags sniffRule = []" "rule_tags hijackDnsRule = []" "rule_tags lanBypassRule = []"
  "rule_tags blockIPv6Rule = []" "rule_tags catchAllRule = []"
  by (simp_all add: rule_tags_def strs_def sniffRule_def hijackDnsRule_def lanBypassRule_def
      blockIPv6Rule_def catchAllRule_def)

lemma expected_tags: "concat (map rule_tags (expected_rules i)) = concat (map rule_tags (user_rules i))"
  by (simp add: expected_rules_def)

lemma geo_tag_prefix: "geo_tag g = Some t \<Longrightarrow> HasPrefix t ''geosite-'' \<or> HasPrefix t ''geoip-''"
  by (auto simp: geo_tag_def HasPrefix_def split: if_splits)

lemma compileRule_tags: "t \<in> set (rule_tags (compileRule r)) \<Longrightarrow> HasPrefix t ''geosite-'' \<or> HasPrefix t ''geoip-''"
proof -
  assume "t \<in> set (rule_tags (compileRule r))"
  then obtain g where "geo_tag g = Some t"
    by (auto simp: rule_tags_def strs_compileRule List.map_filter_def)
  then show ?thesis by (rule geo_tag_prefix)
qed

lemma GeoTags_eq:
  assumes "Compile re (in_Rules i) = Inr route"
  shows "GeoTags re (in_Rules i) = collectRuleSetTags (build_route i route)"
proof -
  have "collectRuleSetTags (build_route i route) = collectRuleSetTags route"
    using build_route_rules [OF assms] Compile_route(2) [OF assms]
    by (simp add: collectRuleSetTags_def expected_tags user_rules_def)
  moreover have "filter (\<lambda>t. HasPrefix t ''geosite-'' \<or> HasPrefix t ''geoip-'') (collectRuleSetTags route)
      = collectRuleSetTags route"
    using Compile_route(2) [OF assms] compileRule_tags
    by (intro filter_True) (auto simp: collectRuleSetTags_def set_dedup)
  ultimately show ?thesis using assms by (simp add: GeoTags_def)
qed

definition port_of :: "json \<Rightarrow> int list" where
  "port_of b = (case jget b ''listen_port'' of Some (JNum n) \<Rightarrow> [n] | _ \<Rightarrow> [])"

definition unconditional_lan :: "json \<Rightarrow> bool" where
  "unconditional_lan r \<longleftrightarrow> lan_equivalent r \<and> list_all (\<lambda>k. k = ''ip_cidr'' \<or> k = ''outbound'') (jkeys r)"

text \<open>A rule that lets one port of the LAN pass, and a TUN configuration with it.\<close>

definition lan_ssh_rule :: Rule where
  "lan_ssh_rule = \<lparr> ru_ID = ''ssh'', ru_Name = ''LAN ssh'', ru_Enabled = True, ru_Action = ''direct'',
     ru_Conditions = no_conditions \<lparr> c_IPCIDRs := lanBypassCIDRs,
       c_Ports := [\<lparr> ps_Single = 22, ps_From = 0, ps_To = 0 \<rparr>] \<rparr> \<rparr>"

definition tun_input :: "Model \<Rightarrow> SingboxInput" where
  "tun_input m = \<lparr> in_Mode = ModeTun, in_SocksInboundPort = 1080, in_HTTPInboundPort = 8080,
     in_TunName = ''tun0'', in_TunIPv4 = ''198.18.0.1/15'', in_MTU = 1500, in_XraySOCKSHost = ''127.0.0.1'',
     in_XraySOCKSPort = 1081, in_Rules = m, in_DNSUpstreams = [], in_AllowLAN = False,
     in_IPv6Strategy = [], in_TunIPv6 = [], in_FakeIPv6Range = [], in_FakeIP = True,
     in_RouteExcludeAddress = [], in_LogLevel = [], in_GeoRuleSets = Map.empty \<rparr>"

definition ssh_model :: Model where
  "ssh_model = \<lparr> m_Groups = [\<lparr> g_ID = ''user'', g_Name = ''My Rules'', g_Locked = False,
     g_Enabled = True, g_Rules = [lan_ssh_rule] \<rparr>], m_DefaultAction = ActionProxy \<rparr>"

lemma lan_cidrs_valid: "list_all ParseCIDR lanBypassCIDRs"
  by code_simp

lemma ssh_model_valid: "Model_Validate re ssh_model = None"
  using lan_cidrs_valid
  by (simp add: Model_Validate_None ssh_model_def lan_ssh_rule_def Rule_Validate_None Action_Valid_def
      ActionDirect_def ActionProxy_def ActionBlock_def no_conditions_def IsEmpty_def check_port_None list_all_iff)

lemma BuildSingbox_ok:
  assumes "Model_Validate re (in_Rules i) = None"
    and "list_all (\<lambda>t. in_GeoRuleSets i t \<noteq> None) (GeoTags re (in_Rules i))"
  shows "\<exists>doc. BuildSingbox re i = Inr doc"
proof -
  obtain route where c: "Compile re (in_Rules i) = Inr route" using assms(1) by (simp add: Compile_Inr)
  have "rule_set_decls (in_GeoRuleSets i) (collectRuleSetTags (build_route i route))
      = Inr (map (\<lambda>t. rule_set_decl t (the (in_GeoRuleSets i t))) (collectRuleSetTags (build_route i route)))"
    using assms(2) GeoTags_eq [OF c] by (intro rule_set_decls_ok) (simp add: list_all_iff)
  with c show ?thesis by (simp add: BuildSingbox_def Let_def)
qed

lemma ssh_tags: "GeoTags re ssh_model = []"
proof -
  obtain route where c: "Compile re ssh_model = Inr route" using ssh_model_valid by (simp add: Compile_Inr)
  have a: "active_rules ssh_model = [lan_ssh_rule]"
    by (simp add: active_rules_def ssh_model_def lan_ssh_rule_def)
  have "collectRuleSetTags route = []"
    using Compile_route(2) [OF c] a
    by (simp add: collectRuleSetTags_def rule_tags_def strs_compileRule)
       (simp add: lan_ssh_rule_def no_conditions_def List.map_filter_simps)
  with c show ?thesis by (simp add: GeoTags_def)
qed

lemma ssh_build: "\<exists>doc. BuildSingbox re (tun_input ssh_model) = Inr doc"
  by (rule BuildSingbox_ok) (simp_all add: tun_input_def ssh_model_valid ssh_tags)

lemma stream_transport_keeps:
  "is_obj ss \<Longrightarrow> jget (stream_transport c ss) ''tlsSettings'' = jget ss ''tlsSettings''"
  "is_obj ss \<Longrightarrow> jget (stream_transport c ss) ''realitySettings'' = jget ss ''realitySettings''"
  by (simp_all add: stream_transport_def)

lemma stream_names:
  "case jget (buildStream c) ''tlsSettings'' of
     Some t \<Rightarrow> v_Security c = SecurityTLS \<and>
       key_str ''serverName'' t = Some (if v_SNI c = [] then v_Address c else v_SNI c)
   | None \<Rightarrow> v_Security c \<noteq> SecurityTLS"
  "case jget (buildStream c) ''realitySettings'' of
     Some t \<Rightarrow> v_Security c = SecurityReality \<and> key_str ''serverName'' t = Some (v_SNI c) \<and>
       key_str ''publicKey'' t = Some (v_RealityPublicKey c)
   | None \<Rightarrow> v_Security c \<noteq> SecurityReality"
proof -
  have ob: "is_obj (stream_security c (JObj kvs))" for kvs by (simp add: stream_security_def)
  have "SecurityTLS \<noteq> SecurityReality" by (simp add: security_defs)
  then show "case jget (buildStream c) ''tlsSettings'' of
     Some t \<Rightarrow> v_Security c = SecurityTLS \<and>
       key_str ''serverName'' t = Some (if v_SNI c = [] then v_Address c else v_SNI c)
   | None \<Rightarrow> v_Security c \<noteq> SecurityTLS"
    by (simp add: buildStream_def stream_transport_keeps ob)
       (simp add: stream_security_def tls_settings_def key_str_def orDefaultStr_def)
  show "case jget (buildStream c) ''realitySettings'' of
     Some t \<Rightarrow> v_Security c = SecurityReality \<and> key_str ''serverName'' t = Some (v_SNI c) \<and>
       key_str ''publicKey'' t = Some (v_RealityPublicKey c)
   | None \<Rightarrow> v_Security c \<noteq> SecurityReality"
    by (simp add: buildStream_def stream_transport_keeps ob)
       (simp add: stream_security_def reality_settings_def key_str_def)
qed

section \<open>Properties\<close>

text \<open>
  C7. The TUN kill switch: whatever the rules, a TUN configuration drops unmatched traffic and has exactly these route
  rules, in this order: it sniffs, hijacks DNS before anything else can match, sends the LAN prefixes direct (this rule
  is there if LAN access is asked for or no compiled user rule is taken for an equivalent one by
  \<^verbatim>\<open>hasEquivalentLanBypass\<close>, and absent otherwise), applies the user's compiled rules, blocks all global IPv6
  (when IPv6 is captured but not tunnelled, otherwise this rule is absent) and ends in the catch-all proxy rule. What
  \<^verbatim>\<open>hasEquivalentLanBypass\<close> takes for equivalent need not keep the LAN reachable: see \<open>lan_rule_suppressed\<close>.
\<close>

theorem tun_route_shape:
  assumes "BuildSingbox re i = Inr doc" "in_Mode i = ModeTun"
  shows "\<exists>route lan v6. jget doc ''route'' = Some route \<and>
     jget route ''final'' = Some (JStr ''block'') \<and>
     jget route ''rules'' = Some (JArr ([sniffRule, hijackDnsRule] @ lan
        @ map compileRule (active_rules (in_Rules i)) @ v6 @ [catchAllRule])) \<and>
     lan = (if in_AllowLAN i \<or> \<not> list_ex lan_equivalent (map compileRule (active_rules (in_Rules i)))
            then [lanBypassRule] else []) \<and>
     v6 = (if in_TunIPv6 i \<noteq> [] \<and> in_FakeIPv6Range i = [] then [blockIPv6Rule] else [])"
proof -
  from BuildSingbox_Inr [OF assms(1)] obtain r decls where c: "Compile re (in_Rules i) = Inr r"
    and d: "jget doc ''route'' = Some (jset_if (collectRuleSetTags (build_route i r) \<noteq> []) ''rule_set''
        (JArr decls) (build_route i r))" by metis
  note o = Compile_route [OF c]
  have "\<exists>xs. jget (build_route i r) ''rules'' = Some (JArr xs)"
    using assms(2) o(1) by (simp add: build_route_def Let_def applyTunModeKillswitch_def)
  then have "jget (build_route i r) ''rules'' = Some (JArr (expected_rules i))"
    using build_route_rules [OF c] by (auto simp: route_rules_def)
  with d o(1) build_route_final [OF c] assms(2) show ?thesis
    by (simp add: expected_rules_def user_rules_def has_lan_rule_def blocks_v6_def hasEquivalentLanBypass_def)
qed



text \<open>
  The generated sing-box document is closed under its references, in every mode: each outbound that a
  route rule, the final route or a DNS detour names is declared, each rule set that a rule
  mentions is declared, and each DNS server that the DNS block, the route or an outbound names exists.
\<close>

theorem singbox_references:
  assumes "BuildSingbox re i = Inr doc"
  shows "\<exists>route dns outs. jget doc ''route'' = Some route \<and> jget doc ''dns'' = Some dns \<and>
     jget doc ''outbounds'' = Some (JArr outs) \<and> refs_closed route dns outs"
  using BuildSingbox_refs [OF assms] by metis


definition lan_input :: SingboxInput where
  "lan_input = (tun_input ssh_model) \<lparr> in_AllowLAN := True, in_TunIPv6 := ''fdfe:dcba:9876::1/126'' \<rparr>"

theorem tun_route_shape_witness:
  "\<exists>doc route. BuildSingbox (\<lambda>_. True) lan_input = Inr doc \<and>
     jget doc ''route'' = Some route \<and> jget route ''final'' = Some (JStr ''block'') \<and>
     jget route ''rules'' = Some (JArr [sniffRule, hijackDnsRule, lanBypassRule, compileRule lan_ssh_rule, blockIPv6Rule,
       catchAllRule])"
proof -
  have "\<exists>doc. BuildSingbox (\<lambda>_. True) lan_input = Inr doc"
    by (rule BuildSingbox_ok) (simp_all add: lan_input_def tun_input_def ssh_model_valid ssh_tags)
  then obtain doc where d: "BuildSingbox (\<lambda>_. True) lan_input = Inr doc" by blast
  have "in_Mode lan_input = ModeTun" "in_AllowLAN lan_input" "in_TunIPv6 lan_input \<noteq> []" "in_FakeIPv6Range lan_input = []"
    "active_rules (in_Rules lan_input) = [lan_ssh_rule]"
    by (simp_all add: lan_input_def tun_input_def active_rules_def ssh_model_def lan_ssh_rule_def)
  with tun_route_shape [OF d] d show ?thesis by simp
qed

theorem singbox_references_witness:
  "\<exists>doc route dns outs. BuildSingbox (\<lambda>_. True) (tun_input ssh_model) = Inr doc \<and>
     jget doc ''route'' = Some route \<and> jget doc ''dns'' = Some dns \<and>
     jget doc ''outbounds'' = Some (JArr outs) \<and> refs_closed route dns outs"
  using ssh_build [of "\<lambda>_. True"] singbox_references by blast

text \<open>
  When the sing-box configuration can be built, exactly: the rules model validates and a local file is
  known for each of the tags that GeoTags reports. So pre-downloading what GeoTags reports is
  enough, and nothing less is.
\<close>

theorem BuildSingbox_succeeds_iff:
  "(\<exists>doc. BuildSingbox re i = Inr doc) \<longleftrightarrow>
     Model_Validate re (in_Rules i) = None \<and>
     list_all (\<lambda>t. in_GeoRuleSets i t \<noteq> None) (GeoTags re (in_Rules i))"
proof
  assume "\<exists>doc. BuildSingbox re i = Inr doc"
  then obtain doc where "BuildSingbox re i = Inr doc" by blast
  then obtain route decls where c: "Compile re (in_Rules i) = Inr route"
    and d: "rule_set_decls (in_GeoRuleSets i) (collectRuleSetTags (build_route i route)) = Inr decls"
    by (rule BuildSingbox_Inr) blast
  from rule_set_decls_Inr [OF d] GeoTags_eq [OF c] c show "Model_Validate re (in_Rules i) = None \<and>
     list_all (\<lambda>t. in_GeoRuleSets i t \<noteq> None) (GeoTags re (in_Rules i))"
    by (simp add: list_all_iff Compile_Inr)
qed (use BuildSingbox_ok in blast)

text \<open>
  The proxy listeners are private and do not clash: every inbound of the sing-box configuration is the
  TUN device or listens on the loopback address, and no two share a tag or a port.
\<close>

theorem inbounds_private:
  "let ins = buildInbounds i (primary_inbound i) in
     list_all (\<lambda>b. key_str ''type'' b = Some ''tun'' \<or> key_str ''listen'' b = Some ''127.0.0.1'') ins \<and>
     distinct (keys_in ''tag'' ins) \<and> distinct (concat (map port_of ins)) \<and> ins \<noteq> []"
  by (simp add: buildInbounds_def primary_inbound_def localProxyInbounds_def key_str_def port_of_def Let_def
      ModeSysProxy_def ModeTun_def)

text \<open>
  In TUN mode the model's default action has no effect: two models that differ only in it give the same
  configuration. (The model describes it as the fallback action when no rule matches.)
\<close>

theorem tun_ignores_default_action:
  assumes "in_Mode i = ModeTun" "Action_Valid (m_DefaultAction (in_Rules i))" "Action_Valid a"
  shows "BuildSingbox re (i \<lparr> in_Rules := (in_Rules i) \<lparr> m_DefaultAction := a \<rparr> \<rparr>) = BuildSingbox re i"
proof -
  have v: "Model_Validate re ((in_Rules i) \<lparr> m_DefaultAction := a \<rparr>) = Model_Validate re (in_Rules i)"
    using assms(2,3) by (simp add: Model_Validate_def)
  let ?i = "i \<lparr> in_Rules := (in_Rules i) \<lparr> m_DefaultAction := a \<rparr> \<rparr>"
  let ?R = "\<lambda>x. jset ''rules'' (JArr (map compileRule (active_rules (in_Rules i)))) (JObj [(''final'', JStr x)])"
  have r: "build_route ?i (?R x) = build_route i (?R y)" for x y
    using assms(1)
    by (simp add: build_route_def Let_def applyTunModeKillswitch_def defaultDomainResolverFor_def route_rules_def)
  have f: "buildDNSBlock ?i ups = buildDNSBlock i ups" "outbounds ?i = outbounds i"
    "buildInbounds ?i (primary_inbound ?i) = buildInbounds i (primary_inbound i)"
    "in_LogLevel ?i = in_LogLevel i" "in_GeoRuleSets ?i = in_GeoRuleSets i"
    "in_DNSUpstreams ?i = in_DNSUpstreams i" for ups
    by (simp_all add: buildDNSBlock_def outbounds_def buildInbounds_def primary_inbound_def Let_def)
  show ?thesis
  proof (cases "Model_Validate re (in_Rules i)")
    case None
    then have c: "Compile re (in_Rules i) = Inr (?R (m_DefaultAction (in_Rules i)))"
      "Compile re (in_Rules ?i) = Inr (?R a)"
      using v by (simp_all add: Compile_Inr) (simp_all add: active_rules_def)
    show ?thesis unfolding BuildSingbox_def c sum.case f r [of a "m_DefaultAction (in_Rules i)"] by (rule refl)
  next
    case (Some e)
    then show ?thesis using v by (simp add: BuildSingbox_def Compile_def)
  qed
qed

theorem tun_ignores_default_action_witness:
  "BuildSingbox (\<lambda>_. True) (tun_input (ssh_model \<lparr> m_DefaultAction := ActionDirect \<rparr>))
     = BuildSingbox (\<lambda>_. True) (tun_input ssh_model)"
proof -
  have "tun_input (ssh_model \<lparr> m_DefaultAction := ActionDirect \<rparr>)
      = (tun_input ssh_model) \<lparr> in_Rules := (in_Rules (tun_input ssh_model)) \<lparr> m_DefaultAction := ActionDirect \<rparr> \<rparr>"
    by (simp add: tun_input_def)
  then show ?thesis
    using tun_ignores_default_action [of "tun_input ssh_model" ActionDirect "\<lambda>_. True"]
    by (simp add: tun_input_def ssh_model_def Action_Valid_def)
qed

text \<open>
  A rule that sends the LAN prefixes direct under a further condition suppresses the LAN rule: with a
  single rule for port 22 of the LAN, the TUN configuration has no rule left that sends the other
  LAN traffic direct, and all of it goes to the catch-all proxy rule.
\<close>

theorem lan_rule_suppressed:
  "\<exists>doc route. BuildSingbox re (tun_input ssh_model) = Inr doc \<and> jget doc ''route'' = Some route \<and>
     \<not> list_ex unconditional_lan (route_rules route) \<and>
     map ru_Name (active_rules ssh_model) = [''LAN ssh'']"
proof -
  obtain doc where d: "BuildSingbox re (tun_input ssh_model) = Inr doc" using ssh_build by blast
  from BuildSingbox_route [OF d] obtain route where r: "jget doc ''route'' = Some route"
    "route_rules route = expected_rules (tun_input ssh_model)" by metis
  have a: "active_rules ssh_model = [lan_ssh_rule]"
    by (simp add: active_rules_def ssh_model_def lan_ssh_rule_def)
  have k: "compileRule lan_ssh_rule = JObj [(''outbound'', JStr ''direct''), (''ip_cidr'', JArr (map JStr lanBypassCIDRs)),
      (''port'', JArr [JNum 22])]"
    by (simp add: compileRule_def lan_ssh_rule_def no_conditions_def Let_def set_arr_def toAny_def rule_sets_def
        List.map_filter_simps) (simp add: lanBypassCIDRs_def)
  have e: "expected_rules (tun_input ssh_model) = [sniffRule, hijackDnsRule, compileRule lan_ssh_rule, catchAllRule]"
    by (simp add: expected_rules_def tun_input_def user_rules_def a has_lan_rule_def blocks_v6_def
        hasEquivalentLanBypass_def lan_equivalent_def k list_all_iff)
  have "\<not> list_ex unconditional_lan (expected_rules (tun_input ssh_model))"
    unfolding e k
    by (simp add: unconditional_lan_def lan_equivalent_def sniffRule_def hijackDnsRule_def catchAllRule_def)
  with d r a show ?thesis by (simp add: lan_ssh_rule_def)
qed

text \<open>
  The xray outbound dials the pre-resolved address when one is given and the configured one otherwise,
  but the name it presents in the TLS handshake never comes from the pre-resolved address: it is
  the configured server name, or the configured address when there is none.
\<close>

theorem xray_dial_and_name:
  "let ob = xray_outbound i; c = x_Server i; st = buildStream c in
     jget ob ''streamSettings'' = Some st \<and>
     (\<exists>st' v. jget ob ''settings'' = Some st' \<and> arr_at ''vnext'' st' = [v] \<and>
        key_str ''address'' v = Some (if x_ServerIP i = [] then v_Address c else x_ServerIP i) \<and>
        jget v ''port'' = Some (JNum (uint (v_Port c)))) \<and>
     (case jget st ''tlsSettings'' of
        Some t \<Rightarrow> v_Security c = SecurityTLS \<and> key_str ''serverName'' t = Some (if v_SNI c = [] then v_Address c else v_SNI c)
      | None \<Rightarrow> v_Security c \<noteq> SecurityTLS) \<and>
     (case jget st ''realitySettings'' of
        Some t \<Rightarrow> v_Security c = SecurityReality \<and> key_str ''serverName'' t = Some (v_SNI c) \<and>
                   key_str ''publicKey'' t = Some (v_RealityPublicKey c)
      | None \<Rightarrow> v_Security c \<noteq> SecurityReality)"
  unfolding Let_def
proof (intro conjI)
  show "\<exists>st' v. jget (xray_outbound i) ''settings'' = Some st' \<and> arr_at ''vnext'' st' = [v] \<and>
      key_str ''address'' v = Some (if x_ServerIP i = [] then v_Address (x_Server i) else x_ServerIP i) \<and>
      jget v ''port'' = Some (JNum (uint (v_Port (x_Server i))))"
    by (simp add: xray_outbound_def Let_def arr_at_def key_str_def)
qed (simp_all add: stream_names xray_outbound_def Let_def)

end
