(* ===== verification/Settings.thy ===== *)
theory Settings
  imports Json_Text Store_Spec Rules Netaddr
begin

text \<open>
  The settings: \<^verbatim>\<open>config.json\<close> (package \<^verbatim>\<open>internal/config\<close>), the store and the service that
  change it one section at a time (\<^verbatim>\<open>bindings/configstore.go\<close>, \<^verbatim>\<open>bindings/settings.go\<close>), the view
  that the window shows (\<^verbatim>\<open>hub/snapshot.go\<close>), and the translation of the network section into what
  the chain runs with (\<^verbatim>\<open>chainctl/network.go\<close>).

  A patch is the \<^verbatim>\<open>map[string]any\<close> decoded from JSON, so every number in it is a \<^verbatim>\<open>float64\<close>. The
  parameter \<open>fl\<close> is the conversion of a number literal to \<^verbatim>\<open>float64\<close> and on to \<^verbatim>\<open>int\<close>; integers
  of up to 53 bits are converted exactly.
\<close>

section \<open>config.go\<close>

record General =
  ge_Language :: string
  ge_Autostart :: bool
  ge_StartMinimized :: bool
  ge_AutoConnect :: bool

record TUN =
  t_IPv4CIDR :: string
  t_IPv6CIDR :: string
  t_MTU :: int

record SysProxy =
  sp_HTTPPort :: int
  sp_SOCKSPort :: int

record GeoSource =
  gs_Preset :: string
  gs_CustomURL :: string

text \<open>\<open>None\<close> is the nil slice, which is written as \<^verbatim>\<open>null\<close>.\<close>

record DNS =
  d_Mode :: string
  d_Servers :: "string list option"

record Network =
  n_Mode :: string
  n_TUN :: TUN
  n_SysProxy :: SysProxy
  n_AllowLAN :: bool
  n_IPv6Mode :: string
  n_DNS :: DNS
  n_GeoSource :: GeoSource

record KillSwitch =
  k_Enabled :: bool
  k_AlwaysOn :: bool

record Subscriptions =
  su_DefaultUpdateInterval :: int
  su_UserAgent :: string
  su_HWIDEnabled :: bool
  su_SendDeviceOS :: bool
  su_SendOSVersion :: bool
  su_SendDeviceModel :: bool

record Notifications =
  no_Connected :: bool
  no_Disconnected :: bool
  no_QuotaLow :: bool
  no_SubUpdated :: bool
  no_Sound :: bool

record Debug =
  de_LogLevel :: string

record AppConfig =
  c_Version :: int
  c_General :: General
  c_Network :: Network
  c_KillSwitch :: KillSwitch
  c_Subscriptions :: Subscriptions
  c_Notifications :: Notifications
  c_Debug :: Debug

definition EffectiveMode :: "Network \<Rightarrow> string" where
  "EffectiveMode n = (if n_Mode n = ''auto'' then ''tun'' else n_Mode n)"

definition Defaults :: AppConfig where
  "Defaults =
     \<lparr> c_Version = 1,
       c_General = \<lparr> ge_Language = ''en'', ge_Autostart = False, ge_StartMinimized = False,
                     ge_AutoConnect = False \<rparr>,
       c_Network =
         \<lparr> n_Mode = ''tun'',
           n_TUN = \<lparr> t_IPv4CIDR = ''198.18.0.1/15'', t_IPv6CIDR = ''fdfe:dcba:9876::1/126'', t_MTU = 1500 \<rparr>,
           n_SysProxy = \<lparr> sp_HTTPPort = 8888, sp_SOCKSPort = 1080 \<rparr>,
           n_AllowLAN = False,
           n_IPv6Mode = ''prefer-v4'',
           n_DNS = \<lparr> d_Mode = ''auto'', d_Servers = None \<rparr>,
           n_GeoSource = \<lparr> gs_Preset = ''runetfreedom'', gs_CustomURL = [] \<rparr> \<rparr>,
       c_KillSwitch = \<lparr> k_Enabled = True, k_AlwaysOn = False \<rparr>,
       c_Subscriptions =
         \<lparr> su_DefaultUpdateInterval = 3600, su_UserAgent = [], su_HWIDEnabled = True,
           su_SendDeviceOS = True, su_SendOSVersion = True, su_SendDeviceModel = True \<rparr>,
       c_Notifications =
         \<lparr> no_Connected = True, no_Disconnected = True, no_QuotaLow = True, no_SubUpdated = False,
           no_Sound = True \<rparr>,
       c_Debug = \<lparr> de_LogLevel = ''info'' \<rparr> \<rparr>"

subsection \<open>The document\<close>

definition dec_int64 :: "int dec" where
  "dec_int64 = dec_int (- (2 ^ 63)) (2 ^ 63 - 1)"

definition dec_nilslice :: "string list option dec" where
  "dec_nilslice v xs =
     (case v of JNull \<Rightarrow> Some None
      | JArr vs \<Rightarrow> map_option Some (opt_all (\<lambda>v. dec_string v []) vs)
      | _ \<Rightarrow> None)"

definition enc_nilslice :: "string list option \<Rightarrow> json" where
  "enc_nilslice xs = (case xs of None \<Rightarrow> JNull | Some ys \<Rightarrow> JArr (map JStr ys))"

definition General_fields :: "General fields" where
  "General_fields =
     [(''language'', fld ge_Language (\<lambda>x. ge_Language_update (\<lambda>_. x)) dec_string),
      (''autostart'', fld ge_Autostart (\<lambda>x. ge_Autostart_update (\<lambda>_. x)) dec_bool),
      (''start_minimized'', fld ge_StartMinimized (\<lambda>x. ge_StartMinimized_update (\<lambda>_. x)) dec_bool),
      (''auto_connect'', fld ge_AutoConnect (\<lambda>x. ge_AutoConnect_update (\<lambda>_. x)) dec_bool)]"

definition enc_General :: "General \<Rightarrow> json" where
  "enc_General g = JObj
     [(''language'', JStr (ge_Language g)), (''autostart'', JBool (ge_Autostart g)),
      (''start_minimized'', JBool (ge_StartMinimized g)), (''auto_connect'', JBool (ge_AutoConnect g))]"

definition TUN_fields :: "TUN fields" where
  "TUN_fields =
     [(''ipv4_cidr'', fld t_IPv4CIDR (\<lambda>x. t_IPv4CIDR_update (\<lambda>_. x)) dec_string),
      (''ipv6_cidr'', fld t_IPv6CIDR (\<lambda>x. t_IPv6CIDR_update (\<lambda>_. x)) dec_string),
      (''mtu'', fld t_MTU (\<lambda>x. t_MTU_update (\<lambda>_. x)) dec_int64)]"

definition enc_TUN :: "TUN \<Rightarrow> json" where
  "enc_TUN t = JObj [(''ipv4_cidr'', JStr (t_IPv4CIDR t)), (''ipv6_cidr'', JStr (t_IPv6CIDR t)),
     (''mtu'', JNum (t_MTU t))]"

definition SysProxy_fields :: "SysProxy fields" where
  "SysProxy_fields =
     [(''http_port'', fld sp_HTTPPort (\<lambda>x. sp_HTTPPort_update (\<lambda>_. x)) dec_int64),
      (''socks_port'', fld sp_SOCKSPort (\<lambda>x. sp_SOCKSPort_update (\<lambda>_. x)) dec_int64)]"

definition enc_SysProxy :: "SysProxy \<Rightarrow> json" where
  "enc_SysProxy p = JObj [(''http_port'', JNum (sp_HTTPPort p)), (''socks_port'', JNum (sp_SOCKSPort p))]"

definition GeoSource_fields :: "GeoSource fields" where
  "GeoSource_fields =
     [(''preset'', fld gs_Preset (\<lambda>x. gs_Preset_update (\<lambda>_. x)) dec_string),
      (''custom_url'', fld gs_CustomURL (\<lambda>x. gs_CustomURL_update (\<lambda>_. x)) dec_string)]"

definition enc_GeoSource :: "GeoSource \<Rightarrow> json" where
  "enc_GeoSource g = JObj [(''preset'', JStr (gs_Preset g)), (''custom_url'', JStr (gs_CustomURL g))]"

definition DNS_fields :: "DNS fields" where
  "DNS_fields =
     [(''mode'', fld d_Mode (\<lambda>x. d_Mode_update (\<lambda>_. x)) dec_string),
      (''servers'', fld d_Servers (\<lambda>x. d_Servers_update (\<lambda>_. x)) dec_nilslice)]"

definition enc_DNS :: "DNS \<Rightarrow> json" where
  "enc_DNS d = JObj [(''mode'', JStr (d_Mode d)), (''servers'', enc_nilslice (d_Servers d))]"

definition Network_fields :: "Network fields" where
  "Network_fields =
     [(''mode'', fld n_Mode (\<lambda>x. n_Mode_update (\<lambda>_. x)) dec_string),
      (''tun'', fld n_TUN (\<lambda>x. n_TUN_update (\<lambda>_. x)) (dec_struct TUN_fields)),
      (''sysproxy'', fld n_SysProxy (\<lambda>x. n_SysProxy_update (\<lambda>_. x)) (dec_struct SysProxy_fields)),
      (''allow_lan'', fld n_AllowLAN (\<lambda>x. n_AllowLAN_update (\<lambda>_. x)) dec_bool),
      (''ipv6_mode'', fld n_IPv6Mode (\<lambda>x. n_IPv6Mode_update (\<lambda>_. x)) dec_string),
      (''dns'', fld n_DNS (\<lambda>x. n_DNS_update (\<lambda>_. x)) (dec_struct DNS_fields)),
      (''geo_source'', fld n_GeoSource (\<lambda>x. n_GeoSource_update (\<lambda>_. x)) (dec_struct GeoSource_fields))]"

definition enc_Network :: "Network \<Rightarrow> json" where
  "enc_Network n = JObj
     [(''mode'', JStr (n_Mode n)), (''tun'', enc_TUN (n_TUN n)), (''sysproxy'', enc_SysProxy (n_SysProxy n)),
      (''allow_lan'', JBool (n_AllowLAN n)), (''ipv6_mode'', JStr (n_IPv6Mode n)),
      (''dns'', enc_DNS (n_DNS n)), (''geo_source'', enc_GeoSource (n_GeoSource n))]"

definition KillSwitch_fields :: "KillSwitch fields" where
  "KillSwitch_fields =
     [(''enabled'', fld k_Enabled (\<lambda>x. k_Enabled_update (\<lambda>_. x)) dec_bool),
      (''always_on'', fld k_AlwaysOn (\<lambda>x. k_AlwaysOn_update (\<lambda>_. x)) dec_bool)]"

definition enc_KillSwitch :: "KillSwitch \<Rightarrow> json" where
  "enc_KillSwitch k = JObj [(''enabled'', JBool (k_Enabled k)), (''always_on'', JBool (k_AlwaysOn k))]"

definition Subscriptions_fields :: "Subscriptions fields" where
  "Subscriptions_fields =
     [(''defaultUpdateInterval'',
         fld su_DefaultUpdateInterval (\<lambda>x. su_DefaultUpdateInterval_update (\<lambda>_. x)) dec_int64),
      (''userAgent'', fld su_UserAgent (\<lambda>x. su_UserAgent_update (\<lambda>_. x)) dec_string),
      (''hwidEnabled'', fld su_HWIDEnabled (\<lambda>x. su_HWIDEnabled_update (\<lambda>_. x)) dec_bool),
      (''sendDeviceOS'', fld su_SendDeviceOS (\<lambda>x. su_SendDeviceOS_update (\<lambda>_. x)) dec_bool),
      (''sendOSVersion'', fld su_SendOSVersion (\<lambda>x. su_SendOSVersion_update (\<lambda>_. x)) dec_bool),
      (''sendDeviceModel'', fld su_SendDeviceModel (\<lambda>x. su_SendDeviceModel_update (\<lambda>_. x)) dec_bool)]"

definition enc_Subscriptions :: "Subscriptions \<Rightarrow> json" where
  "enc_Subscriptions s = JObj
     [(''defaultUpdateInterval'', JNum (su_DefaultUpdateInterval s)), (''userAgent'', JStr (su_UserAgent s)),
      (''hwidEnabled'', JBool (su_HWIDEnabled s)), (''sendDeviceOS'', JBool (su_SendDeviceOS s)),
      (''sendOSVersion'', JBool (su_SendOSVersion s)), (''sendDeviceModel'', JBool (su_SendDeviceModel s))]"

definition Notifications_fields :: "Notifications fields" where
  "Notifications_fields =
     [(''connected'', fld no_Connected (\<lambda>x. no_Connected_update (\<lambda>_. x)) dec_bool),
      (''disconnected'', fld no_Disconnected (\<lambda>x. no_Disconnected_update (\<lambda>_. x)) dec_bool),
      (''quota_low'', fld no_QuotaLow (\<lambda>x. no_QuotaLow_update (\<lambda>_. x)) dec_bool),
      (''sub_updated'', fld no_SubUpdated (\<lambda>x. no_SubUpdated_update (\<lambda>_. x)) dec_bool),
      (''sound'', fld no_Sound (\<lambda>x. no_Sound_update (\<lambda>_. x)) dec_bool)]"

definition enc_Notifications :: "Notifications \<Rightarrow> json" where
  "enc_Notifications n = JObj
     [(''connected'', JBool (no_Connected n)), (''disconnected'', JBool (no_Disconnected n)),
      (''quota_low'', JBool (no_QuotaLow n)), (''sub_updated'', JBool (no_SubUpdated n)),
      (''sound'', JBool (no_Sound n))]"

definition Debug_fields :: "Debug fields" where
  "Debug_fields = [(''log_level'', fld de_LogLevel (\<lambda>x. de_LogLevel_update (\<lambda>_. x)) dec_string)]"

definition enc_Debug :: "Debug \<Rightarrow> json" where
  "enc_Debug d = JObj [(''log_level'', JStr (de_LogLevel d))]"

definition AppConfig_fields :: "AppConfig fields" where
  "AppConfig_fields =
     [(''version'', fld c_Version (\<lambda>x. c_Version_update (\<lambda>_. x)) dec_int64),
      (''general'', fld c_General (\<lambda>x. c_General_update (\<lambda>_. x)) (dec_struct General_fields)),
      (''network'', fld c_Network (\<lambda>x. c_Network_update (\<lambda>_. x)) (dec_struct Network_fields)),
      (''killswitch'', fld c_KillSwitch (\<lambda>x. c_KillSwitch_update (\<lambda>_. x)) (dec_struct KillSwitch_fields)),
      (''subscriptions'',
         fld c_Subscriptions (\<lambda>x. c_Subscriptions_update (\<lambda>_. x)) (dec_struct Subscriptions_fields)),
      (''notifications'',
         fld c_Notifications (\<lambda>x. c_Notifications_update (\<lambda>_. x)) (dec_struct Notifications_fields)),
      (''debug'', fld c_Debug (\<lambda>x. c_Debug_update (\<lambda>_. x)) (dec_struct Debug_fields))]"

definition enc_AppConfig :: "AppConfig \<Rightarrow> json" where
  "enc_AppConfig c = JObj
     [(''version'', JNum (c_Version c)), (''general'', enc_General (c_General c)),
      (''network'', enc_Network (c_Network c)), (''killswitch'', enc_KillSwitch (c_KillSwitch c)),
      (''subscriptions'', enc_Subscriptions (c_Subscriptions c)),
      (''notifications'', enc_Notifications (c_Notifications c)), (''debug'', enc_Debug (c_Debug c))]"

text \<open>The keys that are present are laid over the defaults. \<open>None\<close> is the error of \<^verbatim>\<open>Load\<close>.\<close>

definition Config_Load :: "disk \<Rightarrow> AppConfig option" where
  "Config_Load f =
     (case f of
        Absent \<Rightarrow> Some Defaults
      | Unreadable \<Rightarrow> None
      | NotJSON \<Rightarrow> None
      | Tree j \<Rightarrow> dec_struct AppConfig_fields j Defaults)"

definition Config_Save :: "bool \<Rightarrow> AppConfig \<Rightarrow> disk \<Rightarrow> bool \<times> disk" where
  "Config_Save ok c f = (if ok then (True, Tree (enc_AppConfig c)) else (False, f))"

section \<open>configstore.go: patches\<close>

type_synonym patch = "string \<rightharpoonup> json"

text \<open>\<^verbatim>\<open>if v, ok := p[key].(T); ok { x = v }\<close>\<close>

definition set_string :: "patch \<Rightarrow> string \<Rightarrow> string \<Rightarrow> string" where
  "set_string p k x = (case p k of Some (JStr v) \<Rightarrow> v | _ \<Rightarrow> x)"

definition set_bool :: "patch \<Rightarrow> string \<Rightarrow> bool \<Rightarrow> bool" where
  "set_bool p k x = (case p k of Some (JBool v) \<Rightarrow> v | _ \<Rightarrow> x)"

text \<open>The assertion \<^verbatim>\<open>.(float64)\<close> and the conversion \<^verbatim>\<open>int(v)\<close>.\<close>

definition as_int :: "(string \<Rightarrow> 64 word) \<Rightarrow> json option \<Rightarrow> int option" where
  "as_int fl v =
     (case v of
        Some (JNum n) \<Rightarrow> Some (if \<bar>n\<bar> \<le> 2 ^ 53 then n else sint (fl (int_str n)))
      | Some (JFloat s) \<Rightarrow> Some (sint (fl s))
      | _ \<Rightarrow> None)"

text \<open>A number outside of its range is dropped without an error.\<close>

definition set_ranged :: "(string \<Rightarrow> 64 word) \<Rightarrow> int \<Rightarrow> int \<Rightarrow> patch \<Rightarrow> string \<Rightarrow> int \<Rightarrow> int" where
  "set_ranged fl lo hi p k x =
     (case as_int fl (p k) of None \<Rightarrow> x | Some v \<Rightarrow> (if lo \<le> v \<and> v \<le> hi then v else x))"

definition applyGeneral :: "patch \<Rightarrow> General \<Rightarrow> General" where
  "applyGeneral p g =
     \<lparr> ge_Language = set_string p ''language'' (ge_Language g),
       ge_Autostart = set_bool p ''autostart'' (ge_Autostart g),
       ge_StartMinimized = set_bool p ''startMinimized'' (ge_StartMinimized g),
       ge_AutoConnect = set_bool p ''autoConnect'' (ge_AutoConnect g) \<rparr>"

text \<open>The loop over the DNS servers: strings only, trimmed, empty ones dropped.\<close>

fun dns_out :: "json list \<Rightarrow> string list" where
  "dns_out [] = []"
| "dns_out (JStr s # vs) = (let t = TrimSpace s in if t \<noteq> [] then t # dns_out vs else dns_out vs)"
| "dns_out (_ # vs) = dns_out vs"

definition applyNetwork :: "(string \<Rightarrow> 64 word) \<Rightarrow> patch \<Rightarrow> Network \<Rightarrow> Network" where
  "applyNetwork fl p n =
     \<lparr> n_Mode = set_string p ''defaultMode'' (n_Mode n),
       n_TUN = (n_TUN n) \<lparr> t_IPv4CIDR := set_string p ''tunCidr'' (t_IPv4CIDR (n_TUN n)),
                           t_MTU := set_ranged fl 576 9000 p ''tunMtu'' (t_MTU (n_TUN n)) \<rparr>,
       n_SysProxy =
         \<lparr> sp_HTTPPort = set_ranged fl 1 65535 p ''httpPort'' (sp_HTTPPort (n_SysProxy n)),
           sp_SOCKSPort = set_ranged fl 1 65535 p ''socksPort'' (sp_SOCKSPort (n_SysProxy n)) \<rparr>,
       n_AllowLAN = set_bool p ''allowLan'' (n_AllowLAN n),
       n_IPv6Mode = set_string p ''ipv6Mode'' (n_IPv6Mode n),
       n_DNS =
         \<lparr> d_Mode = set_string p ''dnsMode'' (d_Mode (n_DNS n)),
           d_Servers = (case p ''dnsServers'' of
                          Some (JArr vs) \<Rightarrow> Some (dns_out vs)
                        | _ \<Rightarrow> d_Servers (n_DNS n)) \<rparr>,
       n_GeoSource =
         \<lparr> gs_Preset = set_string p ''geoPreset'' (gs_Preset (n_GeoSource n)),
           gs_CustomURL = set_string p ''geoCustomURL'' (gs_CustomURL (n_GeoSource n)) \<rparr> \<rparr>"

definition applyKillSwitch :: "patch \<Rightarrow> KillSwitch \<Rightarrow> KillSwitch" where
  "applyKillSwitch p k =
     \<lparr> k_Enabled = set_bool p ''enabled'' (k_Enabled k),
       k_AlwaysOn = set_bool p ''alwaysOn'' (k_AlwaysOn k) \<rparr>"

definition applySubscriptions :: "(string \<Rightarrow> 64 word) \<Rightarrow> patch \<Rightarrow> Subscriptions \<Rightarrow> Subscriptions" where
  "applySubscriptions fl p s =
     \<lparr> su_DefaultUpdateInterval =
         (case as_int fl (p ''defaultUpdateInterval'') of
            None \<Rightarrow> su_DefaultUpdateInterval s | Some v \<Rightarrow> v),
       su_UserAgent = set_string p ''userAgent'' (su_UserAgent s),
       su_HWIDEnabled = set_bool p ''hwidEnabled'' (su_HWIDEnabled s),
       su_SendDeviceOS = set_bool p ''sendDeviceOS'' (su_SendDeviceOS s),
       su_SendOSVersion = set_bool p ''sendOSVersion'' (su_SendOSVersion s),
       su_SendDeviceModel = set_bool p ''sendDeviceModel'' (su_SendDeviceModel s) \<rparr>"

definition applyNotifications :: "patch \<Rightarrow> Notifications \<Rightarrow> Notifications" where
  "applyNotifications p n =
     \<lparr> no_Connected = set_bool p ''onConnected'' (no_Connected n),
       no_Disconnected = set_bool p ''onDisconnected'' (no_Disconnected n),
       no_QuotaLow = set_bool p ''quotaLow'' (no_QuotaLow n),
       no_SubUpdated = set_bool p ''onSubSynced'' (no_SubUpdated n),
       no_Sound = set_bool p ''sound'' (no_Sound n) \<rparr>"

definition applyDebug :: "patch \<Rightarrow> Debug \<Rightarrow> Debug" where
  "applyDebug p d = \<lparr> de_LogLevel = set_string p ''logLevel'' (de_LogLevel d) \<rparr>"

datatype settings_error = LoadFailed | PortsEqual int int | UnknownSection string | ConfigSaveFailed

definition validateNetwork :: "Network \<Rightarrow> settings_error option" where
  "validateNetwork n =
     (if sp_SOCKSPort (n_SysProxy n) = sp_HTTPPort (n_SysProxy n)
      then Some (PortsEqual (sp_SOCKSPort (n_SysProxy n)) (sp_HTTPPort (n_SysProxy n))) else None)"

definition applyPatch :: "(string \<Rightarrow> 64 word) \<Rightarrow> string \<Rightarrow> patch \<Rightarrow> AppConfig \<Rightarrow> settings_error + AppConfig" where
  "applyPatch fl section p c =
     (if section = ''general'' then Inr (c \<lparr> c_General := applyGeneral p (c_General c) \<rparr>)
      else if section = ''network'' then
        (let n = applyNetwork fl p (c_Network c)
         in case validateNetwork n of Some e \<Rightarrow> Inl e | None \<Rightarrow> Inr (c \<lparr> c_Network := n \<rparr>))
      else if section = ''killswitch'' then Inr (c \<lparr> c_KillSwitch := applyKillSwitch p (c_KillSwitch c) \<rparr>)
      else if section = ''subscriptions'' then
        Inr (c \<lparr> c_Subscriptions := applySubscriptions fl p (c_Subscriptions c) \<rparr>)
      else if section = ''notifications'' then
        Inr (c \<lparr> c_Notifications := applyNotifications p (c_Notifications c) \<rparr>)
      else if section = ''debug'' then Inr (c \<lparr> c_Debug := applyDebug p (c_Debug c) \<rparr>)
      else Inl (UnknownSection section))"

section \<open>buildinfo and the view\<close>

text \<open>What \<^verbatim>\<open>debug.ReadBuildInfo\<close> gives: settings by key and dependencies by path; \<open>None\<close> is not ok.\<close>

record BuildInfo =
  bi_Settings :: "(string \<times> string) list"
  bi_Deps :: "(string \<times> string) list"

definition bi_setting :: "BuildInfo option \<Rightarrow> string \<Rightarrow> string" where
  "bi_setting bi key =
     (case bi of None \<Rightarrow> []
      | Some b \<Rightarrow> (case map_of (bi_Settings b) key of None \<Rightarrow> [] | Some v \<Rightarrow> v))"

definition GitRev :: "BuildInfo option \<Rightarrow> string" where
  "GitRev bi =
     (let rev = bi_setting bi ''vcs.revision''
      in if rev = [] then []
         else take 7 rev @ (if bi_setting bi ''vcs.modified'' = ''true'' then ''-dirty'' else []))"

definition BuildDate :: "BuildInfo option \<Rightarrow> string" where
  "BuildDate bi = take 10 (bi_setting bi ''vcs.time'')"

definition depVersion :: "BuildInfo option \<Rightarrow> string \<Rightarrow> string" where
  "depVersion bi path =
     (case bi of None \<Rightarrow> []
      | Some b \<Rightarrow> (case map_of (bi_Deps b) path of None \<Rightarrow> [] | Some v \<Rightarrow> TrimPrefix v ''v''))"

text \<open>\<^verbatim>\<open>strings.TrimLeft(s, "0")\<close>, with \<^verbatim>\<open>"0"\<close> when nothing is left.\<close>

definition trim_zeros :: "string \<Rightarrow> string" where
  "trim_zeros s = (let t = dropWhile (\<lambda>c. c = CHR ''0'') s in if t = [] then ''0'' else t)"

definition xrayVersion :: "string \<Rightarrow> string" where
  "xrayVersion md =
     (case split_on (CHR ''.'') md of
        [a, d, b] \<Rightarrow>
          (if length d = 6
           then take 2 d @ ''.'' @ trim_zeros (take 2 (drop 2 d)) @ ''.'' @ trim_zeros (take 2 (drop 4 d))
           else md)
      | _ \<Rightarrow> md)"

definition Engines :: "BuildInfo option \<Rightarrow> string" where
  "Engines bi =
     (let sb = depVersion bi ''github.com/sagernet/sing-box'';
          xr = depVersion bi ''github.com/xtls/xray-core'';
          parts = (if sb \<noteq> [] then [''sing-box '' @ sb] else [])
                  @ (if xr \<noteq> [] then [''xray '' @ xrayVersion xr] else [])
      in case parts of
           [] \<Rightarrow> []
         | [x] \<Rightarrow> x
         | x # y # _ \<Rightarrow> x @ [CHR '' '', CHR 0xC2, CHR 0xB7, CHR '' ''] @ y)"

record NetworkSettings =
  ns_DefaultMode :: string
  ns_TunCIDR :: string
  ns_TunMtu :: int
  ns_TunName :: string
  ns_SocksPort :: int
  ns_HttpPort :: int
  ns_AllowLAN :: bool
  ns_IPv6Mode :: string
  ns_GeoSource :: GeoSource
  ns_DNS :: DNS

record AboutSettings =
  ab_Version :: string
  ab_GitRev :: string
  ab_BuildDate :: string
  ab_Backend :: string

record SecuritySettings =
  se_Method :: string
  se_Available :: bool
  se_Warning :: string

text \<open>
  The sections that the view copies field by field (general, geo source, DNS, kill switch,
  subscriptions, notifications, debug) have the fields of the configuration, under other JSON names.
\<close>

record SettingsView =
  sv_General :: General
  sv_Network :: NetworkSettings
  sv_KillSwitch :: KillSwitch
  sv_Subscriptions :: Subscriptions
  sv_Notifications :: Notifications
  sv_Debug :: Debug
  sv_About :: AboutSettings
  sv_Security :: SecuritySettings

definition firstNonEmpty :: "string \<Rightarrow> string \<Rightarrow> string" where
  "firstNonEmpty a b = (if a \<noteq> [] then a else b)"

text \<open>The store: the file, and what the About section needs.\<close>

record ConfigStore =
  cs_disk :: disk
  cs_version :: string
  cs_buildDate :: string
  cs_events :: "(string \<times> string) list"

definition toView :: "BuildInfo option \<Rightarrow> ConfigStore \<Rightarrow> AppConfig \<Rightarrow> SettingsView" where
  "toView bi s c =
     \<lparr> sv_General = c_General c,
       sv_Network =
         \<lparr> ns_DefaultMode = EffectiveMode (c_Network c),
           ns_TunCIDR = t_IPv4CIDR (n_TUN (c_Network c)),
           ns_TunMtu = t_MTU (n_TUN (c_Network c)),
           ns_TunName = ''ITGRay-TUN'',
           ns_SocksPort = sp_SOCKSPort (n_SysProxy (c_Network c)),
           ns_HttpPort = sp_HTTPPort (n_SysProxy (c_Network c)),
           ns_AllowLAN = n_AllowLAN (c_Network c),
           ns_IPv6Mode = n_IPv6Mode (c_Network c),
           ns_GeoSource = n_GeoSource (c_Network c),
           ns_DNS = n_DNS (c_Network c) \<rparr>,
       sv_KillSwitch = c_KillSwitch c,
       sv_Subscriptions = (c_Subscriptions c)
         \<lparr> su_UserAgent := firstNonEmpty (su_UserAgent (c_Subscriptions c)) (''ITGRay/'' @ cs_version s) \<rparr>,
       sv_Notifications = c_Notifications c,
       sv_Debug = c_Debug c,
       sv_About =
         \<lparr> ab_Version = cs_version s, ab_GitRev = GitRev bi,
           ab_BuildDate = firstNonEmpty (cs_buildDate s) (BuildDate bi), ab_Backend = Engines bi \<rparr>,
       sv_Security =
         \<lparr> se_Method = ''Unknown'', se_Available = False,
           se_Warning = ''secret-protection method detection not yet implemented'' \<rparr> \<rparr>"

definition View :: "BuildInfo option \<Rightarrow> ConfigStore \<Rightarrow> settings_error + SettingsView" where
  "View bi s = (case Config_Load (cs_disk s) of None \<Rightarrow> Inl LoadFailed | Some c \<Rightarrow> Inr (toView bi s c))"

text \<open>The mutex makes load, change and save one step. \<open>ok\<close> says whether the write succeeds.\<close>

definition UpdateSection :: "BuildInfo option \<Rightarrow> (string \<Rightarrow> 64 word) \<Rightarrow> bool \<Rightarrow> string \<Rightarrow> patch \<Rightarrow> ConfigStore
    \<Rightarrow> (settings_error + SettingsView) \<times> ConfigStore" where
  "UpdateSection bi fl ok section p s =
     (case Config_Load (cs_disk s) of
        None \<Rightarrow> (Inl LoadFailed, s)
      | Some c \<Rightarrow>
          (case applyPatch fl section p c of
             Inl e \<Rightarrow> (Inl e, s)
           | Inr c' \<Rightarrow>
               (case Config_Save ok c' (cs_disk s) of (saved, d) \<Rightarrow>
                  (if saved then (Inr (toView bi s c'), s \<lparr> cs_disk := d \<rparr>)
                   else (Inl ConfigSaveFailed, s \<lparr> cs_disk := d \<rparr>)))))"

section \<open>settings.go\<close>

definition EventSettings :: string where "EventSettings = ''settings:changed''"

text \<open>The events are the pairs of name and section that are published on the hub.\<close>

definition Settings_Update :: "BuildInfo option \<Rightarrow> (string \<Rightarrow> 64 word) \<Rightarrow> bool \<Rightarrow> string \<Rightarrow> patch \<Rightarrow> ConfigStore
    \<Rightarrow> (settings_error + SettingsView) \<times> ConfigStore" where
  "Settings_Update bi fl ok section p s =
     (case UpdateSection bi fl ok section p s of
        (Inl e, s') \<Rightarrow> (Inl e, s')
      | (Inr v, s') \<Rightarrow> (Inr v, s' \<lparr> cs_events := cs_events s' @ [(EventSettings, section)] \<rparr>))"

section \<open>chainctl/network.go\<close>

definition ClampMTU :: "int \<Rightarrow> int" where
  "ClampMTU mtu = (if mtu < 576 \<or> mtu > 9000 then 0 else mtu)"

definition ResolveDNS :: "DNS \<Rightarrow> string list" where
  "ResolveDNS d =
     (case d_Servers d of
        Some (x # xs) \<Rightarrow> (if d_Mode d = ''custom'' then x # xs else [''1.1.1.1'', ''8.8.8.8''])
      | _ \<Rightarrow> [''1.1.1.1'', ''8.8.8.8''])"

definition MapIPv6Strategy :: "string \<Rightarrow> string" where
  "MapIPv6Strategy mode =
     (if mode = ''prefer-v6'' then ''prefer_ipv6''
      else if mode = ''disabled'' then ''ipv4_only'' else ''prefer_ipv4'')"

definition FakeIPv6Range :: "string \<Rightarrow> string" where
  "FakeIPv6Range mode = (if mode = ''disabled'' then [] else ''fc00::/18'')"

definition TunIPv6OrDefault :: "string \<Rightarrow> string" where
  "TunIPv6OrDefault cidr = (if cidr \<noteq> [] then cidr else t_IPv6CIDR (n_TUN (c_Network Defaults)))"

definition DefaultNetworkLoader :: "Network option" where
  "DefaultNetworkLoader = Some (c_Network Defaults)"

definition DefaultKillSwitchLoader :: "KillSwitch option" where
  "DefaultKillSwitchLoader = Some (c_KillSwitch Defaults)"

section \<open>Round trip\<close>

definition int64_ok :: "int \<Rightarrow> bool" where
  "int64_ok n \<longleftrightarrow> - (2 ^ 63) \<le> n \<and> n \<le> 2 ^ 63 - 1"

definition ports_wf :: "SysProxy \<Rightarrow> bool" where
  "ports_wf p \<longleftrightarrow> int64_ok (sp_HTTPPort p) \<and> int64_ok (sp_SOCKSPort p)"

definition network_wf :: "Network \<Rightarrow> bool" where
  "network_wf n \<longleftrightarrow> int64_ok (t_MTU (n_TUN n)) \<and> ports_wf (n_SysProxy n)"

definition config_wf :: "AppConfig \<Rightarrow> bool" where
  "config_wf c \<longleftrightarrow> int64_ok (c_Version c) \<and> network_wf (c_Network c) \<and>
     int64_ok (su_DefaultUpdateInterval (c_Subscriptions c))"

lemma dec_int64_JNum [simp]: "int64_ok n \<Longrightarrow> dec_int64 (JNum n) m = Some n"
  by (simp add: dec_int64_def int64_ok_def)

lemma dec_nilslice_enc [simp]: "dec_nilslice (enc_nilslice xs) ys = Some xs"
  by (cases xs) (simp_all add: dec_nilslice_def enc_nilslice_def opt_all_map [where h = "\<lambda>x. x"])

lemmas section_defs =
  General_fields_def enc_General_def TUN_fields_def enc_TUN_def SysProxy_fields_def enc_SysProxy_def
  GeoSource_fields_def enc_GeoSource_def DNS_fields_def enc_DNS_def KillSwitch_fields_def
  enc_KillSwitch_def Subscriptions_fields_def enc_Subscriptions_def Notifications_fields_def
  enc_Notifications_def Debug_fields_def enc_Debug_def

lemma dec_enc_sections [simp]:
  "dec_struct General_fields (enc_General g) g0 = Some g"
  "dec_struct GeoSource_fields (enc_GeoSource gs) gs0 = Some gs"
  "dec_struct DNS_fields (enc_DNS d) d0 = Some d"
  "dec_struct KillSwitch_fields (enc_KillSwitch k) k0 = Some k"
  "dec_struct Notifications_fields (enc_Notifications n) n0 = Some n"
  "dec_struct Debug_fields (enc_Debug de) de0 = Some de"
  by (simp_all add: section_defs find_field_def fld_def)

lemma dec_enc_TUN [simp]: "int64_ok (t_MTU t) \<Longrightarrow> dec_struct TUN_fields (enc_TUN t) t0 = Some t"
  by (simp add: section_defs find_field_def fld_def)

lemma dec_enc_SysProxy [simp]: "ports_wf p \<Longrightarrow> dec_struct SysProxy_fields (enc_SysProxy p) p0 = Some p"
  by (simp add: section_defs find_field_def fld_def ports_wf_def)

lemma dec_enc_Subscriptions [simp]:
  "int64_ok (su_DefaultUpdateInterval s) \<Longrightarrow>
    dec_struct Subscriptions_fields (enc_Subscriptions s) s0 = Some s"
  by (simp add: section_defs find_field_def fld_def)

lemma dec_enc_Network [simp]: "network_wf n \<Longrightarrow> dec_struct Network_fields (enc_Network n) n0 = Some n"
  by (simp add: Network_fields_def enc_Network_def find_field_def fld_def network_wf_def)

lemma dec_enc_AppConfig:
  "config_wf c \<Longrightarrow> dec_struct AppConfig_fields (enc_AppConfig c) c0 = Some c"
  by (simp add: AppConfig_fields_def enc_AppConfig_def find_field_def fld_def config_wf_def)

interpretation cstore: json_store Config_Load Config_Save config_wf Some
  by unfold_locales (simp_all add: Config_Load_def Config_Save_def dec_enc_AppConfig)

section \<open>What is loaded fits its types\<close>

lemma find_field_in: "find_field fs k = Some d \<Longrightarrow> \<exists>n. (n, d) \<in> set fs"
  by (auto simp: find_field_def find_Some_iff split: option.splits dest!: map_of_SomeD)
     (metis nth_mem)

lemma dec_fields_inv:
  assumes "\<And>n d v r r'. (n, d) \<in> set fs \<Longrightarrow> d v r = Some r' \<Longrightarrow> P r \<Longrightarrow> P r'"
    and "dec_fields fs kvs r = Some r'" "P r"
  shows "P r'"
  using assms(2,3)
proof (induction kvs arbitrary: r)
  case (Cons kv kvs)
  obtain k v where kv: "kv = (k, v)" by fastforce
  show ?case
  proof (cases "find_field fs k")
    case None
    with Cons kv show ?thesis by simp
  next
    case (Some d)
    then obtain n where n: "(n, d) \<in> set fs" using find_field_in by blast
    from Some Cons.prems kv obtain q where q: "d v r = Some q" "dec_fields fs kvs q = Some r'"
      by (auto split: option.splits)
    from Cons.IH [OF q(2) assms(1) [OF n q(1) Cons.prems(2)]] show ?thesis .
  qed
qed simp

lemma dec_struct_inv:
  assumes "\<And>n d v r r'. (n, d) \<in> set fs \<Longrightarrow> d v r = Some r' \<Longrightarrow> P r \<Longrightarrow> P r'"
    and "dec_struct fs v r = Some r'" "P r"
  shows "P r'"
  using assms(2,3) dec_fields_inv [of fs P, OF assms(1)] by (cases v) auto

lemma fld_Some_iff: "fld get put d v r = Some r' \<longleftrightarrow> (\<exists>x. d v (get r) = Some x \<and> r' = put x r)"
  by (auto simp: fld_def split: option.splits)

lemma dec_int64_ok: "dec_int64 v n = Some m \<Longrightarrow> int64_ok n \<Longrightarrow> int64_ok m"
  by (cases v) (auto simp: dec_int64_def int64_ok_def split: if_splits)

lemma dec_TUN_ok:
  "dec_struct TUN_fields v t = Some t' \<Longrightarrow> int64_ok (t_MTU t) \<Longrightarrow> int64_ok (t_MTU t')"
  by (erule dec_struct_inv [where P = "\<lambda>t. int64_ok (t_MTU t)", rotated], assumption)
     (auto simp: TUN_fields_def fld_Some_iff elim!: dec_int64_ok)

lemma dec_SysProxy_ok:
  "dec_struct SysProxy_fields v p = Some p' \<Longrightarrow> ports_wf p \<Longrightarrow> ports_wf p'"
  by (erule dec_struct_inv [where P = ports_wf, rotated], assumption) (auto simp: SysProxy_fields_def ports_wf_def fld_Some_iff elim!: dec_int64_ok)

lemma dec_Subscriptions_ok:
  "dec_struct Subscriptions_fields v s = Some s' \<Longrightarrow> int64_ok (su_DefaultUpdateInterval s) \<Longrightarrow>
     int64_ok (su_DefaultUpdateInterval s')"
  by (erule dec_struct_inv [where P = "\<lambda>s. int64_ok (su_DefaultUpdateInterval s)", rotated], assumption)
     (auto simp: Subscriptions_fields_def fld_Some_iff elim!: dec_int64_ok)

lemma dec_Network_ok:
  "dec_struct Network_fields v n = Some n' \<Longrightarrow> network_wf n \<Longrightarrow> network_wf n'"
  by (erule dec_struct_inv [where P = network_wf, rotated], assumption)
     (auto simp: Network_fields_def network_wf_def fld_Some_iff elim!: dec_TUN_ok dec_SysProxy_ok)

lemma dec_AppConfig_ok:
  "dec_struct AppConfig_fields v c = Some c' \<Longrightarrow> config_wf c \<Longrightarrow> config_wf c'"
  by (erule dec_struct_inv [where P = config_wf, rotated], assumption)
     (auto simp: AppConfig_fields_def fld_Some_iff config_wf_def
        elim!: dec_Network_ok dec_Subscriptions_ok dec_int64_ok)

lemma config_wf_Defaults: "config_wf Defaults"
  by (simp add: config_wf_def network_wf_def ports_wf_def Defaults_def int64_ok_def)

lemma Config_Load_wf: "Config_Load f = Some c \<Longrightarrow> config_wf c"
  using config_wf_Defaults dec_AppConfig_ok by (auto simp: Config_Load_def split: disk.splits)

section \<open>What a patch keeps\<close>

lemma as_int_ok: "as_int fl v = Some n \<Longrightarrow> int64_ok n"
proof -
  have s: "int64_ok (sint w)" for w :: "64 word"
    using sint_greater_eq [of w] sint_less [of w] by (simp add: int64_ok_def)
  have "\<bar>n\<bar> \<le> 2 ^ 53 \<Longrightarrow> int64_ok n" for n by (simp add: int64_ok_def abs_le_iff)
  with s show "as_int fl v = Some n \<Longrightarrow> int64_ok n"
    by (auto simp: as_int_def split: option.splits json.splits if_splits)
qed

lemma set_ranged_cases: "set_ranged fl lo hi p k x = x \<or> lo \<le> set_ranged fl lo hi p k x \<and> set_ranged fl lo hi p k x \<le> hi"
  by (auto simp: set_ranged_def split: option.splits)

lemma set_ranged_ok:
  "int64_ok x \<Longrightarrow> - (2 ^ 63) \<le> lo \<Longrightarrow> hi \<le> 2 ^ 63 - 1 \<Longrightarrow> int64_ok (set_ranged fl lo hi p k x)"
  using set_ranged_cases [of fl lo hi p k x] by (auto simp: int64_ok_def)

lemma applyNetwork_wf: "network_wf n \<Longrightarrow> network_wf (applyNetwork fl p n)"
  by (simp add: applyNetwork_def network_wf_def ports_wf_def set_ranged_ok)

lemma applyPatch_wf: "applyPatch fl sec p c = Inr c' \<Longrightarrow> config_wf c \<Longrightarrow> config_wf c'"
  using applyNetwork_wf [of "c_Network c" fl p] as_int_ok
  by (auto simp: applyPatch_def config_wf_def Let_def applySubscriptions_def
        split: if_splits option.splits)

text \<open>The ranges that the chain needs: usable ports that differ, and an MTU that the device takes.\<close>

definition network_ok :: "Network \<Rightarrow> bool" where
  "network_ok n \<longleftrightarrow>
     1 \<le> sp_HTTPPort (n_SysProxy n) \<and> sp_HTTPPort (n_SysProxy n) \<le> 65535 \<and>
     1 \<le> sp_SOCKSPort (n_SysProxy n) \<and> sp_SOCKSPort (n_SysProxy n) \<le> 65535 \<and>
     sp_SOCKSPort (n_SysProxy n) \<noteq> sp_HTTPPort (n_SysProxy n) \<and>
     576 \<le> t_MTU (n_TUN n) \<and> t_MTU (n_TUN n) \<le> 9000"

lemma set_ranged_range:
  "lo \<le> x \<Longrightarrow> x \<le> hi \<Longrightarrow> lo \<le> set_ranged fl lo hi p k x" "lo \<le> x \<Longrightarrow> x \<le> hi \<Longrightarrow> set_ranged fl lo hi p k x \<le> hi"
  using set_ranged_cases [of fl lo hi p k x] by auto

lemma applyPatch_network_ok:
  "applyPatch fl sec p c = Inr c' \<Longrightarrow> network_ok (c_Network c) \<Longrightarrow> network_ok (c_Network c')"
  by (auto simp: applyPatch_def Let_def network_ok_def applyNetwork_def validateNetwork_def
        intro!: set_ranged_range split: if_splits)

text \<open>A patch changes its own section and no other.\<close>

definition sections_except :: "string \<Rightarrow> AppConfig \<Rightarrow> AppConfig \<Rightarrow> bool" where
  "sections_except sec c c' \<longleftrightarrow> c_Version c' = c_Version c \<and>
     (sec \<noteq> ''general'' \<longrightarrow> c_General c' = c_General c) \<and>
     (sec \<noteq> ''network'' \<longrightarrow> c_Network c' = c_Network c) \<and>
     (sec \<noteq> ''killswitch'' \<longrightarrow> c_KillSwitch c' = c_KillSwitch c) \<and>
     (sec \<noteq> ''subscriptions'' \<longrightarrow> c_Subscriptions c' = c_Subscriptions c) \<and>
     (sec \<noteq> ''notifications'' \<longrightarrow> c_Notifications c' = c_Notifications c) \<and>
     (sec \<noteq> ''debug'' \<longrightarrow> c_Debug c' = c_Debug c)"

lemma applyPatch_sections: "applyPatch fl sec p c = Inr c' \<Longrightarrow> sections_except sec c c'"
  by (auto simp: applyPatch_def sections_except_def Let_def split: if_splits option.splits)

lemma applyPatch_ports_differ:
  "applyPatch fl ''network'' p c = Inr c' \<Longrightarrow>
     sp_SOCKSPort (n_SysProxy (c_Network c')) \<noteq> sp_HTTPPort (n_SysProxy (c_Network c'))"
  by (auto simp: applyPatch_def Let_def validateNetwork_def split: if_splits option.splits)

section \<open>Properties\<close>

text \<open>The two outcomes of an update.\<close>

lemma Settings_Update_cases:
  "(\<exists>e. Settings_Update bi fl ok sec p s = (Inl e, s)) \<or>
   (\<exists>c c'. ok \<and> Config_Load (cs_disk s) = Some c \<and> applyPatch fl sec p c = Inr c' \<and> config_wf c' \<and>
      Settings_Update bi fl ok sec p s = (Inr (toView bi s c'),
        s \<lparr> cs_disk := snd (Config_Save True c' (cs_disk s)), cs_events := cs_events s @ [(EventSettings, sec)] \<rparr>))"
proof (cases "Config_Load (cs_disk s)")
  case (Some c)
  show ?thesis
  proof (cases "applyPatch fl sec p c")
    case (Inr c')
    with Some show ?thesis
      using applyPatch_wf [OF Inr Config_Load_wf [OF Some]]
      by (cases ok) (auto simp: Settings_Update_def UpdateSection_def Config_Save_def)
  qed (simp add: Settings_Update_def UpdateSection_def Some)
qed (simp add: Settings_Update_def UpdateSection_def)

definition run_updates :: "BuildInfo option \<Rightarrow> (string \<Rightarrow> 64 word) \<Rightarrow> (bool \<times> string \<times> patch) list \<Rightarrow> ConfigStore \<Rightarrow> ConfigStore" where
  "run_updates bi fl us s = foldl (\<lambda>s (ok, sec, p). snd (Settings_Update bi fl ok sec p s)) s us"

definition settings_inv :: "ConfigStore \<Rightarrow> bool" where
  "settings_inv s \<longleftrightarrow> (case Config_Load (cs_disk s) of None \<Rightarrow> False | Some c \<Rightarrow> network_ok (c_Network c))"

lemma Settings_Update_inv: "settings_inv s \<Longrightarrow> settings_inv (snd (Settings_Update bi fl ok sec p s))"
  using Settings_Update_cases [of bi fl ok sec p s] cstore.load_save applyPatch_network_ok
  by (fastforce simp: settings_inv_def)

text \<open>
  C17. From a configuration with usable ports and MTU, no sequence of settings updates (any sections, any
  patches, any failures of the disk) reaches one without: both proxy ports stay in 1..65535 and
  different, and the MTU stays in 576..9000. A first run, with no file, starts there.
\<close>

theorem settings_stay_usable:
  assumes "settings_inv s"
  shows "settings_inv (run_updates bi fl us s)"
  using assms unfolding run_updates_def
proof (induction us arbitrary: s)
  case (Cons u us)
  obtain ok sec p where u: "u = (ok, sec, p)" by (cases u) auto
  from Cons.IH [OF Settings_Update_inv [OF Cons.prems, of bi fl ok sec p]] show ?case by (simp add: u)
qed simp

definition first_store :: ConfigStore where
  "first_store = \<lparr> cs_disk = Absent, cs_version = ''1.0'', cs_buildDate = [], cs_events = [] \<rparr>"

theorem settings_stay_usable_witness:
  "settings_inv (run_updates None (\<lambda>_. 0) [(True, ''network'', [''socksPort'' \<mapsto> JNum 8888])] first_store)"
  by (rule settings_stay_usable)
     (simp add: settings_inv_def first_store_def Config_Load_def Defaults_def network_ok_def)

text \<open>
  An update either fails and leaves the file and the events as they were, or it is announced by exactly
  one event for its section, the file then holds a configuration that differs from the old one in that
  section only (for the network section, with two different ports), and the view it returns is the
  one that the next \<^verbatim>\<open>View\<close> returns.
\<close>

theorem Settings_Update_effect:
  "case Settings_Update bi fl ok sec p s of
     (Inl e, s') \<Rightarrow> s' = s
   | (Inr v, s') \<Rightarrow> ok \<and> cs_events s' = cs_events s @ [(EventSettings, sec)] \<and> View bi s' = Inr v \<and>
       (\<exists>c c'. Config_Load (cs_disk s) = Some c \<and> Config_Load (cs_disk s') = Some c' \<and>
          applyPatch fl sec p c = Inr c' \<and> sections_except sec c c' \<and>
          (sec = ''network'' \<longrightarrow>
             sp_SOCKSPort (n_SysProxy (c_Network c')) \<noteq> sp_HTTPPort (n_SysProxy (c_Network c'))))"
proof -
  consider e where "Settings_Update bi fl ok sec p s = (Inl e, s)"
    | c c' where "ok" "Config_Load (cs_disk s) = Some c" "applyPatch fl sec p c = Inr c'" "config_wf c'"
      "Settings_Update bi fl ok sec p s = (Inr (toView bi s c'),
        s \<lparr> cs_disk := snd (Config_Save True c' (cs_disk s)), cs_events := cs_events s @ [(EventSettings, sec)] \<rparr>)"
    using Settings_Update_cases by blast
  then show ?thesis
  proof cases
    case 1
    then show ?thesis by simp
  next
    case 2
    have l: "Config_Load (snd (Config_Save True c' (cs_disk s))) = Some c'" using 2(4) by (rule cstore.load_save)
    have "toView bi (s \<lparr> cs_disk := d, cs_events := es \<rparr>) c' = toView bi s c'" for d es
      by (simp add: toView_def)
    with l 2 applyPatch_sections [OF 2(3)] applyPatch_ports_differ [of fl p c c'] show ?thesis
      by (auto simp: View_def)
  qed
qed

theorem Settings_Update_effect_witness:
  "\<exists>v s'. Settings_Update None (\<lambda>_. 0) True ''network'' [''socksPort'' \<mapsto> JNum 1081] first_store = (Inr v, s')
     \<and> View None s' = Inr v"
proof -
  have "applyPatch (\<lambda>_. 0) ''network'' [''socksPort'' \<mapsto> JNum 1081] Defaults \<noteq> Inl e" for e
    by (simp add: applyPatch_def applyNetwork_def validateNetwork_def set_ranged_def as_int_def Defaults_def)
  then have "fst (Settings_Update None (\<lambda>_. 0) True ''network'' [''socksPort'' \<mapsto> JNum 1081] first_store) \<noteq> Inl e" for e
    by (auto simp: Settings_Update_def UpdateSection_def Config_Load_def first_store_def Config_Save_def
          split: sum.splits)
  then show ?thesis
    using Settings_Update_effect [where bi = None and fl = "\<lambda>_. 0" and ok = True and sec = "''network''"
        and p = "[''socksPort'' \<mapsto> JNum 1081]" and s = first_store]
    by (auto split: prod.splits sum.splits)
qed
end
