(* ===== verification/Chainctl.thy ===== *)
theory Chainctl
  imports Settings Server_Store
begin

text \<open>
  Package \<^verbatim>\<open>internal/chainctl\<close>: the controller that connects and disconnects (ctrl.go), its status
  poller (poll.go) and the record of the last session (session.go).

  The controller runs in several goroutines that share the fields under \<^verbatim>\<open>c.mu\<close>: the caller of
  \<^verbatim>\<open>Start\<close>, \<^verbatim>\<open>Stop\<close> or \<^verbatim>\<open>Reconcile\<close> (one at a time, they hold \<^verbatim>\<open>opMu\<close>) and the goroutines counted
  by \<^verbatim>\<open>c.wg\<close> (bring-up and poller). What a goroutine does is a program tree, written in the order of
  the source: a node is one call of the helper or the system proxy, one look at the outside world,
  one published event or one region under \<^verbatim>\<open>c.mu\<close>, and its children say how it goes on for each
  answer. The scheduler below runs such trees step by step, in any order and with any answers.
  Log output is left out.
\<close>

section \<open>Data\<close>

definition ModeTUN :: string where "ModeTUN = ''tun''"
definition ModeSys :: string where "ModeSys = ''sysproxy''"

definition defaultTunName :: string where "defaultTunName = ''ITGRay-TUN''"

text \<open>An error value; \<open>ErrNotifyOnly\<close> is one that wraps \<^verbatim>\<open>sysproxy.ErrNotifyOnly\<close>. \<open>None\<close> is nil.\<close>

datatype goerr = Err string | ErrNotifyOnly string

type_synonym err = "goerr option"

fun errtext :: "goerr \<Rightarrow> string" where
  "errtext (Err m) = m"
| "errtext (ErrNotifyOnly m) = m"

definition wrap :: "string \<Rightarrow> goerr \<Rightarrow> goerr" where
  "wrap pfx e = (case e of Err m \<Rightarrow> Err (pfx @ m) | ErrNotifyOnly m \<Rightarrow> ErrNotifyOnly (pfx @ m))"

text \<open>The verb \<^verbatim>\<open>%q\<close>, for a string without characters to escape.\<close>

definition quote :: "string \<Rightarrow> string" where
  "quote s = [CHR 0x22] @ s @ [CHR 0x22]"

text \<open>\<^verbatim>\<open>errors.Join\<close>\<close>

fun join :: "err \<Rightarrow> err \<Rightarrow> err" where
  "join None e = e"
| "join (Some e) None = Some e"
| "join (Some a) (Some b) = Some (Err (errtext a @ [CHR 0x0A] @ errtext b))"

lemma join_None [simp]: "join a b = None \<longleftrightarrow> a = None \<and> b = None"
  by (cases a; cases b) auto

record ChainState =
  st_CleanupPending :: bool
  st_Running :: bool
  st_UpBytes :: "64 word"
  st_DownBytes :: "64 word"
  st_LastError :: string

record sessionRecord =
  r_ServerID :: string
  r_Mode :: string
  r_At :: int

text \<open>\<^verbatim>\<open>t.UnixMilli()\<close>, for a time in nanoseconds since the zero time.\<close>

definition unix_milli :: "int \<Rightarrow> int" where
  "unix_milli t = (t - 62135596800 * 1000000000) div 1000000"

definition zero_session :: sessionRecord where
  "zero_session = \<lparr> r_ServerID = [], r_Mode = [], r_At = 0 \<rparr>"

text \<open>
  The fields under \<^verbatim>\<open>c.mu\<close>. A context is a number; \<open>k_cancel\<close> is the one whose cancel function is
  stored, \<open>k_canceled\<close> the contexts that are canceled. Times are nanoseconds since the zero time.
\<close>

record Controller =
  k_cancel :: "nat option"
  k_canceled :: "nat list"
  k_next :: nat
  k_cleanupPending :: bool
  k_cleanupMode :: string
  k_current :: "Server option"
  k_mode :: string
  k_prevUp :: "64 word"
  k_prevDown :: "64 word"
  k_prevAt :: int

type_synonym event = "string \<times> (string \<times> json) list"

definition EventVPNStatus :: string where "EventVPNStatus = ''vpn:status''"
definition EventVPNSpeed :: string where "EventVPNSpeed = ''vpn:speed''"
definition EventChainError :: string where "EventChainError = ''chain:error''"

definition StatusIdle :: string where "StatusIdle = ''idle''"
definition StatusConnecting :: string where "StatusConnecting = ''connecting''"
definition StatusConnected :: string where "StatusConnected = ''connected''"
definition StatusDisconnecting :: string where "StatusDisconnecting = ''disconnecting''"
definition StatusError :: string where "StatusError = ''error''"

definition status_event :: "string \<Rightarrow> event" where
  "status_event st = (EventVPNStatus, [(''status'', JStr st)])"

definition networkSettingsView :: "Network \<Rightarrow> json" where
  "networkSettingsView n = JObj
     [(''defaultMode'', JStr (EffectiveMode n)), (''tunCidr'', JStr (t_IPv4CIDR (n_TUN n))),
      (''tunMtu'', JNum (t_MTU (n_TUN n))), (''tunName'', JStr defaultTunName),
      (''socksPort'', JNum (sp_SOCKSPort (n_SysProxy n))), (''httpPort'', JNum (sp_HTTPPort (n_SysProxy n))),
      (''allowLan'', JBool (n_AllowLAN n)), (''ipv6Mode'', JStr (n_IPv6Mode n)),
      (''dns'', JObj [(''mode'', JStr (d_Mode (n_DNS n))), (''servers'', enc_nilslice (d_Servers (n_DNS n)))])]"

section \<open>Program trees\<close>

text \<open>The calls with an effect: the helper's, the system proxy's, and those on the session file.\<close>

datatype call = RouteSnapshot | TunCreate string string | StartChain json json string | RouteAdd string
  | DnsSet "string list" | StopChain | TunDestroy | RouteRestore | DnsRestore
  | ProxySet string string | ProxyClear | SaveSession sessionRecord | ClearSession

text \<open>What a look at the outside world may find.\<close>

record World =
  w_server :: "string \<Rightarrow> err \<times> Server option"
  w_network :: "goerr + Network"
  w_killswitch :: "goerr + KillSwitch"
  w_build :: "Server \<Rightarrow> string \<Rightarrow> Network \<Rightarrow> goerr + json \<times> json"
  w_status :: "goerr + ChainState"
  w_isSet :: "goerr + bool"
  w_session :: "goerr + sessionRecord"
  w_now :: int

text \<open>
  \<open>Rollback\<close> is a call whose error is only logged; \<open>Locked u k\<close> is a region under \<^verbatim>\<open>c.mu\<close> that
  updates the fields by \<open>u\<close> and goes on as \<open>k\<close> of what it found; \<open>Wait\<close> is \<^verbatim>\<open>c.wg.Wait\<close>, \<open>Go\<close> starts
  a goroutine that \<^verbatim>\<open>c.wg\<close> counts, and \<open>Poll\<close> is the head of the poller's loop.
\<close>

datatype prog =
    Return err
  | Do call "err \<Rightarrow> prog"
  | Rollback call "err \<Rightarrow> prog"
  | Look "World \<Rightarrow> prog"
  | Publish event prog
  | Locked "Controller \<Rightarrow> Controller" "Controller \<Rightarrow> prog"
  | Wait prog
  | Go prog prog
  | Poll nat

definition cancel_ctx :: "nat \<Rightarrow> Controller \<Rightarrow> Controller" where
  "cancel_ctx i c = c \<lparr> k_canceled := i # k_canceled c \<rparr>"

definition canceled :: "nat \<Rightarrow> Controller \<Rightarrow> bool" where
  "canceled i c \<longleftrightarrow> i \<in> set (k_canceled c)"

section \<open>Bring-up and tear-down\<close>

definition clearSysproxyBestEffort :: "(err \<Rightarrow> prog) \<Rightarrow> prog" where
  "clearSysproxyBestEffort k =
     Do ProxyClear (\<lambda>e. Look (\<lambda>w.
       k (case w_isSet w of
            Inl e' \<Rightarrow> join e (Some e')
          | Inr on \<Rightarrow> (if on then join e (Some (Err ''sysproxy still enabled after clear'')) else e))))"

definition tearDown :: "string \<Rightarrow> (err \<Rightarrow> prog) \<Rightarrow> prog" where
  "tearDown mode k =
     (let destroy = (\<lambda>r. if mode = ModeTUN
            then Do TunDestroy (\<lambda>e. k (join r (map_option (wrap ''TunDestroy: '') e)))
            else k r);
          stop = (\<lambda>r. Do StopChain (\<lambda>e. destroy (join r (map_option (wrap ''StopChain: '') e))));
          restore = (\<lambda>r. if mode = ModeTUN
            then Do DnsRestore (\<lambda>e. let r = join r (map_option (wrap ''DnsRestore: '') e) in
                 Do RouteRestore (\<lambda>e. stop (join r (map_option (wrap ''RouteRestore: '') e))))
            else stop r)
      in if mode = ModeSys then clearSysproxyBestEffort restore else restore None)"

text \<open>The address of the proxy that the system is pointed at.\<close>

definition loopback :: "int \<Rightarrow> string" where
  "loopback port = ''127.0.0.1:'' @ int_str port"

text \<open>\<open>bringUp\<close> goes on with the error, or with the mode and the network settings it used.\<close>

definition bringUp :: "Server \<Rightarrow> string \<Rightarrow> (goerr + string \<times> Network \<Rightarrow> prog) \<Rightarrow> prog" where
  "bringUp srv mode k =
     Look (\<lambda>w. case w_network w of
       Inl e \<Rightarrow> Publish (EventChainError, [(''message'', JStr (''config.Load: '' @ errtext e))])
                  (k (Inl (wrap ''config.Load: '' e)))
     | Inr net \<Rightarrow> Look (\<lambda>w. case w_build w srv mode net of
         Inl e \<Rightarrow> k (Inl (wrap ''configgen: '' e))
       | Inr (singboxJSON, xrayJSON) \<Rightarrow>
          (let done = Locked (\<lambda>c. c \<lparr> k_mode := mode \<rparr>) (\<lambda>c. k (Inr (mode, net)));
               post_tun = Do (RouteAdd (v_Address (s_Vless srv))) (\<lambda>e. case e of
                   Some e \<Rightarrow> Rollback StopChain (\<lambda>_. Rollback TunDestroy (\<lambda>_. Rollback RouteRestore (\<lambda>_.
                              k (Inl (wrap ''RouteAdd: '' e)))))
                 | None \<Rightarrow> Do (DnsSet (ResolveDNS (n_DNS net))) (\<lambda>e. case e of
                       Some e \<Rightarrow> Rollback StopChain (\<lambda>_. Rollback RouteRestore (\<lambda>_. Rollback TunDestroy (\<lambda>_.
                                  k (Inl (wrap ''DnsSet: '' e)))))
                     | None \<Rightarrow> done));
               post_sys = Do (ProxySet (loopback (sp_SOCKSPort (n_SysProxy net)))
                                       (loopback (sp_HTTPPort (n_SysProxy net)))) (\<lambda>e. case e of
                   None \<Rightarrow> done
                 | Some (ErrNotifyOnly _) \<Rightarrow> done
                 | Some e \<Rightarrow> Rollback StopChain (\<lambda>_. Locked (\<lambda>c. c) (\<lambda>c.
                     if k_cleanupPending c then k (Inl (wrap ''sysproxy.Set: '' e))
                     else clearSysproxyBestEffort (\<lambda>_. k (Inl (wrap ''sysproxy.Set: '' e))))));
               start = Do (StartChain singboxJSON xrayJSON mode) (\<lambda>e. case e of
                   Some e \<Rightarrow> (if mode = ModeTUN
                              then Rollback TunDestroy (\<lambda>_. Rollback RouteRestore (\<lambda>_.
                                     k (Inl (wrap ''StartChain: '' e))))
                              else k (Inl (wrap ''StartChain: '' e)))
                 | None \<Rightarrow> (if mode = ModeTUN then post_tun else post_sys))
           in if mode = ModeTUN
              then Do RouteSnapshot (\<lambda>e. case e of
                  Some e \<Rightarrow> k (Inl (wrap ''RouteSnapshot: '' e))
                | None \<Rightarrow> Do (TunCreate defaultTunName (t_IPv4CIDR (n_TUN net))) (\<lambda>e. case e of
                    Some e \<Rightarrow> Rollback RouteRestore (\<lambda>_. k (Inl (wrap ''TunCreate: '' e)))
                  | None \<Rightarrow> start))
              else start)))"

section \<open>Start\<close>

text \<open>The body of the goroutine that \<^verbatim>\<open>Start\<close> launches, under the context \<open>i\<close>.\<close>

definition start_failed :: "nat \<Rightarrow> goerr \<Rightarrow> prog" where
  "start_failed i e =
     Publish (EventChainError, [(''kind'', JStr ''bringup_failed''), (''message'', JStr (errtext e))])
       (Locked (\<lambda>c. (cancel_ctx i c) \<lparr> k_cancel := None, k_current := None \<rparr>)
          (\<lambda>c. Publish (status_event (if k_cleanupPending c then StatusError else StatusIdle))
                 (Return None)))"

definition start_connected :: "nat \<Rightarrow> Server \<Rightarrow> string \<Rightarrow> Network \<Rightarrow> prog" where
  "start_connected i srv mode net =
     (let persist = Look (\<lambda>w. Do (SaveSession \<lparr> r_ServerID = s_ID srv, r_Mode = mode, r_At = w_now w \<rparr>)
            (\<lambda>_. Look (\<lambda>w. Publish (EventVPNStatus,
                 [(''status'', JStr StatusConnected), (''serverId'', JStr (s_ID srv)), (''mode'', JStr mode),
                  (''network'', networkSettingsView net), (''connectedAt'', JNum (unix_milli (w_now w)))])
              (Poll i))));
          settle = (\<lambda>e. case e of
              None \<Rightarrow> Locked (\<lambda>c. c \<lparr> k_cleanupPending := False \<rparr>) (\<lambda>_. persist)
            | Some _ \<Rightarrow> persist)
      in Locked (\<lambda>c. c) (\<lambda>c.
           if k_cleanupPending c \<and> k_cleanupMode c = ModeSys \<and> mode \<noteq> ModeSys
           then clearSysproxyBestEffort settle else settle None))"

definition start_goroutine :: "nat \<Rightarrow> Server \<Rightarrow> string \<Rightarrow> prog" where
  "start_goroutine i srv mode =
     bringUp srv mode (\<lambda>r. Locked (\<lambda>c. c) (\<lambda>c.
       if canceled i c then Return None
       else case r of
              Inl e \<Rightarrow> start_failed i e
            | Inr (m, net) \<Rightarrow> start_connected i srv m net))"

text \<open>\<^verbatim>\<open>context.WithCancel\<close> and the fields of a new attempt.\<close>

definition claim :: "Server \<Rightarrow> string \<Rightarrow> int \<Rightarrow> 64 word \<Rightarrow> 64 word \<Rightarrow> Controller \<Rightarrow> Controller" where
  "claim srv mode now up down c =
     c \<lparr> k_cancel := Some (k_next c), k_next := Suc (k_next c),
         k_canceled := removeAll (k_next c) (k_canceled c),
         k_current := Some srv, k_mode := mode, k_prevAt := now, k_prevUp := up, k_prevDown := down \<rparr>"

definition launch :: "Server \<Rightarrow> string \<Rightarrow> nat \<Rightarrow> prog" where
  "launch srv mode i =
     Publish (status_event StatusConnecting) (Go (start_goroutine i srv mode) (Return None))"

text \<open>
  The look-up of the server has no effect, so it is made before the lock is taken; a region of the
  lock is then one step. The region ends early when a clean-up is pending, to wait for the last
  goroutine, and is entered again.
\<close>

definition Start :: "string \<Rightarrow> string \<Rightarrow> prog" where
  "Start serverID mode = Look (\<lambda>w. case w_server w serverID of (e, found) \<Rightarrow>
     Locked (\<lambda>c. if k_cancel c \<noteq> None \<or> e \<noteq> None \<or> k_cleanupPending c then c
                else case found of None \<Rightarrow> c | Some srv \<Rightarrow> claim srv mode (w_now w) 0 0 c)
       (\<lambda>c. if k_cancel c \<noteq> None then Return (Some (Err ''chainctl: already connected''))
            else case e of Some e \<Rightarrow> Return (Some e)
            | None \<Rightarrow> (case found of
                None \<Rightarrow> Return (Some (Err (''chainctl: server '' @ quote serverID @ '' not found'')))
              | Some srv \<Rightarrow>
                 (if k_cleanupPending c
                  then Wait (Look (\<lambda>w. Locked (claim srv mode (w_now w) 0 0) (\<lambda>c. launch srv mode (k_next c))))
                  else launch srv mode (k_next c)))))"

section \<open>Stop\<close>

text \<open>The end of \<^verbatim>\<open>Stop\<close>, for the joined errors of the clean-up.\<close>

definition stop_finish :: "bool \<Rightarrow> string \<Rightarrow> err \<Rightarrow> prog" where
  "stop_finish pending mode r =
     (case r of
        Some e \<Rightarrow>
          Locked (\<lambda>c. if pending then c \<lparr> k_cleanupPending := True \<rparr>
                     else c \<lparr> k_cleanupPending := True, k_cleanupMode := mode \<rparr>)
            (\<lambda>_. Publish (status_event StatusError) (Return (Some e)))
      | None \<Rightarrow>
          Locked (\<lambda>c. c \<lparr> k_cleanupPending := False \<rparr>)
            (\<lambda>_. Publish (status_event StatusIdle) (Do ClearSession (\<lambda>_. Return None))))"

definition stop_tear :: "bool \<Rightarrow> string \<Rightarrow> string \<Rightarrow> prog" where
  "stop_tear pending previousMode mode =
     Publish (status_event StatusDisconnecting) (Wait (tearDown mode (\<lambda>r.
       if pending \<and> previousMode = ModeSys \<and> mode \<noteq> ModeSys
       then clearSysproxyBestEffort (\<lambda>r'. stop_finish pending mode (join r r'))
       else stop_finish pending mode r)))"

definition Stop :: prog where
  "Stop = Locked (\<lambda>c. c \<lparr> k_cleanupPending := False, k_cancel := None, k_current := None \<rparr>)
     (\<lambda>c. case k_cancel c of
            None \<Rightarrow> (if k_cleanupPending c
                     then stop_tear True (k_cleanupMode c) (k_mode c) else Return None)
          | Some i \<Rightarrow> Locked (cancel_ctx i) (\<lambda>_. stop_tear (k_cleanupPending c) (k_cleanupMode c) (k_mode c)))"

section \<open>Status\<close>

definition Status :: "Controller \<Rightarrow> string \<times> Server option \<times> string" where
  "Status c =
     (if k_cleanupPending c \<and> k_cancel c = None then (StatusError, None, k_mode c)
      else if k_cancel c = None then (StatusIdle, None, [])
      else (StatusConnected, k_current c, k_mode c))"

definition ActiveServerID :: "Controller \<Rightarrow> string" where
  "ActiveServerID c = (case fst (snd (Status c)) of None \<Rightarrow> [] | Some srv \<Rightarrow> s_ID srv)"

definition LastSession :: "goerr + sessionRecord \<Rightarrow> string \<times> string" where
  "LastSession r = (case r of Inl _ \<Rightarrow> ([], []) | Inr rec \<Rightarrow> (r_ServerID rec, r_Mode rec))"

section \<open>The poller\<close>

text \<open>\<^verbatim>\<open>now.Sub(prev)\<close> saturates; \<open>fd\<close> divides a byte count by a duration in \<^verbatim>\<open>float64\<close>.\<close>

definition sub_time :: "int \<Rightarrow> int \<Rightarrow> int" where
  "sub_time a b = max (- (2 ^ 63)) (min (2 ^ 63 - 1) (a - b))"

text \<open>The zero time lies in year 1, which has 365 days.\<close>

definition year_after_1 :: "int \<Rightarrow> bool" where
  "year_after_1 t \<longleftrightarrow> 365 * 86400 * 1000000000 \<le> t"

definition speed :: "(64 word \<Rightarrow> int \<Rightarrow> 64 word) \<Rightarrow> int \<Rightarrow> int \<Rightarrow> 64 word \<Rightarrow> 64 word \<Rightarrow> 64 word" where
  "speed fd now prevAt cur prev =
     (if sub_time now prevAt > 0 \<and> year_after_1 prevAt \<and> cur \<ge> prev
      then fd (cur - prev) (sub_time now prevAt) else 0)"

definition poll_crashed :: "nat \<Rightarrow> ChainState \<Rightarrow> prog" where
  "poll_crashed i st =
     Publish (EventChainError, [(''kind'', JStr ''chain_crashed''), (''message'', JStr (st_LastError st))])
       (Look (\<lambda>w. let blocking = (case w_killswitch w of Inl _ \<Rightarrow> True | Inr ks \<Rightarrow> k_Enabled ks) in
          Locked (\<lambda>c. if canceled i c \<or> k_cancel c = None then c
                     else if blocking
                       then (cancel_ctx (the (k_cancel c)) c) \<lparr> k_cancel := None, k_cleanupPending := True,
                              k_cleanupMode := k_mode c, k_current := None \<rparr>
                     else c \<lparr> k_current := None \<rparr>)
            (\<lambda>c. if canceled i c \<or> k_cancel c = None then Return None
                 else if blocking then Publish (status_event StatusError) (Return None)
                 else let mode = k_mode c in tearDown mode (\<lambda>e.
                   Locked (\<lambda>c. let c = (if e = None then c
                                       else c \<lparr> k_cleanupPending := True, k_cleanupMode := mode \<rparr>)
                              in case k_cancel c of None \<Rightarrow> c
                                 | Some j \<Rightarrow> (cancel_ctx j c) \<lparr> k_cancel := None \<rparr>)
                     (\<lambda>_. Publish (status_event (if e = None then StatusIdle else StatusError)) (Return None))))))"

definition pollTick :: "(64 word \<Rightarrow> int \<Rightarrow> 64 word) \<Rightarrow> nat \<Rightarrow> int \<Rightarrow> prog" where
  "pollTick fd i now =
     Look (\<lambda>w. Locked (\<lambda>c. c) (\<lambda>c.
       if canceled i c then Return None
       else case w_status w of
              Inl _ \<Rightarrow> Poll i
            | Inr st \<Rightarrow>
                (if \<not> st_Running st then poll_crashed i st
                 else Locked (\<lambda>c. c \<lparr> k_prevAt := now, k_prevUp := st_UpBytes st, k_prevDown := st_DownBytes st \<rparr>)
                        (\<lambda>c. Publish (EventVPNSpeed,
                               [(''upBps'', JNum (uint (speed fd now (k_prevAt c) (st_UpBytes st) (k_prevUp c)))),
                                (''downBps'', JNum (uint (speed fd now (k_prevAt c) (st_DownBytes st) (k_prevDown c))))])
                             (Poll i)))))"

section \<open>Reconcile\<close>

definition Reconcile :: prog where
  "Reconcile = Look (\<lambda>w. case w_session w of
      Inl _ \<Rightarrow> Return None
    | Inr rec \<Rightarrow>
       (if r_ServerID rec = [] then Return None
        else Look (\<lambda>w.
          let prefill = (\<lambda>srv. Locked (\<lambda>c. c \<lparr> k_current := Some srv, k_mode := r_Mode rec \<rparr>) (\<lambda>_. Return None));
              adopt = (\<lambda>srv st now. Locked (claim srv (r_Mode rec) now (st_UpBytes st) (st_DownBytes st)) (\<lambda>c.
                Look (\<lambda>w. Publish (EventVPNStatus,
                    [(''status'', JStr StatusConnected), (''serverId'', JStr (s_ID srv)),
                     (''mode'', JStr (r_Mode rec)), (''connectedAt'', JNum (unix_milli (r_At rec)))]
                    @ (case w_network w of Inl _ \<Rightarrow> [] | Inr net \<Rightarrow> [(''network'', networkSettingsView net)]))
                  (Go (Poll (k_next c)) (Return None)))))
          in case w_status w of
               Inr st \<Rightarrow>
                 (if st_CleanupPending st
                  then Locked (\<lambda>c. c \<lparr> k_current := None, k_mode := r_Mode rec, k_cleanupMode := r_Mode rec,
                                       k_cleanupPending := True \<rparr>)
                         (\<lambda>_. Publish (status_event StatusError) (Return None))
                  else Look (\<lambda>w'. case w_server w' (r_ServerID rec) of
                      (None, Some srv) \<Rightarrow>
                        (if \<not> st_Running st
                         then (if r_Mode rec = ModeSys then clearSysproxyBestEffort (\<lambda>_. prefill srv)
                               else prefill srv)
                         else adopt srv st (w_now w'))
                    | _ \<Rightarrow> Do ClearSession (\<lambda>_. Return None)))
             | Inl _ \<Rightarrow> Look (\<lambda>w'. case w_server w' (r_ServerID rec) of
                      (None, Some srv) \<Rightarrow> prefill srv
                    | _ \<Rightarrow> Do ClearSession (\<lambda>_. Return None)))))"

section \<open>stop\_result.go\<close>

record stop_result =
  sr_Status :: string
  sr_PartialErrors :: "string list"

definition stop_result_fields :: "stop_result fields" where
  "stop_result_fields =
     [(''status'', fld sr_Status (\<lambda>x. sr_Status_update (\<lambda>_. x)) dec_string),
      (''partial_errors'', fld sr_PartialErrors (\<lambda>x. sr_PartialErrors_update (\<lambda>_. x)) (dec_slice dec_string []))]"

fun join_with :: "string \<Rightarrow> string list \<Rightarrow> string" where
  "join_with sep [] = []"
| "join_with sep [x] = x"
| "join_with sep (x # xs) = x @ sep @ join_with sep xs"

text \<open>\<open>raw\<close> is the parsed result; \<open>None\<close> is text that is not JSON.\<close>

definition checkStopResult :: "json option \<Rightarrow> err" where
  "checkStopResult raw =
     (case Option.bind raw (\<lambda>j. dec_struct stop_result_fields j \<lparr> sr_Status = [], sr_PartialErrors = [] \<rparr>) of
        None \<Rightarrow> Some (Err ''decode StopChain result'')
      | Some r \<Rightarrow>
          (if sr_PartialErrors r \<noteq> []
           then Some (Err (''StopChain cleanup incomplete: '' @ join_with ''; '' (sr_PartialErrors r)))
           else if sr_Status r \<noteq> ''stopped'' \<and> sr_Status r \<noteq> ''no-active-chain''
             then Some (Err (''unexpected StopChain status: '' @ quote (sr_Status r)))
           else None))"

section \<open>The scheduler\<close>

text \<open>
  What the goroutines share. Beside the controller's fields, the events and the session file, it
  records what the calls have done outside: \<open>h_live\<close>, a chain was started that no \<^verbatim>\<open>StopChain\<close> has stopped
  since; \<open>h_proxy\<close>, the system proxy is on; \<open>h_known\<close>, what the controller can know of the chain, which takes a roll-back to
  have worked and a failed \<^verbatim>\<open>StartChain\<close> to have started nothing; \<open>h_leaks\<close>, how many times that was wrong.
\<close>

record Shared =
  h_ctl :: Controller
  h_events :: "event list"
  h_session :: sessionRecord
  h_live :: bool
  h_known :: bool
  h_proxy :: bool
  h_leaks :: nat

text \<open>
  The effect of a call that returned \<open>e\<close>. A failed \<^verbatim>\<open>Set\<close> may have switched the proxy on, and \<^verbatim>\<open>Clear\<close>
  may leave it on, whatever it returns; a failed \<^verbatim>\<open>StartChain\<close> may have started the chain; \<open>flag\<close> decides.
\<close>

fun live_after :: "call \<Rightarrow> err \<Rightarrow> bool \<Rightarrow> bool" where
  "live_after (StartChain _ _ _) e l = (if e = None then True else l)"
| "live_after StopChain e l = (if e = None then False else l)"
| "live_after _ e l = l"

fun proxy_after :: "call \<Rightarrow> err \<Rightarrow> bool \<Rightarrow> bool \<Rightarrow> bool" where
  "proxy_after (ProxySet _ _) e flag p =
     (case e of None \<Rightarrow> True | Some (ErrNotifyOnly _) \<Rightarrow> True | Some (Err _) \<Rightarrow> p \<or> flag)"
| "proxy_after ProxyClear e flag p = (p \<and> flag)"
| "proxy_after _ e flag p = p"

fun session_after :: "call \<Rightarrow> err \<Rightarrow> sessionRecord \<Rightarrow> sessionRecord" where
  "session_after (SaveSession r) e old = (if e = None then r else old)"
| "session_after ClearSession e old = (if e = None then zero_session else old)"
| "session_after _ e old = old"

fun started_unseen :: "call \<Rightarrow> err \<Rightarrow> bool \<Rightarrow> bool" where
  "started_unseen (StartChain _ _ _) e flag = (e \<noteq> None \<and> flag)"
| "started_unseen _ e flag = False"

definition after_call :: "call \<Rightarrow> err \<Rightarrow> bool \<Rightarrow> Shared \<Rightarrow> Shared" where
  "after_call x e flag s =
     s \<lparr> h_live := live_after x e (h_live s) \<or> started_unseen x e flag, h_known := live_after x e (h_known s),
         h_leaks := (if started_unseen x e flag then Suc (h_leaks s) else h_leaks s), h_proxy := proxy_after x e flag (h_proxy s),
         h_session := session_after x e (h_session s) \<rparr>"

definition leaked :: "call \<Rightarrow> err \<Rightarrow> bool" where
  "leaked x e \<longleftrightarrow> x = StopChain \<and> e \<noteq> None"

definition after_rollback :: "call \<Rightarrow> err \<Rightarrow> bool \<Rightarrow> Shared \<Rightarrow> Shared" where
  "after_rollback x e flag s =
     (let s = after_call x e flag s in
      s \<lparr> h_known := h_known s \<and> x \<noteq> StopChain, h_leaks := (if leaked x e then Suc (h_leaks s) else h_leaks s) \<rparr>)"

text \<open>A look is answered truly about the proxy and the session file, if it is answered.\<close>

definition consistent :: "World \<Rightarrow> Shared \<Rightarrow> bool" where
  "consistent w s \<longleftrightarrow>
     (case w_isSet w of Inl _ \<Rightarrow> True | Inr on \<Rightarrow> on = h_proxy s) \<and>
     (case w_session w of Inl _ \<Rightarrow> True | Inr r \<Rightarrow> r = h_session s)"

record answer =
  a_err :: err
  a_flag :: bool
  a_world :: World

text \<open>
  One step of a goroutine by itself; \<open>None\<close> when it has none. At the head of the poller's loop it
  takes the tick of the clock (\<open>a_flag\<close>) or sees that its context is done.
\<close>

fun step :: "(64 word \<Rightarrow> int \<Rightarrow> 64 word) \<Rightarrow> answer \<Rightarrow> prog \<Rightarrow> Shared \<Rightarrow> (prog \<times> Shared) option" where
  "step fd a (Do x k) s = Some (k (a_err a), after_call x (a_err a) (a_flag a) s)"
| "step fd a (Rollback x k) s =
     Some (k (a_err a), after_rollback x (a_err a) (a_flag a) s)"
| "step fd a (Look f) s = (if consistent (a_world a) s then Some (f (a_world a), s) else None)"
| "step fd a (Publish e p) s = Some (p, s \<lparr> h_events := h_events s @ [e] \<rparr>)"
| "step fd a (Locked u k) s = Some (k (h_ctl s), s \<lparr> h_ctl := u (h_ctl s) \<rparr>)"
| "step fd a (Poll i) s =
     (if a_flag a then Some (pollTick fd i (w_now (a_world a)), s)
      else if canceled i (h_ctl s) then Some (Return None, s) else None)"
| "step fd a _ s = None"

text \<open>The holder of \<^verbatim>\<open>opMu\<close>, if any, and the goroutines that \<^verbatim>\<open>c.wg\<close> counts.\<close>

record System =
  y_shared :: Shared
  y_op :: "prog option"
  y_gors :: "prog list"

datatype request = ReqStart string string | ReqStop

fun request_prog :: "request \<Rightarrow> prog" where
  "request_prog (ReqStart i m) = Start i m"
| "request_prog ReqStop = Stop"

datatype choice = Begin request | OpStep answer | GorStep nat answer

fun op_step :: "(64 word \<Rightarrow> int \<Rightarrow> 64 word) \<Rightarrow> answer \<Rightarrow> prog \<Rightarrow> System \<Rightarrow> System option" where
  "op_step fd a (Return e) y = Some (y \<lparr> y_op := None \<rparr>)"
| "op_step fd a (Wait p) y = (if y_gors y = [] then Some (y \<lparr> y_op := Some p \<rparr>) else None)"
| "op_step fd a (Go g p) y = Some (y \<lparr> y_op := Some p, y_gors := y_gors y @ [g] \<rparr>)"
| "op_step fd a p y =
     (case step fd a p (y_shared y) of
        None \<Rightarrow> None
      | Some (p', s') \<Rightarrow> Some (y \<lparr> y_op := Some p', y_shared := s' \<rparr>))"

fun gor_step :: "(64 word \<Rightarrow> int \<Rightarrow> 64 word) \<Rightarrow> nat \<Rightarrow> answer \<Rightarrow> prog \<Rightarrow> System \<Rightarrow> System option" where
  "gor_step fd i a (Return e) y = Some (y \<lparr> y_gors := remove_at i (y_gors y) \<rparr>)"
| "gor_step fd i a p y =
     (case step fd a p (y_shared y) of
        None \<Rightarrow> None
      | Some (p', s') \<Rightarrow> Some (y \<lparr> y_gors := (y_gors y)[i := p'], y_shared := s' \<rparr>))"

fun sys_step :: "(64 word \<Rightarrow> int \<Rightarrow> 64 word) \<Rightarrow> choice \<Rightarrow> System \<Rightarrow> System option" where
  "sys_step fd (Begin r) y =
     (case y_op y of None \<Rightarrow> Some (y \<lparr> y_op := Some (request_prog r) \<rparr>) | Some _ \<Rightarrow> None)"
| "sys_step fd (OpStep a) y = (case y_op y of None \<Rightarrow> None | Some p \<Rightarrow> op_step fd a p y)"
| "sys_step fd (GorStep i a) y =
     (if i < length (y_gors y) then gor_step fd i a (y_gors y ! i) y else None)"

definition zero_Controller :: Controller where
  "zero_Controller = \<lparr> k_cancel = None, k_canceled = [], k_next = 0, k_cleanupPending = False,
     k_cleanupMode = [], k_current = None, k_mode = [], k_prevUp = 0, k_prevDown = 0, k_prevAt = 0 \<rparr>"

text \<open>
  The bridge calls \<^verbatim>\<open>Reconcile\<close> once, before it serves requests. The session file is what the last
  run left.
\<close>

definition boot :: "sessionRecord \<Rightarrow> bool \<Rightarrow> System" where
  "boot sess proxy =
     \<lparr> y_shared = \<lparr> h_ctl = zero_Controller, h_events = [], h_session = sess, h_live = False,
                     h_known = False, h_proxy = proxy, h_leaks = 0 \<rparr>,
       y_op = Some Reconcile, y_gors = [] \<rparr>"

inductive reachable :: "(64 word \<Rightarrow> int \<Rightarrow> 64 word) \<Rightarrow> System \<Rightarrow> bool" for fd where
  at_boot: "reachable fd (boot sess proxy)"
| by_step: "reachable fd y \<Longrightarrow> sys_step fd ch y = Some y' \<Longrightarrow> reachable fd y'"

end
