(* ===== verification/Chainctl_Safety.thy ===== *)
theory Chainctl_Safety
  imports Chainctl
begin

text \<open>
  Safety of the controller under every interleaving. The states that matter are two: \<open>owned i b\<close>,
  the attempt of context \<open>i\<close> is under way and nobody has canceled it (\<open>b\<close>: it has started the chain), and
  \<open>quiet\<close>, no attempt owns the controller. In both, a live chain is accounted for. The predicates on
  program trees below say what a goroutine may still do in each of the two; \<^verbatim>\<open>Stop\<close> breaks them while
  it waits for the goroutines, and has to establish \<open>quiet\<close> by itself when it has waited.
\<close>

section \<open>Predicates on states and trees\<close>

definition owned :: "nat \<Rightarrow> bool \<Rightarrow> bool \<Rightarrow> Controller \<Rightarrow> bool" where
  "owned i b live c \<longleftrightarrow> k_cancel c = Some i \<and> \<not> canceled i c \<and> (live \<longrightarrow> k_cleanupPending c \<or> b)"

definition quiet :: "bool \<Rightarrow> Controller \<Rightarrow> bool" where
  "quiet live c \<longleftrightarrow> k_cancel c = None \<and> (live \<longrightarrow> k_cleanupPending c)"

text \<open>A goroutine that has given up its attempt only publishes and returns.\<close>

primrec closing :: "prog \<Rightarrow> bool" where
  "closing (Return e) = True"
| "closing (Publish e p) = closing p"
| "closing (Do x k) = False"
| "closing (Rollback x k) = False"
| "closing (Look f) = False"
| "closing (Locked u k) = False"
| "closing (Wait p) = False"
| "closing (Go g p) = False"
| "closing (Poll i) = False"

text \<open>A goroutine that runs the attempt \<open>i\<close>: it keeps \<open>owned\<close>, or turns it into \<open>quiet\<close> and is closing.\<close>

primrec acting :: "nat \<Rightarrow> prog \<Rightarrow> bool \<Rightarrow> bool" where
  "acting i (Return e) b = False"
| "acting i (Publish e p) b = acting i p b"
| "acting i (Do x k) b = (\<forall>e. acting i (k e) (live_after x e b))"
| "acting i (Rollback x k) b = (\<forall>e. acting i (k e) (live_after x e b \<and> x \<noteq> StopChain))"
| "acting i (Look f) b = (\<forall>w. acting i (f w) b)"
| "acting i (Locked u k) b = (\<forall>c live. owned i b live c \<longrightarrow>
     owned i b live (u c) \<and> acting i (k c) b \<or> quiet live (u c) \<and> closing (k c))"
| "acting i (Wait p) b = False"
| "acting i (Go g p) b = False"
| "acting i (Poll j) b = (j = i)"

text \<open>An operation that is alone and has to end with \<open>quiet\<close>.\<close>

primrec restores :: "prog \<Rightarrow> Controller \<Rightarrow> bool \<Rightarrow> bool" where
  "restores (Return e) c live = quiet live c"
| "restores (Publish e p) c live = restores p c live"
| "restores (Do x k) c live = (\<forall>e. restores (k e) c (live_after x e live))"
| "restores (Rollback x k) c live = (\<forall>e. restores (k e) c (live_after x e live \<and> x \<noteq> StopChain))"
| "restores (Look f) c live = (\<forall>w. restores (f w) c live)"
| "restores (Locked u k) c live = restores (k c) (u c) live"
| "restores (Wait p) c live = False"
| "restores (Go g p) c live = False"
| "restores (Poll i) c live = False"

text \<open>An operation that has canceled the attempt and will wait for it.\<close>

primrec stopping :: "prog \<Rightarrow> bool" where
  "stopping (Return e) = False"
| "stopping (Publish e p) = stopping p"
| "stopping (Do x k) = False"
| "stopping (Rollback x k) = False"
| "stopping (Look f) = False"
| "stopping (Locked u k) = ((\<forall>c. stopping (k c)) \<and> (\<forall>c. k_cancel (u c) = k_cancel c))"
| "stopping (Wait p) = (\<forall>c live. k_cancel c = None \<longrightarrow> restores p c live)"
| "stopping (Go g p) = False"
| "stopping (Poll i) = False"

text \<open>No goroutine takes the controller back once it is released.\<close>

primrec harmless :: "prog \<Rightarrow> bool" where
  "harmless (Return e) = True"
| "harmless (Publish e p) = harmless p"
| "harmless (Do x k) = (\<forall>e. harmless (k e))"
| "harmless (Rollback x k) = (\<forall>e. harmless (k e))"
| "harmless (Look f) = (\<forall>w. harmless (f w))"
| "harmless (Locked u k) = (\<forall>c. harmless (k c) \<and> (k_cancel c = None \<longrightarrow> k_cancel (u c) = None))"
| "harmless (Wait p) = False"
| "harmless (Go g p) = False"
| "harmless (Poll i) = True"

text \<open>An operation that has claimed the controller for the attempt \<open>i\<close> and will launch it.\<close>

primrec launching :: "nat \<Rightarrow> prog \<Rightarrow> bool" where
  "launching i (Return e) = False"
| "launching i (Publish e p) = launching i p"
| "launching i (Do x k) = False"
| "launching i (Rollback x k) = False"
| "launching i (Look f) = (\<forall>w. launching i (f w))"
| "launching i (Locked u k) = False"
| "launching i (Wait p) = False"
| "launching i (Go g p) = (acting i g False \<and> harmless g \<and> (\<exists>e. p = Return e))"
| "launching i (Poll j) = False"

text \<open>An operation that found the controller quiet.\<close>

primrec quiet_op :: "prog \<Rightarrow> bool" where
  "quiet_op (Return e) = True"
| "quiet_op (Publish e p) = quiet_op p"
| "quiet_op (Do x k) = (\<forall>e. quiet_op (k e) \<and> (\<forall>l. live_after x e l = l))"
| "quiet_op (Rollback x k) = False"
| "quiet_op (Look f) = (\<forall>w. quiet_op (f w))"
| "quiet_op (Locked u k) = (\<forall>c live. quiet live c \<longrightarrow>
     quiet live (u c) \<and> quiet_op (k c) \<or>
     (\<exists>i. owned i False live (u c) \<and> launching i (k c)))"
| "quiet_op (Wait p) = quiet_op p"
| "quiet_op (Go g p) = False"
| "quiet_op (Poll i) = False"

text \<open>An operation that has not yet looked at the controller, or was refused.\<close>

primrec entering :: "prog \<Rightarrow> bool" where
  "entering (Return e) = True"
| "entering (Publish e p) = False"
| "entering (Do x k) = False"
| "entering (Rollback x k) = False"
| "entering (Look f) = (\<forall>w. entering (f w))"
| "entering (Locked u k) =
     ((\<forall>c i b live. owned i b live c \<longrightarrow>
         owned i b live (u c) \<and> entering (k c) \<or> k_cancel (u c) = None \<and> stopping (k c)) \<and>
      (\<forall>c live. quiet live c \<longrightarrow>
         quiet live (u c) \<and> quiet_op (k c) \<or>
         (\<exists>i. owned i False live (u c) \<and> launching i (k c)) \<or>
         k_cancel (u c) = None \<and> stopping (k c)))"
| "entering (Wait p) = False"
| "entering (Go g p) = False"
| "entering (Poll i) = False"

section \<open>The programs satisfy them\<close>

lemmas tree_simps = clearSysproxyBestEffort_def tearDown_def bringUp_def Let_def

lemma acting_clear:
  "(\<And>e. acting i (k e) b) \<Longrightarrow> acting i (clearSysproxyBestEffort k) b"
  by (auto simp: clearSysproxyBestEffort_def split: sum.splits)

lemma acting_tearDown:
  assumes "\<And>e b'. e = None \<longrightarrow> \<not> b' \<Longrightarrow> acting i (k e) b'"
  shows "acting i (tearDown mode k) b"
  using assms by (auto simp: tearDown_def Let_def intro!: acting_clear)

lemma owned_mode [simp]: "owned i b live (c \<lparr> k_mode := m \<rparr>) = owned i b live c"
  by (simp add: owned_def canceled_def)

lemma acting_bringUp:
  assumes "\<And>e. acting i (k (Inl e)) False" "\<And>m net. acting i (k (Inr (m, net))) True"
  shows "acting i (bringUp srv mode k) False"
  using assms
  by (auto simp: bringUp_def Let_def intro!: acting_clear split: sum.splits option.splits goerr.splits)

lemma acting_start_failed: "acting i (start_failed i e) False"
  by (auto simp: start_failed_def owned_def quiet_def cancel_ctx_def)

lemma acting_start_connected: "acting i (start_connected i srv m net) True"
  by (auto simp: start_connected_def Let_def owned_def canceled_def intro!: acting_clear split: option.splits)

lemma acting_start_goroutine: "acting i (start_goroutine i srv mode) False"
  unfolding start_goroutine_def
  by (rule acting_bringUp)
     (auto simp: owned_def acting_start_failed acting_start_connected)

lemma acting_poll_crashed: "acting i (poll_crashed i st) b"
proof -
  have "acting i (tearDown (k_mode c) (\<lambda>e.
       Locked (\<lambda>c'. let c' = (if e = None then c' else c' \<lparr> k_cleanupPending := True, k_cleanupMode := k_mode c \<rparr>)
                   in case k_cancel c' of None \<Rightarrow> c' | Some j \<Rightarrow> (cancel_ctx j c') \<lparr> k_cancel := None \<rparr>)
         (\<lambda>_. Publish (status_event (if e = None then StatusIdle else StatusError)) (Return None)))) b" for c
    by (rule acting_tearDown) (auto simp: owned_def quiet_def cancel_ctx_def Let_def)
  then show ?thesis
    by (auto simp: poll_crashed_def Let_def owned_def quiet_def canceled_def cancel_ctx_def split: sum.splits)
qed

lemma acting_pollTick: "acting i (pollTick fd i now) b"
  by (auto simp: pollTick_def acting_poll_crashed owned_def canceled_def split: sum.splits)

lemma harmless_clear: "(\<And>e. harmless (k e)) \<Longrightarrow> harmless (clearSysproxyBestEffort k)"
  by (auto simp: clearSysproxyBestEffort_def split: sum.splits)

lemma harmless_tearDown: "(\<And>e. harmless (k e)) \<Longrightarrow> harmless (tearDown mode k)"
  by (auto simp: tearDown_def Let_def intro!: harmless_clear)

lemma harmless_bringUp: "(\<And>r. harmless (k r)) \<Longrightarrow> harmless (bringUp srv mode k)"
  by (auto simp: bringUp_def Let_def intro!: harmless_clear split: sum.splits option.splits goerr.splits)

lemma harmless_start_goroutine: "harmless (start_goroutine i srv mode)"
  unfolding start_goroutine_def
  by (rule harmless_bringUp)
     (auto simp: start_failed_def start_connected_def Let_def intro!: harmless_clear split: sum.splits option.splits)

lemma harmless_pollTick: "harmless (pollTick fd i now)"
  by (auto simp: pollTick_def poll_crashed_def Let_def cancel_ctx_def intro!: harmless_tearDown
        split: sum.splits option.splits)

lemma launching_launch [simp]: "launching i (launch srv mode i)"
  by (simp add: launch_def acting_start_goroutine harmless_start_goroutine)

lemma claim_fields [simp]:
  "k_cancel (claim srv mode now up down c) = Some (k_next c)"
  "\<not> canceled (k_next c) (claim srv mode now up down c)"
  "k_cleanupPending (claim srv mode now up down c) = k_cleanupPending c"
  by (simp_all add: claim_def canceled_def)

lemma owned_claim: "quiet live c \<Longrightarrow> owned (k_next c) False live (claim srv mode now up down c)"
  by (simp add: quiet_def owned_def)

lemma quiet_op_clear: "(\<And>e. quiet_op (k e)) \<Longrightarrow> quiet_op (clearSysproxyBestEffort k)"
  by (auto simp: clearSysproxyBestEffort_def split: sum.splits)

lemma quiet_op_Reconcile: "quiet_op Reconcile"
proof -
  have p: "quiet live c \<Longrightarrow> quiet live (c \<lparr> k_current := x, k_mode := m \<rparr>)" for live c x m
    by (simp add: quiet_def)
  have q: "quiet live c \<Longrightarrow> quiet live (c \<lparr> k_current := x, k_mode := m, k_cleanupMode := m', k_cleanupPending := True \<rparr>)"
    for live c x m m'
    by (simp add: quiet_def)
  show ?thesis
    by (auto simp: Reconcile_def Let_def p q intro!: quiet_op_clear exI owned_claim split: sum.splits option.splits prod.splits)
qed

lemma entering_Start: "entering (Start sid mode)"
  by (auto simp: Start_def owned_def quiet_def split: option.splits prod.splits)

lemma restores_clear:
  "(\<And>e. restores (k e) c live) \<Longrightarrow> restores (clearSysproxyBestEffort k) c live"
  by (auto simp: clearSysproxyBestEffort_def split: sum.splits)

lemma restores_tearDown:
  assumes "\<And>e live'. e = None \<longrightarrow> \<not> live' \<Longrightarrow> restores (k e) c live'"
  shows "restores (tearDown mode k) c live"
  using assms by (auto simp: tearDown_def Let_def intro!: restores_clear)

lemma restores_stop_finish:
  "k_cancel c = None \<Longrightarrow> r = None \<longrightarrow> \<not> live \<Longrightarrow> restores (stop_finish pending mode r) c live"
  by (cases r) (auto simp: stop_finish_def quiet_def)

lemma stopping_stop_tear: "stopping (stop_tear pending previousMode mode)"
  by (auto simp: stop_tear_def intro!: restores_tearDown restores_clear restores_stop_finish)

lemma entering_Stop: "entering Stop"
  by (auto simp: Stop_def stopping_stop_tear owned_def quiet_def cancel_ctx_def split: option.splits)

lemma entering_request: "entering (request_prog r)"
  by (cases r) (simp_all add: entering_Start entering_Stop)

section \<open>One step of one goroutine\<close>

lemma after_fields [simp]:
  "h_ctl (after_call x e flag s) = h_ctl s" "h_known (after_call x e flag s) = live_after x e (h_known s)"
  "h_ctl (after_rollback x e flag s) = h_ctl s" "h_known (after_rollback x e flag s) = (live_after x e (h_known s) \<and> x \<noteq> StopChain)"
  by (simp_all add: after_call_def after_rollback_def Let_def)

text \<open>As long as nothing leaked, the chain is what the controller knows of it.\<close>

definition accounted :: "Shared \<Rightarrow> bool" where
  "accounted s \<longleftrightarrow> (h_leaks s = 0 \<longrightarrow> h_live s = h_known s)"

lemma live_after_eq: "live_after x e l = (case x of StartChain _ _ _ \<Rightarrow> (e = None \<or> l) | StopChain \<Rightarrow> (e \<noteq> None \<and> l) | _ \<Rightarrow> l)"
  by (cases x) auto

lemma step_accounted: "step fd a p s = Some (p', s') \<Longrightarrow> accounted s \<Longrightarrow> accounted s'"
  by (cases p) (auto simp: accounted_def after_call_def after_rollback_def leaked_def Let_def live_after_eq split: if_splits call.splits)

lemma step_closing:
  "step fd a p s = Some (p', s') \<Longrightarrow> closing p \<Longrightarrow>
     closing p' \<and> h_known s' = h_known s \<and> h_ctl s' = h_ctl s"
  by (cases p) auto

lemma step_harmless:
  "step fd a p s = Some (p', s') \<Longrightarrow> harmless p \<Longrightarrow>
     harmless p' \<and> (k_cancel (h_ctl s) = None \<longrightarrow> k_cancel (h_ctl s') = None)"
  by (cases p) (auto simp: harmless_pollTick split: if_splits)

lemma owned_after: "owned i b live c \<Longrightarrow> owned i (live_after x e b) (live_after x e live) c"
  by (cases x) (auto simp: owned_def)

lemma owned_rollback: "owned i b live c \<Longrightarrow> owned i (live_after x e b \<and> x \<noteq> StopChain) (live_after x e live \<and> x \<noteq> StopChain) c"
  by (cases x) (auto simp: owned_def)

lemma step_acting:
  assumes "step fd a p s = Some (p', s')" "acting i p b" "owned i b (h_known s) (h_ctl s)"
  shows "(\<exists>b'. acting i p' b' \<and> owned i b' (h_known s') (h_ctl s')) \<or>
     quiet (h_known s') (h_ctl s') \<and> closing p'"
proof (cases p)
  case (Do x k)
  with assms show ?thesis using owned_after by fastforce
next
  case (Rollback x k)
  with assms show ?thesis using owned_rollback by fastforce
next
  case (Locked u k)
  with assms(2) have "owned i b (h_known s) (u (h_ctl s)) \<and> acting i (k (h_ctl s)) b \<or>
      quiet (h_known s) (u (h_ctl s)) \<and> closing (k (h_ctl s))" using assms(3) by simp
  with Locked assms(1) show ?thesis by auto
next
  case (Poll j)
  with assms show ?thesis by (auto simp: acting_pollTick owned_def split: if_splits)
qed (use assms in \<open>auto split: if_splits\<close>)

lemma step_restores:
  assumes "step fd a p s = Some (p', s')" "restores p (h_ctl s) (h_known s)"
  shows "restores p' (h_ctl s') (h_known s')"
  using assms by (cases p) (auto split: if_splits)

lemma step_stopping:
  assumes "step fd a p s = Some (p', s')" "stopping p" "k_cancel (h_ctl s) = None"
  shows "stopping p' \<and> k_cancel (h_ctl s') = None"
  using assms by (cases p) (auto split: if_splits)

lemma step_launching:
  assumes "step fd a p s = Some (p', s')" "launching i p"
  shows "launching i p' \<and> h_ctl s' = h_ctl s \<and> h_known s' = h_known s"
  using assms by (cases p) (auto split: if_splits)

lemma step_quiet_op:
  assumes "step fd a p s = Some (p', s')" "quiet_op p" "quiet (h_known s) (h_ctl s)"
  shows "quiet_op p' \<and> quiet (h_known s') (h_ctl s') \<or>
     (\<exists>i. launching i p' \<and> owned i False (h_known s') (h_ctl s'))"
proof (cases p)
  case (Locked u k)
  with assms(2,3) have "quiet (h_known s) (u (h_ctl s)) \<and> quiet_op (k (h_ctl s)) \<or>
     (\<exists>i. owned i False (h_known s) (u (h_ctl s)) \<and> launching i (k (h_ctl s)))" by simp
  with Locked assms(1) show ?thesis by auto
qed (use assms in \<open>auto split: if_splits\<close>)

lemma step_entering_quiet:
  assumes "step fd a p s = Some (p', s')" "entering p" "quiet (h_known s) (h_ctl s)"
  shows "quiet (h_known s') (h_ctl s') \<and> (quiet_op p' \<or> entering p') \<or>
     (\<exists>i. launching i p' \<and> owned i False (h_known s') (h_ctl s')) \<or>
     k_cancel (h_ctl s') = None \<and> stopping p'"
proof (cases p)
  case (Locked u k)
  with assms(2,3) have "quiet (h_known s) (u (h_ctl s)) \<and> quiet_op (k (h_ctl s)) \<or>
     (\<exists>i. owned i False (h_known s) (u (h_ctl s)) \<and> launching i (k (h_ctl s))) \<or>
     k_cancel (u (h_ctl s)) = None \<and> stopping (k (h_ctl s))" by simp
  with Locked assms(1) show ?thesis by auto
qed (use assms in \<open>auto split: if_splits\<close>)

lemma step_entering_owned:
  assumes "step fd a p s = Some (p', s')" "entering p" "owned i b (h_known s) (h_ctl s)"
  shows "owned i b (h_known s') (h_ctl s') \<and> entering p' \<or> k_cancel (h_ctl s') = None \<and> stopping p'"
proof (cases p)
  case (Locked u k)
  with assms(2,3) have "owned i b (h_known s) (u (h_ctl s)) \<and> entering (k (h_ctl s)) \<or>
     k_cancel (u (h_ctl s)) = None \<and> stopping (k (h_ctl s))" by simp
  with Locked assms(1) show ?thesis by auto
qed (use assms in \<open>auto split: if_splits\<close>)

section \<open>The system\<close>

definition few :: "prog list \<Rightarrow> bool" where
  "few gs \<longleftrightarrow> length (filter (\<lambda>p. \<not> closing p) gs) \<le> 1"

lemma few_closing: "list_all closing gs \<Longrightarrow> few gs"
  by (auto simp: few_def list_all_iff)

lemma few_attempt: "list_all closing (gs @ hs) \<Longrightarrow> few (gs @ g # hs)"
  by (auto simp: few_def list_all_iff)

inductive phase :: "Shared \<Rightarrow> prog option \<Rightarrow> prog list \<Rightarrow> bool" where
  attempt: "phase s op (gs @ g # hs)"
    if "list_all closing (gs @ hs)" "acting i g b" "owned i b (h_known s) (h_ctl s)"
       "pred_option entering op"
| calm: "phase s op gs"
    if "list_all closing gs" "quiet (h_known s) (h_ctl s)" "pred_option (\<lambda>p. entering p \<or> quiet_op p) op"
| claimed: "phase s (Some p) gs"
    if "list_all closing gs" "launching i p" "owned i False (h_known s) (h_ctl s)"
| stops: "phase s (Some p) gs" if "stopping p" "k_cancel (h_ctl s) = None" "few gs"
| tears: "phase s (Some p) []" if "restores p (h_ctl s) (h_known s)"

definition sys_inv :: "System \<Rightarrow> bool" where
  "sys_inv y \<longleftrightarrow> list_all harmless (y_gors y) \<and> phase (y_shared y) (y_op y) (y_gors y) \<and> accounted (y_shared y)"

lemma closing_harmless: "closing p \<Longrightarrow> harmless p"
  by (induction p) auto

lemma closing_not_acting: "closing p \<Longrightarrow> \<not> acting i p b"
  by (induction p) auto

lemma split_eq_cases:
  assumes "xs @ p # ys = gs @ g # hs"
  obtains "xs = gs" "p = g" "ys = hs"
  | zs where "gs = xs @ p # zs" "ys = zs @ g # hs"
  | zs where "xs = gs @ g # zs" "hs = zs @ p # ys"
  using assms by (auto simp: append_eq_append_conv2 Cons_eq_append_conv append_eq_Cons_conv)

text \<open>A closing goroutine takes a step.\<close>

lemma phase_closing_step:
  assumes "phase s op (xs @ p # ys)" "closing p" "list_all closing ps"
    and "h_known s' = h_known s" "h_ctl s' = h_ctl s"
  shows "phase s' op (xs @ ps @ ys)"
  using assms(1)
proof (cases rule: phase.cases)
  case (attempt gs hs i g b)
  from attempt(1) show ?thesis
  proof (cases rule: split_eq_cases)
    case 1
    with attempt assms(2) have False using closing_not_acting by blast
    then show ?thesis ..
  next
    case (2 zs)
    then have "phase s' op ((xs @ ps @ zs) @ g # hs)"
      using attempt assms(3-5) by (intro phase.attempt) auto
    with 2 show ?thesis by simp
  next
    case (3 zs)
    then have "phase s' op (gs @ g # (zs @ ps @ ys))"
      using attempt assms(3-5) by (intro phase.attempt) auto
    with 3 show ?thesis by simp
  qed
next
  case calm
  then show ?thesis using assms by (intro phase.calm) auto
next
  case (claimed q i)
  then show ?thesis using assms by (auto intro!: phase.claimed)
next
  case (stops q)
  moreover have "filter (\<lambda>p. \<not> closing p) ps = []" using assms(3) by (auto simp: list_all_iff)
  ultimately show ?thesis using assms by (auto intro!: phase.stops simp: few_def)
qed simp

lemma phase_gor_step:
  assumes "phase s op (xs @ p # ys)" "list_all harmless (xs @ p # ys)"
    and "step fd a p s = Some (p', s')"
  shows "phase s' op (xs @ p' # ys)"
proof (cases "closing p")
  case True
  with step_closing [OF assms(3)] phase_closing_step [OF assms(1), of "[p']" s'] show ?thesis by auto
next
  case False
  from assms(1) show ?thesis
  proof (cases rule: phase.cases)
    case (attempt gs hs i g b)
    from attempt(1) show ?thesis
    proof (cases rule: split_eq_cases)
      case 1
      with attempt step_acting [OF assms(3), of i b]
      consider b' where "acting i p' b'" "owned i b' (h_known s') (h_ctl s')"
        | "quiet (h_known s') (h_ctl s')" "closing p'" by auto
      then show ?thesis
      proof cases
        case (1 b')
        with attempt \<open>xs = gs\<close> \<open>ys = hs\<close> show ?thesis by (intro phase.attempt) auto
      next
        case 2
        with attempt \<open>xs = gs\<close> \<open>ys = hs\<close> show ?thesis
          by (intro phase.calm) (auto elim: option.pred_mono_strong)
      qed
    qed (use attempt False in auto)
  next
    case (stops q)
    then show ?thesis using step_harmless [OF assms(3)] assms(2) False by (auto intro!: phase.stops simp: few_def)
  qed (use False in auto)
qed

lemma phase_op_step:
  assumes "phase s (Some p) gs" "step fd a p s = Some (p', s')"
  shows "phase s' (Some p') gs"
  using assms(1)
proof (cases rule: phase.cases)
  case (attempt xs hs i g b)
  with step_entering_owned [OF assms(2), of i b] show ?thesis
    using few_attempt [of xs hs g] by (auto intro: phase.attempt phase.stops)
next
  case calm
  then consider "entering p" | "quiet_op p" by auto
  then show ?thesis
  proof cases
    case 1
    from step_entering_quiet [OF assms(2) 1 calm(2)] calm(1) show ?thesis
      by (auto intro: phase.calm phase.claimed phase.stops few_closing)
  next
    case 2
    from step_quiet_op [OF assms(2) 2 calm(2)] calm(1) show ?thesis
      by (auto intro: phase.calm phase.claimed)
  qed
next
  case (claimed i)
  with step_launching [OF assms(2), of i] show ?thesis by (auto intro: phase.claimed)
next
  case stops
  with step_stopping [OF assms(2)] show ?thesis by (auto intro: phase.stops)
next
  case tears
  with step_restores [OF assms(2)] show ?thesis by (auto intro: phase.tears)
qed

inductive_cases phase_op_cases: "phase s (Some p) gs"

lemma phase_return: "phase s (Some (Return e)) gs \<Longrightarrow> phase s None gs"
  by (erule phase_op_cases) (auto intro: phase.attempt phase.calm)

lemma phase_wait: "phase s (Some (Wait p)) [] \<Longrightarrow> phase s (Some p) []"
  by (erule phase_op_cases) (auto intro: phase.calm phase.tears)

lemma phase_go: "phase s (Some (Go g p)) gs \<Longrightarrow> phase s (Some p) (gs @ [g]) \<and> harmless g"
  by (erule phase_op_cases) (auto intro!: phase.attempt [where hs = "[]", simplified])

lemma op_step_inv:
  assumes "sys_inv y" "y_op y = Some p" "op_step fd a p y = Some y'"
  shows "sys_inv y'"
proof -
  have "step fd a p (y_shared y) = Some (p', s') \<Longrightarrow> y' = y \<lparr> y_op := Some p', y_shared := s' \<rparr> \<Longrightarrow> sys_inv y'"
    for p' s'
    using assms(1,2) step_accounted [of fd a p "y_shared y" p' s'] phase_op_step [of "y_shared y" p "y_gors y" fd a p' s']
    by (auto simp: sys_inv_def)
  then show ?thesis
    using assms phase_return phase_wait phase_go
    by (cases p) (auto simp: sys_inv_def split: option.splits if_splits)
qed

lemma gor_step_inv:
  assumes "sys_inv y" "i < length (y_gors y)" "gor_step fd i a (y_gors y ! i) y = Some y'"
  shows "sys_inv y'"
proof -
  let ?xs = "take i (y_gors y)" and ?p = "y_gors y ! i" and ?ys = "drop (Suc i) (y_gors y)"
  have g: "y_gors y = ?xs @ ?p # ?ys" using assms(2) by (rule id_take_nth_drop)
  have u: "(y_gors y)[i := q] = ?xs @ q # ?ys" for q using assms(2) by (simp add: upd_conv_take_nth_drop)
  show ?thesis
  proof (cases "\<exists>e. ?p = Return e")
    case True
    then obtain e where e: "?p = Return e" by blast
    with assms(3) have y': "y' = y \<lparr> y_gors := ?xs @ ?ys \<rparr>" by (simp add: remove_at_def)
    have "phase s op (y_gors y) \<Longrightarrow> phase s op (?xs @ ?ys)" for s op
      using phase_closing_step [of s op ?xs ?p ?ys "[]" s] g e by simp
    moreover have "list_all harmless (y_gors y) \<Longrightarrow> list_all harmless (?xs @ ?ys)"
      by (subst (asm) g) simp
    ultimately show ?thesis using assms(1) unfolding sys_inv_def y' by simp
  next
    case False
    then obtain p' s' where st: "step fd a ?p (y_shared y) = Some (p', s')"
      and y': "y' = y \<lparr> y_gors := ?xs @ p' # ?ys, y_shared := s' \<rparr>"
      using assms(3) u by (cases ?p) (auto split: option.splits)
    have h: "list_all harmless (?xs @ ?p # ?ys)" and ph: "phase (y_shared y) (y_op y) (?xs @ ?p # ?ys)"
      using assms(1) by (simp_all add: sys_inv_def g [symmetric])
    from phase_gor_step [OF ph h st] step_harmless [OF st] h step_accounted [OF st] assms(1)
    show ?thesis by (simp add: sys_inv_def y')
  qed
qed

lemma sys_inv_step: "sys_inv y \<Longrightarrow> sys_step fd ch y = Some y' \<Longrightarrow> sys_inv y'"
proof (cases ch)
  case (Begin r)
  have "phase s None gs \<Longrightarrow> phase s (Some (request_prog r)) gs" for s gs
    by (erule phase.cases) (auto intro: phase.attempt phase.calm simp: entering_request)
  with Begin show "sys_inv y \<Longrightarrow> sys_step fd ch y = Some y' \<Longrightarrow> sys_inv y'"
    by (auto simp: sys_inv_def split: option.splits)
qed (auto intro: op_step_inv gor_step_inv split: option.splits if_splits)

lemma sys_inv_reachable: "reachable fd y \<Longrightarrow> sys_inv y"
proof (induction rule: reachable.induct)
  case (at_boot sess proxy)
  show ?case
    by (auto simp: sys_inv_def accounted_def boot_def quiet_op_Reconcile quiet_def zero_Controller_def intro!: phase.calm)
qed (rule sys_inv_step)

section \<open>Properties\<close>

text \<open>
  C1. No orphan, unless the chain leaked. Whatever connects, disconnects, crashes and failures of calls happen and however they are
  interleaved, as long as no roll-back of a bring-up failed to stop the chain and no \<^verbatim>\<open>StartChain\<close> failed after it had started
  it: when no operation is in progress, a chain that this process has started and not
  stopped shows in the status, which is then \<^verbatim>\<open>connected\<close> or \<^verbatim>\<open>error\<close> and never \<^verbatim>\<open>idle\<close>, so that a further
  \<^verbatim>\<open>Stop\<close> acts on it.
\<close>

theorem no_orphan_chain:
  assumes "reachable fd y" "y_op y = None" "h_leaks (y_shared y) = 0" "h_live (y_shared y)"
  shows "fst (Status (h_ctl (y_shared y))) \<noteq> StatusIdle"
proof -
  have "phase (y_shared y) None (y_gors y)" "h_known (y_shared y)"
    using sys_inv_reachable [OF assms(1)] assms(2-4) by (simp_all add: sys_inv_def accounted_def)
  then show ?thesis
    by (cases rule: phase.cases)
       (auto simp: owned_def quiet_def Status_def StatusIdle_def StatusError_def StatusConnected_def)
qed

text \<open>A goroutine whose next step is a call, or a call or a query.\<close>

fun calls :: "prog \<Rightarrow> bool" where
  "calls (Do x k) = True"
| "calls (Rollback x k) = True"
| "calls p = False"

fun asks :: "prog \<Rightarrow> bool" where
  "asks (Look f) = True"
| "asks p = calls p"

lemma closing_asks: "closing p \<Longrightarrow> \<not> asks p"
  by (cases p) auto

lemma not_calls: "entering p \<Longrightarrow> \<not> calls p" "launching i p \<Longrightarrow> \<not> calls p" "stopping p \<Longrightarrow> \<not> calls p"
  by (cases p; simp)+

lemma few_asks: "few gs \<Longrightarrow> length (filter asks gs) \<le> 1"
proof -
  have "length (filter asks gs) \<le> length (filter (\<lambda>p. \<not> closing p) gs)"
    using closing_asks by (induction gs) auto
  then show "few gs \<Longrightarrow> length (filter asks gs) \<le> 1" by (simp add: few_def)
qed

lemma closing_no_asks: "list_all closing gs \<Longrightarrow> filter asks gs = []"
  using closing_asks by (auto simp: list_all_iff)

lemma phase_serial:
  "phase s op gs \<Longrightarrow> length (filter asks gs) + (case op of None \<Rightarrow> 0 | Some p \<Rightarrow> if calls p then 1 else 0) \<le> 1"
proof (induction rule: phase.induct)
  case (attempt gs hs i g b s op)
  then show ?case using few_asks [OF few_attempt [of gs hs g]] not_calls
    by (auto split: option.splits)
next
  case (stops p s gs)
  then show ?case using few_asks not_calls by auto
qed (auto simp: closing_no_asks not_calls split: option.splits)

text \<open>
  C22. What is done outside is done by one goroutine at a time: whatever the interleaving and whatever fails, at most one of the
  bring-ups and pollers is about to make a call or a query (the status of the helper and of the system proxy included), and then the
  operation in progress, \<^verbatim>\<open>Start\<close>, \<^verbatim>\<open>Stop\<close> or \<^verbatim>\<open>Reconcile\<close>, is not about to make a call. In
  particular \<^verbatim>\<open>Stop\<close> never tears down while a bring-up that it has canceled is still at work. Queries of the operation
  in progress are not counted.
\<close>

theorem calls_serial:
  assumes "reachable fd y"
  shows "length (filter asks (y_gors y)) + (case y_op y of None \<Rightarrow> 0 | Some p \<Rightarrow> if calls p then 1 else 0) \<le> 1"
proof -
  have "phase (y_shared y) (y_op y) (y_gors y)"
    using sys_inv_reachable [OF assms(1)] by (simp add: sys_inv_def)
  then show ?thesis by (rule phase_serial)
qed

section \<open>Runs\<close>

fun run :: "(64 word \<Rightarrow> int \<Rightarrow> 64 word) \<Rightarrow> choice list \<Rightarrow> System \<Rightarrow> System option" where
  "run fd [] y = Some y"
| "run fd (ch # chs) y = (case sys_step fd ch y of None \<Rightarrow> None | Some y' \<Rightarrow> run fd chs y')"

lemma run_reachable: "reachable fd y \<Longrightarrow> run fd chs y = Some y' \<Longrightarrow> reachable fd y'"
  by (induction chs arbitrary: y) (auto intro: by_step split: option.splits)

text \<open>A server, and a world in which everything works except what the answers say.\<close>

definition some_server :: Server where
  "some_server = zero_Server \<lparr> s_ID := ''srv'' \<rparr>"

definition some_world :: "bool \<Rightarrow> World" where
  "some_world on = \<lparr> w_server = (\<lambda>_. (None, Some some_server)), w_network = Inr (c_Network Defaults),
     w_killswitch = Inr (c_KillSwitch Defaults), w_build = (\<lambda>_ _ _. Inr (JObj [], JObj [])),
     w_status = Inr \<lparr> st_CleanupPending = False, st_Running = False, st_UpBytes = 0, st_DownBytes = 0,
                      st_LastError = [] \<rparr>,
     w_isSet = Inr on, w_session = Inl (Err ''unreadable''), w_now = 0 \<rparr>"

definition fine :: "bool \<Rightarrow> answer" where
  "fine on = \<lparr> a_err = None, a_flag = True, a_world = some_world on \<rparr>"

definition failing :: answer where
  "failing = \<lparr> a_err = Some (Err ''failed''), a_flag = False, a_world = some_world False \<rparr>"

lemmas run_simps = boot_def zero_Controller_def fine_def failing_def some_world_def consistent_def
  Reconcile_def zero_session_def Start_def launch_def claim_def start_goroutine_def bringUp_def
  ModeTUN_def ModeSys_def after_call_def after_rollback_def leaked_def canceled_def start_failed_def cancel_ctx_def
  Status_def remove_at_def Let_def

section \<open>A roll-back that fails\<close>

text \<open>The attempt \<open>i\<close> owns the controller and no clean-up is pending.\<close>

definition running :: "nat \<Rightarrow> Controller \<Rightarrow> bool" where
  "running i c \<longleftrightarrow> k_cancel c = Some i \<and> \<not> canceled i c \<and> \<not> k_cleanupPending c"

text \<open>A goroutine that will release the controller without stopping the chain or asking for a clean-up.\<close>

primrec doomed :: "nat \<Rightarrow> prog \<Rightarrow> bool" where
  "doomed i (Return e) = False"
| "doomed i (Publish e p) = doomed i p"
| "doomed i (Do x k) = (\<forall>e. live_after x e True \<and> doomed i (k e))"
| "doomed i (Rollback x k) = (\<forall>e. live_after x e True \<and> doomed i (k e))"
| "doomed i (Look f) = (\<forall>w. doomed i (f w))"
| "doomed i (Locked u k) = (\<forall>c. running i c \<longrightarrow> running i (u c) \<and> doomed i (k c) \<or>
     k_cancel (u c) = None \<and> \<not> k_cleanupPending (u c) \<and> closing (k c))"
| "doomed i (Wait p) = False"
| "doomed i (Go g p) = False"
| "doomed i (Poll j) = False"

text \<open>A goroutine whose roll-backs all go on like that.\<close>

primrec rolls :: "nat \<Rightarrow> prog \<Rightarrow> bool" where
  "rolls i (Return e) = True"
| "rolls i (Publish e p) = rolls i p"
| "rolls i (Do x k) = (\<forall>e. rolls i (k e))"
| "rolls i (Rollback x k) = (\<forall>e. rolls i (k e) \<and> (x = StopChain \<longrightarrow> doomed i (k e)))"
| "rolls i (Look f) = (\<forall>w. rolls i (f w))"
| "rolls i (Locked u k) = (\<forall>c. rolls i (k c) \<and> (running i c \<longrightarrow> running i (u c) \<or> closing (k c)))"
| "rolls i (Wait p) = False"
| "rolls i (Go g p) = False"
| "rolls i (Poll j) = (j = i)"

lemma running_simps [simp]:
  "running i (c \<lparr> k_mode := m \<rparr>) = running i c" "running i (c \<lparr> k_current := x \<rparr>) = running i c"
  "running i (c \<lparr> k_prevAt := t, k_prevUp := u, k_prevDown := d \<rparr>) = running i c"
  by (simp_all add: running_def canceled_def)








lemma closing_rolls: "closing p \<Longrightarrow> rolls i p"
  by (induction p) auto













text \<open>
  The system proxy stays on after a \<^verbatim>\<open>Stop\<close> that could not clear it; a TUN session follows, cannot clear
  it either, and crashes with the kill switch on; \<^verbatim>\<open>Stop\<close> then succeeds.
\<close>

definition ctx_done :: answer where
  "ctx_done = \<lparr> a_err = None, a_flag = False, a_world = some_world True \<rparr>"

definition proxy_run :: "choice list" where
  "proxy_run =
     replicate 2 (OpStep (fine False)) @ [Begin (ReqStart ''srv'' ModeSys)] @ replicate 5 (OpStep (fine False))
     @ replicate 4 (GorStep 0 (fine False)) @ replicate 8 (GorStep 0 (fine True))
     @ [Begin ReqStop] @ replicate 3 (OpStep (fine True)) @ [GorStep 0 ctx_done, GorStep 0 (fine True)]
     @ replicate 7 (OpStep (fine True))"

definition proxy_run2 :: "choice list" where
  "proxy_run2 =
     [Begin (ReqStart ''srv'' ModeTUN)] @ replicate 8 (OpStep (fine True)) @ replicate 24 (GorStep 0 (fine True))
     @ [Begin ReqStop] @ replicate 11 (OpStep (fine True))"

lemmas proxy_simps = ctx_done_def start_connected_def clearSysproxyBestEffort_def Stop_def stop_tear_def
  tearDown_def stop_finish_def pollTick_def poll_crashed_def Defaults_def

lemma run_append: "run fd (xs @ ys) y = (case run fd xs y of None \<Rightarrow> None | Some y' \<Rightarrow> run fd ys y')"
  by (induction xs arbitrary: y) (auto split: option.splits)

abbreviation settled :: "System \<Rightarrow> bool" where
  "settled y \<equiv> y_op y = None \<and> y_gors y = [] \<and> h_leaks (y_shared y) = 0 \<and> h_proxy (y_shared y)"

lemma proxy_first_session:
  "\<exists>y. run fd proxy_run (boot zero_session False) = Some y \<and> settled y \<and> k_cleanupPending (h_ctl (y_shared y)) \<and>
     k_cleanupMode (h_ctl (y_shared y)) = ModeSys \<and> k_cancel (h_ctl (y_shared y)) = None"
  by (simp add: proxy_run_def run_simps eval_nat_numeral proxy_simps)

lemma proxy_second_session:
  "settled y \<Longrightarrow> k_cleanupPending (h_ctl (y_shared y)) \<Longrightarrow> k_cleanupMode (h_ctl (y_shared y)) = ModeSys \<Longrightarrow>
     k_cancel (h_ctl (y_shared y)) = None \<Longrightarrow>
   \<exists>y'. run fd proxy_run2 y = Some y' \<and> settled y' \<and> fst (Status (h_ctl (y_shared y'))) = StatusIdle"
  by (simp add: proxy_run2_def run_simps eval_nat_numeral proxy_simps)

text \<open>
  A pending clean-up of the system proxy can be forgotten. A \<^verbatim>\<open>Stop\<close> that could not clear the proxy
  remembers to do so later; but when the TUN session that follows crashes, the poller overwrites
  \<^verbatim>\<open>cleanupMode\<close> (where \<^verbatim>\<open>Stop\<close> keeps it), and the next \<^verbatim>\<open>Stop\<close> succeeds and shows \<^verbatim>\<open>idle\<close> while the system
  proxy is still on, with every call of that last \<^verbatim>\<open>Stop\<close> successful.
\<close>

theorem proxy_cleanup_forgotten:
  "\<exists>y. run fd (proxy_run @ proxy_run2) (boot zero_session False) = Some y \<and> reachable fd y \<and>
     y_op y = None \<and> y_gors y = [] \<and> h_leaks (y_shared y) = 0 \<and>
     h_proxy (y_shared y) \<and> fst (Status (h_ctl (y_shared y))) = StatusIdle"
proof -
  obtain y where y: "run fd proxy_run (boot zero_session False) = Some y" "settled y"
      "k_cleanupPending (h_ctl (y_shared y))" "k_cleanupMode (h_ctl (y_shared y)) = ModeSys"
      "k_cancel (h_ctl (y_shared y)) = None"
    using proxy_first_session by blast
  obtain y' where y': "run fd proxy_run2 y = Some y'" "settled y'" "fst (Status (h_ctl (y_shared y'))) = StatusIdle"
    using proxy_second_session [OF y(2-5)] by blast
  have "run fd (proxy_run @ proxy_run2) (boot zero_session False) = Some y'"
    using y(1) y'(1) by (simp add: run_append)
  with y' run_reachable [OF at_boot this] show ?thesis by blast
qed

text \<open>A connected state, reached by the first twenty steps of that run.\<close>

lemma connected_run:
  "\<exists>y. run fd (take 20 proxy_run) (boot zero_session False) = Some y \<and> y_op y = None \<and>
     h_leaks (y_shared y) = 0 \<and> h_live (y_shared y)"
  by (simp add: proxy_run_def run_simps eval_nat_numeral proxy_simps)

theorem no_orphan_chain_witness:
  "\<exists>y. reachable (\<lambda>_ _. 0) y \<and> h_live (y_shared y) \<and> fst (Status (h_ctl (y_shared y))) \<noteq> StatusIdle"
proof -
  obtain y where y: "run (\<lambda>_ _. 0) (take 20 proxy_run) (boot zero_session False) = Some y" "y_op y = None"
      "h_leaks (y_shared y) = 0" "h_live (y_shared y)" using connected_run by blast
  have "reachable (\<lambda>_ _. 0) y" using run_reachable [OF at_boot y(1)] .
  with no_orphan_chain [OF this y(2-4)] y(4) show ?thesis by blast
qed

theorem calls_serial_witness:
  "\<exists>y. reachable (\<lambda>_ _. 0) y \<and> y_gors y \<noteq> [] \<and>
     length (filter asks (y_gors y)) + (case y_op y of None \<Rightarrow> 0 | Some p \<Rightarrow> if calls p then 1 else 0) \<le> 1"
proof -
  obtain y where y: "run (\<lambda>_ _. 0) (take 20 proxy_run) (boot zero_session False) = Some y" "y_gors y \<noteq> []"
    by (simp add: proxy_run_def run_simps eval_nat_numeral proxy_simps)
  have "reachable (\<lambda>_ _. 0) y" using run_reachable [OF at_boot y(1)] .
  with calls_serial [OF this] y(2) show ?thesis by blast
qed

end
