(* ===== verification/Geo.thy ===== *)
theory Geo
  imports Prelude
begin

text \<open>
  Package \<^verbatim>\<open>internal/geo\<close>: the manager that keeps geo rule sets in a cache directory and downloads
  what is missing, file by file (direct.go) or from one archive (runetfreedom.go). The cache is a
  map from paths to contents; the web, the result of opening an archive and whether a file can be
  written are arguments. The data directory is a clean path.
\<close>

section \<open>geo.go\<close>

record Source =
  gsrc_Preset :: string
  gsrc_CustomURL :: string

definition PresetRunetfreedom :: string where "PresetRunetfreedom = ''runetfreedom''"
definition PresetSagerNet :: string where "PresetSagerNet = ''sagernet''"
definition PresetCustom :: string where "PresetCustom = ''custom''"

definition DefaultSagerNetBase :: string where
  "DefaultSagerNetBase = ''https://raw.githubusercontent.com/SagerNet''"

definition BaseTags :: "string list" where
  "BaseTags = [''geosite-ru'', ''geoip-ru'', ''geosite-ru-blocked'', ''geosite-category-ads-all'']"

definition sourceNames :: "string \<Rightarrow> string list" where
  "sourceNames tag =
     (if HasPrefix tag ''geosite-'' \<and> \<not> HasPrefix tag ''geosite-category-''
      then [tag, ''geosite-category-'' @ TrimPrefix tag ''geosite-''] else [tag])"

definition presetDir :: "string \<Rightarrow> string" where
  "presetDir preset =
     (if preset = PresetRunetfreedom \<or> preset = PresetSagerNet \<or> preset = PresetCustom
      then preset else PresetRunetfreedom)"

text \<open>\<^verbatim>\<open>filepath.Join\<close> of a clean directory and names without separators.\<close>

definition cachePath :: "string \<Rightarrow> string \<Rightarrow> string \<Rightarrow> string" where
  "cachePath dataDir preset tag = dataDir @ ''/geo/'' @ presetDir preset @ ''/'' @ tag @ ''.srs''"

type_synonym cache = "string \<rightharpoonup> string"

definition cached :: "cache \<Rightarrow> string \<Rightarrow> string \<Rightarrow> string \<Rightarrow> string option" where
  "cached fs dataDir preset tag =
     (let p = cachePath dataDir preset tag in
      case fs p of None \<Rightarrow> None | Some data \<Rightarrow> (if data \<noteq> [] then Some p else None))"

text \<open>
  A write: the directory is made, the data go to a temporary file, which is then renamed. Each step can fail: \<open>w_mkdir\<close>
  says whether the directory is there; \<^verbatim>\<open>os.WriteFile\<close> writes everything, cannot open the file, or fails after it
  wrote the first bytes; a failed rename leaves the temporary file.
\<close>

datatype write_result = Written | NotOpened | CutShort nat

record writes =
  w_mkdir :: "string \<Rightarrow> bool"
  w_tmp :: "string \<Rightarrow> write_result"
  w_rename :: "string \<Rightarrow> bool"

definition tmpPath :: "string \<Rightarrow> string" where
  "tmpPath p = p @ ''.tmp''"

definition writeCache :: "writes \<Rightarrow> string \<Rightarrow> string \<Rightarrow> string \<Rightarrow> string \<Rightarrow> cache \<Rightarrow> string option \<times> cache" where
  "writeCache wr dataDir preset tag data fs =
     (let p = cachePath dataDir preset tag; tmp = tmpPath p in
      if \<not> w_mkdir wr p then (None, fs)
      else case w_tmp wr tmp of
        NotOpened \<Rightarrow> (None, fs)
      | CutShort n \<Rightarrow> (None, fs(tmp \<mapsto> take n data))
      | Written \<Rightarrow>
          (if w_rename wr tmp then (Some p, fs(p \<mapsto> data, tmp := None))
           else (None, fs(tmp \<mapsto> data))))"

section \<open>The web\<close>

text \<open>A response: its status, its length if known, the pieces of its body, and whether reading them fails.\<close>

record response =
  rp_status :: int
  rp_length :: int
  rp_body :: "string list"
  rp_broken :: bool

type_synonym web = "string \<Rightarrow> response option"

definition download :: "web \<Rightarrow> string \<Rightarrow> string option" where
  "download web url =
     (case web url of None \<Rightarrow> None
      | Some r \<Rightarrow> (if rp_status r \<noteq> 200 \<or> rp_broken r then None else Some (concat (rp_body r))))"

text \<open>\<open>Inl\<close> the reports made before the error, \<open>Inr\<close> the data and the reports.\<close>

fun body_reports :: "int \<Rightarrow> int \<Rightarrow> string list \<Rightarrow> (int \<times> int) list" where
  "body_reports done tot [] = []"
| "body_reports done tot (b # bs) =
     (if b \<noteq> [] then (done + int (length b), tot) # body_reports (done + int (length b)) tot bs
      else body_reports done tot bs)"

definition downloadProgress :: "web \<Rightarrow> string \<Rightarrow> string option \<times> (int \<times> int) list" where
  "downloadProgress web url =
     (case web url of None \<Rightarrow> (None, [])
      | Some r \<Rightarrow>
          (if rp_status r \<noteq> 200 then (None, [])
           else (if rp_broken r then None else Some (concat (rp_body r)),
                 body_reports 0 (rp_length r) (rp_body r))))"

section \<open>direct.go\<close>

definition trim_slashes :: "string \<Rightarrow> string" where
  "trim_slashes s = rev (dropWhile (\<lambda>c. c = CHR ''/'') (rev s))"

definition directURL :: "string \<Rightarrow> string \<Rightarrow> string" where
  "directURL tag base =
     (if HasPrefix tag ''geoip-'' then trim_slashes base @ ''/sing-geoip/rule-set/'' @ tag @ ''.srs''
      else trim_slashes base @ ''/sing-geosite/rule-set/'' @ tag @ ''.srs'')"

fun downloadFirst :: "web \<Rightarrow> string \<Rightarrow> string list \<Rightarrow> string option" where
  "downloadFirst web base [] = None"
| "downloadFirst web base (n # ns) =
     (case download web (directURL n base) of Some d \<Rightarrow> Some d | None \<Rightarrow> downloadFirst web base ns)"

text \<open>The loops: the result map, the cache and the progress reports are carried along.\<close>

record geo_state =
  q_out :: "(string \<times> string) list"
  q_fs :: cache
  q_done :: int
  q_reports :: "(int \<times> int) list"

definition found_tag :: "int \<Rightarrow> string \<Rightarrow> string \<Rightarrow> geo_state \<Rightarrow> geo_state" where
  "found_tag tot tag p q =
     q \<lparr> q_out := (tag, p) # q_out q, q_done := q_done q + 1,
         q_reports := q_reports q @ [(q_done q + 1, tot)] \<rparr>"

definition direct_tag :: "writes \<Rightarrow> web \<Rightarrow> string \<Rightarrow> string \<Rightarrow> string \<Rightarrow> bool \<Rightarrow> int \<Rightarrow> string \<Rightarrow> geo_state \<Rightarrow> geo_state" where
  "direct_tag wr web dataDir preset base force tot tag q =
     (case (if force then None else cached (q_fs q) dataDir preset tag) of
        Some p \<Rightarrow> found_tag tot tag p q
      | None \<Rightarrow>
          (case downloadFirst web base (sourceNames tag) of
             None \<Rightarrow> q
           | Some data \<Rightarrow>
               (case writeCache wr dataDir preset tag data (q_fs q) of
                  (None, fs') \<Rightarrow> q \<lparr> q_fs := fs' \<rparr>
                | (Some p, fs') \<Rightarrow> found_tag tot tag p (q \<lparr> q_fs := fs' \<rparr>))))"

datatype geo_error = InvalidTag string | NoTags string | ZipDownload | ZipOpen | NoCustomURL

definition start_state :: "cache \<Rightarrow> geo_state" where
  "start_state fs = \<lparr> q_out = [], q_fs = fs, q_done = 0, q_reports = [] \<rparr>"

definition fetchDirect :: "writes \<Rightarrow> web \<Rightarrow> string \<Rightarrow> string \<Rightarrow> string \<Rightarrow> string list \<Rightarrow> bool \<Rightarrow> cache
    \<Rightarrow> (geo_error + (string \<rightharpoonup> string)) \<times> geo_state" where
  "fetchDirect wr web dataDir preset base tags force fs =
     (let q = foldl (\<lambda>q tag. direct_tag wr web dataDir preset base force (int (length tags)) tag q)
                (start_state fs) tags
      in (if q_out q = [] \<and> tags \<noteq> [] then Inl (NoTags preset) else Inr (map_of (q_out q)), q))"

section \<open>runetfreedom.go\<close>

definition runetfreedomZipURL :: string where
  "runetfreedomZipURL =
     ''https://github.com/runetfreedom/russia-v2ray-rules-dat/releases/latest/download/sing-box.zip''"

definition runetfreedomZipEntry :: "string \<Rightarrow> string" where
  "runetfreedomZipEntry tag =
     (if HasPrefix tag ''geoip-'' then ''rule-set-geoip/'' @ tag @ ''.srs''
      else ''rule-set-geosite/'' @ tag @ ''.srs'')"

text \<open>
  \<^verbatim>\<open>zip.NewReader\<close> on the data: \<open>None\<close> is an error; the entries have a name and, if it can be read,
  a content. The last of two entries with one name wins.
\<close>

type_synonym unzip = "string \<Rightarrow> (string \<times> string option) list option"

definition zip_index :: "(string \<times> string option) list \<Rightarrow> string \<rightharpoonup> string option" where
  "zip_index es = map_of (rev es)"

fun first_entry :: "(string \<rightharpoonup> string option) \<Rightarrow> string list \<Rightarrow> string option option" where
  "first_entry idx [] = None"
| "first_entry idx (n # ns) =
     (case idx (runetfreedomZipEntry n) of Some f \<Rightarrow> Some f | None \<Rightarrow> first_entry idx ns)"

definition take_cached :: "string \<Rightarrow> bool \<Rightarrow> geo_state \<times> string list \<Rightarrow> string \<Rightarrow> geo_state \<times> string list" where
  "take_cached dataDir force qm tag =
     (case (if force then None else cached (q_fs (fst qm)) dataDir PresetRunetfreedom tag) of
        Some p \<Rightarrow> ((fst qm) \<lparr> q_out := (tag, p) # q_out (fst qm) \<rparr>, snd qm)
      | None \<Rightarrow> (fst qm, snd qm @ [tag]))"

definition zip_tag :: "writes \<Rightarrow> string \<Rightarrow> (string \<rightharpoonup> string option) \<Rightarrow> geo_state \<Rightarrow> string \<Rightarrow> geo_state" where
  "zip_tag wr dataDir idx q tag =
     (case first_entry idx (sourceNames tag) of
        Some (Some data) \<Rightarrow>
          (case writeCache wr dataDir PresetRunetfreedom tag data (q_fs q) of
             (None, fs') \<Rightarrow> q \<lparr> q_fs := fs' \<rparr>
           | (Some p, fs') \<Rightarrow> q \<lparr> q_fs := fs', q_out := (tag, p) # q_out q \<rparr>)
      | _ \<Rightarrow> q)"

definition fetchRunetfreedom :: "writes \<Rightarrow> web \<Rightarrow> unzip \<Rightarrow> string \<Rightarrow> string list \<Rightarrow> bool \<Rightarrow> cache
    \<Rightarrow> (geo_error + (string \<rightharpoonup> string)) \<times> geo_state" where
  "fetchRunetfreedom wr web unzip dataDir tags force fs =
     (case foldl (take_cached dataDir force) (start_state fs, []) tags of (q, missing) \<Rightarrow>
        (if missing = []
         then (Inr (map_of (q_out q)), q \<lparr> q_reports := q_reports q @ [(int (length tags), int (length tags))] \<rparr>)
         else
           (case downloadProgress web runetfreedomZipURL of (data, reports) \<Rightarrow>
              (let q = q \<lparr> q_reports := q_reports q @ reports \<rparr> in
               case data of
                 None \<Rightarrow> (Inl ZipDownload, q)
               | Some data \<Rightarrow>
                   (case unzip data of
                      None \<Rightarrow> (Inl ZipOpen, q)
                    | Some es \<Rightarrow>
                        (let q = foldl (zip_tag wr dataDir (zip_index es)) q missing
                         in (if q_out q = [] \<and> tags \<noteq> [] then Inl (NoTags PresetRunetfreedom)
                             else Inr (map_of (q_out q)), q)))))))"

section \<open>Resolve and Refresh\<close>

text \<open>\<^verbatim>\<open>strings.Contains(tag, "..")\<close>\<close>

fun has_dotdot :: "string \<Rightarrow> bool" where
  "has_dotdot (a # b # s) = (a = CHR ''.'' \<and> b = CHR ''.'' \<or> has_dotdot (b # s))"
| "has_dotdot _ = False"

definition bad_tag :: "string \<Rightarrow> bool" where
  "bad_tag tag \<longleftrightarrow> CHR ''/'' \<in> set tag \<or> CHR 0x5C \<in> set tag \<or> has_dotdot tag"

definition fetch :: "writes \<Rightarrow> web \<Rightarrow> unzip \<Rightarrow> string \<Rightarrow> Source \<Rightarrow> string list \<Rightarrow> bool \<Rightarrow> cache
    \<Rightarrow> (geo_error + (string \<rightharpoonup> string)) \<times> geo_state" where
  "fetch wr web unzip dataDir src tags force fs =
     (if tags = [] then (Inr Map.empty, start_state fs)
      else case find bad_tag tags of
        Some tag \<Rightarrow> (Inl (InvalidTag tag), start_state fs)
      | None \<Rightarrow>
          (if gsrc_Preset src = PresetSagerNet
           then fetchDirect wr web dataDir PresetSagerNet DefaultSagerNetBase tags force fs
           else if gsrc_Preset src = PresetCustom
           then (if gsrc_CustomURL src = [] then (Inl NoCustomURL, start_state fs)
                 else fetchDirect wr web dataDir PresetCustom (gsrc_CustomURL src) tags force fs)
           else fetchRunetfreedom wr web unzip dataDir tags force fs))"

definition Resolve :: "writes \<Rightarrow> web \<Rightarrow> unzip \<Rightarrow> string \<Rightarrow> Source \<Rightarrow> string list \<Rightarrow> cache
    \<Rightarrow> (geo_error + (string \<rightharpoonup> string)) \<times> geo_state" where
  "Resolve wr web unzip dataDir src tags fs = fetch wr web unzip dataDir src tags False fs"

definition Refresh :: "writes \<Rightarrow> web \<Rightarrow> unzip \<Rightarrow> string \<Rightarrow> Source \<Rightarrow> string list \<Rightarrow> cache
    \<Rightarrow> geo_error option \<times> geo_state" where
  "Refresh wr web unzip dataDir src tags fs =
     (case fetch wr web unzip dataDir src tags True fs of
        (Inl e, q) \<Rightarrow> (Some e, q) | (Inr _, q) \<Rightarrow> (None, q))"

section \<open>What a fetch may do\<close>

text \<open>
  The state of a fetch for the given tags: it names and writes cache files of those tags only, removes none of them, and
  leaves or replaces no other file than their temporary ones.
\<close>

definition geo_inv :: "string \<Rightarrow> string \<Rightarrow> string list \<Rightarrow> cache \<Rightarrow> geo_state \<Rightarrow> bool" where
  "geo_inv dataDir preset tags fs q \<longleftrightarrow>
     (\<forall>tag p. map_of (q_out q) tag = Some p \<longrightarrow>
        tag \<in> set tags \<and> p = cachePath dataDir preset tag \<and> q_fs q p \<noteq> None) \<and>
     (\<forall>p. q_fs q p \<noteq> fs p \<longrightarrow> (\<exists>tag \<in> set tags.
        p = cachePath dataDir preset tag \<and> q_fs q p \<noteq> None \<or> p = tmpPath (cachePath dataDir preset tag)))"

lemma tmp_not_cache [simp]: "tmpPath p \<noteq> cachePath d preset tag" "cachePath d preset tag \<noteq> tmpPath p"
proof -
  have "last (tmpPath p) = CHR ''p''" "last (cachePath d preset tag) = CHR ''s''" by (simp_all add: tmpPath_def cachePath_def)
  then show "tmpPath p \<noteq> cachePath d preset tag" "cachePath d preset tag \<noteq> tmpPath p" by auto
qed

lemma geo_inv_start: "geo_inv dataDir preset tags fs (start_state fs)"
  by (simp add: geo_inv_def start_state_def)

lemma geo_inv_found:
  "geo_inv d preset tags fs q \<Longrightarrow> tag \<in> set tags \<Longrightarrow> q_fs q (cachePath d preset tag) \<noteq> None \<Longrightarrow>
     geo_inv d preset tags fs (q \<lparr> q_out := (tag, cachePath d preset tag) # q_out q \<rparr>)"
  by (auto simp: geo_inv_def)

lemma geo_inv_tmp:
  "geo_inv d preset tags fs q \<Longrightarrow> tag \<in> set tags \<Longrightarrow>
     geo_inv d preset tags fs (q \<lparr> q_fs := (q_fs q)(tmpPath (cachePath d preset tag) := x) \<rparr>)"
  unfolding geo_inv_def using tmp_not_cache by (simp, metis)

lemma geo_inv_file:
  "geo_inv d preset tags fs q \<Longrightarrow> tag \<in> set tags \<Longrightarrow>
     geo_inv d preset tags fs (q \<lparr> q_fs := (q_fs q)(cachePath d preset tag \<mapsto> data) \<rparr>)"
  by (auto simp: geo_inv_def)

lemma geo_inv_write:
  assumes "geo_inv d preset tags fs q" "tag \<in> set tags" "writeCache wr d preset tag data (q_fs q) = (r, fs')"
  shows "geo_inv d preset tags fs (q \<lparr> q_fs := fs' \<rparr>)" "r = Some p \<Longrightarrow> p = cachePath d preset tag \<and> fs' p \<noteq> None"
proof -
  let ?p = "cachePath d preset tag"
  have "fs' = q_fs q \<or> (\<exists>x. fs' = (q_fs q)(tmpPath ?p := x)) \<or> fs' = (q_fs q)(?p \<mapsto> data, tmpPath ?p := None)"
    using assms(3) unfolding writeCache_def Let_def by (auto split: if_splits write_result.splits)
  then show "geo_inv d preset tags fs (q \<lparr> q_fs := fs' \<rparr>)"
    using assms(1) geo_inv_tmp [OF assms(1,2)] geo_inv_tmp [OF geo_inv_file [OF assms(1,2)] assms(2)] by auto
  show "r = Some p \<Longrightarrow> p = ?p \<and> fs' p \<noteq> None"
    using assms(3) unfolding writeCache_def Let_def by (auto split: if_splits write_result.splits)
qed

lemma geo_inv_other [simp]:
  "geo_inv d preset tags fs (q \<lparr> q_reports := r \<rparr>) = geo_inv d preset tags fs q"
  "geo_inv d preset tags fs (q \<lparr> q_done := n \<rparr>) = geo_inv d preset tags fs q"
  by (simp_all add: geo_inv_def)

lemma cached_Some: "cached fs d preset tag = Some p \<Longrightarrow> p = cachePath d preset tag \<and> fs p \<noteq> None"
  by (auto simp: cached_def Let_def split: option.splits if_splits)

lemma geo_inv_found_tag:
  assumes "geo_inv d preset tags fs q" "tag \<in> set tags" "q_fs q (cachePath d preset tag) \<noteq> None"
  shows "geo_inv d preset tags fs (found_tag tot tag (cachePath d preset tag) q)"
  using geo_inv_found [OF assms] by (simp add: found_tag_def)

lemma direct_tag_inv:
  assumes "geo_inv d preset tags fs q" "tag \<in> set tags"
  shows "geo_inv d preset tags fs (direct_tag wr web d preset base force tot tag q)"
proof (cases "if force then None else cached (q_fs q) d preset tag")
  case None
  show ?thesis
  proof (cases "downloadFirst web base (sourceNames tag)")
    case (Some data)
    obtain r fs' where w: "writeCache wr d preset tag data (q_fs q) = (r, fs')" by fastforce
    show ?thesis
      using None Some w geo_inv_write [OF assms w] geo_inv_found_tag [OF geo_inv_write(1) [OF assms w] assms(2)]
      by (auto simp: direct_tag_def split: option.splits)
  qed (use None assms in \<open>simp add: direct_tag_def\<close>)
next
  case (Some p)
  then have "cached (q_fs q) d preset tag = Some p" by (auto split: if_splits)
  from cached_Some [OF this] Some geo_inv_found_tag [OF assms] show ?thesis by (auto simp: direct_tag_def)
qed

lemma foldl_inv:
  assumes "I q" "\<And>q x. x \<in> set xs \<Longrightarrow> I q \<Longrightarrow> I (f q x)"
  shows "I (foldl f q xs)"
  using assms by (induction xs arbitrary: q) auto

lemma fetchDirect_inv: "geo_inv d preset tags fs (snd (fetchDirect wr web d preset base tags force fs))"
  unfolding fetchDirect_def Let_def snd_conv
  by (rule foldl_inv) (auto intro: geo_inv_start direct_tag_inv)

lemma zip_tag_inv:
  assumes "geo_inv d PresetRunetfreedom tags fs q" "tag \<in> set tags"
  shows "geo_inv d PresetRunetfreedom tags fs (zip_tag wr d idx q tag)"
proof (cases "first_entry idx (sourceNames tag)")
  case (Some e)
  show ?thesis
  proof (cases e)
    case (Some data)
    obtain r fs' where w: "writeCache wr d PresetRunetfreedom tag data (q_fs q) = (r, fs')" by fastforce
    show ?thesis
      using \<open>first_entry idx _ = _\<close> Some w geo_inv_write [OF assms w] geo_inv_found [OF geo_inv_write(1) [OF assms w] assms(2)]
      by (auto simp: zip_tag_def split: option.splits)
  qed (use \<open>first_entry idx _ = _\<close> assms in \<open>simp add: zip_tag_def\<close>)
qed (use assms in \<open>simp add: zip_tag_def\<close>)

lemma take_cached_inv:
  assumes "geo_inv d PresetRunetfreedom tags fs (fst qm) \<and> set (snd qm) \<subseteq> set tags" "tag \<in> set tags"
  shows "geo_inv d PresetRunetfreedom tags fs (fst (take_cached d force qm tag)) \<and>
    set (snd (take_cached d force qm tag)) \<subseteq> set tags"
proof (cases "if force then None else cached (q_fs (fst qm)) d PresetRunetfreedom tag")
  case (Some p)
  then have "cached (q_fs (fst qm)) d PresetRunetfreedom tag = Some p" by (auto split: if_splits)
  from cached_Some [OF this] Some geo_inv_found [of d PresetRunetfreedom tags fs "fst qm" tag] assms
  show ?thesis by (auto simp: take_cached_def)
qed (use assms in \<open>simp add: take_cached_def\<close>)

lemma fetchRunetfreedom_inv:
  "geo_inv d PresetRunetfreedom tags fs (snd (fetchRunetfreedom wr web unzip d tags force fs))"
proof -
  obtain q missing where q: "foldl (take_cached d force) (start_state fs, []) tags = (q, missing)" by fastforce
  have "geo_inv d PresetRunetfreedom tags fs (fst (foldl (take_cached d force) (start_state fs, []) tags)) \<and>
      set (snd (foldl (take_cached d force) (start_state fs, []) tags)) \<subseteq> set tags"
    by (rule foldl_inv [where I = "\<lambda>qm. geo_inv d PresetRunetfreedom tags fs (fst qm) \<and> set (snd qm) \<subseteq> set tags"])
       (simp add: geo_inv_start, rule take_cached_inv)
  then have i: "geo_inv d PresetRunetfreedom tags fs q" "set missing \<subseteq> set tags" by (simp_all add: q)
  have "geo_inv d PresetRunetfreedom tags fs
      (foldl (zip_tag wr d idx) (q \<lparr> q_reports := r \<rparr>) missing)" for idx r
    by (rule foldl_inv) (use i zip_tag_inv in auto)
  with i show ?thesis
    by (auto simp: fetchRunetfreedom_def q Let_def split: option.splits prod.splits)
qed

lemma fetch_result:
  "fst (fetchDirect wr web d preset base tags force fs) = Inr out \<Longrightarrow>
     out = map_of (q_out (snd (fetchDirect wr web d preset base tags force fs)))"
  "fst (fetchRunetfreedom wr web unzip d tags force fs) = Inr out \<Longrightarrow>
     out = map_of (q_out (snd (fetchRunetfreedom wr web unzip d tags force fs)))"
  by (auto simp: fetchDirect_def fetchRunetfreedom_def Let_def split: if_splits option.splits prod.splits)

lemma presetDir_cases: "presetDir a = presetDir b \<Longrightarrow> geo_inv d a tags fs q = geo_inv d b tags fs q"
  by (simp add: geo_inv_def cachePath_def)

lemma fetch_inv: "geo_inv d (gsrc_Preset src) tags fs (snd (fetch wr web unzip d src tags force fs))"
proof -
  have s: "geo_inv d (gsrc_Preset src) tags fs (start_state fs)" by (rule geo_inv_start)
  show ?thesis
  proof (cases "gsrc_Preset src = PresetSagerNet \<or> gsrc_Preset src = PresetCustom")
    case True
    with s fetchDirect_inv [of d "gsrc_Preset src" tags fs wr web _ force] show ?thesis
      by (auto simp: fetch_def split: option.splits)
  next
    case False
    then have "presetDir (gsrc_Preset src) = presetDir PresetRunetfreedom" by (simp add: presetDir_def)
    from presetDir_cases [OF this] False s fetchRunetfreedom_inv [of d tags fs wr web unzip force] show ?thesis
      by (auto simp: fetch_def split: option.splits)
  qed
qed

lemma fetch_out:
  "fst (fetch wr web unzip d src tags force fs) = Inr out \<Longrightarrow>
     out = map_of (q_out (snd (fetch wr web unzip d src tags force fs)))"
  using fetch_result by (auto simp: fetch_def start_state_def split: if_splits option.splits)

lemma fetch_refused:
  assumes "list_ex bad_tag tags"
  shows "\<exists>t \<in> set tags. bad_tag t \<and> fetch wr web unzip d src tags force fs = (Inl (InvalidTag t), start_state fs)"
proof -
  obtain t where t: "find bad_tag tags = Some t"
    using assms by (cases "find bad_tag tags") (auto simp: find_None_iff list_ex_iff)
  then have "t \<in> set tags \<and> bad_tag t" by (auto simp: find_Some_iff)
  moreover have "tags \<noteq> []" using assms by auto
  ultimately show ?thesis using t by (auto simp: fetch_def)
qed

text \<open>
  C37. The cache is confined. Whatever the servers and archives deliver and whichever writes fail, a fetch (of
  \<^verbatim>\<open>Resolve\<close> or of \<^verbatim>\<open>Refresh\<close>) changes no file except those that the cache keeps for the tags it was asked for, in
  the directory of the selected preset, which it never removes, and the temporary files beside them, which a failed
  write or rename leaves. When a tag has a separator or two dots, the fetch fails with an error naming such a tag and
  no file is changed. What a successful fetch returns for a tag is the path of that tag's file, and the file is there.
\<close>

theorem fetch_confined:
  assumes "fetch wr web unzip dataDir src tags force fs = (r, q)"
  shows "(list_ex bad_tag tags \<longrightarrow> q_fs q = fs \<and> (\<exists>tag. tag \<in> set tags \<and> bad_tag tag \<and> r = Inl (InvalidTag tag))) \<and>
     (\<forall>p. q_fs q p \<noteq> fs p \<longrightarrow> (\<exists>tag file. tag \<in> set tags \<and>
        file = dataDir @ ''/geo/'' @ presetDir (gsrc_Preset src) @ ''/'' @ tag @ ''.srs'' \<and>
        (p = file \<and> q_fs q p \<noteq> None \<or> p = file @ ''.tmp''))) \<and>
     (case r of Inl e \<Rightarrow> True
      | Inr out \<Rightarrow> (\<forall>tag p. out tag = Some p \<longrightarrow>
          tag \<in> set tags \<and> p = cachePath dataDir (gsrc_Preset src) tag \<and> q_fs q p \<noteq> None))"
proof (intro conjI)
  have g: "geo_inv dataDir (gsrc_Preset src) tags fs q" using fetch_inv [of dataDir src tags fs] assms by (metis snd_conv)
  have "case r of Inl e \<Rightarrow> True | Inr out \<Rightarrow> out = map_of (q_out q)"
    using fetch_out [of wr web unzip dataDir src tags force fs] assms by (auto split: sum.splits)
  with g show "case r of Inl e \<Rightarrow> True
      | Inr out \<Rightarrow> (\<forall>tag p. out tag = Some p \<longrightarrow>
          tag \<in> set tags \<and> p = cachePath dataDir (gsrc_Preset src) tag \<and> q_fs q p \<noteq> None)"
    by (auto simp: geo_inv_def split: sum.splits)
  show "list_ex bad_tag tags \<longrightarrow> q_fs q = fs \<and> (\<exists>tag. tag \<in> set tags \<and> bad_tag tag \<and> r = Inl (InvalidTag tag))"
    using fetch_refused [of tags wr web unzip dataDir src force fs] assms by (auto simp: start_state_def)
  from g show "\<forall>p. q_fs q p \<noteq> fs p \<longrightarrow> (\<exists>tag file. tag \<in> set tags \<and>
        file = dataDir @ ''/geo/'' @ presetDir (gsrc_Preset src) @ ''/'' @ tag @ ''.srs'' \<and>
        (p = file \<and> q_fs q p \<noteq> None \<or> p = file @ ''.tmp''))"
    unfolding geo_inv_def cachePath_def tmpPath_def by metis
qed

text \<open>A cache with one file, and a web that answers nothing.\<close>

definition one_file :: cache where
  "one_file = [''d/geo/runetfreedom/geoip-ru.srs'' \<mapsto> ''data'']"

definition odd_source :: Source where
  "odd_source = \<lparr> gsrc_Preset = ''x'', gsrc_CustomURL = [] \<rparr>"

definition good_disk :: writes where
  "good_disk = \<lparr> w_mkdir = (\<lambda>_. True), w_tmp = (\<lambda>_. Written), w_rename = (\<lambda>_. True) \<rparr>"

lemma one_file_found:
  "\<exists>out q p. fetch good_disk (\<lambda>_. None) (\<lambda>_. None) ''d'' odd_source [''geoip-ru''] False one_file = (Inr out, q) \<and>
     out ''geoip-ru'' = Some p"
  by (simp add: fetch_def bad_tag_def odd_source_def PresetSagerNet_def PresetCustom_def fetchRunetfreedom_def
      take_cached_def start_state_def cached_def cachePath_def presetDir_def PresetRunetfreedom_def one_file_def Let_def)

theorem fetch_confined_witness:
  "(\<exists>out q p. fetch good_disk (\<lambda>_. None) (\<lambda>_. None) ''d'' odd_source [''geoip-ru''] False one_file = (Inr out, q) \<and>
     out ''geoip-ru'' = Some p \<and> q_fs q p \<noteq> None) \<and>
   (\<exists>e q. fetch good_disk (\<lambda>_. None) (\<lambda>_. None) ''d'' odd_source [''../x''] True one_file = (Inl e, q) \<and> q_fs q = one_file)"
proof
  obtain out q p where f: "fetch good_disk (\<lambda>_. None) (\<lambda>_. None) ''d'' odd_source [''geoip-ru''] False one_file = (Inr out, q)"
    and t: "out ''geoip-ru'' = Some p" using one_file_found by (elim exE conjE)
  from fetch_confined [OF f, THEN conjunct2, THEN conjunct2, unfolded sum.case] f t
  show "\<exists>out q p. fetch good_disk (\<lambda>_. None) (\<lambda>_. None) ''d'' odd_source [''geoip-ru''] False one_file = (Inr out, q) \<and>
     out ''geoip-ru'' = Some p \<and> q_fs q p \<noteq> None" by metis
  obtain r q where "fetch good_disk (\<lambda>_. None) (\<lambda>_. None) ''d'' odd_source [''../x''] True one_file = (r, q)" by fastforce
  moreover have "list_ex bad_tag [''../x'']" by (simp add: bad_tag_def)
  ultimately show "\<exists>e q. fetch good_disk (\<lambda>_. None) (\<lambda>_. None) ''d'' odd_source [''../x''] True one_file = (Inl e, q) \<and> q_fs q = one_file"
    using fetch_confined by blast
qed

end
