(* ===== verification/Bridge.thy ===== *)
theory Bridge
  imports Configgen Chainctl Geo
begin

text \<open>
  \<^verbatim>\<open>cmd/itgray-bridge/configbuilder.go\<close>: how the bridge turns a server, a mode and the settings into the
  two documents that the chain runs with, and \<^verbatim>\<open>geo.go\<close>, the refresh of the rule-set files. This is
  where the rules, the settings, the geo files, the server entry and the two generators meet.
  \<open>lookup\<close> is \<^verbatim>\<open>net.LookupIP\<close>, \<open>re\<close> whether a regular expression compiles, \<open>geo\<close> the geo manager's
  \<^verbatim>\<open>Resolve\<close> for the settings' source; the files \<^verbatim>\<open>config.json\<close> and \<^verbatim>\<open>rules.json\<close> are arguments.
\<close>

section \<open>Addresses\<close>

text \<open>A \<^verbatim>\<open>net.IP\<close> is 4 or 16 bytes.\<close>

type_synonym ip = "8 word list"

definition To4 :: "ip \<Rightarrow> ip option" where
  "To4 i =
     (if length i = 4 then Some i
      else if length i = 16 \<and> take 12 i = replicate 10 0 @ [0xff, 0xff] then Some (drop 12 i)
      else None)"

definition ip4_string :: "ip \<Rightarrow> string" where
  "ip4_string i = join_with ''.'' (map (\<lambda>b. nat_str (unat b)) i)"

fun first_v4 :: "ip list \<Rightarrow> string option" where
  "first_v4 [] = None"
| "first_v4 (i # is) = (case To4 i of Some v \<Rightarrow> Some (ip4_string v) | None \<Rightarrow> first_v4 is)"

definition resolveServerIPv4 :: "(string \<Rightarrow> string + ip list) \<Rightarrow> string \<Rightarrow> string + string" where
  "resolveServerIPv4 lookup host =
     (case lookup host of
        Inl e \<Rightarrow> Inl (''lookup '' @ quote host @ '': '' @ e)
      | Inr ips \<Rightarrow>
          (case first_v4 ips of
             Some v \<Rightarrow> Inr v
           | None \<Rightarrow> Inl (''no IPv4 address for server host '' @ quote host)))"

section \<open>The builder\<close>

definition defaultXrayPort :: int where "defaultXrayPort = 1081"

text \<open>The store's \<^verbatim>\<open>Load\<close> falls back to the default model, so its error is ignored.\<close>

definition loadRulesFromDataDir :: "disk \<Rightarrow> Model" where
  "loadRulesFromDataDir rulesFile = Load rulesFile"

text \<open>\<^verbatim>\<open>exclude_other.go\<close>; \<open>windows\<close> is the other build, whose list is nil.\<close>

definition serverExcludeForTUN :: "bool \<Rightarrow> string \<Rightarrow> string list" where
  "serverExcludeForTUN windows i =
     (if windows then []
      else [i @ ''/32'', ''10.0.0.0/8'', ''172.16.0.0/12'', ''192.168.0.0/16'', ''169.254.0.0/16''])"

datatype build_error = BResolve string | BGeo geo_error | BUnknownMode string | BSingbox singbox_error
  | BIncompatible compat_error

type_synonym geo_resolve = "GeoSource \<Rightarrow> string list \<Rightarrow> geo_error + (string \<rightharpoonup> string)"

definition tun_singbox_input :: "bool \<Rightarrow> string \<Rightarrow> string \<Rightarrow> (string \<rightharpoonup> string) \<Rightarrow> Model \<Rightarrow> Network \<Rightarrow> SingboxInput" where
  "tun_singbox_input windows logLevel serverIP geoSets model net =
     \<lparr> in_Mode = ModeTun,
       in_SocksInboundPort = sp_SOCKSPort (n_SysProxy net), in_HTTPInboundPort = sp_HTTPPort (n_SysProxy net),
       in_TunName = defaultTunName, in_TunIPv4 = t_IPv4CIDR (n_TUN net), in_MTU = ClampMTU (t_MTU (n_TUN net)),
       in_XraySOCKSHost = ''127.0.0.1'', in_XraySOCKSPort = defaultXrayPort,
       in_Rules = model, in_DNSUpstreams = ResolveDNS (n_DNS net), in_AllowLAN = n_AllowLAN net,
       in_IPv6Strategy = MapIPv6Strategy (n_IPv6Mode net),
       in_TunIPv6 = TunIPv6OrDefault (t_IPv6CIDR (n_TUN net)),
       in_FakeIPv6Range = FakeIPv6Range (n_IPv6Mode net), in_FakeIP = True,
       in_RouteExcludeAddress = serverExcludeForTUN windows serverIP, in_LogLevel = logLevel,
       in_GeoRuleSets = geoSets \<rparr>"

definition sys_singbox_input :: "string \<Rightarrow> (string \<rightharpoonup> string) \<Rightarrow> Model \<Rightarrow> Network \<Rightarrow> SingboxInput" where
  "sys_singbox_input logLevel geoSets model net =
     \<lparr> in_Mode = ModeSysProxy,
       in_SocksInboundPort = sp_SOCKSPort (n_SysProxy net), in_HTTPInboundPort = sp_HTTPPort (n_SysProxy net),
       in_TunName = [], in_TunIPv4 = [], in_MTU = 0,
       in_XraySOCKSHost = ''127.0.0.1'', in_XraySOCKSPort = defaultXrayPort,
       in_Rules = model, in_DNSUpstreams = ResolveDNS (n_DNS net), in_AllowLAN = n_AllowLAN net,
       in_IPv6Strategy = MapIPv6Strategy (n_IPv6Mode net), in_TunIPv6 = [], in_FakeIPv6Range = [],
       in_FakeIP = False, in_RouteExcludeAddress = [], in_LogLevel = logLevel, in_GeoRuleSets = geoSets \<rparr>"

definition buildConfigs :: "bool \<Rightarrow> (string \<Rightarrow> bool) \<Rightarrow> (string \<Rightarrow> string + ip list) \<Rightarrow> geo_resolve option
    \<Rightarrow> disk \<Rightarrow> disk \<Rightarrow> Server \<Rightarrow> string \<Rightarrow> Network \<Rightarrow> build_error + json \<times> json" where
  "buildConfigs windows re lookup geo configFile rulesFile srv mode net =
     (let logLevel = (case Config_Load configFile of None \<Rightarrow> [] | Some c \<Rightarrow> de_LogLevel (c_Debug c)) in
      case resolveServerIPv4 lookup (v_Address (s_Vless srv)) of
        Inl e \<Rightarrow> Inl (BResolve e)
      | Inr serverIP \<Rightarrow>
          (let model = loadRulesFromDataDir rulesFile; tags = GeoTags re model in
           case (case geo of
                   Some resolve \<Rightarrow> (if tags \<noteq> [] then resolve (n_GeoSource net) tags else Inr Map.empty)
                 | None \<Rightarrow> Inr Map.empty) of
             Inl e \<Rightarrow> Inl (BGeo e)
           | Inr geoSets \<Rightarrow>
               (case (if mode = ModeTUN then Some (tun_singbox_input windows logLevel serverIP geoSets model net)
                      else if mode = ModeSys then Some (sys_singbox_input logLevel geoSets model net)
                      else None) of
                  None \<Rightarrow> Inl (BUnknownMode mode)
                | Some sbInput \<Rightarrow>
                    (case BuildSingbox re sbInput of
                       Inl e \<Rightarrow> Inl (BSingbox e)
                     | Inr sb \<Rightarrow>
                         (case Normalize (s_Vless srv) of
                            Inl e \<Rightarrow> Inl (BIncompatible e)
                          | Inr (_, vc) \<Rightarrow>
                              Inr (sb, BuildXray \<lparr> x_Server = vc, x_SocksPort = defaultXrayPort,
                                                   x_ServerIP = serverIP \<rparr>))))))"

section \<open>geo.go\<close>

fun union_from :: "string list \<Rightarrow> string list \<Rightarrow> string list" where
  "union_from seen [] = []"
| "union_from seen (t # ts) = (if t \<in> set seen then union_from seen ts else t # union_from (t # seen) ts)"

definition unionGeoTags :: "string list \<Rightarrow> string list" where
  "unionGeoTags ruleTags = union_from [] (BaseTags @ ruleTags)"

datatype refresh_error = RLoad | RGeo geo_error

definition geo_Refresh :: "(string \<Rightarrow> bool) \<Rightarrow> writes \<Rightarrow> web \<Rightarrow> unzip \<Rightarrow> string \<Rightarrow> disk \<Rightarrow> disk \<Rightarrow> cache
    \<Rightarrow> refresh_error option \<times> cache" where
  "geo_Refresh re wr web unzip dataDir configFile rulesFile fs =
     (case Config_Load configFile of
        None \<Rightarrow> (Some RLoad, fs)
      | Some c \<Rightarrow>
          (let tags = unionGeoTags (GeoTags re (loadRulesFromDataDir rulesFile));
               src = \<lparr> gsrc_Preset = gs_Preset (n_GeoSource (c_Network c)),
                       gsrc_CustomURL = gs_CustomURL (n_GeoSource (c_Network c)) \<rparr>
           in case Geo.Refresh wr web unzip dataDir src tags fs of
                (e, q) \<Rightarrow> (map_option RGeo e, q_fs q)))"

section \<open>Facts about the pieces\<close>

lemma To4_length: "To4 i = Some v \<Longrightarrow> length v = 4"
  by (auto simp: To4_def split: if_splits)

lemma join_with_nonempty: "xs \<noteq> [] \<Longrightarrow> hd xs \<noteq> [] \<Longrightarrow> join_with sep xs \<noteq> []"
  by (induction sep xs rule: join_with.induct) auto

lemma resolve_nonempty: "resolveServerIPv4 lookup host = Inr a \<Longrightarrow> a \<noteq> []"
proof -
  have "first_v4 ips = Some a \<Longrightarrow> a \<noteq> []" for ips
  proof (induction ips)
    case (Cons i ips)
    show ?case
    proof (cases "To4 i")
      case (Some v)
      with To4_length [OF Some] have "v \<noteq> []" by auto
      then have "ip4_string v \<noteq> []" unfolding ip4_string_def
        by (intro join_with_nonempty) (auto simp: hd_map)
      with Some Cons.prems show ?thesis by auto
    qed (use Cons in simp)
  qed simp
  then show "resolveServerIPv4 lookup host = Inr a \<Longrightarrow> a \<noteq> []"
    by (auto simp: resolveServerIPv4_def split: sum.splits option.splits)
qed

lemma buildConfigs_Inr:
  assumes "buildConfigs windows re lookup geo cf rf srv mode net = Inr (sb, xr)"
  obtains logLevel serverIP geoSets i msgs vc where
    "resolveServerIPv4 lookup (v_Address (s_Vless srv)) = Inr serverIP"
    "mode = ModeTUN \<and> i = tun_singbox_input windows logLevel serverIP geoSets (Load rf) net \<or>
     mode = ModeSys \<and> i = sys_singbox_input logLevel geoSets (Load rf) net"
    "BuildSingbox re i = Inr sb" "Normalize (s_Vless srv) = Inr (msgs, vc)"
    "xr = BuildXray \<lparr> x_Server = vc, x_SocksPort = defaultXrayPort, x_ServerIP = serverIP \<rparr>"
  using assms
  by (auto simp: buildConfigs_def Let_def loadRulesFromDataDir_def split: sum.splits if_splits) blast

text \<open>The listeners of the two documents: where they listen and on which port.\<close>

definition listens :: "string \<Rightarrow> json \<Rightarrow> (string \<times> int) list" where
  "listens port_key b =
     (case (key_str ''listen'' b, jget b port_key) of
        (Some h, Some (JNum p)) \<Rightarrow> [(h, p)] | _ \<Rightarrow> [])"

definition listeners :: "string \<Rightarrow> json \<Rightarrow> (string \<times> int) list" where
  "listeners port_key doc = concat (map (listens port_key) (arr_at ''inbounds'' doc))"

definition dials :: "json \<Rightarrow> (string \<times> int) list" where
  "dials ob = (case (key_str ''server'' ob, jget ob ''server_port'') of
     (Some h, Some (JNum p)) \<Rightarrow> [(h, p)] | _ \<Rightarrow> [])"

definition vnext_addresses :: "json \<Rightarrow> string list" where
  "vnext_addresses doc =
     keys_in ''address'' (concat (map (\<lambda>ob. case jget ob ''settings'' of Some st \<Rightarrow> arr_at ''vnext'' st | None \<Rightarrow> [])
       (arr_at ''outbounds'' doc)))"

lemma xray_listeners:
  "listeners ''port'' (BuildXray x) = [(''127.0.0.1'', x_SocksPort x), (''127.0.0.1'', XrayAPIPort)]"
  by (simp add: listeners_def listens_def BuildXray_def xray_inbounds_def arr_at_def key_str_def)

lemma xray_vnext: "x_ServerIP x \<noteq> [] \<Longrightarrow> vnext_addresses (BuildXray x) = [x_ServerIP x]"
  by (simp add: vnext_addresses_def BuildXray_def xray_outbound_def arr_at_def key_str_def keys_in_def
      map_filter_def Let_def)

lemma singbox_dials:
  assumes "jget doc ''outbounds'' = Some (outbounds i)"
  shows "map dials (filter (\<lambda>ob. key_str ''tag'' ob = Some ''proxy'') (arr_at ''outbounds'' doc))
     = [[(in_XraySOCKSHost i, in_XraySOCKSPort i)]]"
  using assms by (simp add: arr_at_def outbounds_def key_str_def dials_def)

text \<open>The prefixes that the TUN device leaves to the host's own routes.\<close>

definition tun_excludes :: "json \<Rightarrow> string list" where
  "tun_excludes doc = concat (map (\<lambda>b. List.map_filter jstr (arr_at ''route_exclude_address'' b))
     (filter (\<lambda>b. key_str ''type'' b = Some ''tun'') (arr_at ''inbounds'' doc)))"

lemma tun_excludes_input:
  assumes "jget doc ''inbounds'' = Some (JArr (buildInbounds i (primary_inbound i)))" "in_Mode i = ModeTun"
  shows "tun_excludes doc = in_RouteExcludeAddress i"
proof -
  have s: "List.map_filter jstr (map JStr xs) = xs" for xs by (induction xs) (simp_all add: map_filter_def)
  have "filter (\<lambda>b. key_str ''type'' b = Some ''tun'') (localProxyInbounds a b) = []" for a b
    by (simp add: localProxyInbounds_def key_str_def)
  then have "filter (\<lambda>b. key_str ''type'' b = Some ''tun'') (buildInbounds i (primary_inbound i)) = [primary_inbound i]"
    using assms(2) by (simp add: buildInbounds_def primary_inbound_def key_str_def Let_def)
  then show ?thesis
    using assms s by (simp add: tun_excludes_def arr_at_def primary_inbound_def Let_def map_filter_def)
qed

section \<open>Properties\<close>

text \<open>
  C18. The two documents fit together, and to the host. Whenever the builder succeeds: sing-box's one proxy
  outbound dials exactly the loopback SOCKS port on which xray listens; xray dials the address that was resolved before
  the tunnel exists, and nothing else; the server's configuration passed the compatibility check. In TUN mode, on other
  systems than Windows, that address and the private IPv4 ranges are excluded from the tunnel, so that the connection
  to the server is not sent through itself; on Windows the document excludes nothing (there the helper adds a host
  route to the server).
\<close>

theorem buildConfigs_wired:
  assumes "buildConfigs windows re lookup geo cf rf srv mode net = Inr (sb, xr)"
  shows "\<exists>serverIP msgs vc. resolveServerIPv4 lookup (v_Address (s_Vless srv)) = Inr serverIP \<and>
     (mode = ModeTUN \<or> mode = ModeSys) \<and>
     Normalize (s_Vless srv) = Inr (msgs, vc) \<and>
     map dials (filter (\<lambda>ob. key_str ''tag'' ob = Some ''proxy'') (arr_at ''outbounds'' sb))
       = [[(''127.0.0.1'', 1081)]] \<and>
     (''127.0.0.1'', 1081) \<in> set (listeners ''port'' xr) \<and>
     vnext_addresses xr = [serverIP] \<and>
     (mode = ModeTUN \<longrightarrow> tun_excludes sb = (if windows then []
        else [serverIP @ ''/32'', ''10.0.0.0/8'', ''172.16.0.0/12'', ''192.168.0.0/16'', ''169.254.0.0/16'']))"
proof -
  obtain logLevel serverIP geoSets i msgs vc where r:
    "resolveServerIPv4 lookup (v_Address (s_Vless srv)) = Inr serverIP"
    and i: "mode = ModeTUN \<and> i = tun_singbox_input windows logLevel serverIP geoSets (Load rf) net \<or>
       mode = ModeSys \<and> i = sys_singbox_input logLevel geoSets (Load rf) net"
    and sb: "BuildSingbox re i = Inr sb" and n: "Normalize (s_Vless srv) = Inr (msgs, vc)"
    and xr: "xr = BuildXray \<lparr> x_Server = vc, x_SocksPort = defaultXrayPort, x_ServerIP = serverIP \<rparr>"
    using assms by (rule buildConfigs_Inr)
  have ob: "jget sb ''outbounds'' = Some (outbounds i)"
    and b: "jget sb ''inbounds'' = Some (JArr (buildInbounds i (primary_inbound i)))"
    using BuildSingbox_Inr [OF sb] by metis+
  have x: "in_XraySOCKSHost i = ''127.0.0.1''" "in_XraySOCKSPort i = 1081"
    using i by (auto simp: tun_singbox_input_def sys_singbox_input_def defaultXrayPort_def)
  have "mode = ModeTUN \<longrightarrow> tun_excludes sb = serverExcludeForTUN windows serverIP"
    using tun_excludes_input [OF b] i
    by (auto simp: tun_singbox_input_def ModeTUN_def ModeSys_def)
  then show ?thesis
    unfolding serverExcludeForTUN_def using r i n singbox_dials [OF ob] x resolve_nonempty [OF r] xr
    by (auto simp: xray_listeners xray_vnext defaultXrayPort_def)
qed

text \<open>A first run: no files yet, a server at a known address, every rule set available.\<close>

definition sample_lookup :: "string \<Rightarrow> string + ip list" where
  "sample_lookup _ = Inr [[1, 2, 3, 4]]"

definition all_geo :: geo_resolve where
  "all_geo _ _ = Inr (\<lambda>_. Some ''f.srs'')"

lemma first_run_builds:
  assumes "mode = ModeTUN \<or> mode = ModeSys"
  shows "\<exists>sb xr. buildConfigs windows re sample_lookup (Some all_geo) Absent Absent zero_Server mode net = Inr (sb, xr)"
proof -
  have n: "\<exists>msgs vc. Normalize (s_Vless zero_Server) = Inr (msgs, vc)"
    by (simp add: Normalize_def zero_Server_def zero_Config_def security_defs Let_def)
  have r: "\<exists>a. resolveServerIPv4 sample_lookup h = Inr a" for h
    by (simp add: resolveServerIPv4_def sample_lookup_def To4_def)
  have l: "Load Absent = DefaultModel" by (simp add: Load_def)
  have g: "GeoTags re DefaultModel \<noteq> [] \<Longrightarrow> \<exists>doc. BuildSingbox re i = Inr doc"
    if "in_Rules i = DefaultModel" "in_GeoRuleSets i = (\<lambda>_. Some ''f.srs'')" for i
    using that DefaultModel_Validate by (intro BuildSingbox_ok) (simp_all add: list_all_iff)
  have e: "GeoTags re DefaultModel = [] \<Longrightarrow> \<exists>doc. BuildSingbox re i = Inr doc" if "in_Rules i = DefaultModel" for i
    using that DefaultModel_Validate by (intro BuildSingbox_ok) simp_all
  obtain ll where ll: "(case Config_Load Absent of None \<Rightarrow> [] | Some c \<Rightarrow> de_LogLevel (c_Debug c)) = ll" by simp
  obtain a where a: "resolveServerIPv4 sample_lookup (v_Address (s_Vless zero_Server)) = Inr a" using r by blast
  define gs where "gs = (if GeoTags re DefaultModel \<noteq> [] then (\<lambda>_. Some ''f.srs'') else Map.empty :: string \<rightharpoonup> string)"
  define i where "i = (if mode = ModeTUN then tun_singbox_input windows ll a gs DefaultModel net
     else sys_singbox_input ll gs DefaultModel net)"
  have "\<exists>doc. BuildSingbox re i = Inr doc"
    using g [of i] e [of i] by (auto simp: i_def gs_def tun_singbox_input_def sys_singbox_input_def)
  then show ?thesis
    using assms a n
    by (auto simp: buildConfigs_def loadRulesFromDataDir_def l ll Let_def all_geo_def i_def gs_def
        ModeTUN_def ModeSys_def split: if_splits)
qed

theorem buildConfigs_wired_witness:
  "\<exists>sb xr. buildConfigs False (\<lambda>_. True) sample_lookup (Some all_geo) Absent Absent zero_Server ModeTUN (c_Network Defaults)
      = Inr (sb, xr) \<and> (''127.0.0.1'', 1081) \<in> set (listeners ''port'' xr) \<and> length (vnext_addresses xr) = 1 \<and>
      length (tun_excludes sb) = 5"
proof -
  obtain sb xr where b: "buildConfigs False (\<lambda>_. True) sample_lookup (Some all_geo) Absent Absent zero_Server ModeTUN
      (c_Network Defaults) = Inr (sb, xr)" using first_run_builds by blast
  from buildConfigs_wired [OF b] b show ?thesis by auto
qed

text \<open>
  The settings accept a proxy port that the chain cannot use: 1081 is in range and differs from the
  HTTP port, so an update to it is saved; but it is the fixed port between sing-box and xray, and in
  the documents that are then built both programs listen on it.
\<close>

theorem reserved_port_accepted:
  "\<exists>c sb xr. applyPatch fl ''network'' [''socksPort'' \<mapsto> JNum 1081] Defaults = Inr c \<and>
     buildConfigs windows re sample_lookup (Some all_geo) Absent Absent zero_Server ModeSys (c_Network c) = Inr (sb, xr) \<and>
     (''127.0.0.1'', 1081) \<in> set (listeners ''listen_port'' sb) \<and>
     (''127.0.0.1'', 1081) \<in> set (listeners ''port'' xr)"
proof -
  obtain c where c: "applyPatch fl ''network'' [''socksPort'' \<mapsto> JNum 1081] Defaults = Inr c"
    and p: "sp_SOCKSPort (n_SysProxy (c_Network c)) = 1081" "sp_HTTPPort (n_SysProxy (c_Network c)) = 8888"
    by (simp add: applyPatch_def applyNetwork_def validateNetwork_def set_ranged_def as_int_def Defaults_def)
  obtain sb xr where b: "buildConfigs windows re sample_lookup (Some all_geo) Absent Absent zero_Server ModeSys
      (c_Network c) = Inr (sb, xr)" using first_run_builds by blast
  then show ?thesis
  proof (rule buildConfigs_Inr)
    fix logLevel serverIP geoSets i msgs vc
    assume i: "ModeSys = ModeTUN \<and> i = tun_singbox_input windows logLevel serverIP geoSets (Load Absent) (c_Network c) \<or>
        ModeSys = ModeSys \<and> i = sys_singbox_input logLevel geoSets (Load Absent) (c_Network c)"
      and sb: "BuildSingbox re i = Inr sb"
      and xr: "xr = BuildXray \<lparr> x_Server = vc, x_SocksPort = defaultXrayPort, x_ServerIP = serverIP \<rparr>"
    have ib: "jget sb ''inbounds'' = Some (JArr (buildInbounds i (primary_inbound i)))"
      using BuildSingbox_Inr [OF sb] by metis
    have "(''127.0.0.1'', 1081) \<in> set (listeners ''listen_port'' sb)"
      using i p by (auto simp: listeners_def listens_def arr_at_def ib buildInbounds_def localProxyInbounds_def
          sys_singbox_input_def ModeSysProxy_def ModeTun_def ModeTUN_def ModeSys_def key_str_def)
    then show ?thesis using c b xr by (auto simp: xray_listeners defaultXrayPort_def)
  qed
qed

end
