(* ===== verification/Hub.thy ===== *)
theory Hub
  imports Prelude
begin

text \<open>
  Package \<^verbatim>\<open>internal/hub\<close>: the in-process fan-out of events (hub.go), and the contract of a bounded
  buffer that keeps the newest entries, which the hub's channels and the log buffer share.
\<close>

section \<open>Bounded buffers\<close>

lemma lastn_lastn_append: "lastn n (lastn n xs @ ys) = lastn n (xs @ ys)"
proof (cases "length xs \<le> n")
  case False
  define k where "k = length xs - n"
  have "drop (length ys + k) (take k xs @ drop k xs @ ys) = drop (length ys) (drop k xs @ ys)"
    using False by (simp add: k_def)
  then have "drop (length ys + k) (xs @ ys) = drop (length ys) (drop k xs @ ys)"
    by (metis append.assoc append_take_drop_id)
  with False show ?thesis by (simp add: lastn_def k_def add.commute)
qed (simp add: lastn_all)

locale ring =
  fixes cap :: nat
    and items :: "'s \<Rightarrow> 'e list"
    and push :: "'e \<Rightarrow> 's \<Rightarrow> 's"
    and ok :: "'s \<Rightarrow> bool"
  assumes items_push: "ok s \<Longrightarrow> items (push e s) = lastn cap (items s @ [e])"
    and ok_push: "ok s \<Longrightarrow> ok (push e s)"
    and ok_length: "ok s \<Longrightarrow> length (items s) \<le> cap"
begin

lemma ok_pushes: "ok s \<Longrightarrow> ok (fold push es s)"
  by (induction es arbitrary: s) (auto simp: ok_push)

lemma items_pushes: "ok s \<Longrightarrow> items (fold push es s) = lastn cap (items s @ es)"
proof (induction es arbitrary: s)
  case Nil
  then show ?case using ok_length by (simp add: lastn_all)
next
  case (Cons e es)
  have "items (fold push es (push e s)) = lastn cap (lastn cap (items s @ [e]) @ es)"
    using Cons by (simp add: ok_push items_push)
  then show ?case by (simp add: lastn_lastn_append)
qed

lemma pushes_bounded: "ok s \<Longrightarrow> length (items (fold push es s)) \<le> cap"
  using ok_pushes ok_length by blast

lemma pushes_all: "ok s \<Longrightarrow> length (items s) + length es \<le> cap \<Longrightarrow> items (fold push es s) = items s @ es"
  by (simp add: items_pushes lastn_all)

end

section \<open>Channels\<close>

text \<open>
  A buffered channel: its capacity, what it holds, what its receiver has taken so far, and whether
  it is closed. A receiver may take at any moment, also in the middle of a publication, because it
  does not hold the hub's lock.
\<close>

record 'e chan =
  ch_cap :: nat
  ch_buf :: "'e list"
  ch_got :: "'e list"
  ch_closed :: bool

definition receive :: "nat \<Rightarrow> 'e chan \<Rightarrow> 'e chan" where
  "receive n ch = ch \<lparr> ch_buf := drop n (ch_buf ch), ch_got := ch_got ch @ take n (ch_buf ch) \<rparr>"

definition has_room :: "'e chan \<Rightarrow> bool" where
  "has_room ch \<longleftrightarrow> length (ch_buf ch) < ch_cap ch"

definition send :: "'e \<Rightarrow> 'e chan \<Rightarrow> 'e chan" where
  "send e ch = ch \<lparr> ch_buf := ch_buf ch @ [e] \<rparr>"

definition drop_oldest :: "'e chan \<Rightarrow> 'e chan" where
  "drop_oldest ch = ch \<lparr> ch_buf := tl (ch_buf ch) \<rparr>"

text \<open>The three selects of \<^verbatim>\<open>Publish\<close>; the receiver takes \<open>r1\<close> and \<open>r2\<close> events between them.\<close>

definition publish_chan :: "nat \<Rightarrow> nat \<Rightarrow> 'e \<Rightarrow> 'e chan \<Rightarrow> 'e chan" where
  "publish_chan r1 r2 e ch =
     (if has_room ch then send e ch
      else let ch = receive r2 (drop_oldest (receive r1 ch))
           in if has_room ch then send e ch else ch)"

section \<open>The hub\<close>

text \<open>The channels ever made, by number, and the numbers of those subscribed.\<close>

record 'e Hub =
  hb_chans :: "'e chan list"
  hb_subs :: "nat list"
  hb_closed :: bool

definition New_Hub :: "'e Hub" where
  "New_Hub = \<lparr> hb_chans = [], hb_subs = [], hb_closed = False \<rparr>"

definition Hub_Subscribe :: "int \<Rightarrow> 'e Hub \<Rightarrow> nat \<times> 'e Hub" where
  "Hub_Subscribe buffer h =
     (let n = (if buffer \<le> 0 then 1 else nat buffer);
          ch = \<lparr> ch_cap = n, ch_buf = [], ch_got = [], ch_closed = hb_closed h \<rparr>;
          i = length (hb_chans h)
      in (i, h \<lparr> hb_chans := hb_chans h @ [ch],
                 hb_subs := (if hb_closed h then hb_subs h else i # hb_subs h) \<rparr>))"

definition close_chan :: "nat \<Rightarrow> 'e Hub \<Rightarrow> 'e Hub" where
  "close_chan i h = h \<lparr> hb_chans := (hb_chans h)[i := (hb_chans h ! i) \<lparr> ch_closed := True \<rparr>] \<rparr>"

definition Hub_Unsubscribe :: "nat \<Rightarrow> 'e Hub \<Rightarrow> 'e Hub" where
  "Hub_Unsubscribe i h =
     (if i \<in> set (hb_subs h) then close_chan i (h \<lparr> hb_subs := removeAll i (hb_subs h) \<rparr>) else h)"

text \<open>\<open>rs i\<close> says what the receiver of channel \<open>i\<close> takes meanwhile.\<close>

definition Hub_Publish :: "(nat \<Rightarrow> nat \<times> nat) \<Rightarrow> 'e \<Rightarrow> 'e Hub \<Rightarrow> 'e Hub" where
  "Hub_Publish rs e h =
     (if hb_closed h then h
      else h \<lparr> hb_chans := foldl (\<lambda>cs i. cs[i := publish_chan (fst (rs i)) (snd (rs i)) e (cs ! i)])
                 (hb_chans h) (hb_subs h) \<rparr>)"

definition Hub_Close :: "'e Hub \<Rightarrow> 'e Hub" where
  "Hub_Close h =
     (if hb_closed h then h
      else foldl (\<lambda>h i. close_chan i h) (h \<lparr> hb_closed := True \<rparr>) (hb_subs h) \<lparr> hb_subs := [] \<rparr>)"

definition Hub_Receive :: "nat \<Rightarrow> nat \<Rightarrow> 'e Hub \<Rightarrow> 'e Hub" where
  "Hub_Receive i n h = h \<lparr> hb_chans := (hb_chans h)[i := receive n (hb_chans h ! i)] \<rparr>"

datatype 'e hub_op = OpSubscribe int | OpUnsubscribe nat | OpPublish "nat \<Rightarrow> nat \<times> nat" 'e | OpClose
  | OpReceive nat nat

fun hub_exec :: "'e hub_op \<Rightarrow> 'e Hub \<Rightarrow> 'e Hub" where
  "hub_exec (OpSubscribe n) h = snd (Hub_Subscribe n h)"
| "hub_exec (OpUnsubscribe i) h = Hub_Unsubscribe i h"
| "hub_exec (OpPublish rs e) h = Hub_Publish rs e h"
| "hub_exec OpClose h = Hub_Close h"
| "hub_exec (OpReceive i n) h = Hub_Receive i n h"

section \<open>One channel\<close>

definition chan_ok :: "'e chan \<Rightarrow> bool" where
  "chan_ok ch \<longleftrightarrow> 0 < ch_cap ch \<and> length (ch_buf ch) \<le> ch_cap ch"

text \<open>What a receiver has taken or can still take.\<close>

definition delivered :: "'e chan \<Rightarrow> 'e list" where
  "delivered ch = ch_got ch @ ch_buf ch"

lemma receive_simps [simp]:
  "ch_cap (receive n ch) = ch_cap ch" "delivered (receive n ch) = delivered ch"
  "ch_closed (receive n ch) = ch_closed ch" "chan_ok ch \<Longrightarrow> chan_ok (receive n ch)"
  by (auto simp: receive_def delivered_def chan_ok_def)

lemma drop_oldest_simps [simp]:
  "ch_cap (drop_oldest ch) = ch_cap ch" "ch_closed (drop_oldest ch) = ch_closed ch"
  "ch_got (drop_oldest ch) = ch_got ch" "ch_buf (drop_oldest ch) = tl (ch_buf ch)"
  by (simp_all add: drop_oldest_def)

lemma subseq_tl: "subseq (tl xs) xs"
  by (cases xs) auto

lemma delivered_drop_oldest: "subseq (delivered (drop_oldest ch)) (delivered ch)"
  by (simp add: delivered_def subseq_tl list_emb_append_mono)

text \<open>After the drop there is room: the branch that the source marks as impossible is.\<close>

lemma room_after_drop: "chan_ok ch \<Longrightarrow> has_room (receive r2 (drop_oldest (receive r1 ch)))"
  by (auto simp: has_room_def receive_def drop_oldest_def chan_ok_def)

lemma publish_chan_delivers:
  assumes "chan_ok ch"
  shows "\<exists>before. delivered (publish_chan r1 r2 e ch) = before @ [e] \<and> subseq before (delivered ch)"
    and "chan_ok (publish_chan r1 r2 e ch)"
    and "has_room ch \<Longrightarrow> delivered (publish_chan r1 r2 e ch) = delivered ch @ [e]"
proof -
  let ?ch = "receive r2 (drop_oldest (receive r1 ch))"
  have s: "delivered (send e c) = delivered c @ [e]" for c :: "'a chan" by (simp add: delivered_def send_def)
  have "delivered ?ch = delivered (drop_oldest (receive r1 ch))" by simp
  then have "subseq (delivered ?ch) (delivered ch)"
    using delivered_drop_oldest [of "receive r1 ch"] by simp
  with s room_after_drop [OF assms, of r2 r1]
  show "\<exists>before. delivered (publish_chan r1 r2 e ch) = before @ [e] \<and> subseq before (delivered ch)"
    by (auto simp: publish_chan_def Let_def)
  show "chan_ok (publish_chan r1 r2 e ch)"
    using assms by (auto simp: publish_chan_def Let_def chan_ok_def has_room_def send_def receive_def drop_oldest_def)
  show "has_room ch \<Longrightarrow> delivered (publish_chan r1 r2 e ch) = delivered ch @ [e]"
    by (simp add: publish_chan_def s)
qed

text \<open>Without a receiver in between, a channel is a bounded buffer.\<close>

definition chan_at :: "nat \<Rightarrow> 'e chan \<Rightarrow> bool" where
  "chan_at n ch \<longleftrightarrow> chan_ok ch \<and> ch_cap ch = n"

lemma publish_quiet: "chan_at n ch \<Longrightarrow> ch_buf (publish_chan 0 0 e ch) = lastn n (ch_buf ch @ [e])"
proof -
  assume c: "chan_at n ch"
  show ?thesis
  proof (cases "has_room ch")
    case True
    with c show ?thesis by (simp add: publish_chan_def send_def has_room_def chan_at_def lastn_all)
  next
    case False
    with c have "length (ch_buf ch) = n" "n \<noteq> 0" by (auto simp: has_room_def chan_at_def chan_ok_def)
    with lastn_snoc_full [of "ch_buf ch" n e] False c show ?thesis
      by (simp add: publish_chan_def Let_def room_after_drop chan_at_def send_def receive_def drop_oldest_def)
        (simp add: has_room_def)
  qed
qed

interpretation quiet_chan: ring n ch_buf "publish_chan 0 0" "chan_at n" for n
proof
  fix ch :: "'a chan" and e
  assume c: "chan_at n ch"
  show "ch_buf (publish_chan 0 0 e ch) = lastn n (ch_buf ch @ [e])" using c by (rule publish_quiet)
  show "chan_at n (publish_chan 0 0 e ch)"
    using c publish_chan_delivers(2) [of ch 0 0 e]
    by (auto simp: chan_at_def publish_chan_def Let_def send_def receive_def)
  show "length (ch_buf ch) \<le> n" using c by (simp add: chan_at_def chan_ok_def)
qed

section \<open>All channels\<close>

definition hub_inv :: "'e Hub \<Rightarrow> bool" where
  "hub_inv h \<longleftrightarrow> list_all chan_ok (hb_chans h) \<and> distinct (hb_subs h) \<and>
     list_all (\<lambda>i. i < length (hb_chans h)) (hb_subs h)"

lemma foldl_update_length:
  "length (foldl (\<lambda>cs i. cs[i := f i (cs ! i)]) cs is) = length cs"
  by (induction "is" arbitrary: cs) auto

lemma foldl_update_nth:
  assumes "distinct is" "i < length cs"
  shows "foldl (\<lambda>cs i. cs[i := f i (cs ! i)]) cs is ! i = (if i \<in> set is then f i (cs ! i) else cs ! i)"
  using assms by (induction "is" arbitrary: cs) (auto, metis nth_list_update_neq)

lemma Hub_Publish_nth:
  assumes "hub_inv h" "i < length (hb_chans h)"
  shows "hb_chans (Hub_Publish rs e h) ! i =
     (if \<not> hb_closed h \<and> i \<in> set (hb_subs h) then publish_chan (fst (rs i)) (snd (rs i)) e (hb_chans h ! i)
      else hb_chans h ! i)"
  using assms foldl_update_nth [of "hb_subs h" i "hb_chans h" "\<lambda>i. publish_chan (fst (rs i)) (snd (rs i)) e"]
  by (auto simp: Hub_Publish_def hub_inv_def)

lemma Hub_Publish_simps [simp]:
  "hb_subs (Hub_Publish rs e h) = hb_subs h" "hb_closed (Hub_Publish rs e h) = hb_closed h"
  "length (hb_chans (Hub_Publish rs e h)) = length (hb_chans h)"
  by (simp_all add: Hub_Publish_def foldl_update_length [where f = "\<lambda>i. publish_chan (fst (rs i)) (snd (rs i)) e"])

lemma close_chan_simps [simp]:
  "hb_subs (close_chan i h) = hb_subs h" "length (hb_chans (close_chan i h)) = length (hb_chans h)"
  by (simp_all add: close_chan_def)

lemma closes_simps:
  "hb_subs (foldl (\<lambda>h i. close_chan i h) h is) = hb_subs h"
  "length (hb_chans (foldl (\<lambda>h i. close_chan i h) h is)) = length (hb_chans h)"
  by (induction "is" arbitrary: h) auto

text \<open>Closing, subscribing and receiving leave what a channel delivers, in order.\<close>

definition same_delivery :: "'e chan \<Rightarrow> 'e chan \<Rightarrow> bool" where
  "same_delivery a b \<longleftrightarrow> ch_cap a = ch_cap b \<and> delivered a = delivered b \<and> (chan_ok b \<longrightarrow> chan_ok a)"

lemma same_delivery_refl [simp]: "same_delivery a a"
  by (simp add: same_delivery_def)

lemma close_chan_same: "i < length (hb_chans h) \<Longrightarrow> same_delivery (hb_chans (close_chan j h) ! i) (hb_chans h ! i)"
  by (cases "i = j") (simp_all add: close_chan_def same_delivery_def delivered_def chan_ok_def)

lemma closes_same:
  "i < length (hb_chans h) \<Longrightarrow> same_delivery (hb_chans (foldl (\<lambda>h i. close_chan i h) h is) ! i) (hb_chans h ! i)"
proof (induction "is" arbitrary: h)
  case (Cons j js)
  then have "same_delivery (hb_chans (foldl (\<lambda>h i. close_chan i h) (close_chan j h) js) ! i) (hb_chans (close_chan j h) ! i)"
    by simp
  with close_chan_same [OF Cons.prems, of j] show ?case by (auto simp: same_delivery_def)
qed simp

lemma other_ops_same:
  assumes "i < length (hb_chans h)" "\<And>rs e. p \<noteq> OpPublish rs e"
  shows "same_delivery (hb_chans (hub_exec p h) ! i) (hb_chans h ! i)"
proof (cases p)
  case (OpReceive j n)
  then show ?thesis using assms(1)
    by (cases "i = j") (simp_all add: Hub_Receive_def same_delivery_def)
next
  case (OpUnsubscribe j)
  then show ?thesis
    using assms(1) close_chan_same [of i "h \<lparr> hb_subs := removeAll j (hb_subs h) \<rparr>" j] by (simp add: Hub_Unsubscribe_def)
next
  case OpClose
  then show ?thesis
    using assms(1) closes_same [of i "h \<lparr> hb_closed := True \<rparr>" "hb_subs h"] by (simp add: Hub_Close_def)
qed (use assms in \<open>auto simp: Hub_Subscribe_def Let_def nth_append\<close>)

lemma hub_exec_length: "length (hb_chans h) \<le> length (hb_chans (hub_exec p h))"
  by (cases p) (auto simp: Hub_Subscribe_def Hub_Unsubscribe_def Hub_Close_def Hub_Receive_def Let_def closes_simps)

text \<open>The invariant in terms of positions.\<close>

lemma hub_inv_nth: "hub_inv h \<longleftrightarrow> (\<forall>i < length (hb_chans h). chan_ok (hb_chans h ! i)) \<and> distinct (hb_subs h) \<and>
    (\<forall>i \<in> set (hb_subs h). i < length (hb_chans h))"
  by (simp only: hub_inv_def list_all_length [of chan_ok] list_all_iff [of "\<lambda>i. i < length (hb_chans h)"])

lemma hub_exec_subs:
  assumes "hub_inv h"
  shows "distinct (hb_subs (hub_exec p h)) \<and> (\<forall>i \<in> set (hb_subs (hub_exec p h)). i < length (hb_chans (hub_exec p h)))"
  using assms
  by (cases p) (auto simp: hub_inv_nth Hub_Subscribe_def Hub_Unsubscribe_def Hub_Close_def Hub_Receive_def Let_def
      closes_simps distinct_removeAll less_Suc_eq)

lemma hub_exec_inv:
  assumes "hub_inv h"
  shows "hub_inv (hub_exec p h)"
proof -
  have "chan_ok (hb_chans (hub_exec p h) ! i)" if i: "i < length (hb_chans (hub_exec p h))" for i
  proof (cases "\<exists>rs e. p = OpPublish rs e")
    case True
    with assms i show ?thesis by (auto simp: hub_inv_nth Hub_Publish_nth [OF assms] intro!: publish_chan_delivers(2))
  next
    case False
    show ?thesis
    proof (cases "i < length (hb_chans h)")
      case True
      with other_ops_same [of i h p] False assms show ?thesis by (auto simp: hub_inv_nth same_delivery_def)
    next
      case new: False
      with i False have "p = OpSubscribe (case p of OpSubscribe n \<Rightarrow> n | _ \<Rightarrow> 0)"
        by (cases p) (auto simp: Hub_Unsubscribe_def Hub_Close_def Hub_Receive_def closes_simps split: if_splits)
      then obtain n where "p = OpSubscribe n" by blast
      with i new show ?thesis by (auto simp: Hub_Subscribe_def Let_def nth_append chan_ok_def less_Suc_eq)
    qed
  qed
  with hub_exec_subs [OF assms] show ?thesis by (simp add: hub_inv_nth)
qed

section \<open>Property\<close>

fun run_hub :: "'e hub_op list \<Rightarrow> 'e Hub \<Rightarrow> 'e Hub" where
  "run_hub [] h = h"
| "run_hub (p # ps) h = run_hub ps (hub_exec p h)"

text \<open>The events published while channel \<open>i\<close> was subscribed.\<close>

fun heard :: "nat \<Rightarrow> 'e hub_op list \<Rightarrow> 'e Hub \<Rightarrow> 'e list" where
  "heard i [] h = []"
| "heard i (p # ps) h =
     (case p of OpPublish rs e \<Rightarrow> (if \<not> hb_closed h \<and> i \<in> set (hb_subs h) then [e] else []) | _ \<Rightarrow> [])
     @ heard i ps (hub_exec p h)"

definition faithful :: "'e list \<Rightarrow> 'e chan \<Rightarrow> bool" where
  "faithful hs ch \<longleftrightarrow> chan_ok ch \<and> subseq (delivered ch) hs \<and>
     (hs \<noteq> [] \<longrightarrow> delivered ch \<noteq> [] \<and> last (delivered ch) = last hs) \<and>
     (length hs \<le> ch_cap ch \<longrightarrow> delivered ch = hs)"

lemma faithful_publish:
  assumes "faithful hs ch"
  shows "faithful (hs @ [e]) (publish_chan r1 r2 e ch)"
proof -
  have ok: "chan_ok ch" using assms by (simp add: faithful_def)
  obtain b where b: "delivered (publish_chan r1 r2 e ch) = b @ [e]" "subseq b (delivered ch)"
    using publish_chan_delivers(1) [OF ok] by blast
  have "subseq b hs" using b(2) assms by (auto simp: faithful_def intro: subseq_order.trans)
  moreover have "delivered (publish_chan r1 r2 e ch) = hs @ [e]" if "Suc (length hs) \<le> ch_cap ch"
  proof -
    have d: "delivered ch = hs" using assms that by (simp add: faithful_def)
    then have "length (ch_buf ch) \<le> length hs" by (auto simp: delivered_def)
    with that have "has_room ch" by (simp add: has_room_def)
    from publish_chan_delivers(3) [OF ok this] d show ?thesis by simp
  qed
  moreover have "ch_cap (publish_chan r1 r2 e ch) = ch_cap ch"
    by (simp add: publish_chan_def Let_def send_def)
  ultimately show ?thesis
    using b publish_chan_delivers(2) [OF ok] by (auto simp: faithful_def)
qed

lemma faithful_same: "faithful hs b \<Longrightarrow> same_delivery a b \<Longrightarrow> faithful hs a"
  by (simp add: faithful_def same_delivery_def)

lemma faithful_run:
  assumes "hub_inv h" "i < length (hb_chans h)" "faithful hs (hb_chans h ! i)"
  shows "faithful (hs @ heard i ps h) (hb_chans (run_hub ps h) ! i)"
  using assms
proof (induction ps arbitrary: h hs)
  case (Cons p ps)
  let ?e = "case p of OpPublish rs e \<Rightarrow> (if \<not> hb_closed h \<and> i \<in> set (hb_subs h) then [e] else []) | _ \<Rightarrow> []"
  have "faithful (hs @ ?e) (hb_chans (hub_exec p h) ! i)"
  proof (cases "\<exists>rs e. p = OpPublish rs e")
    case True
    with Cons.prems Hub_Publish_nth [OF Cons.prems(1,2)] faithful_publish show ?thesis by auto
  next
    case False
    with other_ops_same [of i h p] Cons.prems faithful_same show ?thesis by (cases p) auto
  qed
  from Cons.IH [OF hub_exec_inv [OF Cons.prems(1)] _ this] hub_exec_length [of h p] Cons.prems(2)
  show ?case by simp
qed simp

lemma run_hub_inv: "hub_inv h \<Longrightarrow> hub_inv (run_hub ps h)"
  by (induction ps arbitrary: h) (auto simp: hub_exec_inv)

lemma cap_exec:
  assumes "hub_inv h" "i < length (hb_chans h)"
  shows "ch_cap (hb_chans (hub_exec p h) ! i) = ch_cap (hb_chans h ! i)"
proof (cases "\<exists>rs e. p = OpPublish rs e")
  case True
  then show ?thesis
    by (auto simp: Hub_Publish_nth [OF assms] publish_chan_def Let_def send_def)
next
  case False
  with other_ops_same [OF assms(2)] show ?thesis by (auto simp: same_delivery_def)
qed

lemma cap_run:
  "hub_inv h \<Longrightarrow> i < length (hb_chans h) \<Longrightarrow> ch_cap (hb_chans (run_hub ps h) ! i) = ch_cap (hb_chans h ! i)"
proof (induction ps arbitrary: h)
  case (Cons p ps)
  have "i < length (hb_chans (hub_exec p h))" using hub_exec_length [of h p] Cons.prems(2) by simp
  with Cons.IH [OF hub_exec_inv [OF Cons.prems(1)]] cap_exec [OF Cons.prems, of p] show ?case by simp
qed simp

text \<open>
  C19. What a subscriber sees. Take a subscription with a buffer of \<open>n\<close> made at any point of a run, and any
  operations after it, with receivers taking events at any moment, even between the steps of a
  publication. The events that its receiver has taken and can still take are events published while
  it was subscribed, in their order, each at most once per publication, and the newest published is
  always the last of them; and if no more than \<open>n\<close> were published, none is lost.
\<close>

theorem subscriber_sees:
  "let h = run_hub ops New_Hub; i = fst (Hub_Subscribe n h); h' = snd (Hub_Subscribe n h);
       ch = hb_chans (run_hub ops' h') ! i; seen = ch_got ch @ ch_buf ch; hs = heard i ops' h'
   in subseq seen hs \<and> (hs = [] \<or> seen \<noteq> [] \<and> last seen = last hs) \<and>
      (max 1 n < int (length hs) \<or> seen = hs)"
proof -
  define h where "h = run_hub ops (New_Hub :: 'a Hub)"
  define i where "i = fst (Hub_Subscribe n h)"
  define h' where "h' = snd (Hub_Subscribe n h)"
  have "hub_inv (New_Hub :: 'a Hub)" by (simp add: hub_inv_def New_Hub_def)
  then have inv: "hub_inv h'"
    using run_hub_inv hub_exec_inv [of h "OpSubscribe n"] by (auto simp: h_def h'_def)
  have i: "i < length (hb_chans h')" and c: "hb_chans h' ! i = \<lparr> ch_cap = nat (max 1 n), ch_buf = [], ch_got = [],
      ch_closed = hb_closed h \<rparr>"
    by (auto simp: i_def h'_def Hub_Subscribe_def Let_def max_def)
  have "faithful [] (hb_chans h' ! i)" by (simp add: c faithful_def chan_ok_def delivered_def)
  from faithful_run [OF inv i this, of ops'] cap_run [OF inv i, of ops'] c
  have "faithful (heard i ops' h') (hb_chans (run_hub ops' h') ! i)"
    "ch_cap (hb_chans (run_hub ops' h') ! i) = nat (max 1 n)" using inv by simp_all
  then show ?thesis
    unfolding h_def [symmetric] i_def [symmetric] h'_def [symmetric] Let_def
    by (auto simp: faithful_def delivered_def nat_le_iff not_less le_nat_iff)
qed

end
