(* ===== verification/Logstream.thy ===== *)
theory Logstream
  imports Hub Base64 Json_Text "HOL-Library.Multiset"
begin

text \<open>
  Package \<^verbatim>\<open>internal/logstream\<close>: the log buffer (buffer.go), the level of a line (parse.go), the removal
  of terminal colours (ansi.go) and the poller that reads the engines' log files (poller.go),
  together with the handler of the helper that serves them (\<^verbatim>\<open>helper/server/readlogs.go\<close>). \<open>redact\<close> is
  \<^verbatim>\<open>logging.Redact\<close>. Times are numbers.
\<close>

section \<open>buffer.go\<close>

record Entry =
  en_Seq :: "64 word"
  en_Time :: int
  en_Level :: string
  en_Source :: string
  en_Message :: string

text \<open>The rings by source, in the order in which the sources first appeared, and the published lines.\<close>

record Buffer =
  bu_cap :: nat
  bu_perSrc :: "(string \<times> Entry list) list"
  bu_seq :: "64 word"
  bu_subs :: nat
  bu_published :: "Entry list"

definition New_Buffer :: "int \<Rightarrow> Buffer" where
  "New_Buffer capPerSource =
     \<lparr> bu_cap = (if capPerSource \<le> 0 then 2000 else nat capPerSource), bu_perSrc = [], bu_seq = 0,
       bu_subs = 0, bu_published = [] \<rparr>"

fun ring_set :: "string \<Rightarrow> 'a \<Rightarrow> (string \<times> 'a) list \<Rightarrow> (string \<times> 'a) list" where
  "ring_set k v [] = [(k, v)]"
| "ring_set k v ((k', v') # kvs) = (if k = k' then (k, v) # kvs else (k', v') # ring_set k v kvs)"

definition ring_get :: "string \<Rightarrow> (string \<times> Entry list) list \<Rightarrow> Entry list" where
  "ring_get k kvs = (case map_of kvs k of None \<Rightarrow> [] | Some r \<Rightarrow> r)"

text \<open>\<^verbatim>\<open>ring = ring[len(ring)-b.cap:]\<close> when it is too long\<close>

definition ring_add :: "nat \<Rightarrow> Entry \<Rightarrow> Entry list \<Rightarrow> Entry list" where
  "ring_add c e r = (let r = r @ [e] in if length r > c then drop (length r - c) r else r)"

definition Buffer_Add :: "(string \<Rightarrow> string) \<Rightarrow> string \<Rightarrow> string \<Rightarrow> string \<Rightarrow> int \<Rightarrow> Buffer \<Rightarrow> Buffer" where
  "Buffer_Add redact source level message t b =
     (let seq = bu_seq b + 1;
          e = \<lparr> en_Seq = seq, en_Time = t, en_Level = level, en_Source = source, en_Message = redact message \<rparr>
      in b \<lparr> bu_seq := seq,
             bu_perSrc := ring_set source (ring_add (bu_cap b) e (ring_get source (bu_perSrc b))) (bu_perSrc b),
             bu_published := (if bu_subs b > 0 then bu_published b @ [e] else bu_published b) \<rparr>)"

definition Snapshot :: "Buffer \<Rightarrow> Entry list" where
  "Snapshot b = sort_key en_Seq (concat (map snd (bu_perSrc b)))"

definition Tail :: "int \<Rightarrow> Buffer \<Rightarrow> Entry list" where
  "Tail n b =
     (let all = Snapshot b in
      if n \<le> 0 \<or> int (length all) \<le> n then all else drop (length all - nat n) all)"

definition Buffer_Subscribe :: "Buffer \<Rightarrow> nat \<times> Buffer" where
  "Buffer_Subscribe b = (bu_subs b + 1, b \<lparr> bu_subs := bu_subs b + 1 \<rparr>)"

definition Buffer_Unsubscribe :: "Buffer \<Rightarrow> nat \<times> Buffer" where
  "Buffer_Unsubscribe b = (bu_subs b - 1, b \<lparr> bu_subs := bu_subs b - 1 \<rparr>)"

section \<open>parse.go and ansi.go\<close>

fun contains :: "string \<Rightarrow> string \<Rightarrow> bool" where
  "contains [] p = (p = [])"
| "contains (c # s) p = (HasPrefix (c # s) p \<or> contains s p)"

text \<open>
  \<^verbatim>\<open>strings.ToUpper\<close>, as far as the words looked for can tell: ASCII letters, and the two other letters
  whose upper case is ASCII, U+0131 and U+017F.
\<close>

fun to_upper :: "string \<Rightarrow> string" where
  "to_upper [] = []"
| "to_upper (c # cs) =
     (if 97 \<le> (of_char c :: nat) \<and> (of_char c :: nat) \<le> 122 then char_of ((of_char c :: nat) - 32) # to_upper cs
      else if c = CHR 0xC4 \<and> cs \<noteq> [] \<and> hd cs = CHR 0xB1 then CHR ''I'' # to_upper (tl cs)
      else if c = CHR 0xC5 \<and> cs \<noteq> [] \<and> hd cs = CHR 0xBF then CHR ''S'' # to_upper (tl cs)
      else c # to_upper cs)"

definition ParseLevel :: "string \<Rightarrow> string \<Rightarrow> string" where
  "ParseLevel source line =
     (let up = to_upper line in
      if source = ''xray''
      then (if contains up ''[ERROR]'' then ''ERROR''
            else if contains up ''[WARNING]'' then ''WARN''
            else if contains up ''[DEBUG]'' then ''DEBUG'' else ''INFO'')
      else (if contains up ''FATAL'' \<or> contains up ''PANIC'' \<or> contains up ''ERROR'' then ''ERROR''
            else if contains up ''WARN'' then ''WARN''
            else if contains up ''DEBUG'' \<or> contains up ''TRACE'' then ''DEBUG'' else ''INFO''))"

definition ansi_param :: "char \<Rightarrow> bool" where
  "ansi_param c \<longleftrightarrow> is_digit c \<or> c = CHR '';''"

definition is_letter :: "char \<Rightarrow> bool" where
  "is_letter c \<longleftrightarrow> 97 \<le> (of_char c :: nat) \<and> (of_char c :: nat) \<le> 122
                 \<or> 65 \<le> (of_char c :: nat) \<and> (of_char c :: nat) \<le> 90"

text \<open>What is left after a match of the expression at the head of a string that starts with ESC.\<close>

definition ansi_match :: "string \<Rightarrow> string option" where
  "ansi_match s =
     (case s of
        b # r \<Rightarrow> (if b = CHR ''[''
                 then (case dropWhile ansi_param r of
                         l # r' \<Rightarrow> (if is_letter l then Some r' else None) | [] \<Rightarrow> None)
                 else None)
      | [] \<Rightarrow> None)"

lemma ansi_match_length: "ansi_match s = Some r \<Longrightarrow> length r < length s"
  by (auto simp: ansi_match_def split: list.splits if_splits)
     (metis Suc_lessD less_Suc_eq length_Cons length_dropWhile_le less_le_trans not_less_eq)

function stripANSI :: "string \<Rightarrow> string" where
  "stripANSI [] = []"
| "stripANSI (c # s) =
     (if c = CHR 0x1B
      then (case ansi_match s of Some r \<Rightarrow> stripANSI r | None \<Rightarrow> c # stripANSI s)
      else c # stripANSI s)"
  by pat_completeness auto
termination by (relation "measure length") (auto dest: ansi_match_length)

section \<open>readlogs.go\<close>

definition readLogsAllow :: "string \<Rightarrow> bool" where
  "readLogsAllow name \<longleftrightarrow> name = ''sing-box.log'' \<or> name = ''xray.log'' \<or> name = ''helper.log''"

definition maxLogChunk :: nat where "maxLogChunk = 512 * 1024"

record ReadLogsResult =
  rl_Data :: string
  rl_Offset :: int
  rl_Truncated :: bool

datatype readlogs_error = NameNotAllowed string | ReadFailed

text \<open>
  The log directory maps names to contents; a missing file is \<open>None\<close>. A negative offset makes
  \<^verbatim>\<open>Seek\<close> fail. \<open>chunk\<close> is \<^verbatim>\<open>maxLogChunk\<close>, a variable in the source.
\<close>

definition ReadLogs :: "nat \<Rightarrow> (string \<rightharpoonup> string) \<Rightarrow> string \<Rightarrow> int \<Rightarrow> readlogs_error + ReadLogsResult" where
  "ReadLogs chunk dir name offset =
     (if \<not> readLogsAllow name then Inl (NameNotAllowed name)
      else case dir name of
        None \<Rightarrow> Inr \<lparr> rl_Data = [], rl_Offset = 0, rl_Truncated = False \<rparr>
      | Some content \<Rightarrow>
          (let truncated = (int (length content) < offset); offset = (if truncated then 0 else offset) in
           if offset < 0 then Inl ReadFailed
           else let data = take chunk (drop (nat offset) content)
                in Inr \<lparr> rl_Data = data, rl_Offset = offset + int (length data), rl_Truncated = truncated \<rparr>))"

section \<open>poller.go\<close>

record logFile =
  lf_name :: string
  lf_source :: string
  lf_offset :: int
  lf_rest :: string
  lf_warned :: bool

definition new_logFile :: "string \<Rightarrow> string \<Rightarrow> logFile" where
  "new_logFile name source = \<lparr> lf_name = name, lf_source = source, lf_offset = 0, lf_rest = [], lf_warned = False \<rparr>"

definition poller_files :: "logFile list" where
  "poller_files = [new_logFile ''sing-box.log'' ''sing-box'', new_logFile ''xray.log'' ''xray'',
     new_logFile ''helper.log'' ''helper'']"

definition trim_cr :: "string \<Rightarrow> string" where
  "trim_cr s = rev (dropWhile (\<lambda>c. c = CHR 0x0D) (rev s))"

text \<open>\<^verbatim>\<open>strings.IndexByte(rest, '\n')\<close> and the text before and after it.\<close>

fun cut_line :: "string \<Rightarrow> (string \<times> string) option" where
  "cut_line [] = None"
| "cut_line (c # s) =
     (if c = CHR 0x0A then Some ([], s)
      else case cut_line s of None \<Rightarrow> None | Some (l, r) \<Rightarrow> Some (c # l, r))"

lemma cut_line_length: "cut_line s = Some (l, r) \<Longrightarrow> length r < length s"
  by (induction s arbitrary: l) (auto split: if_splits option.splits)

text \<open>The inner loop: the complete lines of the text read so far go to the buffer.\<close>

function drain :: "(string \<Rightarrow> string) \<Rightarrow> int \<Rightarrow> string \<Rightarrow> string \<Rightarrow> Buffer \<Rightarrow> string \<times> Buffer" where
  "drain redact now source rest b =
     (case cut_line rest of
        None \<Rightarrow> (rest, b)
      | Some (l, rest') \<Rightarrow>
          (let line = stripANSI (trim_cr l)
           in drain redact now source rest'
                (if line = [] then b else Buffer_Add redact source (ParseLevel source line) line now b)))"
  by pat_completeness auto
termination by (relation "measure (\<lambda>(_, _, _, rest, _). length rest)") (auto dest: cut_line_length)

declare drain.simps [simp del]

text \<open>
  One file in one poll. \<open>reply\<close> is the answer of the helper: \<open>None\<close> an error of the call,
  \<open>Some None\<close> an answer that does not decode.
\<close>

definition poll_file :: "(string \<Rightarrow> string) \<Rightarrow> int \<Rightarrow> ReadLogsResult option option \<Rightarrow> logFile \<Rightarrow> Buffer \<Rightarrow> logFile \<times> Buffer" where
  "poll_file redact now reply lf b =
     (case reply of
        None \<Rightarrow> (lf \<lparr> lf_warned := True \<rparr>, b)
      | Some None \<Rightarrow> (lf \<lparr> lf_warned := False \<rparr>, b)
      | Some (Some res) \<Rightarrow>
          (let rest = (if rl_Truncated res then [] else lf_rest lf) @ rl_Data res in
           case drain redact now (lf_source lf) rest b of
             (rest', b') \<Rightarrow> (lf \<lparr> lf_warned := False, lf_offset := rl_Offset res, lf_rest := rest' \<rparr>, b')))"

fun pollOnce :: "(string \<Rightarrow> string) \<Rightarrow> int \<Rightarrow> (logFile \<Rightarrow> ReadLogsResult option option) \<Rightarrow> logFile list \<Rightarrow> Buffer
    \<Rightarrow> logFile list \<times> Buffer" where
  "pollOnce redact now call [] b = ([], b)"
| "pollOnce redact now call (lf # lfs) b =
     (case poll_file redact now (call lf) lf b of (lf', b') \<Rightarrow>
        (case pollOnce redact now call lfs b' of (lfs', b'') \<Rightarrow> (lf' # lfs', b'')))"

section \<open>taphandler.go\<close>

definition levelName :: "int \<Rightarrow> string" where
  "levelName l = (if l \<ge> 8 then ''ERROR'' else if l \<ge> 4 then ''WARN'' else if l \<ge> 0 then ''INFO'' else ''DEBUG'')"

text \<open>A record: message and attributes, each with its value printed.\<close>

fun formatRecord :: "string \<Rightarrow> (string \<times> string) list \<Rightarrow> string" where
  "formatRecord msg [] = msg"
| "formatRecord msg ((k, v) # as) =
     formatRecord (if k = ''scope'' then msg else msg @ '' '' @ k @ ''='' @ v) as"

definition tap_Handle :: "(string \<Rightarrow> string) \<Rightarrow> int \<Rightarrow> int \<Rightarrow> string \<Rightarrow> (string \<times> string) list \<Rightarrow> Buffer \<Rightarrow> Buffer" where
  "tap_Handle redact t level msg as b = Buffer_Add redact ''bridge'' (levelName level) (formatRecord msg as) t b"

section \<open>The buffer against its specification\<close>

interpretation log_ring: ring c "\<lambda>r. r" "ring_add c" "\<lambda>r. length r \<le> c" for c
  by unfold_locales (auto simp: ring_add_def lastn_def Let_def)

lemma map_of_ring_set [simp]: "map_of (ring_set k v kvs) = (map_of kvs)(k \<mapsto> v)"
  by (induction k v kvs rule: ring_set.induct) auto

lemma ring_get_set: "ring_get k (ring_set k' v kvs) = (if k = k' then v else ring_get k kvs)"
  by (simp add: ring_get_def)

lemma ring_set_keys: "map fst (ring_set k v kvs) = (if k \<in> set (map fst kvs) then map fst kvs else map fst kvs @ [k])"
  by (induction k v kvs rule: ring_set.induct) auto

text \<open>A line added to the buffer: source, level, message and time.\<close>

type_synonym line = "string \<times> string \<times> string \<times> int"

definition add_line :: "(string \<Rightarrow> string) \<Rightarrow> Buffer \<Rightarrow> line \<Rightarrow> Buffer" where
  "add_line redact b l = (case l of (src, lev, msg, t) \<Rightarrow> Buffer_Add redact src lev msg t b)"

definition entry_of :: "(string \<Rightarrow> string) \<Rightarrow> nat \<Rightarrow> line \<Rightarrow> Entry" where
  "entry_of redact n l = (case l of (src, lev, msg, t) \<Rightarrow>
     \<lparr> en_Seq = of_nat n, en_Time = t, en_Level = lev, en_Source = src, en_Message = redact msg \<rparr>)"

definition entries :: "(string \<Rightarrow> string) \<Rightarrow> line list \<Rightarrow> Entry list" where
  "entries redact ls = map (\<lambda>n. entry_of redact (Suc n) (ls ! n)) [0..<length ls]"

lemma entries_snoc: "entries redact (ls @ [l]) = entries redact ls @ [entry_of redact (Suc (length ls)) l]"
  by (auto simp: entries_def nth_append)

definition of_source :: "string \<Rightarrow> Entry list \<Rightarrow> Entry list" where
  "of_source src es = filter (\<lambda>e. en_Source e = src) es"

lemma buffer_after:
  fixes redact and c and ls :: "line list"
  defines "b \<equiv> foldl (add_line redact) (New_Buffer c) ls"
  shows "bu_seq b = of_nat (length ls) \<and> bu_cap b = bu_cap (New_Buffer c) \<and>
     (\<forall>src. ring_get src (bu_perSrc b) = lastn (bu_cap (New_Buffer c)) (of_source src (entries redact ls))) \<and>
     distinct (map fst (bu_perSrc b)) \<and>
     set (map fst (bu_perSrc b)) = en_Source ` set (entries redact ls)"
  unfolding b_def
proof (induction ls rule: rev_induct)
  case Nil
  then show ?case by (simp add: New_Buffer_def ring_get_def entries_def of_source_def lastn_def)
next
  case (snoc l ls)
  obtain src lev msg t where l: "l = (src, lev, msg, t)" by (cases l) auto
  let ?b = "foldl (add_line redact) (New_Buffer c) ls"
  let ?e = "entry_of redact (Suc (length ls)) l"
  have e: "\<lparr> en_Seq = bu_seq ?b + 1, en_Time = t, en_Level = lev, en_Source = src, en_Message = redact msg \<rparr> = ?e"
    using snoc by (simp add: entry_of_def l)
  have r: "ring_add (bu_cap ?b) ?e (ring_get src (bu_perSrc ?b))
      = lastn (bu_cap (New_Buffer c)) (of_source src (entries redact (ls @ [l])))"
  proof -
    have "en_Source ?e = src" by (simp add: entry_of_def l)
    moreover have "ring_add (bu_cap ?b) ?e (ring_get src (bu_perSrc ?b)) =
        lastn (bu_cap (New_Buffer c)) (lastn (bu_cap (New_Buffer c)) (of_source src (entries redact ls)) @ [?e])"
      using snoc log_ring.items_push by simp
    ultimately show ?thesis by (simp add: lastn_lastn_snoc entries_snoc of_source_def)
  qed
  have b: "foldl (add_line redact) (New_Buffer c) (ls @ [l]) = ?b \<lparr> bu_seq := bu_seq ?b + 1,
      bu_perSrc := ring_set src (ring_add (bu_cap ?b) ?e (ring_get src (bu_perSrc ?b))) (bu_perSrc ?b),
      bu_published := (if bu_subs ?b > 0 then bu_published ?b @ [?e] else bu_published ?b) \<rparr>"
    by (simp add: add_line_def l Buffer_Add_def Let_def e [unfolded l])
  have "en_Source ?e = src" by (simp add: entry_of_def l)
  with snoc r show ?case
    unfolding b by (auto simp: ring_get_set ring_set_keys entries_snoc of_source_def)
qed

text \<open>The specification: an entry is kept when fewer than \<open>c\<close> later ones have its source.\<close>

fun newest :: "nat \<Rightarrow> Entry list \<Rightarrow> Entry list" where
  "newest c [] = []"
| "newest c (e # es) = (if length (of_source (en_Source e) es) < c then e # newest c es else newest c es)"

lemma lastn_Cons: "lastn c (x # xs) = (if length xs < c then x # xs else lastn c xs)"
  by (auto simp: lastn_def Suc_diff_le)

lemma of_source_newest: "of_source src (newest c es) = lastn c (of_source src es)"
proof (induction es)
  case (Cons e es)
  then show ?case
    by (cases "en_Source e = src") (auto simp: of_source_def lastn_Cons lastn_all)
qed (simp add: of_source_def lastn_def)

lemma set_newest: "e \<in> set (newest c es) \<longleftrightarrow> e \<in> set (lastn c (of_source (en_Source e) es))"
  unfolding of_source_newest [symmetric] by (simp add: of_source_def)

lemma set_newest_subset: "set (newest c es) \<subseteq> set es"
  by (induction es) auto

lemma subseq_newest: "subseq (newest c es) es"
  by (induction es) auto

lemma entries_sorted:
  assumes "length ls < 2 ^ 64"
  shows "sorted_wrt (\<lambda>a b. en_Seq a < en_Seq b) (entries redact ls)"
proof -
  have "en_Seq (entries redact ls ! i) < en_Seq (entries redact ls ! j)" if "i < j" "j < length ls" for i j
  proof -
    have "(of_nat (Suc i) :: 64 word) < of_nat (Suc j)"
      using that assms by (simp add: word_of_nat_less_iff take_bit_nat_eq_self del: of_nat_Suc)
    then show ?thesis using that by (simp add: entries_def entry_of_def case_prod_beta del: of_nat_Suc)
  qed
  then show ?thesis by (auto simp: sorted_wrt_iff_nth_less entries_def)
qed

lemma sorted_wrt_subseq: "subseq xs ys \<Longrightarrow> sorted_wrt P ys \<Longrightarrow> sorted_wrt P xs"
  by (induction rule: list_emb.induct) (auto dest: list_emb_set)

lemma seq_sorted:
  assumes "sorted_wrt (\<lambda>a b. en_Seq a < en_Seq b) es"
  shows "sorted (map en_Seq es)" "distinct es" "inj_on en_Seq (set es)"
proof -
  have "sorted_wrt (<) (map en_Seq es)" using assms by (simp add: sorted_wrt_map)
  then have "sorted (map en_Seq es)" "distinct (map en_Seq es)" by (simp_all add: strict_sorted_iff)
  then show "sorted (map en_Seq es)" "distinct es" "inj_on en_Seq (set es)" by (auto simp: distinct_map)
qed

lemma distinct_rings:
  assumes "distinct (map fst kvs)" "\<And>k r. (k, r) \<in> set kvs \<Longrightarrow> distinct r \<and> (\<forall>e \<in> set r. en_Source e = k)"
  shows "distinct (concat (map snd kvs))"
  using assms
proof (induction kvs)
  case (Cons kv kvs)
  obtain k r where kv: "kv = (k, r)" by force
  have "e \<notin> set r" if "(k', r') \<in> set kvs" "e \<in> set r'" for k' r' e
  proof
    assume "e \<in> set r"
    with that Cons.prems(2) [of k r] Cons.prems(2) [of k' r'] kv have "k = k'" by auto
    with that Cons.prems(1) kv show False by force
  qed
  moreover have "distinct (concat (map snd kvs))" using Cons by force
  moreover have "distinct r" using Cons.prems(2) [of k r] kv by simp
  ultimately show ?case by (auto simp: kv)
qed simp

text \<open>The rings of the buffer hold the entries that the specification keeps, each once.\<close>

lemma rings_newest:
  fixes redact and c and ls :: "line list"
  assumes "length ls < 2 ^ 64"
  defines "b \<equiv> foldl (add_line redact) (New_Buffer c) ls"
  shows "mset (concat (map snd (bu_perSrc b))) = mset (newest (bu_cap (New_Buffer c)) (entries redact ls))"
proof -
  let ?n = "bu_cap (New_Buffer c)" and ?es = "entries redact ls"
  note a = buffer_after [of redact c ls, folded b_def]
  note es = seq_sorted [OF entries_sorted [OF assms(1), of redact]]
  have ring: "r = lastn ?n (of_source k ?es)" if "(k, r) \<in> set (bu_perSrc b)" for k r
  proof -
    have "map_of (bu_perSrc b) k = Some r" using that a map_of_eq_Some_iff by metis
    then have "ring_get k (bu_perSrc b) = r" by (simp add: ring_get_def)
    with a show ?thesis by metis
  qed
  have src: "en_Source e = k" if "e \<in> set (lastn ?n (of_source k ?es))" for e k
    using that set_lastn [of ?n "of_source k ?es"] by (auto simp: of_source_def)
  have "e \<in> set (concat (map snd (bu_perSrc b))) \<longleftrightarrow> e \<in> set (newest ?n ?es)" for e
  proof
    assume "e \<in> set (concat (map snd (bu_perSrc b)))"
    then obtain k r where kr: "(k, r) \<in> set (bu_perSrc b)" "e \<in> set r" by force
    have e: "e \<in> set (lastn ?n (of_source k ?es))" using ring [OF kr(1)] kr(2) by simp
    with src [OF e] show "e \<in> set (newest ?n ?es)" by (simp add: set_newest)
  next
    assume e: "e \<in> set (newest ?n ?es)"
    then have "e \<in> set ?es" using set_newest_subset by blast
    then have "en_Source e \<in> set (map fst (bu_perSrc b))" using a by (simp only: image_eqI)
    then obtain r where r: "(en_Source e, r) \<in> set (bu_perSrc b)" by auto
    have "e \<in> set r" using ring [OF r] e by (simp only: set_newest)
    with r show "e \<in> set (concat (map snd (bu_perSrc b)))" by (auto intro!: bexI [of _ "(en_Source e, r)"])
  qed
  moreover have "distinct (concat (map snd (bu_perSrc b)))"
  proof (rule distinct_rings)
    fix k r assume "(k, r) \<in> set (bu_perSrc b)"
    then have r: "r = lastn ?n (of_source k ?es)" by (rule ring)
    have "distinct (of_source k ?es)" using es(2) by (simp add: of_source_def)
    then have "distinct r" unfolding r lastn_def by (rule distinct_drop)
    with src show "distinct r \<and> (\<forall>e \<in> set r. en_Source e = k)" unfolding r by blast
  qed (use a in simp)
  moreover have "distinct (newest ?n ?es)" using seq_sorted(2) [OF sorted_wrt_subseq [OF subseq_newest entries_sorted [OF assms(1)]]] .
  ultimately show ?thesis using set_eq_iff_mset_eq_distinct by blast
qed

text \<open>
  C21. A snapshot of the log buffer equals the specification: after any lines were added (fewer than
  \<open>2\<^sup>6\<^sup>4\<close>, where the sequence numbers would wrap) it lists, in the order of arrival and with
  sequence numbers counting from one, redacted, exactly the lines that have fewer than \<open>cap\<close>
  later lines of the same source, so a noisy source never displaces another.
\<close>

theorem Snapshot_newest:
  assumes "length ls < 2 ^ 64"
  shows "Snapshot (foldl (add_line redact) (New_Buffer c) ls)
       = newest (if c \<le> 0 then 2000 else nat c) (entries redact ls)"
proof -
  let ?n = "bu_cap (New_Buffer c)"
  note m = rings_newest [OF assms, of redact c]
  note ns = seq_sorted [OF sorted_wrt_subseq [OF subseq_newest entries_sorted [OF assms, of redact]], of ?n]
  have "Snapshot (foldl (add_line redact) (New_Buffer c) ls) = newest ?n (entries redact ls)"
    unfolding Snapshot_def using sort_key_inj_key_eq [OF m _ ns(1)] ns(3) mset_eq_setD [OF m] by simp
  then show ?thesis by (simp add: New_Buffer_def split: if_splits)
qed

theorem Snapshot_newest_witness:
  "Snapshot (foldl (add_line (\<lambda>m. m)) (New_Buffer 1) [(''xray'', ''INFO'', ''a'', 0), (''xray'', ''INFO'', ''b'', 0)])
   = [\<lparr> en_Seq = 2, en_Time = 0, en_Level = ''INFO'', en_Source = ''xray'', en_Message = ''b'' \<rparr>]"
  using Snapshot_newest [of "[(''xray'', ''INFO'', ''a'', 0), (''xray'', ''INFO'', ''b'', 0)]" "\<lambda>m. m" 1]
  by (simp add: entries_def entry_of_def of_source_def upt_rec)


section \<open>The poller against its specification\<close>

text \<open>The lines of a text; the last one is not complete.\<close>

fun split_nl :: "string \<Rightarrow> string list" where
  "split_nl [] = [[]]"
| "split_nl (c # s) = (if c = CHR 0x0A then [] # split_nl s else (c # hd (split_nl s)) # tl (split_nl s))"

lemma split_nl_not_Nil [simp]: "split_nl s \<noteq> []"
  by (cases s) auto

lemma split_nl_append: "split_nl (s @ t) = butlast (split_nl s) @ split_nl (last (split_nl s) @ t)"
proof (induction s)
  case (Cons c s)
  obtain x xs where x: "split_nl s = x # xs" by (cases "split_nl s") auto
  show ?case
  proof (cases xs)
    case Nil
    with Cons x show ?thesis by (cases "split_nl (x @ t)") auto
  next
    case (Cons y ys)
    with Cons.IH x show ?thesis by auto
  qed
qed simp

lemma cut_line_None: "cut_line s = None \<Longrightarrow> split_nl s = [s]"
  by (induction s) (auto split: if_splits option.splits)

lemma cut_line_Some: "cut_line s = Some (l, r) \<Longrightarrow> split_nl s = l # split_nl r"
  by (induction s arbitrary: l) (auto split: if_splits option.splits)

text \<open>The lines that reach the buffer: complete, without carriage returns and colours, not empty.\<close>

definition log_lines :: "string \<Rightarrow> string \<Rightarrow> (string \<times> string \<times> string) list" where
  "log_lines source content = map (\<lambda>l. (source, ParseLevel source l, l))
     (filter (\<lambda>l. l \<noteq> []) (map (\<lambda>l. stripANSI (trim_cr l)) (butlast (split_nl content))))"

definition stamp :: "int \<Rightarrow> string \<times> string \<times> string \<Rightarrow> line" where
  "stamp t l = (case l of (s, v, m) \<Rightarrow> (s, v, m, t))"


lemma stamp_simp [simp]: "stamp t (s, v, m) = (s, v, m, t)"
  by (simp add: stamp_def)

lemma add_line_simp [simp]: "add_line redact b (s, v, m, t) = Buffer_Add redact s v m t b"
  by (simp add: add_line_def)

lemma drain_lines:
  "drain redact now src rest b =
     (last (split_nl rest), foldl (add_line redact) b (map (stamp now) (log_lines src rest)))"
proof (induction redact now src rest b rule: drain.induct)
  case (1 redact now src rest b)
  show ?case
  proof (cases "cut_line rest")
    case None
    then show ?thesis by (subst drain.simps) (simp add: cut_line_None log_lines_def)
  next
    case (Some lr)
    obtain l r where lr: "lr = (l, r)" by force
    have sp: "split_nl rest = l # split_nl r" using Some lr cut_line_Some by simp
    then have "log_lines src rest =
        (let m = stripANSI (trim_cr l) in if m = [] then [] else [(src, ParseLevel src m, m)]) @ log_lines src r"
      by (simp add: log_lines_def Let_def)
    with sp 1 [OF Some lr [symmetric] refl] Some lr show ?thesis
      by (subst drain.simps) (auto simp: Let_def)
  qed
qed

lemma log_lines_append: "log_lines src (s @ t) = log_lines src s @ log_lines src (last (split_nl s) @ t)"
  by (simp add: log_lines_def split_nl_append [of s t] butlast_append)

lemma last_split_append: "last (split_nl (s @ t)) = last (split_nl (last (split_nl s) @ t))"
  by (simp add: split_nl_append [of s t])

text \<open>The file after an answer, and the lines it gives.\<close>

definition advance :: "ReadLogsResult option option \<Rightarrow> logFile \<Rightarrow> logFile" where
  "advance reply lf =
     (case reply of
        None \<Rightarrow> lf \<lparr> lf_warned := True \<rparr>
      | Some None \<Rightarrow> lf \<lparr> lf_warned := False \<rparr>
      | Some (Some res) \<Rightarrow> lf \<lparr> lf_warned := False, lf_offset := rl_Offset res,
          lf_rest := last (split_nl ((if rl_Truncated res then [] else lf_rest lf) @ rl_Data res)) \<rparr>)"

definition feed :: "ReadLogsResult option option \<Rightarrow> logFile \<Rightarrow> (string \<times> string \<times> string) list" where
  "feed reply lf =
     (case reply of
        Some (Some res) \<Rightarrow> log_lines (lf_source lf) ((if rl_Truncated res then [] else lf_rest lf) @ rl_Data res)
      | _ \<Rightarrow> [])"

lemma poll_file_lines:
  "poll_file redact now reply lf b =
     (advance reply lf, foldl (add_line redact) b (map (stamp now) (feed reply lf)))"
  by (auto simp: poll_file_def advance_def feed_def drain_lines Let_def split: option.splits)

lemma pollOnce_lines:
  "pollOnce redact now call lfs b =
     (map (\<lambda>lf. advance (call lf) lf) lfs,
      foldl (add_line redact) b (map (stamp now) (concat (map (\<lambda>lf. feed (call lf) lf) lfs))))"
  by (induction lfs arbitrary: b) (simp_all add: poll_file_lines)

text \<open>A run of the poller: at each poll a time, and the log directory if the helper answers.\<close>

type_synonym poll = "int \<times> (string \<rightharpoonup> string) option"

definition helper_reply :: "nat \<Rightarrow> (string \<rightharpoonup> string) option \<Rightarrow> logFile \<Rightarrow> ReadLogsResult option option" where
  "helper_reply chunk d lf =
     (case d of
        None \<Rightarrow> None
      | Some dir \<Rightarrow> (case ReadLogs chunk dir (lf_name lf) (lf_offset lf) of Inl _ \<Rightarrow> None | Inr res \<Rightarrow> Some (Some res)))"

fun poll_run :: "(string \<Rightarrow> string) \<Rightarrow> nat \<Rightarrow> poll list \<Rightarrow> logFile list \<times> Buffer \<Rightarrow> logFile list \<times> Buffer" where
  "poll_run redact chunk [] s = s"
| "poll_run redact chunk (p # ps) s =
     poll_run redact chunk ps (pollOnce redact (fst p) (helper_reply chunk (snd p)) (fst s) (snd s))"

text \<open>The same for one file.\<close>

fun file_run :: "nat \<Rightarrow> poll list \<Rightarrow> logFile \<Rightarrow> logFile" where
  "file_run chunk [] lf = lf"
| "file_run chunk (p # ps) lf = file_run chunk ps (advance (helper_reply chunk (snd p) lf) lf)"

fun file_lines :: "nat \<Rightarrow> poll list \<Rightarrow> logFile \<Rightarrow> (string \<times> string \<times> string) list" where
  "file_lines chunk [] lf = []"
| "file_lines chunk (p # ps) lf = feed (helper_reply chunk (snd p) lf) lf
     @ file_lines chunk ps (advance (helper_reply chunk (snd p) lf) lf)"

fun run_lines :: "nat \<Rightarrow> poll list \<Rightarrow> logFile list \<Rightarrow> line list" where
  "run_lines chunk [] lfs = []"
| "run_lines chunk (p # ps) lfs =
     map (stamp (fst p)) (concat (map (\<lambda>lf. feed (helper_reply chunk (snd p) lf) lf) lfs))
     @ run_lines chunk ps (map (\<lambda>lf. advance (helper_reply chunk (snd p) lf) lf) lfs)"

lemma poll_run_lines:
  "poll_run redact chunk ps (lfs, b) =
     (map (file_run chunk ps) lfs, foldl (add_line redact) b (run_lines chunk ps lfs))"
  by (induction ps arbitrary: lfs b) (simp_all add: pollOnce_lines map_idI)

definition unstamp :: "line \<Rightarrow> string \<times> string \<times> string" where
  "unstamp l = (case l of (s, v, m, t) \<Rightarrow> (s, v, m))"

lemma advance_names [simp]: "lf_source (advance r lf) = lf_source lf" "lf_name (advance r lf) = lf_name lf"
  by (auto simp: advance_def split: option.splits)

lemma feed_source: "l \<in> set (feed r lf) \<Longrightarrow> fst l = lf_source lf"
  by (auto simp: feed_def log_lines_def split: option.splits)

lemma filter_feeds:
  assumes "distinct (map lf_source lfs)" "lf \<in> set lfs"
  shows "filter (\<lambda>l. fst l = lf_source lf) (concat (map (\<lambda>lf. feed (call lf) lf) lfs)) = feed (call lf) lf"
  using assms
proof (induction lfs)
  case (Cons x lfs)
  have none: "filter (\<lambda>l. fst l = lf_source lf) (feed (call y) y) = []" if "lf_source y \<noteq> lf_source lf" for y
    using that feed_source by (fastforce simp: filter_empty_conv)
  have all: "filter (\<lambda>l. fst l = lf_source lf) (feed (call lf) lf) = feed (call lf) lf"
    using feed_source by (fastforce simp: filter_id_conv)
  show ?case
  proof (cases "lf = x")
    case True
    have "filter (\<lambda>l. fst l = lf_source lf) (concat (map (\<lambda>lf. feed (call lf) lf) lfs)) = []"
      using Cons.prems(1) True feed_source by (fastforce simp: filter_empty_conv)
    with True all show ?thesis by simp
  next
    case False
    with Cons.prems have "lf_source x \<noteq> lf_source lf" by (auto simp: image_iff)
    with False Cons none show ?thesis by simp
  qed
qed simp

lemma filter_run_lines:
  assumes "distinct (map lf_source lfs)" "lf \<in> set lfs"
  shows "filter (\<lambda>l. fst l = lf_source lf) (map unstamp (run_lines chunk ps lfs)) = file_lines chunk ps lf"
  using assms
proof (induction ps arbitrary: lfs lf)
  case (Cons p ps)
  let ?adv = "\<lambda>lf. advance (helper_reply chunk (snd p) lf) lf"
  have u: "map unstamp (map (stamp t) ls) = ls" for t ls
    by (simp add: unstamp_def stamp_def case_prod_beta map_idI)
  have "distinct (map lf_source (map ?adv lfs))" using Cons.prems(1) by (simp add: o_def)
  moreover have "?adv lf \<in> set (map ?adv lfs)" using Cons.prems(2) by auto
  ultimately have "filter (\<lambda>l. fst l = lf_source lf) (map unstamp (run_lines chunk ps (map ?adv lfs)))
      = file_lines chunk ps (?adv lf)" using Cons.IH by fastforce
  with filter_feeds [OF Cons.prems, of "helper_reply chunk (snd p)"] u show ?case by simp
qed simp


text \<open>The text of a log file; a missing file counts as empty.\<close>

definition content :: "(string \<rightharpoonup> string) \<Rightarrow> string \<Rightarrow> string" where
  "content dir name = (case dir name of None \<Rightarrow> [] | Some s \<Rightarrow> s)"

text \<open>The file is read up to position \<open>k\<close> of the text \<open>s\<close>.\<close>

definition read_to :: "string \<Rightarrow> nat \<Rightarrow> logFile \<Rightarrow> bool" where
  "read_to s k lf \<longleftrightarrow> k \<le> length s \<and> lf_offset lf = int k \<and> lf_rest lf = last (split_nl (take k s))"

lemma read_to_prefix: "read_to s k lf \<Longrightarrow> prefix s s' \<Longrightarrow> read_to s' k lf"
  by (auto simp: read_to_def prefix_def)

lemma ReadLogs_content:
  assumes "readLogsAllow name" "k \<le> length (content dir name)"
  shows "ReadLogs chunk dir name (int k) = Inr \<lparr> rl_Data = take chunk (drop k (content dir name)),
     rl_Offset = int (k + min chunk (length (content dir name) - k)), rl_Truncated = False \<rparr>"
  using assms by (auto simp: ReadLogs_def content_def Let_def min.commute split: option.splits)

lemma poll_step:
  fixes chunk :: nat
  assumes "readLogsAllow (lf_name lf)" "read_to (content dir (lf_name lf)) k lf"
  defines "s \<equiv> content dir (lf_name lf)"
  defines "k' \<equiv> k + min chunk (length s - k)"
  defines "r \<equiv> helper_reply chunk (Some dir) lf"
  shows "read_to s k' (advance r lf)" "log_lines (lf_source lf) (take k' s) = log_lines (lf_source lf) (take k s) @ feed r lf"
proof -
  have off: "k \<le> length s" "lf_offset lf = int k" "lf_rest lf = last (split_nl (take k s))"
    using assms by (auto simp: read_to_def)
  have r: "r = Some (Some \<lparr> rl_Data = take chunk (drop k s), rl_Offset = int k', rl_Truncated = False \<rparr>)"
    using ReadLogs_content [OF assms(1), of k dir chunk] off by (simp add: r_def helper_reply_def s_def k'_def)
  have t: "take k' s = take k s @ take chunk (drop k s)"
    using off(1) by (simp add: k'_def take_add min_def)
  show "read_to s k' (advance r lf)"
    using off by (simp add: read_to_def r advance_def t last_split_append [of "take k s"]) (simp add: k'_def)
  show "log_lines (lf_source lf) (take k' s) = log_lines (lf_source lf) (take k s) @ feed r lf"
    by (simp add: r feed_def t log_lines_append [of _ "take k s"] off(3))
qed

text \<open>Directories in which the log files only grow, and where a run ends.\<close>

definition grows :: "(string \<rightharpoonup> string) \<Rightarrow> (string \<rightharpoonup> string) \<Rightarrow> bool" where
  "grows d d' \<longleftrightarrow> list_all (\<lambda>lf. prefix (content d (lf_name lf)) (content d' (lf_name lf))) poller_files"

fun growing :: "(string \<rightharpoonup> string) \<Rightarrow> poll list \<Rightarrow> bool" where
  "growing d [] = True"
| "growing d (p # ps) = (case snd p of None \<Rightarrow> growing d ps | Some d' \<Rightarrow> grows d d' \<and> growing d' ps)"

fun final_dir :: "(string \<rightharpoonup> string) \<Rightarrow> poll list \<Rightarrow> (string \<rightharpoonup> string)" where
  "final_dir d [] = d"
| "final_dir d (p # ps) = final_dir (case snd p of None \<Rightarrow> d | Some d' \<Rightarrow> d') ps"

lemma file_run_reads:
  assumes "growing d ps" "lf_name lf \<in> lf_name ` set poller_files" "read_to (content d (lf_name lf)) k lf"
  shows "\<exists>k'. read_to (content (final_dir d ps) (lf_name lf)) k' (file_run chunk ps lf) \<and>
     log_lines (lf_source lf) (take k' (content (final_dir d ps) (lf_name lf)))
       = log_lines (lf_source lf) (take k (content d (lf_name lf))) @ file_lines chunk ps lf"
  using assms
proof (induction ps arbitrary: d lf k)
  case Nil
  then show ?case by auto
next
  case (Cons p ps)
  let ?lf = "advance (helper_reply chunk (snd p) lf) lf"
  show ?case
  proof (cases "snd p")
    case None
    then have "read_to (content d (lf_name lf)) k ?lf" "feed (helper_reply chunk (snd p) lf) lf = []"
      using Cons.prems(3) by (auto simp: helper_reply_def advance_def feed_def read_to_def)
    with Cons.IH [of d ?lf k] Cons.prems None show ?thesis by simp
  next
    case (Some d')
    let ?s = "content d (lf_name lf)" and ?s' = "content d' (lf_name lf)"
    have pre: "prefix ?s ?s'" using Cons.prems(1,2) Some by (auto simp: grows_def list_all_iff)
    have allow: "readLogsAllow (lf_name lf)"
      using Cons.prems(2) by (auto simp: poller_files_def new_logFile_def readLogsAllow_def)
    note st = poll_step [OF allow read_to_prefix [OF Cons.prems(3) pre], of chunk]
    have "take k ?s' = take k ?s" using pre Cons.prems(3) by (auto simp: read_to_def prefix_def)
    with Cons.IH [of d' ?lf] st Cons.prems Some show ?thesis by (simp, metis append_assoc)
  qed
qed

lemma file_run_caught_up:
  assumes "readLogsAllow (lf_name lf)" "read_to (content d (lf_name lf)) k lf"
  shows "read_to (content d (lf_name lf)) (min (length (content d (lf_name lf))) (k + chunk * length ts))
     (file_run chunk (map (\<lambda>t. (t, Some d)) ts) lf)"
  using assms
proof (induction ts arbitrary: lf k)
  case Nil
  then show ?case by (simp add: read_to_def min_absorb2)
next
  case (Cons t ts)
  let ?lf = "advance (helper_reply chunk (Some d) lf) lf" and ?s = "content d (lf_name lf)"
  have "k \<le> length ?s" using Cons.prems(2) by (simp add: read_to_def)
  then have m: "min (length ?s) (k + min chunk (length ?s - k) + chunk * length ts) = min (length ?s) (k + chunk * length (t # ts))"
    by (simp add: min_def) linarith
  have "read_to ?s (min (length ?s) (k + min chunk (length ?s - k) + chunk * length ts))
      (file_run chunk (map (\<lambda>t. (t, Some d)) ts) ?lf)"
    using Cons.IH [of ?lf "k + min chunk (length ?s - k)"] poll_step(1) [OF Cons.prems, of chunk] Cons.prems(1) by simp
  then show ?case unfolding m by simp
qed


lemma file_lines_append:
  "file_lines chunk (ps @ qs) lf = file_lines chunk ps lf @ file_lines chunk qs (file_run chunk ps lf)"
  "file_run chunk (ps @ qs) lf = file_run chunk qs (file_run chunk ps lf)"
  by (induction ps arbitrary: lf) auto

lemma file_run_names [simp]:
  "lf_source (file_run chunk ps lf) = lf_source lf" "lf_name (file_run chunk ps lf) = lf_name lf"
  by (induction ps arbitrary: lf) auto

lemma final_dir_append: "final_dir d (ps @ qs) = final_dir (final_dir d ps) qs"
  by (induction ps arbitrary: d) auto

lemma final_dir_same: "final_dir d (map (\<lambda>t. (t, Some d)) ts) = d"
  by (induction ts) auto

lemma growing_append: "growing d (ps @ qs) \<longleftrightarrow> growing d ps \<and> growing (final_dir d ps) qs"
  by (induction ps arbitrary: d) (auto split: option.splits)

lemma file_lines_complete:
  assumes "growing Map.empty (ps @ map (\<lambda>t. (t, Some d)) ts)" "ts \<noteq> []" "lf \<in> set poller_files"
    and "length (content d (lf_name lf)) \<le> chunk * length ts"
  shows "file_lines chunk (ps @ map (\<lambda>t. (t, Some d)) ts) lf = log_lines (lf_source lf) (content d (lf_name lf))"
proof -
  let ?ts = "map (\<lambda>t. (t, Some d)) ts" and ?n = "lf_name lf" and ?d = "final_dir Map.empty ps"
  have n: "?n \<in> lf_name ` set poller_files" using assms(3) by simp
  have allow: "readLogsAllow ?n" using assms(3) by (auto simp: poller_files_def new_logFile_def readLogsAllow_def)
  have r0: "read_to (content Map.empty ?n) 0 lf"
    using assms(3) by (auto simp: poller_files_def new_logFile_def read_to_def content_def)
  have l0: "log_lines src [] = []" for src by (simp add: log_lines_def)
  from file_run_reads [OF assms(1) n r0, of chunk]
  obtain k where k: "read_to (content (final_dir ?d ?ts) ?n) k (file_run chunk (ps @ ?ts) lf)"
    "log_lines (lf_source lf) (take k (content (final_dir ?d ?ts) ?n)) = file_lines chunk (ps @ ?ts) lf"
    by (auto simp: final_dir_append l0)
  have fd: "final_dir ?d ?ts = d"
    using assms(2) final_dir_same [of d "tl ts"] by (cases ts) auto
  have "growing Map.empty ps" using assms(1) by (simp add: growing_append)
  from file_run_reads [OF this n r0, of chunk] obtain k0 where k0: "read_to (content ?d ?n) k0 (file_run chunk ps lf)"
    by blast
  have "grows ?d d" using assms(1,2) by (cases ts) (auto simp: growing_append)
  then have "prefix (content ?d ?n) (content d ?n)" using assms(3) by (auto simp: grows_def list_all_iff)
  from file_run_caught_up [of "file_run chunk ps lf" d k0 chunk ts] allow read_to_prefix [OF k0 this] assms(4)
  have "lf_offset (file_run chunk (ps @ ?ts) lf) = int (length (content d ?n))"
    by (simp add: read_to_def file_lines_append min_def split: if_splits)
  with k fd have "k = length (content d ?n)" by (simp add: read_to_def)
  with k fd show ?thesis by simp
qed

text \<open>
  C20. The poller delivers the engines' logs completely and in order. Take any run of polls, some of
  which may fail, during which the log files only grow, and which ends with enough successful polls
  for the size of the files (\<open>chunk\<close> bytes each). Then the lines added to the buffer are, for each
  of the three files, exactly its complete lines in their order, each once, without carriage
  returns and colour codes, with the level they name, and without the empty ones.
\<close>

theorem poller_complete:
  assumes "growing Map.empty (ps @ map (\<lambda>t. (t, Some d)) ts)" "ts \<noteq> []"
    and "\<forall>lf \<in> set poller_files. length (content d (lf_name lf)) \<le> chunk * length ts"
  shows "\<exists>ls. snd (poll_run redact chunk (ps @ map (\<lambda>t. (t, Some d)) ts) (poller_files, New_Buffer c))
              = foldl (add_line redact) (New_Buffer c) ls \<and>
           (\<forall>lf \<in> set poller_files. filter (\<lambda>l. fst l = lf_source lf) (map unstamp ls)
              = log_lines (lf_source lf) (content d (lf_name lf)))"
proof -
  let ?ps = "ps @ map (\<lambda>t. (t, Some d)) ts"
  have "distinct (map lf_source poller_files)" by (simp add: poller_files_def new_logFile_def)
  then have "filter (\<lambda>l. fst l = lf_source lf) (map unstamp (run_lines chunk ?ps poller_files))
      = log_lines (lf_source lf) (content d (lf_name lf))" if "lf \<in> set poller_files" for lf
    using filter_run_lines [of poller_files lf chunk ?ps] file_lines_complete [OF assms(1,2) that, of chunk] assms(3) that
    by simp
  then show ?thesis
    by (intro exI [of _ "run_lines chunk ?ps poller_files"]) (simp add: poll_run_lines)
qed

definition demo_log :: "string \<rightharpoonup> string" where
  "demo_log = [''xray.log'' \<mapsto> ''a'' @ [CHR 0x0D, CHR 0x0A, CHR 0x0A] @ ''[Error] b'' @ [CHR 0x0A] @ ''c'']"

theorem poller_complete_witness:
  "\<exists>ls. snd (poll_run (\<lambda>m. m) 8 [(0, None), (1, Some [''xray.log'' \<mapsto> ''a'']), (2, Some demo_log), (3, Some demo_log)]
           (poller_files, New_Buffer 0)) = foldl (add_line (\<lambda>m. m)) (New_Buffer 0) ls \<and>
        filter (\<lambda>l. fst l = ''xray'') (map unstamp ls) = [(''xray'', ''INFO'', ''a''), (''xray'', ''ERROR'', ''[Error] b'')]"
proof -
  have d: "content demo_log n = (if n = ''xray.log''
      then ''a'' @ [CHR 0x0D, CHR 0x0A, CHR 0x0A] @ ''[Error] b'' @ [CHR 0x0A] @ ''c'' else [])" for n
    by (simp add: demo_log_def content_def)
  have g: "growing Map.empty ([(0, None), (1, Some [''xray.log'' \<mapsto> ''a''])] @ map (\<lambda>t. (t, Some demo_log)) [2, 3])"
    by (simp add: grows_def poller_files_def new_logFile_def d) (simp add: content_def)
  have "log_lines ''xray'' (content demo_log ''xray.log'') = [(''xray'', ''INFO'', ''a''), (''xray'', ''ERROR'', ''[Error] b'')]"
    unfolding d by code_simp
  with poller_complete [OF g, of 8 "\<lambda>m. m" 0] d show ?thesis
    by (auto simp: poller_files_def new_logFile_def)
qed

end
