(* ===== verification/Helper_Proto.thy ===== *)
theory Helper_Proto
  imports Logstream
begin

text \<open>
  The protocol between the application and the privileged helper: frames
  (\<^verbatim>\<open>helper/protocol/frame.go\<close>), messages (protocol.go), the dispatcher of the helper
  (\<^verbatim>\<open>helper/server/server.go\<close>) and the client (\<^verbatim>\<open>helper/client/client.go\<close>). Raw JSON values
  (\<^verbatim>\<open>json.RawMessage\<close>) are trees, an empty one is \<open>None\<close>. Handlers act on a world of any type.
\<close>

section \<open>Frames\<close>

definition MaxFrame :: nat where "MaxFrame = 2 ^ 20"

definition PutUint32 :: "32 word \<Rightarrow> string" where
  "PutUint32 w = map (\<lambda>k. char_of (unat w div 256 ^ k)) [3, 2, 1, 0]"

definition Uint32 :: "string \<Rightarrow> 32 word" where
  "Uint32 s = of_nat (foldl (\<lambda>n c. 256 * n + of_char c) 0 s)"

definition WriteFrame :: "string \<Rightarrow> string" where
  "WriteFrame body = PutUint32 (of_nat (length body)) @ body"

datatype frame_error = EOF | UnexpectedEOF | TooLarge nat nat

definition ReadFull :: "nat \<Rightarrow> string \<Rightarrow> frame_error + string \<times> string" where
  "ReadFull n r =
     (if n \<le> length r then Inr (take n r, drop n r) else Inl (if r = [] then EOF else UnexpectedEOF))"

definition ReadFrame :: "string \<Rightarrow> nat \<Rightarrow> frame_error + string \<times> string" where
  "ReadFrame r maxBytes =
     (case ReadFull 4 r of
        Inl e \<Rightarrow> Inl e
      | Inr (hdr, r) \<Rightarrow>
          (let n = unat (Uint32 hdr) in if n > maxBytes then Inl (TooLarge n maxBytes) else ReadFull n r))"

lemma ReadFrame_shorter: "ReadFrame r n = Inr (body, rest) \<Longrightarrow> length rest < length r"
  by (auto simp: ReadFrame_def ReadFull_def Let_def split: if_splits)

lemma four_bytes:
  fixes n :: nat
  shows "256 * (256 * (256 * (n div 16777216) + n div 65536 mod 256) + n div 256 mod 256) + n mod 256 = n"
proof -
  have "n div 65536 = n div 256 div 256" "n div 16777216 = n div 256 div 256 div 256"
    by (simp_all flip: div_mult2_eq)
  then show ?thesis by (simp add: mult_div_mod_eq)
qed

lemma Uint32_PutUint32 [simp]: "Uint32 (PutUint32 w) = w"
proof -
  have "unat w div 16777216 mod 256 = unat w div 16777216"
    using unsigned_less [of w, where 'a = nat] by simp
  with four_bytes [of "unat w"] have "foldl (\<lambda>n c. 256 * n + of_char c) 0 (PutUint32 w) = unat w"
    by (simp add: PutUint32_def mult.commute)
  then show ?thesis by (simp add: Uint32_def)
qed

lemma length_PutUint32 [simp]: "length (PutUint32 w) = 4"
  by (simp add: PutUint32_def)

lemma ReadFrame_WriteFrame:
  assumes "length body \<le> n" "n < 2 ^ 32"
  shows "ReadFrame (WriteFrame body @ rest) n = Inr (body, rest)"
proof -
  have "unat (of_nat (length body) :: 32 word) = length body"
    using assms by (simp add: unsigned_of_nat take_bit_nat_eq_self)
  with assms show ?thesis by (simp add: ReadFrame_def ReadFull_def WriteFrame_def)
qed

section \<open>Messages\<close>

record Request =
  rq_ID :: "64 word"
  rq_Op :: string
  rq_Args :: "json option"

record Response =
  rs_ID :: "64 word"
  rs_OK :: bool
  rs_Error :: string
  rs_Result :: "json option"

fun dec_word64 :: "64 word dec" where
  "dec_word64 JNull w = Some w"
| "dec_word64 (JNum k) w = (if 0 \<le> k \<and> k < 2 ^ 64 then Some (word_of_int k) else None)"
| "dec_word64 _ w = None"

definition dec_raw :: "json option dec" where "dec_raw v r = Some (Some v)"

definition raw_field :: "string \<Rightarrow> json option \<Rightarrow> (string \<times> json) list" where
  "raw_field k r = (case r of None \<Rightarrow> [] | Some v \<Rightarrow> [(k, v)])"

definition enc_Request :: "Request \<Rightarrow> json" where
  "enc_Request r = JObj ([(''id'', JNum (uint (rq_ID r))), (''op'', JStr (rq_Op r))] @ raw_field ''args'' (rq_Args r))"

definition Request_fields :: "Request fields" where
  "Request_fields =
     [(''id'', fld rq_ID (\<lambda>x r. r \<lparr> rq_ID := x \<rparr>) dec_word64),
      (''op'', fld rq_Op (\<lambda>x r. r \<lparr> rq_Op := x \<rparr>) dec_string),
      (''args'', fld rq_Args (\<lambda>x r. r \<lparr> rq_Args := x \<rparr>) dec_raw)]"

definition zero_Request :: Request where
  "zero_Request = \<lparr> rq_ID = 0, rq_Op = [], rq_Args = None \<rparr>"

definition dec_Request :: "string \<Rightarrow> Request option" where
  "dec_Request body = (case json_parse body of None \<Rightarrow> None | Some j \<Rightarrow> dec_struct Request_fields j zero_Request)"

definition enc_Response :: "Response \<Rightarrow> json" where
  "enc_Response r = JObj ([(''id'', JNum (uint (rs_ID r))), (''ok'', JBool (rs_OK r))]
     @ jopt (rs_Error r \<noteq> []) ''error'' (JStr (rs_Error r)) @ raw_field ''result'' (rs_Result r))"

definition Response_fields :: "Response fields" where
  "Response_fields =
     [(''id'', fld rs_ID (\<lambda>x r. r \<lparr> rs_ID := x \<rparr>) dec_word64),
      (''ok'', fld rs_OK (\<lambda>x r. r \<lparr> rs_OK := x \<rparr>) dec_bool),
      (''error'', fld rs_Error (\<lambda>x r. r \<lparr> rs_Error := x \<rparr>) dec_string),
      (''result'', fld rs_Result (\<lambda>x r. r \<lparr> rs_Result := x \<rparr>) dec_raw)]"

definition zero_Response :: Response where
  "zero_Response = \<lparr> rs_ID = 0, rs_OK = False, rs_Error = [], rs_Result = None \<rparr>"

definition dec_Response :: "string \<Rightarrow> Response option" where
  "dec_Response body = (case json_parse body of None \<Rightarrow> None | Some j \<Rightarrow> dec_struct Response_fields j zero_Response)"

definition NewOK :: "64 word \<Rightarrow> json option \<Rightarrow> Response" where
  "NewOK i result = \<lparr> rs_ID = i, rs_OK = True, rs_Error = [], rs_Result = result \<rparr>"

definition NewError :: "64 word \<Rightarrow> string \<Rightarrow> Response" where
  "NewError i msg = \<lparr> rs_ID = i, rs_OK = False, rs_Error = msg, rs_Result = None \<rparr>"

lemma uint64_bound [simp]: "uint (w :: 64 word) < 18446744073709551616"
  using unsigned_less [of w, where 'a = int] by simp

lemma dec_enc_Request: "dec_struct Request_fields (enc_Request r) zero_Request = Some r"
  by (cases r; cases "rq_Args r")
    (simp_all add: enc_Request_def Request_fields_def zero_Request_def raw_field_def dec_raw_def find_field_def fld_def)

lemma dec_enc_Response: "dec_struct Response_fields (enc_Response r) zero_Response = Some r"
  by (cases r; cases "rs_Result r")
    (simp_all add: enc_Response_def Response_fields_def zero_Response_def raw_field_def dec_raw_def find_field_def
      fld_def jopt_def)

section \<open>Dispatcher\<close>

type_synonym 'w handler = "json option \<Rightarrow> 'w \<Rightarrow> (string + json option) \<times> 'w"
type_synonym 'w Dispatcher = "string \<rightharpoonup> 'w handler"

definition NewDispatcher :: "'w Dispatcher" where "NewDispatcher = Map.empty"

definition Register :: "string \<Rightarrow> 'w handler \<Rightarrow> 'w Dispatcher \<Rightarrow> 'w Dispatcher" where
  "Register operation h d = d(operation \<mapsto> h)"

definition dispatch_write :: "Response \<Rightarrow> string" where
  "dispatch_write resp = WriteFrame (json_print (enc_Response resp))"

definition answer :: "'w Dispatcher \<Rightarrow> Request \<Rightarrow> 'w \<Rightarrow> Response \<times> 'w" where
  "answer d req w =
     (case d (rq_Op req) of
        None \<Rightarrow> (NewError (rq_ID req) (''unknown op: '' @ rq_Op req), w)
      | Some h \<Rightarrow>
          (case h (rq_Args req) w of
             (Inl e, w') \<Rightarrow> (NewError (rq_ID req) e, w')
           | (Inr res, w') \<Rightarrow> (NewOK (rq_ID req) res, w')))"

definition dispatch_handle :: "'w Dispatcher \<Rightarrow> Request \<Rightarrow> 'w \<Rightarrow> string \<times> 'w" where
  "dispatch_handle d req w = (case answer d req w of (resp, w') \<Rightarrow> (dispatch_write resp, w'))"

text \<open>
  One connection: what is written in answer to the bytes that arrive until the connection ends.
  \<open>jerr\<close> is the text of the error of \<^verbatim>\<open>json.Unmarshal\<close>.
\<close>

function Serve :: "(string \<Rightarrow> string) \<Rightarrow> 'w Dispatcher \<Rightarrow> string \<Rightarrow> 'w \<Rightarrow> string \<times> 'w" where
  "Serve jerr d inp w =
     (case ReadFrame inp MaxFrame of
        Inl e \<Rightarrow> ([], w)
      | Inr (body, rest) \<Rightarrow>
          (case dec_Request body of
             None \<Rightarrow>
               (case Serve jerr d rest w of (out, w') \<Rightarrow>
                  (dispatch_write (NewError 0 (''invalid request: '' @ jerr body)) @ out, w'))
           | Some req \<Rightarrow>
               (case dispatch_handle d req w of (out1, w1) \<Rightarrow>
                  (case Serve jerr d rest w1 of (out, w') \<Rightarrow> (out1 @ out, w')))))"
  by pat_completeness auto
termination by (relation "measure (\<lambda>(_, _, inp, _). length inp)") (auto dest: ReadFrame_shorter)

declare Serve.simps [simp del]

section \<open>Client\<close>

text \<open>
  The connection is represented by the bytes that have arrived on it and are not read yet. Calls
  are serialised by the gate, so a call is one step.
\<close>

record Client =
  cl_conn :: "string option"
  cl_dial :: bool
  cl_closed :: bool
  cl_nextID :: "64 word"

datatype call_error = ContextError | ErrClosed | DialError string | WriteError | ReadError frame_error
  | DecodeError | IdMismatch "64 word" "64 word" | RemoteError string

definition NewWithConn :: Client where
  "NewWithConn = \<lparr> cl_conn = Some [], cl_dial = False, cl_closed = False, cl_nextID = 0 \<rparr>"

definition Client_Close :: "Client \<Rightarrow> Client" where
  "Client_Close c = c \<lparr> cl_closed := True, cl_conn := None \<rparr>"

definition connection :: "string option \<Rightarrow> Client \<Rightarrow> (call_error + string) \<times> Client" where
  "connection dialErr c =
     (if cl_closed c then (Inl ErrClosed, c)
      else case cl_conn c of
        Some pending \<Rightarrow> (Inr pending, c)
      | None \<Rightarrow>
          (if \<not> cl_dial c then (Inl ErrClosed, c)
           else case dialErr of
             Some e \<Rightarrow> (Inl (DialError e), c)
           | None \<Rightarrow> (Inr [], c \<lparr> cl_conn := Some [] \<rparr>)))"

definition discard :: "Client \<Rightarrow> Client" where
  "discard c = c \<lparr> cl_conn := None \<rparr>"

text \<open>
  The far end turns the bytes written into the bytes that arrive until it falls silent; \<open>None\<close> is a
  failed write.
\<close>

type_synonym 'w peer = "string \<Rightarrow> 'w \<Rightarrow> string option \<times> 'w"

definition exchange :: "'w peer \<Rightarrow> string \<Rightarrow> Client \<Rightarrow> string \<Rightarrow> json option \<Rightarrow> 'w
    \<Rightarrow> (call_error + json option) \<times> Client \<times> 'w" where
  "exchange peer pending c operation args w =
     (let i = cl_nextID c + 1;
          c = c \<lparr> cl_nextID := i \<rparr>;
          body = json_print (enc_Request \<lparr> rq_ID = i, rq_Op = operation, rq_Args = args \<rparr>)
      in case peer (WriteFrame body) w of
           (None, w') \<Rightarrow> (Inl WriteError, discard c, w')
         | (Some bytes, w') \<Rightarrow>
             (case ReadFrame (pending @ bytes) MaxFrame of
                Inl e \<Rightarrow> (Inl (ReadError e), discard c, w')
              | Inr (respBody, rest) \<Rightarrow>
                  (let c = c \<lparr> cl_conn := Some rest \<rparr> in
                   case dec_Response respBody of
                     None \<Rightarrow> (Inl DecodeError, discard c, w')
                   | Some resp \<Rightarrow>
                       (if rs_ID resp \<noteq> i then (Inl (IdMismatch (rs_ID resp) i), discard c, w')
                        else if \<not> rs_OK resp then (Inl (RemoteError (rs_Error resp)), c, w')
                        else (Inr (rs_Result resp), c, w')))))"

text \<open>The context may end before the connection is used, or while the call waits on it.\<close>

record call_env =
  ce_before :: bool
  ce_dial :: "string option"
  ce_during :: bool

definition Client_Call :: "call_env \<Rightarrow> 'w peer \<Rightarrow> Client \<Rightarrow> string \<Rightarrow> json option \<Rightarrow> 'w
    \<Rightarrow> (call_error + json option) \<times> Client \<times> 'w" where
  "Client_Call env peer c operation args w =
     (if ce_before env then (Inl ContextError, c, w)
      else case connection (ce_dial env) c of
        (Inl e, c) \<Rightarrow> (Inl e, c, w)
      | (Inr pending, c) \<Rightarrow>
          (case exchange peer pending c operation args w of (res, c, w) \<Rightarrow>
             if ce_during env then (Inl ContextError, discard c, w) else (res, c, w)))"

section \<open>Remote calls are local calls\<close>

text \<open>Calls one after the other, and a condition on each of them.\<close>

fun in_turn :: "('r \<Rightarrow> 's \<Rightarrow> 'a \<times> 's) \<Rightarrow> 'r list \<Rightarrow> 's \<Rightarrow> 'a list \<times> 's" where
  "in_turn f [] s = ([], s)"
| "in_turn f (r # rs) s = (case f r s of (a, s') \<Rightarrow> (case in_turn f rs s' of (as, s'') \<Rightarrow> (a # as, s'')))"

fun along :: "('r \<Rightarrow> 's \<Rightarrow> bool) \<Rightarrow> ('r \<Rightarrow> 's \<Rightarrow> 'a \<times> 's) \<Rightarrow> 'r list \<Rightarrow> 's \<Rightarrow> bool" where
  "along P f [] s = True"
| "along P f (r # rs) s \<longleftrightarrow> P r s \<and> along P f rs (snd (f r s))"

text \<open>
  A service reached through a channel: while the channel is in order, a call has the result and the
  effect of the service itself, and leaves the channel in order.
\<close>

locale remote_service =
  fixes invoke :: "'r \<Rightarrow> 'c \<times> 'w \<Rightarrow> 'a \<times> 'c \<times> 'w"
    and service :: "'r \<Rightarrow> 'w \<Rightarrow> 'a \<times> 'w"
    and in_order :: "'c \<Rightarrow> bool"
    and admissible :: "'r \<Rightarrow> 'w \<Rightarrow> bool"
  assumes invoke_service: "in_order c \<Longrightarrow> admissible r w \<Longrightarrow>
      fst (invoke r (c, w)) = fst (service r w) \<and> snd (snd (invoke r (c, w))) = snd (service r w) \<and>
      in_order (fst (snd (invoke r (c, w))))"
begin

lemma in_turn_service:
  assumes "in_order c" "along admissible service rs w"
  shows "\<exists>c'. in_turn invoke rs (c, w) = (fst (in_turn service rs w), c', snd (in_turn service rs w)) \<and> in_order c'"
  using assms
proof (induction rs arbitrary: c w)
  case (Cons r rs)
  obtain a c' w' where cw: "invoke r (c, w) = (a, c', w')" by (cases "invoke r (c, w)") auto
  with invoke_service [OF Cons.prems(1), of r w] Cons.prems(2)
  have s: "in_order c'" "service r w = (a, w')" by (auto intro: prod_eqI)
  from Cons.IH [OF s(1), of w'] Cons.prems(2) s cw show ?case by (auto split: prod.splits)
qed simp

end

text \<open>The service behind the dispatcher, called in the same process.\<close>

definition local_call :: "'w Dispatcher \<Rightarrow> string \<times> json option \<Rightarrow> 'w \<Rightarrow> (call_error + json option) \<times> 'w" where
  "local_call d r w =
     (case d (fst r) of
        None \<Rightarrow> (Inl (RemoteError (''unknown op: '' @ fst r)), w)
      | Some h \<Rightarrow> (case h (snd r) w of (Inl e, w') \<Rightarrow> (Inl (RemoteError e), w') | (Inr res, w') \<Rightarrow> (Inr res, w')))"

text \<open>The helper at the far end of the connection.\<close>

definition helper_peer :: "(string \<Rightarrow> string) \<Rightarrow> 'w Dispatcher \<Rightarrow> 'w peer" where
  "helper_peer jerr d bytes w = (case Serve jerr d bytes w of (out, w') \<Rightarrow> (Some out, w'))"

definition uninterrupted :: call_env where
  "uninterrupted = \<lparr> ce_before = False, ce_dial = None, ce_during = False \<rparr>"

definition helper_call :: "(string \<Rightarrow> string) \<Rightarrow> 'w Dispatcher \<Rightarrow> string \<times> json option \<Rightarrow> Client \<times> 'w
    \<Rightarrow> (call_error + json option) \<times> Client \<times> 'w" where
  "helper_call jerr d r s = Client_Call uninterrupted (helper_peer jerr d) (fst s) (fst r) (snd r) (snd s)"

definition connected :: "Client \<Rightarrow> bool" where
  "connected c \<longleftrightarrow> \<not> cl_closed c \<and> (cl_conn c = Some [] \<or> cl_conn c = None \<and> cl_dial c)"

text \<open>A message that fits into a frame with any identifier, and is valid text.\<close>

definition sendable :: "json \<Rightarrow> bool" where
  "sendable j \<longleftrightarrow> json_ok j \<and> length (json_print j) + 19 \<le> MaxFrame"

definition request_ok :: "'w Dispatcher \<Rightarrow> string \<times> json option \<Rightarrow> 'w \<Rightarrow> bool" where
  "request_ok d r w \<longleftrightarrow>
     (let req = \<lparr> rq_ID = 0, rq_Op = fst r, rq_Args = snd r \<rparr>
      in sendable (enc_Request req) \<and> sendable (enc_Response (fst (answer d req w))))"

lemma length_nat_str: "n < 10 ^ k \<Longrightarrow> 0 < k \<Longrightarrow> length (nat_str n) \<le> k"
proof (induction k arbitrary: n)
  case (Suc k)
  show ?case
  proof (cases "n < 10")
    case False
    then have "k \<noteq> 0" using Suc.prems by (cases k) auto
    with Suc.IH [of "n div 10"] Suc.prems False show ?thesis
      by (subst nat_str.simps) (simp add: less_mult_imp_div_less mult.commute)
  qed (simp add: nat_str.simps [of n])
qed simp

lemma length_uint64: "length (int_str (uint (i :: 64 word))) \<le> 20"
proof -
  have "nat (uint i) < 10 ^ 20" using unsigned_less [of i, where 'a = nat] by simp
  from length_nat_str [OF this] show ?thesis by (simp add: int_str_def)
qed

lemma length_uint0: "length (int_str (uint (0 :: 64 word))) = 1"
  by (simp add: int_str_def nat_str.simps)

lemma Request_size: "length (json_print (enc_Request (r \<lparr> rq_ID := i \<rparr>)))
    \<le> length (json_print (enc_Request (r \<lparr> rq_ID := 0 \<rparr>))) + 19"
  using length_uint64 [of i] length_uint0
  by (cases "rq_Args r") (auto simp: enc_Request_def raw_field_def)

lemma Response_size: "length (json_print (enc_Response (r \<lparr> rs_ID := i \<rparr>)))
    \<le> length (json_print (enc_Response (r \<lparr> rs_ID := 0 \<rparr>))) + 19"
  using length_uint64 [of i] length_uint0
  by (cases "rs_Result r"; cases "rs_Error r = []") (auto simp: enc_Response_def raw_field_def jopt_def)

lemma json_ok_id:
  "json_ok (enc_Request (r \<lparr> rq_ID := i \<rparr>)) = json_ok (enc_Request r)"
  "json_ok (enc_Response (p \<lparr> rs_ID := i \<rparr>)) = json_ok (enc_Response p)"
  by (cases "rq_Args r"; simp add: enc_Request_def raw_field_def)
    (cases "rs_Result p"; simp add: enc_Response_def raw_field_def jopt_def)

lemma answer_id:
  "answer d (r \<lparr> rq_ID := i \<rparr>) w = (fst (answer d r w) \<lparr> rs_ID := i \<rparr>, snd (answer d r w))"
  by (auto simp: answer_def NewError_def NewOK_def split: option.splits prod.splits sum.splits)

lemma dec_print_Request: "json_ok (enc_Request r) \<Longrightarrow> dec_Request (json_print (enc_Request r)) = Some r"
  by (simp add: dec_Request_def json_parse_print dec_enc_Request)

lemma dec_print_Response: "json_ok (enc_Response r) \<Longrightarrow> dec_Response (json_print (enc_Response r)) = Some r"
  by (simp add: dec_Response_def json_parse_print dec_enc_Response)

lemma MaxFrame_32: "MaxFrame < 2 ^ 32"
  by (simp add: MaxFrame_def)

lemma Serve_Nil [simp]: "Serve jerr d [] w = ([], w)"
  by (subst Serve.simps) (simp add: ReadFrame_def ReadFull_def)

lemma Serve_one:
  assumes "json_ok (enc_Request req)" "length (json_print (enc_Request req)) \<le> MaxFrame"
  shows "Serve jerr d (WriteFrame (json_print (enc_Request req)) @ rest) w =
     (dispatch_write (fst (answer d req w)) @ fst (Serve jerr d rest (snd (answer d req w))),
      snd (Serve jerr d rest (snd (answer d req w))))"
  using ReadFrame_WriteFrame [OF assms(2) MaxFrame_32, of rest]
  by (subst Serve.simps) (simp add: dec_print_Request assms dispatch_handle_def split: prod.splits)

lemma exchange_helper:
  assumes "request_ok d (operation, args) w"
  shows "exchange (helper_peer jerr d) [] c operation args w =
     (fst (local_call d (operation, args) w),
      c \<lparr> cl_nextID := cl_nextID c + 1, cl_conn := Some [] \<rparr>, snd (local_call d (operation, args) w))"
proof -
  let ?i = "cl_nextID c + 1" and ?q = "\<lparr> rq_ID = 0, rq_Op = operation, rq_Args = args \<rparr>"
  let ?r = "?q \<lparr> rq_ID := ?i \<rparr>"
  let ?p = "fst (answer d ?q w) \<lparr> rs_ID := ?i \<rparr>"
  have ok: "json_ok (enc_Request ?r)" "json_ok (enc_Response ?p)"
    unfolding json_ok_id using assms by (simp_all add: request_ok_def sendable_def Let_def)
  have len: "length (json_print (enc_Request ?r)) \<le> MaxFrame" "length (json_print (enc_Response ?p)) \<le> MaxFrame"
    using assms Request_size [of ?i ?q] Response_size [of ?i "fst (answer d ?q w)"]
    by (simp_all add: request_ok_def sendable_def Let_def)
      (simp add: answer_def NewError_def NewOK_def split: option.splits prod.splits sum.splits)
  have serve: "Serve jerr d (WriteFrame (json_print (enc_Request ?r))) w
      = (dispatch_write ?p, snd (answer d ?q w))"
    using Serve_one [OF ok(1) len(1), of jerr d "[]" w] by (simp add: answer_id [of d ?i ?q, simplified])
  have "ReadFrame (dispatch_write ?p) MaxFrame = Inr (json_print (enc_Response ?p), [])"
    using ReadFrame_WriteFrame [OF len(2) MaxFrame_32, of "[]"] by (simp add: dispatch_write_def)
  with serve dec_print_Response [OF ok(2)] show ?thesis
    by (auto simp: exchange_def helper_peer_def Let_def local_call_def answer_def NewError_def NewOK_def
        split: option.splits prod.splits sum.splits)
qed

interpretation helper_rpc: remote_service "helper_call jerr d" "local_call d" connected "request_ok d" for jerr d
proof
  fix c :: Client and r :: "string \<times> json option" and w
  assume c: "connected c" and r: "request_ok d r w"
  have "connection None c = (Inr [], c \<lparr> cl_conn := Some [] \<rparr>)"
    using c by (auto simp: connected_def connection_def)
  with exchange_helper [of d "fst r" "snd r" w jerr "c \<lparr> cl_conn := Some [] \<rparr>"] r c
  show "fst (helper_call jerr d r (c, w)) = fst (local_call d r w) \<and>
      snd (snd (helper_call jerr d r (c, w))) = snd (local_call d r w) \<and>
      connected (fst (snd (helper_call jerr d r (c, w))))"
    by (simp add: helper_call_def Client_Call_def uninterrupted_def connected_def)
qed

lemma ascii_utf8: "list_all (\<lambda>c. (of_char c :: nat) < 128) s \<Longrightarrow> utf8_ok s"
  by (induction s) (simp_all add: utf8_ok.simps)

lemma sendable_bound: "json_ok j \<Longrightarrow> json_bound j + 19 \<le> 1048576 \<Longrightarrow> sendable j"
  using length_json_print [of j] by (simp add: sendable_def MaxFrame_def)

section \<open>Properties of calls\<close>

text \<open>
  C9. A client connected to the helper is the helper: any sequence of calls over the connection gives
  the results, and leaves the world, that calling the handlers directly in that order would, an
  unknown operation and an error of a handler included, and the connection stays usable. The
  messages must be valid text and fit into a frame.
\<close>

theorem remote_calls_are_local:
  assumes "connected c" "along (request_ok d) (local_call d) rs w"
  shows "\<exists>c'. in_turn (helper_call jerr d) rs (c, w)
           = (fst (in_turn (local_call d) rs w), c', snd (in_turn (local_call d) rs w)) \<and> connected c'"
  using assms by (rule helper_rpc.in_turn_service)

definition demo_handler :: "int handler" where
  "demo_handler args w =
     (case args of Some (JNum n) \<Rightarrow> (Inr (Some (JNum (w + n))), w + n) | _ \<Rightarrow> (Inl ''bad'', w))"

theorem remote_calls_are_local_witness:
  "\<exists>c'. in_turn (helper_call (\<lambda>_. []) (Register ''Inc'' demo_handler NewDispatcher))
       [(''Inc'', Some (JNum 2)), (''Inc'', None), (''Nope'', None)] (NewWithConn, 5)
     = ([Inr (Some (JNum 7)), Inl (RemoteError ''bad''), Inl (RemoteError ''unknown op: Nope'')], c', 7) \<and> connected c'"
proof -
  let ?d = "Register ''Inc'' demo_handler NewDispatcher"
  let ?rs = "[(''Inc'', Some (JNum 2)), (''Inc'', None), (''Nope'', None)]"
  have d: "?d ''Inc'' = Some demo_handler" "?d ''Nope'' = None" by (simp_all add: Register_def NewDispatcher_def)
  have l: "local_call ?d (''Inc'', Some (JNum 2)) 5 = (Inr (Some (JNum 7)), 7)"
    "local_call ?d (''Inc'', None) 7 = (Inl (RemoteError ''bad''), 7)"
    "local_call ?d (''Nope'', None) 7 = (Inl (RemoteError ''unknown op: Nope''), 7)"
    by (simp_all add: local_call_def d demo_handler_def)
  have "request_ok ?d (''Inc'', Some (JNum 2)) 5" "request_ok ?d (''Inc'', None) 7" "request_ok ?d (''Nope'', None) 7"
    by (auto simp: request_ok_def answer_def d demo_handler_def NewOK_def NewError_def enc_Request_def enc_Response_def
        raw_field_def jopt_def ascii_utf8 int_str_def nat_str.simps intro!: sendable_bound)
  then have "along (request_ok ?d) (local_call ?d) ?rs 5" by (simp add: l)
  moreover have "connected NewWithConn" by (simp add: connected_def NewWithConn_def)
  ultimately show ?thesis using remote_calls_are_local [of NewWithConn ?d ?rs 5 "\<lambda>_. []"] by (simp add: l)
qed

text \<open>
  Whatever the far end sends, a call either takes its result from a response that carries the
  identifier of this very request, read as the next frame of the connection, or it fails and drops the
  connection, so that a late response can never answer another call; the only other failures are those
  before anything is sent, which change nothing.
\<close>

theorem Client_Call_trusts_only_its_response:
  "case Client_Call env peer c operation args w of (res, c', w') \<Rightarrow>
     (\<exists>pending bytes body rest resp.
        pending = (case cl_conn c of Some p \<Rightarrow> p | None \<Rightarrow> []) \<and>
        peer (WriteFrame (json_print (enc_Request \<lparr> rq_ID = cl_nextID c + 1, rq_Op = operation, rq_Args = args \<rparr>))) w
          = (Some bytes, w') \<and>
        ReadFrame (pending @ bytes) MaxFrame = Inr (body, rest) \<and> cl_conn c' = Some rest \<and>
        dec_Response body = Some resp \<and> rs_ID resp = cl_nextID c + 1 \<and>
        res = (if rs_OK resp then Inr (rs_Result resp) else Inl (RemoteError (rs_Error resp)))) \<or>
     (\<exists>e. res = Inl e \<and> (\<forall>m. e \<noteq> RemoteError m)) \<and> (cl_conn c' = None \<or> c' = c \<and> w' = w)"
  by (auto simp: Client_Call_def connection_def exchange_def discard_def Let_def
      split: option.splits prod.splits sum.splits)

end
