(* ===== verification/Helper_Logs.thy ===== *)
theory Helper_Logs
  imports Helper_Proto
begin

text \<open>
  Reading the logs through the helper: the JSON form of the arguments and results of \<^verbatim>\<open>ReadLogs\<close>
  (\<^verbatim>\<open>helper/protocol/protocol.go\<close>), the handler (\<^verbatim>\<open>helper/server/readlogs.go\<close>) behind the dispatcher,
  and the reader of the poller at the other end (\<^verbatim>\<open>logstream/poller.go\<close>).
\<close>

section \<open>Byte slices in JSON\<close>

lemma std_chars:
  "c \<in> set std_alphabet \<Longrightarrow> c \<noteq> CHR ''='' \<and> c \<noteq> CHR 0x0A \<and> c \<noteq> CHR 0x0D \<and> esc_ascii c = [c] \<and> (of_char c :: nat) < 128"
proof -
  have "list_all (\<lambda>c. c \<noteq> CHR ''='' \<and> c \<noteq> CHR 0x0A \<and> c \<noteq> CHR 0x0D \<and> esc_ascii c = [c] \<and> (of_char c :: nat) < 128)
      std_alphabet" by code_simp
  then show "c \<in> set std_alphabet \<Longrightarrow> ?thesis" by (simp add: list_all_iff)
qed

lemma b64_std_plain: "list_all (\<lambda>c. (of_char c :: nat) < 128 \<and> esc_ascii c = [c]) (b64_std s)"
proof -
  have "esc_ascii (CHR ''='') = ''=''" by code_simp
  moreover have "c \<in> set std_alphabet \<or> c = CHR ''=''" if "c \<in> set (b64_std s)" for c
    using that set_encode [of c s] by (auto simp: b64_std_def)
  ultimately show ?thesis unfolding list_all_iff using std_chars by fastforce
qed

fun dec_byte :: "char dec" where
  "dec_byte JNull c = Some c"
| "dec_byte (JNum k) c = (if 0 \<le> k \<and> k < 256 then Some (char_of (nat k)) else None)"
| "dec_byte _ c = None"

fun dec_bytes :: "string dec" where
  "dec_bytes (JStr t) s = b64_decode std_alphabet True t"
| "dec_bytes v s = dec_slice dec_byte (CHR 0x00) v s"

section \<open>Arguments and results\<close>

record ReadLogsArgs =
  ra_Name :: string
  ra_Offset :: int

definition enc_ReadLogsArgs :: "ReadLogsArgs \<Rightarrow> json" where
  "enc_ReadLogsArgs a = JObj [(''name'', JStr (ra_Name a)), (''offset'', JNum (ra_Offset a))]"

definition ReadLogsArgs_fields :: "ReadLogsArgs fields" where
  "ReadLogsArgs_fields =
     [(''name'', fld ra_Name (\<lambda>x r. r \<lparr> ra_Name := x \<rparr>) dec_string),
      (''offset'', fld ra_Offset (\<lambda>x r. r \<lparr> ra_Offset := x \<rparr>) (dec_int (- (2 ^ 63)) (2 ^ 63 - 1)))]"

text \<open>A nil slice is printed as null.\<close>

definition enc_ReadLogsResult :: "bool \<Rightarrow> ReadLogsResult \<Rightarrow> json" where
  "enc_ReadLogsResult isnil r =
     JObj [(''data'', if isnil then JNull else JStr (b64_std (rl_Data r))), (''offset'', JNum (rl_Offset r)),
           (''truncated'', JBool (rl_Truncated r))]"

definition ReadLogsResult_fields :: "ReadLogsResult fields" where
  "ReadLogsResult_fields =
     [(''data'', fld rl_Data (\<lambda>x r. r \<lparr> rl_Data := x \<rparr>) dec_bytes),
      (''offset'', fld rl_Offset (\<lambda>x r. r \<lparr> rl_Offset := x \<rparr>) (dec_int (- (2 ^ 63)) (2 ^ 63 - 1))),
      (''truncated'', fld rl_Truncated (\<lambda>x r. r \<lparr> rl_Truncated := x \<rparr>) dec_bool)]"

definition dec_ReadLogsResult :: "json \<Rightarrow> ReadLogsResult option" where
  "dec_ReadLogsResult j = dec_struct ReadLogsResult_fields j \<lparr> rl_Data = [], rl_Offset = 0, rl_Truncated = False \<rparr>"

section \<open>The handler and the reader\<close>

text \<open>
  The world of the handler is the log directory. \<open>decErr\<close> and \<open>txt\<close> give the texts of the errors;
  an empty request body does not decode.
\<close>

definition NewReadLogsHandler :: "string \<Rightarrow> (readlogs_error \<Rightarrow> string) \<Rightarrow> (string \<rightharpoonup> string) handler" where
  "NewReadLogsHandler decErr txt raw dir =
     (case raw of
        None \<Rightarrow> (Inl decErr, dir)
      | Some j \<Rightarrow>
          (case dec_struct ReadLogsArgs_fields j \<lparr> ra_Name = [], ra_Offset = 0 \<rparr> of
             None \<Rightarrow> (Inl decErr, dir)
           | Some a \<Rightarrow>
               (case ReadLogs maxLogChunk dir (ra_Name a) (ra_Offset a) of
                  Inl e \<Rightarrow> (Inl (txt e), dir)
                | Inr res \<Rightarrow> (Inr (Some (enc_ReadLogsResult (dir (ra_Name a) = None) res)), dir))))"

text \<open>What the poller makes of the answer to a call.\<close>

definition poller_reply :: "call_error + json option \<Rightarrow> ReadLogsResult option option" where
  "poller_reply r =
     (case r of Inl _ \<Rightarrow> None | Inr None \<Rightarrow> Some None | Inr (Some j) \<Rightarrow> Some (dec_ReadLogsResult j))"

definition poller_request :: "logFile \<Rightarrow> string \<times> json option" where
  "poller_request lf =
     (''ReadLogs'', Some (enc_ReadLogsArgs \<lparr> ra_Name = lf_name lf, ra_Offset = lf_offset lf \<rparr>))"

section \<open>The answer fits and is read back\<close>

lemma dec_enc_ReadLogsResult:
  assumes "- (2 ^ 63) \<le> rl_Offset r" "rl_Offset r < 2 ^ 63" "isnil \<Longrightarrow> rl_Data r = []"
  shows "dec_ReadLogsResult (enc_ReadLogsResult isnil r) = Some r"
  using assms
  by (cases r) (auto simp: dec_ReadLogsResult_def enc_ReadLogsResult_def ReadLogsResult_fields_def find_field_def
      fld_def b64_std_roundtrip dec_slice_def)

lemma dec_enc_ReadLogsArgs:
  assumes "- (2 ^ 63) \<le> ra_Offset a" "ra_Offset a < 2 ^ 63"
  shows "dec_struct ReadLogsArgs_fields (enc_ReadLogsArgs a) a0 = Some a"
  using assms by (cases a; cases a0) (simp add: enc_ReadLogsArgs_def ReadLogsArgs_fields_def find_field_def fld_def)

lemma length_int64:
  assumes "0 \<le> z" "z < 2 ^ 63"
  shows "length (int_str z) \<le> 19"
  using assms length_nat_str [of "nat z" 19] by (simp add: int_str_def)

lemma ReadLogs_bounds:
  assumes "ReadLogs maxLogChunk dir name k = Inr res" "\<And>s. dir name = Some s \<Longrightarrow> length s < 2 ^ 63"
  shows "length (rl_Data res) \<le> 524288" "0 \<le> rl_Offset res" "rl_Offset res < 2 ^ 63"
    "dir name = None \<Longrightarrow> rl_Data res = []"
  using assms by (auto simp: ReadLogs_def maxLogChunk_def Let_def split: if_splits option.splits)

lemma result_sendable:
  assumes "ReadLogs maxLogChunk dir name k = Inr res" "\<And>s. dir name = Some s \<Longrightarrow> length s < 2 ^ 63"
  shows "sendable (enc_Response (NewOK 0 (Some (enc_ReadLogsResult isnil res))))"
proof -
  note b = ReadLogs_bounds [OF assms]
  let ?t = "b64_std (rl_Data res)"
  have t: "length ?t \<le> 699055" using length_b64_std [of "rl_Data res"] b(1) by simp
  have p: "print_str ?t = ?t" by (rule print_str_unescaped [OF b64_std_plain])
  have u: "utf8_ok ?t" by (rule ascii_utf8) (use b64_std_plain [of "rl_Data res"] in \<open>simp add: list_all_iff\<close>)
  have plain: "list_all (\<lambda>c. (of_char c :: nat) < 128 \<and> esc_ascii c = [c]) s"
    if "s \<in> {''id'', ''ok'', ''result'', ''data'', ''offset'', ''truncated''}" for s
    using that by (auto simp: esc_ascii_def)
  note q = plain [THEN print_str_unescaped]
  have "length (json_print (enc_Response (NewOK 0 (Some (enc_ReadLogsResult isnil res))))) \<le> length ?t + 200"
    using length_int64 [OF b(2,3)] length_uint0
    by (simp add: enc_Response_def NewOK_def raw_field_def jopt_def enc_ReadLogsResult_def quote_def p q)
  with t u show ?thesis
    by (simp add: sendable_def MaxFrame_def enc_Response_def NewOK_def raw_field_def jopt_def enc_ReadLogsResult_def
        ascii_utf8)
qed

text \<open>The dispatcher with the handler registered.\<close>

definition serves_logs :: "string \<Rightarrow> (readlogs_error \<Rightarrow> string) \<Rightarrow> (string \<rightharpoonup> string) Dispatcher \<Rightarrow> bool" where
  "serves_logs decErr txt d \<longleftrightarrow> d ''ReadLogs'' = Some (NewReadLogsHandler decErr txt)"

definition pollable :: "(string \<rightharpoonup> string) \<Rightarrow> logFile \<Rightarrow> bool" where
  "pollable dir lf \<longleftrightarrow> readLogsAllow (lf_name lf) \<and> 0 \<le> lf_offset lf \<and> lf_offset lf < 2 ^ 63 \<and>
     (case dir (lf_name lf) of None \<Rightarrow> True | Some s \<Rightarrow> length s < 2 ^ 63)"

lemma request_sendable:
  assumes "pollable dir lf"
  shows "sendable (enc_Request \<lparr> rq_ID = 0, rq_Op = ''ReadLogs'', rq_Args = snd (poller_request lf) \<rparr>)"
proof (rule sendable_bound)
  have u: "utf8_ok (lf_name lf)" "length (lf_name lf) \<le> 12"
    using assms by (auto simp: pollable_def readLogsAllow_def ascii_utf8)
  then show "json_ok (enc_Request \<lparr> rq_ID = 0, rq_Op = ''ReadLogs'', rq_Args = snd (poller_request lf) \<rparr>)"
    by (simp add: enc_Request_def poller_request_def raw_field_def enc_ReadLogsArgs_def ascii_utf8)
  have "length (int_str (lf_offset lf)) \<le> 19" using assms length_int64 by (simp add: pollable_def)
  with u(2) length_uint0
  show "json_bound (enc_Request \<lparr> rq_ID = 0, rq_Op = ''ReadLogs'', rq_Args = snd (poller_request lf) \<rparr>) + 19 \<le> 1048576"
    by (simp add: enc_Request_def poller_request_def raw_field_def enc_ReadLogsArgs_def)
qed

lemma readlogs_local:
  assumes "serves_logs decErr txt d" "pollable dir lf"
  shows "request_ok d (poller_request lf) dir" "snd (local_call d (poller_request lf) dir) = dir"
    "poller_reply (fst (local_call d (poller_request lf) dir)) = helper_reply maxLogChunk (Some dir) lf"
proof -
  let ?isnil = "dir (lf_name lf) = None"
  have short: "\<And>s. dir (lf_name lf) = Some s \<Longrightarrow> length s < 2 ^ 63"
    using assms(2) by (simp add: pollable_def)
  have "\<not> isl (ReadLogs maxLogChunk dir (lf_name lf) (lf_offset lf))"
    using assms(2) by (cases "dir (lf_name lf)") (simp_all add: ReadLogs_def pollable_def Let_def)
  then obtain res where res: "ReadLogs maxLogChunk dir (lf_name lf) (lf_offset lf) = Inr res"
    by (metis sum.collapse(2))
  note b = ReadLogs_bounds [OF res short]
  have "dec_struct ReadLogsArgs_fields (enc_ReadLogsArgs \<lparr> ra_Name = lf_name lf, ra_Offset = lf_offset lf \<rparr>) a0
      = Some \<lparr> ra_Name = lf_name lf, ra_Offset = lf_offset lf \<rparr>" for a0
    using assms(2) by (intro dec_enc_ReadLogsArgs) (simp_all add: pollable_def)
  then have h: "NewReadLogsHandler decErr txt (snd (poller_request lf)) dir
      = (Inr (Some (enc_ReadLogsResult ?isnil res)), dir)"
    using res by (simp add: NewReadLogsHandler_def poller_request_def)
  have op: "fst (poller_request lf) = ''ReadLogs''" by (simp add: poller_request_def)
  have l: "local_call d (poller_request lf) dir = (Inr (Some (enc_ReadLogsResult ?isnil res)), dir)"
    using assms(1) h op by (simp add: local_call_def serves_logs_def)
  then show "snd (local_call d (poller_request lf) dir) = dir" by simp
  have "answer d \<lparr> rq_ID = 0, rq_Op = ''ReadLogs'', rq_Args = snd (poller_request lf) \<rparr> dir
      = (NewOK 0 (Some (enc_ReadLogsResult ?isnil res)), dir)"
    using assms(1) h by (simp add: answer_def serves_logs_def)
  with request_sendable [OF assms(2)] result_sendable [OF res short] op
  show "request_ok d (poller_request lf) dir" by (simp add: request_ok_def)
  have "dec_ReadLogsResult (enc_ReadLogsResult ?isnil res) = Some res"
    using b by (intro dec_enc_ReadLogsResult) simp_all
  with l res show "poller_reply (fst (local_call d (poller_request lf) dir)) = helper_reply maxLogChunk (Some dir) lf"
    by (simp add: poller_reply_def helper_reply_def)
qed

lemma readlogs_in_turn:
  assumes "serves_logs decErr txt d" "list_all (pollable dir) lfs"
  shows "along (request_ok d) (local_call d) (map poller_request lfs) dir"
    "in_turn (local_call d) (map poller_request lfs) dir = (map (\<lambda>lf. fst (local_call d (poller_request lf) dir)) lfs, dir)"
proof -
  have l: "local_call d (poller_request lf) dir = (fst (local_call d (poller_request lf) dir), dir)"
    if "pollable dir lf" for lf using readlogs_local(2) [OF assms(1) that] by (simp add: prod_eq_iff)
  show "along (request_ok d) (local_call d) (map poller_request lfs) dir"
    using assms(2) by (induction lfs) (auto simp: readlogs_local(1,2) [OF assms(1)])
  show "in_turn (local_call d) (map poller_request lfs) dir = (map (\<lambda>lf. fst (local_call d (poller_request lf) dir)) lfs, dir)"
    using assms(2) by (induction lfs) (simp_all, subst l, simp_all)
qed

text \<open>
  Polling over the wire. When the helper serves \<^verbatim>\<open>ReadLogs\<close>, the poller that asks for its files one
  after the other over a connection obtains exactly what the handler computes on the log directory: no
  chunk is ever too large for a frame, whatever bytes the logs contain they survive the encoding, and
  the connection stays usable. Positions and file sizes are below \<open>2\<^sup>6\<^sup>3\<close>.
\<close>

theorem poll_over_wire:
  assumes "connected c" "serves_logs decErr txt d" "list_all (pollable dir) lfs"
  shows "\<exists>as c'. in_turn (helper_call jerr d) (map poller_request lfs) (c, dir) = (as, c', dir) \<and> connected c' \<and>
           map poller_reply as = map (helper_reply maxLogChunk (Some dir)) lfs"
proof -
  note t = readlogs_in_turn [OF assms(2,3)]
  have "map poller_reply (map (\<lambda>lf. fst (local_call d (poller_request lf) dir)) lfs)
      = map (helper_reply maxLogChunk (Some dir)) lfs"
    using assms(3) by (simp add: readlogs_local(3) [OF assms(2)] list_all_iff)
  with helper_rpc.in_turn_service [OF assms(1) t(1), of jerr] show ?thesis unfolding t(2) by auto
qed

theorem poll_over_wire_witness:
  "\<exists>as c'. in_turn (helper_call (\<lambda>_. []) (Register ''ReadLogs'' (NewReadLogsHandler ''e'' (\<lambda>_. ''e'')) NewDispatcher))
        (map poller_request poller_files) (NewWithConn, [''xray.log'' \<mapsto> ''hello'']) = (as, c', [''xray.log'' \<mapsto> ''hello'']) \<and>
      connected c' \<and> map poller_reply as =
        [Some (Some \<lparr> rl_Data = [], rl_Offset = 0, rl_Truncated = False \<rparr>),
         Some (Some \<lparr> rl_Data = ''hello'', rl_Offset = 5, rl_Truncated = False \<rparr>),
         Some (Some \<lparr> rl_Data = [], rl_Offset = 0, rl_Truncated = False \<rparr>)]"
proof -
  let ?d = "Register ''ReadLogs'' (NewReadLogsHandler ''e'' (\<lambda>_. ''e'')) NewDispatcher"
  let ?dir = "[''xray.log'' \<mapsto> ''hello'']"
  have "serves_logs ''e'' (\<lambda>_. ''e'') ?d" by (simp add: Register_def serves_logs_def)
  moreover have "connected NewWithConn" by (simp add: connected_def NewWithConn_def)
  moreover have "list_all (pollable ?dir) poller_files"
    by (simp add: poller_files_def new_logFile_def pollable_def readLogsAllow_def)
  moreover have "map (helper_reply maxLogChunk (Some ?dir)) poller_files =
      [Some (Some \<lparr> rl_Data = [], rl_Offset = 0, rl_Truncated = False \<rparr>),
       Some (Some \<lparr> rl_Data = ''hello'', rl_Offset = 5, rl_Truncated = False \<rparr>),
       Some (Some \<lparr> rl_Data = [], rl_Offset = 0, rl_Truncated = False \<rparr>)]"
    by (simp add: poller_files_def new_logFile_def helper_reply_def ReadLogs_def readLogsAllow_def maxLogChunk_def)
  ultimately show ?thesis using poll_over_wire [of NewWithConn "''e''" "\<lambda>_. ''e''" ?d ?dir poller_files "\<lambda>_. []"] by simp
qed

end
