(* ===== verification/Helper_Sanitize.thy ===== *)
theory Helper_Sanitize
  imports Json "HOL-Library.List_Lexorder" "HOL-Library.Char_ord" "HOL-Library.Sublist"
begin

text \<open>
  The helper runs the cores as root on configurations that it is sent.
  \<^verbatim>\<open>helper/server/chain_sanitize.go\<close> confines the files that a configuration makes them write.
  This theory models it, with the lexical part of \<^verbatim>\<open>path/filepath\<close> for Unix and the decoding of a
  document into \<^verbatim>\<open>map[string]any\<close>.
\<close>

section \<open>Paths\<close>

fun path_split :: "string \<Rightarrow> string list" where
  "path_split [] = [[]]"
| "path_split (c # s) =
     (if c = CHR ''/'' then [] # path_split s
      else case path_split s of [] \<Rightarrow> [[c]] | x # xs \<Rightarrow> (c # x) # xs)"

fun path_join :: "string list \<Rightarrow> string" where
  "path_join [] = []"
| "path_join [x] = x"
| "path_join (x # xs) = x @ CHR ''/'' # path_join xs"

definition clean_step :: "bool \<Rightarrow> string list \<Rightarrow> string \<Rightarrow> string list" where
  "clean_step rooted st c =
     (if c = [] \<or> c = ''.'' then st
      else if c = ''..'' then
        (if st \<noteq> [] \<and> last st \<noteq> ''..'' then butlast st else if rooted then st else st @ [c])
      else st @ [c])"

definition IsAbs :: "string \<Rightarrow> bool" where
  "IsAbs p \<longleftrightarrow> HasPrefix p ''/''"

definition clean_comps :: "string \<Rightarrow> string list" where
  "clean_comps p = foldl (clean_step (IsAbs p)) [] (path_split p)"

definition Clean :: "string \<Rightarrow> string" where
  "Clean p = (if IsAbs p then CHR ''/'' # path_join (clean_comps p)
              else if clean_comps p = [] then ''.'' else path_join (clean_comps p))"

text \<open>\<^verbatim>\<open>filepath.Join\<close> of two elements\<close>

definition Join :: "string \<Rightarrow> string \<Rightarrow> string" where
  "Join a b = (if a = [] \<and> b = [] then [] else if a = [] then Clean b else if b = [] then Clean a
               else Clean (a @ ''/'' @ b))"

definition withinDir :: "string \<Rightarrow> string \<Rightarrow> bool" where
  "withinDir path dir =
     (let d = Clean dir; clean = (if IsAbs path then Clean path else Clean (Join d path))
      in clean = d \<or> HasPrefix clean (d @ ''/''))"

section \<open>Documents as maps\<close>

text \<open>A map with its keys in order; \<^verbatim>\<open>m[k] = v\<close>.\<close>

fun map_put :: "string \<Rightarrow> json \<Rightarrow> (string \<times> json) list \<Rightarrow> (string \<times> json) list" where
  "map_put k v [] = [(k, v)]"
| "map_put k v ((k', v') # kvs) =
     (if k = k' then (k, v) # kvs else if k < k' then (k, v) # (k', v') # kvs else (k', v') # map_put k v kvs)"

text \<open>
  Decoding into \<^verbatim>\<open>any\<close>: of a repeated key the last value counts, and a number becomes a float, which
  \<open>fl\<close> tells, or is out of its range. The maps are printed in the order of their keys.
\<close>

definition go_num :: "(json \<Rightarrow> (int + string) option) \<Rightarrow> json \<Rightarrow> json option" where
  "go_num fl j = map_option (case_sum JNum JFloat) (fl j)"

fun go_any :: "(json \<Rightarrow> (int + string) option) \<Rightarrow> json \<Rightarrow> json option" where
  "go_any fl (JNum n) = go_num fl (JNum n)"
| "go_any fl (JFloat s) = go_num fl (JFloat s)"
| "go_any fl (JArr xs) =
     (case opt_all (\<lambda>x. x) (map (go_any fl) xs) of None \<Rightarrow> None | Some ys \<Rightarrow> Some (JArr ys))"
| "go_any fl (JObj kvs) =
     (case opt_all (\<lambda>kv. map_option (\<lambda>v. (fst kv, v)) (snd kv)) (map (\<lambda>kv. (fst kv, go_any fl (snd kv))) kvs) of
        None \<Rightarrow> None
      | Some kvs' \<Rightarrow> Some (JObj (foldl (\<lambda>m kv. map_put (fst kv) (snd kv) m) [] kvs')))"
| "go_any fl j = Some j"

section \<open>chain_sanitize.go\<close>

text \<open>The closure \<^verbatim>\<open>confine\<close>: the map after it, and whether it changed.\<close>

definition confine :: "string \<Rightarrow> string \<Rightarrow> string \<Rightarrow> json \<Rightarrow> json \<times> bool" where
  "confine runtimeDir key fallback m =
     (case jget m key of
        Some (JStr v) \<Rightarrow>
          (if v = [] \<or> withinDir v runtimeDir then (m, False)
           else (jset key (JStr (Join runtimeDir fallback)) m, True))
      | _ \<Rightarrow> (m, False))"

text \<open>Work on the object under a key, in place.\<close>

definition at_key :: "string \<Rightarrow> (json \<Rightarrow> json \<times> bool) \<Rightarrow> json \<Rightarrow> json \<times> bool" where
  "at_key key f m =
     (case jget m key of
        Some (JObj kvs) \<Rightarrow> (case f (JObj kvs) of (v, ch) \<Rightarrow> (jset key v m, ch))
      | _ \<Rightarrow> (m, False))"

definition and_then :: "(json \<Rightarrow> json \<times> bool) \<Rightarrow> (json \<Rightarrow> json \<times> bool) \<Rightarrow> json \<Rightarrow> json \<times> bool" where
  "and_then f g m = (case f m of (m1, c1) \<Rightarrow> (case g m1 of (m2, c2) \<Rightarrow> (m2, c1 \<or> c2)))"

definition sanitize_doc :: "string \<Rightarrow> string \<Rightarrow> json \<Rightarrow> json \<times> bool" where
  "sanitize_doc kind runtimeDir doc =
     (if kind = ''sing-box'' then
        and_then (at_key ''log'' (confine runtimeDir ''output'' ''sing-box-log.txt''))
          (at_key ''experimental'' (at_key ''cache_file'' (confine runtimeDir ''path'' ''cache.db''))) doc
      else if kind = ''xray'' then
        at_key ''log'' (and_then (confine runtimeDir ''access'' ''xray-access.log'')
          (confine runtimeDir ''error'' ''xray-error.log'')) doc
      else (doc, False))"

definition sanitizeCoreConfig :: "(json \<Rightarrow> (int + string) option) \<Rightarrow> string \<Rightarrow> string \<Rightarrow> json option \<Rightarrow> json option" where
  "sanitizeCoreConfig fl kind runtimeDir raw =
     (case raw of
        Some (JObj kvs) \<Rightarrow>
          (case go_any fl (JObj kvs) of
             None \<Rightarrow> raw
           | Some doc \<Rightarrow> (case sanitize_doc kind runtimeDir doc of (doc', changed) \<Rightarrow> if changed then Some doc' else raw))
      | _ \<Rightarrow> raw)"

section \<open>What the test on paths means\<close>

text \<open>A component of a rooted path in clean form.\<close>

definition plain_comp :: "string \<Rightarrow> bool" where
  "plain_comp c \<longleftrightarrow> c \<noteq> [] \<and> c \<noteq> ''.'' \<and> c \<noteq> ''..'' \<and> CHR ''/'' \<notin> set c"

lemma path_split_not_Nil [simp]: "path_split s \<noteq> []"
  by (cases s) (auto split: list.splits)

lemma path_split_no_slash: "c \<in> set (path_split s) \<Longrightarrow> CHR ''/'' \<notin> set c"
proof (induction s arbitrary: c)
  case (Cons a s)
  then show ?case by (cases "path_split s") (auto split: if_splits)
qed simp

lemma path_split_append: "path_split (a @ CHR ''/'' # b) = path_split a @ path_split b"
proof (induction a)
  case (Cons c a)
  then show ?case by (cases "path_split a") auto
qed simp

lemma path_split_single: "CHR ''/'' \<notin> set c \<Longrightarrow> path_split c = [c]"
  by (induction c) auto

lemma path_split_join: "xs \<noteq> [] \<Longrightarrow> list_all (\<lambda>c. CHR ''/'' \<notin> set c) xs \<Longrightarrow> path_split (path_join xs) = xs"
  by (induction xs rule: path_join.induct) (simp_all add: path_split_single path_split_append)

lemma clean_fold_plain:
  "list_all plain_comp st \<Longrightarrow> list_all (\<lambda>c. CHR ''/'' \<notin> set c) cs \<Longrightarrow> list_all plain_comp (foldl (clean_step True) st cs)"
proof (induction cs arbitrary: st)
  case (Cons c cs)
  have "list_all plain_comp (clean_step True st c)"
    using Cons.prems by (auto simp: clean_step_def plain_comp_def list_all_iff dest: in_set_butlastD)
  with Cons show ?case by simp
qed simp

lemma clean_comps_plain: "IsAbs p \<Longrightarrow> list_all plain_comp (clean_comps p)"
  using path_split_no_slash [of _ p] clean_fold_plain [of "[]" "path_split p"]
  by (auto simp: clean_comps_def list_all_iff)

lemma clean_fold_id: "list_all plain_comp cs \<Longrightarrow> foldl (clean_step rooted) st cs = st @ cs"
  by (induction cs arbitrary: st) (auto simp: clean_step_def plain_comp_def)

lemma plain_no_slash: "list_all plain_comp cs \<Longrightarrow> list_all (\<lambda>c. CHR ''/'' \<notin> set c) cs"
  by (auto simp: list_all_iff plain_comp_def)

lemma join_inject:
  assumes "list_all plain_comp xs" "list_all plain_comp ys"
  shows "path_join xs = path_join ys \<longleftrightarrow> xs = ys"
proof -
  have e: "path_join zs = [] \<longleftrightarrow> zs = []" if "list_all plain_comp zs" for zs
    using that by (cases zs rule: path_join.cases) (auto simp: plain_comp_def)
  show ?thesis
    using e [OF assms(1)] e [OF assms(2)] path_split_join [of xs] path_split_join [of ys] plain_no_slash assms
    by (metis path_join.simps(1))
qed

lemma join_append: "xs \<noteq> [] \<Longrightarrow> ys \<noteq> [] \<Longrightarrow> path_join (xs @ ys) = path_join xs @ CHR ''/'' # path_join ys"
proof (induction xs rule: path_join.induct)
  case (2 x)
  then show ?case by (cases ys) auto
qed auto

lemma join_prefix:
  assumes "list_all plain_comp ds" "list_all plain_comp xs" "ds \<noteq> []"
  shows "prefix (path_join ds @ ''/'') (path_join xs) \<longleftrightarrow> strict_prefix ds xs"
proof
  assume "prefix (path_join ds @ ''/'') (path_join xs)"
  then obtain r where r: "path_join xs = path_join ds @ CHR ''/'' # r" by (auto simp: prefix_def)
  then have "xs \<noteq> []" by (cases xs) auto
  then have "xs = path_split (path_join ds) @ path_split r"
    using path_split_join [of xs] plain_no_slash [OF assms(2)] r path_split_append by metis
  then have "xs = ds @ path_split r"
    using path_split_join [OF assms(3)] plain_no_slash [OF assms(1)] by simp
  then show "strict_prefix ds xs" by (simp add: strict_prefix_def)
next
  assume "strict_prefix ds xs"
  then obtain ys where "xs = ds @ ys" "ys \<noteq> []" by (auto simp: strict_prefix_def prefix_def)
  with join_append [OF assms(3)] show "prefix (path_join ds @ ''/'') (path_join xs)" by (simp add: prefix_def)
qed

text \<open>Where a path leads, taken from the directory \<open>dir\<close>, component by component.\<close>

definition resolve_path :: "string \<Rightarrow> string \<Rightarrow> string list" where
  "resolve_path dir p =
     foldl (clean_step True) (if IsAbs p then [] else clean_comps dir) (path_split p)"

lemma resolve_plain: "IsAbs dir \<Longrightarrow> list_all plain_comp (resolve_path dir p)"
  unfolding resolve_path_def using path_split_no_slash [of _ p] clean_comps_plain
  by (intro clean_fold_plain) (auto simp: list_all_iff)

lemma Clean_rooted: "IsAbs p \<Longrightarrow> Clean p = CHR ''/'' # path_join (clean_comps p)"
  by (simp add: Clean_def)

lemma IsAbs_slash [simp]: "IsAbs (CHR ''/'' # s)"
  by (simp add: IsAbs_def HasPrefix_def)

lemma path_split_rooted: "path_split (CHR ''/'' # path_join cs) = [] # path_split (path_join cs)"
  by simp

lemma split_join_fold:
  assumes "list_all plain_comp cs"
  shows "foldl (clean_step True) st (path_split (path_join cs)) = st @ cs"
proof (cases "cs = []")
  case False
  with path_split_join plain_no_slash [OF assms] clean_fold_id [OF assms] show ?thesis by simp
qed (simp add: clean_step_def)

lemma clean_comps_rooted:
  assumes "list_all plain_comp cs"
  shows "clean_comps (CHR ''/'' # path_join cs) = cs"
  using split_join_fold [OF assms, of "[]"] by (simp add: clean_comps_def clean_step_def)

lemma Clean_relative:
  assumes "IsAbs dir" "\<not> IsAbs p"
  shows "Clean (Join (Clean dir) p) = CHR ''/'' # path_join (resolve_path dir p)"
proof -
  let ?ds = "clean_comps dir"
  have ds: "list_all plain_comp ?ds" by (rule clean_comps_plain [OF assms(1)])
  have d: "Clean dir = CHR ''/'' # path_join ?ds" by (rule Clean_rooted [OF assms(1)])
  have j: "Join (Clean dir) p = CHR ''/'' # path_join (resolve_path dir p)"
  proof (cases "p = []")
    case True
    then have "resolve_path dir p = ?ds" using assms by (simp add: resolve_path_def clean_step_def)
    with True show ?thesis unfolding d by (simp add: Join_def Clean_def clean_comps_rooted [OF ds])
  next
    case False
    have "clean_comps (CHR ''/'' # path_join ?ds @ CHR ''/'' # p) = resolve_path dir p"
      using assms(2) split_join_fold [OF ds, of "[]"]
      by (simp add: clean_comps_def resolve_path_def path_split_append clean_step_def)
    with False show ?thesis unfolding d by (simp add: Join_def Clean_def)
  qed
  show ?thesis unfolding j by (simp add: Clean_def clean_comps_rooted resolve_plain [OF assms(1)])
qed

text \<open>The test on strings is the test on components.\<close>

lemma withinDir_components:
  assumes "IsAbs dir" "clean_comps dir \<noteq> []"
  shows "withinDir p dir \<longleftrightarrow> prefix (clean_comps dir) (resolve_path dir p)"
proof -
  let ?ds = "clean_comps dir" and ?rs = "resolve_path dir p"
  have ds: "list_all plain_comp ?ds" and rs: "list_all plain_comp ?rs"
    using clean_comps_plain resolve_plain assms(1) by auto
  have c: "(if IsAbs p then Clean p else Clean (Join (Clean dir) p)) = CHR ''/'' # path_join ?rs"
    using Clean_relative [OF assms(1), of p] by (simp add: Clean_rooted resolve_path_def clean_comps_def)
  have "withinDir p dir \<longleftrightarrow> path_join ?rs = path_join ?ds \<or> prefix (path_join ?ds @ ''/'') (path_join ?rs)"
    unfolding withinDir_def Let_def c unfolding Clean_rooted [OF assms(1)] by (simp add: HasPrefix_prefix)
  also have "\<dots> \<longleftrightarrow> ?rs = ?ds \<or> strict_prefix ?ds ?rs"
    using join_inject [OF rs ds] join_prefix [OF ds rs assms(2)] by simp
  finally show ?thesis by (auto simp: strict_prefix_def)
qed

section \<open>What a reader of the document sees\<close>

text \<open>Of a repeated key, a reader takes the last value.\<close>

fun jlast :: "json \<Rightarrow> string \<Rightarrow> json option" where
  "jlast (JObj kvs) k = map_of (rev kvs) k"
| "jlast _ k = None"

fun read_path :: "string list \<Rightarrow> json \<Rightarrow> json option" where
  "read_path [] j = Some j"
| "read_path (k # ks) j = (case jlast j k of None \<Rightarrow> None | Some v \<Rightarrow> read_path ks v)"

lemma map_of_map_put [simp]: "map_of (map_put k v kvs) = (map_of kvs)(k \<mapsto> v)"
  by (induction k v kvs rule: map_put.induct) auto

lemma set_map_put: "set (map fst (map_put k v kvs)) = insert k (set (map fst kvs))"
  by (induction k v kvs rule: map_put.induct) auto

lemma map_put_sorted: "sorted_wrt (<) (map fst kvs) \<Longrightarrow> sorted_wrt (<) (map fst (map_put k v kvs))"
proof (induction k v kvs rule: map_put.induct)
  case (2 k v k' v' kvs)
  then show ?case using set_map_put [of k v kvs] by (auto simp del: set_map)
qed simp

lemma map_puts:
  "map_of (foldl (\<lambda>m kv. map_put (fst kv) (snd kv) m) m kvs) = map_of m ++ map_of (rev kvs)"
  "sorted_wrt (<) (map fst m) \<Longrightarrow> sorted_wrt (<) (map fst (foldl (\<lambda>m kv. map_put (fst kv) (snd kv) m) m kvs))"
proof (induction kvs arbitrary: m)
  case (Cons kv kvs)
  { case 1 show ?case using Cons(1) [of "map_put (fst kv) (snd kv) m"]
      by (cases kv) (auto simp: map_add_def fun_eq_iff split: option.splits) }
  { case 2 then show ?case using Cons(2) [of "map_put (fst kv) (snd kv) m"] map_put_sorted by simp }
qed simp_all

lemma opt_all_keys:
  assumes "opt_all (\<lambda>kv. map_option (\<lambda>v. (fst kv, v)) (snd kv)) (map (\<lambda>kv. (fst kv, f (snd kv))) kvs) = Some kvs'"
  shows "map_of (rev kvs') k = (case map_of (rev kvs) k of None \<Rightarrow> None | Some v \<Rightarrow> f v) \<and>
     (\<forall>v. map_of (rev kvs) k = Some v \<longrightarrow> f v \<noteq> None)"
  using assms
proof (induction kvs arbitrary: kvs')
  case (Cons kv kvs)
  then obtain v vs where v: "f (snd kv) = Some v" "kvs' = (fst kv, v) # vs"
    "opt_all (\<lambda>kv. map_option (\<lambda>v. (fst kv, v)) (snd kv)) (map (\<lambda>kv. (fst kv, f (snd kv))) kvs) = Some vs"
    by (auto split: option.splits)
  from Cons.IH [OF v(3)] v show ?case
    by (cases kv) (auto simp: map_of_append map_add_def split: option.splits)
qed simp

text \<open>A document with its keys in order, at every level that is read.\<close>

lemma go_any_obj:
  assumes "go_any fl (JObj kvs) = Some doc"
  obtains m where "doc = JObj m" "sorted_wrt (<) (map fst m)"
    "\<And>k. map_of m k = (case map_of (rev kvs) k of None \<Rightarrow> None | Some v \<Rightarrow> go_any fl v)"
proof -
  obtain kvs' where k: "opt_all (\<lambda>kv. map_option (\<lambda>v. (fst kv, v)) (snd kv)) (map (\<lambda>kv. (fst kv, go_any fl (snd kv))) kvs) = Some kvs'"
    and d: "doc = JObj (foldl (\<lambda>m kv. map_put (fst kv) (snd kv) m) [] kvs')"
    using assms by (auto split: option.splits)
  show thesis
    by (rule that [OF d]) (simp_all add: map_puts opt_all_keys [OF k, THEN conjunct1])
qed

lemma map_of_rev_distinct: "distinct (map fst m) \<Longrightarrow> map_of (rev m) = map_of m"
proof (induction m)
  case (Cons kv m)
  then have "map_of (rev m) (fst kv) = None" by (simp add: map_of_eq_None_iff)
  with Cons show ?case by (cases kv) (auto simp: map_add_def fun_eq_iff split: option.splits)
qed simp

lemma map_of_rev_sorted: "sorted_wrt (<) (map fst m) \<Longrightarrow> map_of (rev m) = map_of (m :: (string \<times> json) list)"
  by (rule map_of_rev_distinct) (simp add: strict_sorted_iff)

lemma go_any_jlast:
  assumes "go_any fl (JObj kvs) = Some doc"
  shows "jlast doc k = (case jlast (JObj kvs) k of None \<Rightarrow> None | Some v \<Rightarrow> go_any fl v)"
    and "jlast (JObj kvs) k = Some v \<Longrightarrow> go_any fl v \<noteq> None"
proof -
  obtain m where m: "doc = JObj m" "sorted_wrt (<) (map fst m)"
    "\<And>k. map_of m k = (case map_of (rev kvs) k of None \<Rightarrow> None | Some v \<Rightarrow> go_any fl v)"
    using assms by (rule go_any_obj) blast
  then show "jlast doc k = (case jlast (JObj kvs) k of None \<Rightarrow> None | Some v \<Rightarrow> go_any fl v)"
    by (simp add: map_of_rev_sorted)
  obtain kvs' where k: "opt_all (\<lambda>kv. map_option (\<lambda>v. (fst kv, v)) (snd kv)) (map (\<lambda>kv. (fst kv, go_any fl (snd kv))) kvs) = Some kvs'"
    using assms by (auto split: option.splits)
  show "jlast (JObj kvs) k = Some v \<Longrightarrow> go_any fl v \<noteq> None" using opt_all_keys [OF k, of k] by simp
qed

lemma go_num_number: "go_num fl j = Some d \<Longrightarrow> (\<exists>n. d = JNum n) \<or> (\<exists>s. d = JFloat s)"
proof -
  assume "go_num fl j = Some d"
  then obtain z where "d = case_sum JNum JFloat z" by (auto simp: go_num_def)
  then show ?thesis by (cases z) auto
qed

lemma go_any_leaf:
  assumes "go_any fl j = Some doc" "\<not> is_obj j"
  shows "\<not> is_obj doc"
  using assms by (cases j) (auto dest!: go_num_number split: option.splits)

lemma go_any_str: "go_any fl j = Some (JStr v) \<longleftrightarrow> j = JStr v"
  by (cases j) (auto dest!: go_num_number split: option.splits)

lemma jlast_not_obj: "\<not> is_obj j \<Longrightarrow> jlast j k = None"
  by (cases j) auto

lemma read_any:
  assumes "go_any fl j = Some doc"
  shows "read_path ks doc = (case read_path ks j of None \<Rightarrow> None | Some v \<Rightarrow> go_any fl v)"
  using assms
proof (induction ks arbitrary: j doc)
  case (Cons k ks)
  show ?case
  proof (cases "is_obj j")
    case True
    then obtain kvs where j: "j = JObj kvs" by (cases j) auto
    note l = go_any_jlast [OF Cons.prems [unfolded j], of k]
    show ?thesis
    proof (cases "jlast (JObj kvs) k")
      case (Some v)
      with l(2) obtain w where "go_any fl v = Some w" by fastforce
      with Some l(1) Cons.IH j show ?thesis by simp
    qed (use l(1) j in simp)
  next
    case False
    with go_any_leaf [OF Cons.prems] show ?thesis by (simp add: jlast_not_obj)
  qed
qed simp

text \<open>Distinct keys at every level.\<close>

fun keyed :: "json \<Rightarrow> bool" where
  "keyed (JObj kvs) \<longleftrightarrow> distinct (map fst kvs) \<and> list_all (\<lambda>kv. keyed (snd kv)) kvs"
| "keyed _ = True"

lemma keyed_jlast: "keyed j \<Longrightarrow> jlast j k = jget j k"
  by (cases j) (simp_all add: map_of_rev_distinct)

lemma keyed_jget: "keyed j \<Longrightarrow> jget j k = Some v \<Longrightarrow> keyed v"
  by (cases j) (auto simp: list_all_iff dest: map_of_SomeD)

lemma keyed_jset: "keyed j \<Longrightarrow> keyed v \<Longrightarrow> keyed (jset k v j)"
proof (cases j)
  case (JObj kvs)
  assume j: "keyed j" and v: "keyed v"
  have "list_all (\<lambda>kv. keyed (snd kv)) kvs \<Longrightarrow> list_all (\<lambda>kv. keyed (snd kv)) (alset k v kvs)"
    using v by (induction k v kvs rule: alset.induct) auto
  with j JObj distinct_alset [of kvs k v] show ?thesis by simp
qed auto

lemma go_any_keyed: "go_any fl j = Some doc \<Longrightarrow> keyed doc"
proof (induction j arbitrary: doc)
  case (JObj kvs)
  obtain m where m: "doc = JObj m" "sorted_wrt (<) (map fst m)"
    "\<And>k. map_of m k = (case map_of (rev kvs) k of None \<Rightarrow> None | Some v \<Rightarrow> go_any fl v)"
    using JObj.prems by (rule go_any_obj) blast
  have d: "distinct (map fst m)" using m(2) by (simp add: strict_sorted_iff)
  have "keyed (snd kv)" if "kv \<in> set m" for kv
  proof -
    have "map_of m (fst kv) = Some (snd kv)" using d that by (cases kv) simp
    then obtain v where v: "map_of (rev kvs) (fst kv) = Some v" "go_any fl v = Some (snd kv)"
      using m(3) by (auto split: option.splits)
    from map_of_SomeD [OF v(1)] have "(fst kv, v) \<in> set kvs" by simp
    with JObj.IH v(2) show ?thesis by (auto intro: snds.intros)
  qed
  with d m(1) show ?case by (simp add: list_all_iff)
next
  case (JArr xs)
  then show ?case by (auto split: option.splits)
qed (auto dest!: go_num_number)

section \<open>Confining\<close>

text \<open>The path at the end of a chain of keys, if any, lies in the directory.\<close>

definition confined_at :: "string \<Rightarrow> json \<Rightarrow> string list \<Rightarrow> bool" where
  "confined_at dir j ks =
     (case read_path ks j of Some (JStr v) \<Rightarrow> v = [] \<or> withinDir v dir | _ \<Rightarrow> True)"

definition apart :: "string list list \<Rightarrow> string list \<Rightarrow> bool" where
  "apart gs ks \<longleftrightarrow> list_all (\<lambda>g. \<not> prefix ks g \<and> \<not> prefix g ks) gs"

text \<open>
  A step of the sanitizer: it confines the paths at the given chains of keys, reports a change exactly when
  one of them was outside, and leaves everything that is not on these chains.
\<close>

locale confiner =
  fixes dir :: string and f :: "json \<Rightarrow> json \<times> bool" and gs :: "string list list"
  assumes chains: "[] \<notin> set gs"
    and keeps_keys: "keyed m \<Longrightarrow> keyed (fst (f m)) \<and> is_obj (fst (f m)) = is_obj m"
    and confines: "keyed m \<Longrightarrow> list_all (confined_at dir (fst (f m))) gs"
    and reports: "keyed m \<Longrightarrow> snd (f m) \<longleftrightarrow> \<not> list_all (confined_at dir m) gs"
    and no_change: "keyed m \<Longrightarrow> \<not> snd (f m) \<Longrightarrow> fst (f m) = m"
    and rest_same: "keyed m \<Longrightarrow> apart gs ks \<Longrightarrow> read_path ks (fst (f m)) = read_path ks m"

lemma Join_within:
  assumes "IsAbs dir" "clean_comps dir \<noteq> []" "plain_comp name"
  shows "withinDir (Join dir name) dir" "Join dir name \<noteq> []"
proof -
  have ne: "dir \<noteq> []" "name \<noteq> []" using assms(1,3) by (auto simp: IsAbs_def HasPrefix_def plain_comp_def)
  have ab: "IsAbs (dir @ CHR ''/'' # name)" using assms(1) ne by (cases dir) (auto simp: IsAbs_def HasPrefix_def)
  have "path_split name = [name]" using assms(3) by (simp add: path_split_single plain_comp_def)
  then have c: "clean_comps (dir @ CHR ''/'' # name) = clean_comps dir @ [name]"
    using assms(1,3) ab clean_fold_id [of "[name]" True "clean_comps dir"] by (simp add: clean_comps_def path_split_append)
  from ab have j: "Join dir name = CHR ''/'' # path_join (clean_comps dir @ [name])"
    using ne c by (simp add: Join_def Clean_def)
  have "list_all plain_comp (clean_comps dir @ [name])" using clean_comps_plain [OF assms(1)] assms(3) by simp
  from clean_comps_rooted [OF this] have "resolve_path dir (Join dir name) = clean_comps dir @ [name]"
    unfolding j by (simp add: resolve_path_def clean_comps_def)
  then show "withinDir (Join dir name) dir" by (simp add: withinDir_components [OF assms(1,2)])
  show "Join dir name \<noteq> []" by (simp add: j)
qed

lemma keyed_read: "keyed m \<Longrightarrow> read_path (k # ks) m = (case jget m k of None \<Rightarrow> None | Some v \<Rightarrow> read_path ks v)"
  by (simp add: keyed_jlast)

lemma jset_same: "jget m k = Some v \<Longrightarrow> jset k v m = m"
proof (cases m)
  case (JObj kvs)
  assume "jget m k = Some v"
  moreover have "map_of kvs k = Some v \<Longrightarrow> alset k v kvs = kvs"
    by (induction k v kvs rule: alset.induct) (auto split: if_splits)
  ultimately show ?thesis using JObj by simp
qed auto

lemma confiner_confine:
  assumes "IsAbs dir" "clean_comps dir \<noteq> []" "plain_comp fallback"
  shows "confiner dir (confine dir key fallback) [[key]]"
proof
  show "[] \<notin> set [[key]]" by simp
  fix m assume m: "keyed m"
  let ?v = "JStr (Join dir fallback)"
  have r: "confined_at dir m' [key] \<longleftrightarrow>
      (case jget m' key of Some (JStr v) \<Rightarrow> v = [] \<or> withinDir v dir | _ \<Rightarrow> True)" if "keyed m'" for m'
    using keyed_read [OF that, of key "[]"] by (auto simp: confined_at_def split: option.splits json.splits)
  have f: "confine dir key fallback m = (if confined_at dir m [key] then (m, False) else (jset key ?v m, True))"
    unfolding r [OF m] by (auto simp: confine_def split: option.splits json.splits)
  have o: "is_obj m" if "\<not> confined_at dir m [key]"
    using that jget_None_not_obj [of m key] unfolding r [OF m] by (auto split: option.splits)
  have k: "keyed (jset key ?v m)" using m by (simp add: keyed_jset)
  show "keyed (fst (confine dir key fallback m)) \<and> is_obj (fst (confine dir key fallback m)) = is_obj m"
    using m k by (simp add: f)
  show "list_all (confined_at dir (fst (confine dir key fallback m))) [[key]]"
    using Join_within [OF assms] o r [OF k] by (simp add: f)
  show "snd (confine dir key fallback m) \<longleftrightarrow> \<not> list_all (confined_at dir m) [[key]]" by (simp add: f)
  show "\<not> snd (confine dir key fallback m) \<Longrightarrow> fst (confine dir key fallback m) = m" by (simp add: f split: if_splits)
  fix ks assume "apart [[key]] ks"
  then obtain k' ks' where ks: "ks = k' # ks'" "k' \<noteq> key" by (cases ks) (auto simp: apart_def prefix_Cons)
  show "read_path ks (fst (confine dir key fallback m)) = read_path ks m"
    using o ks keyed_read [OF m] keyed_read [OF k] by (simp add: f)
qed

lemma confiner_at_key:
  assumes "confiner dir f gs"
  shows "confiner dir (at_key key f) (map ((#) key) gs)"
proof
  note c = confiner.keeps_keys [OF assms] confiner.confines [OF assms] confiner.reports [OF assms]
    confiner.no_change [OF assms] confiner.rest_same [OF assms] confiner.chains [OF assms]
  show "[] \<notin> set (map ((#) key) gs)" by auto
  fix m assume m: "keyed m"
  have r: "list_all (confined_at dir m') (map ((#) key) gs) =
      (case jget m' key of Some v \<Rightarrow> list_all (confined_at dir v) gs | None \<Rightarrow> True)" if "keyed m'" for m'
    using keyed_read [OF that, of key] by (simp add: confined_at_def list_all_iff split: option.splits)
  have leaf: "list_all (confined_at dir v) gs" if "\<not> is_obj v" for v
  proof -
    have "read_path g v = None" if "g \<in> set gs" for g
    proof -
      have "g \<noteq> []" using that c(6) by auto
      with \<open>\<not> is_obj v\<close> show ?thesis by (cases g) (simp_all add: jlast_not_obj)
    qed
    then show ?thesis by (auto simp: list_all_iff confined_at_def)
  qed
  let ?f = "at_key key f m"
  have "keyed (fst ?f) \<and> is_obj (fst ?f) = is_obj m \<and> list_all (confined_at dir (fst ?f)) (map ((#) key) gs) \<and>
      (snd ?f \<longleftrightarrow> \<not> list_all (confined_at dir m) (map ((#) key) gs)) \<and> (snd ?f \<or> fst ?f = m) \<and>
      (\<forall>ks. apart (map ((#) key) gs) ks \<longrightarrow> read_path ks (fst ?f) = read_path ks m)"
  proof (cases "\<exists>kvs. jget m key = Some (JObj kvs)")
    case True
    then obtain v where v: "jget m key = Some v" "is_obj v" by auto
    have ov: "keyed v" "is_obj m" using keyed_jget [OF m v(1)] jget_None_not_obj [of m key] v(1) by auto
    have f: "?f = (jset key (fst (f v)) m, snd (f v))"
      using v by (cases v) (auto simp: at_key_def split: prod.splits)
    have k: "keyed (jset key (fst (f v)) m)" using m ov(1) c(1) by (simp add: keyed_jset)
    have "read_path ks (jset key (fst (f v)) m) = read_path ks m" if a: "apart (map ((#) key) gs) ks" for ks
    proof (cases ks)
      case Nil
      with a have "gs = []" by (cases gs) (auto simp: apart_def)
      with c(3) [OF ov(1)] c(4) [OF ov(1)] jset_same [OF v(1)] show ?thesis by simp
    next
      case (Cons k' ks')
      show ?thesis
      proof (cases "k' = key")
        case True
        with a Cons have "apart gs ks'" by (auto simp: apart_def list_all_iff)
        with c(5) [OF ov(1)] True Cons v ov keyed_read [OF m] keyed_read [OF k] show ?thesis by simp
      next
        case False
        with Cons ov keyed_read [OF m] keyed_read [OF k] show ?thesis by simp
      qed
    qed
    moreover have "snd (f v) \<or> jset key (fst (f v)) m = m"
      using c(4) [OF ov(1)] jset_same [OF v(1)] by (cases "snd (f v)") simp_all
    ultimately show ?thesis
      using k v ov c(2,3) [OF ov(1)] r [OF k] r [OF m] unfolding f by simp
  next
    case False
    then have f: "?f = (m, False)" by (auto simp: at_key_def split: option.splits json.splits)
    have "list_all (confined_at dir m) (map ((#) key) gs)"
      unfolding r [OF m] using False leaf by (auto split: option.splits) (metis is_obj.elims(2))
    with m show ?thesis unfolding f by simp
  qed
  then show "keyed (fst ?f) \<and> is_obj (fst ?f) = is_obj m" "list_all (confined_at dir (fst ?f)) (map ((#) key) gs)"
    "snd ?f \<longleftrightarrow> \<not> list_all (confined_at dir m) (map ((#) key) gs)" "\<not> snd ?f \<Longrightarrow> fst ?f = m"
    "\<And>ks. apart (map ((#) key) gs) ks \<Longrightarrow> read_path ks (fst ?f) = read_path ks m"
    by blast+
qed

lemma confiner_and_then:
  assumes "confiner dir f gs" "confiner dir g hs" "list_all (apart hs) gs" "list_all (apart gs) hs"
  shows "confiner dir (and_then f g) (gs @ hs)"
proof
  note c = confiner.keeps_keys [OF assms(1)] confiner.confines [OF assms(1)] confiner.reports [OF assms(1)]
    confiner.no_change [OF assms(1)] confiner.rest_same [OF assms(1)] confiner.chains [OF assms(1)]
  note d = confiner.keeps_keys [OF assms(2)] confiner.confines [OF assms(2)] confiner.reports [OF assms(2)]
    confiner.no_change [OF assms(2)] confiner.rest_same [OF assms(2)] confiner.chains [OF assms(2)]
  show "[] \<notin> set (gs @ hs)" using c(6) d(6) by simp
  fix m assume m: "keyed m"
  let ?m = "fst (f m)" and ?f = "and_then f g m"
  have k: "keyed ?m" using c(1) [OF m] by simp
  have f: "?f = (fst (g ?m), snd (f m) \<or> snd (g ?m))" by (auto simp: and_then_def split: prod.splits)
  have g: "confined_at dir (fst (g ?m)) ks = confined_at dir ?m ks" if "ks \<in> set gs" for ks
    using d(5) [OF k, of ks] assms(3) that by (simp add: confined_at_def list_all_iff)
  have h: "confined_at dir ?m ks = confined_at dir m ks" if "ks \<in> set hs" for ks
    using c(5) [OF m, of ks] assms(4) that by (simp add: confined_at_def list_all_iff)
  show "keyed (fst ?f) \<and> is_obj (fst ?f) = is_obj m" using c(1) [OF m] d(1) [OF k] by (simp add: f)
  show "list_all (confined_at dir (fst ?f)) (gs @ hs)"
    using c(2) [OF m] d(2) [OF k] g by (auto simp: f list_all_iff)
  show "snd ?f \<longleftrightarrow> \<not> list_all (confined_at dir m) (gs @ hs)"
    using c(3) [OF m] d(3) [OF k] h by (auto simp: f list_all_iff)
  show "\<not> snd ?f \<Longrightarrow> fst ?f = m" using c(4) [OF m] d(4) [OF k] by (simp add: f)
  fix ks assume "apart (gs @ hs) ks"
  then have "apart gs ks" "apart hs ks" by (simp_all add: apart_def)
  with c(5) [OF m] d(5) [OF k] show "read_path ks (fst ?f) = read_path ks m" by (simp add: f)
qed

text \<open>The chains of keys that are guarded, per core.\<close>

definition guards :: "string \<Rightarrow> string list list" where
  "guards kind =
     (if kind = ''sing-box'' then [[''log'', ''output''], [''experimental'', ''cache_file'', ''path'']]
      else if kind = ''xray'' then [[''log'', ''access''], [''log'', ''error'']] else [])"

lemma sanitize_doc_confiner:
  assumes "IsAbs dir" "clean_comps dir \<noteq> []"
  shows "confiner dir (sanitize_doc kind dir) (guards kind)"
proof -
  note cf = confiner_confine [OF assms]
  have names: "plain_comp ''sing-box-log.txt''" "plain_comp ''cache.db''" "plain_comp ''xray-access.log''"
    "plain_comp ''xray-error.log''" by (simp_all add: plain_comp_def)
  consider "kind = ''sing-box''" | "kind = ''xray''" | "kind \<noteq> ''sing-box''" "kind \<noteq> ''xray''" by blast
  then show ?thesis
  proof cases
    case 1
    have "confiner dir (and_then (at_key ''log'' (confine dir ''output'' ''sing-box-log.txt''))
        (at_key ''experimental'' (at_key ''cache_file'' (confine dir ''path'' ''cache.db''))))
        (map ((#) ''log'') [[''output'']] @ map ((#) ''experimental'') (map ((#) ''cache_file'') [[''path'']]))"
      by (intro confiner_and_then confiner_at_key cf names) (simp_all add: apart_def)
    with 1 show ?thesis by (simp add: sanitize_doc_def [abs_def] guards_def)
  next
    case 2
    have "confiner dir (at_key ''log'' (and_then (confine dir ''access'' ''xray-access.log'')
        (confine dir ''error'' ''xray-error.log''))) (map ((#) ''log'') ([[''access'']] @ [[''error'']]))"
      by (intro confiner_and_then confiner_at_key cf names) (simp_all add: apart_def)
    with 2 show ?thesis by (simp add: sanitize_doc_def [abs_def] guards_def)
  next
    case 3
    then have "sanitize_doc kind dir = (\<lambda>m. (m, False))" "guards kind = []"
      by (simp_all add: sanitize_doc_def [abs_def] guards_def)
    then show ?thesis by (simp add: confiner_def)
  qed
qed

text \<open>The directory of the daemon; the tests may set another.\<close>

definition runtimeDir :: string where "runtimeDir = ''/run/itgray-helper''"

lemma runtimeDir_ok: "IsAbs runtimeDir" "clean_comps runtimeDir \<noteq> []"
  by code_simp+

interpretation run_dir: confiner runtimeDir "sanitize_doc kind runtimeDir" "guards kind" for kind
  by (rule sanitize_doc_confiner [OF runtimeDir_ok])

text \<open>The path at the end of a chain leads into the directory.\<close>

definition leads_into :: "string \<Rightarrow> json \<Rightarrow> string list \<Rightarrow> bool" where
  "leads_into dir j ks =
     (case read_path ks j of
        Some (JStr v) \<Rightarrow> v = [] \<or> prefix (clean_comps dir) (resolve_path dir v)
      | _ \<Rightarrow> True)"

lemma leads_into_confined: "leads_into runtimeDir j ks = confined_at runtimeDir j ks"
  by (auto simp: leads_into_def confined_at_def withinDir_components [OF runtimeDir_ok] split: option.splits json.splits)

lemma confined_any: "go_any fl j = Some doc \<Longrightarrow> confined_at dir doc ks = confined_at dir j ks"
  using read_any [of fl j doc ks] go_any_str [of fl]
  by (auto simp: confined_at_def dest!: go_num_number split: option.splits json.splits)

section \<open>Properties\<close>

lemma guards_nonempty: "[] \<notin> set (guards kind)"
  by (simp add: guards_def)

text \<open>
  C10. Confinement of the cores. If the configuration decodes into \<^verbatim>\<open>any\<close> (no number in it is out of the range of a
  float), each of the file names that the sanitizer guards leads, in the configuration that is written for the core,
  to a place inside the runtime directory: read component by component from there, with every dot and double dot taken,
  the path starts with the components of the directory. The guarded names are those under the exact keys \<^verbatim>\<open>log.output\<close>
  and \<^verbatim>\<open>experimental.cache_file.path\<close> of sing-box, \<^verbatim>\<open>log.access\<close> and \<^verbatim>\<open>log.error\<close> of xray. A configuration in which they
  all do is written verbatim, and otherwise every other value is kept as it decodes.
\<close>

theorem sanitized_paths_confined:
  assumes "go_any fl j \<noteq> None"
  shows "\<exists>out. sanitizeCoreConfig fl kind runtimeDir (Some j) = Some out \<and>
     list_all (leads_into runtimeDir out) (guards kind) \<and>
     (list_all (leads_into runtimeDir j) (guards kind) \<longrightarrow> out = j) \<and>
     (out = j \<or> (\<forall>ks. apart (guards kind) ks \<longrightarrow>
        read_path ks out = (case read_path ks j of None \<Rightarrow> None | Some v \<Rightarrow> go_any fl v)))"
proof (cases "is_obj j")
  case True
  obtain doc where doc: "go_any fl j = Some doc" using assms by auto
  note k = go_any_keyed [OF doc]
  let ?s = "sanitize_doc kind runtimeDir doc"
  have s: "sanitizeCoreConfig fl kind runtimeDir (Some j) = Some (if snd ?s then fst ?s else j)"
    using True doc by (cases j) (auto simp: sanitizeCoreConfig_def simp del: go_any.simps split: prod.splits)
  have "snd ?s \<longleftrightarrow> \<not> list_all (confined_at runtimeDir j) (guards kind)"
    using run_dir.reports [OF k] confined_any [OF doc] by (simp add: list_all_iff)
  with run_dir.confines [OF k] run_dir.rest_same [OF k] read_any [OF doc] show ?thesis
    unfolding s leads_into_confined by auto
next
  case False
  then have s: "sanitizeCoreConfig fl kind runtimeDir (Some j) = Some j"
    by (cases j) (auto simp: sanitizeCoreConfig_def)
  have "read_path g j = None" if "g \<in> set (guards kind)" for g
  proof -
    have "g \<noteq> []" using that guards_nonempty by auto
    with False show ?thesis by (cases g) (simp_all add: jlast_not_obj)
  qed
  then have "list_all (leads_into runtimeDir j) (guards kind)" by (simp add: list_all_iff leads_into_def)
  with s show ?thesis by simp
qed

definition small_numbers :: "json \<Rightarrow> (int + string) option" where
  "small_numbers j = (case j of JNum n \<Rightarrow> Some (Inl n) | _ \<Rightarrow> None)"

definition demo_config :: json where
  "demo_config = JObj [(''log'', JObj [(''error'', JStr ''logs/../e.log''), (''access'', JStr ''../../etc/shadow'')]), (''n'', JNum 1)]"

theorem sanitized_paths_confined_witness:
  "go_any small_numbers demo_config \<noteq> None \<and>
   sanitizeCoreConfig small_numbers ''xray'' runtimeDir (Some demo_config) =
     Some (JObj [(''log'', JObj [(''access'', JStr ''/run/itgray-helper/xray-access.log''), (''error'', JStr ''logs/../e.log'')]),
       (''n'', JNum 1)]) \<and>
   list_all (leads_into runtimeDir (JObj [(''log'', JObj [(''access'', JStr ''/run/itgray-helper/xray-access.log''),
       (''error'', JStr ''logs/../e.log'')]), (''n'', JNum 1)])) (guards ''xray'')"
proof -
  have g: "go_any small_numbers demo_config \<noteq> None" by code_simp
  have d: "go_any small_numbers demo_config = Some (JObj [(''log'', JObj [(''access'', JStr ''../../etc/shadow''),
      (''error'', JStr ''logs/../e.log'')]), (''n'', JNum 1)])" by code_simp
  have w: "\<not> withinDir ''../../etc/shadow'' runtimeDir" "withinDir ''logs/../e.log'' runtimeDir"
    "Join runtimeDir ''xray-access.log'' = ''/run/itgray-helper/xray-access.log''" by code_simp+
  have s: "sanitizeCoreConfig small_numbers ''xray'' runtimeDir (Some demo_config) =
     Some (JObj [(''log'', JObj [(''access'', JStr ''/run/itgray-helper/xray-access.log''), (''error'', JStr ''logs/../e.log'')]),
       (''n'', JNum 1)])" (is "_ = Some ?out")
    using d w by (simp add: sanitizeCoreConfig_def demo_config_def sanitize_doc_def at_key_def and_then_def confine_def
        del: go_any.simps)
  obtain out where out: "sanitizeCoreConfig small_numbers ''xray'' runtimeDir (Some demo_config) = Some out"
      "list_all (leads_into runtimeDir out) (guards ''xray'')"
    using sanitized_paths_confined [OF g, of "''xray''"] by (elim exE conjE) (rule that)
  have "out = ?out" using out(1) s by (simp only: option.inject)
  with out(2) have "list_all (leads_into runtimeDir ?out) (guards ''xray'')" by (simp only:)
  with g s show ?thesis by (simp only: simp_thms)
qed

text \<open>The value of \<^verbatim>\<open>log.access\<close> in a program that decodes a document into structs.\<close>

definition struct_log_access :: "json \<Rightarrow> string option" where
  "struct_log_access j =
     dec_struct [(''log'', dec_struct [(''access'', fld (\<lambda>s. s) (\<lambda>x s. x) dec_string)])] j []"

text \<open>A document that has, anywhere, a number which no float holds: exactly those do not decode into \<^verbatim>\<open>any\<close>.\<close>

fun bad_number :: "(json \<Rightarrow> (int + string) option) \<Rightarrow> json \<Rightarrow> bool" where
  "bad_number fl (JNum n) \<longleftrightarrow> fl (JNum n) = None"
| "bad_number fl (JFloat s) \<longleftrightarrow> fl (JFloat s) = None"
| "bad_number fl (JArr xs) \<longleftrightarrow> (\<exists>x \<in> set xs. bad_number fl x)"
| "bad_number fl (JObj kvs) \<longleftrightarrow> (\<exists>kv \<in> set kvs. bad_number fl (snd kv))"
| "bad_number fl j \<longleftrightarrow> False"

lemma opt_all_None: "opt_all f xs = None \<longleftrightarrow> (\<exists>x \<in> set xs. f x = None)"
  by (induction xs) (auto split: option.splits)

lemma go_any_None: "go_any fl j = None \<longleftrightarrow> bad_number fl j"
proof (induction j)
  case (JArr xs)
  have "go_any fl (JArr xs) = None \<longleftrightarrow> (\<exists>x \<in> set xs. go_any fl x = None)"
    using opt_all_None [of "\<lambda>x. x" "map (go_any fl) xs"] by (force split: option.splits)
  then show ?case using JArr by (simp del: go_any.simps)
next
  case (JObj kvs)
  then have "go_any fl (snd kv) = None \<longleftrightarrow> bad_number fl (snd kv)" if "kv \<in> set kvs" for kv
    using that by (cases kv) (auto simp: snds.simps)
  then show ?case
    using opt_all_None [of "\<lambda>kv. map_option (\<lambda>v. (fst kv, v)) (snd kv)" "map (\<lambda>kv. (fst kv, go_any fl (snd kv))) kvs"]
    by (auto split: option.splits)
qed (simp_all add: go_num_def)

lemma xray_untouched:
  assumes "bad_number fl j \<or> jlast j ''log'' = None"
  shows "sanitizeCoreConfig fl ''xray'' dir (Some j) = Some j"
proof (cases "go_any fl j")
  case None
  then show ?thesis by (auto simp: sanitizeCoreConfig_def simp del: go_any.simps split: json.splits)
next
  case (Some doc)
  show ?thesis
  proof (cases j)
    case (JObj kvs)
    have "jlast doc ''log'' = None"
      using go_any_jlast(1) [OF Some [unfolded JObj], of "''log''"] assms Some go_any_None [of fl j] JObj by auto
    then have "jget doc ''log'' = None" using keyed_jlast [OF go_any_keyed [OF Some]] by simp
    then show ?thesis
      using Some JObj by (auto simp: sanitizeCoreConfig_def sanitize_doc_def at_key_def simp del: go_any.simps)
  qed (simp_all add: sanitizeCoreConfig_def)
qed

lemma struct_log_access_last:
  assumes "foldName K = foldName ''log''" "foldName A = foldName ''access''"
    and "list_all (\<lambda>(k, x). foldName k \<noteq> foldName ''log'') kvs"
  shows "struct_log_access (JObj (kvs @ [(K, JObj [(A, JStr v)])])) = Some v"
proof -
  let ?f = "[(''log'', dec_struct [(''access'', fld (\<lambda>s. s) (\<lambda>x s. x) dec_string)])]"
  have n: "find_field [(n, d)] k = (if foldName n = foldName k then Some d else None)" for n k and d :: "string dec"
    by (auto simp: find_field_def)
  have "dec_fields ?f kvs r = Some r" for r
    using assms(3) by (induction kvs) (auto simp: n simp del: foldName.simps)
  then show ?thesis
    using assms(1,2) by (simp add: struct_log_access_def dec_fields_append n fld_def del: foldName.simps)
qed

text \<open>
  C39. Two ways around the sanitizer of an xray configuration. Take any document with a path of any kind, inside the
  runtime directory or not, as its access log, under keys that are \<^verbatim>\<open>log\<close> and \<^verbatim>\<open>access\<close> up to case, and no other key that is
  \<^verbatim>\<open>log\<close> up to case. If the first key is not exactly \<^verbatim>\<open>log\<close>, or if there is a number out of the range of a float anywhere
  in the rest, the document is written verbatim; and a program that decodes it into structs, which matches names
  without case and skips the fields it does not know, takes that path for its access log.
\<close>

theorem sanitizer_bypassed:
  assumes "foldName K = foldName ''log''" "foldName A = foldName ''access''"
    and "list_all (\<lambda>(k, x). foldName k \<noteq> foldName ''log'') kvs"
    and "K \<noteq> ''log'' \<or> list_ex (\<lambda>(k, x). bad_number fl x) kvs"
  shows "sanitizeCoreConfig fl ''xray'' dir (Some (JObj (kvs @ [(K, JObj [(A, JStr v)])])))
      = Some (JObj (kvs @ [(K, JObj [(A, JStr v)])])) \<and>
    struct_log_access (JObj (kvs @ [(K, JObj [(A, JStr v)])])) = Some v"
proof
  show "struct_log_access (JObj (kvs @ [(K, JObj [(A, JStr v)])])) = Some v"
    using assms(1-3) by (rule struct_log_access_last)
  have "map_of (rev kvs) ''log'' = None"
    using assms(3) by (auto simp: map_of_eq_None_iff list_all_iff simp del: foldName.simps)
  then have "bad_number fl (JObj (kvs @ [(K, JObj [(A, JStr v)])])) \<or> jlast (JObj (kvs @ [(K, JObj [(A, JStr v)])])) ''log'' = None"
    using assms(4) by (force simp: list_ex_iff)
  then show "sanitizeCoreConfig fl ''xray'' dir (Some (JObj (kvs @ [(K, JObj [(A, JStr v)])])))
      = Some (JObj (kvs @ [(K, JObj [(A, JStr v)])]))" by (rule xray_untouched)
qed

theorem sanitizer_bypassed_witness:
  "(let j = JObj [(''Log'', JObj [(''access'', JStr ''/etc/shadow'')])] in
     sanitizeCoreConfig small_numbers ''xray'' runtimeDir (Some j) = Some j \<and> struct_log_access j = Some ''/etc/shadow'') \<and>
   (let j = JObj [(''x'', JArr [JFloat ''1e999'']), (''log'', JObj [(''access'', JStr ''/etc/shadow'')])] in
     sanitizeCoreConfig small_numbers ''xray'' runtimeDir (Some j) = Some j \<and> struct_log_access j = Some ''/etc/shadow'') \<and>
   \<not> withinDir ''/etc/shadow'' runtimeDir"
proof (intro conjI)
  have f: "foldName ''Log'' = foldName ''log''" "foldName ''x'' \<noteq> foldName ''log''" by code_simp+
  have b: "bad_number small_numbers (JArr [JFloat ''1e999''])" by (simp add: small_numbers_def)
  show "\<not> withinDir ''/etc/shadow'' runtimeDir" by code_simp
  show "let j = JObj [(''Log'', JObj [(''access'', JStr ''/etc/shadow'')])] in
     sanitizeCoreConfig small_numbers ''xray'' runtimeDir (Some j) = Some j \<and> struct_log_access j = Some ''/etc/shadow''"
    using sanitizer_bypassed [OF f(1) refl, of "[]" small_numbers runtimeDir "''/etc/shadow''"] by (simp add: Let_def)
  show "let j = JObj [(''x'', JArr [JFloat ''1e999'']), (''log'', JObj [(''access'', JStr ''/etc/shadow'')])] in
     sanitizeCoreConfig small_numbers ''xray'' runtimeDir (Some j) = Some j \<and> struct_log_access j = Some ''/etc/shadow''"
    using sanitizer_bypassed [OF refl refl, of "[(''x'', JArr [JFloat ''1e999''])]" small_numbers runtimeDir "''/etc/shadow''"] f(2) b
    by (simp add: Let_def del: foldName.simps bad_number.simps)
qed

end
