(* ===== verification/Helper_Chain.thy ===== *)
theory Helper_Chain
  imports Helper_Proto Helper_Sanitize
begin

text \<open>
  The session of the helper daemon on Linux: \<^verbatim>\<open>helper/server/chain_linux.go\<close> with the arguments of
  chain_types.go, the status of status.go and the processes of \<^verbatim>\<open>helper/supervisor/supervisor.go\<close>.
  Every section under \<^verbatim>\<open>chainMu\<close> is one step; the crash watchers, the reads of the counters and the
  deaths of processes are steps of their own, in any order.
\<close>

section \<open>Supervised processes\<close>

text \<open>
  The processes that run are known by their identifiers. \<^verbatim>\<open>Stop\<close> ends in one of four ways; each returns
  nil, and after \<^verbatim>\<open>exitDone\<close> is closed, so the process is gone.
\<close>

datatype stop_event = SignalFails | ExitsInGrace | ExitsWithError | GraceExpires

definition Child_Stop :: "stop_event \<Rightarrow> nat \<Rightarrow> nat list \<Rightarrow> string option \<times> nat list" where
  "Child_Stop ev p running =
     (if p \<notin> set running then (None, running)
      else case ev of
        SignalFails \<Rightarrow> (None, removeAll p running)
      | ExitsInGrace \<Rightarrow> (None, removeAll p running)
      | ExitsWithError \<Rightarrow> (None, removeAll p running)
      | GraceExpires \<Rightarrow> (None, removeAll p running))"

text \<open>The interface \<^verbatim>\<open>coreStopper\<close>: stopping a process touches no other; without an error it is gone.\<close>

locale core_stopper =
  fixes stop :: "nat \<Rightarrow> nat list \<Rightarrow> string option \<times> nat list"
  assumes stop_nil: "fst (stop p r) = None \<Longrightarrow> set (snd (stop p r)) = set r - {p}"
    and stop_others: "set r - {p} \<subseteq> set (snd (stop p r)) \<and> set (snd (stop p r)) \<subseteq> set r"

interpretation supervisor: core_stopper "Child_Stop ev" for ev
  by unfold_locales (auto simp: Child_Stop_def split: stop_event.splits)

section \<open>State\<close>

record chainState =
  ss_id :: string
  ss_stopping :: bool
  ss_singbox :: "nat option"
  ss_xray :: "nat option"
  ss_api :: bool
  ss_up :: "64 word"
  ss_down :: "64 word"

text \<open>A watcher about to start, or waiting for one of the processes it saw.\<close>

datatype watcher = WStart nat | WWait nat "nat option" "nat option"

text \<open>
  Sessions are referred to by their position in \<open>hp_heap\<close>; \<open>hp_config\<close> holds the configurations
  written for the cores, \<open>hp_reads\<close> the reads of counters in flight.
\<close>

record Helper =
  hp_heap :: "chainState list"
  hp_active :: "nat option"
  hp_running :: "nat list"
  hp_pids :: nat
  hp_config :: "string \<rightharpoonup> json option"
  hp_watch :: "watcher list"
  hp_reads :: "(nat \<times> 64 word \<times> 64 word) list"

definition new_Helper :: Helper where
  "new_Helper = \<lparr> hp_heap = [], hp_active = None, hp_running = [], hp_pids = 1, hp_config = Map.empty, hp_watch = [],
     hp_reads = [] \<rparr>"

definition IsCleanupPending :: "Helper \<Rightarrow> bool" where
  "IsCleanupPending h = (case hp_active h of None \<Rightarrow> False | Some s \<Rightarrow> ss_stopping (hp_heap h ! s))"

definition IsChainActive :: "Helper \<Rightarrow> bool" where
  "IsChainActive h = (case hp_active h of None \<Rightarrow> False | Some s \<Rightarrow> \<not> ss_stopping (hp_heap h ! s))"

section \<open>Starting\<close>

record StartChainArgs =
  sa_SingboxConfig :: "json option"
  sa_XrayConfig :: "json option"
  sa_ServerHost :: string
  sa_ServerPort :: int
  sa_TunName :: string
  sa_Mode :: string
  sa_DnsAlias :: string
  sa_DnsServers :: "string list"

definition zero_StartChainArgs :: StartChainArgs where
  "zero_StartChainArgs = \<lparr> sa_SingboxConfig = None, sa_XrayConfig = None, sa_ServerHost = [], sa_ServerPort = 0,
     sa_TunName = [], sa_Mode = [], sa_DnsAlias = [], sa_DnsServers = [] \<rparr>"

definition StartChainArgs_fields :: "StartChainArgs fields" where
  "StartChainArgs_fields =
     [(''singbox_config'', fld sa_SingboxConfig (\<lambda>x r. r \<lparr> sa_SingboxConfig := x \<rparr>) dec_raw),
      (''xray_config'', fld sa_XrayConfig (\<lambda>x r. r \<lparr> sa_XrayConfig := x \<rparr>) dec_raw),
      (''server_host'', fld sa_ServerHost (\<lambda>x r. r \<lparr> sa_ServerHost := x \<rparr>) dec_string),
      (''server_port'', fld sa_ServerPort (\<lambda>x r. r \<lparr> sa_ServerPort := x \<rparr>) (dec_int (- (2 ^ 63)) (2 ^ 63 - 1))),
      (''tun_name'', fld sa_TunName (\<lambda>x r. r \<lparr> sa_TunName := x \<rparr>) dec_string),
      (''mode'', fld sa_Mode (\<lambda>x r. r \<lparr> sa_Mode := x \<rparr>) dec_string),
      (''dns_alias'', fld sa_DnsAlias (\<lambda>x r. r \<lparr> sa_DnsAlias := x \<rparr>) dec_string),
      (''dns_servers'', fld sa_DnsServers (\<lambda>x r. r \<lparr> sa_DnsServers := x \<rparr>) (dec_slice dec_string []))]"

definition enc_StartChainResult :: "string \<Rightarrow> nat \<Rightarrow> nat \<Rightarrow> json" where
  "enc_StartChainResult sid sbPid xrPid =
     JObj [(''session_id'', JStr sid), (''tun_luid'', JNum 0), (''singbox_pid'', JNum (int sbPid)), (''xray_pid'', JNum (int xrPid))]"

text \<open>What the system answers during a start: the identifier drawn, and the text of each error.\<close>

record start_env =
  se_decode :: string
  se_id :: string
  se_mkdir :: "string option"
  se_write_sb :: "string option"
  se_write_xr :: "string option"
  se_exe_sb :: "string option"
  se_spawn_sb :: "string option"
  se_exe_xr :: "string option"
  se_spawn_xr :: "string option"
  se_stop :: stop_event
  se_float :: "json \<Rightarrow> (int + string) option"

definition check_start :: "StartChainArgs \<Rightarrow> string option" where
  "check_start a =
     (if sa_ServerHost a = [] \<or> sa_ServerPort a = 0 then Some ''server_host, server_port required''
      else if sa_Mode a = [] \<or> sa_Mode a = ''tun''
        then (if sa_TunName a = [] then Some ''tun_name required for tun mode'' else None)
      else if sa_Mode a = ''sysproxy'' then None
      else Some ''invalid mode'')"

text \<open>\<^verbatim>\<open>rollback\<close> after sing-box is up: the xray of the session never is.\<close>

definition rollback :: "stop_event \<Rightarrow> nat \<Rightarrow> Helper \<Rightarrow> Helper" where
  "rollback ev sb h = h \<lparr> hp_running := snd (Child_Stop ev sb (hp_running h)) \<rparr>"

definition spawnCore :: "Helper \<Rightarrow> nat \<times> Helper" where
  "spawnCore h = (hp_pids h, h \<lparr> hp_running := hp_running h @ [hp_pids h], hp_pids := hp_pids h + 1 \<rparr>)"

text \<open>The locked part, for arguments that passed the checks.\<close>

definition start_locked :: "start_env \<Rightarrow> StartChainArgs \<Rightarrow> Helper \<Rightarrow> (string + json option) \<times> Helper" where
  "start_locked env a h =
     (case hp_active h of
        Some s \<Rightarrow> (Inl (''chain already running (session='' @ ss_id (hp_heap h ! s) @ '')''), h)
      | None \<Rightarrow>
      (case se_mkdir env of Some e \<Rightarrow> (Inl (''mkdir runtime dir: '' @ e), h) | None \<Rightarrow>
      (case se_write_sb env of Some e \<Rightarrow> (Inl (''write sing-box config: '' @ e), h) | None \<Rightarrow>
       let h = h \<lparr> hp_config := (hp_config h)(''sing-box.json'' \<mapsto>
                     sanitizeCoreConfig (se_float env) ''sing-box'' runtimeDir (sa_SingboxConfig a)) \<rparr> in
      (case se_write_xr env of Some e \<Rightarrow> (Inl (''write xray config: '' @ e), h) | None \<Rightarrow>
       let h = h \<lparr> hp_config := (hp_config h)(''xray.json'' \<mapsto>
                     sanitizeCoreConfig (se_float env) ''xray'' runtimeDir (sa_XrayConfig a)) \<rparr> in
      (case se_exe_sb env of Some e \<Rightarrow> (Inl (''binary path: '' @ e), h) | None \<Rightarrow>
      (case se_spawn_sb env of Some e \<Rightarrow> (Inl (''spawn sing-box: '' @ e), h) | None \<Rightarrow>
      (case spawnCore h of (sb, h) \<Rightarrow>
      (case se_exe_xr env of Some e \<Rightarrow> (Inl (''binary path xray: '' @ e), rollback (se_stop env) sb h) | None \<Rightarrow>
      (case se_spawn_xr env of Some e \<Rightarrow> (Inl (''spawn xray: '' @ e), rollback (se_stop env) sb h) | None \<Rightarrow>
      (case spawnCore h of (xr, h) \<Rightarrow>
       let s = length (hp_heap h);
           state = \<lparr> ss_id = se_id env, ss_stopping = False, ss_singbox = Some sb, ss_xray = Some xr, ss_api = True,
                     ss_up = 0, ss_down = 0 \<rparr>
       in (Inr (Some (enc_StartChainResult (se_id env) sb xr)),
           h \<lparr> hp_heap := hp_heap h @ [state], hp_active := Some s, hp_watch := hp_watch h @ [WStart s] \<rparr>)))))))))))"

definition NewStartChainHandler :: "start_env \<Rightarrow> Helper handler" where
  "NewStartChainHandler env raw h =
     (case (case raw of None \<Rightarrow> None | Some j \<Rightarrow> dec_struct StartChainArgs_fields j zero_StartChainArgs) of
        None \<Rightarrow> (Inl (''decode args: '' @ se_decode env), h)
      | Some a \<Rightarrow> (case check_start a of Some e \<Rightarrow> (Inl e, h) | None \<Rightarrow> start_locked env a h))"

section \<open>Stopping\<close>

definition stop_opt :: "(nat \<Rightarrow> nat list \<Rightarrow> string option \<times> nat list) \<Rightarrow> nat option \<Rightarrow> nat list \<Rightarrow> string option \<times> nat list" where
  "stop_opt stop c r = (case c of None \<Rightarrow> (None, r) | Some p \<Rightarrow> stop p r)"

definition stopBoth :: "(nat \<Rightarrow> nat list \<Rightarrow> string option \<times> nat list) \<Rightarrow> nat option \<Rightarrow> nat option \<Rightarrow> nat list
    \<Rightarrow> string option \<times> string option \<times> nat list" where
  "stopBoth stop xray singbox r =
     (case stop_opt stop xray r of (xrayErr, r1) \<Rightarrow>
        (case stop_opt stop singbox r1 of (sbErr, r2) \<Rightarrow> (xrayErr, sbErr, r2)))"

definition err_line :: "string \<Rightarrow> string option \<Rightarrow> string list" where
  "err_line what e = (case e of None \<Rightarrow> [] | Some m \<Rightarrow> [what @ m])"

text \<open>\<open>closeErr\<close> is the error of closing the client of the counters, if it is open.\<close>

definition stopActiveChainLocked :: "(nat \<Rightarrow> nat list \<Rightarrow> string option \<times> nat list) \<Rightarrow> string option \<Rightarrow> nat \<Rightarrow> Helper
    \<Rightarrow> string list \<times> Helper" where
  "stopActiveChainLocked stop closeErr s h =
     (let st = hp_heap h ! s in
      case stopBoth stop (ss_xray st) (ss_singbox st) (hp_running h) of (xrayErr, sbErr, r) \<Rightarrow>
        let st' = st \<lparr> ss_stopping := True,
                       ss_xray := (if xrayErr = None then None else ss_xray st),
                       ss_singbox := (if sbErr = None then None else ss_singbox st),
                       ss_api := False \<rparr>;
            errs = err_line ''xray.Stop: '' xrayErr @ err_line ''singbox.Stop: '' sbErr
                   @ (if ss_api st then err_line ''xrayAPI.Close: '' closeErr else [])
        in (errs, h \<lparr> hp_heap := (hp_heap h)[s := st'], hp_running := r,
                      hp_active := (if errs = [] then None else hp_active h) \<rparr>))"

definition StopChainArgs_fields :: "string fields" where
  "StopChainArgs_fields = [(''session_id'', fld (\<lambda>s. s) (\<lambda>x s. x) dec_string)]"

definition stop_locked :: "(nat \<Rightarrow> nat list \<Rightarrow> string option \<times> nat list) \<Rightarrow> string option \<Rightarrow> string \<Rightarrow> Helper
    \<Rightarrow> (string + json option) \<times> Helper" where
  "stop_locked stop closeErr sid h =
     (case hp_active h of
        None \<Rightarrow> (Inr (Some (JObj [(''status'', JStr ''no-active-chain'')])), h)
      | Some s \<Rightarrow>
          (if sid \<noteq> [] \<and> sid \<noteq> ss_id (hp_heap h ! s)
           then (Inl (''session id mismatch: caller='' @ sid @ '' active='' @ ss_id (hp_heap h ! s)), h)
           else case stopActiveChainLocked stop closeErr s h of (errs, h') \<Rightarrow>
             (Inr (Some (JObj ((if errs = [] then [] else [(''partial_errors'', JArr (map JStr errs))])
                               @ [(''status'', JStr ''stopped'')]))), h')))"

definition NewStopChainHandler :: "string \<Rightarrow> (nat \<Rightarrow> nat list \<Rightarrow> string option \<times> nat list) \<Rightarrow> string option
    \<Rightarrow> Helper handler" where
  "NewStopChainHandler decErr stop closeErr raw h =
     (case (case raw of None \<Rightarrow> Some [] | Some j \<Rightarrow> dec_struct StopChainArgs_fields j []) of
        None \<Rightarrow> (Inl (''decode args: '' @ decErr), h)
      | Some sid \<Rightarrow> stop_locked stop closeErr sid h)"

definition StopActiveChain :: "(nat \<Rightarrow> nat list \<Rightarrow> string option \<times> nat list) \<Rightarrow> string option \<Rightarrow> Helper
    \<Rightarrow> string list \<times> Helper" where
  "StopActiveChain stop closeErr h =
     (case hp_active h of None \<Rightarrow> ([], h) | Some s \<Rightarrow> stopActiveChainLocked stop closeErr s h)"

section \<open>The crash watcher\<close>

definition exited :: "Helper \<Rightarrow> nat option \<Rightarrow> bool" where
  "exited h c = (case c of None \<Rightarrow> False | Some p \<Rightarrow> p \<notin> set (hp_running h))"

definition guard_failed :: "nat \<Rightarrow> Helper \<Rightarrow> bool" where
  "guard_failed s h \<longleftrightarrow> hp_active h \<noteq> Some s \<or> ss_stopping (hp_heap h ! s)"

text \<open>The next step of the \<open>i\<close>-th watcher, if it has one.\<close>

definition watchChainExit :: "(nat \<Rightarrow> nat list \<Rightarrow> string option \<times> nat list) \<Rightarrow> string option \<Rightarrow> nat \<Rightarrow> Helper
    \<Rightarrow> Helper option" where
  "watchChainExit stop closeErr i h =
     (if length (hp_watch h) \<le> i then None
      else case hp_watch h ! i of
        WStart s \<Rightarrow>
          (if guard_failed s h then Some (h \<lparr> hp_watch := remove_at i (hp_watch h) \<rparr>)
           else Some (h \<lparr> hp_watch := (hp_watch h)[i := WWait s (ss_singbox (hp_heap h ! s)) (ss_xray (hp_heap h ! s))] \<rparr>))
      | WWait s sb xr \<Rightarrow>
          (if \<not> (exited h sb \<or> exited h xr) then None
           else let h' = h \<lparr> hp_watch := remove_at i (hp_watch h) \<rparr>
                in Some (if guard_failed s h then h' else snd (stopActiveChainLocked stop closeErr s h'))))"

section \<open>Counters and status\<close>

definition read_begin :: "Helper \<Rightarrow> (nat \<times> 64 word \<times> 64 word) option" where
  "read_begin h =
     (case hp_active h of
        None \<Rightarrow> None
      | Some s \<Rightarrow>
          (let st = hp_heap h ! s in
           if ss_stopping st \<or> \<not> ss_api st then None else Some (s, ss_up st, ss_down st)))"

definition read_end :: "(64 word \<times> 64 word) option \<Rightarrow> nat \<times> 64 word \<times> 64 word \<Rightarrow> Helper \<Rightarrow> (64 word \<times> 64 word) \<times> Helper" where
  "read_end res rd h =
     (case res of
        None \<Rightarrow> (snd rd, h)
      | Some (u, d) \<Rightarrow>
          ((u, d), if hp_active h = Some (fst rd)
                   then h \<lparr> hp_heap := (hp_heap h)[fst rd := (hp_heap h ! fst rd) \<lparr> ss_up := u, ss_down := d \<rparr>] \<rparr>
                   else h))"

definition readChainCounters :: "(64 word \<times> 64 word) option \<Rightarrow> Helper \<Rightarrow> (64 word \<times> 64 word) option \<times> Helper" where
  "readChainCounters res h =
     (case read_begin h of None \<Rightarrow> (None, h) | Some rd \<Rightarrow> (case read_end res rd h of (ud, h') \<Rightarrow> (Some ud, h')))"

definition NewServiceStatusHandler :: "string \<Rightarrow> int \<Rightarrow> (64 word \<times> 64 word) option \<Rightarrow> Helper handler" where
  "NewServiceStatusHandler version uptime res raw h =
     (case readChainCounters res h of (ud, h') \<Rightarrow>
        (Inr (Some (JObj ([(''version'', JStr version), (''uptime_secs'', JNum uptime),
            (''up_bytes'', JNum (case ud of None \<Rightarrow> 0 | Some (u, d) \<Rightarrow> uint u)),
            (''down_bytes'', JNum (case ud of None \<Rightarrow> 0 | Some (u, d) \<Rightarrow> uint d)),
            (''chain_active'', JBool (IsChainActive h))]
            @ jopt (IsCleanupPending h) ''cleanup_pending'' (JBool True)))), h'))"

section \<open>All interleavings\<close>

inductive chain_step :: "Helper \<Rightarrow> Helper \<Rightarrow> bool" where
  Dies: "p \<in> set (hp_running h) \<Longrightarrow> chain_step h (h \<lparr> hp_running := removeAll p (hp_running h) \<rparr>)"
| Start: "chain_step h (snd (NewStartChainHandler env raw h))"
| StopReq: "core_stopper stop \<Longrightarrow> chain_step h (snd (NewStopChainHandler decErr stop closeErr raw h))"
| Shutdown: "core_stopper stop \<Longrightarrow> chain_step h (snd (StopActiveChain stop closeErr h))"
| Watch: "core_stopper stop \<Longrightarrow> watchChainExit stop closeErr i h = Some h' \<Longrightarrow> chain_step h h'"
| ReadBegin: "read_begin h = Some rd \<Longrightarrow> chain_step h (h \<lparr> hp_reads := hp_reads h @ [rd] \<rparr>)"
| ReadEnd: "i < length (hp_reads h) \<Longrightarrow>
    chain_step h (snd (read_end res (hp_reads h ! i) (h \<lparr> hp_reads := remove_at i (hp_reads h) \<rparr>)))"

inductive chain_reachable :: "Helper \<Rightarrow> bool" where
  New: "chain_reachable new_Helper"
| Next: "chain_reachable h \<Longrightarrow> chain_step h h' \<Longrightarrow> chain_reachable h'"

section \<open>The invariant\<close>

definition cores :: "chainState \<Rightarrow> nat set" where
  "cores st = set_option (ss_singbox st) \<union> set_option (ss_xray st)"

text \<open>A session that is up has both cores and a watcher.\<close>

definition session_up :: "nat \<Rightarrow> Helper \<Rightarrow> bool" where
  "session_up s h \<longleftrightarrow> ss_api (hp_heap h ! s) \<and>
     (\<exists>sb xr. ss_singbox (hp_heap h ! s) = Some sb \<and> ss_xray (hp_heap h ! s) = Some xr \<and>
        (WStart s \<in> set (hp_watch h) \<or> WWait s (Some sb) (Some xr) \<in> set (hp_watch h)))"

definition active_ok :: "Helper \<Rightarrow> bool" where
  "active_ok h \<longleftrightarrow>
     (case hp_active h of
        None \<Rightarrow> hp_running h = []
      | Some s \<Rightarrow> s < length (hp_heap h) \<and> set (hp_running h) \<subseteq> cores (hp_heap h ! s) \<and>
          (ss_stopping (hp_heap h ! s) \<or> session_up s h))"

definition past_ok :: "Helper \<Rightarrow> bool" where
  "past_ok h \<longleftrightarrow> (\<forall>s < length (hp_heap h). hp_active h \<noteq> Some s \<longrightarrow> cores (hp_heap h ! s) = {})"

definition chain_inv :: "Helper \<Rightarrow> bool" where
  "chain_inv h \<longleftrightarrow> active_ok h \<and> past_ok h"

context core_stopper
begin

lemma stop_opt_gone: "set (snd (stop_opt stop c r)) \<subseteq> set r"
    "fst (stop_opt stop c r) = None \<Longrightarrow> p \<in> set_option c \<Longrightarrow> p \<notin> set (snd (stop_opt stop c r))"
  using stop_nil stop_others by (fastforce simp: stop_opt_def split: option.splits)+

lemma stopBoth_gone:
  assumes "stopBoth stop x sb r = (xe, se, r')"
  shows "set r' \<subseteq> set r" "xe = None \<Longrightarrow> p \<in> set_option x \<Longrightarrow> p \<notin> set r'" "se = None \<Longrightarrow> p \<in> set_option sb \<Longrightarrow> p \<notin> set r'"
proof -
  define r1 where "r1 = snd (stop_opt stop x r)"
  have a: "xe = fst (stop_opt stop x r)" "se = fst (stop_opt stop sb r1)" "r' = snd (stop_opt stop sb r1)"
    using assms by (auto simp: stopBoth_def r1_def split: prod.splits)
  have b: "set r1 \<subseteq> set r" "set r' \<subseteq> set r1" unfolding a r1_def using stop_opt_gone(1) by auto
  then show "set r' \<subseteq> set r" by simp
  show "xe = None \<Longrightarrow> p \<in> set_option x \<Longrightarrow> p \<notin> set r'"
    using b stop_opt_gone(2) [of x r p] unfolding a(1) r1_def [symmetric] by blast
  show "se = None \<Longrightarrow> p \<in> set_option sb \<Longrightarrow> p \<notin> set r'"
    using stop_opt_gone(2) [of sb r1 p] unfolding a(2,3) by blast
qed

text \<open>What a teardown leaves: the cores that would not stop, still tracked; or nothing at all.\<close>

lemma teardown:
  assumes "hp_active h = Some s" "s < length (hp_heap h)" "set (hp_running h) \<subseteq> cores (hp_heap h ! s)"
    and "stopActiveChainLocked stop closeErr s h = (errs, h')"
  shows "set (hp_running h') \<subseteq> cores (hp_heap h' ! s)" "set (hp_running h') \<subseteq> set (hp_running h)"
    "ss_stopping (hp_heap h' ! s)" "length (hp_heap h') = length (hp_heap h)"
    "\<And>t. t \<noteq> s \<Longrightarrow> hp_heap h' ! t = hp_heap h ! t" "hp_watch h' = hp_watch h" "hp_reads h' = hp_reads h"
    "errs = [] \<Longrightarrow> hp_active h' = None \<and> cores (hp_heap h' ! s) = {} \<and> hp_running h' = []"
    "errs \<noteq> [] \<Longrightarrow> hp_active h' = Some s"
proof -
  let ?st = "hp_heap h ! s"
  obtain xe se r where b: "stopBoth stop (ss_xray ?st) (ss_singbox ?st) (hp_running h) = (xe, se, r)"
    by (cases "stopBoth stop (ss_xray ?st) (ss_singbox ?st) (hp_running h)") auto
  let ?st' = "?st \<lparr> ss_stopping := True, ss_xray := (if xe = None then None else ss_xray ?st),
      ss_singbox := (if se = None then None else ss_singbox ?st), ss_api := False \<rparr>"
  have h': "h' = h \<lparr> hp_heap := (hp_heap h)[s := ?st'], hp_running := r, hp_active := (if errs = [] then None else Some s) \<rparr>"
    and errs: "errs = [] \<Longrightarrow> xe = None \<and> se = None"
    using assms(1,4) by (auto simp: stopActiveChainLocked_def b Let_def err_line_def split: option.splits)
  note g = stopBoth_gone [OF b]
  have run: "set r \<subseteq> cores ?st'"
  proof
    fix p assume p: "p \<in> set r"
    with g(1) assms(3) have "p \<in> set_option (ss_singbox ?st) \<or> p \<in> set_option (ss_xray ?st)" by (auto simp: cores_def)
    with g(2,3) p show "p \<in> cores ?st'" by (auto simp: cores_def)
  qed
  then show "set (hp_running h') \<subseteq> cores (hp_heap h' ! s)" using assms(2) by (simp add: h')
  show "set (hp_running h') \<subseteq> set (hp_running h)" using g(1) by (simp add: h')
  show "ss_stopping (hp_heap h' ! s)" "length (hp_heap h') = length (hp_heap h)"
    "\<And>t. t \<noteq> s \<Longrightarrow> hp_heap h' ! t = hp_heap h ! t" "hp_watch h' = hp_watch h" "hp_reads h' = hp_reads h"
    "errs \<noteq> [] \<Longrightarrow> hp_active h' = Some s" using assms(2) by (simp_all add: h')
  show "errs = [] \<Longrightarrow> hp_active h' = None \<and> cores (hp_heap h' ! s) = {} \<and> hp_running h' = []"
    using errs run assms(2) by (auto simp: h' cores_def)
qed

lemma teardown_inv:
  assumes "past_ok h" "hp_active h = Some s" "s < length (hp_heap h)" "set (hp_running h) \<subseteq> cores (hp_heap h ! s)"
  shows "chain_inv (snd (stopActiveChainLocked stop closeErr s h))"
proof -
  obtain errs h' where e: "stopActiveChainLocked stop closeErr s h = (errs, h')" by force
  note t = teardown [OF assms(2-4) e]
  have "past_ok h'"
    unfolding past_ok_def
  proof (intro allI impI)
    fix u assume u: "u < length (hp_heap h')" "hp_active h' \<noteq> Some u"
    show "cores (hp_heap h' ! u) = {}"
    proof (cases "u = s")
      case True
      with u t(8,9) show ?thesis by (cases "errs = []") auto
    next
      case False
      with u t(4,5) assms(1,2) show ?thesis by (auto simp: past_ok_def)
    qed
  qed
  moreover have "active_ok h'" using t(1,3,4,8,9) assms(3) by (cases "errs = []") (auto simp: active_ok_def)
  ultimately show ?thesis by (simp add: e chain_inv_def)
qed

end

lemma Child_Stop_gone: "set (snd (Child_Stop ev p r)) = set r - {p}" "fst (Child_Stop ev p r) = None"
  by (auto simp: Child_Stop_def split: stop_event.splits)

lemma chain_inv_quiet:
  assumes "chain_inv h" "hp_active h = None" "hp_active h' = None" "hp_running h' = []" "hp_heap h' = hp_heap h"
  shows "chain_inv h'"
  using assms by (simp add: chain_inv_def active_ok_def past_ok_def)

lemma start_inv:
  assumes "chain_inv h"
  shows "chain_inv (snd (start_locked env a h))"
proof (cases "hp_active h")
  case None
  then have r: "hp_running h = []" using assms by (simp add: chain_inv_def active_ok_def)
  note quiet = chain_inv_quiet [OF assms None]
  have up: "chain_inv g" if "hp_running g = [p, q]" "hp_heap g = hp_heap h @ [st]" "hp_active g = Some (length (hp_heap h))"
      "hp_watch g = hp_watch h @ [WStart (length (hp_heap h))]" "ss_singbox st = Some p" "ss_xray st = Some q" "ss_api st"
    for g st p q
    using assms None that
    by (auto simp: chain_inv_def active_ok_def past_ok_def session_up_def cores_def nth_append less_Suc_eq)
  have roll: "hp_running (rollback ev p g) = []" if "hp_running g = [p]" for ev p g
    using Child_Stop_gone(1) [of ev p "[p]"] that by (simp add: rollback_def)
  have rs: "hp_active (rollback ev p g) = hp_active g" "hp_heap (rollback ev p g) = hp_heap g" for ev p g
    by (simp_all add: rollback_def)
  show ?thesis
  proof (cases "se_mkdir env = None \<and> se_write_sb env = None \<and> se_write_xr env = None \<and> se_exe_sb env = None \<and>
      se_spawn_sb env = None \<and> se_exe_xr env = None \<and> se_spawn_xr env = None")
    case True
    with None r show ?thesis by (auto simp: start_locked_def Let_def spawnCore_def intro!: up)
  next
    case False
    with None r show ?thesis
      by (auto simp: start_locked_def Let_def spawnCore_def rs roll intro!: quiet split: option.splits)
  qed
next
  case (Some s)
  with assms show ?thesis by (simp add: start_locked_def)
qed

lemma teardown_chain_inv:
  "core_stopper stop \<Longrightarrow> chain_inv h \<Longrightarrow> hp_active h = Some s \<Longrightarrow> chain_inv (snd (stopActiveChainLocked stop closeErr s h))"
  by (rule core_stopper.teardown_inv) (auto simp: chain_inv_def active_ok_def)

lemma teardown_result:
  "core_stopper stop \<Longrightarrow> chain_inv h \<Longrightarrow> hp_active h = Some s \<Longrightarrow> stopActiveChainLocked stop closeErr s h = (errs, h')
    \<Longrightarrow> chain_inv h'"
  using teardown_chain_inv by (metis snd_conv)

lemma handler_inv:
  assumes "chain_inv h"
  shows "chain_inv (snd (NewStartChainHandler env raw h))"
    and "core_stopper stop \<Longrightarrow> chain_inv (snd (NewStopChainHandler decErr stop closeErr raw h))"
    and "core_stopper stop \<Longrightarrow> chain_inv (snd (StopActiveChain stop closeErr h))"
proof -
  show "chain_inv (snd (NewStartChainHandler env raw h))"
    using assms start_inv [OF assms] by (auto simp: NewStartChainHandler_def split: option.splits)
  show "core_stopper stop \<Longrightarrow> chain_inv (snd (NewStopChainHandler decErr stop closeErr raw h))"
    using assms teardown_result [of stop h]
    by (auto simp: NewStopChainHandler_def stop_locked_def split: option.splits prod.splits)
  show "core_stopper stop \<Longrightarrow> chain_inv (snd (StopActiveChain stop closeErr h))"
    using assms teardown_chain_inv [of stop h]
    by (auto simp: StopActiveChain_def split: option.splits)
qed

text \<open>A watcher that is dropped, or that now waits, is still there if the session needs it.\<close>

lemma in_remove_at:
  assumes "x \<in> set xs" "i < length xs" "xs ! i \<noteq> x"
  shows "x \<in> set (remove_at i xs)"
proof -
  obtain ys zs where s: "xs = ys @ xs ! i # zs" "remove_at i xs = ys @ zs" using remove_at_split [OF assms(2)] by blast
  from arg_cong [OF s(1), of set] have "set xs = insert (xs ! i) (set ys \<union> set zs)" by simp
  with assms(1,3) s(2) show ?thesis by auto
qed

lemma in_list_update: "x \<in> set xs \<Longrightarrow> i < length xs \<Longrightarrow> xs ! i \<noteq> x \<Longrightarrow> x \<in> set (xs[i := y])"
  by (metis in_set_conv_nth length_list_update nth_list_update_neq)

text \<open>A change of the watchers alone.\<close>

lemma chain_inv_watch:
  assumes "chain_inv h"
    and "\<And>s. hp_active h = Some s \<Longrightarrow> \<not> ss_stopping (hp_heap h ! s) \<Longrightarrow> session_up s h \<Longrightarrow> session_up s (h \<lparr> hp_watch := ws \<rparr>)"
  shows "chain_inv (h \<lparr> hp_watch := ws \<rparr>)"
  using assms by (auto simp: chain_inv_def active_ok_def past_ok_def split: option.splits)

lemma watch_inv:
  assumes "core_stopper stop" "chain_inv h" "watchChainExit stop closeErr i h = Some h'"
  shows "chain_inv h'"
proof -
  have i: "i < length (hp_watch h)" using assms(3) by (auto simp: watchChainExit_def split: if_splits)
  let ?drop = "h \<lparr> hp_watch := remove_at i (hp_watch h) \<rparr>"
  have drop: "chain_inv ?drop" if "guard_failed s h" "hp_watch h ! i = WStart s \<or> (\<exists>a b. hp_watch h ! i = WWait s a b)" for s
  proof (rule chain_inv_watch [OF assms(2)])
    fix t assume "hp_active h = Some t" "\<not> ss_stopping (hp_heap h ! t)" "session_up t h"
    moreover from this that have "t \<noteq> s" by (auto simp: guard_failed_def)
    ultimately show "session_up t ?drop"
      using that i in_remove_at [OF _ i] by (auto simp: session_up_def)
  qed
  show ?thesis
  proof (cases "hp_watch h ! i")
    case (WStart s)
    let ?ws = "(hp_watch h)[i := WWait s (ss_singbox (hp_heap h ! s)) (ss_xray (hp_heap h ! s))]"
    have "chain_inv (h \<lparr> hp_watch := ?ws \<rparr>)"
    proof (rule chain_inv_watch [OF assms(2)])
      fix t assume t: "session_up t h"
      have new: "WWait s (ss_singbox (hp_heap h ! s)) (ss_xray (hp_heap h ! s)) \<in> set ?ws"
        using i by (simp add: set_update_memI)
      show "session_up t (h \<lparr> hp_watch := ?ws \<rparr>)"
        using t new WStart in_list_update [OF _ i] by (cases "t = s") (auto simp: session_up_def)
    qed
    with assms(3) i WStart drop [of s] show ?thesis by (auto simp: watchChainExit_def split: if_splits)
  next
    case (WWait s a b)
    show ?thesis
    proof (cases "guard_failed s h")
      case True
      with assms(3) i WWait drop [of s] show ?thesis by (auto simp: watchChainExit_def split: if_splits)
    next
      case False
      then have act: "hp_active h = Some s" "\<not> ss_stopping (hp_heap h ! s)" by (auto simp: guard_failed_def)
      have h': "h' = snd (stopActiveChainLocked stop closeErr s ?drop)"
        using assms(3) i WWait False by (auto simp: watchChainExit_def Let_def split: if_splits)
      have "set (hp_running h) \<subseteq> cores (hp_heap h ! s)" "s < length (hp_heap h)" "past_ok h"
        using assms(2) act by (auto simp: chain_inv_def active_ok_def)
      with act show ?thesis
        unfolding h' by (intro core_stopper.teardown_inv [OF assms(1)]) (simp_all add: past_ok_def)
    qed
  qed
qed

lemma read_end_inv: "chain_inv h \<Longrightarrow> chain_inv (snd (read_end res rd h))"
proof (cases "(\<exists>u d. res = Some (u, d)) \<and> hp_active h = Some (fst rd)")
  case True
  assume h: "chain_inv h"
  obtain u d where ud: "res = Some (u, d)" using True by blast
  let ?s = "fst rd"
  have s: "?s < length (hp_heap h)" using True h by (simp add: chain_inv_def active_ok_def)
  have "snd (read_end res rd h) = h \<lparr> hp_heap := (hp_heap h)[?s := (hp_heap h ! ?s) \<lparr> ss_up := u, ss_down := d \<rparr>] \<rparr>"
    using True ud by (simp add: read_end_def)
  with h True s show ?thesis
    by (auto simp: chain_inv_def active_ok_def past_ok_def session_up_def cores_def nth_list_update)
qed (auto simp: read_end_def split: option.splits)

lemma step_inv: "chain_step h h' \<Longrightarrow> chain_inv h \<Longrightarrow> chain_inv h'"
proof (induction rule: chain_step.induct)
  case (Dies p h)
  then show ?case
    by (auto simp: chain_inv_def active_ok_def past_ok_def session_up_def split: option.splits)
next
  case (ReadBegin h rd)
  then show ?case by (simp add: chain_inv_def active_ok_def past_ok_def session_up_def split: option.splits)
next
  case (ReadEnd i h res)
  have "chain_inv (h \<lparr> hp_reads := remove_at i (hp_reads h) \<rparr>)"
    using ReadEnd by (simp add: chain_inv_def active_ok_def past_ok_def session_up_def split: option.splits)
  then show ?case by (rule read_end_inv)
qed (use handler_inv watch_inv in blast)+

lemma reachable_inv: "chain_reachable h \<Longrightarrow> chain_inv h"
proof (induction rule: chain_reachable.induct)
  case New
  then show ?case by (simp add: new_Helper_def chain_inv_def active_ok_def past_ok_def)
qed (rule step_inv)

section \<open>Properties\<close>

text \<open>
  C2. No core is ever lost. In every state that the daemon can reach, with any interleaving of starts (which
  may fail at any point), stops (in which stopping a core or closing the client may fail), crashes,
  watchers and reads of the counters, a core process that runs is one of the at most two of the active
  session, so that stopping that session stops it; without an active session none runs.
\<close>

theorem no_core_lost:
  assumes "chain_reachable h"
  shows "case hp_active h of
           None \<Rightarrow> hp_running h = []
         | Some s \<Rightarrow> s < length (hp_heap h) \<and>
             (\<forall>p \<in> set (hp_running h). ss_singbox (hp_heap h ! s) = Some p \<or> ss_xray (hp_heap h ! s) = Some p)"
  using reachable_inv [OF assms]
  by (auto simp: chain_inv_def active_ok_def cores_def split: option.splits)

definition all_well :: start_env where
  "all_well = \<lparr> se_decode = [], se_id = ''0123456789abcdef'', se_mkdir = None, se_write_sb = None, se_write_xr = None,
     se_exe_sb = None, se_spawn_sb = None, se_exe_xr = None, se_spawn_xr = None, se_stop = ExitsInGrace,
     se_float = (\<lambda>_. None) \<rparr>"

definition demo_start :: "json option" where
  "demo_start = Some (JObj [(''server_host'', JStr ''h''), (''server_port'', JNum 443), (''tun_name'', JStr ''itgray0'')])"

definition one_session :: Helper where
  "one_session = snd (NewStartChainHandler all_well demo_start new_Helper)"

lemma one_session:
  "NewStartChainHandler all_well demo_start new_Helper =
     (Inr (Some (enc_StartChainResult ''0123456789abcdef'' 1 2)), one_session)"
  "hp_running one_session = [1, 2]" "hp_active one_session = Some 0"
  "hp_heap one_session = [\<lparr> ss_id = ''0123456789abcdef'', ss_stopping = False, ss_singbox = Some 1, ss_xray = Some 2,
     ss_api = True, ss_up = 0, ss_down = 0 \<rparr>]" "hp_watch one_session = [WStart 0]"
  by (simp_all add: one_session_def NewStartChainHandler_def demo_start_def StartChainArgs_fields_def find_field_def fld_def
      zero_StartChainArgs_def check_start_def start_locked_def new_Helper_def all_well_def spawnCore_def Let_def
      numeral_2_eq_2)

lemma one_session_reachable: "chain_reachable one_session"
  unfolding one_session_def by (rule chain_reachable.Next [OF chain_reachable.New chain_step.Start])

theorem no_core_lost_witness:
  "chain_reachable one_session \<and> hp_active one_session = Some 0 \<and> hp_running one_session = [1, 2] \<and>
   list_all (\<lambda>p. ss_singbox (hp_heap one_session ! 0) = Some p \<or> ss_xray (hp_heap one_session ! 0) = Some p)
     (hp_running one_session)"
  using no_core_lost [OF one_session_reachable] one_session_reachable one_session(2)
  by (simp add: one_session(3) list_all_iff del: one_session(2))

text \<open>With real processes, whose \<^verbatim>\<open>Stop\<close> never fails, and a client that closes, a teardown is complete.\<close>

lemma supervisor_teardown:
  assumes "hp_active h = Some s" "s < length (hp_heap h)" "set (hp_running h) \<subseteq> cores (hp_heap h ! s)"
  shows "hp_active (snd (stopActiveChainLocked (Child_Stop ev) None s h)) = None \<and>
     hp_running (snd (stopActiveChainLocked (Child_Stop ev) None s h)) = []"
proof -
  obtain errs h' where e: "stopActiveChainLocked (Child_Stop ev) None s h = (errs, h')" by force
  have "fst (stop_opt (Child_Stop ev) c r) = None" for c r
    by (simp add: stop_opt_def Child_Stop_gone(2) split: option.splits)
  then have "fst (stopBoth (Child_Stop ev) x sb r) = None" "fst (snd (stopBoth (Child_Stop ev) x sb r)) = None" for x sb r
    by (simp_all add: stopBoth_def case_prod_beta)
  then have "fst (stopActiveChainLocked (Child_Stop ev) None s h) = []"
    by (simp add: stopActiveChainLocked_def err_line_def Let_def case_prod_beta)
  then have "errs = []" using e by simp
  with supervisor.teardown(8) [OF assms e] e show ?thesis by simp
qed

text \<open>
  A request to stop. Without an active session it says so and changes nothing, and with the identifier of
  another session it is refused. Otherwise, if everything stops, the answer has no errors, there is no
  active session any more and no core runs. If something fails, the errors are in the answer, the
  session stays, marked as stopping and no longer active, with the cores that still run, so that a new
  start is refused; and a later request under which everything stops completes it.
\<close>

theorem StopChain_result:
  assumes "chain_reachable h" "core_stopper stop" "stop_locked stop closeErr sid h = (res, h')"
  shows "(hp_active h = None \<and> h' = h \<and> res = Inr (Some (JObj [(''status'', JStr ''no-active-chain'')]))) \<or>
     (\<exists>s. hp_active h = Some s \<and>
       ((sid \<noteq> [] \<and> sid \<noteq> ss_id (hp_heap h ! s) \<and> h' = h \<and> isl res) \<or>
        (res = Inr (Some (JObj [(''status'', JStr ''stopped'')])) \<and> hp_active h' = None \<and> hp_running h' = []) \<or>
        (\<exists>errs. errs \<noteq> [] \<and>
          res = Inr (Some (JObj [(''partial_errors'', JArr (map JStr errs)), (''status'', JStr ''stopped'')])) \<and>
          hp_active h' = Some s \<and> IsCleanupPending h' \<and> \<not> IsChainActive h' \<and>
          set (hp_running h') \<subseteq> set (hp_running h) \<and> (\<forall>env a. isl (fst (start_locked env a h'))) \<and>
          (\<forall>ev. hp_active (snd (stop_locked (Child_Stop ev) None [] h')) = None \<and>
                hp_running (snd (stop_locked (Child_Stop ev) None [] h')) = []))))"
proof (cases "hp_active h")
  case None
  with assms(3) show ?thesis by (simp add: stop_locked_def)
next
  case (Some s)
  have inv: "chain_inv h" by (rule reachable_inv [OF assms(1)])
  have a: "s < length (hp_heap h)" "set (hp_running h) \<subseteq> cores (hp_heap h ! s)"
    using inv Some by (auto simp: chain_inv_def active_ok_def)
  show ?thesis
  proof (cases "sid \<noteq> [] \<and> sid \<noteq> ss_id (hp_heap h ! s)")
    case True
    with assms(3) Some show ?thesis by (auto simp: stop_locked_def)
  next
    case False
    obtain errs where e: "stopActiveChainLocked stop closeErr s h = (errs, h')"
      and res: "res = Inr (Some (JObj ((if errs = [] then [] else [(''partial_errors'', JArr (map JStr errs))])
          @ [(''status'', JStr ''stopped'')])))"
      using assms(3) Some False by (auto simp: stop_locked_def split: prod.splits if_splits)
    note t = core_stopper.teardown [OF assms(2) Some a e]
    show ?thesis
    proof (cases "errs = []")
      case True
      with res t(8) Some show ?thesis by simp
    next
      case bad: False
      then have act: "hp_active h' = Some s" using t(9) by simp
      have "snd (stop_locked (Child_Stop ev) None [] h') = snd (stopActiveChainLocked (Child_Stop ev) None s h')" for ev
        using act by (simp add: stop_locked_def split: prod.splits)
      moreover have "s < length (hp_heap h')" using a t(4) by simp
      ultimately have "hp_active (snd (stop_locked (Child_Stop ev) None [] h')) = None \<and>
          hp_running (snd (stop_locked (Child_Stop ev) None [] h')) = []" for ev
        using supervisor_teardown [OF act _ t(1), of ev] by simp
      moreover have "IsCleanupPending h'" "\<not> IsChainActive h'" "\<forall>env a. isl (fst (start_locked env a h'))"
        using act t(3) by (simp_all add: IsCleanupPending_def IsChainActive_def start_locked_def)
      ultimately show ?thesis using bad res act Some t(2) by auto
    qed
  qed
qed

definition stuck_stop :: "nat \<Rightarrow> nat list \<Rightarrow> string option \<times> nat list" where
  "stuck_stop p r = (if p = 1 then (Some ''stuck'', r) else (None, removeAll p r))"

lemma stuck_stopper: "core_stopper stuck_stop"
  by unfold_locales (auto simp: stuck_stop_def split: if_splits)

theorem StopChain_result_witness:
  "chain_reachable one_session \<and> core_stopper stuck_stop \<and>
   (\<exists>h'. stop_locked stuck_stop None [] one_session =
       (Inr (Some (JObj [(''partial_errors'', JArr [JStr ''singbox.Stop: stuck'']), (''status'', JStr ''stopped'')])), h') \<and>
     hp_running h' = [1] \<and> IsCleanupPending h' \<and> hp_running (snd (stop_locked (Child_Stop GraceExpires) None [] h')) = [])"
proof -
  obtain h' where h': "stop_locked stuck_stop None [] one_session =
      (Inr (Some (JObj [(''partial_errors'', JArr [JStr ''singbox.Stop: stuck'']), (''status'', JStr ''stopped'')])), h')"
    "hp_running h' = [1]"
    by (simp add: stop_locked_def stopActiveChainLocked_def stopBoth_def stop_opt_def one_session stuck_stop_def err_line_def Let_def)
  with StopChain_result [OF one_session_reachable stuck_stopper h'(1)] one_session_reachable stuck_stopper show ?thesis
    by auto
qed

text \<open>
  C23. A crash does not go unnoticed. In every reachable state in which a session is up but one of its two
  cores no longer runs, some watcher of that session is at most two steps from having torn it down, after
  which there is no active session and no core runs.
\<close>

theorem crash_noticed:
  assumes "chain_reachable h" "hp_active h = Some s" "IsChainActive h"
    and "\<exists>p. (ss_singbox (hp_heap h ! s) = Some p \<or> ss_xray (hp_heap h ! s) = Some p) \<and> p \<notin> set (hp_running h)"
  shows "\<exists>i h1 h2. watchChainExit (Child_Stop ev) None i h = Some h1 \<and>
     (h2 = h1 \<or> watchChainExit (Child_Stop ev) None i h1 = Some h2) \<and> hp_active h2 = None \<and> hp_running h2 = []"
proof -
  let ?st = "hp_heap h ! s" and ?w = "watchChainExit (Child_Stop ev) None"
  have inv: "chain_inv h" by (rule reachable_inv [OF assms(1)])
  have ns: "\<not> ss_stopping ?st" using assms(2,3) by (simp add: IsChainActive_def)
  then have a: "s < length (hp_heap h)" "set (hp_running h) \<subseteq> cores ?st" "session_up s h"
    using inv assms(2) by (auto simp: chain_inv_def active_ok_def)
  obtain sb xr where c: "ss_singbox ?st = Some sb" "ss_xray ?st = Some xr"
    "WStart s \<in> set (hp_watch h) \<or> WWait s (Some sb) (Some xr) \<in> set (hp_watch h)"
    using a(3) by (auto simp: session_up_def)
  have ex: "exited h (Some sb) \<or> exited h (Some xr)" using assms(4) c by (auto simp: exited_def)
  have g: "\<not> guard_failed s h" using assms(2) ns by (simp add: guard_failed_def)
  have second: "\<exists>g2. ?w i g = Some g2 \<and> hp_active g2 = None \<and> hp_running g2 = []"
    if "i < length (hp_watch g)" "hp_watch g ! i = WWait s (Some sb) (Some xr)" "hp_active g = hp_active h"
      "hp_heap g = hp_heap h" "hp_running g = hp_running h" for g i
  proof -
    let ?d = "g \<lparr> hp_watch := remove_at i (hp_watch g) \<rparr>"
    have "?w i g = Some (snd (stopActiveChainLocked (Child_Stop ev) None s ?d))"
      using that ex \<open>\<not> guard_failed s h\<close> by (auto simp: watchChainExit_def exited_def guard_failed_def Let_def)
    with supervisor_teardown [of ?d s ev] that assms(2) a(1,2) show ?thesis by simp
  qed
  from c(3) show ?thesis
  proof
    assume "WStart s \<in> set (hp_watch h)"
    then obtain i where i: "i < length (hp_watch h)" "hp_watch h ! i = WStart s" by (auto simp: in_set_conv_nth)
    let ?h1 = "h \<lparr> hp_watch := (hp_watch h)[i := WWait s (Some sb) (Some xr)] \<rparr>"
    have "?w i h = Some ?h1" using i g c by (simp add: watchChainExit_def)
    moreover obtain h2 where "?w i ?h1 = Some h2" "hp_active h2 = None" "hp_running h2 = []"
      using second [of i ?h1] i by auto
    ultimately show ?thesis by blast
  next
    assume "WWait s (Some sb) (Some xr) \<in> set (hp_watch h)"
    then obtain i where "i < length (hp_watch h)" "hp_watch h ! i = WWait s (Some sb) (Some xr)"
      by (auto simp: in_set_conv_nth)
    with second [of i h] show ?thesis by blast
  qed
qed

definition crashed_session :: Helper where
  "crashed_session = one_session \<lparr> hp_running := [1] \<rparr>"

theorem crash_noticed_witness:
  "chain_reachable crashed_session \<and> IsChainActive crashed_session \<and>
   (\<exists>i h1 h2. watchChainExit (Child_Stop ExitsInGrace) None i crashed_session = Some h1 \<and>
     (h2 = h1 \<or> watchChainExit (Child_Stop ExitsInGrace) None i h1 = Some h2) \<and> hp_active h2 = None \<and> hp_running h2 = [])"
proof -
  have "chain_step one_session crashed_session"
    using chain_step.Dies [of 2 one_session] by (simp add: one_session crashed_session_def)
  then have r: "chain_reachable crashed_session" by (rule chain_reachable.Next [OF one_session_reachable])
  have f: "hp_active crashed_session = Some 0" "IsChainActive crashed_session"
    by (simp_all add: crashed_session_def one_session IsChainActive_def)
  have "ss_xray (hp_heap crashed_session ! 0) = Some 2" "2 \<notin> set (hp_running crashed_session)"
    by (simp_all add: crashed_session_def one_session)
  then have x: "\<exists>p. (ss_singbox (hp_heap crashed_session ! 0) = Some p \<or> ss_xray (hp_heap crashed_session ! 0) = Some p) \<and>
      p \<notin> set (hp_running crashed_session)" by (intro exI [of _ 2] conjI disjI2)
  show ?thesis by (intro conjI r f(2) crash_noticed [OF r f x])
qed

end
