(* ===== verification/Net_URL.thy ===== *)
theory Net_URL
  imports Json_Text Netaddr "HOL-Library.Char_ord" "HOL-Library.List_Lexorder"
begin

text \<open>
  Package \<^verbatim>\<open>net/url\<close> of the standard library (Go 1.26), as far as share links use it: percent-encoding by
  component, the parts of a URL with an authority, query strings. A \<open>None\<close> is an error.
\<close>

section \<open>Percent-encoding\<close>

datatype encoding = EncodePath | EncodeHost | EncodeZone | EncodeUserPassword | EncodeQueryComponent | EncodeFragment

definition is_alnum :: "char \<Rightarrow> bool" where
  "is_alnum c \<longleftrightarrow> is_digit c \<or> (97 \<le> (of_char c :: nat) \<and> (of_char c :: nat) \<le> 122)
                           \<or> (65 \<le> (of_char c :: nat) \<and> (of_char c :: nat) \<le> 90)"

definition host_plain :: string where "host_plain = CHR 0x27 # CHR 0x22 # ''!$&()*+,;=:[]<>''"
definition unreserved_marks :: string where "unreserved_marks = ''-_.~''"
definition reserved :: string where "reserved = ''$&+,/:;=?@''"
definition fragment_plain :: string where "fragment_plain = ''!()*''"

definition shouldEscape :: "char \<Rightarrow> encoding \<Rightarrow> bool" where
  "shouldEscape c mode =
     (if is_alnum c then False
      else if (mode = EncodeHost \<or> mode = EncodeZone) \<and> c \<in> set host_plain then False
      else if c \<in> set unreserved_marks then False
      else if c \<in> set reserved then
        (case mode of
           EncodePath \<Rightarrow> c = CHR ''?''
         | EncodeUserPassword \<Rightarrow> c = CHR ''@'' \<or> c = CHR ''/'' \<or> c = CHR ''?'' \<or> c = CHR '':''
         | EncodeQueryComponent \<Rightarrow> True
         | EncodeFragment \<Rightarrow> False
         | _ \<Rightarrow> True)
      else if mode = EncodeFragment \<and> c \<in> set fragment_plain then False
      else True)"

lemmas url_chars = host_plain_def unreserved_marks_def reserved_def fragment_plain_def is_alnum_def is_digit_def

definition upper_hex :: "nat \<Rightarrow> char" where
  "upper_hex d = (if d < 10 then digit_char d else char_of (55 + d))"

definition pct :: "char \<Rightarrow> string" where
  "pct c = [CHR ''%'', upper_hex (of_char c div 16), upper_hex (of_char c mod 16)]"

definition escape_char :: "encoding \<Rightarrow> char \<Rightarrow> string" where
  "escape_char mode c =
     (if \<not> shouldEscape c mode then [c]
      else if mode = EncodeQueryComponent \<and> c = CHR '' '' then ''+'' else pct c)"

definition escape :: "encoding \<Rightarrow> string \<Rightarrow> string" where
  "escape mode s = concat (map (escape_char mode) s)"

text \<open>In a host only bytes beyond ASCII and the percent sign may be encoded.\<close>

definition pct_allowed :: "encoding \<Rightarrow> nat \<Rightarrow> bool" where
  "pct_allowed mode v =
     (case mode of
        EncodeHost \<Rightarrow> 128 \<le> v \<or> v = 37
      | EncodeZone \<Rightarrow> v = 37 \<or> v = 32 \<or> \<not> shouldEscape (char_of v) EncodeHost
      | _ \<Rightarrow> True)"

definition plain_allowed :: "encoding \<Rightarrow> char \<Rightarrow> bool" where
  "plain_allowed mode c \<longleftrightarrow> \<not> ((mode = EncodeHost \<or> mode = EncodeZone) \<and> (of_char c :: nat) < 128 \<and> shouldEscape c mode)"

definition pct_val :: "string \<Rightarrow> nat option" where
  "pct_val s =
     (case s of
        a # b # r \<Rightarrow> (case (hex_val a, hex_val b) of (Some x, Some y) \<Rightarrow> Some (16 * x + y) | _ \<Rightarrow> None)
      | _ \<Rightarrow> None)"

fun unescape :: "encoding \<Rightarrow> string \<Rightarrow> string option" where
  "unescape mode [] = Some []"
| "unescape mode (c # s) =
     (if c = CHR ''%'' then
        (case pct_val s of
           None \<Rightarrow> None
         | Some v \<Rightarrow> (if pct_allowed mode v then map_option ((#) (char_of v)) (unescape mode (drop 2 s)) else None))
      else if c = CHR ''+'' then
        map_option ((#) (if mode = EncodeQueryComponent then CHR '' '' else c)) (unescape mode s)
      else if plain_allowed mode c then map_option ((#) c) (unescape mode s)
      else None)"

section \<open>Parts of a URL\<close>

text \<open>\<^verbatim>\<open>strings.Cut\<close> at a byte, and the cut at its last occurrence.\<close>

definition Cut :: "char \<Rightarrow> string \<Rightarrow> string \<times> string" where
  "Cut d s = (takeWhile (\<lambda>c. c \<noteq> d) s, tl (dropWhile (\<lambda>c. c \<noteq> d) s))"

definition cut_last :: "char \<Rightarrow> string \<Rightarrow> (string \<times> string) option" where
  "cut_last d s =
     (if d \<in> set s
      then Some (rev (tl (dropWhile (\<lambda>c. c \<noteq> d) (rev s))), rev (takeWhile (\<lambda>c. c \<noteq> d) (rev s)))
      else None)"

definition validOptionalPort :: "string \<Rightarrow> bool" where
  "validOptionalPort port \<longleftrightarrow> port = [] \<or> (hd port = CHR '':'' \<and> list_all is_digit (tl port))"

definition validUserinfo :: "string \<Rightarrow> bool" where
  "validUserinfo s \<longleftrightarrow> list_all (\<lambda>c. is_alnum c \<or> c \<in> set ''-._:~!$&()*+,;=%@'' \<or> c = CHR 0x27) s"

text \<open>The text before the first \<^verbatim>\<open>%25\<close>, and from there on.\<close>

fun cut_zone :: "string \<Rightarrow> (string \<times> string) option" where
  "cut_zone [] = None"
| "cut_zone (c # s) = (if HasPrefix (c # s) ''%25'' then Some ([], c # s) else map_option (\<lambda>(a, b). (c # a, b)) (cut_zone s))"

text \<open>\<^verbatim>\<open>netip.ParseAddr\<close> of a literal in brackets: an IPv6 address, with or without a zone.\<close>

definition ip_literal :: "string \<Rightarrow> bool" where
  "ip_literal s \<longleftrightarrow>
     ParseAddr (takeWhile (\<lambda>c. c \<noteq> CHR ''%'') s) = Some V6 \<and> length (dropWhile (\<lambda>c. c \<noteq> CHR ''%'') s) \<noteq> 1"

definition unescape_literal :: "string \<Rightarrow> string option" where
  "unescape_literal hostname =
     (case cut_zone hostname of
        None \<Rightarrow> unescape EncodeHost hostname
      | Some (h, z) \<Rightarrow>
          (case (unescape EncodeHost h, unescape EncodeZone z) of
             (Some h', Some z') \<Rightarrow> Some (h' @ z') | _ \<Rightarrow> None))"

definition parseHost :: "string \<Rightarrow> string option" where
  "parseHost host =
     (if CHR ''['' \<in> set host then
        (if hd host \<noteq> CHR ''['' \<or> CHR ''['' \<in> set (tl host) then None
         else case cut_last (CHR '']'') host of
           None \<Rightarrow> None
         | Some (h, colonPort) \<Rightarrow>
             (if \<not> validOptionalPort colonPort then None
              else case unescape_literal (tl h) of
                None \<Rightarrow> None
              | Some a \<Rightarrow> (if ip_literal a then Some (''['' @ a @ '']'' @ colonPort) else None)))
      else if \<not> validOptionalPort (dropWhile (\<lambda>c. c \<noteq> CHR '':'') host) then None
      else unescape EncodeHost host)"

text \<open>The user name, if there is an at sign, and the host.\<close>

definition parseAuthority :: "string \<Rightarrow> (string option \<times> string) option" where
  "parseAuthority authority =
     (case cut_last (CHR ''@'') authority of
        None \<Rightarrow> map_option (Pair None) (parseHost authority)
      | Some (userinfo, rest) \<Rightarrow>
          (case parseHost rest of
             None \<Rightarrow> None
           | Some host \<Rightarrow>
               (if \<not> validUserinfo userinfo then None
                else case (unescape EncodeUserPassword (fst (Cut (CHR '':'') userinfo)),
                           unescape EncodeUserPassword (snd (Cut (CHR '':'') userinfo))) of
                  (Some username, Some password) \<Rightarrow> Some (Some username, host)
                | _ \<Rightarrow> None)))"

record url =
  url_User :: "string option"
  url_Host :: string
  url_RawQuery :: string
  url_Fragment :: string

definition ctl_byte :: "char \<Rightarrow> bool" where
  "ctl_byte c \<longleftrightarrow> (of_char c :: nat) < 32 \<or> (of_char c :: nat) = 127"

text \<open>\<^verbatim>\<open>url.Parse\<close> of a text that begins with a scheme and two slashes, \<open>n\<close> bytes in all; the path is only checked.\<close>

definition url_Parse :: "nat \<Rightarrow> string \<Rightarrow> url option" where
  "url_Parse n rawURL =
     (let (u, frag) = Cut (CHR ''#'') rawURL;
          (rest, query) = Cut (CHR ''?'') (drop n u);
          authority = takeWhile (\<lambda>c. c \<noteq> CHR ''/'') rest;
          path = dropWhile (\<lambda>c. c \<noteq> CHR ''/'') rest
      in if list_ex ctl_byte u then None
         else case (parseAuthority authority, unescape EncodePath path, unescape EncodeFragment frag) of
           (Some (user, host), Some p, Some f) \<Rightarrow>
             Some \<lparr> url_User = user, url_Host = host, url_RawQuery = query, url_Fragment = f \<rparr>
         | _ \<Rightarrow> None)"

definition splitHostPort :: "string \<Rightarrow> string \<times> string" where
  "splitHostPort hostPort =
     (let (host, port) =
        (case cut_last (CHR '':'') hostPort of
           None \<Rightarrow> (hostPort, [])
         | Some (h, p) \<Rightarrow> (if validOptionalPort (CHR '':'' # p) then (h, p) else (hostPort, [])))
      in (if HasPrefix host ''['' \<and> last host = CHR '']'' then butlast (tl host) else host, port))"

section \<open>Query strings\<close>

type_synonym Values = "(string \<times> string) list"

definition maxQueryParams :: nat where "maxQueryParams = 10000"

definition parse_pair :: "string \<Rightarrow> (string \<times> string) option" where
  "parse_pair key =
     (if CHR '';'' \<in> set key \<or> key = [] then None
      else case (unescape EncodeQueryComponent (fst (Cut (CHR ''='') key)), unescape EncodeQueryComponent (snd (Cut (CHR ''='') key))) of
        (Some k, Some v) \<Rightarrow> Some (k, v) | _ \<Rightarrow> None)"

definition ParseQuery :: "string \<Rightarrow> Values" where
  "ParseQuery query =
     (if length (split_on (CHR ''&'') query) > maxQueryParams then []
      else List.map_filter parse_pair (split_on (CHR ''&'') query))"

definition Get :: "Values \<Rightarrow> string \<Rightarrow> string" where
  "Get q k = (case map_of q k of None \<Rightarrow> [] | Some v \<Rightarrow> v)"

definition join :: "string \<Rightarrow> string list \<Rightarrow> string" where
  "join sep xs = (case xs of [] \<Rightarrow> [] | y # ys \<Rightarrow> y @ concat (map (\<lambda>x. sep @ x) ys))"

definition encode_pair :: "string \<times> string \<Rightarrow> string" where
  "encode_pair kv = escape EncodeQueryComponent (fst kv) @ ''='' @ escape EncodeQueryComponent (snd kv)"

definition Encode_Values :: "Values \<Rightarrow> string" where
  "Encode_Values q = join ''&'' (map encode_pair (sort_key fst q))"

text \<open>\<^verbatim>\<open>URL.String\<close> for a URL with scheme, user and host and no path.\<close>

definition url_String :: "string \<Rightarrow> url \<Rightarrow> string" where
  "url_String scheme u =
     scheme @ ''://''
     @ (case url_User u of None \<Rightarrow> [] | Some n \<Rightarrow> escape EncodeUserPassword n @ ''@'')
     @ escape EncodeHost (url_Host u)
     @ (if url_RawQuery u = [] then [] else ''?'' @ url_RawQuery u)
     @ (if url_Fragment u = [] then [] else ''#'' @ escape EncodeFragment (url_Fragment u))"

section \<open>Round trips\<close>

lemma hex_val_upper [simp]: "d < 16 \<Longrightarrow> hex_val (upper_hex d) = Some d"
  by (auto simp: hex_val_def upper_hex_def digit_char_def of_char_of)

lemma pct_val_pct [simp]: "pct_val (upper_hex (of_char c div 16) # upper_hex (of_char c mod 16) # r) = Some (of_char c)"
proof -
  have "(of_char c :: nat) < 256" by simp
  then have "(of_char c :: nat) div 16 < 16" by linarith
  then show ?thesis by (simp add: pct_val_def)
qed

lemma alnum_plain [simp]: "is_alnum c \<Longrightarrow> \<not> shouldEscape c mode"
  by (simp add: shouldEscape_def)

lemma upper_hex_alnum [simp]: "d < 16 \<Longrightarrow> is_alnum (upper_hex d)"
  by (auto simp: is_alnum_def is_digit_def upper_hex_def digit_char_def of_char_of)

lemma escape_set:
  assumes "x \<in> set (escape mode s)"
  shows "\<not> shouldEscape x mode \<or> x = CHR ''%'' \<or> mode = EncodeQueryComponent \<and> x = CHR ''+''"
proof -
  from assms obtain c where x: "x \<in> set (escape_char mode c)" by (auto simp: escape_def)
  have "(of_char c :: nat) < 256" by simp
  then have "(of_char c :: nat) div 16 < 16" "(of_char c :: nat) mod 16 < 16" by linarith+
  then show ?thesis using x by (auto simp: escape_char_def pct_def split: if_splits)
qed

lemma escape_Nil [simp]: "escape mode [] = []"
  by (simp add: escape_def)

lemma escape_append [simp]: "escape mode (s @ t) = escape mode s @ escape mode t"
  by (simp add: escape_def)

definition survives :: "encoding \<Rightarrow> char \<Rightarrow> bool" where
  "survives mode c \<longleftrightarrow> \<not> shouldEscape c mode \<or> pct_allowed mode (of_char c)"

lemma unescape_escape_char:
  assumes "survives mode c"
  shows "unescape mode (escape_char mode c @ r) = map_option ((#) c) (unescape mode r)"
proof (cases "shouldEscape c mode")
  case False
  then have "c \<noteq> CHR ''%''" "c = CHR ''+'' \<Longrightarrow> mode \<noteq> EncodeQueryComponent" "plain_allowed mode c"
    by (auto simp: shouldEscape_def url_chars plain_allowed_def split: if_splits)
  then show ?thesis using False by (auto simp: escape_char_def)
next
  case True
  then have "pct_allowed mode (of_char c)" using assms by (simp add: survives_def)
  then show ?thesis using True by (auto simp: escape_char_def pct_def)
qed

lemma unescape_escape:
  assumes "list_all (survives mode) s"
  shows "unescape mode (escape mode s) = Some s"
  using assms by (induction s) (simp_all add: escape_def unescape_escape_char)


lemma survives_free [simp]:
  "mode \<noteq> EncodeHost \<Longrightarrow> mode \<noteq> EncodeZone \<Longrightarrow> survives mode c"
  by (cases mode) (simp_all add: survives_def pct_allowed_def)

lemma unescape_escape_free [simp]:
  "unescape EncodeUserPassword (escape EncodeUserPassword s) = Some s"
  "unescape EncodeQueryComponent (escape EncodeQueryComponent s) = Some s"
  "unescape EncodeFragment (escape EncodeFragment s) = Some s"
  by (simp_all add: unescape_escape list_all_iff)

lemma escape_free:
  "x \<noteq> CHR ''%'' \<Longrightarrow> x \<noteq> CHR ''+'' \<Longrightarrow> shouldEscape x mode \<Longrightarrow> x \<notin> set (escape mode s)"
  using escape_set by blast

lemma while_until [simp]:
  "d \<notin> set a \<Longrightarrow> takeWhile (\<lambda>c. c \<noteq> d) (a @ d # b) = a" "d \<notin> set a \<Longrightarrow> dropWhile (\<lambda>c. c \<noteq> d) (a @ d # b) = d # b"
  "d \<notin> set a \<Longrightarrow> takeWhile (\<lambda>c. c \<noteq> d) a = a" "d \<notin> set a \<Longrightarrow> dropWhile (\<lambda>c. c \<noteq> d) a = []"
  by (induction a) auto

lemma Cut_append [simp]: "d \<notin> set a \<Longrightarrow> Cut d (a @ d # b) = (a, b)"
  by (simp add: Cut_def)

lemma Cut_none [simp]: "d \<notin> set a \<Longrightarrow> Cut d a = (a, [])"
  by (simp add: Cut_def)

lemma cut_last_append [simp]: "d \<notin> set b \<Longrightarrow> cut_last d (a @ d # b) = Some (a, b)"
  by (simp add: cut_last_def)

lemma split_on_append [simp]:
  "d \<notin> set a \<Longrightarrow> split_on d (a @ d # b) = a # split_on d b"
  by (induction a) auto

lemma split_on_none [simp]: "d \<notin> set a \<Longrightarrow> split_on d a = [a]"
  by (induction a) auto

lemma join_Cons: "join sep (x # xs) = (if xs = [] then x else x @ sep @ join sep xs)"
  by (cases xs) (simp_all add: join_def)

lemma split_on_join:
  assumes "xs \<noteq> []" "\<And>x. x \<in> set xs \<Longrightarrow> d \<notin> set x"
  shows "split_on d (join [d] xs) = xs"
  using assms
proof (induction xs)
  case (Cons x xs)
  then show ?case by (cases "xs = []") (simp_all add: join_Cons)
qed simp

lemma encode_pair_free:
  "x \<in> set (encode_pair kv) \<Longrightarrow> x = CHR ''='' \<or> x = CHR ''%'' \<or> x = CHR ''+'' \<or> \<not> shouldEscape x EncodeQueryComponent"
  using escape_set by (auto simp: encode_pair_def)

lemma parse_pair_encode [simp]: "parse_pair (encode_pair kv) = Some kv"
proof -
  have "CHR '';'' \<notin> set (encode_pair kv)"
    using encode_pair_free [of "CHR '';''" kv] by (auto simp: shouldEscape_def url_chars)
  moreover have "CHR ''='' \<notin> set (escape EncodeQueryComponent (fst kv))"
    by (rule escape_free) (simp_all add: shouldEscape_def url_chars)
  ultimately show ?thesis by (simp add: parse_pair_def encode_pair_def)
qed

lemma ParseQuery_Encode:
  assumes "length q \<le> maxQueryParams"
  shows "ParseQuery (Encode_Values q) = sort_key fst q"
proof (cases "q = []")
  case True
  then show ?thesis by (simp add: ParseQuery_def Encode_Values_def join_def List.map_filter_def parse_pair_def maxQueryParams_def)
next
  case False
  have "CHR ''&'' \<notin> set x" if "x \<in> set (map encode_pair (sort_key fst q))" for x
    using that encode_pair_free [of "CHR ''&''"] by (auto simp: shouldEscape_def url_chars)
  then have s: "split_on (CHR ''&'') (Encode_Values q) = map encode_pair (sort_key fst q)"
    unfolding Encode_Values_def using False by (intro split_on_join) (auto simp: set_empty [symmetric] simp del: set_empty)
  have "List.map_filter parse_pair (map encode_pair kvs) = kvs" for kvs
    by (induction kvs) (simp_all add: List.map_filter_def)
  then show ?thesis using assms by (simp add: ParseQuery_def s)
qed

lemma Get_sort:
  assumes "distinct (map fst q)"
  shows "Get (sort_key fst q) = Get q"
proof -
  have "distinct (map fst (sort_key fst q))"
    using assms by (metis distinct_sort distinct_map set_sort)
  then have "map_of (sort_key fst q) = map_of q"
    using assms by (subst map_of_inject_set) simp_all
  then show ?thesis by (simp add: Get_def fun_eq_iff)
qed


subsection \<open>A URL with user, host and port\<close>

text \<open>What may stand in the host before the port, apart from an address in brackets.\<close>

definition host_char :: "char \<Rightarrow> bool" where
  "host_char c \<longleftrightarrow> survives EncodeHost c \<and> c \<noteq> CHR '':'' \<and> c \<noteq> CHR ''[''"

lemma escape_set_origin:
  assumes "x \<in> set (escape mode s)"
  shows "x \<in> set s \<or> x = CHR ''%'' \<or> x = CHR ''+'' \<or> is_alnum x"
proof -
  from assms obtain c where c: "c \<in> set s" and x: "x \<in> set (escape_char mode c)" by (auto simp: escape_def)
  have "(of_char c :: nat) < 256" by simp
  then have "(of_char c :: nat) div 16 < 16" "(of_char c :: nat) mod 16 < 16" by linarith+
  then show ?thesis using c x by (auto simp: escape_char_def pct_def split: if_splits)
qed

lemma escape_plain: "list_all (\<lambda>c. \<not> shouldEscape c mode) s \<Longrightarrow> escape mode s = s"
  by (induction s) (simp_all add: escape_def escape_char_def)

lemma digits_plain: "list_all is_digit s \<Longrightarrow> escape mode s = s"
  by (rule escape_plain) (auto simp: list_all_iff is_alnum_def)

lemma nat_str_not: "\<not> is_digit x \<Longrightarrow> x \<notin> set (nat_str n)"
  using nat_str_digits by blast

lemma nat_str_all: "list_all is_digit (nat_str n)"
  by (auto simp: list_all_iff dest: nat_str_digits)

lemma not_escaped:
  "\<not> shouldEscape c mode \<Longrightarrow>
     is_alnum c \<or> c \<in> set host_plain \<or> c \<in> set unreserved_marks \<or> c \<in> set reserved \<or> c \<in> set fragment_plain"
  by (auto simp: shouldEscape_def split: if_splits)

lemma plain_not_ctl:
  "list_all (\<lambda>c. \<not> ctl_byte c) (CHR ''%'' # CHR ''+'' # host_plain @ unreserved_marks @ reserved @ fragment_plain)"
  by (simp add: url_chars ctl_byte_def)

lemma ctl_not_alnum: "ctl_byte c \<Longrightarrow> \<not> is_alnum c"
  by (auto simp: ctl_byte_def is_alnum_def is_digit_def)

lemma escape_ctl: "c \<in> set (escape mode s) \<Longrightarrow> \<not> ctl_byte c"
  using escape_set [of c mode s] not_escaped [of c mode] plain_not_ctl ctl_not_alnum [of c]
  unfolding list_all_iff set_append set_simps by blast

lemma escape_no_ctl [simp]: "\<not> list_ex ctl_byte (escape mode s)"
  using escape_ctl by (auto simp: list_ex_iff)

lemma structure_escaped:
  "shouldEscape (CHR ''#'') mode" "mode \<noteq> EncodeFragment \<Longrightarrow> shouldEscape (CHR ''?'') mode"
  "mode = EncodeHost \<or> mode = EncodeUserPassword \<Longrightarrow> shouldEscape (CHR ''/'') mode \<and> shouldEscape (CHR ''@'') mode"
  "shouldEscape (CHR '':'') EncodeUserPassword"
  by (cases mode; simp add: shouldEscape_def url_chars)+

definition host_port :: "string \<Rightarrow> nat \<Rightarrow> string" where
  "host_port addr p = addr @ '':'' @ nat_str p"

lemma escape_host_port: "escape EncodeHost (host_port addr p) = escape EncodeHost addr @ CHR '':'' # nat_str p"
proof -
  have "escape EncodeHost '':'' = '':''"
    by (simp add: escape_def escape_char_def shouldEscape_def url_chars)
  then show ?thesis
    using digits_plain [OF nat_str_all, of EncodeHost p] escape_append [of EncodeHost "'':''" "nat_str p"]
    by (simp add: host_port_def)
qed

lemma parseHost_escape:
  assumes "list_all host_char addr"
  shows "parseHost (escape EncodeHost (host_port addr p)) = Some (host_port addr p)"
proof -
  let ?h = "escape EncodeHost (host_port addr p)"
  have digits: "CHR ''['' \<notin> set (nat_str p)" "CHR '':'' \<notin> set (nat_str p)"
    by (rule nat_str_not, simp add: is_digit_def)+
  have "CHR ''['' \<notin> set (escape EncodeHost addr)" "CHR '':'' \<notin> set (escape EncodeHost addr)"
    using assms escape_set_origin [of "CHR ''[''" EncodeHost addr] escape_set_origin [of "CHR '':''" EncodeHost addr]
    by (simp_all add: list_all_iff host_char_def is_alnum_def is_digit_def) blast+
  then have "CHR ''['' \<notin> set ?h" "dropWhile (\<lambda>c. c \<noteq> CHR '':'') ?h = CHR '':'' # nat_str p"
    using digits by (simp_all add: escape_host_port)
  moreover have "unescape EncodeHost ?h = Some (host_port addr p)"
  proof (rule unescape_escape)
    have "survives EncodeHost c" if "c \<in> set (nat_str p)" for c
      using nat_str_digits [OF that] by (simp add: survives_def is_alnum_def)
    moreover have "survives EncodeHost (CHR '':'')" by (simp add: survives_def shouldEscape_def url_chars)
    ultimately show "list_all (survives EncodeHost) (host_port addr p)"
      using assms by (auto simp: list_all_iff host_port_def host_char_def)
  qed
  ultimately show ?thesis using nat_str_all [of p] by (simp add: parseHost_def validOptionalPort_def)
qed

lemma not_escaped_user:
  "\<not> shouldEscape x EncodeUserPassword \<Longrightarrow>
     is_alnum x \<or> x \<in> set unreserved_marks \<or> (x \<in> set reserved \<and> x \<noteq> CHR ''@'' \<and> x \<noteq> CHR ''/'' \<and> x \<noteq> CHR ''?'')"
  by (simp add: shouldEscape_def split: if_splits)

lemma validUserinfo_escape: "validUserinfo (escape EncodeUserPassword s)"
proof -
  have m: "list_all (\<lambda>x. x \<in> set ''-._:~!$&()*+,;=%@'') (CHR ''%'' # unreserved_marks)"
    by (simp add: unreserved_marks_def)
  have r: "list_all (\<lambda>x. x \<in> set ''@/?-._:~!$&()*+,;=%@'') reserved"
    by (simp add: reserved_def)
  have "is_alnum x \<or> x \<in> set ''-._:~!$&()*+,;=%@''" if "x \<in> set (escape EncodeUserPassword s)" for x
  proof -
    from escape_set [OF that] consider "is_alnum x" | "x \<in> set (CHR ''%'' # unreserved_marks)"
      | "x \<in> set reserved" "x \<noteq> CHR ''@''" "x \<noteq> CHR ''/''" "x \<noteq> CHR ''?''"
      using not_escaped_user [of x] by simp metis
    then show ?thesis
    proof cases
      case 2
      then show ?thesis using m unfolding list_all_iff by blast
    next
      case 3
      then have "x \<in> set ''@/?-._:~!$&()*+,;=%@''" using r unfolding list_all_iff by blast
      then show ?thesis using 3(2-4) by simp
    qed simp
  qed
  then show ?thesis unfolding validUserinfo_def list_all_iff by blast
qed

lemma parseAuthority_escape:
  assumes "list_all host_char addr"
  shows "parseAuthority (escape EncodeUserPassword name @ CHR ''@'' # escape EncodeHost (host_port addr p)) =
    Some (Some name, host_port addr p)"
proof -
  have "CHR ''@'' \<notin> set (escape EncodeHost (host_port addr p))" "CHR '':'' \<notin> set (escape EncodeUserPassword name)"
    by (rule escape_free; simp add: structure_escaped)+
  then show ?thesis
    using assms by (simp add: parseAuthority_def parseHost_escape validUserinfo_escape)
qed

lemma url_Parse_String_parts:
  assumes "CHR ''#'' \<notin> set query" "\<not> list_ex ctl_byte query"
    and "CHR ''#'' \<notin> set scheme" "\<not> list_ex ctl_byte scheme"
  shows "url_Parse (length scheme + 3)
      (url_String scheme \<lparr> url_User = Some name, url_Host = host_port addr p, url_RawQuery = query, url_Fragment = frag \<rparr>) =
    map_option (\<lambda>(user, host). \<lparr> url_User = user, url_Host = host, url_RawQuery = query, url_Fragment = frag \<rparr>)
      (parseAuthority (escape EncodeUserPassword name @ CHR ''@'' # escape EncodeHost (host_port addr p)))"
proof -
  let ?a = "escape EncodeUserPassword name @ CHR ''@'' # escape EncodeHost (host_port addr p)"
  let ?q = "if query = [] then [] else CHR ''?'' # query"
  let ?u = "(scheme @ ''://'') @ ?a @ ?q"
  have sep: "CHR ''#'' \<notin> set ?a" "CHR ''?'' \<notin> set ?a" "CHR ''/'' \<notin> set ?a"
    using escape_free [of "CHR ''#''"] escape_free [of "CHR ''?''"] escape_free [of "CHR ''/''"]
    by (auto simp: structure_escaped)
  have c1: "Cut (CHR ''#'') (?u @ (if frag = [] then [] else CHR ''#'' # escape EncodeFragment frag)) =
      (?u, escape EncodeFragment frag)"
  proof (cases "frag = []")
    case True
    have "CHR ''#'' \<notin> set ?u" using sep assms by auto
    then show ?thesis using True by simp
  next
    case False
    have "CHR ''#'' \<notin> set ?u" using sep assms by auto
    then show ?thesis using False Cut_append [of "CHR ''#''" ?u] by simp
  qed
  have c2: "Cut (CHR ''?'') (?a @ ?q) = (?a, query)"
    using sep Cut_append [of "CHR ''?''" ?a query] Cut_none [of "CHR ''?''" ?a] by (cases "query = []") simp_all
  have d: "drop (length scheme + 3) ?u = ?a @ ?q" by simp
  have "\<not> list_ex ctl_byte ?u"
    using assms by (auto simp: list_ex_append ctl_byte_def)
  moreover have "url_String scheme \<lparr> url_User = Some name, url_Host = host_port addr p, url_RawQuery = query, url_Fragment = frag \<rparr> =
      ?u @ (if frag = [] then [] else CHR ''#'' # escape EncodeFragment frag)"
    by (simp add: url_String_def)
  ultimately show ?thesis
    unfolding url_Parse_def Let_def
    using sep(3) by (simp only: c1 d c2 prod.case while_until) (auto split: option.splits)
qed

lemma url_Parse_String:
  assumes "list_all host_char addr" "CHR ''#'' \<notin> set query" "\<not> list_ex ctl_byte query"
    and "CHR ''#'' \<notin> set scheme" "\<not> list_ex ctl_byte scheme"
  shows "url_Parse (length scheme + 3)
      (url_String scheme \<lparr> url_User = Some name, url_Host = host_port addr p, url_RawQuery = query, url_Fragment = frag \<rparr>) =
    Some \<lparr> url_User = Some name, url_Host = host_port addr p, url_RawQuery = query, url_Fragment = frag \<rparr>"
  using assms by (simp add: url_Parse_String_parts parseAuthority_escape)

lemma splitHostPort_host_port:
  assumes "list_all host_char addr" "addr \<noteq> []"
  shows "splitHostPort (host_port addr p) = (addr, nat_str p)"
proof -
  have "CHR '':'' \<notin> set (nat_str p)" by (rule nat_str_not) (simp add: is_digit_def)
  moreover have "\<not> HasPrefix addr ''[''"
    using assms by (cases addr) (auto simp: HasPrefix_def host_char_def)
  ultimately show ?thesis
    using nat_str_all [of p] by (simp add: splitHostPort_def host_port_def validOptionalPort_def)
qed

end
