(* ===== verification/Vless_URL.thy ===== *)
theory Vless_URL
  imports Configgen Net_URL
begin

text \<open>
  Share links, \<^verbatim>\<open>ParseURL\<close> and \<^verbatim>\<open>URL\<close> of \<^verbatim>\<open>internal/vless/url.go\<close>. A link carries a configuration as far as its
  security and its transport use it.
\<close>

section \<open>url.go\<close>

datatype url_error = BadScheme | BadURL | MissingUUID | MissingHostPort | InvalidPort string
  | UnknownSecurity string | UnknownTransport string

definition orDefault :: "string \<Rightarrow> string \<Rightarrow> string" where
  "orDefault s def = (if s = [] then def else s)"

definition splitCSV :: "string \<Rightarrow> string list" where
  "splitCSV s = filter (\<lambda>p. p \<noteq> []) (map TrimSpace (split_on (CHR '','') s))"

definition to_lower :: "char \<Rightarrow> char" where
  "to_lower c = (if 65 \<le> (of_char c :: nat) \<and> (of_char c :: nat) \<le> 90 then char_of ((of_char c :: nat) + 32) else c)"

text \<open>The part of the configuration that every link has.\<close>

definition link_config :: "string \<Rightarrow> 16 word \<Rightarrow> string \<Rightarrow> string \<Rightarrow> Values \<Rightarrow> Security \<Rightarrow> Transport \<Rightarrow> Config" where
  "link_config host port user fragment q sec tr =
     zero_Config
       \<lparr> v_Address := host, v_Port := port, v_UUID := user, v_Flow := Get q ''flow'',
         v_Encryption := orDefault (Get q ''encryption'') ''none'', v_Remark := fragment, v_Security := sec,
         v_SNI := Get q ''sni'', v_Fingerprint := Get q ''fp'', v_Transport := tr,
         v_ALPN := (if Get q ''alpn'' \<noteq> [] then splitCSV (Get q ''alpn'') else []),
         v_AllowInsecure := (Get q ''allowInsecure'' = ''1'' \<or> map to_lower (Get q ''allowInsecure'') = ''true'') \<rparr>"

definition link_security :: "Values \<Rightarrow> Config \<Rightarrow> Config" where
  "link_security q c =
     (if v_Security c = SecurityReality
      then c \<lparr> v_RealityPublicKey := Get q ''pbk'', v_RealityShortID := Get q ''sid'', v_RealitySpiderX := Get q ''spx'' \<rparr>
      else c)"

definition link_transport :: "Values \<Rightarrow> Config \<Rightarrow> Config" where
  "link_transport q c =
     (let tr = v_Transport c in
      if tr = TransportWS \<or> tr = TransportHTTPUpgrade then c \<lparr> v_Path := Get q ''path'', v_WSHost := Get q ''host'' \<rparr>
      else if tr = TransportGRPC then c \<lparr> v_GRPCServiceName := Get q ''serviceName'', v_GRPCMode := Get q ''mode'' \<rparr>
      else if tr = TransportXHTTP
        then c \<lparr> v_Path := Get q ''path'', v_XHTTPMode := Get q ''mode'', v_WSHost := Get q ''host'' \<rparr>
      else if tr = TransportTCP then c \<lparr> v_HeaderType := Get q ''headerType'' \<rparr>
      else if tr = TransportMKCP then c \<lparr> v_HeaderType := Get q ''headerType'', v_Seed := Get q ''seed'' \<rparr>
      else if tr = TransportQUIC then c \<lparr> v_QUICSec := Get q ''quicSecurity'', v_QUICKey := Get q ''key'' \<rparr>
      else c)"

definition ParseURL :: "string \<Rightarrow> url_error + Config" where
  "ParseURL raw =
     (if \<not> HasPrefix raw ''vless://'' then Inl BadScheme
      else case url_Parse 8 raw of
        None \<Rightarrow> Inl BadURL
      | Some u \<Rightarrow>
          (case url_User u of
             None \<Rightarrow> Inl MissingUUID
           | Some user \<Rightarrow>
               (if user = [] then Inl MissingUUID
                else let (host, portStr) = splitHostPort (url_Host u) in
                  if host = [] \<or> portStr = [] then Inl MissingHostPort
                  else case ParseInt64 portStr of
                    None \<Rightarrow> Inl (InvalidPort portStr)
                  | Some portNum \<Rightarrow>
                      (if portNum < 1 \<or> 65535 < portNum then Inl (InvalidPort portStr)
                       else let q = ParseQuery (url_RawQuery u);
                                (sec, ok) = ParseSecurity (Get q ''security'');
                                (tr, ok') = ParseTransport (Get q ''type'')
                         in if \<not> ok then Inl (UnknownSecurity (Get q ''security''))
                            else if \<not> ok' then Inl (UnknownTransport (Get q ''type''))
                            else Inr (link_transport q (link_security q
                                   (link_config host (word_of_int portNum) user (url_Fragment u) q sec tr)))))))"

text \<open>\<^verbatim>\<open>if v != "" { q.Set(k, v) }\<close>\<close>

definition opt :: "string \<Rightarrow> string \<Rightarrow> Values" where
  "opt k v = (if v = [] then [] else [(k, v)])"

definition transport_values :: "Config \<Rightarrow> Values" where
  "transport_values c =
     (let tr = v_Transport c in
      if tr = TransportWS \<or> tr = TransportHTTPUpgrade then opt ''path'' (v_Path c) @ opt ''host'' (v_WSHost c)
      else if tr = TransportGRPC then opt ''serviceName'' (v_GRPCServiceName c) @ opt ''mode'' (v_GRPCMode c)
      else if tr = TransportXHTTP then opt ''path'' (v_Path c) @ opt ''mode'' (v_XHTTPMode c) @ opt ''host'' (v_WSHost c)
      else if tr = TransportTCP then opt ''headerType'' (v_HeaderType c)
      else if tr = TransportMKCP then opt ''headerType'' (v_HeaderType c) @ opt ''seed'' (v_Seed c)
      else if tr = TransportQUIC then opt ''quicSecurity'' (v_QUICSec c) @ opt ''key'' (v_QUICKey c)
      else [])"

definition link_values :: "Config \<Rightarrow> Values" where
  "link_values c =
     opt ''flow'' (v_Flow c) @ opt ''encryption'' (v_Encryption c) @ [(''security'', Security_String (v_Security c))]
     @ opt ''sni'' (v_SNI c) @ (if v_ALPN c \<noteq> [] then [(''alpn'', join '','' (v_ALPN c))] else []) @ opt ''fp'' (v_Fingerprint c)
     @ (if v_AllowInsecure c then [(''allowInsecure'', ''1'')] else [])
     @ (if v_Security c = SecurityReality
        then opt ''pbk'' (v_RealityPublicKey c) @ opt ''sid'' (v_RealityShortID c) @ opt ''spx'' (v_RealitySpiderX c) else [])
     @ [(''type'', Transport_String (v_Transport c))] @ transport_values c"

definition Config_URL :: "Config \<Rightarrow> string" where
  "Config_URL c =
     url_String ''vless''
       \<lparr> url_User = Some (v_UUID c), url_Host = host_port (v_Address c) (unat (v_Port c)),
         url_RawQuery = Encode_Values (link_values c), url_Fragment = v_Remark c \<rparr>"

section \<open>Round trip\<close>

definition security_ok :: "Security \<Rightarrow> bool" where
  "security_ok s \<longleftrightarrow> s = SecurityNone \<or> s = SecurityTLS \<or> s = SecurityReality"

definition transport_ok :: "Transport \<Rightarrow> bool" where
  "transport_ok t \<longleftrightarrow> t = TransportTCP \<or> t = TransportWS \<or> t = TransportGRPC \<or> t = TransportHTTPUpgrade
     \<or> t = TransportXHTTP \<or> t = TransportMKCP \<or> t = TransportQUIC"

definition alpn_ok :: "string \<Rightarrow> bool" where
  "alpn_ok p \<longleftrightarrow> p \<noteq> [] \<and> TrimSpace p = p \<and> CHR '','' \<notin> set p"

text \<open>A configuration that a link can carry.\<close>

definition linkable :: "Config \<Rightarrow> bool" where
  "linkable c \<longleftrightarrow> v_UUID c \<noteq> [] \<and> v_Address c \<noteq> [] \<and> list_all host_char (v_Address c) \<and> v_Port c \<noteq> 0 \<and>
     security_ok (v_Security c) \<and> transport_ok (v_Transport c) \<and> list_all alpn_ok (v_ALPN c)"

text \<open>
  What a link carries of it: the fields that \<^verbatim>\<open>URL\<close> writes whatever the security and the transport, those it writes
  only for this security (REALITY's) and those it writes only for this transport; the encryption with its default. QUIC's
  header type is not among them.
\<close>

definition link_part :: "Config \<Rightarrow> Config" where
  "link_part c =
     (let r = (v_Security c = SecurityReality); tr = v_Transport c in
      c \<lparr> v_Encryption := orDefault (v_Encryption c) ''none'',
          v_RealityPublicKey := (if r then v_RealityPublicKey c else []),
          v_RealityShortID := (if r then v_RealityShortID c else []),
          v_RealitySpiderX := (if r then v_RealitySpiderX c else []),
          v_Path := (if tr \<in> {TransportWS, TransportHTTPUpgrade, TransportXHTTP} then v_Path c else []),
          v_WSHost := (if tr \<in> {TransportWS, TransportHTTPUpgrade, TransportXHTTP} then v_WSHost c else []),
          v_GRPCServiceName := (if tr = TransportGRPC then v_GRPCServiceName c else []),
          v_GRPCMode := (if tr = TransportGRPC then v_GRPCMode c else []),
          v_XHTTPMode := (if tr = TransportXHTTP then v_XHTTPMode c else []),
          v_HeaderType := (if tr \<in> {TransportTCP, TransportMKCP} then v_HeaderType c else []),
          v_Seed := (if tr = TransportMKCP then v_Seed c else []),
          v_QUICSec := (if tr = TransportQUIC then v_QUICSec c else []),
          v_QUICKey := (if tr = TransportQUIC then v_QUICKey c else []) \<rparr>)"

lemma Get_Nil [simp]: "Get [] k = []"
  by (simp add: Get_def)

lemma Get_Cons [simp]: "Get ((k', v) # q) k = (if k' = k then v else Get q k)"
  by (simp add: Get_def)

lemma Get_opt [simp]: "Get (opt k' v @ q) k = (if k' = k \<and> v \<noteq> [] then v else Get q k)"
  by (simp add: opt_def)

lemma Get_opt_single [simp]: "Get (opt k' v) k = (if k' = k then v else [])"
  by (simp add: opt_def)

lemma splitCSV_join:
  assumes "list_all alpn_ok xs" "xs \<noteq> []"
  shows "splitCSV (join '','' xs) = xs" "join '','' xs \<noteq> []"
proof -
  have "split_on (CHR '','') (join '','' xs) = xs"
    using assms by (intro split_on_join) (auto simp: list_all_iff alpn_ok_def)
  moreover have "map TrimSpace xs = xs" "filter (\<lambda>p. p \<noteq> []) xs = xs"
    using assms by (auto simp: list_all_iff alpn_ok_def intro: map_idI filter_True)
  ultimately show "splitCSV (join '','' xs) = xs" by (simp add: splitCSV_def)
  show "join '','' xs \<noteq> []" using assms by (cases xs) (auto simp: join_def alpn_ok_def)
qed


lemma Get_if [simp]: "Get ((if b then xs else []) @ ys) k = (if b then Get (xs @ ys) k else Get ys k)"
  by simp

lemma Get_link_common:
  "Get (link_values c) ''flow'' = v_Flow c" "Get (link_values c) ''encryption'' = v_Encryption c"
  "Get (link_values c) ''security'' = Security_String (v_Security c)" "Get (link_values c) ''sni'' = v_SNI c"
  "Get (link_values c) ''alpn'' = (if v_ALPN c \<noteq> [] then join '','' (v_ALPN c) else [])"
  "Get (link_values c) ''fp'' = v_Fingerprint c"
  "Get (link_values c) ''allowInsecure'' = (if v_AllowInsecure c then ''1'' else [])"
  "Get (link_values c) ''type'' = Transport_String (v_Transport c)"
  by (simp_all add: link_values_def transport_values_def Let_def)

lemma Get_link_reality:
  assumes "v_Security c = SecurityReality"
  shows "Get (link_values c) ''pbk'' = v_RealityPublicKey c" "Get (link_values c) ''sid'' = v_RealityShortID c"
    "Get (link_values c) ''spx'' = v_RealitySpiderX c"
  using assms by (simp_all add: link_values_def transport_values_def Let_def)

lemma Get_link_transport:
  assumes "k \<in> {''path'', ''host'', ''serviceName'', ''mode'', ''headerType'', ''seed'', ''quicSecurity'', ''key''}"
  shows "Get (link_values c) k = Get (transport_values c) k"
  using assms by (elim insertE emptyE) (simp_all add: link_values_def)

lemma link_transport_values:
  assumes "\<And>k. k \<in> {''path'', ''host'', ''serviceName'', ''mode'', ''headerType'', ''seed'', ''quicSecurity'', ''key''} \<Longrightarrow>
      Get q k = Get (transport_values c) k"
    and "transport_ok (v_Transport c)" "v_Transport d = v_Transport c"
    and "v_Path d = []" "v_WSHost d = []" "v_GRPCServiceName d = []" "v_GRPCMode d = []" "v_XHTTPMode d = []"
      "v_HeaderType d = []" "v_Seed d = []" "v_QUICSec d = []" "v_QUICKey d = []"
  shows "link_transport q d = d
     \<lparr> v_Path := v_Path (link_part c), v_WSHost := v_WSHost (link_part c), v_GRPCServiceName := v_GRPCServiceName (link_part c),
       v_GRPCMode := v_GRPCMode (link_part c), v_XHTTPMode := v_XHTTPMode (link_part c),
       v_HeaderType := v_HeaderType (link_part c), v_Seed := v_Seed (link_part c), v_QUICSec := v_QUICSec (link_part c),
       v_QUICKey := v_QUICKey (link_part c) \<rparr>"
proof -
  have g: "Get q ''path'' = Get (transport_values c) ''path''" "Get q ''host'' = Get (transport_values c) ''host''"
    "Get q ''serviceName'' = Get (transport_values c) ''serviceName''" "Get q ''mode'' = Get (transport_values c) ''mode''"
    "Get q ''headerType'' = Get (transport_values c) ''headerType''" "Get q ''seed'' = Get (transport_values c) ''seed''"
    "Get q ''quicSecurity'' = Get (transport_values c) ''quicSecurity''" "Get q ''key'' = Get (transport_values c) ''key''"
    by (rule assms(1), simp)+
  note d = link_transport_def link_part_def transport_values_def Let_def transport_defs g assms(3-)
  from assms(2) consider "v_Transport c = TransportTCP" | "v_Transport c = TransportWS" | "v_Transport c = TransportGRPC"
    | "v_Transport c = TransportHTTPUpgrade" | "v_Transport c = TransportXHTTP" | "v_Transport c = TransportMKCP"
    | "v_Transport c = TransportQUIC"
    unfolding transport_ok_def by blast
  then show ?thesis by cases (simp_all add: d)
qed

definition key_order :: "string list" where
  "key_order = [''flow'', ''encryption'', ''security'', ''sni'', ''alpn'', ''fp'', ''allowInsecure'', ''pbk'', ''sid'', ''spx'', ''type'']"

lemma subseq_opt: "subseq (map fst (opt k v)) [k]"
  by (simp add: opt_def)

lemma link_keys:
  "subseq (map fst (link_values c)) (key_order @ map fst (transport_values c))"
proof -
  have r: "subseq (map fst (if v_Security c = SecurityReality
        then opt ''pbk'' (v_RealityPublicKey c) @ opt ''sid'' (v_RealityShortID c) @ opt ''spx'' (v_RealitySpiderX c) else []))
      ([''pbk''] @ [''sid''] @ [''spx''])"
    by (simp only: if_distrib [of "map fst"] map_append split: if_split)
      (intro conjI impI list_emb_append_mono subseq_opt; simp)
  have "subseq (map fst (link_values c))
    ([''flow''] @ [''encryption''] @ [''security''] @ [''sni''] @ [''alpn''] @ [''fp''] @ [''allowInsecure''] @
      ([''pbk''] @ [''sid''] @ [''spx'']) @ [''type''] @ map fst (transport_values c))"
    unfolding link_values_def map_append
    by (intro list_emb_append_mono subseq_opt r) (simp_all)
  then show ?thesis by (simp add: key_order_def)
qed

lemma transport_keys: "distinct (map fst (transport_values c))"
  "set (map fst (transport_values c)) \<subseteq> {''path'', ''host'', ''serviceName'', ''mode'', ''headerType'', ''seed'', ''quicSecurity'', ''key''}"
  by (auto simp: transport_values_def opt_def Let_def)

lemma transport_values_length: "length (transport_values c) \<le> 3"
  by (simp add: transport_values_def opt_def Let_def)

lemma link_keys_distinct: "distinct (map fst (link_values c))"
proof -
  have "set key_order \<inter> {''path'', ''host'', ''serviceName'', ''mode'', ''headerType'', ''seed'', ''quicSecurity'', ''key''} = {}"
    by (simp add: key_order_def)
  then have "distinct (key_order @ map fst (transport_values c))"
    using transport_keys [of c] by (auto simp: key_order_def)
  then show ?thesis using link_keys [of c] by (metis subseq_conv_nths distinct_nthsI)
qed

lemma link_values_length: "length (link_values c) \<le> maxQueryParams"
  using list_emb_length [OF link_keys [of c]] transport_values_length [of c] by (simp add: key_order_def maxQueryParams_def)

lemma link_query: "Get (ParseQuery (Encode_Values (link_values c))) = Get (link_values c)"
  by (simp add: ParseQuery_Encode link_values_length Get_sort link_keys_distinct)

lemma join_set: "x \<in> set (join sep xs) \<Longrightarrow> x \<in> set sep \<or> (\<exists>y \<in> set xs. x \<in> set y)"
  by (cases xs) (auto simp: join_def split: if_splits)

lemma Encode_no_structure:
  "CHR ''#'' \<notin> set (Encode_Values q)" "\<not> list_ex ctl_byte (Encode_Values q)"
proof -
  have e: "x = CHR ''&'' \<or> x = CHR ''='' \<or> (\<exists>t. x \<in> set (escape EncodeQueryComponent t))" if "x \<in> set (Encode_Values q)" for x
    using join_set [OF that [unfolded Encode_Values_def]] by (auto simp: encode_pair_def)
  show "CHR ''#'' \<notin> set (Encode_Values q)"
    using e [of "CHR ''#''"] escape_free [of "CHR ''#''" EncodeQueryComponent] structure_escaped(1) by auto
  show "\<not> list_ex ctl_byte (Encode_Values q)"
  proof
    assume "list_ex ctl_byte (Encode_Values q)"
    then obtain x where "x \<in> set (Encode_Values q)" "ctl_byte x" by (auto simp: list_ex_iff)
    then show False using e [of x] escape_ctl [of x EncodeQueryComponent] by (auto simp: ctl_byte_def)
  qed
qed

lemma security_round_trip: "security_ok s \<Longrightarrow> ParseSecurity (Security_String s) = (s, True)"
  by (auto simp: security_ok_def ParseSecurity_def Security_String_def security_defs)

lemma transport_round_trip: "transport_ok t \<Longrightarrow> ParseTransport (Transport_String t) = (t, True)"
  by (auto simp: transport_ok_def ParseTransport_def Transport_String_def transport_defs)

lemma link_fields:
  assumes "Get q = Get (link_values c)" "transport_ok (v_Transport c)" "list_all alpn_ok (v_ALPN c)"
  shows "link_transport q (link_security q (link_config (v_Address c) (v_Port c) (v_UUID c) (v_Remark c) q (v_Security c) (v_Transport c)))
    = link_part c"
proof -
  let ?d = "link_security q (link_config (v_Address c) (v_Port c) (v_UUID c) (v_Remark c) q (v_Security c) (v_Transport c))"
  have a: "(if v_ALPN c \<noteq> [] then splitCSV (join '','' (v_ALPN c)) else []) = v_ALPN c"
    using splitCSV_join [OF assms(3)] by simp
  have "?d = zero_Config \<lparr> v_Address := v_Address c, v_Port := v_Port c, v_UUID := v_UUID c, v_Flow := v_Flow c,
      v_Encryption := orDefault (v_Encryption c) ''none'', v_Remark := v_Remark c, v_Security := v_Security c, v_SNI := v_SNI c,
      v_Fingerprint := v_Fingerprint c, v_Transport := v_Transport c, v_ALPN := v_ALPN c, v_AllowInsecure := v_AllowInsecure c,
      v_RealityPublicKey := v_RealityPublicKey (link_part c), v_RealityShortID := v_RealityShortID (link_part c),
      v_RealitySpiderX := v_RealitySpiderX (link_part c) \<rparr>"
    using a splitCSV_join [OF assms(3)]
    by (simp add: link_security_def link_config_def assms(1) Get_link_common Get_link_reality link_part_def Let_def zero_Config_def)
  then show ?thesis
    by (subst link_transport_values [OF _ assms(2)])
      (simp_all add: assms(1) Get_link_transport zero_Config_def, simp add: link_part_def Let_def)
qed

lemma link_reads_back:
  assumes "linkable c"
  shows "ParseURL (Config_URL c) = Inr (link_part c)"
proof -
  let ?u = "\<lparr> url_User = Some (v_UUID c), url_Host = host_port (v_Address c) (unat (v_Port c)),
         url_RawQuery = Encode_Values (link_values c), url_Fragment = v_Remark c \<rparr>"
  let ?q = "ParseQuery (url_RawQuery ?u)"
  note w = assms [unfolded linkable_def]
  have p: "url_Parse 8 (Config_URL c) = Some ?u"
    using url_Parse_String [of "v_Address c" "Encode_Values (link_values c)" "''vless''"] w
    by (simp add: Config_URL_def Encode_no_structure ctl_byte_def)
  have h: "HasPrefix (Config_URL c) ''vless://''"
    by (simp add: Config_URL_def url_String_def HasPrefix_def)
  have port: "0 < unat (v_Port c)" "unat (v_Port c) \<le> 65535"
    using w unsigned_less [of "v_Port c", where ?'a = nat] by (simp_all add: unat_gt_0)
  then have n: "ParseInt64 (nat_str (unat (v_Port c))) = Some (int (unat (v_Port c)))"
    by (intro ParseInt64_nat_str) simp
  have port': "\<not> uint (v_Port c) < 1" "\<not> 65535 < uint (v_Port c)"
    using port unfolding uint_nat by linarith+
  have hp: "splitHostPort (url_Host ?u) = (v_Address c, nat_str (unat (v_Port c)))"
    using w by (simp add: splitHostPort_host_port)
  have "ParseURL (Config_URL c) = Inr (link_transport ?q (link_security ?q
      (link_config (v_Address c) (word_of_int (int (unat (v_Port c)))) (v_UUID c) (v_Remark c) ?q (v_Security c) (v_Transport c))))"
    unfolding ParseURL_def using h p n hp port' w
    by (simp add: Let_def link_query Get_link_common security_round_trip transport_round_trip)
  also have "\<dots> = Inr (link_part c)"
    using w link_fields by (simp add: link_query)
  finally show ?thesis .
qed


text \<open>
  The outbound that \<^verbatim>\<open>buildStream\<close> makes of the part in the link is that of the whole configuration, unless the
  transport is QUIC and has a header type: \<^verbatim>\<open>buildStream\<close> uses that one and the link does not have it.
\<close>

definition quic_header :: "Config \<Rightarrow> bool" where
  "quic_header c \<longleftrightarrow> v_Transport c = TransportQUIC \<and> v_HeaderType c \<notin> {[], ''none''}"

lemma link_part_settings:
  "tls_settings (link_part c) = tls_settings c"
  "v_Security c = SecurityReality \<Longrightarrow> reality_settings (link_part c) = reality_settings c"
  by (simp_all add: tls_settings_def reality_settings_def link_part_def Let_def)

lemma link_part_security: "stream_security (link_part c) = stream_security c"
proof
  fix ss
  have "v_Security (link_part c) = v_Security c" by (simp add: link_part_def Let_def)
  then show "stream_security (link_part c) ss = stream_security c ss"
    unfolding stream_security_def by (simp add: link_part_settings)
qed

lemma link_part_transport: "\<not> quic_header c \<Longrightarrow> stream_transport (link_part c) = stream_transport c"
  by (rule ext) (auto simp: stream_transport_def link_part_def quic_header_def orDefaultStr_def transport_defs Let_def)

lemma link_part_outbound:
  assumes "\<not> quic_header c"
  shows "xray_outbound \<lparr> x_Server = link_part c, x_SocksPort = n, x_ServerIP = ip \<rparr> =
    xray_outbound \<lparr> x_Server = c, x_SocksPort = n, x_ServerIP = ip \<rparr>"
proof -
  have "buildStream (link_part c) = buildStream c"
    using assms by (simp add: buildStream_def link_part_security link_part_transport) (simp add: link_part_def Let_def)
  then show ?thesis by (simp add: xray_outbound_def link_part_def orDefaultStr_def orDefault_def Let_def)
qed

text \<open>
  C13. The link written for a configuration that a link can carry (user and address not empty, the address made of
  characters of a host name, so not an IPv6 address, a port, a known security and transport, the ALPN protocols trimmed
  and without commas) is accepted and reads back as what the link carries of it, for any bytes in its texts. Both make
  Xray's outbound the same, address to dial included, unless the transport is QUIC with a header type other than
  \<^verbatim>\<open>none\<close>.
\<close>

theorem ParseURL_URL:
  assumes "linkable c"
  shows "ParseURL (Config_URL c) = Inr (link_part c) \<and>
    (v_Transport c \<noteq> TransportQUIC \<or> v_HeaderType c \<in> {[], ''none''} \<longrightarrow>
      (\<forall>n ip. xray_outbound \<lparr> x_Server = link_part c, x_SocksPort = n, x_ServerIP = ip \<rparr> =
        xray_outbound \<lparr> x_Server = c, x_SocksPort = n, x_ServerIP = ip \<rparr>))"
  using link_reads_back [OF assms] link_part_outbound [of c] by (auto simp: quic_header_def)

text \<open>
  For QUIC with a header type the link read back gives an outbound with another header, \<^verbatim>\<open>none\<close>, and the server no
  longer understands the connection.
\<close>

theorem quic_header_lost:
  assumes "linkable c" "quic_header c"
  shows "\<exists>d. ParseURL (Config_URL c) = Inr d \<and> v_HeaderType d = [] \<and> buildStream d \<noteq> buildStream c"
proof (intro exI conjI)
  show "ParseURL (Config_URL c) = Inr (link_part c)" using assms(1) by (rule link_reads_back)
  have t: "v_Transport c = TransportQUIC" "v_HeaderType c \<noteq> []" "v_HeaderType c \<noteq> ''none''"
    using assms(2) by (auto simp: quic_header_def)
  then show h: "v_HeaderType (link_part c) = []" by (simp add: link_part_def transport_defs Let_def)
  have q: "jget (buildStream d) ''quicSettings'' = Some (JObj [(''security'', JStr (v_QUICSec d)), (''key'', JStr (v_QUICKey d)),
      (''header'', JObj [(''type'', JStr (orDefaultStr (v_HeaderType d) ''none''))])])" if "v_Transport d = TransportQUIC" for d
    using that by (simp add: buildStream_def stream_transport_def stream_security_def transport_defs)
  have "v_Transport (link_part c) = TransportQUIC" using t by (simp add: link_part_def Let_def)
  then show "buildStream (link_part c) \<noteq> buildStream c"
    using q [OF t(1)] q [of "link_part c"] t h by (auto simp: orDefaultStr_def)
qed

section \<open>What a parsed link looks like\<close>

lemma TrimSpace_idem [simp]: "TrimSpace (TrimSpace s) = TrimSpace s"
proof -
  let ?l = "strip_seqs space_seqs s"
  let ?r = "strip_seqs (map rev space_seqs) (rev ?l)"
  have "suffix ?r (rev ?l)" by (rule strip_seqs_suffix)
  then have p: "prefix (rev ?r) ?l" by (simp add: suffix_to_prefix)
  have "strip_seqs space_seqs (rev ?r) = rev ?r"
  proof (rule strip_seqs_id)
    fix w assume "w \<in> set space_seqs" "w \<noteq> []"
    then have "\<not> prefix w ?l" using strip_seqs_clean by (metis HasPrefix_prefix)
    then show "\<not> HasPrefix (rev ?r) w" using p by (metis HasPrefix_prefix prefix_order.order_trans)
  qed
  then show ?thesis by (simp add: TrimSpace_def)
qed

lemma TrimSpace_set: "set (TrimSpace s) \<subseteq> set s"
proof -
  have "suffix (strip_seqs (map rev space_seqs) (rev (strip_seqs space_seqs s))) (rev (strip_seqs space_seqs s))"
    "suffix (strip_seqs space_seqs s) s" by (rule strip_seqs_suffix)+
  then show ?thesis unfolding TrimSpace_def by (metis set_mono_suffix set_rev subset_trans)
qed

lemma split_on_no_sep: "p \<in> set (split_on d s) \<Longrightarrow> d \<notin> set p"
  by (induction d s arbitrary: p rule: split_on.induct) (auto split: if_splits list.splits)

lemma splitCSV_ok: "list_all alpn_ok (splitCSV s)"
  using TrimSpace_set split_on_no_sep [of _ "CHR '',''" s] by (auto simp: splitCSV_def list_all_iff alpn_ok_def)

lemma unescape_host_survives:
  "unescape EncodeHost h = Some s \<Longrightarrow> list_all (survives EncodeHost) s \<and> (CHR ''['' \<in> set s \<longrightarrow> CHR ''['' \<in> set h)"
proof (induction EncodeHost h arbitrary: s rule: unescape.induct)
  case (2 c h)
  show ?case
  proof (cases "c = CHR ''%''")
    case True
    with 2(4) obtain v t where v: "pct_val h = Some v" "pct_allowed EncodeHost v" "unescape EncodeHost (drop 2 h) = Some t"
        "s = char_of v # t" by (auto split: option.splits if_splits)
    have "v < 256" using v(1) by (auto simp: pct_val_def hex_val_def split: list.splits option.splits if_splits)
    then have "of_char (char_of v :: char) = v" by (simp add: of_char_of)
    moreover have "(of_char (CHR ''['') :: nat) = 91" by simp
    ultimately have "char_of v \<noteq> CHR ''[''" using v(2) by (auto simp: pct_allowed_def simp del: of_char_of)
    moreover have "survives EncodeHost (char_of v)"
      using v(2) \<open>of_char (char_of v :: char) = v\<close> by (simp add: survives_def)
    moreover have "set (drop 2 h) \<subseteq> set h" by (rule set_drop_subset)
    moreover note 2(1) [OF True v(1,2,3)]
    ultimately show ?thesis using v(4) True by auto
  next
    case False
    then obtain t where t: "unescape EncodeHost h = Some t" "s = c # t" "c = CHR ''+'' \<or> plain_allowed EncodeHost c"
      using 2(4) by (auto split: if_splits)
    have "survives EncodeHost c"
    proof -
      have "\<not> shouldEscape (CHR ''+'') EncodeHost" by (simp add: shouldEscape_def host_plain_def)
      then show ?thesis using t(3) by (auto simp: survives_def plain_allowed_def pct_allowed_def)
    qed
    moreover have "list_all (survives EncodeHost) t \<and> (CHR ''['' \<in> set t \<longrightarrow> CHR ''['' \<in> set h)"
      using 2(2) [OF False _ t(1)] 2(3) [OF False _ _ t(1)] t(3) by blast
    ultimately show ?thesis using t(2) by auto
  qed
qed simp


lemma cut_last_Some: "cut_last d s = Some (a, b) \<Longrightarrow> s = a @ d # b \<and> d \<notin> set b"
proof -
  assume a: "cut_last d s = Some (a, b)"
  then have d: "d \<in> set s" by (simp add: cut_last_def split: if_splits)
  obtain p q where s: "s = p @ d # q" "d \<notin> set q" using split_list_last [OF d] by blast
  then show ?thesis using a by simp
qed

lemma ParseAddr_V6_colon: "ParseAddr t = Some V6 \<Longrightarrow> CHR '':'' \<in> set t"
  by (auto simp: ParseAddr_def find_Some_iff split: if_splits option.splits) (metis nth_mem)+

lemma ip_literal_colon: "ip_literal a \<Longrightarrow> CHR '':'' \<in> set a"
  using ParseAddr_V6_colon set_takeWhileD unfolding ip_literal_def by metis

lemma parsed_address:
  assumes "parseHost h = Some host" "splitHostPort host = (addr, portStr)" "portStr \<noteq> []" "CHR '':'' \<notin> set addr"
  shows "list_all host_char addr"
proof (cases "CHR ''['' \<in> set h")
  case True
  with assms(1) obtain a colonPort where a: "host = ''['' @ a @ '']'' @ colonPort" "ip_literal a" "validOptionalPort colonPort"
    by (auto simp: parseHost_def split: if_splits option.splits)
  show ?thesis
  proof (cases "cut_last (CHR '':'') host")
    case None
    then show ?thesis using assms by (simp add: splitHostPort_def)
  next
    case (Some hp)
    obtain x y where hp: "hp = (x, y)" by (cases hp)
    note c = cut_last_Some [OF Some [unfolded hp]]
    show ?thesis
    proof (cases colonPort)
      case Nil
      then have "last host = CHR '']''" using a(1) by simp
      moreover have "last host = (if y = [] then CHR '':'' else last y)" using c by simp
      ultimately have "y \<noteq> []" "CHR '']'' \<in> set y" by (auto split: if_splits) (metis last_in_set)
      moreover have "\<not> is_digit (CHR '']'')" by (simp add: is_digit_def)
      ultimately have "y \<noteq> []" "\<not> list_all is_digit y" by (auto simp: list_all_iff)
      then show ?thesis using assms(2,3) Some hp by (simp add: splitHostPort_def validOptionalPort_def)
    next
      case (Cons k ds)
      then have ds: "k = CHR '':''" "list_all is_digit ds" using a(3) by (simp_all add: validOptionalPort_def)
      then have "CHR '':'' \<notin> set ds" by (auto simp: list_all_iff is_digit_def)
      then have "cut_last (CHR '':'') host = Some (''['' @ a @ '']'', ds)"
        using cut_last_append [of "CHR '':''" ds "''['' @ a @ '']''"] a(1) Cons ds(1) by simp
      then have "addr = a" using assms(2) ds(2) by (simp add: splitHostPort_def validOptionalPort_def HasPrefix_def)
      then show ?thesis using ip_literal_colon [OF a(2)] assms(4) by simp
    qed
  qed
next
  case False
  with assms(1) have u: "unescape EncodeHost h = Some host" by (auto simp: parseHost_def split: if_splits)
  note s = unescape_host_survives [OF u]
  have "set addr \<subseteq> set host"
  proof -
    have "\<not> HasPrefix x ''[''" if "set x \<subseteq> set host" for x
      using that s False by (cases x) (auto simp: HasPrefix_def)
    moreover have "set x \<subseteq> set host" if "cut_last (CHR '':'') host = Some (x, y)" for x y
      using cut_last_Some [OF that] by auto
    ultimately show ?thesis
      using assms(2) by (auto simp: splitHostPort_def split: option.splits prod.splits if_splits)
  qed
  then show ?thesis using s False assms(4) by (auto simp: list_all_iff host_char_def)
qed


lemma link_config_fields [simp]:
  "v_Address (link_transport q (link_security q (link_config host port user frag q sec tr))) = host"
  "v_Port (link_transport q (link_security q (link_config host port user frag q sec tr))) = port"
  "v_UUID (link_transport q (link_security q (link_config host port user frag q sec tr))) = user"
  "v_Security (link_transport q (link_security q (link_config host port user frag q sec tr))) = sec"
  "v_Transport (link_transport q (link_security q (link_config host port user frag q sec tr))) = tr"
  by (simp_all add: link_transport_def link_security_def link_config_def Let_def)

text \<open>The fields of a transport are empty before the transport sets its own.\<close>

definition bare :: "Config \<Rightarrow> bool" where
  "bare d \<longleftrightarrow> v_Path d = [] \<and> v_WSHost d = [] \<and> v_GRPCServiceName d = [] \<and> v_GRPCMode d = [] \<and> v_XHTTPMode d = [] \<and>
     v_HeaderType d = [] \<and> v_Seed d = [] \<and> v_QUICSec d = [] \<and> v_QUICKey d = []"

definition secured :: "Config \<Rightarrow> bool" where
  "secured d \<longleftrightarrow> v_Encryption d \<noteq> [] \<and>
     (v_Security d = SecurityReality \<or> v_RealityPublicKey d = [] \<and> v_RealityShortID d = [] \<and> v_RealitySpiderX d = [])"

lemma link_transport_part:
  assumes "bare d" "secured d" "transport_ok (v_Transport d)"
  shows "link_part (link_transport q d) = link_transport q d"
proof -
  note b = assms(1) [unfolded bare_def] assms(2) [unfolded secured_def]
  from assms(3) consider "v_Transport d = TransportTCP" | "v_Transport d = TransportWS" | "v_Transport d = TransportGRPC"
    | "v_Transport d = TransportHTTPUpgrade" | "v_Transport d = TransportXHTTP" | "v_Transport d = TransportMKCP"
    | "v_Transport d = TransportQUIC"
    unfolding transport_ok_def by blast
  then show ?thesis
    by cases (use b in \<open>cases d; auto simp: link_transport_def link_part_def orDefault_def transport_defs Let_def\<close>)+
qed

lemma link_security_secured:
  "bare (link_security q (link_config host port user frag q sec tr))"
  "secured (link_security q (link_config host port user frag q sec tr))"
  "v_Transport (link_security q (link_config host port user frag q sec tr)) = tr"
  "list_all alpn_ok (v_ALPN (link_security q (link_config host port user frag q sec tr)))"
  by (simp_all add: bare_def secured_def link_security_def link_config_def zero_Config_def orDefault_def splitCSV_ok)

lemma parsed_config:
  assumes "transport_ok tr"
  shows "link_part (link_transport q (link_security q (link_config host port user frag q sec tr))) =
      link_transport q (link_security q (link_config host port user frag q sec tr))"
    "list_all alpn_ok (v_ALPN (link_transport q (link_security q (link_config host port user frag q sec tr))))"
proof -
  have "v_ALPN (link_transport q d) = v_ALPN d" for d by (simp add: link_transport_def Let_def)
  then show "list_all alpn_ok (v_ALPN (link_transport q (link_security q (link_config host port user frag q sec tr))))"
    using link_security_secured by simp
qed (rule link_transport_part; use link_security_secured assms in simp)

lemma ParseSecurity_ok: "ParseSecurity s = (sec, True) \<Longrightarrow> security_ok sec"
  by (auto simp: ParseSecurity_def security_ok_def split: if_splits)

lemma ParseTransport_ok: "ParseTransport s = (tr, True) \<Longrightarrow> transport_ok tr"
  by (auto simp: ParseTransport_def transport_ok_def split: if_splits)

lemma url_Parse_host: "url_Parse n raw = Some u \<Longrightarrow> \<exists>h. parseHost h = Some (url_Host u)"
  by (auto simp: url_Parse_def parseAuthority_def Let_def split: prod.splits option.splits if_splits)

text \<open>The parts of a successful parse.\<close>

lemma ParseURL_Inr:
  assumes "ParseURL raw = Inr c"
  obtains u user host portStr portNum sec tr q where
    "url_Parse 8 raw = Some u" "user \<noteq> []" "splitHostPort (url_Host u) = (host, portStr)" "host \<noteq> []" "portStr \<noteq> []"
    "1 \<le> portNum" "portNum \<le> 65535" "security_ok sec" "transport_ok tr"
    "c = link_transport q (link_security q (link_config host (word_of_int portNum) user (url_Fragment u) q sec tr))"
  using assms unfolding ParseURL_def Let_def
  by (auto split: if_splits option.splits prod.splits dest!: ParseSecurity_ok ParseTransport_ok simp: not_less)

lemma port_word: "1 \<le> n \<Longrightarrow> n \<le> 65535 \<Longrightarrow> (word_of_int n :: 16 word) \<noteq> 0"
  by (simp add: word_eq_iff_unsigned [where ?'a = int] unsigned_of_int take_bit_eq_mod)

lemma parsed_link:
  assumes "ParseURL raw = Inr c"
  shows "v_Address c \<noteq> []" "v_UUID c \<noteq> []" "v_Port c \<noteq> 0" "security_ok (v_Security c)" "transport_ok (v_Transport c)"
    "list_all alpn_ok (v_ALPN c)" "link_part c = c" "CHR '':'' \<in> set (v_Address c) \<or> linkable c"
proof -
  from assms obtain u user host portStr portNum sec tr q where
    p: "url_Parse 8 raw = Some u" "user \<noteq> []" "splitHostPort (url_Host u) = (host, portStr)" "host \<noteq> []" "portStr \<noteq> []"
      "1 \<le> portNum" "portNum \<le> 65535" "security_ok sec" "transport_ok tr"
    and c: "c = link_transport q (link_security q (link_config host (word_of_int portNum) user (url_Fragment u) q sec tr))"
    by (rule ParseURL_Inr)
  note port = port_word [OF p(6,7)]
  show f: "v_Address c \<noteq> []" "v_UUID c \<noteq> []" "v_Port c \<noteq> 0" "security_ok (v_Security c)" "transport_ok (v_Transport c)"
    using p port unfolding c link_config_fields by simp_all
  show a: "link_part c = c" "list_all alpn_ok (v_ALPN c)" unfolding c by (rule parsed_config [OF p(9)])+
  obtain h where "parseHost h = Some (url_Host u)" using url_Parse_host [OF p(1)] by blast
  then have "list_all host_char host" if "CHR '':'' \<notin> set host" using parsed_address p(3,5) that by blast
  then have "CHR '':'' \<in> set (v_Address c) \<or> list_all host_char (v_Address c)" unfolding c link_config_fields by blast
  then show "CHR '':'' \<in> set (v_Address c) \<or> linkable c" using f a unfolding linkable_def by blast
qed

text \<open>
  C35. Whatever text a link is, a configuration that is read from it is well-formed: user and address are there and the
  port is not zero, security and transport are known ones, the protocols of ALPN are trimmed and not empty, and the
  configuration is no more than what a link carries: the fields of other transports are empty, REALITY's three are empty
  unless the security is REALITY, the encryption is not empty (SNI, ALPN, fingerprint, flow and
  \<^verbatim>\<open>allowInsecure\<close> are taken from the link whatever the security). Unless the address has a colon, the link
  written for it reads as exactly this configuration again.
\<close>

theorem ParseURL_wf:
  assumes "ParseURL raw = Inr c"
  shows "v_Address c \<noteq> [] \<and> v_UUID c \<noteq> [] \<and> v_Port c \<noteq> 0 \<and> security_ok (v_Security c) \<and> transport_ok (v_Transport c) \<and>
    list_all alpn_ok (v_ALPN c) \<and> link_part c = c \<and>
    (CHR '':'' \<in> set (v_Address c) \<or> ParseURL (Config_URL c) = Inr c)"
  using parsed_link [OF assms] link_reads_back [of c] by metis

lemma escape_plain_colon: "CHR '':'' \<in> set s \<Longrightarrow> CHR '':'' \<in> set (escape EncodeHost s)"
proof -
  assume "CHR '':'' \<in> set s"
  then obtain a b where "s = a @ '':'' @ b" by (auto dest: split_list)
  moreover have "escape EncodeHost '':'' = '':''"
    by (simp add: escape_def escape_char_def shouldEscape_def url_chars)
  ultimately show ?thesis using escape_append [of EncodeHost a "'':'' @ b"] escape_append [of EncodeHost "'':''" b] by simp
qed

lemma hd_escape:
  assumes "s \<noteq> []" "hd s \<noteq> x" "x \<noteq> CHR ''%''" "x \<noteq> CHR ''+''"
  shows "hd (escape mode s @ t) \<noteq> x"
  using assms by (cases s) (auto simp: escape_def escape_char_def pct_def)

lemma parseHost_colons:
  assumes "CHR '':'' \<in> set addr" "hd addr \<noteq> CHR ''[''"
  shows "parseHost (escape EncodeHost (host_port addr p)) = None"
proof -
  let ?a = "escape EncodeHost addr"
  have e: "escape EncodeHost (host_port addr p) = ?a @ CHR '':'' # nat_str p" by (rule escape_host_port)
  have "addr \<noteq> []" using assms(1) by auto
  then have h: "hd (?a @ CHR '':'' # nat_str p) \<noteq> CHR ''[''" using assms(2) by (intro hd_escape) simp_all
  obtain x y where xy: "?a = x @ CHR '':'' # y" "CHR '':'' \<notin> set x"
    using split_list_first [OF escape_plain_colon [OF assms(1)]] by blast
  then have "dropWhile (\<lambda>c. c \<noteq> CHR '':'') (?a @ CHR '':'' # nat_str p) = CHR '':'' # y @ CHR '':'' # nat_str p" by simp
  then have "\<not> validOptionalPort (dropWhile (\<lambda>c. c \<noteq> CHR '':'') (?a @ CHR '':'' # nat_str p))"
    by (simp add: validOptionalPort_def)
  then show ?thesis using h unfolding e parseHost_def by simp
qed

text \<open>
  A server with an IPv6 address is written without the brackets that a URL needs around one, and the link is not
  accepted when it is read again.
\<close>

theorem ipv6_link_unreadable:
  assumes "CHR '':'' \<in> set (v_Address c)" "hd (v_Address c) \<noteq> CHR ''[''"
  shows "ParseURL (Config_URL c) = Inl BadURL"
proof -
  let ?h = "escape EncodeHost (host_port (v_Address c) (unat (v_Port c)))"
  have at: "CHR ''@'' \<notin> set ?h" by (rule escape_free; simp add: structure_escaped)
  have none: "parseAuthority (escape EncodeUserPassword (v_UUID c) @ CHR ''@'' # ?h) = None"
    using at parseHost_colons [OF assms] by (simp add: parseAuthority_def)
  then have "url_Parse 8 (Config_URL c) = None"
    using url_Parse_String_parts [of "Encode_Values (link_values c)" "''vless''"]
    by (simp add: Config_URL_def Encode_no_structure ctl_byte_def)
  moreover have "HasPrefix (Config_URL c) ''vless://''"
    by (simp add: Config_URL_def url_String_def HasPrefix_def)
  ultimately show ?thesis by (simp add: ParseURL_def)
qed

definition ipv6_config :: Config where
  "ipv6_config = zero_Config \<lparr> v_Address := ''2001:db8::1'', v_Port := 443, v_UUID := ''u'', v_Encryption := ''none'',
     v_Security := SecurityNone, v_Transport := TransportTCP \<rparr>"

theorem ipv6_link_unreadable_witness:
  "ParseURL ''vless://u@[2001:db8::1]:443'' = Inr ipv6_config \<and> ParseURL (Config_URL ipv6_config) = Inl BadURL"
proof
  show "ParseURL ''vless://u@[2001:db8::1]:443'' = Inr ipv6_config" by code_simp
  show "ParseURL (Config_URL ipv6_config) = Inl BadURL"
    by (rule ipv6_link_unreadable) (simp_all add: ipv6_config_def)
qed

definition link_sample :: Config where
  "link_sample = zero_Config \<lparr> v_Address := ''a.example'', v_Port := 443, v_UUID := ''id/1'', v_Remark := ''50% #1'',
     v_Security := SecurityReality, v_ALPN := [''h2'', ''http/1.1''], v_RealityPublicKey := ''k+='', v_Transport := TransportXHTTP,
     v_Path := ''/a b?c'', v_HeaderType := ''http'' \<rparr>"

lemma link_sample_linkable: "linkable link_sample"
proof -
  have "list_all host_char ''a.example''" by code_simp
  moreover have "list_all alpn_ok [''h2'', ''http/1.1'']" by code_simp
  ultimately show ?thesis by (simp add: linkable_def link_sample_def security_ok_def transport_ok_def)
qed

theorem ParseURL_URL_witness:
  "ParseURL (Config_URL link_sample) = Inr (link_sample \<lparr> v_Encryption := ''none'', v_HeaderType := [] \<rparr>) \<and>
   xray_outbound \<lparr> x_Server = link_part link_sample, x_SocksPort = 1080, x_ServerIP = ''192.0.2.1'' \<rparr> =
     xray_outbound \<lparr> x_Server = link_sample, x_SocksPort = 1080, x_ServerIP = ''192.0.2.1'' \<rparr>"
proof -
  have t: "v_Transport link_sample \<noteq> TransportQUIC" by (simp add: link_sample_def transport_defs)
  have "link_part link_sample = link_sample \<lparr> v_Encryption := ''none'', v_HeaderType := [] \<rparr>"
    by (simp add: link_part_def link_sample_def zero_Config_def orDefault_def transport_defs security_defs)
  then show ?thesis using ParseURL_URL [OF link_sample_linkable] t by metis
qed

theorem quic_header_lost_witness:
  "let c = link_sample \<lparr> v_Transport := TransportQUIC, v_HeaderType := ''wechat-video'' \<rparr> in
   \<exists>d. ParseURL (Config_URL c) = Inr d \<and> v_HeaderType d = [] \<and> buildStream d \<noteq> buildStream c"
proof -
  let ?c = "link_sample \<lparr> v_Transport := TransportQUIC, v_HeaderType := ''wechat-video'' \<rparr>"
  have "linkable ?c" using link_sample_linkable by (simp add: linkable_def transport_ok_def)
  moreover have "quic_header ?c" by (simp add: quic_header_def)
  ultimately show ?thesis using quic_header_lost [of ?c] by (simp add: Let_def)
qed

theorem ParseURL_wf_witness:
  "ParseURL ''vless://u@h:443?type=ws&path=%2Fa'' =
     Inr (zero_Config \<lparr> v_Address := ''h'', v_Port := 443, v_UUID := ''u'', v_Encryption := ''none'', v_Security := SecurityNone,
       v_Transport := TransportWS, v_Path := ''/a'' \<rparr>) \<and>
   ParseURL (Config_URL (zero_Config \<lparr> v_Address := ''h'', v_Port := 443, v_UUID := ''u'', v_Encryption := ''none'',
       v_Security := SecurityNone, v_Transport := TransportWS, v_Path := ''/a'' \<rparr>)) =
     Inr (zero_Config \<lparr> v_Address := ''h'', v_Port := 443, v_UUID := ''u'', v_Encryption := ''none'', v_Security := SecurityNone,
       v_Transport := TransportWS, v_Path := ''/a'' \<rparr>)"
proof -
  let ?c = "zero_Config \<lparr> v_Address := ''h'', v_Port := 443, v_UUID := ''u'', v_Encryption := ''none'', v_Security := SecurityNone,
       v_Transport := TransportWS, v_Path := ''/a'' \<rparr>"
  have p: "ParseURL ''vless://u@h:443?type=ws&path=%2Fa'' = Inr ?c" by code_simp
  then show ?thesis using ParseURL_wf [OF p] by simp
qed

end
