(* ===== verification/Subscription.thy ===== *)
theory Subscription
  imports Server_Store Base64 Settings
begin

text \<open>
  Package \<^verbatim>\<open>internal/subscription\<close> without its parsers (theory Sub_Parsers): the metadata in response headers (headers.go), the
  fetch and its errors (fetcher.go), who the client says it is (identity.go), and the stored list of
  subscriptions (store.go). Durations and times are nanoseconds and seconds; the file is read and
  replaced as a whole, and its JSON form is left out.
\<close>

section \<open>headers.go\<close>

text \<open>\<^verbatim>\<open>strings.SplitN(s, sep, 2)\<close>\<close>

fun split_first :: "char \<Rightarrow> string \<Rightarrow> (string \<times> string) option" where
  "split_first d [] = None"
| "split_first d (c # s) = (if c = d then Some ([], s) else map_option (\<lambda>(a, b). (c # a, b)) (split_first d s))"

record Userinfo =
  ui_Upload :: int
  ui_Download :: int
  ui_Total :: int
  ui_Expire :: "int option"
  ui_HasUpload :: bool
  ui_HasDownload :: bool
  ui_HasTotal :: bool
  ui_HasExpire :: bool

definition zero_Userinfo :: Userinfo where
  "zero_Userinfo = \<lparr> ui_Upload = 0, ui_Download = 0, ui_Total = 0, ui_Expire = None, ui_HasUpload = False,
     ui_HasDownload = False, ui_HasTotal = False, ui_HasExpire = False \<rparr>"

record Headers =
  hd_Userinfo :: "Userinfo option"
  hd_UpdateInterval :: int
  hd_ProfileTitle :: string

definition userinfo_part :: "string \<Rightarrow> Userinfo \<Rightarrow> Userinfo" where
  "userinfo_part part u =
     (case split_first (CHR ''='') (TrimSpace part) of
        None \<Rightarrow> u
      | Some (k, v) \<Rightarrow>
          (case ParseInt64 (TrimSpace v) of
             None \<Rightarrow> u
           | Some n \<Rightarrow>
               (let key = TrimSpace k in
                if key = ''upload'' then u \<lparr> ui_Upload := n, ui_HasUpload := True \<rparr>
                else if key = ''download'' then u \<lparr> ui_Download := n, ui_HasDownload := True \<rparr>
                else if key = ''total'' then u \<lparr> ui_Total := n, ui_HasTotal := True \<rparr>
                else if key = ''expire''
                  then (if n \<le> 0 then u \<lparr> ui_HasExpire := True \<rparr> else u \<lparr> ui_HasExpire := True, ui_Expire := Some n \<rparr>)
                else u)))"

definition parseUserinfo :: "string \<Rightarrow> Userinfo" where
  "parseUserinfo s = fold userinfo_part (split_on (CHR '';'') s) zero_Userinfo"

text \<open>\<^verbatim>\<open>unicode.IsControl\<close> somewhere in well-formed text: C0, DEL and C1.\<close>

fun has_control :: "string \<Rightarrow> bool" where
  "has_control [] = False"
| "has_control (c # s) \<longleftrightarrow>
     (of_char c :: nat) < 32 \<or> (of_char c :: nat) = 127 \<or>
     (c = CHR 0xC2 \<and> s \<noteq> [] \<and> 128 \<le> (of_char (hd s) :: nat) \<and> (of_char (hd s) :: nat) < 160) \<or> has_control s"

definition cleanProfileTitle :: "string \<Rightarrow> string" where
  "cleanProfileTitle title = (if \<not> utf8_ok title \<or> has_control title then [] else TrimSpace title)"

definition title_from :: "bool \<Rightarrow> string \<Rightarrow> string" where
  "title_from padded encoded =
     (case b64_decode std_alphabet padded (TrimSpace encoded) of None \<Rightarrow> [] | Some t \<Rightarrow> cleanProfileTitle t)"

definition parseProfileTitle :: "string \<Rightarrow> string" where
  "parseProfileTitle raw0 =
     (let raw = TrimSpace raw0;
          prefixed = HasPrefix raw ''base64:'';
          encoded = (if prefixed then TrimPrefix raw ''base64:'' else raw)
      in if title_from True encoded \<noteq> [] then title_from True encoded
         else if title_from False encoded \<noteq> [] then title_from False encoded
         else if prefixed then [] else cleanProfileTitle raw)"

text \<open>\<open>get\<close> is \<^verbatim>\<open>Header.Get\<close>, empty when the header is absent.\<close>

definition ParseHeaders :: "(string \<Rightarrow> string) \<Rightarrow> Headers" where
  "ParseHeaders get =
     \<lparr> hd_Userinfo = (if get ''Subscription-Userinfo'' = [] then None else Some (parseUserinfo (get ''Subscription-Userinfo''))),
       hd_UpdateInterval =
         (if get ''profile-update-interval'' = [] then 0
          else case ParseInt64 (TrimSpace (get ''profile-update-interval'')) of None \<Rightarrow> 0 | Some n \<Rightarrow> n),
       hd_ProfileTitle = parseProfileTitle (get ''profile-title'') \<rparr>"

section \<open>fetcher.go\<close>

record FetchError =
  fe_StatusCode :: int
  fe_RetryAfter :: int
  fe_Transient :: bool
  fe_Err :: string

datatype sync_error = FetchFailed FetchError | OtherError string

definition IsTransient :: "sync_error option \<Rightarrow> bool" where
  "IsTransient e = (case e of Some (FetchFailed fe) \<Rightarrow> fe_Transient fe | _ \<Rightarrow> False)"

definition RetryAfterHint :: "sync_error option \<Rightarrow> int" where
  "RetryAfterHint e = (case e of Some (FetchFailed fe) \<Rightarrow> fe_RetryAfter fe | _ \<Rightarrow> 0)"

definition transientStatus :: "int \<Rightarrow> bool" where
  "transientStatus code \<longleftrightarrow> code = 408 \<or> code = 429 \<or> (500 \<le> code \<and> code \<le> 599)"

text \<open>A product of 64-bit integers.\<close>

definition wrap64 :: "int \<Rightarrow> int" where
  "wrap64 z = (z + 2 ^ 63) mod 2 ^ 64 - 2 ^ 63"

text \<open>\<open>until\<close> is the time left to an HTTP date, if the text is one.\<close>

definition retryAfterFromHeader :: "(string \<Rightarrow> int option) \<Rightarrow> (string \<Rightarrow> string) \<Rightarrow> int" where
  "retryAfterFromHeader until get =
     (let v = TrimSpace (get ''Retry-After'') in
      if v = [] then 0
      else case ParseInt64 v of
        Some secs \<Rightarrow> (if secs \<le> 0 then 0 else wrap64 (secs * 1000000000))
      | None \<Rightarrow> (case until v of Some d \<Rightarrow> (if d > 0 then d else 0) | None \<Rightarrow> 0))"

record FetchOptions =
  fo_URL :: string
  fo_UserAgent :: string
  fo_Auth :: "(string \<times> string) list"
  fo_HWID :: string
  fo_DeviceOS :: string
  fo_OSVersion :: string
  fo_DeviceModel :: string

definition AuthNone :: "(string \<times> string) list" where "AuthNone = []"

definition AuthBasic :: "string \<Rightarrow> string \<Rightarrow> (string \<times> string) list" where
  "AuthBasic user pass = [(''Authorization'', ''Basic '' @ b64_std (user @ '':'' @ pass))]"

definition AuthBearer :: "string \<Rightarrow> (string \<times> string) list" where
  "AuthBearer token = [(''Authorization'', ''Bearer '' @ token)]"

definition request_headers :: "FetchOptions \<Rightarrow> (string \<times> string) list" where
  "request_headers opt =
     (if fo_UserAgent opt \<noteq> [] then [(''User-Agent'', fo_UserAgent opt)] else [])
     @ (if fo_HWID opt \<noteq> [] then [(''x-hwid'', fo_HWID opt)] else [])
     @ (if fo_DeviceOS opt \<noteq> [] then [(''x-device-os'', fo_DeviceOS opt)] else [])
     @ (if fo_OSVersion opt \<noteq> [] then [(''x-ver-os'', fo_OSVersion opt)] else [])
     @ (if fo_DeviceModel opt \<noteq> [] then [(''x-device-model'', fo_DeviceModel opt)] else [])
     @ fo_Auth opt"

record http_response =
  hr_Status :: int
  hr_Header :: "string \<Rightarrow> string"
  hr_Body :: "string + string"

definition maxBody :: nat where "maxBody = 10 * 1048576"

text \<open>
  \<open>badURL\<close> is the error of making the request, \<open>web\<close> answers a request. A body that cannot be read to
  the end or to the limit is on the left.
\<close>

definition Fetch :: "(string \<Rightarrow> string option) \<Rightarrow> (string \<Rightarrow> (string \<times> string) list \<Rightarrow> string + http_response)
    \<Rightarrow> (string \<Rightarrow> int option) \<Rightarrow> FetchOptions \<Rightarrow> sync_error + string \<times> Headers" where
  "Fetch badURL web until opt =
     (case badURL (fo_URL opt) of
        Some e \<Rightarrow> Inl (FetchFailed \<lparr> fe_StatusCode = 0, fe_RetryAfter = 0, fe_Transient = False, fe_Err = e \<rparr>)
      | None \<Rightarrow>
          (case web (fo_URL opt) (request_headers opt) of
             Inl e \<Rightarrow> Inl (FetchFailed \<lparr> fe_StatusCode = 0, fe_RetryAfter = 0, fe_Transient = True, fe_Err = e \<rparr>)
           | Inr resp \<Rightarrow>
               (if hr_Status resp < 200 \<or> 300 \<le> hr_Status resp
                then Inl (FetchFailed \<lparr> fe_StatusCode = hr_Status resp,
                       fe_RetryAfter = (if transientStatus (hr_Status resp) then retryAfterFromHeader until (hr_Header resp) else 0),
                       fe_Transient = transientStatus (hr_Status resp), fe_Err = [] \<rparr>)
                else case hr_Body resp of
                  Inl e \<Rightarrow> Inl (FetchFailed \<lparr> fe_StatusCode = 0, fe_RetryAfter = 0, fe_Transient = True, fe_Err = e \<rparr>)
                | Inr body \<Rightarrow> Inr (take maxBody body, ParseHeaders (hr_Header resp)))))"

section \<open>store.go\<close>

record Stored =
  st_ID :: string
  st_Name :: string
  st_URL :: string
  st_UserAgent :: string
  st_UpdateInterval :: int
  st_LastSyncAt :: int
  st_LastStatus :: string
  st_LastMessage :: string
  st_Upload :: int
  st_Download :: int
  st_Total :: int
  st_Expire :: "int option"

text \<open>The file: missing, unreadable or not parsable with an error, or a list.\<close>

datatype subs_file = NoSubs | BadSubs string | SubsFile "Stored list"

definition Subs_Load :: "subs_file \<Rightarrow> string + Stored list" where
  "Subs_Load f = (case f of NoSubs \<Rightarrow> Inr [] | BadSubs e \<Rightarrow> Inl e | SubsFile ss \<Rightarrow> Inr ss)"

definition Subs_Save :: "bool \<Rightarrow> Stored list \<Rightarrow> subs_file \<Rightarrow> bool \<times> subs_file" where
  "Subs_Save ok ss f = (if ok then (True, SubsFile ss) else (False, f))"

interpretation subs_store: json_store Subs_Load Subs_Save "\<lambda>_. True" Inr
  by unfold_locales (simp_all add: Subs_Load_def Subs_Save_def)

definition update_quota :: "Userinfo \<Rightarrow> Stored \<Rightarrow> Stored" where
  "update_quota ui s =
     s \<lparr> st_Upload := (if ui_HasUpload ui then ui_Upload ui else st_Upload s),
         st_Download := (if ui_HasDownload ui then ui_Download ui else st_Download s),
         st_Total := (if ui_HasTotal ui then ui_Total ui else st_Total s),
         st_Expire := (if ui_HasExpire ui then ui_Expire ui else st_Expire s) \<rparr>"

definition update_entry :: "int \<Rightarrow> string \<Rightarrow> string \<Rightarrow> Headers option \<Rightarrow> Stored \<Rightarrow> Stored" where
  "update_entry at status message headers s =
     (let s = s \<lparr> st_LastSyncAt := at, st_LastStatus := status, st_LastMessage := message \<rparr> in
      case headers of
        None \<Rightarrow> s
      | Some h \<Rightarrow>
          (let title = cleanProfileTitle (hd_ProfileTitle h);
               s = (if title \<noteq> [] then s \<lparr> st_Name := title \<rparr> else s)
           in case hd_Userinfo h of None \<Rightarrow> s | Some ui \<Rightarrow> update_quota ui s))"

definition UpdateMeta :: "bool \<Rightarrow> string \<Rightarrow> string \<Rightarrow> int \<Rightarrow> string \<Rightarrow> string \<Rightarrow> Headers option \<Rightarrow> subs_file \<Rightarrow> bool \<times> subs_file" where
  "UpdateMeta saveOk sid sourceURL at status message headers f =
     (case Subs_Load f of
        Inl e \<Rightarrow> (False, f)
      | Inr subs \<Rightarrow>
          (case index_where (\<lambda>s. st_ID s = sid \<and> st_URL s = sourceURL) subs of
             None \<Rightarrow> (True, f)
           | Some i \<Rightarrow> Subs_Save saveOk (subs[i := update_entry at status message headers (subs ! i)]) f))"

section \<open>identity.go\<close>

record DeviceInfo =
  di_OS :: string
  di_Version :: string
  di_Model :: string

definition resolveIdentity :: "Subscriptions \<Rightarrow> Stored \<Rightarrow> string \<Rightarrow> DeviceInfo \<Rightarrow> string \<times> string \<times> string \<times> string \<times> string" where
  "resolveIdentity settings sub deviceID info =
     (let ua = (if st_UserAgent sub = [] then su_UserAgent settings else st_UserAgent sub);
          ua = (if ua = [] then ''ITGRay/dev'' else ua)
      in if \<not> su_HWIDEnabled settings then (ua, [], [], [], [])
         else (ua, deviceID, if su_SendDeviceOS settings then di_OS info else [],
               if su_SendOSVersion settings then di_Version info else [],
               if su_SendDeviceModel settings then di_Model info else []))"

definition ToSyncInput :: "Stored \<Rightarrow> FetchOptions" where
  "ToSyncInput s = \<lparr> fo_URL = st_URL s, fo_UserAgent = st_UserAgent s, fo_Auth = AuthNone, fo_HWID = [], fo_DeviceOS = [],
     fo_OSVersion = [], fo_DeviceModel = [] \<rparr>"

text \<open>\<open>f\<close> is the settings file; \<open>deviceID\<close> and \<open>info\<close> come from the machine, read once.\<close>

definition NewInputResolver :: "string \<Rightarrow> disk \<Rightarrow> string \<Rightarrow> DeviceInfo \<Rightarrow> Stored \<Rightarrow> string + FetchOptions" where
  "NewInputResolver version0 f deviceID info sub =
     (let version = (if version0 = [] then ''dev'' else version0) in
      case Config_Load f of
        None \<Rightarrow> Inl ''load config''
      | Some c \<Rightarrow>
          (let settings = c_Subscriptions c;
               settings = (if su_UserAgent settings = [] then settings \<lparr> su_UserAgent := ''ITGRay/'' @ version \<rparr> else settings)
           in if su_HWIDEnabled settings \<and> deviceID = [] then Inl ''subscription HWID is unavailable''
              else case resolveIdentity settings sub (if su_HWIDEnabled settings then deviceID else [])
                     (if su_HWIDEnabled settings then info else \<lparr> di_OS = [], di_Version = [], di_Model = [] \<rparr>) of
                (ua, hwid, os, ver, model) \<Rightarrow>
                  Inr ((ToSyncInput sub) \<lparr> fo_UserAgent := ua, fo_HWID := hwid, fo_DeviceOS := os, fo_OSVersion := ver,
                         fo_DeviceModel := model \<rparr>)))"

section \<open>Properties\<close>

text \<open>The values that a header supplies for a key, in order.\<close>

definition supplies :: "string \<Rightarrow> string \<Rightarrow> int option" where
  "supplies key part =
     (case split_first (CHR ''='') (TrimSpace part) of
        Some (k, v) \<Rightarrow> (if TrimSpace k = key then ParseInt64 (TrimSpace v) else None) | None \<Rightarrow> None)"

definition supplied :: "string \<Rightarrow> string \<Rightarrow> int list" where
  "supplied key s = List.map_filter (supplies key) (split_on (CHR '';'') s)"

definition last_or :: "'a \<Rightarrow> 'a list \<Rightarrow> 'a" where
  "last_or d xs = (if xs = [] then d else last xs)"

lemma last_or_Cons: "last_or d (x # xs) = last_or x xs"
  by (simp add: last_or_def)

lemma userinfo_part_supplies:
  "ui_Upload (userinfo_part p u) = (case supplies ''upload'' p of None \<Rightarrow> ui_Upload u | Some n \<Rightarrow> n)"
  "ui_HasUpload (userinfo_part p u) = (ui_HasUpload u \<or> supplies ''upload'' p \<noteq> None)"
  "ui_Download (userinfo_part p u) = (case supplies ''download'' p of None \<Rightarrow> ui_Download u | Some n \<Rightarrow> n)"
  "ui_HasDownload (userinfo_part p u) = (ui_HasDownload u \<or> supplies ''download'' p \<noteq> None)"
  "ui_Total (userinfo_part p u) = (case supplies ''total'' p of None \<Rightarrow> ui_Total u | Some n \<Rightarrow> n)"
  "ui_HasTotal (userinfo_part p u) = (ui_HasTotal u \<or> supplies ''total'' p \<noteq> None)"
  "ui_Expire (userinfo_part p u) = (case supplies ''expire'' p of None \<Rightarrow> ui_Expire u
     | Some n \<Rightarrow> (if n \<le> 0 then ui_Expire u else Some n))"
  "ui_HasExpire (userinfo_part p u) = (ui_HasExpire u \<or> supplies ''expire'' p \<noteq> None)"
  by (simp_all add: userinfo_part_def supplies_def Let_def split: option.splits prod.splits)

lemma map_filter_Cons: "List.map_filter f (x # xs) = (case f x of None \<Rightarrow> List.map_filter f xs | Some y \<Rightarrow> y # List.map_filter f xs)"
  by (simp add: List.map_filter_def split: option.splits)

lemma fold_userinfo:
  "ui_Upload (fold userinfo_part ps u) = last_or (ui_Upload u) (List.map_filter (supplies ''upload'') ps)"
  "ui_HasUpload (fold userinfo_part ps u) = (ui_HasUpload u \<or> List.map_filter (supplies ''upload'') ps \<noteq> [])"
  "ui_Download (fold userinfo_part ps u) = last_or (ui_Download u) (List.map_filter (supplies ''download'') ps)"
  "ui_HasDownload (fold userinfo_part ps u) = (ui_HasDownload u \<or> List.map_filter (supplies ''download'') ps \<noteq> [])"
  "ui_Total (fold userinfo_part ps u) = last_or (ui_Total u) (List.map_filter (supplies ''total'') ps)"
  "ui_HasTotal (fold userinfo_part ps u) = (ui_HasTotal u \<or> List.map_filter (supplies ''total'') ps \<noteq> [])"
  "ui_Expire (fold userinfo_part ps u) =
     last_or (ui_Expire u) (map Some (filter (\<lambda>n. 0 < n) (List.map_filter (supplies ''expire'') ps)))"
  "ui_HasExpire (fold userinfo_part ps u) = (ui_HasExpire u \<or> List.map_filter (supplies ''expire'') ps \<noteq> [])"
  by (induction ps arbitrary: u)
    (auto simp: last_or_def userinfo_part_supplies map_filter_Cons List.map_filter_def split: option.splits)

lemma update_entry_supplied:
  "update_entry at status message
     (Some \<lparr> hd_Userinfo = Some (parseUserinfo hdr), hd_UpdateInterval = n, hd_ProfileTitle = title \<rparr>) s =
   s \<lparr> st_Name := (if cleanProfileTitle title = [] then st_Name s else cleanProfileTitle title),
       st_LastSyncAt := at, st_LastStatus := status, st_LastMessage := message,
       st_Upload := last_or (st_Upload s) (supplied ''upload'' hdr),
       st_Download := last_or (st_Download s) (supplied ''download'' hdr),
       st_Total := last_or (st_Total s) (supplied ''total'' hdr),
       st_Expire := (if supplied ''expire'' hdr = [] then st_Expire s
                     else last_or None (map Some (filter (\<lambda>n. 0 < n) (supplied ''expire'' hdr)))) \<rparr>"
proof -
  have u: "update_quota (parseUserinfo hdr) s = s \<lparr>
       st_Upload := last_or (st_Upload s) (supplied ''upload'' hdr),
       st_Download := last_or (st_Download s) (supplied ''download'' hdr),
       st_Total := last_or (st_Total s) (supplied ''total'' hdr),
       st_Expire := (if supplied ''expire'' hdr = [] then st_Expire s
                     else last_or None (map Some (filter (\<lambda>n. 0 < n) (supplied ''expire'' hdr)))) \<rparr>" for s
    by (simp add: update_quota_def parseUserinfo_def fold_userinfo zero_Userinfo_def supplied_def last_or_def)
  show ?thesis by (cases s) (simp add: update_entry_def u)
qed

text \<open>
  What a successful sync records. At most one entry changes, the first with the identifier and the address
  that were synced, so that a subscription that was given another address meanwhile keeps its data. Its
  status, message and time are set, its name only if the title is usable, and each quota figure becomes the
  last value that the header supplies for it, or stays if the header has none that is a number. An
  expiry that is not positive only counts when no positive one is given; then the stored one is cleared.
\<close>

theorem UpdateMeta_effect:
  "snd (UpdateMeta True sid url at status message
     (Some \<lparr> hd_Userinfo = Some (parseUserinfo hdr), hd_UpdateInterval = n, hd_ProfileTitle = title \<rparr>) (SubsFile ss)) =
   SubsFile (case index_where (\<lambda>s. st_ID s = sid \<and> st_URL s = url) ss of
       None \<Rightarrow> ss
     | Some i \<Rightarrow> ss[i := (ss ! i) \<lparr>
         st_Name := (if cleanProfileTitle title = [] then st_Name (ss ! i) else cleanProfileTitle title),
         st_LastSyncAt := at, st_LastStatus := status, st_LastMessage := message,
         st_Upload := last_or (st_Upload (ss ! i)) (supplied ''upload'' hdr),
         st_Download := last_or (st_Download (ss ! i)) (supplied ''download'' hdr),
         st_Total := last_or (st_Total (ss ! i)) (supplied ''total'' hdr),
         st_Expire := (if supplied ''expire'' hdr = [] then st_Expire (ss ! i)
                       else last_or None (map Some (filter (\<lambda>n. 0 < n) (supplied ''expire'' hdr)))) \<rparr>])"
  by (simp add: UpdateMeta_def Subs_Load_def Subs_Save_def update_entry_supplied split: option.split)

lemma digit_not_space: "is_digit c \<Longrightarrow> c \<notin> space_lead \<and> c \<notin> space_tail"
  by (auto simp: is_digit_def space_lead_def space_tail_def space_seqs_def wide_spaces_def ascii_spaces_def)

lemma TrimSpace_nat_str: "TrimSpace (nat_str n) = nat_str n"
proof (rule TrimSpace_id)
  have "hd (nat_str n) \<in> set (nat_str n)" "last (nat_str n) \<in> set (nat_str n)" by simp_all
  then show "nat_str n = [] \<or> hd (nat_str n) \<notin> space_lead \<and> last (nat_str n) \<notin> space_tail"
    using nat_str_digits digit_not_space by blast
qed

text \<open>
  The delay that a server asks for in seconds is taken exactly up to 9223372036 seconds. Beyond that the
  multiplication by a second wraps around: a delay of 18446744074 seconds counts as less than a third of
  a second.
\<close>

theorem retry_after_wraps:
  "(n = 0 \<or> 9223372036 < n \<or>
      retryAfterFromHeader until (\<lambda>_. nat_str n) = int n * 1000000000) \<and>
   retryAfterFromHeader until (\<lambda>_. ''18446744074'') = 290448384"
proof -
  have "retryAfterFromHeader until (\<lambda>_. nat_str n) = int n * 1000000000" if "n \<noteq> 0" "n \<le> 9223372036"
    using that ParseInt64_nat_str [of n] by (simp add: retryAfterFromHeader_def TrimSpace_nat_str wrap64_def)
  moreover have "nat_str 18446744074 = ''18446744074''"
    by (simp add: nat_str.simps digit_char_def) code_simp
  then have "retryAfterFromHeader until (\<lambda>_. ''18446744074'') = 290448384"
    using ParseInt64_nat_str [of 18446744074] TrimSpace_nat_str [of 18446744074]
    by (simp add: retryAfterFromHeader_def wrap64_def)
  ultimately show ?thesis by linarith
qed

end
