(* ===== verification/Sub_Parsers.thy ===== *)
theory Sub_Parsers
  imports Vless_URL Subscription
begin

text \<open>
  The formats of a subscription, \<^verbatim>\<open>internal/subscription/parser_*.go\<close> and detector.go: lists of links, plain or
  in base64, and JSON documents of xray and sing-box. JSON reaches the structs as in theory Json. A
  \<^verbatim>\<open>json.RawMessage\<close> is kept as its value; that an empty object or array has no space inside is assumed where the
  code compares the text with two characters. \<open>iter\<close> is the order in which Go visits a map.
\<close>

datatype parse_error = ErrEmptyBody | ErrUnrecognizedFormat | ErrNotBase64 | ErrNotXrayJSON | ErrNotSingboxJSON | ErrTooLong

record ParseResult =
  pr_Configs :: "Config list"
  pr_Skipped :: "(string \<times> nat) list"
  pr_Invalid :: nat

definition no_result :: ParseResult where
  "no_result = \<lparr> pr_Configs = [], pr_Skipped = [], pr_Invalid = 0 \<rparr>"

text \<open>\<^verbatim>\<open>r.Skipped[name]++\<close>\<close>

fun bump :: "string \<Rightarrow> (string \<times> nat) list \<Rightarrow> (string \<times> nat) list" where
  "bump k [] = [(k, 1)]"
| "bump k ((k', n) # m) = (if k = k' then (k', n + 1) # m else (k', n) # bump k m)"

definition skip_one :: "string \<Rightarrow> ParseResult \<Rightarrow> ParseResult" where
  "skip_one k r = r \<lparr> pr_Skipped := bump k (pr_Skipped r) \<rparr>"

definition invalid_more :: "nat \<Rightarrow> ParseResult \<Rightarrow> ParseResult" where
  "invalid_more n r = r \<lparr> pr_Invalid := pr_Invalid r + n \<rparr>"

definition add_config :: "Config \<Rightarrow> ParseResult \<Rightarrow> ParseResult" where
  "add_config c r = r \<lparr> pr_Configs := pr_Configs r @ [c] \<rparr>"

definition sumSkipped :: "(string \<times> nat) list \<Rightarrow> nat" where
  "sumSkipped m = sum_list (map snd m)"

section \<open>parser_plaintext.go\<close>

definition scheme_char :: "bool \<Rightarrow> char \<Rightarrow> bool" where
  "scheme_char first c \<longleftrightarrow>
     (97 \<le> (of_char c :: nat) \<and> (of_char c :: nat) \<le> 122) \<or> (65 \<le> (of_char c :: nat) \<and> (of_char c :: nat) \<le> 90)
     \<or> (\<not> first \<and> (is_digit c \<or> c = CHR ''+'' \<or> c = CHR ''-'' \<or> c = CHR ''.''))"

definition validScheme :: "string \<Rightarrow> bool" where
  "validScheme s \<longleftrightarrow> s \<noteq> [] \<and> length s \<le> 32 \<and> scheme_char True (hd s) \<and> list_all (scheme_char False) (tl s)"

text \<open>
  \<^verbatim>\<open>strings.ToLower\<close>: the ASCII letters, and the two other code points whose lower case is one of them. Any other code
  point stays outside ASCII.
\<close>

fun ToLower :: "string \<Rightarrow> string" where
  "ToLower [] = []"
| "ToLower (c # s) =
     (if c = CHR 0xC4 \<and> s \<noteq> [] \<and> hd s = CHR 0xB0 then CHR ''i'' # ToLower (tl s)
      else if c = CHR 0xE2 \<and> 2 \<le> length s \<and> take 2 s = [CHR 0x84, CHR 0xAA] then CHR ''k'' # ToLower (drop 2 s)
      else to_lower c # ToLower s)"

fun before_scheme_end :: "string \<Rightarrow> string option" where
  "before_scheme_end [] = None"
| "before_scheme_end (c # s) =
     (if HasPrefix (c # s) ''://'' then Some [] else map_option ((#) c) (before_scheme_end s))"

definition schemeOf :: "string \<Rightarrow> string" where
  "schemeOf line =
     (case before_scheme_end line of None \<Rightarrow> [] | Some s \<Rightarrow> (if validScheme s then ToLower s else []))"

definition plain_line :: "ParseResult \<Rightarrow> string \<Rightarrow> ParseResult" where
  "plain_line r raw =
     (let line = TrimSpace raw; scheme = schemeOf line in
      if line = [] then r
      else if scheme \<noteq> ''vless'' then (if scheme \<noteq> [] then skip_one scheme r else r)
      else case ParseURL line of
        Inl e \<Rightarrow> invalid_more 1 r
      | Inr c \<Rightarrow> (case Normalize c of Inl e \<Rightarrow> invalid_more 1 r | Inr (msgs, d) \<Rightarrow> add_config d r))"

text \<open>The longest line that the scanner accepts is one byte shorter than its buffer.\<close>

definition maxLine :: nat where "maxLine = 1048576"

definition ParsePlaintext :: "string \<Rightarrow> parse_error + ParseResult" where
  "ParsePlaintext s =
     (let lines = split_on (CHR 0x0A) s in
      if list_ex (\<lambda>l. maxLine \<le> length l) lines then Inl ErrTooLong
      else Inr (foldl plain_line no_result lines))"

section \<open>parser_singbox.go\<close>

definition at_fld :: "('r \<Rightarrow> 'a) \<Rightarrow> (('a \<Rightarrow> 'a) \<Rightarrow> 'r \<Rightarrow> 'r) \<Rightarrow> 'a dec \<Rightarrow> 'r dec" where
  "at_fld get upd d = fld get (\<lambda>x. upd (\<lambda>_. x)) d"

text \<open>A pointer: null clears it, a value is decoded over what it points to.\<close>

definition dec_ptr :: "'a dec \<Rightarrow> 'a \<Rightarrow> 'a option dec" where
  "dec_ptr d zero v p =
     (case v of JNull \<Rightarrow> Some None | _ \<Rightarrow> map_option Some (d v (case p of None \<Rightarrow> zero | Some x \<Rightarrow> x)))"

definition smap_put :: "string \<Rightarrow> string \<Rightarrow> (string \<times> string) list \<Rightarrow> (string \<times> string) list" where
  "smap_put k v m = (k, v) # filter (\<lambda>p. fst p \<noteq> k) m"

text \<open>\<^verbatim>\<open>map[string]string\<close>\<close>

fun dec_entries :: "(string \<times> json) list \<Rightarrow> (string \<times> string) list \<Rightarrow> (string \<times> string) list option" where
  "dec_entries [] m = Some m"
| "dec_entries ((k, v) # kvs) m =
     (case dec_string v [] of None \<Rightarrow> None | Some t \<Rightarrow> dec_entries kvs (smap_put k t m))"

definition dec_smap :: "(string \<times> string) list dec" where
  "dec_smap v m = (case v of JNull \<Rightarrow> Some [] | JObj kvs \<Rightarrow> dec_entries kvs m | _ \<Rightarrow> None)"

record sbReality = sr_Enabled :: bool sr_PublicKey :: string sr_ShortID :: string
record sbUTLS = su_Enabled :: bool su_Fingerprint :: string
record sbTLS =
  tls_Enabled :: bool
  tls_ServerName :: string
  tls_ALPN :: "string list"
  tls_Reality :: "sbReality option"
  tls_UTLS :: "sbUTLS option"
  tls_Insecure :: bool
record sbTrans = tr_Type :: string tr_Path :: string tr_Headers :: "(string \<times> string) list" tr_ServiceName :: string
record sbOutbound =
  sb_Type :: string
  sb_Tag :: string
  sb_Server :: string
  sb_ServerPort :: int
  sb_UUID :: string
  sb_Flow :: string
  sb_TLS :: "sbTLS option"
  sb_Transport :: "sbTrans option"

definition dec_sbReality :: "sbReality dec" where
  "dec_sbReality = dec_struct
     [(''enabled'', at_fld sr_Enabled sr_Enabled_update dec_bool),
      (''public_key'', at_fld sr_PublicKey sr_PublicKey_update dec_string),
      (''short_id'', at_fld sr_ShortID sr_ShortID_update dec_string)]"

definition dec_sbUTLS :: "sbUTLS dec" where
  "dec_sbUTLS = dec_struct
     [(''enabled'', at_fld su_Enabled su_Enabled_update dec_bool),
      (''fingerprint'', at_fld su_Fingerprint su_Fingerprint_update dec_string)]"

definition dec_sbTLS :: "sbTLS dec" where
  "dec_sbTLS = dec_struct
     [(''enabled'', at_fld tls_Enabled tls_Enabled_update dec_bool),
      (''server_name'', at_fld tls_ServerName tls_ServerName_update dec_string),
      (''alpn'', at_fld tls_ALPN tls_ALPN_update (dec_slice dec_string [])),
      (''reality'', at_fld tls_Reality tls_Reality_update
         (dec_ptr dec_sbReality \<lparr> sr_Enabled = False, sr_PublicKey = [], sr_ShortID = [] \<rparr>)),
      (''utls'', at_fld tls_UTLS tls_UTLS_update (dec_ptr dec_sbUTLS \<lparr> su_Enabled = False, su_Fingerprint = [] \<rparr>)),
      (''insecure'', at_fld tls_Insecure tls_Insecure_update dec_bool)]"

definition dec_sbTrans :: "sbTrans dec" where
  "dec_sbTrans = dec_struct
     [(''type'', at_fld tr_Type tr_Type_update dec_string), (''path'', at_fld tr_Path tr_Path_update dec_string),
      (''headers'', at_fld tr_Headers tr_Headers_update dec_smap),
      (''service_name'', at_fld tr_ServiceName tr_ServiceName_update dec_string)]"

definition zero_sbTLS :: sbTLS where
  "zero_sbTLS = \<lparr> tls_Enabled = False, tls_ServerName = [], tls_ALPN = [], tls_Reality = None, tls_UTLS = None, tls_Insecure = False \<rparr>"

definition dec_sbOutbound :: "sbOutbound dec" where
  "dec_sbOutbound = dec_struct
     [(''type'', at_fld sb_Type sb_Type_update dec_string), (''tag'', at_fld sb_Tag sb_Tag_update dec_string),
      (''server'', at_fld sb_Server sb_Server_update dec_string),
      (''server_port'', at_fld sb_ServerPort sb_ServerPort_update dec_go_int),
      (''uuid'', at_fld sb_UUID sb_UUID_update dec_string), (''flow'', at_fld sb_Flow sb_Flow_update dec_string),
      (''tls'', at_fld sb_TLS sb_TLS_update (dec_ptr dec_sbTLS zero_sbTLS)),
      (''transport'', at_fld sb_Transport sb_Transport_update
         (dec_ptr dec_sbTrans \<lparr> tr_Type = [], tr_Path = [], tr_Headers = [], tr_ServiceName = [] \<rparr>))]"

definition zero_sbOutbound :: sbOutbound where
  "zero_sbOutbound = \<lparr> sb_Type = [], sb_Tag = [], sb_Server = [], sb_ServerPort = 0, sb_UUID = [], sb_Flow = [],
     sb_TLS = None, sb_Transport = None \<rparr>"

definition sb_tls_config :: "sbOutbound \<Rightarrow> Config \<Rightarrow> Config" where
  "sb_tls_config out c =
     (case sb_TLS out of
        None \<Rightarrow> c
      | Some t \<Rightarrow>
          (if \<not> tls_Enabled t then c
           else let c = c \<lparr> v_Security := SecurityTLS, v_SNI := tls_ServerName t, v_ALPN := tls_ALPN t,
                            v_AllowInsecure := tls_Insecure t \<rparr>;
                    c = (case tls_UTLS t of
                           Some u \<Rightarrow> (if su_Enabled u then c \<lparr> v_Fingerprint := su_Fingerprint u \<rparr> else c) | None \<Rightarrow> c)
                in case tls_Reality t of
                     Some r \<Rightarrow>
                       (if sr_Enabled r
                        then c \<lparr> v_Security := SecurityReality, v_RealityPublicKey := sr_PublicKey r, v_RealityShortID := sr_ShortID r \<rparr>
                        else c)
                   | None \<Rightarrow> c))"

definition header_host :: "(string \<times> string) list \<Rightarrow> string" where
  "header_host m = (case map_of m ''Host'' of None \<Rightarrow> [] | Some v \<Rightarrow> v)"

text \<open>\<open>None\<close>: the transport is not known.\<close>

definition sb_transport_config :: "sbOutbound \<Rightarrow> Config \<Rightarrow> Config option" where
  "sb_transport_config out c =
     (case sb_Transport out of
        None \<Rightarrow> Some c
      | Some t \<Rightarrow>
          (if tr_Type t = [] then Some c
           else let (tr, ok) = ParseTransport (tr_Type t) in
             if \<not> ok then None
             else let c = c \<lparr> v_Transport := tr \<rparr> in
               Some (if tr = TransportWS \<or> tr = TransportHTTPUpgrade \<or> tr = TransportXHTTP
                     then c \<lparr> v_Path := tr_Path t, v_WSHost := header_host (tr_Headers t) \<rparr>
                     else if tr = TransportGRPC then c \<lparr> v_GRPCServiceName := tr_ServiceName t \<rparr> else c)))"

definition sb_outbound :: "ParseResult \<Rightarrow> sbOutbound \<Rightarrow> ParseResult" where
  "sb_outbound r out =
     (if sb_Type out \<noteq> ''vless'' then (if sb_Type out \<noteq> [] then skip_one (sb_Type out) r else r)
      else if sb_ServerPort out < 1 \<or> 65535 < sb_ServerPort out then invalid_more 1 r
      else let c = zero_Config \<lparr> v_Address := sb_Server out, v_Port := word_of_int (sb_ServerPort out), v_UUID := sb_UUID out,
                     v_Flow := sb_Flow out, v_Encryption := ''none'', v_Remark := sb_Tag out, v_Security := SecurityNone,
                     v_Transport := TransportTCP \<rparr>
        in case sb_transport_config out (sb_tls_config out c) of
             None \<Rightarrow> invalid_more 1 r
           | Some c \<Rightarrow>
               (if v_Address c = [] \<or> v_UUID c = [] then invalid_more 1 r
                else case Normalize c of Inl e \<Rightarrow> invalid_more 1 r | Inr (msgs, d) \<Rightarrow> add_config d r))"

definition ParseSingbox :: "string \<Rightarrow> parse_error + ParseResult" where
  "ParseSingbox s =
     (case json_parse s of
        None \<Rightarrow> Inl ErrNotSingboxJSON
      | Some j \<Rightarrow>
          (case dec_struct [(''outbounds'', dec_slice dec_sbOutbound zero_sbOutbound)] j [] of
             None \<Rightarrow> Inl ErrNotSingboxJSON
           | Some outs \<Rightarrow> Inr (foldl sb_outbound no_result outs)))"


section \<open>parser_xray_types.go\<close>

text \<open>\<^verbatim>\<open>json.RawMessage\<close>: the value, null included, or nothing.\<close>

type_synonym raw = "json option"

definition dec_raw :: "raw dec" where
  "dec_raw v r = Some (Some v)"

definition hasJSONValue :: "raw \<Rightarrow> bool" where
  "hasJSONValue r \<longleftrightarrow> r \<noteq> None \<and> r \<noteq> Some JNull \<and> r \<noteq> Some (JObj []) \<and> r \<noteq> Some (JArr [])"

record xrayUser = xu_ID :: string xu_Encryption :: string xu_Flow :: string xu_Reverse :: raw
record xrayEndpoint = ep_Address :: string ep_Port :: int ep_Users :: "xrayUser list"
record xraySettings = xs_User :: xrayUser xs_Address :: string xs_Port :: int xs_VNext :: "xrayEndpoint list"

record xrayTLS =
  xt_ServerName :: string
  xt_Fingerprint :: string
  xt_ALPN :: "string list"
  xt_AllowInsecure :: bool
  xt_Certificates :: raw
  xt_PinnedPeerCertSHA256 :: string
  xt_VerifyPeerCertByName :: string
  xt_ECHConfigList :: string

record xrayReality =
  xr_ServerName :: string
  xr_Fingerprint :: string
  xr_PublicKey :: string
  xr_Password :: string
  xr_ShortID :: string
  xr_SpiderX :: string
  xr_Mldsa65Verify :: string

record xrayTCP = tcp_Type :: string tcp_Request :: raw

record xrayHTTP =
  xh_XPaddingKey :: string
  xh_XPaddingHeader :: string
  xh_XPaddingPlacement :: string
  xh_XPaddingMethod :: string
  xh_UplinkHTTPMethod :: string
  xh_SessionPlacement :: string
  xh_SessionKey :: string
  xh_SeqPlacement :: string
  xh_SeqKey :: string
  xh_UplinkDataPlacement :: string
  xh_UplinkDataKey :: string
  xh_XPaddingObfsMode :: bool
  xh_NoGRPCHeader :: bool
  xh_NoSSEHeader :: bool
  xh_Host :: string
  xh_Path :: string
  xh_Mode :: string
  xh_Headers :: "(string \<times> string) list"
  xh_DownloadSettings :: raw
  xh_Extra :: raw

record xrayStream =
  xs_FinalMask :: raw
  xs_Network :: string
  xs_Security :: string
  xs_StreamAddress :: string
  xs_StreamPort :: int
  xs_TLS :: xrayTLS
  xs_Reality :: xrayReality
  xs_TCP :: "xrayTCP option"
  xs_Raw :: "xrayTCP option"
  xs_WS :: xrayHTTP
  xs_HTTPUpgrade :: xrayHTTP
  xs_XHTTP :: "xrayHTTP option"
  xs_SplitHTTP :: "xrayHTTP option"
  xs_GRPCServiceName :: string
  xs_GRPCAuthority :: string
  xs_GRPCMultiMode :: bool
  xs_KCPSeed :: string
  xs_KCPHeaderType :: string
  xs_QUICSecurity :: string
  xs_QUICKey :: string
  xs_QUICHeaderType :: string
  xs_DialerProxy :: string

record xrayOutbound =
  xo_Protocol :: string
  xo_Tag :: string
  xo_Settings :: raw
  xo_Stream :: xrayStream
  xo_ProxyTag :: string

definition zero_xrayUser :: xrayUser where
  "zero_xrayUser = \<lparr> xu_ID = [], xu_Encryption = [], xu_Flow = [], xu_Reverse = None \<rparr>"

definition zero_xrayTCP :: xrayTCP where "zero_xrayTCP = \<lparr> tcp_Type = [], tcp_Request = None \<rparr>"

definition zero_xrayHTTP :: xrayHTTP where
  "zero_xrayHTTP = \<lparr> xh_XPaddingKey = [], xh_XPaddingHeader = [], xh_XPaddingPlacement = [], xh_XPaddingMethod = [],
     xh_UplinkHTTPMethod = [], xh_SessionPlacement = [], xh_SessionKey = [], xh_SeqPlacement = [], xh_SeqKey = [],
     xh_UplinkDataPlacement = [], xh_UplinkDataKey = [], xh_XPaddingObfsMode = False, xh_NoGRPCHeader = False,
     xh_NoSSEHeader = False, xh_Host = [], xh_Path = [], xh_Mode = [], xh_Headers = [], xh_DownloadSettings = None,
     xh_Extra = None \<rparr>"

definition zero_xrayStream :: xrayStream where
  "zero_xrayStream = \<lparr> xs_FinalMask = None, xs_Network = [], xs_Security = [], xs_StreamAddress = [], xs_StreamPort = 0,
     xs_TLS = \<lparr> xt_ServerName = [], xt_Fingerprint = [], xt_ALPN = [], xt_AllowInsecure = False, xt_Certificates = None,
       xt_PinnedPeerCertSHA256 = [], xt_VerifyPeerCertByName = [], xt_ECHConfigList = [] \<rparr>,
     xs_Reality = \<lparr> xr_ServerName = [], xr_Fingerprint = [], xr_PublicKey = [], xr_Password = [], xr_ShortID = [],
       xr_SpiderX = [], xr_Mldsa65Verify = [] \<rparr>,
     xs_TCP = None, xs_Raw = None, xs_WS = zero_xrayHTTP, xs_HTTPUpgrade = zero_xrayHTTP, xs_XHTTP = None, xs_SplitHTTP = None,
     xs_GRPCServiceName = [], xs_GRPCAuthority = [], xs_GRPCMultiMode = False, xs_KCPSeed = [], xs_KCPHeaderType = [],
     xs_QUICSecurity = [], xs_QUICKey = [], xs_QUICHeaderType = [], xs_DialerProxy = [] \<rparr>"

definition xrayUser_fields :: "xrayUser fields" where
  "xrayUser_fields =
     [(''id'', at_fld xu_ID xu_ID_update dec_string), (''encryption'', at_fld xu_Encryption xu_Encryption_update dec_string),
      (''flow'', at_fld xu_Flow xu_Flow_update dec_string), (''reverse'', at_fld xu_Reverse xu_Reverse_update dec_raw)]"

definition dec_xrayEndpoint :: "xrayEndpoint dec" where
  "dec_xrayEndpoint = dec_struct
     [(''address'', at_fld ep_Address ep_Address_update dec_string), (''port'', at_fld ep_Port ep_Port_update dec_go_int),
      (''users'', at_fld ep_Users ep_Users_update (dec_slice (dec_struct xrayUser_fields) zero_xrayUser))]"

text \<open>The user is embedded: its fields are fields of the settings.\<close>

definition dec_xraySettings :: "xraySettings dec" where
  "dec_xraySettings = dec_struct
     ([(''address'', at_fld xs_Address xs_Address_update dec_string), (''port'', at_fld xs_Port xs_Port_update dec_go_int),
       (''vnext'', at_fld xs_VNext xs_VNext_update
          (dec_slice dec_xrayEndpoint \<lparr> ep_Address = [], ep_Port = 0, ep_Users = [] \<rparr>))]
      @ map (\<lambda>(k, d). (k, at_fld xs_User xs_User_update d)) xrayUser_fields)"

definition dec_xrayTLS :: "xrayTLS dec" where
  "dec_xrayTLS = dec_struct
     [(''serverName'', at_fld xt_ServerName xt_ServerName_update dec_string),
      (''fingerprint'', at_fld xt_Fingerprint xt_Fingerprint_update dec_string),
      (''alpn'', at_fld xt_ALPN xt_ALPN_update (dec_slice dec_string [])),
      (''allowInsecure'', at_fld xt_AllowInsecure xt_AllowInsecure_update dec_bool),
      (''certificates'', at_fld xt_Certificates xt_Certificates_update dec_raw),
      (''pinnedPeerCertSha256'', at_fld xt_PinnedPeerCertSHA256 xt_PinnedPeerCertSHA256_update dec_string),
      (''verifyPeerCertByName'', at_fld xt_VerifyPeerCertByName xt_VerifyPeerCertByName_update dec_string),
      (''echConfigList'', at_fld xt_ECHConfigList xt_ECHConfigList_update dec_string)]"

definition dec_xrayReality :: "xrayReality dec" where
  "dec_xrayReality = dec_struct
     [(''serverName'', at_fld xr_ServerName xr_ServerName_update dec_string),
      (''fingerprint'', at_fld xr_Fingerprint xr_Fingerprint_update dec_string),
      (''publicKey'', at_fld xr_PublicKey xr_PublicKey_update dec_string),
      (''password'', at_fld xr_Password xr_Password_update dec_string),
      (''shortId'', at_fld xr_ShortID xr_ShortID_update dec_string),
      (''spiderX'', at_fld xr_SpiderX xr_SpiderX_update dec_string),
      (''mldsa65Verify'', at_fld xr_Mldsa65Verify xr_Mldsa65Verify_update dec_string)]"

definition dec_xrayTCP :: "xrayTCP dec" where
  "dec_xrayTCP = dec_struct
     [(''header'', dec_struct
         [(''type'', at_fld tcp_Type tcp_Type_update dec_string), (''request'', at_fld tcp_Request tcp_Request_update dec_raw)])]"

definition dec_xrayHTTP :: "xrayHTTP dec" where
  "dec_xrayHTTP = dec_struct
     [(''xPaddingKey'', at_fld xh_XPaddingKey xh_XPaddingKey_update dec_string),
      (''xPaddingHeader'', at_fld xh_XPaddingHeader xh_XPaddingHeader_update dec_string),
      (''xPaddingPlacement'', at_fld xh_XPaddingPlacement xh_XPaddingPlacement_update dec_string),
      (''xPaddingMethod'', at_fld xh_XPaddingMethod xh_XPaddingMethod_update dec_string),
      (''uplinkHTTPMethod'', at_fld xh_UplinkHTTPMethod xh_UplinkHTTPMethod_update dec_string),
      (''sessionPlacement'', at_fld xh_SessionPlacement xh_SessionPlacement_update dec_string),
      (''sessionKey'', at_fld xh_SessionKey xh_SessionKey_update dec_string),
      (''seqPlacement'', at_fld xh_SeqPlacement xh_SeqPlacement_update dec_string),
      (''seqKey'', at_fld xh_SeqKey xh_SeqKey_update dec_string),
      (''uplinkDataPlacement'', at_fld xh_UplinkDataPlacement xh_UplinkDataPlacement_update dec_string),
      (''uplinkDataKey'', at_fld xh_UplinkDataKey xh_UplinkDataKey_update dec_string),
      (''xPaddingObfsMode'', at_fld xh_XPaddingObfsMode xh_XPaddingObfsMode_update dec_bool),
      (''noGRPCHeader'', at_fld xh_NoGRPCHeader xh_NoGRPCHeader_update dec_bool),
      (''noSSEHeader'', at_fld xh_NoSSEHeader xh_NoSSEHeader_update dec_bool),
      (''host'', at_fld xh_Host xh_Host_update dec_string), (''path'', at_fld xh_Path xh_Path_update dec_string),
      (''mode'', at_fld xh_Mode xh_Mode_update dec_string), (''headers'', at_fld xh_Headers xh_Headers_update dec_smap),
      (''downloadSettings'', at_fld xh_DownloadSettings xh_DownloadSettings_update dec_raw),
      (''extra'', at_fld xh_Extra xh_Extra_update dec_raw)]"

definition dec_xrayStream :: "xrayStream dec" where
  "dec_xrayStream = dec_struct
     [(''finalmask'', at_fld xs_FinalMask xs_FinalMask_update dec_raw),
      (''network'', at_fld xs_Network xs_Network_update dec_string), (''security'', at_fld xs_Security xs_Security_update dec_string),
      (''address'', at_fld xs_StreamAddress xs_StreamAddress_update dec_string),
      (''port'', at_fld xs_StreamPort xs_StreamPort_update dec_go_int),
      (''tlsSettings'', at_fld xs_TLS xs_TLS_update dec_xrayTLS),
      (''realitySettings'', at_fld xs_Reality xs_Reality_update dec_xrayReality),
      (''tcpSettings'', at_fld xs_TCP xs_TCP_update (dec_ptr dec_xrayTCP zero_xrayTCP)),
      (''rawSettings'', at_fld xs_Raw xs_Raw_update (dec_ptr dec_xrayTCP zero_xrayTCP)),
      (''wsSettings'', at_fld xs_WS xs_WS_update dec_xrayHTTP),
      (''httpupgradeSettings'', at_fld xs_HTTPUpgrade xs_HTTPUpgrade_update dec_xrayHTTP),
      (''xhttpSettings'', at_fld xs_XHTTP xs_XHTTP_update (dec_ptr dec_xrayHTTP zero_xrayHTTP)),
      (''splithttpSettings'', at_fld xs_SplitHTTP xs_SplitHTTP_update (dec_ptr dec_xrayHTTP zero_xrayHTTP)),
      (''grpcSettings'', dec_struct
         [(''serviceName'', at_fld xs_GRPCServiceName xs_GRPCServiceName_update dec_string),
          (''authority'', at_fld xs_GRPCAuthority xs_GRPCAuthority_update dec_string),
          (''multiMode'', at_fld xs_GRPCMultiMode xs_GRPCMultiMode_update dec_bool)]),
      (''kcpSettings'', dec_struct
         [(''seed'', at_fld xs_KCPSeed xs_KCPSeed_update dec_string),
          (''header'', dec_struct [(''type'', at_fld xs_KCPHeaderType xs_KCPHeaderType_update dec_string)])]),
      (''quicSettings'', dec_struct
         [(''security'', at_fld xs_QUICSecurity xs_QUICSecurity_update dec_string),
          (''key'', at_fld xs_QUICKey xs_QUICKey_update dec_string),
          (''header'', dec_struct [(''type'', at_fld xs_QUICHeaderType xs_QUICHeaderType_update dec_string)])]),
      (''sockopt'', dec_struct [(''dialerProxy'', at_fld xs_DialerProxy xs_DialerProxy_update dec_string)])]"

definition dec_xrayOutbound :: "xrayOutbound dec" where
  "dec_xrayOutbound = dec_struct
     [(''protocol'', at_fld xo_Protocol xo_Protocol_update dec_string), (''tag'', at_fld xo_Tag xo_Tag_update dec_string),
      (''settings'', at_fld xo_Settings xo_Settings_update dec_raw),
      (''streamSettings'', at_fld xo_Stream xo_Stream_update dec_xrayStream),
      (''proxySettings'', dec_struct [(''tag'', at_fld xo_ProxyTag xo_ProxyTag_update dec_string)])]"

text \<open>A document: its remarks, and its outbounds unless the slice is nil.\<close>

record xrayDocument = xd_Remarks :: string xd_Outbounds :: "json list option"

definition dec_raws :: "json list option dec" where
  "dec_raws v r = (case v of JNull \<Rightarrow> Some None | JArr vs \<Rightarrow> Some (Some vs) | _ \<Rightarrow> None)"

definition dec_xrayDocument :: "xrayDocument dec" where
  "dec_xrayDocument = dec_struct
     [(''remarks'', at_fld xd_Remarks xd_Remarks_update dec_string),
      (''outbounds'', at_fld xd_Outbounds xd_Outbounds_update dec_raws)]"

section \<open>parser_xray_stream.go\<close>

text \<open>The two flags of the code: not supported, supported but not valid, or the configuration.\<close>

datatype stream_result = Unsupported | InvalidStream | Applied Config

definition unsupportedXrayHTTP :: "xrayHTTP \<Rightarrow> bool" where
  "unsupportedXrayHTTP h \<longleftrightarrow>
     hasJSONValue (xh_DownloadSettings h) \<or> xh_XPaddingObfsMode h \<or> xh_NoGRPCHeader h \<or> xh_NoSSEHeader h \<or>
     xh_XPaddingKey h \<noteq> [] \<or> xh_XPaddingHeader h \<noteq> [] \<or> xh_XPaddingPlacement h \<noteq> [] \<or> xh_XPaddingMethod h \<noteq> [] \<or>
     xh_UplinkHTTPMethod h \<noteq> [] \<or> xh_SessionPlacement h \<noteq> [] \<or> xh_SessionKey h \<noteq> [] \<or> xh_SeqPlacement h \<noteq> [] \<or>
     xh_SeqKey h \<noteq> [] \<or> xh_UplinkDataPlacement h \<noteq> [] \<or> xh_UplinkDataKey h \<noteq> []"

fun header_loop :: "(string \<times> string) list \<Rightarrow> Config \<Rightarrow> stream_result" where
  "header_loop [] c = Applied c"
| "header_loop ((k, v) # m) c =
     (if foldName k \<noteq> foldName ''Host'' then Unsupported
      else header_loop m (if v_WSHost c = [] then c \<lparr> v_WSHost := v \<rparr> else c))"

type_synonym iteration = "(string \<times> string) list \<Rightarrow> (string \<times> string) list"

definition applyXrayHTTP :: "iteration \<Rightarrow> Config \<Rightarrow> xrayHTTP \<Rightarrow> stream_result" where
  "applyXrayHTTP iter c h = header_loop (iter (xh_Headers h)) (c \<lparr> v_Path := xh_Path h, v_WSHost := xh_Host h \<rparr>)"

definition apply_security :: "xrayStream \<Rightarrow> Config \<Rightarrow> Config option" where
  "apply_security s c =
     (let t = xs_TLS s; r = xs_Reality s in
      if v_Security c = SecurityTLS then
        (if hasJSONValue (xt_Certificates t) \<or> xt_PinnedPeerCertSHA256 t \<noteq> [] \<or> xt_VerifyPeerCertByName t \<noteq> [] \<or> xt_ECHConfigList t \<noteq> []
         then None
         else Some (c \<lparr> v_SNI := xt_ServerName t, v_ALPN := xt_ALPN t, v_Fingerprint := xt_Fingerprint t, v_AllowInsecure := xt_AllowInsecure t \<rparr>))
      else if v_Security c = SecurityReality then
        (if xr_Mldsa65Verify r \<noteq> [] then None
         else Some (c \<lparr> v_SNI := xr_ServerName r, v_Fingerprint := xr_Fingerprint r,
                v_RealityPublicKey := (if xr_Password r \<noteq> [] then xr_Password r else xr_PublicKey r),
                v_RealityShortID := xr_ShortID r, v_RealitySpiderX := xr_SpiderX r \<rparr>))
      else Some c)"

definition stream_xhttp :: "iteration \<Rightarrow> xrayHTTP \<Rightarrow> Config \<Rightarrow> stream_result" where
  "stream_xhttp iter h c =
     (if unsupportedXrayHTTP h then Unsupported
      else let go = applyXrayHTTP iter (c \<lparr> v_XHTTPMode := xh_Mode h \<rparr>) h in
        if \<not> hasJSONValue (xh_Extra h) then go
        else case dec_xrayHTTP (the (xh_Extra h)) zero_xrayHTTP of
          None \<Rightarrow> InvalidStream
        | Some extra \<Rightarrow> (if unsupportedXrayHTTP extra \<or> xh_Headers extra \<noteq> [] then Unsupported else go))"

definition apply_transport :: "iteration \<Rightarrow> xrayStream \<Rightarrow> Config \<Rightarrow> stream_result" where
  "apply_transport iter s c =
     (let tr = v_Transport c in
      if tr = TransportTCP then
        (case (case xs_Raw s of Some r \<Rightarrow> Some r | None \<Rightarrow> xs_TCP s) of
           None \<Rightarrow> Applied c
         | Some tcp \<Rightarrow> (if hasJSONValue (tcp_Request tcp) then Unsupported else Applied (c \<lparr> v_HeaderType := tcp_Type tcp \<rparr>)))
      else if tr = TransportWS then applyXrayHTTP iter c (xs_WS s)
      else if tr = TransportHTTPUpgrade then applyXrayHTTP iter c (xs_HTTPUpgrade s)
      else if tr = TransportXHTTP then
        (case (case xs_XHTTP s of Some h \<Rightarrow> Some h | None \<Rightarrow> xs_SplitHTTP s) of
           None \<Rightarrow> Applied c | Some h \<Rightarrow> stream_xhttp iter h c)
      else if tr = TransportGRPC then
        (if xs_GRPCAuthority s \<noteq> [] then Unsupported
         else Applied (c \<lparr> v_GRPCServiceName := xs_GRPCServiceName s,
                           v_GRPCMode := (if xs_GRPCMultiMode s then ''multi'' else v_GRPCMode c) \<rparr>))
      else if tr = TransportMKCP then Applied (c \<lparr> v_Seed := xs_KCPSeed s, v_HeaderType := xs_KCPHeaderType s \<rparr>)
      else if tr = TransportQUIC then
        Applied (c \<lparr> v_QUICSec := xs_QUICSecurity s, v_QUICKey := xs_QUICKey s, v_HeaderType := xs_QUICHeaderType s \<rparr>)
      else Applied c)"

definition applyXrayStream :: "iteration \<Rightarrow> Config \<Rightarrow> xrayStream \<Rightarrow> stream_result" where
  "applyXrayStream iter c s =
     (if xs_StreamAddress s \<noteq> [] \<or> xs_StreamPort s \<noteq> 0 \<or> hasJSONValue (xs_FinalMask s) then Unsupported
      else let network = (if xs_Network s = ''raw'' then ''tcp'' else if xs_Network s = ''splithttp'' then ''xhttp'' else xs_Network s);
               (transport, ok) = ParseTransport network;
               (security, ok') = ParseSecurity (xs_Security s)
        in if \<not> ok \<or> \<not> ok' then InvalidStream
           else case apply_security s (c \<lparr> v_Transport := transport, v_Security := security \<rparr>) of
             None \<Rightarrow> Unsupported
           | Some d \<Rightarrow> apply_transport iter s d)"

section \<open>parser_xray.go\<close>

definition safeProtocol :: "string \<Rightarrow> string" where
  "safeProtocol protocol =
     (let p = ToLower protocol in if 32 < length p \<or> \<not> validScheme p then ''unknown'' else p)"

text \<open>The users of an endpoint, as configurations and a count of invalid ones; \<open>None\<close> for a reverse proxy.\<close>

fun user_loop :: "Config \<Rightarrow> xrayEndpoint \<Rightarrow> xrayUser list \<Rightarrow> (Config list \<times> nat) option" where
  "user_loop base ep [] = Some ([], 0)"
| "user_loop base ep (user # users) =
     (if hasJSONValue (xu_Reverse user) then None
      else case user_loop base ep users of
        None \<Rightarrow> None
      | Some (cs, n) \<Rightarrow>
          (if TrimSpace (xu_ID user) = [] then Some (cs, n + 1)
           else let c = base \<lparr> v_Address := TrimSpace (ep_Address ep), v_Port := word_of_int (ep_Port ep), v_UUID := xu_ID user,
                          v_Flow := xu_Flow user,
                          v_Encryption := (if xu_Encryption user \<noteq> [] then xu_Encryption user else v_Encryption base) \<rparr>
             in case Normalize c of
                  Inl e \<Rightarrow> Some (cs, n + 1)
                | Inr (msgs, d) \<Rightarrow> (if v_Flow d \<noteq> xu_Flow user then Some (cs, n + 1) else Some (d # cs, n))))"

fun endpoint_loop :: "Config \<Rightarrow> xrayEndpoint list \<Rightarrow> (Config list \<times> nat) option" where
  "endpoint_loop base [] = Some ([], 0)"
| "endpoint_loop base (ep # eps) =
     (if TrimSpace (ep_Address ep) = [] \<or> ep_Port ep < 1 \<or> 65535 < ep_Port ep \<or> ep_Users ep = []
      then map_option (\<lambda>(cs, n). (cs, n + 1)) (endpoint_loop base eps)
      else case (user_loop base ep (ep_Users ep), endpoint_loop base eps) of
        (Some (cs, n), Some (cs', n')) \<Rightarrow> Some (cs @ cs', n + n') | _ \<Rightarrow> None)"

text \<open>Configurations, whether the outbound is too complex, and the count of invalid entries.\<close>

definition parseXrayOutbound :: "iteration \<Rightarrow> xrayOutbound \<Rightarrow> Config list \<times> bool \<times> nat" where
  "parseXrayOutbound iter out =
     (if xo_ProxyTag out \<noteq> [] \<or> xs_DialerProxy (xo_Stream out) \<noteq> [] then ([], True, 0)
      else case xo_Settings out of
        None \<Rightarrow> ([], False, 1)
      | Some j \<Rightarrow>
          (case dec_xraySettings j \<lparr> xs_User = zero_xrayUser, xs_Address = [], xs_Port = 0, xs_VNext = [] \<rparr> of
             None \<Rightarrow> ([], False, 1)
           | Some settings \<Rightarrow>
               (let endpoints = (if xs_Address settings \<noteq> []
                      then [\<lparr> ep_Address = xs_Address settings, ep_Port = xs_Port settings, ep_Users = [xs_User settings] \<rparr>]
                      else xs_VNext settings);
                    base = zero_Config \<lparr> v_Remark := TrimSpace (xo_Tag out), v_Encryption := ''none'' \<rparr>
                in if endpoints = [] then ([], False, 1)
                   else case applyXrayStream iter base (xo_Stream out) of
                     Unsupported \<Rightarrow> ([], True, 0)
                   | InvalidStream \<Rightarrow> ([], False, 1)
                   | Applied c \<Rightarrow>
                       (case endpoint_loop c endpoints of None \<Rightarrow> ([], True, 0) | Some (cs, n) \<Rightarrow> (cs, False, n)))))"


definition zero_xrayOutbound :: xrayOutbound where
  "zero_xrayOutbound = \<lparr> xo_Protocol = [], xo_Tag = [], xo_Settings = None, xo_Stream = zero_xrayStream, xo_ProxyTag = [] \<rparr>"

text \<open>One outbound of a document: the result, whether anything was recognized, the configurations of the document.\<close>

definition read_outbound :: "iteration \<Rightarrow> ParseResult \<times> bool \<times> Config list \<Rightarrow> json \<Rightarrow> ParseResult \<times> bool \<times> Config list" where
  "read_outbound iter acc raw =
     (case acc of (r, recognized, configs) \<Rightarrow>
        if jget raw ''protocol'' = None then (invalid_more 1 r, recognized, configs)
        else case dec_struct [(''protocol'', dec_string)] raw [] of
          None \<Rightarrow> (invalid_more 1 r, True, configs)
        | Some protocol \<Rightarrow>
            (if protocol = ''freedom'' \<or> protocol = ''blackhole'' \<or> protocol = ''dns'' then (r, True, configs)
             else if protocol \<noteq> ''vless'' then (skip_one (safeProtocol protocol) r, True, configs)
             else case dec_xrayOutbound raw zero_xrayOutbound of
               None \<Rightarrow> (invalid_more 1 r, True, configs)
             | Some out \<Rightarrow>
                 (case parseXrayOutbound iter out of (nodes, complex, invalid) \<Rightarrow>
                    if complex then (skip_one ''xray-complex'' (invalid_more invalid r), True, configs)
                    else (invalid_more invalid r, True, configs @ nodes))))"

text \<open>\<open>seen\<close> maps a connection to its place in the result, \<open>named\<close> holds those that have a preferred name.\<close>

record xray_state =
  xy_Result :: ParseResult
  xy_Seen :: "(string \<times> nat) list"
  xy_Named :: "string list"
  xy_Recognized :: bool

definition xray_add :: "(string \<Rightarrow> string) \<Rightarrow> string option \<Rightarrow> xray_state \<Rightarrow> Config \<Rightarrow> xray_state" where
  "xray_add sha preferred st c0 =
     (let c = (case preferred of Some name \<Rightarrow> c0 \<lparr> v_Remark := name \<rparr> | None \<Rightarrow> c0);
          key = ConnectionID sha c; r = xy_Result st
      in case map_of (xy_Seen st) key of
           Some index \<Rightarrow>
             (if preferred \<noteq> None \<and> key \<notin> set (xy_Named st)
              then st \<lparr> xy_Result := r \<lparr> pr_Configs := (pr_Configs r)[index := c] \<rparr>, xy_Named := key # xy_Named st \<rparr>
              else st)
         | None \<Rightarrow>
             st \<lparr> xy_Result := add_config c r, xy_Seen := (key, length (pr_Configs r)) # xy_Seen st,
                  xy_Named := (if preferred \<noteq> None then key # xy_Named st else xy_Named st) \<rparr>)"

definition xray_document :: "(string \<Rightarrow> string) \<Rightarrow> iteration \<Rightarrow> xray_state \<Rightarrow> json option \<Rightarrow> xray_state" where
  "xray_document sha iter st rawDoc =
     (case Option.bind rawDoc (\<lambda>j. dec_xrayDocument j \<lparr> xd_Remarks = [], xd_Outbounds = None \<rparr>) of
        None \<Rightarrow> st \<lparr> xy_Result := invalid_more 1 (xy_Result st) \<rparr>
      | Some doc \<Rightarrow>
          (case xd_Outbounds doc of
             None \<Rightarrow> st \<lparr> xy_Result := invalid_more 1 (xy_Result st) \<rparr>
           | Some outs \<Rightarrow>
               (case foldl (read_outbound iter) (xy_Result st, xy_Recognized st, []) outs of (r, recognized, configs) \<Rightarrow>
                  foldl (xray_add sha (if length configs = 1 \<and> TrimSpace (xd_Remarks doc) \<noteq> []
                                       then Some (TrimSpace (xd_Remarks doc)) else None))
                    (st \<lparr> xy_Result := r, xy_Recognized := recognized \<rparr>) configs)))"

text \<open>The documents: the elements of an array, or the whole text, which may be no JSON.\<close>

definition xray_docs :: "string \<Rightarrow> json option list option" where
  "xray_docs body =
     (if HasPrefix (TrimSpace body) ''['' then (case json_parse body of Some (JArr js) \<Rightarrow> Some (map Some js) | _ \<Rightarrow> None)
      else Some [json_parse body])"

definition ParseXray :: "(string \<Rightarrow> string) \<Rightarrow> iteration \<Rightarrow> string \<Rightarrow> parse_error + ParseResult" where
  "ParseXray sha iter body =
     (case xray_docs body of
        None \<Rightarrow> Inl ErrNotXrayJSON
      | Some docs \<Rightarrow>
          (let st = foldl (xray_document sha iter)
                      \<lparr> xy_Result = no_result, xy_Seen = [], xy_Named = [], xy_Recognized = False \<rparr> docs
           in if xy_Recognized st then Inr (xy_Result st) else Inl ErrNotXrayJSON))"

section \<open>detector.go and parser_base64.go\<close>

definition found_any :: "ParseResult \<Rightarrow> bool" where
  "found_any r \<longleftrightarrow> 0 < length (pr_Configs r) + pr_Invalid r + sumSkipped (pr_Skipped r)"

definition parseJSON :: "(string \<Rightarrow> string) \<Rightarrow> iteration \<Rightarrow> string \<Rightarrow> parse_error + ParseResult" where
  "parseJSON sha iter body =
     (case ParseXray sha iter body of
        Inr r \<Rightarrow> Inr r
      | Inl e \<Rightarrow>
          (case ParseSingbox body of
             Inr r \<Rightarrow> (if found_any r then Inr r else Inl ErrUnrecognizedFormat) | Inl e' \<Rightarrow> Inl ErrUnrecognizedFormat))"

definition base64_decoders :: "(string \<times> bool) list" where
  "base64_decoders = [(std_alphabet, True), (url_alphabet, True), (std_alphabet, False), (url_alphabet, False)]"

definition decode_any :: "string \<Rightarrow> string option" where
  "decode_any clean =
     (case find (\<lambda>(alph, padded). b64_decode alph padded clean \<noteq> None) base64_decoders of
        None \<Rightarrow> None | Some (alph, padded) \<Rightarrow> b64_decode alph padded clean)"

definition looks_json :: "string \<Rightarrow> bool" where
  "looks_json s \<longleftrightarrow> HasPrefix s ''{'' \<or> HasPrefix s ''[''"

definition ParseBase64 :: "(string \<Rightarrow> string) \<Rightarrow> iteration \<Rightarrow> string \<Rightarrow> parse_error + ParseResult" where
  "ParseBase64 sha iter s =
     (let clean = filter (\<lambda>c. c \<notin> {CHR 0x0A, CHR 0x0D, CHR '' '', CHR 0x09}) s in
      case decode_any clean of
        None \<Rightarrow> Inl ErrNotBase64
      | Some decoded \<Rightarrow>
          (let body = TrimSpace decoded in if looks_json body then parseJSON sha iter body else ParsePlaintext body))"

definition Sub_Parse :: "(string \<Rightarrow> string) \<Rightarrow> iteration \<Rightarrow> string \<Rightarrow> parse_error + ParseResult" where
  "Sub_Parse sha iter body =
     (let trimmed = TrimSpace body in
      if trimmed = [] then Inl ErrEmptyBody
      else if looks_json trimmed then parseJSON sha iter trimmed
      else case ParseBase64 sha iter trimmed of
        Inr r \<Rightarrow> (if found_any r then Inr r else ParsePlaintext trimmed)
      | Inl e \<Rightarrow> (if e \<noteq> ErrNotBase64 then Inl e else ParsePlaintext trimmed))"

section \<open>sync.go\<close>

record SyncMeta =
  sm_LastUpdate :: int
  sm_Status :: string
  sm_Message :: string
  sm_Headers :: Headers

definition no_headers :: Headers where
  "no_headers = \<lparr> hd_Userinfo = None, hd_UpdateInterval = 0, hd_ProfileTitle = [] \<rparr>"

definition error_text :: "parse_error \<Rightarrow> string" where
  "error_text e =
     (case e of ErrEmptyBody \<Rightarrow> ''empty subscription body'' | ErrUnrecognizedFormat \<Rightarrow> ''unrecognized subscription format / empty response''
      | ErrNotBase64 \<Rightarrow> ''not base64'' | ErrNotXrayJSON \<Rightarrow> ''not an Xray JSON subscription''
      | ErrNotSingboxJSON \<Rightarrow> ''not a sing-box JSON document'' | ErrTooLong \<Rightarrow> ''bufio.Scanner: token too long'')"

definition noServersError :: "ParseResult \<Rightarrow> string" where
  "noServersError parsed =
     (if pr_Invalid parsed = 0 \<and> sumSkipped (pr_Skipped parsed) = 0 then error_text ErrUnrecognizedFormat
      else ''no usable VLESS servers: invalid='' @ nat_str (pr_Invalid parsed) @ '' skipped='' @ nat_str (sumSkipped (pr_Skipped parsed))
           @ '' protocols='' @ join '','' (sort (map (\<lambda>p. safeProtocol (fst p)) (pr_Skipped parsed))))"

text \<open>\<open>redact\<close> is \<^verbatim>\<open>logging.RedactError\<close>, \<open>fetch\<close> the outcome of \<^verbatim>\<open>Fetch\<close>.\<close>

definition FetchParse :: "(string \<Rightarrow> string) \<Rightarrow> iteration \<Rightarrow> (sync_error \<Rightarrow> string) \<Rightarrow> int \<Rightarrow> string
    \<Rightarrow> sync_error + string \<times> Headers \<Rightarrow> Server list \<times> SyncMeta \<times> sync_error option" where
  "FetchParse sha iter redact now sid fetch =
     (let failed = (\<lambda>h e. ([], \<lparr> sm_LastUpdate = now, sm_Status = ''error'', sm_Message = redact e, sm_Headers = h \<rparr>, Some e)) in
      case fetch of
        Inl e \<Rightarrow> failed no_headers e
      | Inr (body, headers) \<Rightarrow>
          (case Sub_Parse sha iter body of
             Inl e \<Rightarrow> failed headers (OtherError (error_text e))
           | Inr parsed \<Rightarrow>
               (if pr_Configs parsed = [] then failed headers (OtherError (noServersError parsed))
                else let incoming = map (\<lambda>c. New sha c OriginSubscription sid) (unique_by (ConnectionID sha) [] (pr_Configs parsed)) in
                  (incoming,
                   \<lparr> sm_LastUpdate = now, sm_Status = ''ok'',
                     sm_Message = ''imported='' @ nat_str (length incoming) @ '' invalid='' @ nat_str (pr_Invalid parsed)
                        @ '' skipped='' @ nat_str (sumSkipped (pr_Skipped parsed)),
                     sm_Headers = headers \<rparr>, None))))"

text \<open>\<^verbatim>\<open>Sync\<close>; \<open>None\<close> when the merge does not end.\<close>

definition Sync :: "(string \<Rightarrow> string) \<Rightarrow> iteration \<Rightarrow> (sync_error \<Rightarrow> string) \<Rightarrow> int \<Rightarrow> string \<Rightarrow> Server list
    \<Rightarrow> sync_error + string \<times> Headers \<Rightarrow> (Server list \<times> SyncMeta \<times> sync_error option) option" where
  "Sync sha iter redact now sid existing fetch =
     (case FetchParse sha iter redact now sid fetch of
        (incoming, meta, Some e) \<Rightarrow> Some ([], meta, Some e)
      | (incoming, meta, None) \<Rightarrow>
          map_option (\<lambda>merged. (merged, meta, None)) (Merge sha existing incoming sid))"


section \<open>What the parsers return\<close>

text \<open>A configuration that can be handed to a core.\<close>

definition usable :: "Config \<Rightarrow> bool" where
  "usable c \<longleftrightarrow> v_Address c \<noteq> [] \<and> v_UUID c \<noteq> [] \<and> v_Port c \<noteq> 0 \<and> security_ok (v_Security c) \<and>
     transport_ok (v_Transport c) \<and> compatible c"

abbreviation all_usable :: "ParseResult \<Rightarrow> bool" where
  "all_usable r \<equiv> list_all usable (pr_Configs r)"

lemma Normalize_usable:
  assumes "Normalize c = Inr (msgs, d)" "v_Address c \<noteq> []" "v_UUID c \<noteq> []" "v_Port c \<noteq> 0"
    "security_ok (v_Security c)" "transport_ok (v_Transport c)"
  shows "usable d"
  using Normalize_Inr [OF assms(1)] assms(2-) by (auto simp: usable_def compatible_def flow_ok_def)

lemma result_frame [simp]:
  "pr_Configs (skip_one k r) = pr_Configs r" "pr_Configs (invalid_more n r) = pr_Configs r"
  "pr_Configs (add_config c r) = pr_Configs r @ [c]" "pr_Configs no_result = []"
  by (simp_all add: skip_one_def invalid_more_def add_config_def no_result_def)

lemma foldl_invariant: "P a \<Longrightarrow> (\<And>a x. P a \<Longrightarrow> P (f a x)) \<Longrightarrow> P (foldl f a xs)"
  by (induction xs arbitrary: a) auto

lemma plain_line_usable: "all_usable r \<Longrightarrow> all_usable (plain_line r raw)"
  using parsed_link [of "TrimSpace raw"] Normalize_usable
  by (auto simp: plain_line_def Let_def split: sum.split)

lemma ParsePlaintext_usable: "ParsePlaintext s = Inr r \<Longrightarrow> all_usable r"
  unfolding ParsePlaintext_def Let_def
  by (auto split: if_splits intro!: foldl_invariant [where P = all_usable] plain_line_usable)

lemma plain_ok [simp]: "security_ok SecurityNone" "transport_ok TransportTCP"
  by (simp_all add: security_ok_def transport_ok_def)

lemma sb_tls_fields:
  "v_Address (sb_tls_config out c) = v_Address c" "v_UUID (sb_tls_config out c) = v_UUID c" "v_Port (sb_tls_config out c) = v_Port c"
  "v_Transport (sb_tls_config out c) = v_Transport c" "security_ok (v_Security c) \<Longrightarrow> security_ok (v_Security (sb_tls_config out c))"
  by (simp_all add: sb_tls_config_def security_ok_def Let_def split: option.split)

lemma sb_transport_fields:
  assumes "sb_transport_config out c = Some d"
  shows "v_Address d = v_Address c" "v_UUID d = v_UUID c" "v_Port d = v_Port c" "v_Security d = v_Security c"
    "transport_ok (v_Transport c) \<Longrightarrow> transport_ok (v_Transport d)"
  using assms ParseTransport_ok
  by (auto simp: sb_transport_config_def Let_def split: option.splits if_splits prod.splits)

lemma sb_outbound_usable: "all_usable r \<Longrightarrow> all_usable (sb_outbound r out)"
proof -
  assume r: "all_usable r"
  let ?c = "sb_tls_config out (zero_Config \<lparr> v_Address := sb_Server out, v_Port := word_of_int (sb_ServerPort out), v_UUID := sb_UUID out,
      v_Flow := sb_Flow out, v_Encryption := ''none'', v_Remark := sb_Tag out, v_Security := SecurityNone, v_Transport := TransportTCP \<rparr>)"
  have "usable e" if "\<not> sb_ServerPort out < 1" "\<not> 65535 < sb_ServerPort out" "sb_transport_config out ?c = Some d"
      "v_Address d \<noteq> []" "v_UUID d \<noteq> []" "Normalize d = Inr (msgs, e)" for d msgs e
  proof (rule Normalize_usable [OF that(6,4,5)])
    show "v_Port d \<noteq> 0" using sb_transport_fields(3) [OF that(3)] port_word that(1,2) by (simp add: sb_tls_fields)
    show "security_ok (v_Security d)"
      using sb_transport_fields(4) [OF that(3)] by (simp add: sb_tls_fields)
    show "transport_ok (v_Transport d)"
      using sb_transport_fields(5) [OF that(3)] by (simp add: sb_tls_fields)
  qed
  then show ?thesis using r by (auto simp: sb_outbound_def Let_def split: option.split sum.split)
qed

lemma ParseSingbox_usable: "ParseSingbox s = Inr r \<Longrightarrow> all_usable r"
  unfolding ParseSingbox_def
  by (auto split: option.splits intro!: foldl_invariant [where P = all_usable] sb_outbound_usable)

lemma header_loop_fields:
  assumes "header_loop m c = Applied d"
  shows "v_Security d = v_Security c \<and> v_Transport d = v_Transport c"
  using assms by (induction m c rule: header_loop.induct) (auto split: if_splits)

lemma applyXrayHTTP_fields:
  "applyXrayHTTP iter c h = Applied d \<Longrightarrow> v_Security d = v_Security c \<and> v_Transport d = v_Transport c"
  using header_loop_fields [of "iter (xh_Headers h)"] by (auto simp: applyXrayHTTP_def)

lemma stream_transport_fields:
  "apply_transport iter s c = Applied d \<Longrightarrow> v_Security d = v_Security c \<and> v_Transport d = v_Transport c"
  using applyXrayHTTP_fields
  by (fastforce simp: apply_transport_def stream_xhttp_def Let_def split: if_splits option.splits)

lemma stream_security_fields:
  "apply_security s c = Some d \<Longrightarrow> v_Security d = v_Security c \<and> v_Transport d = v_Transport c"
  by (auto simp: apply_security_def Let_def split: if_splits)

lemma applyXrayStream_ok:
  assumes "applyXrayStream iter c s = Applied d"
  shows "security_ok (v_Security d) \<and> transport_ok (v_Transport d)"
proof -
  from assms obtain n tr sec e where "ParseTransport n = (tr, True)" "ParseSecurity (xs_Security s) = (sec, True)"
      "apply_security s (c \<lparr> v_Transport := tr, v_Security := sec \<rparr>) = Some e" "apply_transport iter s e = Applied d"
    unfolding applyXrayStream_def Let_def by (auto split: if_splits prod.splits option.splits)
  then show ?thesis
    using stream_security_fields stream_transport_fields ParseTransport_ok ParseSecurity_ok by fastforce
qed


lemma user_loop_usable:
  assumes "user_loop base ep users = Some (cs, n)" "TrimSpace (ep_Address ep) \<noteq> []" "1 \<le> ep_Port ep" "ep_Port ep \<le> 65535"
    "security_ok (v_Security base)" "transport_ok (v_Transport base)"
  shows "list_all usable cs"
  using assms(1)
proof (induction users arbitrary: cs n)
  case (Cons user users)
  from Cons.prems obtain cs0 n0 where u: "user_loop base ep users = Some (cs0, n0)"
    by (auto split: if_splits option.splits)
  let ?c = "base \<lparr> v_Address := TrimSpace (ep_Address ep), v_Port := word_of_int (ep_Port ep), v_UUID := xu_ID user,
      v_Flow := xu_Flow user, v_Encryption := (if xu_Encryption user \<noteq> [] then xu_Encryption user else v_Encryption base) \<rparr>"
  have "usable d" if "TrimSpace (xu_ID user) \<noteq> []" "Normalize ?c = Inr (msgs, d)" for msgs d
  proof -
    have "xu_ID user \<noteq> []" using that(1) by auto
    then show ?thesis using assms(2-) port_word by (intro Normalize_usable [OF that(2)]) simp_all
  qed
  then show ?case using Cons.prems Cons.IH [OF u] u
    by (auto simp: Let_def split: if_splits sum.splits)
qed simp

lemma endpoint_loop_usable:
  assumes "endpoint_loop base eps = Some (cs, n)" "security_ok (v_Security base)" "transport_ok (v_Transport base)"
  shows "list_all usable cs"
  using assms(1)
proof (induction eps arbitrary: cs n)
  case (Cons ep eps)
  then show ?case
    using user_loop_usable [OF _ _ _ _ assms(2,3), of ep "ep_Users ep"]
    by (auto split: if_splits option.splits)
qed simp

lemma parseXrayOutbound_usable:
  assumes "parseXrayOutbound iter out = (cs, complex, n)"
  shows "list_all usable cs"
proof (cases "cs = []")
  case False
  with assms obtain base d eps where a: "applyXrayStream iter base (xo_Stream out) = Applied d" "endpoint_loop d eps = Some (cs, n)"
    unfolding parseXrayOutbound_def Let_def
    by (auto simp del: endpoint_loop.simps split: if_split_asm option.split_asm stream_result.split_asm)
  then show ?thesis using endpoint_loop_usable [OF a(2)] applyXrayStream_ok [OF a(1)] by blast
qed simp

lemma read_outbound_usable:
  assumes "all_usable (fst acc)" "list_all usable (snd (snd acc))"
  shows "all_usable (fst (read_outbound iter acc raw)) \<and> list_all usable (snd (snd (read_outbound iter acc raw)))"
  using assms parseXrayOutbound_usable
  by (auto simp: read_outbound_def split: prod.split option.split)

text \<open>The state of the xray parser: the result is usable, and \<open>seen\<close> gives the place of each connection.\<close>

definition xray_inv :: "(string \<Rightarrow> string) \<Rightarrow> xray_state \<Rightarrow> bool" where
  "xray_inv sha st \<longleftrightarrow>
     all_usable (xy_Result st) \<and>
     (\<forall>key index. map_of (xy_Seen st) key = Some index \<longleftrightarrow>
        index < length (pr_Configs (xy_Result st)) \<and> ConnectionID sha (pr_Configs (xy_Result st) ! index) = key)"

lemma ConnectionID_remark [simp]: "ConnectionID sha (c \<lparr> v_Remark := name \<rparr>) = ConnectionID sha c"
  by (simp add: ConnectionID_def)

lemma usable_remark [simp]: "usable (c \<lparr> v_Remark := name \<rparr>) = usable c"
  by (simp add: usable_def compatible_def flow_ok_def)

lemma xray_add_inv:
  assumes "xray_inv sha st" "usable c"
  shows "xray_inv sha (xray_add sha preferred st c)"
proof -
  define d where "d = (case preferred of Some name \<Rightarrow> c \<lparr> v_Remark := name \<rparr> | None \<Rightarrow> c)"
  let ?cs = "pr_Configs (xy_Result st)"
  have d: "usable d" "ConnectionID sha d = ConnectionID sha c" using assms(2) by (auto simp: d_def split: option.split)
  note inv = assms(1) [unfolded xray_inv_def]
  show ?thesis
  proof (cases "map_of (xy_Seen st) (ConnectionID sha d)")
    case None
    have "xray_add sha preferred st c =
        st \<lparr> xy_Result := add_config d (xy_Result st), xy_Seen := (ConnectionID sha d, length ?cs) # xy_Seen st,
             xy_Named := (if preferred \<noteq> None then ConnectionID sha d # xy_Named st else xy_Named st) \<rparr>"
      using None by (simp add: xray_add_def d_def [symmetric] Let_def)
    moreover have "ConnectionID sha (?cs ! i) \<noteq> ConnectionID sha d" if "i < length ?cs" for i
      using inv None that by (metis option.distinct(1))
    ultimately show ?thesis using inv d by (auto simp: xray_inv_def nth_append less_Suc_eq)
  next
    case (Some index)
    then have i: "index < length ?cs" "ConnectionID sha (?cs ! index) = ConnectionID sha d" using inv by blast+
    have "list_all usable (?cs[index := d])"
      using inv d(1) i(1) by (auto simp: list_all_length nth_list_update)
    moreover have "ConnectionID sha (?cs[index := d] ! j) = ConnectionID sha (?cs ! j)" if "j < length ?cs" for j
      using i that by (cases "index = j") simp_all
    ultimately show ?thesis
      using inv Some unfolding xray_add_def d_def [symmetric] Let_def xray_inv_def by (auto simp: Some)
  qed
qed


lemma xray_outbounds_frame:
  assumes "foldl (read_outbound iter) (r, recognized, []) raws = (r', recognized', configs)" "all_usable r"
  shows "pr_Configs r' = pr_Configs r \<and> list_all usable configs"
proof -
  let ?P = "\<lambda>acc :: ParseResult \<times> bool \<times> Config list. pr_Configs (fst acc) = pr_Configs r \<and> list_all usable (snd (snd acc))"
  have "?P (foldl (read_outbound iter) (r, recognized, []) raws)"
  proof (rule foldl_invariant [where P = ?P])
    fix acc raw assume "?P acc"
    then show "?P (read_outbound iter acc raw)"
      using parseXrayOutbound_usable by (auto simp: read_outbound_def split: prod.split option.split)
  qed simp
  then show ?thesis using assms(1) by simp
qed

lemma foldl_all: "P a \<Longrightarrow> list_all Q xs \<Longrightarrow> (\<And>a x. P a \<Longrightarrow> Q x \<Longrightarrow> P (f a x)) \<Longrightarrow> P (foldl f a xs)"
  by (induction xs arbitrary: a) auto

lemma xray_document_inv: "xray_inv sha st \<Longrightarrow> xray_inv sha (xray_document sha iter st rawDoc)"
proof -
  assume inv: "xray_inv sha st"
  have bad: "xray_inv sha (st \<lparr> xy_Result := invalid_more 1 (xy_Result st) \<rparr>)"
    using inv by (simp add: xray_inv_def)
  have good: "xray_inv sha (foldl (xray_add sha preferred) (st \<lparr> xy_Result := r, xy_Recognized := recognized \<rparr>) configs)"
    if "foldl (read_outbound iter) (xy_Result st, xy_Recognized st, []) outs = (r, recognized, configs)"
    for preferred r recognized configs outs
  proof (rule foldl_all)
    have f: "pr_Configs r = pr_Configs (xy_Result st) \<and> list_all usable configs"
      using inv by (intro xray_outbounds_frame [OF that]) (simp add: xray_inv_def)
    then show "list_all usable configs" by blast
    show "xray_inv sha (st \<lparr> xy_Result := r, xy_Recognized := recognized \<rparr>)" using inv f by (simp add: xray_inv_def)
  qed (rule xray_add_inv)
  show ?thesis
    unfolding xray_document_def using bad good by (auto split: option.split prod.split)
qed

lemma ParseXray_inv:
  assumes "ParseXray sha iter body = Inr r"
  shows "all_usable r" "distinct (map (ConnectionID sha) (pr_Configs r))"
proof -
  let ?z = "\<lparr> xy_Result = no_result, xy_Seen = [], xy_Named = [], xy_Recognized = False \<rparr>"
  have z: "xray_inv sha ?z" by (simp add: xray_inv_def)
  obtain docs where r: "r = xy_Result (foldl (xray_document sha iter) ?z docs)"
    using assms by (auto simp: ParseXray_def Let_def split: option.splits if_splits)
  have inv: "xray_inv sha (foldl (xray_document sha iter) ?z docs)"
    by (rule foldl_invariant [where P = "xray_inv sha", OF z xray_document_inv])
  then show "all_usable r" by (simp add: r xray_inv_def)
  show "distinct (map (ConnectionID sha) (pr_Configs r))"
    using inv unfolding r xray_inv_def distinct_conv_nth by (metis length_map nth_map option.inject)
qed

lemma parseJSON_usable: "parseJSON sha iter body = Inr r \<Longrightarrow> all_usable r"
  using ParseXray_inv ParseSingbox_usable by (fastforce simp: parseJSON_def split: sum.splits if_splits)

lemma ParseBase64_usable: "ParseBase64 sha iter body = Inr r \<Longrightarrow> all_usable r"
  using parseJSON_usable ParsePlaintext_usable
  by (fastforce simp: ParseBase64_def Let_def split: option.splits if_splits)

lemma Sub_Parse_usable: "Sub_Parse sha iter body = Inr r \<Longrightarrow> all_usable r"
  using parseJSON_usable ParseBase64_usable ParsePlaintext_usable
  by (fastforce simp: Sub_Parse_def Let_def split: sum.splits if_splits)

text \<open>
  C11. Whatever a provider answers, the servers that a fetch reports can be used: each has an address, a user, a port, a
  known security and transport, and a combination of them that xray accepts; each belongs to the subscription, and no two are
  the same connection. A fetch that cannot report any is an error and reports none.
\<close>

theorem FetchParse_result:
  "case FetchParse sha iter redact now sid fetch of (incoming, meta, e) \<Rightarrow>
     (if e = None
      then incoming \<noteq> [] \<and> sm_Status meta = ''ok'' \<and> list_all (\<lambda>s. own sid s \<and> usable (s_Vless s)) incoming \<and>
           distinct (map (\<lambda>s. ConnectionID sha (s_Vless s)) incoming)
      else incoming = [] \<and> sm_Status meta = ''error'')"
proof -
  have ok: "list_all (\<lambda>s. own sid s \<and> usable (s_Vless s)) (map (\<lambda>c. New sha c OriginSubscription sid) (unique_by (ConnectionID sha) [] cs)) \<and>
      distinct (map (\<lambda>s. ConnectionID sha (s_Vless s)) (map (\<lambda>c. New sha c OriginSubscription sid) (unique_by (ConnectionID sha) [] cs))) \<and>
      map (\<lambda>c. New sha c OriginSubscription sid) (unique_by (ConnectionID sha) [] cs) \<noteq> []"
    if "list_all usable cs" "cs \<noteq> []" for cs
  proof -
    let ?u = "unique_by (ConnectionID sha) [] cs"
    have "?u \<noteq> []" using that(2) by (cases cs) auto
    moreover have "list_all usable ?u" "distinct (map (ConnectionID sha) ?u)"
      using unique_by_distinct [of "ConnectionID sha" "[]" cs] that(1) by (auto simp: list_all_iff)
    ultimately show ?thesis by (simp add: list_all_iff own_def New_def comp_def)
  qed
  show ?thesis
    unfolding FetchParse_def Let_def using Sub_Parse_usable [of sha iter] ok
    by (auto split: sum.split prod.split)
qed

end
