(* ===== verification/Sub_Links.thy ===== *)
theory Sub_Links
  imports Sub_Parsers
begin

text \<open>
  A subscription made of share links, as text and in base64: the parsers of Sub_Parsers undo what \<^verbatim>\<open>Config.URL\<close> of
  \<^verbatim>\<open>internal/vless\<close> writes.
\<close>

section \<open>Lists of links\<close>

definition printable :: "char \<Rightarrow> bool" where
  "printable c \<longleftrightarrow> 33 \<le> (of_char c :: nat) \<and> (of_char c :: nat) < 127"

lemma std_printable: "list_all (\<lambda>c. printable c \<and> c \<noteq> CHR ''='' \<and> c \<noteq> CHR ''{'' \<and> c \<noteq> CHR ''['') std_alphabet"
  by code_simp

lemma b64_std_printable: "c \<in> set (b64_std s) \<Longrightarrow> printable c \<and> c \<noteq> CHR ''{'' \<and> c \<noteq> CHR ''[''"
proof -
  assume "c \<in> set (b64_std s)"
  then consider "c \<in> set (b64_encode_raw std_alphabet s)" | "c = CHR ''=''"
    unfolding b64_std_def by (metis UnE in_set_replicate set_append)
  then show ?thesis
  proof cases
    case 1
    then show ?thesis using set_encode [of c s] std_printable unfolding list_all_iff by metis
  qed (simp add: printable_def)
qed

lemma space_bytes: "list_all (\<lambda>w. \<not> printable (hd w) \<and> \<not> printable (last w)) space_seqs"
  by code_simp

lemma printable_TrimSpace:
  assumes "list_all printable s"
  shows "TrimSpace s = s"
proof (rule TrimSpace_id)
  have "printable (hd s) \<and> printable (last s)" if "s \<noteq> []" using that assms by (simp add: list_all_iff)
  then show "s = [] \<or> hd s \<notin> space_lead \<and> last s \<notin> space_tail"
    using space_bytes unfolding space_lead_def space_tail_def list_all_iff by (metis imageE)
qed

lemma escape_printable: "list_all printable (escape mode s)"
proof -
  have "list_all printable (CHR ''%'' # CHR ''+'' # host_plain @ unreserved_marks @ reserved @ fragment_plain)"
    by code_simp
  moreover have "printable x" if "is_alnum x" for x using that by (auto simp: is_alnum_def is_digit_def printable_def)
  ultimately have "printable x" if "x \<in> set (escape mode s)" for x
    using escape_set [OF that] not_escaped [of x mode] unfolding list_all_iff set_append set_simps by blast
  then show ?thesis by (simp add: list_all_iff)
qed

lemma join_all: "list_all P sep \<Longrightarrow> list_all (list_all P) xs \<Longrightarrow> list_all P (join sep xs)"
  using join_set [of _ sep xs] by (fastforce simp: list_all_iff)

lemma link_printable: "list_all printable (Config_URL c)"
proof -
  have "list_all printable (Encode_Values (link_values c))"
    unfolding Encode_Values_def
    by (rule join_all) (simp_all add: list_all_iff printable_def encode_pair_def,
      use escape_printable in \<open>auto simp: list_all_iff printable_def\<close>)
  then show ?thesis
    using escape_printable by (simp add: Config_URL_def url_String_def) (simp add: printable_def)
qed

lemma link_prefix: "\<exists>t. Config_URL c = ''vless://'' @ t"
  by (simp add: Config_URL_def url_String_def)


lemma link_parts: "CHR 0x0A \<notin> set (Config_URL c)" "TrimSpace (Config_URL c) = Config_URL c" "schemeOf (Config_URL c) = ''vless''"
  "Config_URL c \<noteq> []"
proof -
  show "CHR 0x0A \<notin> set (Config_URL c)" using link_printable [of c] by (auto simp: list_all_iff printable_def)
  show "TrimSpace (Config_URL c) = Config_URL c" by (rule printable_TrimSpace [OF link_printable])
  obtain t where "Config_URL c = ''vless://'' @ t" using link_prefix by blast
  then show "schemeOf (Config_URL c) = ''vless''" "Config_URL c \<noteq> []"
    by (simp_all add: schemeOf_def validScheme_def scheme_char_def HasPrefix_def to_lower_def)
qed

lemma compatible_link_part: "compatible (link_part c) = compatible c"
  by (auto simp: compatible_def link_part_def flow_ok_def Let_def)

lemma Normalize_link_part: "compatible c \<Longrightarrow> \<exists>msgs. Normalize (link_part c) = Inr (msgs, link_part c)"
  using compatible_link_part [of c] by (auto simp: Normalize_def compatible_def Let_def)

definition link_ok :: "Config \<Rightarrow> bool" where
  "link_ok c \<longleftrightarrow> linkable c \<and> compatible c \<and> length (Config_URL c) < maxLine"

lemma plain_line_link:
  assumes "link_ok c"
  shows "plain_line r (Config_URL c) = add_config (link_part c) r"
proof -
  have "ParseURL (Config_URL c) = Inr (link_part c)" using assms link_reads_back by (simp add: link_ok_def)
  moreover obtain msgs where "Normalize (link_part c) = Inr (msgs, link_part c)"
    using Normalize_link_part assms by (auto simp: link_ok_def)
  ultimately show ?thesis by (simp add: plain_line_def link_parts)
qed

definition link_list :: "Config list \<Rightarrow> string" where
  "link_list cs = join [CHR 0x0A] (map Config_URL cs)"

definition links_result :: "Config list \<Rightarrow> ParseResult" where
  "links_result cs = no_result \<lparr> pr_Configs := map link_part cs \<rparr>"

lemma foldl_links:
  "list_all link_ok cs \<Longrightarrow> foldl plain_line r (map Config_URL cs) = r \<lparr> pr_Configs := pr_Configs r @ map link_part cs \<rparr>"
  by (induction cs arbitrary: r) (simp_all add: plain_line_link add_config_def)

lemma ParsePlaintext_links:
  assumes "cs \<noteq> []" "list_all link_ok cs"
  shows "ParsePlaintext (link_list cs) = Inr (links_result cs)"
proof -
  have "split_on (CHR 0x0A) (link_list cs) = map Config_URL cs"
    unfolding link_list_def using assms(1) link_parts(1) by (intro split_on_join) auto
  moreover have "\<not> list_ex (\<lambda>l. maxLine \<le> length l) (map Config_URL cs)"
    using assms(2) by (auto simp: list_ex_iff list_all_iff link_ok_def)
  ultimately show ?thesis
    using foldl_links [OF assms(2), of no_result] by (simp add: ParsePlaintext_def links_result_def)
qed

lemma link_list_start:
  assumes "cs \<noteq> []"
  shows "\<exists>t. link_list cs = ''vless:'' @ t"
proof -
  obtain c cs' where cs: "cs = c # cs'" using assms by (cases cs) simp_all
  obtain t where "Config_URL c = ''vless://'' @ t" using link_prefix by blast
  then show ?thesis by (simp add: cs link_list_def join_def)
qed

lemma TrimSpace_ends:
  assumes "s \<noteq> []" "printable (hd s)" "printable (last s)"
  shows "TrimSpace s = s"
proof (rule TrimSpace_id)
  show "s = [] \<or> hd s \<notin> space_lead \<and> last s \<notin> space_tail"
    using assms space_bytes unfolding space_lead_def space_tail_def list_all_iff by (metis imageE)
qed

lemma TrimSpace_link_list:
  assumes "cs \<noteq> []"
  shows "TrimSpace (link_list cs) = link_list cs"
proof (rule TrimSpace_ends)
  have l: "last (link_list (xs @ [c])) = last (Config_URL c)" for xs c
    using link_parts(4) [of c] by (cases xs) (simp_all add: link_list_def join_def)
  obtain xs c where "cs = xs @ [c]" using assms by (metis append_butlast_last_id)
  then show "printable (last (link_list cs))"
    using l [of xs c] link_printable [of c] link_parts(4) [of c] by (simp add: list_all_iff)
  show "link_list cs \<noteq> []" "printable (hd (link_list cs))"
    using link_list_start [OF assms] by (auto simp: printable_def)
qed

lemma link_list_not_base64: "cs \<noteq> [] \<Longrightarrow> ParseBase64 sha iter (link_list cs) = Inl ErrNotBase64"
proof -
  assume "cs \<noteq> []"
  then obtain t where t: "link_list cs = ''vless:'' @ t" using link_list_start by blast
  have a: "CHR '':'' \<notin> set std_alphabet" "CHR '':'' \<notin> set url_alphabet" by code_simp+
  have "b64_decode alph padded (''vless:'' @ u) = None" if "CHR '':'' \<notin> set alph" for alph padded u
    using that by (simp add: b64_decode_def b64_vals_def strip_newlines_def Let_def)
  then have "decode_any (''vless:'' @ u) = None" for u
    using a by (simp add: decode_any_def base64_decoders_def del: append_Cons)
  then show ?thesis by (simp add: ParseBase64_def t Let_def)
qed

text \<open>
  C34. A subscription that lists the share links of configurations, one per line, is read as exactly what the links carry
  of them, in order and with none skipped, and the same list in base64 as well. The configurations are ones that a link
  can carry (so not ones with an IPv6 address), that \<^verbatim>\<open>Normalize\<close> accepts unchanged, and whose links are shorter than
  the scanner's limit on a line; the list is not empty.
\<close>

theorem subscription_reads_links:
  assumes "cs \<noteq> []" "list_all link_ok cs"
  shows "Sub_Parse sha iter (link_list cs) = Inr (links_result cs) \<and>
    Sub_Parse sha iter (b64_std (link_list cs)) = Inr (links_result cs)"
proof
  obtain t where t: "link_list cs = ''vless:'' @ t" using link_list_start [OF assms(1)] by blast
  have j: "\<not> looks_json (link_list cs)" by (simp add: t looks_json_def HasPrefix_def)
  have "link_list cs \<noteq> []" using t by simp
  then show "Sub_Parse sha iter (link_list cs) = Inr (links_result cs)"
    using ParsePlaintext_links [OF assms] j
    by (simp add: Sub_Parse_def TrimSpace_link_list [OF assms(1)] link_list_not_base64 [OF assms(1)] Let_def)
  let ?b = "b64_std (link_list cs)"
  have "b64_groups (link_list cs) \<noteq> []" unfolding t by simp
  then have ne: "?b \<noteq> []" by (simp add: b64_std_def b64_encode_raw_def)
  have p: "printable (hd ?b)" "printable (last ?b)" 
    using ne b64_std_printable [OF hd_in_set [OF ne]] b64_std_printable [OF last_in_set [OF ne]] by blast+
  have j': "\<not> looks_json ?b"
    using ne b64_std_printable [OF hd_in_set [OF ne]] by (cases ?b) (simp_all add: looks_json_def HasPrefix_def)
  have "filter (\<lambda>c. c \<notin> {CHR 0x0A, CHR 0x0D, CHR '' '', CHR 0x09}) ?b = ?b"
  proof (intro filter_True ballI)
    fix c assume "c \<in> set ?b"
    then have "printable c" using b64_std_printable by blast
    then show "c \<notin> {CHR 0x0A, CHR 0x0D, CHR '' '', CHR 0x09}" by (auto simp: printable_def)
  qed
  then have "ParseBase64 sha iter ?b = Inr (links_result cs)"
    using ParsePlaintext_links [OF assms] j
    by (simp add: ParseBase64_def decode_any_def base64_decoders_def b64_std_roundtrip TrimSpace_link_list [OF assms(1)] Let_def)
  moreover have "found_any (links_result cs)" using assms(1) by (simp add: found_any_def links_result_def)
  ultimately show "Sub_Parse sha iter ?b = Inr (links_result cs)"
    using ne j' by (simp add: Sub_Parse_def TrimSpace_ends [OF ne p] Let_def)
qed


definition sample_links :: "Config list" where
  "sample_links = [link_sample \<lparr> v_SNI := ''s'' \<rparr>,
     zero_Config \<lparr> v_Address := ''h'', v_Port := 1, v_UUID := ''u'', v_Security := SecurityNone, v_Transport := TransportTCP \<rparr>]"

theorem subscription_reads_links_witness:
  "Sub_Parse (\<lambda>s. s) (\<lambda>m. m) (b64_std (link_list sample_links)) = Inr (links_result sample_links)"
proof -
  have "list_all host_char ''a.example'' \<and> list_all host_char ''h'' \<and> list_all alpn_ok [''h2'', ''http/1.1'']" by code_simp
  then have "list_all (\<lambda>c. linkable c \<and> compatible c) sample_links"
    by (simp add: sample_links_def linkable_def link_sample_def security_ok_def transport_ok_def compatible_def zero_Config_def
      flow_ok_def transport_defs security_defs)
  moreover have "list_all (\<lambda>c. length (Config_URL c) < 300) sample_links" by code_simp
  then have "list_all (\<lambda>c. length (Config_URL c) < maxLine) sample_links" by (auto simp: list_all_iff maxLine_def)
  ultimately have "list_all link_ok sample_links" by (simp add: list_all_iff link_ok_def)
  then show ?thesis using subscription_reads_links [of sample_links] by (simp add: sample_links_def)
qed

end
