(* ===== verification/Refresh.thy ===== *)
theory Refresh
  imports Sub_Parsers
begin

text \<open>
  Package \<^verbatim>\<open>internal/refresh\<close>: the background driver. driver.go starts one worker per subscription and keeps
  them in step with the stored list; sub_tick.go is a worker's loop with its two levels of retry and the
  commit of a sync; probe_tick.go measures the servers. Times are nanoseconds. \<open>syncFunc\<close> and \<open>probeFunc\<close> are
  fields of the driver and arguments here; a jittered duration is an argument, since it is a float product.
\<close>

section \<open>driver.go\<close>

abbreviation second :: int where "second \<equiv> 1000000000"

definition maxInAttemptRetryWait :: int where "maxInAttemptRetryWait = 30 * second"

definition defaultSubFetchRetryBackoff :: "int list" where
  "defaultSubFetchRetryBackoff = [2 * second, 5 * second, 10 * second]"

definition defaultSubRetryBackoff :: "int list" where
  "defaultSubRetryBackoff = [60 * second, 120 * second, 300 * second, 600 * second]"

record RefreshConfig =
  rc_DefaultSubInterval :: int
  rc_FirstSubJitterMax :: int
  rc_SubFetchRetryBackoff :: "int list option"
  rc_SubRetryBackoff :: "int list option"
  rc_ProbeInterval :: int
  rc_ProbeTimeout :: int
  rc_ProbeConcurrency :: int

record Driver =
  dr_defaultSubInterval :: int
  dr_firstSubJitterMax :: int
  dr_subFetchRetryBackoff :: "int list"
  dr_subRetryBackoff :: "int list"
  dr_probeInterval :: int
  dr_probeTimeout :: int
  dr_probeConcurrency :: int

definition NewDriver :: "RefreshConfig \<Rightarrow> Driver" where
  "NewDriver c =
     \<lparr> dr_defaultSubInterval = (if rc_DefaultSubInterval c = 0 then 12 * 3600 * second else rc_DefaultSubInterval c),
       dr_firstSubJitterMax = (if rc_FirstSubJitterMax c \<le> 0 then 30 * second else rc_FirstSubJitterMax c),
       dr_subFetchRetryBackoff =
         (case rc_SubFetchRetryBackoff c of None \<Rightarrow> defaultSubFetchRetryBackoff | Some b \<Rightarrow> b),
       dr_subRetryBackoff = (case rc_SubRetryBackoff c of None \<Rightarrow> defaultSubRetryBackoff | Some b \<Rightarrow> b),
       dr_probeInterval = (if rc_ProbeInterval c = 0 then 300 * second else rc_ProbeInterval c),
       dr_probeTimeout = (if rc_ProbeTimeout c = 0 then 5 * second else rc_ProbeTimeout c),
       dr_probeConcurrency = (if rc_ProbeConcurrency c = 0 then 16 else rc_ProbeConcurrency c) \<rparr>"

text \<open>A worker: the address it was started for, whether it was cancelled, whether it has ended.\<close>

record worker =
  wk_url :: string
  wk_cancelled :: bool
  wk_done :: bool

text \<open>\<^verbatim>\<open>current[sub.ID] = sub\<close> for each: the last of an identifier counts.\<close>

definition current_subs :: "Stored list \<Rightarrow> string \<rightharpoonup> Stored" where
  "current_subs subs = map_of (rev (map (\<lambda>s. (st_ID s, s)) subs))"

definition prune :: "(string \<rightharpoonup> Stored) \<Rightarrow> (string \<rightharpoonup> worker) \<Rightarrow> string \<rightharpoonup> worker" where
  "prune current workers sid =
     (case workers sid of
        None \<Rightarrow> None
      | Some w \<Rightarrow>
          (let w' = (case current sid of
                       None \<Rightarrow> w \<lparr> wk_cancelled := True \<rparr>
                     | Some sub \<Rightarrow> (if st_URL sub \<noteq> wk_url w then w \<lparr> wk_cancelled := True \<rparr> else w))
           in if wk_done w' then None else Some w'))"

definition reconcile :: "string + Stored list \<Rightarrow> (string \<rightharpoonup> worker) \<Rightarrow> string \<rightharpoonup> worker" where
  "reconcile loaded workers =
     (case loaded of
        Inl e \<Rightarrow> workers
      | Inr subs \<Rightarrow>
          (\<lambda>sid. case prune (current_subs subs) workers sid of
             Some w \<Rightarrow> Some w
           | None \<Rightarrow> map_option (\<lambda>sub. \<lparr> wk_url = st_URL sub, wk_cancelled = False, wk_done = False \<rparr>) (current_subs subs sid)))"

definition jittered :: "int \<Rightarrow> int \<Rightarrow> int" where
  "jittered product base = (if base \<le> 0 then 0 else product)"

section \<open>sub_tick.go: retries\<close>

type_synonym sync_out = "Server list \<times> SyncMeta \<times> sync_error option"

text \<open>An attempt: the input or the error of resolving it, the sync, and whether the wait after it is cut short.\<close>

record attempt =
  at_now :: int
  at_input :: "string + FetchOptions"
  at_sync :: "FetchOptions \<Rightarrow> sync_out"
  at_cancelled :: bool

definition attempt_out :: "attempt \<Rightarrow> sync_out" where
  "attempt_out a =
     (case at_input a of
        Inl e \<Rightarrow> ([], \<lparr> sm_LastUpdate = at_now a, sm_Status = ''error'', sm_Message = e, sm_Headers = no_headers \<rparr>,
                  Some (OtherError e))
      | Inr input \<Rightarrow> at_sync a input)"

text \<open>The wait before the next attempt, unless the server asks for too long a one.\<close>

definition retry_wait :: "int \<Rightarrow> sync_error option \<Rightarrow> int option" where
  "retry_wait w e =
     (let ra = RetryAfterHint e in
      if ra > w then (if ra > maxInAttemptRetryWait then None else Some ra) else Some w)"

text \<open>The attempts from the \<open>n\<close>-th on, with the waits that are left, and the waits that were made.\<close>

fun syncWithRetry :: "int list \<Rightarrow> (nat \<Rightarrow> attempt) \<Rightarrow> nat \<Rightarrow> sync_out \<times> int list" where
  "syncWithRetry [] env n = (attempt_out (env n), [])"
| "syncWithRetry (w # ws) env n =
     (let out = attempt_out (env n); e = snd (snd out) in
      if isl (at_input (env n)) \<or> e = None \<or> \<not> IsTransient e then (out, [])
      else case retry_wait w e of
        None \<Rightarrow> (out, [])
      | Some wait \<Rightarrow>
          (if at_cancelled (env n) then (out, [])
           else case syncWithRetry ws env (Suc n) of (out', waits) \<Rightarrow> (out', wait # waits)))"

definition nextTick :: "int list \<Rightarrow> (int \<Rightarrow> int) \<Rightarrow> int \<Rightarrow> bool \<Rightarrow> nat \<Rightarrow> int \<times> nat" where
  "nextTick backoff jit interval retryable fails =
     (let (base, fails') =
            (if retryable \<and> backoff \<noteq> [] then (min (backoff ! min fails (length backoff - 1)) interval, fails + 1)
             else (interval, 0));
          nxt = jit base
      in (if nxt \<le> 0 then base else nxt, fails'))"

definition ellipsis :: string where "ellipsis = [CHR 0xE2, CHR 0x80, CHR 0xA6]"

definition truncate_to :: "string \<Rightarrow> nat \<Rightarrow> string" where
  "truncate_to s n =
     (if length s \<le> n then s else if n \<le> length ellipsis then take n s else take (n - length ellipsis) s @ ellipsis)"

section \<open>sub_tick.go: the commit of a sync\<close>

record files =
  fi_subs :: subs_file
  fi_servers :: disk
  fi_synced :: "string list"

text \<open>
  What happens around the commit: cancellation before the lock, under it and later, the outcome of writing, the
  time and the text of an error.
\<close>

record commit_env =
  ce_cancelled :: bool
  ce_cancelled_locked :: bool
  ce_cancelled_meta :: bool
  ce_save_servers :: bool
  ce_save_meta :: bool
  ce_time :: int
  ce_text :: string

definition lastStatusMaxLen :: nat where "lastStatusMaxLen = 120"

definition recordMeta :: "commit_env \<Rightarrow> Stored \<Rightarrow> string \<Rightarrow> string \<Rightarrow> files \<Rightarrow> files" where
  "recordMeta env sub status message d =
     (if ce_cancelled_meta env then d
      else d \<lparr> fi_subs := snd (UpdateMeta (ce_save_meta env) (st_ID sub) (st_URL sub) (ce_time env) status message None (fi_subs d)) \<rparr>)"

text \<open>The servers after a successful fetch; on the left, the files after a failure. \<open>None\<close> when the merge does not end.\<close>

definition commit_servers :: "(string \<Rightarrow> string) \<Rightarrow> commit_env \<Rightarrow> Stored \<Rightarrow> Server list \<Rightarrow> files \<Rightarrow> (files + files) option" where
  "commit_servers sha env sub incoming d =
     (case Servers_Load (fi_servers d) of
        None \<Rightarrow> Some (Inl (recordMeta env sub ''error'' (''load servers: '' @ truncate_to (ce_text env) lastStatusMaxLen) d))
      | Some existing \<Rightarrow>
          (case Merge sha existing incoming (st_ID sub) of
             None \<Rightarrow> None
           | Some merged \<Rightarrow>
               (case Servers_Save (ce_save_servers env) merged (fi_servers d) of
                  (True, f) \<Rightarrow> Some (Inr (d \<lparr> fi_servers := f \<rparr>))
                | (False, f) \<Rightarrow>
                    Some (Inl (recordMeta env sub ''error'' (''save servers: '' @ truncate_to (ce_text env) lastStatusMaxLen) d)))))"

definition finish_sync :: "commit_env \<Rightarrow> Stored \<Rightarrow> SyncMeta \<Rightarrow> sync_error option \<Rightarrow> files \<Rightarrow> bool \<times> files" where
  "finish_sync env sub meta e d =
     (IsTransient e,
      d \<lparr> fi_subs := snd (UpdateMeta (ce_save_meta env) (st_ID sub) (st_URL sub) (ce_time env) (sm_Status meta)
            (truncate_to (sm_Message meta) lastStatusMaxLen) (if e = None then Some (sm_Headers meta) else None) (fi_subs d)),
          fi_synced := fi_synced d @ [st_ID sub] \<rparr>)"

definition syncOne :: "(string \<Rightarrow> string) \<Rightarrow> commit_env \<Rightarrow> Stored \<Rightarrow> sync_out \<Rightarrow> files \<Rightarrow> (bool \<times> files) option" where
  "syncOne sha env sub out d =
     (case out of (incoming, meta, e) \<Rightarrow>
        if ce_cancelled env \<or> ce_cancelled_locked env then Some (False, d)
        else case Subs_Load (fi_subs d) of
          Inl err \<Rightarrow> Some (True, d)
        | Inr subs \<Rightarrow>
            (if \<not> list_ex (\<lambda>c. st_ID c = st_ID sub \<and> st_URL c = st_URL sub) subs then Some (False, d)
             else if e \<noteq> None then Some (finish_sync env sub meta e d)
             else case commit_servers sha env sub incoming d of
               None \<Rightarrow> None
             | Some (Inl d') \<Rightarrow> Some (True, d')
             | Some (Inr d') \<Rightarrow> Some (finish_sync env sub meta e d')))"

section \<open>sub_tick.go: the loop of a worker\<close>

definition effective_interval :: "Driver \<Rightarrow> Stored \<Rightarrow> int" where
  "effective_interval dr s = (if st_UpdateInterval s \<le> 0 then dr_defaultSubInterval dr else st_UpdateInterval s)"

text \<open>
  One firing of the timer: the subscription, its interval and the count of failures, and the delay to the
  next one; on the left when the worker ends.
\<close>

definition runSub_tick :: "Driver \<Rightarrow> (string \<Rightarrow> string) \<Rightarrow> (int \<Rightarrow> int) \<Rightarrow> commit_env \<Rightarrow> (Stored \<Rightarrow> nat \<Rightarrow> attempt)
    \<Rightarrow> Stored \<Rightarrow> int \<Rightarrow> nat \<Rightarrow> files \<Rightarrow> (unit + Stored \<times> int \<times> nat \<times> int \<times> files) option" where
  "runSub_tick dr sha jit env attempts s interval fails d =
     (case Subs_Load (fi_subs d) of
        Inl e \<Rightarrow> (case nextTick (dr_subRetryBackoff dr) jit interval True fails of (delay, fails') \<Rightarrow>
                   Some (Inr (s, interval, fails', delay, d)))
      | Inr subs \<Rightarrow>
          (case find (\<lambda>c. st_ID c = st_ID s) subs of
             None \<Rightarrow> Some (Inl ())
           | Some s' \<Rightarrow>
               (let interval' = effective_interval dr s';
                    out = fst (syncWithRetry (dr_subFetchRetryBackoff dr) (attempts s') 0)
                in case syncOne sha env s' out d of
                  None \<Rightarrow> None
                | Some (retryable, d') \<Rightarrow>
                    (case nextTick (dr_subRetryBackoff dr) jit interval' retryable fails of (delay, fails') \<Rightarrow>
                       Some (Inr (s', interval', fails', delay, d'))))))"

section \<open>probe_tick.go\<close>

text \<open>A result: the identifier, empty when the probe did not finish, and the latency.\<close>

type_synonym probe_result = "string \<times> int option"

text \<open>\<^verbatim>\<open>int(dur / time.Millisecond)\<close>, which rounds towards zero.\<close>

definition to_ms :: "int \<Rightarrow> int" where
  "to_ms dur = (if dur < 0 then - ((- dur) div 1000000) else dur div 1000000)"

definition probe_results :: "(Server \<Rightarrow> (string + int) option) \<Rightarrow> Server list \<Rightarrow> probe_result list" where
  "probe_results probe snapshot =
     map (\<lambda>s. case probe s of
            None \<Rightarrow> ([], None)
          | Some (Inl e) \<Rightarrow> (s_ID s, None)
          | Some (Inr dur) \<Rightarrow> (s_ID s, Some (to_ms dur))) snapshot"

text \<open>\<^verbatim>\<open>byID[r.ID]\<close>: the last position of the identifier.\<close>

definition last_index :: "string \<Rightarrow> Server list \<Rightarrow> nat option" where
  "last_index sid ss = map_of (rev (zip (map s_ID ss) [0..<length ss])) sid"

definition apply_result :: "Server list \<Rightarrow> probe_result \<Rightarrow> Server list" where
  "apply_result ss r =
     (if fst r = [] then ss
      else case last_index (fst r) ss of None \<Rightarrow> ss | Some i \<Rightarrow> ss[i := (ss ! i) \<lparr> s_LatencyMS := snd r \<rparr>])"

text \<open>The second half of \<^verbatim>\<open>probeOnce\<close>, on whatever the file holds by then.\<close>

definition probe_apply :: "bool \<Rightarrow> bool \<Rightarrow> probe_result list \<Rightarrow> disk \<Rightarrow> disk" where
  "probe_apply cancelled saveOk results f =
     (if cancelled then f
      else case Servers_Load f of
        None \<Rightarrow> f
      | Some current \<Rightarrow> snd (Servers_Save saveOk (foldl apply_result current results) f))"

text \<open>\<^verbatim>\<open>probeOnce\<close>, with what others do to the file in the meantime.\<close>

definition probeOnce :: "(Server \<Rightarrow> (string + int) option) \<Rightarrow> bool \<Rightarrow> bool \<Rightarrow> (disk \<Rightarrow> disk) \<Rightarrow> disk \<Rightarrow> disk" where
  "probeOnce probe cancelled saveOk meanwhile f =
     (case Servers_Load f of
        None \<Rightarrow> f
      | Some snapshot \<Rightarrow>
          (if snapshot = [] then f
           else probe_apply cancelled saveOk (probe_results probe snapshot) (meanwhile f)))"


section \<open>Properties\<close>

definition attempt_error :: "attempt \<Rightarrow> sync_error option" where
  "attempt_error a = snd (snd (attempt_out a))"

definition retried :: "attempt \<Rightarrow> int \<Rightarrow> int \<Rightarrow> bool" where
  "retried a scheduled wait \<longleftrightarrow>
     \<not> isl (at_input a) \<and> IsTransient (attempt_error a) \<and> \<not> at_cancelled a \<and>
     wait = max scheduled (RetryAfterHint (attempt_error a)) \<and> (wait = scheduled \<or> wait \<le> maxInAttemptRetryWait)"

definition gave_up :: "attempt \<Rightarrow> int \<Rightarrow> bool" where
  "gave_up a scheduled \<longleftrightarrow>
     isl (at_input a) \<or> \<not> IsTransient (attempt_error a) \<or> at_cancelled a \<or>
     (scheduled < RetryAfterHint (attempt_error a) \<and> maxInAttemptRetryWait < RetryAfterHint (attempt_error a))"

lemma IsTransient_None [simp]: "\<not> IsTransient None"
  by (simp add: IsTransient_def)

lemma syncWithRetry_shape:
  "case syncWithRetry ws env n of (out, waits) \<Rightarrow>
     length waits \<le> length ws \<and> out = attempt_out (env (n + length waits)) \<and>
     (\<forall>i < length waits. retried (env (n + i)) (ws ! i) (waits ! i)) \<and>
     (length waits < length ws \<longrightarrow> gave_up (env (n + length waits)) (ws ! length waits))"
proof (induction ws arbitrary: n)
  case Nil
  show ?case by simp
next
  case (Cons w ws)
  let ?out = "attempt_out (env n)"
  show ?case
  proof (cases "gave_up (env n) w")
    case True
    then have "syncWithRetry (w # ws) env n = (?out, [])"
      by (auto simp: gave_up_def attempt_error_def retry_wait_def Let_def)
    then show ?thesis using True by simp
  next
    case False
    define wait where "wait = max w (RetryAfterHint (attempt_error (env n)))"
    from False have r: "retried (env n) w wait"
      by (auto simp: gave_up_def retried_def wait_def)
    from False have e: "retry_wait w (snd (snd ?out)) = Some wait"
      by (auto simp: gave_up_def attempt_error_def retry_wait_def Let_def wait_def)
    obtain out waits where rest: "syncWithRetry ws env (Suc n) = (out, waits)" by (meson surj_pair)
    have "snd (snd ?out) \<noteq> None" using False by (cases "snd (snd ?out)") (simp_all add: gave_up_def attempt_error_def)
    then have s: "syncWithRetry (w # ws) env n = (out, wait # waits)"
      using False e rest by (simp add: gave_up_def attempt_error_def Let_def)
    have "\<forall>i < length (wait # waits). retried (env (n + i)) ((w # ws) ! i) ((wait # waits) ! i)"
      using Cons.IH [of "Suc n"] r by (auto simp: rest nth_Cons split: nat.split)
    then show ?thesis using Cons.IH [of "Suc n"] unfolding s by (simp add: rest)
  qed
qed

text \<open>
  C32. One scheduled sync of a subscription retries at most once per entry of its backoff schedule and always
  returns. Every attempt but the last failed transiently and was followed by a wait of the scheduled length, or of the
  longer one that the server asked for if that is within thirty seconds; the result is that of the last
  attempt. It stops early only on success, on a permanent failure, when the input cannot be resolved, when the server asks
  for more than thirty seconds, or on cancellation.
\<close>

theorem sync_retry_bounded:
  "case syncWithRetry ws env 0 of (out, waits) \<Rightarrow>
     length waits \<le> length ws \<and> out = attempt_out (env (length waits)) \<and>
     list_all (\<lambda>i. retried (env i) (ws ! i) (waits ! i)) [0..<length waits] \<and>
     (length waits = length ws \<or> gave_up (env (length waits)) (ws ! length waits))"
  using syncWithRetry_shape [of ws env 0] by (auto simp: list_all_iff split: prod.splits)

definition end_cancelled :: "(string \<rightharpoonup> worker) \<Rightarrow> string \<rightharpoonup> worker" where
  "end_cancelled workers = map_option (\<lambda>w. if wk_cancelled w then w \<lparr> wk_done := True \<rparr> else w) \<circ> workers"

definition in_step :: "Stored list \<Rightarrow> (string \<rightharpoonup> worker) \<Rightarrow> string \<Rightarrow> bool" where
  "in_step subs workers sid =
     (case (current_subs subs sid, workers sid) of
        (None, None) \<Rightarrow> True
      | (Some sub, Some w) \<Rightarrow> \<not> wk_cancelled w \<and> \<not> wk_done w \<and> wk_url w = st_URL sub
      | _ \<Rightarrow> False)"

definition same_worker :: "worker \<Rightarrow> worker \<Rightarrow> bool" where
  "same_worker w w' \<longleftrightarrow> wk_url w' = wk_url w \<and> wk_done w' = wk_done w \<and> (\<not> wk_cancelled w \<or> wk_cancelled w')"

text \<open>
  Workers and subscriptions. A pass over the stored list keeps every worker that has not ended, with its address
  and its cancellation, so that a subscription never has two; and once the workers it cancelled have ended, the next pass
  leaves exactly one worker per stored subscription, not cancelled, for its current address, and none for
  anything else.
\<close>

theorem reconcile_converges:
  "in_step subs (reconcile (Inr subs) (end_cancelled (reconcile (Inr subs) workers))) sid \<and>
   (case workers sid of
      None \<Rightarrow> True
    | Some w \<Rightarrow> wk_done w \<or> (case reconcile loaded workers sid of None \<Rightarrow> False | Some w' \<Rightarrow> same_worker w w'))"
proof
  show "in_step subs (reconcile (Inr subs) (end_cancelled (reconcile (Inr subs) workers))) sid"
    by (cases "workers sid"; cases "current_subs subs sid")
      (auto simp: in_step_def reconcile_def prune_def end_cancelled_def Let_def split: if_splits)
  show "case workers sid of None \<Rightarrow> True
    | Some w \<Rightarrow> wk_done w \<or> (case reconcile loaded workers sid of None \<Rightarrow> False | Some w' \<Rightarrow> same_worker w w')"
    by (auto simp: reconcile_def prune_def same_worker_def Let_def split: option.splits sum.splits)
qed


text \<open>The part of a list of subscriptions that a sync of one of them leaves alone.\<close>

definition other_subs :: "Stored \<Rightarrow> subs_file \<Rightarrow> Stored list" where
  "other_subs sub f =
     (case Subs_Load f of Inl e \<Rightarrow> [] | Inr ss \<Rightarrow> filter (\<lambda>s. \<not> (st_ID s = st_ID sub \<and> st_URL s = st_URL sub)) ss)"

lemma update_entry_key [simp]:
  "st_ID (update_entry at status message headers s) = st_ID s"
  "st_URL (update_entry at status message headers s) = st_URL s"
  by (simp_all add: update_entry_def update_quota_def Let_def split: option.split)

lemma filter_update_not:
  assumes "i < length xs" "\<not> P (xs ! i)" "\<not> P y"
  shows "filter P (xs[i := y]) = filter P xs"
  using assms by (induction xs arbitrary: i) (auto split: nat.split simp: nth_Cons')

lemma UpdateMeta_others:
  "other_subs sub (snd (UpdateMeta ok (st_ID sub) (st_URL sub) at status message headers f)) = other_subs sub f"
proof (cases "Subs_Load f")
  case (Inr ss)
  have "filter (\<lambda>s. \<not> (st_ID s = st_ID sub \<and> st_URL s = st_URL sub))
      (ss[i := update_entry at status message headers (ss ! i)]) =
      filter (\<lambda>s. \<not> (st_ID s = st_ID sub \<and> st_URL s = st_URL sub)) ss"
    if "index_where (\<lambda>s. st_ID s = st_ID sub \<and> st_URL s = st_URL sub) ss = Some i" for i
    using index_where_Some [THEN iffD1, OF that] by (intro filter_update_not) simp_all
  then show ?thesis
    using Inr by (auto simp: UpdateMeta_def other_subs_def Subs_Save_def Subs_Load_def split: option.split)
qed (simp add: UpdateMeta_def)

lemma recordMeta_frame:
  "fi_servers (recordMeta env sub status message d) = fi_servers d"
  "fi_synced (recordMeta env sub status message d) = fi_synced d"
  "other_subs sub (fi_subs (recordMeta env sub status message d)) = other_subs sub (fi_subs d)"
  by (simp_all add: recordMeta_def UpdateMeta_others)

lemma finish_sync_frame:
  "fi_servers (snd (finish_sync env sub meta e d)) = fi_servers d"
  "other_subs sub (fi_subs (snd (finish_sync env sub meta e d))) = other_subs sub (fi_subs d)"
  by (simp_all add: finish_sync_def UpdateMeta_others)

lemma commit_servers_frame:
  assumes "commit_servers sha env sub incoming d = Some r"
  shows "case r of
      Inl d' \<Rightarrow> fi_servers d' = fi_servers d \<and> other_subs sub (fi_subs d') = other_subs sub (fi_subs d)
    | Inr d' \<Rightarrow> fi_subs d' = fi_subs d \<and> (\<exists>existing merged.
        Servers_Load (fi_servers d) = Some existing \<and> Merge sha existing incoming (st_ID sub) = Some merged \<and>
        Servers_Save True merged (fi_servers d) = (True, fi_servers d'))"
  using assms
  by (auto simp: commit_servers_def Servers_Save_def recordMeta_frame split: option.splits prod.splits bool.splits if_splits)


definition wanted :: "commit_env \<Rightarrow> Stored \<Rightarrow> files \<Rightarrow> bool" where
  "wanted env sub d \<longleftrightarrow>
     \<not> ce_cancelled env \<and> \<not> ce_cancelled_locked env \<and>
     (case Subs_Load (fi_subs d) of
        Inl e \<Rightarrow> False | Inr ss \<Rightarrow> list_ex (\<lambda>c. st_ID c = st_ID sub \<and> st_URL c = st_URL sub) ss)"

lemma syncOne_unwanted: "\<not> wanted env sub d \<Longrightarrow> \<exists>r. syncOne sha env sub out d = Some (r, d)"
  by (auto simp: wanted_def syncOne_def split: prod.split sum.splits)

lemma syncOne_wanted:
  assumes "wanted env sub d"
  shows "syncOne sha env sub (incoming, meta, e) d =
     (if e \<noteq> None then Some (finish_sync env sub meta e d)
      else case commit_servers sha env sub incoming d of
        None \<Rightarrow> None
      | Some (Inl d') \<Rightarrow> Some (True, d')
      | Some (Inr d') \<Rightarrow> Some (finish_sync env sub meta e d'))"
  using assms by (auto simp: wanted_def syncOne_def split: sum.splits)

lemma syncOne_frame:
  assumes "syncOne sha env sub (incoming, meta, e) d = Some (r, d')"
  shows "other_subs sub (fi_subs d') = other_subs sub (fi_subs d) \<and>
    (fi_servers d' = fi_servers d \<or>
     e = None \<and> (\<exists>existing merged. Servers_Load (fi_servers d) = Some existing \<and>
       Merge sha existing incoming (st_ID sub) = Some merged \<and>
       Servers_Save True merged (fi_servers d) = (True, fi_servers d')))"
proof (cases "wanted env sub d")
  case False
  with syncOne_unwanted [OF this, of sha "(incoming, meta, e)"] assms show ?thesis by auto
next
  case w: True
  note s = assms [unfolded syncOne_wanted [OF w]]
  show ?thesis
  proof (cases e)
    case (Some err)
    then show ?thesis using s finish_sync_frame [where env = env and sub = sub and meta = meta and e = e and d = d] by simp
  next
    case None
    then obtain c where c: "commit_servers sha env sub incoming d = Some c" using s by (auto split: option.splits)
    show ?thesis
    proof (cases c)
      case (Inl d1)
      then show ?thesis using s c None commit_servers_frame [OF c] by simp
    next
      case (Inr d1)
      then have "d' = snd (finish_sync env sub meta None d1)" using s c None by (simp add: eq_snd_iff)
      then show ?thesis
        using Inr None commit_servers_frame [OF c] finish_sync_frame [where env = env and sub = sub and meta = meta and e = None and d = d1] by simp
    qed
  qed
qed

text \<open>
  C12. The commit of a background sync. If the worker was cancelled, or the subscription was removed or given another
  address while the download ran, nothing changes. The records of the other subscriptions never change. The server list
  changes only after a successful sync, and then it is the merge into the list as it is at that moment, so an
  edit made during the download is not lost; the servers of other sources come out unchanged and in order.
\<close>

theorem syncOne_commits:
  assumes "syncOne sha env sub (incoming, meta, e) d = Some (r, d')"
  shows "(wanted env sub d \<or> d' = d) \<and> other_subs sub (fi_subs d') = other_subs sub (fi_subs d) \<and>
    (fi_servers d' = fi_servers d \<or>
     e = None \<and> (\<exists>existing merged. Servers_Load (fi_servers d) = Some existing \<and>
       Merge sha existing incoming (st_ID sub) = Some merged \<and>
       Servers_Save True merged (fi_servers d) = (True, fi_servers d') \<and>
       (distinct (map s_ID existing) \<and> no_collision sha (existing @ incoming) \<longrightarrow>
          (\<exists>inc. merged = inc @ filter (\<lambda>s. \<not> own (st_ID sub) s) existing))))"
proof -
  have "d' = d" if "\<not> wanted env sub d" using syncOne_unwanted [OF that, of sha "(incoming, meta, e)"] assms by auto
  moreover have "\<exists>inc. merged = inc @ filter (\<lambda>s. \<not> own (st_ID sub) s) existing"
    if "Merge sha existing incoming (st_ID sub) = Some merged"
      "distinct (map s_ID existing) \<and> no_collision sha (existing @ incoming)" for existing merged
    using Merge_shape [OF that(1)] that(2) by metis
  ultimately show ?thesis using syncOne_frame [OF assms] by metis
qed

section \<open>Probing\<close>

definition set_latency :: "string \<Rightarrow> int option \<Rightarrow> Server \<Rightarrow> Server" where
  "set_latency sid l s = (if s_ID s = sid then s \<lparr> s_LatencyMS := l \<rparr> else s)"

lemma set_latency_ID [simp]: "s_ID (set_latency sid l s) = s_ID s"
  by (simp add: set_latency_def)

lemma last_index_distinct:
  assumes "distinct (map s_ID ss)"
  shows "last_index sid ss = Some i \<longleftrightarrow> i < length ss \<and> s_ID (ss ! i) = sid"
proof -
  have "distinct (map fst (rev (zip (map s_ID ss) [0..<length ss])))"
    using assms by (simp add: rev_map [symmetric])
  then have "last_index sid ss = Some i \<longleftrightarrow> (sid, i) \<in> set (rev (zip (map s_ID ss) [0..<length ss]))"
    unfolding last_index_def by (simp add: map_of_eq_Some_iff)
  also have "\<dots> \<longleftrightarrow> i < length ss \<and> s_ID (ss ! i) = sid"
    by (auto simp: set_zip intro!: exI [of _ i])
  finally show ?thesis .
qed

lemma apply_result_map:
  assumes "distinct (map s_ID ss)"
  shows "apply_result ss (sid, l) = (if sid = [] then ss else map (set_latency sid l) ss)"
proof (cases "last_index sid ss")
  case None
  then have "s_ID s \<noteq> sid" if "s \<in> set ss" for s
    using that last_index_distinct [OF assms, of sid] by (auto simp: in_set_conv_nth)
  then show ?thesis using None by (auto simp: apply_result_def set_latency_def intro: map_idI [symmetric])
next
  case (Some i)
  then have i: "i < length ss" "s_ID (ss ! i) = sid" using last_index_distinct [OF assms] by auto
  have "ss[i := (ss ! i) \<lparr> s_LatencyMS := l \<rparr>] = map (set_latency sid l) ss"
  proof (rule nth_equalityI, simp)
    fix j assume j: "j < length (ss[i := (ss ! i) \<lparr> s_LatencyMS := l \<rparr>])"
    then have "s_ID (ss ! j) = sid \<longleftrightarrow> j = i"
      using i assms by (auto simp: distinct_conv_nth)
    then show "ss[i := (ss ! i) \<lparr> s_LatencyMS := l \<rparr>] ! j = map (set_latency sid l) ss ! j"
      using j i by (simp add: nth_list_update set_latency_def)
  qed
  then show ?thesis using Some by (simp add: apply_result_def)
qed


lemma foldl_apply_result:
  assumes "distinct (map s_ID ss)"
  shows "foldl apply_result ss rs =
    map (\<lambda>s. foldl (\<lambda>s r. if fst r = [] then s else set_latency (fst r) (snd r) s) s rs) ss"
  using assms
proof (induction rs arbitrary: ss)
  case (Cons r rs)
  obtain sid l where r: "r = (sid, l)" by (cases r)
  have ids: "map s_ID (map (set_latency sid l) ss) = map s_ID ss" by simp
  show ?case
  proof (cases "sid = []")
    case True
    then show ?thesis using Cons by (simp add: r apply_result_map)
  next
    case False
    then show ?thesis
      using Cons.IH [of "map (set_latency sid l) ss"] Cons.prems by (simp add: r apply_result_map comp_def)
  qed
qed simp

text \<open>What a probe of \<open>p\<close> says of a server.\<close>

definition measured :: "(Server \<Rightarrow> (string + int) option) \<Rightarrow> Server \<Rightarrow> Server \<Rightarrow> Server" where
  "measured probe p s =
     (case probe p of
        None \<Rightarrow> s | Some (Inl e) \<Rightarrow> s \<lparr> s_LatencyMS := None \<rparr> | Some (Inr dur) \<Rightarrow> s \<lparr> s_LatencyMS := Some (to_ms dur) \<rparr>)"

lemma measured_ID [simp]: "s_ID (measured probe p s) = s_ID s"
  by (simp add: measured_def split: option.split sum.split)

lemma foldl_probe_results:
  assumes "distinct (map s_ID snapshot)" "[] \<notin> s_ID ` set snapshot"
  shows "foldl (\<lambda>s r. if fst r = [] then s else set_latency (fst r) (snd r) s) s (probe_results probe snapshot) =
    (case find (\<lambda>p. s_ID p = s_ID s) snapshot of None \<Rightarrow> s | Some p \<Rightarrow> measured probe p s)"
  using assms
proof (induction snapshot arbitrary: s)
  case (Cons p ps)
  let ?step = "\<lambda>s r. if fst r = [] then s else set_latency (fst r) (snd r) s"
  have p: "?step s (hd (probe_results probe [p])) = (if s_ID p = s_ID s then measured probe p s else s)"
  proof -
    have "s_ID p \<noteq> []" using Cons.prems(2) by (metis imageI list.set_intros(1))
    then show ?thesis by (simp add: probe_results_def measured_def set_latency_def split: option.split sum.split)
  qed
  have none: "find (\<lambda>q. s_ID q = s_ID s) ps = None" if "s_ID p = s_ID s"
    using that Cons.prems by (force simp: find_None_iff image_iff)
  have split: "probe_results probe (p # ps) = hd (probe_results probe [p]) # probe_results probe ps"
    by (simp add: probe_results_def)
  have "foldl ?step s (probe_results probe (p # ps)) =
      foldl ?step (if s_ID p = s_ID s then measured probe p s else s) (probe_results probe ps)"
    unfolding split foldl.simps p ..
  also have "\<dots> = (case find (\<lambda>q. s_ID q = s_ID s) ps of
      None \<Rightarrow> if s_ID p = s_ID s then measured probe p s else s | Some q \<Rightarrow> measured probe q (if s_ID p = s_ID s then measured probe p s else s))"
    using Cons.IH [of "if s_ID p = s_ID s then measured probe p s else s"] Cons.prems by (simp split: if_splits)
  finally show ?case using none by (simp split: option.split)
qed (simp add: probe_results_def)

text \<open>
  C33. A round of probing works on a snapshot, without the lock; what it writes is nevertheless the list as it is
  when the round ends, with nothing but latencies changed: each server that is still there and was probed gets the result for
  its identifier, one whose probe did not run keeps its value, and servers added or deleted during the round are
  neither lost nor brought back.
\<close>

theorem probeOnce_applies_to_current:
  assumes "Servers_Load f = Some snapshot" "distinct (map s_ID snapshot)" "[] \<notin> s_ID ` set snapshot" "snapshot \<noteq> []"
    and "Servers_Load (meanwhile f) = Some current" "distinct (map s_ID current)"
  shows "probeOnce probe False True meanwhile f =
    snd (Servers_Save True
      (map (\<lambda>s. case find (\<lambda>p. s_ID p = s_ID s) snapshot of None \<Rightarrow> s | Some p \<Rightarrow> measured probe p s) current) (meanwhile f))"
  using assms by (simp add: probeOnce_def probe_apply_def foldl_apply_result foldl_probe_results)

lemma old_servers_load [simp]: "Servers_Load (snd (Servers_Save True old_servers f)) = Some old_servers"
proof -
  have "list_all server_wf old_servers"
    by (simp add: old_servers_def sample_server_def server_wf_def zero_Server_def zero_Config_def go_int_def)
  then show ?thesis using sstore.load_after [of old_servers True f] by simp
qed

lemma new_servers_load: "Servers_Load (snd (Servers_Save True new_servers f)) = Some new_servers"
proof -
  have "list_all server_wf new_servers"
    by (simp add: new_servers_def sample_server_def server_wf_def zero_Server_def zero_Config_def go_int_def)
  then show ?thesis using sstore.load_after [of new_servers True f] by simp
qed

theorem probeOnce_applies_to_current_witness:
  "probeOnce (\<lambda>s. Some (Inr 42000000)) False True (\<lambda>f. snd (Servers_Save True new_servers f))
     (snd (Servers_Save True old_servers Absent)) =
   snd (Servers_Save True
     (map (\<lambda>s. case find (\<lambda>p. s_ID p = s_ID s) old_servers of
         None \<Rightarrow> s | Some p \<Rightarrow> measured (\<lambda>s. Some (Inr 42000000)) p s) new_servers) (snd (Servers_Save True new_servers
          (snd (Servers_Save True old_servers Absent)))))"
proof (rule probeOnce_applies_to_current)
  show "distinct (map s_ID old_servers)" "[] \<notin> s_ID ` set old_servers" "old_servers \<noteq> []" "distinct (map s_ID new_servers)"
    by (simp_all add: old_servers_def new_servers_def sample_server_def zero_Server_def)
qed (simp_all add: new_servers_load)

text \<open>A sync that succeeds, for the subscription of the sample.\<close>

definition sample_sub :: Stored where
  "sample_sub = \<lparr> st_ID = ''s1'', st_Name = ''one'', st_URL = ''https://p'', st_UserAgent = [], st_UpdateInterval = 0,
     st_LastSyncAt = 0, st_LastStatus = [], st_LastMessage = [], st_Upload = 0, st_Download = 0, st_Total = 0, st_Expire = None \<rparr>"

definition sample_commit :: commit_env where
  "sample_commit = \<lparr> ce_cancelled = False, ce_cancelled_locked = False, ce_cancelled_meta = False, ce_save_servers = True,
     ce_save_meta = True, ce_time = 1, ce_text = [] \<rparr>"

definition sample_meta :: SyncMeta where
  "sample_meta = \<lparr> sm_LastUpdate = 1, sm_Status = ''ok'', sm_Message = [], sm_Headers = no_headers \<rparr>"

definition sample_files :: files where
  "sample_files = \<lparr> fi_subs = SubsFile [sample_sub], fi_servers = snd (Servers_Save True old_servers Absent), fi_synced = [] \<rparr>"

lemma sample_sync:
  "\<exists>rd. syncOne toy_sha sample_commit sample_sub (new_servers, sample_meta, None) sample_files = Some rd"
proof -
  obtain out where "Merge toy_sha old_servers new_servers ''s1'' = Some out" using sample_merge by blast
  moreover have "wanted sample_commit sample_sub sample_files"
    by (simp add: wanted_def sample_commit_def sample_files_def Subs_Load_def)
  ultimately show ?thesis
    by (simp add: syncOne_wanted commit_servers_def Servers_Save_def [of _ out] sample_files_def sample_sub_def sample_commit_def
      finish_sync_def) (rule exI [of _ False], simp)
qed

theorem syncOne_commits_witness:
  "\<exists>r d'. syncOne toy_sha sample_commit sample_sub (new_servers, sample_meta, None) sample_files = Some (r, d') \<and>
     other_subs sample_sub (fi_subs d') = []"
proof -
  obtain r d' where s: "syncOne toy_sha sample_commit sample_sub (new_servers, sample_meta, None) sample_files = Some (r, d')"
    using sample_sync by (metis surj_pair)
  have "other_subs sample_sub (fi_subs sample_files) = []"
    by (simp add: other_subs_def sample_files_def Subs_Load_def)
  with s syncOne_commits [OF s] show ?thesis by metis
qed

end
