(* ===== verification/Store_Services.thy ===== *)
theory Store_Services
  imports Refresh Chainctl
begin

text \<open>
  The services over the shared stores: \<^verbatim>\<open>internal/bindings/servers.go\<close>, subs.go, the views of app.go and country.go. What runs
  under the store lock is one step on the two files and the published events. Network access happens
  before the lock is taken; what others do to the stores in the meantime is the argument \<open>meanwhile\<close>. The
  success of a write, the clock and random bytes are arguments.
\<close>

section \<open>State\<close>

record probe_entry = pe_id :: string pe_latencyMs :: int pe_error :: "string option"

record sync_event = se_id :: string se_status :: string se_importedCount :: nat se_message :: string

datatype store_event = EventServersChanged | EventProbeResult "probe_entry list" | EventSubSynced sync_event

record stores =
  so_subs :: subs_file
  so_servers :: disk
  so_events :: "store_event list"

datatype store_error = SubLoad | ServerLoad | SubSave | ServerSave | ErrServerNotFound | SubNotFound
  | URIRequired | InvalidURI | InvalidSubURL | OnlyManualDeleted | OnlyManualEdited | DisconnectFirst
  | SyncFailed sync_error

definition publish :: "store_event \<Rightarrow> stores \<Rightarrow> stores" where
  "publish e s = s \<lparr> so_events := so_events s @ [e] \<rparr>"

text \<open>Load the servers, change them, save them: the body under the lock that most methods have.\<close>

definition with_servers :: "bool \<Rightarrow> (Server list \<Rightarrow> store_error + Server list \<times> 'a) \<Rightarrow> stores \<Rightarrow> (store_error + 'a) \<times> stores" where
  "with_servers saveOk f s =
     (case Servers_Load (so_servers s) of
        None \<Rightarrow> (Inl ServerLoad, s)
      | Some list \<Rightarrow>
          (case f list of
             Inl e \<Rightarrow> (Inl e, s)
           | Inr (list', x) \<Rightarrow>
               (case Servers_Save saveOk list' (so_servers s) of
                  (True, d) \<Rightarrow> (Inr x, s \<lparr> so_servers := d \<rparr>) | (False, d) \<Rightarrow> (Inl ServerSave, s))))"

definition then_publish :: "store_event \<Rightarrow> (store_error + 'a) \<times> stores \<Rightarrow> (store_error + 'a) \<times> stores" where
  "then_publish e r = (case r of (Inl err, s) \<Rightarrow> (Inl err, s) | (Inr x, s) \<Rightarrow> (Inr x, publish e s))"

section \<open>Views (app.go, country.go)\<close>

text \<open>A regional indicator, as its four bytes.\<close>

definition regional :: "string \<Rightarrow> char option" where
  "regional s =
     (if 4 \<le> length s \<and> take 3 s = [CHR 0xF0, CHR 0x9F, CHR 0x87] \<and>
         166 \<le> (of_char (s ! 3) :: nat) \<and> (of_char (s ! 3) :: nat) \<le> 191
      then Some (char_of ((of_char (s ! 3) :: nat) - 101)) else None)"

definition extractLeadingFlagEmoji :: "string \<Rightarrow> string \<times> string" where
  "extractLeadingFlagEmoji name =
     (case (regional name, regional (drop 4 name)) of
        (Some a, Some b) \<Rightarrow> ([a, b], TrimPrefix (drop 8 name) '' '')
      | _ \<Rightarrow> ([], name))"

definition view_hostPort :: "string \<Rightarrow> 16 word \<Rightarrow> string" where
  "view_hostPort addr port = (if addr = [] \<and> port = 0 then [] else hostPort addr port)"

record ServerView =
  sv_ID :: string
  sv_Name :: string
  sv_Country :: string
  sv_Address :: string
  sv_Transport :: string
  sv_Security :: string
  sv_LatencyMs :: int
  sv_Origin :: string
  sv_Favorite :: bool
  sv_Tags :: "string list"
  sv_URI :: string

definition toServerView :: "(string \<Rightarrow> string) \<Rightarrow> Server \<Rightarrow> ServerView" where
  "toServerView originByID s =
     (case extractLeadingFlagEmoji (s_Name s) of (country, displayName) \<Rightarrow>
        \<lparr> sv_ID = s_ID s, sv_Name = displayName, sv_Country = country, sv_Address = view_hostPort (v_Address (s_Vless s)) (v_Port (s_Vless s)),
          sv_Transport = Transport_String (v_Transport (s_Vless s)), sv_Security = Security_String (v_Security (s_Vless s)),
          sv_LatencyMs = (case s_LatencyMS s of None \<Rightarrow> 0 | Some ms \<Rightarrow> ms),
          sv_Origin = (if originByID (s_SourceID s) = [] then ''manual'' else originByID (s_SourceID s)),
          sv_Favorite = s_Favorite s, sv_Tags = s_Tags s, sv_URI = Config_URL (s_Vless s) \<rparr>)"

definition toServerViews :: "Server list \<Rightarrow> (string \<Rightarrow> string) \<Rightarrow> ServerView list" where
  "toServerViews ss originByID = map (toServerView originByID) ss"

abbreviation no_origins :: "string \<Rightarrow> string" where "no_origins \<equiv> \<lambda>_. []"

text \<open>\<^verbatim>\<open>getScheme\<close>: the length of the scheme with its colon, nothing if there is none.\<close>

definition scheme_length :: "string \<Rightarrow> nat" where
  "scheme_length s =
     (let p = takeWhile (scheme_char False) s in
      if p \<noteq> [] \<and> scheme_char True (hd p) \<and> length p < length s \<and> s ! length p = CHR '':'' then length p + 1 else 0)"

definition NameFromURL :: "string \<Rightarrow> string" where
  "NameFromURL rawURL =
     (let s = TrimSpace rawURL; n = scheme_length s; rest = drop n s in
      if HasPrefix rest ''//'' \<and> (n \<noteq> 0 \<or> \<not> HasPrefix rest ''///'')
      then (case url_Parse (n + 2) s of None \<Rightarrow> [] | Some u \<Rightarrow> fst (splitHostPort (url_Host u)))
      else [])"

definition DisplayName :: "Stored \<Rightarrow> string" where
  "DisplayName s = (if TrimSpace (st_Name s) \<noteq> [] then TrimSpace (st_Name s) else NameFromURL (st_URL s))"

record SubView =
  bv_ID :: string
  bv_Name :: string
  bv_URL :: string
  bv_UpdateInterval :: int
  bv_LastSyncAt :: int
  bv_LastSyncStatus :: string
  bv_LastSyncMessage :: string
  bv_ServerCount :: nat
  bv_Upload :: int
  bv_Download :: int
  bv_Total :: int
  bv_Expire :: "int option"
  bv_UserAgent :: string

definition serverCountBySource :: "Server list \<Rightarrow> string \<Rightarrow> nat" where
  "serverCountBySource servers src = length (filter (\<lambda>s. s_SourceID s = src) servers)"

text \<open>\<^verbatim>\<open>time.Duration / time.Second\<close>\<close>

definition to_seconds :: "int \<Rightarrow> int" where
  "to_seconds d = (if d < 0 then - ((- d) div second) else d div second)"

definition toSubView :: "(string \<Rightarrow> nat) \<Rightarrow> Stored \<Rightarrow> SubView" where
  "toSubView serverCount s =
     \<lparr> bv_ID = st_ID s, bv_Name = DisplayName s, bv_URL = st_URL s, bv_UpdateInterval = to_seconds (st_UpdateInterval s),
       bv_LastSyncAt = st_LastSyncAt s, bv_LastSyncStatus = st_LastStatus s, bv_LastSyncMessage = st_LastMessage s,
       bv_ServerCount = serverCount (st_ID s), bv_Upload = st_Upload s, bv_Download = st_Download s, bv_Total = st_Total s,
       bv_Expire = st_Expire s, bv_UserAgent = st_UserAgent s \<rparr>"

definition toSubViews :: "Stored list \<Rightarrow> (string \<Rightarrow> nat) \<Rightarrow> SubView list" where
  "toSubViews subs serverCount = map (toSubView serverCount) subs"

text \<open>The last subscription with an identifier names it; the empty identifier is that of manual servers.\<close>

definition subOriginByID :: "Stored list \<Rightarrow> string \<Rightarrow> string" where
  "subOriginByID subs sid =
     (if sid = [] then ''manual''
      else case find (\<lambda>s. st_ID s = sid) (rev subs) of
        None \<Rightarrow> []
      | Some s \<Rightarrow> (if DisplayName s = [] then st_ID s else DisplayName s))"

section \<open>servers.go\<close>

definition Servers_List :: "stores \<Rightarrow> store_error + ServerView list" where
  "Servers_List s =
     (case Servers_Load (so_servers s) of None \<Rightarrow> Inl ServerLoad | Some ss \<Rightarrow> Inr (toServerViews ss no_origins))"

definition server_index :: "string \<Rightarrow> Server list \<Rightarrow> nat option" where
  "server_index i = index_where (\<lambda>s. s_ID s = i)"

definition ToggleFavorite :: "bool \<Rightarrow> string \<Rightarrow> stores \<Rightarrow> (store_error + unit) \<times> stores" where
  "ToggleFavorite saveOk i s =
     then_publish EventServersChanged (with_servers saveOk
       (\<lambda>ss. case server_index i ss of
          None \<Rightarrow> Inl ErrServerNotFound
        | Some k \<Rightarrow> Inr (ss[k := (ss ! k) \<lparr> s_Favorite := \<not> s_Favorite (ss ! k) \<rparr>], ())) s)"

text \<open>\<open>dial\<close> is the time of a connection in milliseconds, or the error.\<close>

definition probeOne :: "(Server \<Rightarrow> string + int) \<Rightarrow> Server \<Rightarrow> probe_entry" where
  "probeOne dial t =
     (case dial t of
        Inl e \<Rightarrow> \<lparr> pe_id = s_ID t, pe_latencyMs = 0, pe_error = Some e \<rparr>
      | Inr ms \<Rightarrow> \<lparr> pe_id = s_ID t, pe_latencyMs = max ms 1, pe_error = None \<rparr>)"

definition probe_targets :: "string \<Rightarrow> Server list \<Rightarrow> store_error + Server list" where
  "probe_targets i ss =
     (if i = [] then Inr ss
      else case find (\<lambda>s. s_ID s = i) ss of None \<Rightarrow> Inl ErrServerNotFound | Some t \<Rightarrow> Inr [t])"

definition latencyByID :: "probe_entry list \<Rightarrow> string \<rightharpoonup> int" where
  "latencyByID results = map_of (rev (map (\<lambda>r. (pe_id r, pe_latencyMs r)) (filter (\<lambda>r. pe_error r = None) results)))"

definition latency_commit :: "bool \<Rightarrow> probe_entry list \<Rightarrow> stores \<Rightarrow> (store_error + unit) \<times> stores" where
  "latency_commit saveOk results s =
     (let lat = latencyByID results in
      then_publish EventServersChanged (then_publish (EventProbeResult results) (with_servers saveOk
        (\<lambda>current. Inr (map (\<lambda>s. case lat (s_ID s) of None \<Rightarrow> s | Some ms \<Rightarrow> s \<lparr> s_LatencyMS := Some ms \<rparr>) current, ())) s)))"

definition TestLatency :: "(Server \<Rightarrow> string + int) \<Rightarrow> (stores \<Rightarrow> stores) \<Rightarrow> bool \<Rightarrow> string \<Rightarrow> stores
    \<Rightarrow> (store_error + unit) \<times> stores" where
  "TestLatency dial meanwhile saveOk i s =
     (case Servers_Load (so_servers s) of
        None \<Rightarrow> (Inl ServerLoad, s)
      | Some snapshot \<Rightarrow>
          (case probe_targets i snapshot of
             Inl e \<Rightarrow> (Inl e, s)
           | Inr targets \<Rightarrow> latency_commit saveOk (map (probeOne dial) targets) (meanwhile s)))"

definition validateServerURI :: "string \<Rightarrow> store_error + Config" where
  "validateServerURI rawURI =
     (if rawURI = [] then Inl URIRequired
      else case ParseURL rawURI of
        Inl e \<Rightarrow> Inl InvalidURI
      | Inr cfg \<Rightarrow> (case Normalize cfg of Inl e \<Rightarrow> Inl InvalidURI | Inr (msgs, cfg') \<Rightarrow> Inr cfg'))"

definition display_name :: "string \<Rightarrow> Config \<Rightarrow> string" where
  "display_name name cfg =
     (if name \<noteq> [] then name else if v_Remark cfg \<noteq> [] then v_Remark cfg else hostPort (v_Address cfg) (v_Port cfg))"

text \<open>The time in milliseconds, and two random bytes unless none can be had.\<close>

type_synonym draw = "int \<times> string option"

definition stamped :: "string \<Rightarrow> draw \<Rightarrow> string" where
  "stamped p dr = p @ int_str (fst dr) @ (case snd dr of None \<Rightarrow> [] | Some b \<Rightarrow> ''-'' @ hex_encode (take 2 b))"

definition generateServerID :: "draw \<Rightarrow> string" where
  "generateServerID dr = stamped ''m'' dr"

definition Servers_Add :: "bool \<Rightarrow> draw \<Rightarrow> string \<Rightarrow> string \<Rightarrow> stores \<Rightarrow> (store_error + ServerView) \<times> stores" where
  "Servers_Add saveOk dr rawURI name s =
     (case validateServerURI (TrimSpace rawURI) of
        Inl e \<Rightarrow> (Inl e, s)
      | Inr cfg \<Rightarrow>
          (let srv = zero_Server \<lparr> s_ID := generateServerID dr, s_Origin := OriginManual, s_Name := display_name (TrimSpace name) cfg,
                       s_Remark := v_Remark cfg, s_Vless := cfg \<rparr>
           in then_publish EventServersChanged
                (with_servers saveOk (\<lambda>ss. Inr (ss @ [srv], toServerView no_origins srv)) s)))"

definition isOrphanSubServer :: "subs_file \<Rightarrow> Server \<Rightarrow> bool" where
  "isOrphanSubServer f srv \<longleftrightarrow>
     s_Origin srv = OriginSubscription \<and>
     (case Subs_Load f of Inl e \<Rightarrow> False | Inr subs \<Rightarrow> \<not> list_ex (\<lambda>b. st_ID b = s_SourceID srv) subs)"

definition Servers_Remove :: "string option \<Rightarrow> bool \<Rightarrow> string \<Rightarrow> stores \<Rightarrow> (store_error + unit) \<times> stores" where
  "Servers_Remove active saveOk i s =
     then_publish EventServersChanged (with_servers saveOk
       (\<lambda>ss. case server_index i ss of
          None \<Rightarrow> Inl ErrServerNotFound
        | Some k \<Rightarrow>
            (if s_Origin (ss ! k) \<noteq> OriginManual \<and> \<not> isOrphanSubServer (so_subs s) (ss ! k) then Inl OnlyManualDeleted
             else if active = Some i then Inl DisconnectFirst
             else Inr (remove_at k ss, ()))) s)"

definition Servers_Edit :: "bool \<Rightarrow> string \<Rightarrow> string \<Rightarrow> string \<Rightarrow> stores \<Rightarrow> (store_error + ServerView \<times> bool) \<times> stores" where
  "Servers_Edit saveOk i rawURI name s =
     (case validateServerURI (TrimSpace rawURI) of
        Inl e \<Rightarrow> (Inl e, s)
      | Inr cfg \<Rightarrow>
          then_publish EventServersChanged (with_servers saveOk
            (\<lambda>ss. case server_index i ss of
               None \<Rightarrow> Inl ErrServerNotFound
             | Some k \<Rightarrow>
                 (if s_Origin (ss ! k) \<noteq> OriginManual then Inl OnlyManualEdited
                  else let srv = (ss ! k) \<lparr> s_Name := display_name (TrimSpace name) cfg, s_Remark := v_Remark cfg, s_Vless := cfg \<rparr>
                    in Inr (ss[k := srv], (toServerView no_origins srv, s_Vless (ss ! k) \<noteq> cfg)))) s))"

section \<open>subs.go\<close>

definition Subs_List :: "stores \<Rightarrow> store_error + SubView list" where
  "Subs_List s =
     (case Subs_Load (so_subs s) of
        Inl e \<Rightarrow> Inl SubLoad
      | Inr subs \<Rightarrow>
          (case Servers_Load (so_servers s) of
             None \<Rightarrow> Inl ServerLoad | Some ss \<Rightarrow> Inr (toSubViews subs (serverCountBySource ss))))"

definition http_scheme :: "string \<Rightarrow> nat option" where
  "http_scheme s =
     (if map to_lower (take 7 s) = ''http://'' then Some 7
      else if map to_lower (take 8 s) = ''https://'' then Some 8 else None)"

definition validateSubURL :: "string \<Rightarrow> bool" where
  "validateSubURL s \<longleftrightarrow>
     (case http_scheme s of
        None \<Rightarrow> False | Some n \<Rightarrow> (case url_Parse n s of None \<Rightarrow> False | Some u \<Rightarrow> url_Host u \<noteq> []))"

definition generateSubID :: "draw \<Rightarrow> string" where
  "generateSubID dr = stamped ''s'' dr"

definition defaultUpdateInterval :: int where "defaultUpdateInterval = 3600 * second"

text \<open>\<open>secs\<close> is the interval of the settings, zero when there is none. The first sync that is started afterwards is not part of the call.\<close>

definition Subs_Add :: "int \<Rightarrow> bool \<Rightarrow> draw \<Rightarrow> string \<Rightarrow> string \<Rightarrow> stores \<Rightarrow> (store_error + SubView) \<times> stores" where
  "Subs_Add secs saveOk dr rawURL0 userAgent s =
     (let rawURL = TrimSpace rawURL0 in
      if \<not> validateSubURL rawURL then (Inl InvalidSubURL, s)
      else let stored = \<lparr> st_ID = generateSubID dr, st_Name = NameFromURL rawURL, st_URL = rawURL, st_UserAgent = TrimSpace userAgent,
                          st_UpdateInterval = (if 0 < secs then secs * second else defaultUpdateInterval), st_LastSyncAt = 0,
                          st_LastStatus = [], st_LastMessage = [], st_Upload = 0, st_Download = 0, st_Total = 0, st_Expire = None \<rparr>
        in case Subs_Load (so_subs s) of
             Inl e \<Rightarrow> (Inl SubLoad, s)
           | Inr subs \<Rightarrow>
               (case Subs_Save saveOk (subs @ [stored]) (so_subs s) of
                  (False, f) \<Rightarrow> (Inl SubSave, s)
                | (True, f) \<Rightarrow> (Inr (toSubView (\<lambda>_. 0) stored), s \<lparr> so_subs := f \<rparr>)))"

text \<open>The servers of the removed subscription go with it, if they can be read and written.\<close>

definition cascade :: "bool \<Rightarrow> string \<Rightarrow> stores \<Rightarrow> stores" where
  "cascade saveServers i s =
     (case Servers_Load (so_servers s) of
        None \<Rightarrow> s
      | Some ss \<Rightarrow>
          (if list_ex (\<lambda>srv. s_SourceID srv = i) ss
           then (case Servers_Save saveServers (filter (\<lambda>srv. s_SourceID srv \<noteq> i) ss) (so_servers s) of
                   (True, d) \<Rightarrow> publish EventServersChanged (s \<lparr> so_servers := d \<rparr>) | (False, d) \<Rightarrow> s)
           else s))"

definition Subs_Remove :: "bool \<Rightarrow> bool \<Rightarrow> string \<Rightarrow> stores \<Rightarrow> (store_error + unit) \<times> stores" where
  "Subs_Remove saveSubs saveServers i s =
     (case Subs_Load (so_subs s) of
        Inl e \<Rightarrow> (Inl SubLoad, s)
      | Inr subs \<Rightarrow>
          (case Subs_Save saveSubs (filter (\<lambda>b. st_ID b \<noteq> i) subs) (so_subs s) of
             (False, f) \<Rightarrow> (Inl SubSave, s)
           | (True, f) \<Rightarrow> (Inr (), cascade saveServers i (s \<lparr> so_subs := f \<rparr>))))"

definition readdress :: "string \<Rightarrow> Stored \<Rightarrow> Stored" where
  "readdress rawURL b =
     b \<lparr> st_LastSyncAt := 0, st_LastStatus := [], st_LastMessage := [], st_Upload := 0, st_Download := 0, st_Total := 0,
         st_Expire := None, st_URL := rawURL, st_Name := NameFromURL rawURL \<rparr>"

definition Subs_Edit :: "bool \<Rightarrow> bool \<Rightarrow> string \<Rightarrow> string \<Rightarrow> string \<Rightarrow> stores \<Rightarrow> (store_error + SubView) \<times> stores" where
  "Subs_Edit saveServers saveSubs i rawURL0 userAgent s =
     (let rawURL = TrimSpace rawURL0 in
      if \<not> validateSubURL rawURL then (Inl InvalidSubURL, s)
      else case Subs_Load (so_subs s) of
        Inl e \<Rightarrow> (Inl SubLoad, s)
      | Inr subs \<Rightarrow>
          (case index_where (\<lambda>b. st_ID b = i) subs of
             None \<Rightarrow> (Inl SubNotFound, s)
           | Some k \<Rightarrow>
               (let changed = (st_URL (subs ! k) \<noteq> rawURL);
                    dropped = (if changed then with_servers saveServers (\<lambda>ss. Inr (filter (\<lambda>srv. s_SourceID srv \<noteq> i) ss, ())) s else (Inr (), s));
                    b = (if changed then readdress rawURL (subs ! k) else subs ! k) \<lparr> st_UserAgent := TrimSpace userAgent \<rparr>
                in case dropped of
                     (Inl e, s1) \<Rightarrow> (Inl e, s1)
                   | (Inr u, s1) \<Rightarrow>
                       (case Subs_Save saveSubs (subs[k := b]) (so_subs s1) of
                          (False, f) \<Rightarrow> (Inl SubSave, s1)
                        | (True, f) \<Rightarrow>
                            (let s2 = s1 \<lparr> so_subs := f \<rparr> in
                             case Servers_Load (so_servers s2) of
                               None \<Rightarrow> (Inl ServerLoad, s2)
                             | Some ss \<Rightarrow> (Inr (toSubView (serverCountBySource ss) b), s2))))))"


section \<open>subs.go: synchronization\<close>

text \<open>The number of servers of the subscription after the merge, or the error; \<open>None\<close> when the merge does not end.\<close>

definition merge_save :: "(string \<Rightarrow> string) \<Rightarrow> bool \<Rightarrow> Server list \<Rightarrow> string \<Rightarrow> stores \<Rightarrow> ((store_error + nat) \<times> stores) option" where
  "merge_save sha saveOk incoming i s =
     (case Servers_Load (so_servers s) of
        None \<Rightarrow> Some (Inl ServerLoad, s)
      | Some existing \<Rightarrow>
          map_option (\<lambda>merged.
            (case Servers_Save saveOk merged (so_servers s) of
               (False, d) \<Rightarrow> (Inl ServerSave, s)
             | (True, d) \<Rightarrow> (Inr (serverCountBySource merged i), s \<lparr> so_servers := d \<rparr>)))
            (Merge sha existing incoming i))"

record sync_env =
  sy_save_servers :: bool
  sy_save_meta :: bool
  sy_time :: int
  sy_text :: "store_error \<Rightarrow> string"

definition sync_publish :: "string \<Rightarrow> string \<Rightarrow> string \<Rightarrow> nat \<Rightarrow> stores \<Rightarrow> stores" where
  "sync_publish i status msg imported s =
     publish (EventSubSynced \<lparr> se_id = i, se_status = status, se_importedCount = imported, se_message = msg \<rparr>) s"

text \<open>The status that is recorded and published, given what became of the servers.\<close>

definition sync_finish :: "sync_env \<Rightarrow> string \<Rightarrow> string \<Rightarrow> SyncMeta \<Rightarrow> sync_error option \<Rightarrow> store_error + nat \<Rightarrow> stores
    \<Rightarrow> store_error option \<times> stores" where
  "sync_finish env i url meta syncErr saved s1 =
     (let (status, msg, imported, err) =
            (case saved of
               Inl e \<Rightarrow> (''error'', ''server.Save: '' @ sy_text env e, 0, Some e)
             | Inr n \<Rightarrow> (sm_Status meta, sm_Message meta, n, map_option SyncFailed syncErr));
          f = snd (UpdateMeta (sy_save_meta env) i url (sy_time env) status (truncate_to msg 120)
                (if syncErr = None then Some (sm_Headers meta) else None) (so_subs s1))
      in (err, sync_publish i status msg imported (s1 \<lparr> so_subs := f \<rparr>)))"

text \<open>The part of \<^verbatim>\<open>SyncOne\<close> after the fetch: under the lock, then the event.\<close>

definition sync_commit :: "(string \<Rightarrow> string) \<Rightarrow> sync_env \<Rightarrow> string \<Rightarrow> string \<Rightarrow> sync_out \<Rightarrow> stores
    \<Rightarrow> (store_error option \<times> stores) option" where
  "sync_commit sha env i url out s =
     (case out of (incoming, meta, syncErr) \<Rightarrow>
        case Subs_Load (so_subs s) of
          Inl e \<Rightarrow> Some (Some SubLoad, s)
        | Inr current \<Rightarrow>
            (if \<not> list_ex (\<lambda>b. st_ID b = i \<and> st_URL b = url) current then Some (None, s)
             else map_option (case_prod (sync_finish env i url meta syncErr))
               (if syncErr = None then merge_save sha (sy_save_servers env) incoming i s else Some (Inr 0, s))))"

text \<open>
  \<^verbatim>\<open>SyncOne\<close>: \<open>resolve\<close> gives the input or an error, \<open>fetch\<close> is \<^verbatim>\<open>FetchParse\<close>, \<open>redact\<close> the text of an error.
\<close>

definition SyncOne :: "(string \<Rightarrow> string) \<Rightarrow> (Stored \<Rightarrow> sync_error + FetchOptions) \<Rightarrow> (string \<Rightarrow> FetchOptions \<Rightarrow> sync_out)
    \<Rightarrow> (sync_error \<Rightarrow> string) \<Rightarrow> sync_env \<Rightarrow> (stores \<Rightarrow> stores) \<Rightarrow> string \<Rightarrow> stores \<Rightarrow> (store_error option \<times> stores) option" where
  "SyncOne sha resolve fetch redact env meanwhile i s =
     (case Subs_Load (so_subs s) of
        Inl e \<Rightarrow> Some (Some SubLoad, s)
      | Inr subs \<Rightarrow>
          (case find (\<lambda>b. st_ID b = i) subs of
             None \<Rightarrow> Some (Some SubNotFound, s)
           | Some b \<Rightarrow>
               (case resolve b of
                  Inl e \<Rightarrow> sync_commit sha env i (fo_URL (ToSyncInput b))
                             ([], \<lparr> sm_LastUpdate = sy_time env, sm_Status = ''error'', sm_Message = redact e, sm_Headers = no_headers \<rparr>, Some e)
                             (meanwhile s)
                | Inr input \<Rightarrow> sync_commit sha env i (fo_URL input) (fetch i input) (meanwhile s))))"

text \<open>\<^verbatim>\<open>SyncAll\<close>: each subscription once, in the order in which the syncs get the lock; errors are only logged.\<close>

fun sync_list :: "(string \<Rightarrow> stores \<Rightarrow> (store_error option \<times> stores) option) \<Rightarrow> string list \<Rightarrow> stores \<Rightarrow> stores option" where
  "sync_list one [] s = Some s"
| "sync_list one (i # is) s = (case one i s of None \<Rightarrow> None | Some (e, s') \<Rightarrow> sync_list one is s')"

definition SyncAll :: "(string \<Rightarrow> stores \<Rightarrow> (store_error option \<times> stores) option) \<Rightarrow> (string list \<Rightarrow> string list) \<Rightarrow> stores
    \<Rightarrow> (store_error option \<times> stores) option" where
  "SyncAll one order s =
     (case Subs_Load (so_subs s) of
        Inl e \<Rightarrow> Some (Some SubLoad, s)
      | Inr subs \<Rightarrow> map_option (Pair None) (sync_list one (order (map st_ID subs)) s))"

section \<open>The empty identifier\<close>

text \<open>
  C40. Removing the subscription with the empty identifier, which is what a request without the field asks for, removes
  every server that belongs to no subscription, the user's own ones among them.
\<close>

theorem Remove_empty_id_wipes_manual:
  assumes "Servers_Load (so_servers s) = Some ss" "list_all server_wf ss" "Subs_Load (so_subs s) = Inr subs"
  shows "\<exists>s'. Subs_Remove True True [] s = (Inr (), s') \<and>
    Servers_Load (so_servers s') = Some (filter (\<lambda>srv. s_SourceID srv \<noteq> []) ss)"
proof -
  let ?ss = "filter (\<lambda>srv. s_SourceID srv \<noteq> []) ss"
  have "list_all server_wf ?ss" using assms(2) by (simp add: list_all_iff)
  then have l: "Servers_Load (Tree (enc_slice enc_Server ?ss)) = Some ?ss"
    using sstore.load_after [of ?ss True Absent] by (simp add: Servers_Save_def)
  show ?thesis
  proof (cases "list_ex (\<lambda>srv. s_SourceID srv = []) ss")
    case True
    then show ?thesis
      using assms(1,3) l by (simp add: Subs_Remove_def Subs_Save_def cascade_def publish_def Servers_Save_def)
  next
    case False
    then have "?ss = ss" by (auto simp: list_ex_iff intro: filter_True)
    then show ?thesis using assms(1,3) False by (simp add: Subs_Remove_def Subs_Save_def cascade_def)
  qed
qed

text \<open>A store with one server of the user and one of a subscription.\<close>

definition own_server :: Server where
  "own_server = zero_Server \<lparr> s_ID := ''m1'', s_Origin := OriginManual, s_Name := ''mine'' \<rparr>"

definition sample_stores :: stores where
  "sample_stores = \<lparr> so_subs = SubsFile [sample_sub],
     so_servers = snd (Servers_Save True [own_server, sample_server ''a'' ''s1'' ''h1''] Absent), so_events = [] \<rparr>"

lemma sample_stores_load:
  "Servers_Load (so_servers sample_stores) = Some [own_server, sample_server ''a'' ''s1'' ''h1'']"
  "list_all server_wf [own_server, sample_server ''a'' ''s1'' ''h1'']"
  "Subs_Load (so_subs sample_stores) = Inr [sample_sub]"
proof -
  show w: "list_all server_wf [own_server, sample_server ''a'' ''s1'' ''h1'']"
    by (simp add: own_server_def sample_server_def server_wf_def zero_Server_def zero_Config_def go_int_def)
  then show "Servers_Load (so_servers sample_stores) = Some [own_server, sample_server ''a'' ''s1'' ''h1'']"
    using sstore.load_after [OF w, of True Absent] by (simp add: sample_stores_def)
  show "Subs_Load (so_subs sample_stores) = Inr [sample_sub]" by (simp add: sample_stores_def Subs_Load_def)
qed

theorem Remove_empty_id_wipes_manual_witness:
  "\<exists>s'. Subs_Remove True True [] sample_stores = (Inr (), s') \<and>
     Servers_Load (so_servers s') = Some [sample_server ''a'' ''s1'' ''h1'']"
  using Remove_empty_id_wipes_manual [OF sample_stores_load]
  by (simp add: own_server_def sample_server_def zero_Server_def)

section \<open>What happens in the background\<close>

definition is_manual :: "Server \<Rightarrow> bool" where "is_manual s \<longleftrightarrow> s_Origin s = OriginManual"

text \<open>The user's own servers, up to what probing and the star change.\<close>

definition plain :: "Server \<Rightarrow> Server" where
  "plain s = s \<lparr> s_LatencyMS := None, s_Favorite := False \<rparr>"

definition manuals :: "Server list \<Rightarrow> Server list" where
  "manuals ss = map plain (filter is_manual ss)"

definition well :: "Server list \<Rightarrow> bool" where
  "well ss \<longleftrightarrow> list_all server_wf ss \<and> distinct (map s_ID ss) \<and> list_all (\<lambda>s. is_manual s \<longrightarrow> s_SourceID s = []) ss"

definition good_stores :: "stores \<Rightarrow> bool" where
  "good_stores s \<longleftrightarrow> (case Servers_Load (so_servers s) of None \<Rightarrow> False | Some ss \<Rightarrow> well ss)"

definition own_servers :: "stores \<Rightarrow> Server list" where
  "own_servers s = (case Servers_Load (so_servers s) of None \<Rightarrow> [] | Some ss \<Rightarrow> manuals ss)"

text \<open>What a fetched list is: the entries of a subscription, with no two of them or of the store colliding in the hash.\<close>

definition fetched :: "(string \<Rightarrow> string) \<Rightarrow> Server list \<Rightarrow> stores \<Rightarrow> bool" where
  "fetched sha incoming s \<longleftrightarrow>
     list_all (\<lambda>x. server_wf x \<and> \<not> is_manual x) incoming \<and>
     (case Servers_Load (so_servers s) of None \<Rightarrow> True | Some ss \<Rightarrow> no_collision sha (ss @ incoming))"

definition go_results :: "probe_result list \<Rightarrow> bool" where
  "go_results rs \<longleftrightarrow> list_all (\<lambda>r. case snd r of None \<Rightarrow> True | Some n \<Rightarrow> go_int n) rs"

definition go_entries :: "probe_entry list \<Rightarrow> bool" where
  "go_entries rs \<longleftrightarrow> list_all (\<lambda>r. go_int (pe_latencyMs r)) rs"

definition as_files :: "stores \<Rightarrow> files" where
  "as_files s = \<lparr> fi_subs = so_subs s, fi_servers = so_servers s, fi_synced = [] \<rparr>"

text \<open>
  The steps that others than the user's edits of servers take, each under the store lock: a sync from the list of
  subscriptions or from the refresh workers, the periodic and the requested probes, the star, and the changes of
  subscriptions.
\<close>

inductive background :: "(string \<Rightarrow> string) \<Rightarrow> stores \<Rightarrow> stores \<Rightarrow> bool" for sha where
  bg_sync: "sync_commit sha env i url (incoming, meta, e) s = Some (err, s') \<Longrightarrow> fetched sha incoming s \<Longrightarrow> background sha s s'"
| bg_refresh: "syncOne sha cenv sub (incoming, meta, e) (as_files s) = Some (r, d) \<Longrightarrow> fetched sha incoming s \<Longrightarrow>
    background sha s (s \<lparr> so_subs := fi_subs d, so_servers := fi_servers d \<rparr>)"
| bg_probe: "go_results results \<Longrightarrow>
    background sha s (s \<lparr> so_servers := probe_apply cancelled ok results (so_servers s) \<rparr>)"
| bg_latency: "go_entries entries \<Longrightarrow> background sha s (snd (latency_commit ok entries s))"
| bg_star: "background sha s (snd (ToggleFavorite ok i s))"
| bg_add: "background sha s (snd (Subs_Add secs ok dr url agent s))"
| bg_edit: "i \<noteq> [] \<Longrightarrow> background sha s (snd (Subs_Edit ok1 ok2 i url agent s))"
| bg_remove: "i \<noteq> [] \<Longrightarrow> background sha s (snd (Subs_Remove ok1 ok2 i s))"

definition keeps :: "Server list \<Rightarrow> Server list \<Rightarrow> bool" where
  "keeps ss ss' \<longleftrightarrow> well ss' \<and> manuals ss' = manuals ss"

definition spares :: "stores \<Rightarrow> stores \<Rightarrow> bool" where
  "spares s s' \<longleftrightarrow> (good_stores s \<longrightarrow> good_stores s' \<and> own_servers s' = own_servers s)"

lemma spares_same: "so_servers s' = so_servers s \<Longrightarrow> spares s s'"
  by (simp add: spares_def good_stores_def own_servers_def)

lemma spares_trans: "spares s s' \<Longrightarrow> spares s' s'' \<Longrightarrow> spares s s''"
  by (simp add: spares_def)

text \<open>A file that is replaced by a list that keeps the user's servers.\<close>

lemma spares_save:
  assumes "Servers_Load (so_servers s) = Some ss" "well ss \<Longrightarrow> keeps ss ss'"
    and "so_servers s' = snd (Servers_Save ok ss' (so_servers s))"
  shows "spares s s'"
proof (cases "well ss")
  case True
  then have k: "well ss'" "manuals ss' = manuals ss" using assms(2) by (simp_all add: keeps_def)
  then have "Servers_Load (so_servers s') = (if ok then Some ss' else Some ss)"
    using sstore.load_after [of ss' ok "so_servers s"] assms(1,3) by (simp add: well_def)
  then show ?thesis using k assms(1) by (simp add: spares_def good_stores_def own_servers_def)
qed (simp add: spares_def good_stores_def assms(1))

lemma spares_with_servers:
  assumes "\<And>ss ss' x. f ss = Inr (ss', x) \<Longrightarrow> well ss \<Longrightarrow> keeps ss ss'"
  shows "spares s (snd (with_servers ok f s))"
proof (cases "Servers_Load (so_servers s)")
  case None
  then show ?thesis by (simp add: with_servers_def spares_same)
next
  case (Some ss)
  show ?thesis
  proof (cases "f ss")
    case (Inl e)
    then show ?thesis using Some by (simp add: with_servers_def spares_same)
  next
    case (Inr r)
    obtain ss' x where r: "r = (ss', x)" by (cases r)
    show ?thesis
      by (rule spares_save [OF Some, of ss' _ ok]) (use Some Inr r assms in \<open>auto simp: with_servers_def Servers_Save_def\<close>)
  qed
qed

lemma then_publish_servers [simp]: "so_servers (snd (then_publish e r)) = so_servers (snd r)"
  by (simp add: then_publish_def publish_def split: prod.split sum.split)

lemma spares_publish: "spares s (snd r) \<Longrightarrow> spares s (snd (then_publish e r))"
  by (erule spares_trans) (simp add: spares_same)

subsection \<open>Lists that keep the user's servers\<close>

lemma plain_simps [simp]:
  "plain (s \<lparr> s_LatencyMS := l \<rparr>) = plain s" "plain (s \<lparr> s_Favorite := b \<rparr>) = plain s"
  by (simp_all add: plain_def)

lemma keeps_refl: "well ss \<Longrightarrow> keeps ss ss"
  by (simp add: keeps_def)

text \<open>A change of single entries that leaves the identity, the origin and everything the user entered alone.\<close>

lemma keeps_pointwise:
  assumes "well ss" "list_all2 (\<lambda>a b. server_wf b \<and> s_ID b = s_ID a \<and> s_SourceID b = s_SourceID a \<and> s_Origin b = s_Origin a \<and> plain b = plain a) ss ss'"
  shows "keeps ss ss'"
proof -
  from assms(2) have "manuals ss' = manuals ss \<and> map s_ID ss' = map s_ID ss \<and> list_all server_wf ss' \<and>
      (list_all (\<lambda>s. is_manual s \<longrightarrow> s_SourceID s = []) ss \<longrightarrow> list_all (\<lambda>s. is_manual s \<longrightarrow> s_SourceID s = []) ss')"
    by (induction rule: list_all2_induct) (auto simp: manuals_def is_manual_def)
  then show ?thesis using assms(1) by (simp add: keeps_def well_def)
qed

lemma keeps_filter:
  assumes "well ss" "i \<noteq> []"
  shows "keeps ss (filter (\<lambda>srv. s_SourceID srv \<noteq> i) ss)"
proof -
  have "filter is_manual (filter (\<lambda>srv. s_SourceID srv \<noteq> i) ss) = filter is_manual ss"
    using assms by (auto simp: well_def list_all_iff intro: filter_cong)
  then show ?thesis
    using assms(1) distinct_map_filter [of s_ID ss] by (auto simp: keeps_def well_def manuals_def list_all_iff)
qed

lemma keeps_trans: "keeps ss ss' \<Longrightarrow> (well ss' \<Longrightarrow> keeps ss' ss'') \<Longrightarrow> keeps ss ss''"
  by (simp add: keeps_def)

lemma keep_local_wf:
  assumes "server_wf s" "list_all server_wf existing"
  shows "server_wf (keep_local existing s)"
proof (cases "existingByID existing (s_ID s)")
  case None
  then show ?thesis using assms by (simp add: keep_local_def)
next
  case (Some old)
  then have "old \<in> set existing" by (metis existingByID_def find_Some_iff nth_mem set_rev)
  then have "server_wf old" using assms(2) by (simp add: list_all_iff)
  then show ?thesis using assms(1) Some by (simp add: keep_local_def server_wf_def)
qed

lemma unique_by_subset: "set (unique_by f seen xs) \<subseteq> set xs"
  by (induction f seen xs rule: unique_by.induct) auto

lemma assign_ids_all:
  assumes "assign_ids sha existing src uniq res ss = Some out" "list_all P ss" "\<And>s i. P (s \<lparr> s_ID := i \<rparr>) = P s"
  shows "list_all P out"
proof -
  have "P s = P (s \<lparr> s_ID := [] \<rparr>)" for s using assms(3) by simp
  then have p: "list_all P l = list_all P (map (\<lambda>s. s \<lparr> s_ID := [] \<rparr>) l)" for l
    by (simp add: list_all_iff)
  show ?thesis using assms(2) p [of out] p [of ss] assign_ids_fields [OF assms(1)] by simp
qed

lemma keeps_merge:
  assumes "well existing" "list_all (\<lambda>x. server_wf x \<and> \<not> is_manual x) incoming"
    and "no_collision sha (existing @ incoming)" "Merge sha existing incoming i = Some out"
  shows "keeps existing out"
proof -
  let ?u = "incoming_unique sha incoming"
  have d: "distinct (map s_ID existing)" and w: "list_all server_wf existing" using assms(1) by (simp_all add: well_def)
  from Merge_shape [OF assms(4) d assms(3)] obtain inc where
    r: "reconcileIncomingIDs sha existing incoming i = Some inc"
    and out: "out = map (keep_local existing) inc @ filter (\<lambda>old. \<not> own i old) existing" by metis
  have "list_all (\<lambda>x. server_wf x \<and> \<not> is_manual x) ?u"
    using assms(2) unique_by_subset unfolding incoming_unique_def list_all_iff by fast
  with r have inc: "list_all (\<lambda>x. server_wf x \<and> \<not> is_manual x) inc"
    by (intro assign_ids_all [of sha existing i ?u _ ?u inc]) (simp_all add: reconcileIncomingIDs_def Let_def server_wf_def is_manual_def)
  then have m: "filter is_manual (map (keep_local existing) inc) = []"
    by (auto simp: filter_empty_conv list_all_iff is_manual_def)
  have f: "filter is_manual (filter (\<lambda>old. \<not> own i old) existing) = filter is_manual existing"
    by (simp, rule filter_cong) (auto simp: own_def is_manual_def OriginSubscription_def OriginManual_def)
  have "list_all server_wf out"
    using w inc keep_local_wf [OF _ w] unfolding out by (auto simp: list_all_iff)
  moreover have "list_all (\<lambda>s. is_manual s \<longrightarrow> s_SourceID s = []) out"
    using assms(1) inc unfolding out by (auto simp: list_all_iff well_def is_manual_def)
  moreover have "manuals out = manuals existing" unfolding manuals_def out filter_append m f by simp
  ultimately show ?thesis
    using Merge_ids [OF assms(4) d assms(3)] by (simp add: keeps_def well_def)
qed

lemma keeps_apply_result:
  assumes "well ss" "case snd r of None \<Rightarrow> True | Some n \<Rightarrow> go_int n"
  shows "keeps ss (apply_result ss r)"
proof (rule keeps_pointwise [OF assms(1)])
  obtain sid l where r: "r = (sid, l)" by (cases r)
  have a: "apply_result ss (sid, l) = (if sid = [] then ss else map (set_latency sid l) ss)"
    using assms(1) by (intro apply_result_map) (simp add: well_def)
  show "list_all2 (\<lambda>a b. server_wf b \<and> s_ID b = s_ID a \<and> s_SourceID b = s_SourceID a \<and> s_Origin b = s_Origin a \<and> plain b = plain a)
      ss (apply_result ss r)"
    using assms unfolding r a
    by (auto simp: list_all2_map2 list_all2_same well_def list_all_iff set_latency_def server_wf_def)
qed

lemma keeps_apply_results:
  assumes "well ss" "go_results rs"
  shows "keeps ss (foldl apply_result ss rs)"
  using assms
proof (induction rs arbitrary: ss)
  case Nil
  then show ?case by (simp add: keeps_refl)
next
  case (Cons r rs)
  show ?case
    using Cons.prems keeps_trans [OF keeps_apply_result [of ss r] Cons.IH] by (simp add: go_results_def)
qed

lemma latencyByID_go:
  assumes "go_entries rs" "latencyByID rs i = Some ms"
  shows "go_int ms"
proof -
  have "(i, ms) \<in> set (map (\<lambda>r. (pe_id r, pe_latencyMs r)) rs)"
    using map_of_SomeD [OF assms(2) [unfolded latencyByID_def]] by auto
  then show ?thesis using assms(1) by (auto simp: go_entries_def list_all_iff)
qed

lemma keeps_latency:
  assumes "well ss" "go_entries rs"
  shows "keeps ss (map (\<lambda>s. case latencyByID rs (s_ID s) of None \<Rightarrow> s | Some ms \<Rightarrow> s \<lparr> s_LatencyMS := Some ms \<rparr>) ss)"
  by (rule keeps_pointwise [OF assms(1)])
    (use assms latencyByID_go [OF assms(2)] in
      \<open>auto simp: list_all2_map2 list_all2_same well_def list_all_iff server_wf_def split: option.split\<close>)

lemma keeps_star:
  assumes "well ss" "k < length ss"
  shows "keeps ss (ss[k := (ss ! k) \<lparr> s_Favorite := b \<rparr>])"
  by (rule keeps_pointwise [OF assms(1)])
    (use assms in \<open>auto simp: list_all2_conv_all_nth nth_list_update well_def list_all_length server_wf_def\<close>)

subsection \<open>Each step\<close>

lemma spares_commit:
  assumes "Servers_Load (so_servers s) = Some ss" "fetched sha incoming s" "Merge sha ss incoming i = Some merged"
    and "so_servers s' = snd (Servers_Save ok merged (so_servers s))"
  shows "spares s s'"
proof (rule spares_save [OF assms(1) _ assms(4)])
  show "well ss \<Longrightarrow> keeps ss merged"
    using assms(1-3) by (intro keeps_merge) (simp_all add: fetched_def)
qed

lemma sync_finish_servers [simp]: "so_servers (snd (sync_finish env i url meta e saved s1)) = so_servers s1"
  by (simp add: sync_finish_def sync_publish_def publish_def split: sum.split)

lemma spares_sync:
  assumes "sync_commit sha env i url (incoming, meta, e) s = Some (err, s')" "fetched sha incoming s"
  shows "spares s s'"
proof -
  consider "so_servers s' = so_servers s"
    | saved s1 where "merge_save sha (sy_save_servers env) incoming i s = Some (saved, s1)" "so_servers s' = so_servers s1"
  proof (cases "e = None \<and> sync_commit sha env i url (incoming, meta, e) s \<noteq> Some (None, s)
      \<and> sync_commit sha env i url (incoming, meta, e) s \<noteq> Some (Some SubLoad, s)")
    case True
    then obtain saved s1 where "merge_save sha (sy_save_servers env) incoming i s = Some (saved, s1)"
      "(err, s') = sync_finish env i url meta e saved s1"
      using assms(1) by (auto simp: sync_commit_def split: sum.splits if_splits)
    then show ?thesis using that(2) sync_finish_servers by (metis snd_conv)
  next
    case False
    show ?thesis
    proof (cases "s' = s")
      case True
      then show ?thesis using that(1) by simp
    next
      case ne: False
      with False assms(1) have "(err, s') = sync_finish env i url meta e (Inr 0) s"
        by (auto simp: sync_commit_def split: sum.splits if_splits)
      then show ?thesis using that(1) sync_finish_servers by (metis snd_conv)
    qed
  qed
  then show ?thesis
  proof cases
    case 1
    then show ?thesis by (rule spares_same)
  next
    case (2 saved s1)
    then consider "so_servers s1 = so_servers s"
      | ss merged where "Servers_Load (so_servers s) = Some ss" "Merge sha ss incoming i = Some merged"
          "so_servers s1 = snd (Servers_Save (sy_save_servers env) merged (so_servers s))"
      by (auto simp: merge_save_def Servers_Save_def split: option.splits if_splits)
    then show ?thesis using 2(2) by cases (auto intro: spares_same spares_commit [OF _ assms(2)])
  qed
qed

lemma spares_refresh:
  assumes "syncOne sha cenv sub (incoming, meta, e) (as_files s) = Some (r, d)" "fetched sha incoming s"
  shows "spares s (s \<lparr> so_subs := fi_subs d, so_servers := fi_servers d \<rparr>)"
proof -
  consider "fi_servers d = so_servers s"
    | ss merged where "Servers_Load (so_servers s) = Some ss" "Merge sha ss incoming (st_ID sub) = Some merged"
        "fi_servers d = snd (Servers_Save (ce_save_servers cenv) merged (so_servers s))"
    using assms(1) by (auto simp: syncOne_def commit_servers_def finish_sync_def recordMeta_def as_files_def Servers_Save_def
      split: sum.splits if_splits option.splits)
  then show ?thesis by cases (auto intro: spares_same spares_commit [OF _ assms(2)])
qed

lemma spares_probe:
  assumes "go_results results"
  shows "spares s (s \<lparr> so_servers := probe_apply cancelled ok results (so_servers s) \<rparr>)"
proof (cases "cancelled \<or> Servers_Load (so_servers s) = None")
  case True
  then show ?thesis by (auto simp: probe_apply_def intro: spares_same)
next
  case False
  then obtain ss where "Servers_Load (so_servers s) = Some ss" by blast
  then show ?thesis
    using False assms by (intro spares_save [of s ss "foldl apply_result ss results" _ ok] keeps_apply_results)
      (simp_all add: probe_apply_def)
qed

lemma spares_latency: "go_entries entries \<Longrightarrow> spares s (snd (latency_commit ok entries s))"
  unfolding latency_commit_def Let_def
  by (intro spares_publish spares_with_servers) (auto intro: keeps_latency)

lemma spares_star: "spares s (snd (ToggleFavorite ok i s))"
  unfolding ToggleFavorite_def
  by (intro spares_publish spares_with_servers)
    (auto simp: server_index_def index_where_Some intro: keeps_star split: option.splits)

lemma spares_drop: "i \<noteq> [] \<Longrightarrow> spares s (snd (with_servers ok (\<lambda>ss. Inr (filter (\<lambda>srv. s_SourceID srv \<noteq> i) ss, x)) s))"
  by (intro spares_with_servers) (auto intro: keeps_filter)

lemma spares_add: "spares s (snd (Subs_Add secs ok dr url agent s))"
  by (rule spares_same) (simp add: Subs_Add_def Let_def split: sum.split prod.split bool.split)

lemma spares_edit:
  assumes "i \<noteq> []"
  shows "spares s (snd (Subs_Edit ok1 ok2 i url agent s))"
proof -
  let ?d = "snd (with_servers ok1 (\<lambda>ss. Inr (filter (\<lambda>srv. s_SourceID srv \<noteq> i) ss, ())) s)"
  have "so_servers (snd (Subs_Edit ok1 ok2 i url agent s)) \<in> {so_servers s, so_servers ?d}"
    by (auto simp: Subs_Edit_def Let_def split: sum.split prod.split bool.split option.split)
  then show ?thesis
    using spares_drop [OF assms, of s ok1 "()"] spares_trans [OF _ spares_same] spares_same by blast
qed

lemma spares_remove:
  assumes "i \<noteq> []"
  shows "spares s (snd (Subs_Remove ok1 ok2 i s))"
proof -
  have c: "spares t (cascade ok2 i t)" for t
  proof (cases "Servers_Load (so_servers t)")
    case (Some ss)
    show ?thesis
    proof (cases "so_servers (cascade ok2 i t) = so_servers t")
      case False
      then show ?thesis
        using Some assms by (intro spares_save [OF Some, of "filter (\<lambda>srv. s_SourceID srv \<noteq> i) ss" _ ok2] keeps_filter)
          (auto simp: cascade_def publish_def Servers_Save_def split: if_splits)
    qed (rule spares_same)
  qed (simp add: cascade_def spares_same)
  show ?thesis
    using spares_trans [OF spares_same c]
    by (simp add: Subs_Remove_def spares_same split: sum.split prod.split bool.split)
qed

lemma background_harmless: "background sha s s' \<Longrightarrow> spares s s'"
  by (induction rule: background.induct)
    (fact spares_sync spares_refresh spares_probe spares_latency spares_star spares_add spares_edit spares_remove)+

text \<open>
  C6. The user's own servers survive everything that happens in the background. Take a server list that is readable and
  well-formed: identifiers are distinct and no manual server names a source. Whatever syncs, probes, stars and changes of
  subscriptions follow one another, in any order, with any failures to read or write, the list stays so and holds the
  same manually added servers, with the same contents except for latency and star, in the same order. The fetched servers
  are ones of a subscription and do not collide in the hash with each other or with the list; a subscription is edited
  or removed by an identifier that is not empty.
\<close>

theorem background_keeps_manual:
  assumes "(background sha)\<^sup>*\<^sup>* s s'" "good_stores s"
  shows "good_stores s' \<and> own_servers s' = own_servers s"
proof -
  from assms(1) have "spares s s'"
    by induction (auto intro: spares_same spares_trans background_harmless)
  then show ?thesis using assms(2) by (simp add: spares_def)
qed

theorem background_keeps_manual_witness:
  "own_servers (snd (Subs_Remove True True ''s1'' (snd (ToggleFavorite True ''m1'' sample_stores)))) = [own_server]"
proof -
  let ?ss = "[own_server, sample_server ''a'' ''s1'' ''h1'']"
  have "well ?ss"
    using sample_stores_load(2) by (simp add: well_def is_manual_def own_server_def sample_server_def zero_Server_def OriginSubscription_def OriginManual_def)
  moreover have "manuals ?ss = [own_server]"
    by (simp add: manuals_def is_manual_def own_server_def sample_server_def plain_def zero_Server_def OriginSubscription_def OriginManual_def)
  ultimately have "good_stores sample_stores" "own_servers sample_stores = [own_server]"
    unfolding good_stores_def own_servers_def sample_stores_load(1) by simp_all
  moreover have "background toy_sha sample_stores (snd (ToggleFavorite True ''m1'' sample_stores))" by (rule bg_star)
  moreover have "background toy_sha t (snd (Subs_Remove True True ''s1'' t))" for t by (rule bg_remove) simp
  ultimately show ?thesis
    by (metis background_keeps_manual r_into_rtranclp rtranclp.rtrancl_into_rtrancl)
qed

end
