(* ===== verification/Helper_Windows.thy ===== *)
theory Helper_Windows
  imports Helper_Chain Netaddr Store_Spec "HOL-Library.AList"
begin

text \<open>
  The session of the helper service on Windows: \<^verbatim>\<open>helper/server/chain_windows.go\<close> over \<^verbatim>\<open>helper/route\<close>, \<^verbatim>\<open>gateway\<close>,
  \<^verbatim>\<open>adapter\<close>, \<^verbatim>\<open>dns\<close>, \<^verbatim>\<open>runtime\<close> and \<^verbatim>\<open>undo\<close>, and the recovery of \<^verbatim>\<open>cmd/itgray-helper/service_windows.go\<close>. The machine is
  a record of what the service changes: routes, name servers, name resolution rules, processes, files. A call of the
  system has its documented effect or fails and has none; which calls fail, and how, is an argument.
\<close>

section \<open>Routes\<close>

record RouteEntry =
  en_DestCIDR :: string
  en_NextHop :: string
  en_InterfaceLUID :: "64 word"
  en_Metric :: "32 word"

definition zero_RouteEntry :: RouteEntry where
  "zero_RouteEntry = \<lparr> en_DestCIDR = [], en_NextHop = [], en_InterfaceLUID = 0, en_Metric = 0 \<rparr>"

text \<open>The verb \<^verbatim>\<open>%q\<close>, for a string without characters to escape.\<close>

definition go_q :: "string \<Rightarrow> string" where
  "go_q s = [CHR 0x22] @ s @ [CHR 0x22]"

text \<open>The two numbers that callers look for, and any other error with its text.\<close>

datatype route_error = AlreadyExists | NotFound | RouteFailed string

text \<open>\<^verbatim>\<open>netip.ParsePrefix\<close> does not accept leading zeros in the length.\<close>

definition ParsePrefix :: "string \<Rightarrow> bool" where
  "ParsePrefix s \<longleftrightarrow> ParseCIDR s \<and> (let m = tl (dropWhile (\<lambda>c. c \<noteq> CHR ''/'') s) in length m = 1 \<or> hd m \<noteq> CHR ''0'')"

text \<open>The row of the route table, written as \<^verbatim>\<open>Snapshot\<close> reads it.\<close>

definition entryToRow :: "RouteEntry \<Rightarrow> RouteEntry option" where
  "entryToRow e =
     (if \<not> ParsePrefix (en_DestCIDR e) then None
      else if ParseAddr (en_NextHop e) \<noteq> None then Some e
      else Some (e \<lparr> en_NextHop := (if CHR '':'' \<in> set (en_DestCIDR e) then ''::'' else ''0.0.0.0'') \<rparr>))"

definition same_row :: "RouteEntry \<Rightarrow> RouteEntry \<Rightarrow> bool" where
  "same_row a b \<longleftrightarrow> en_DestCIDR a = en_DestCIDR b \<and> en_NextHop a = en_NextHop b \<and> en_InterfaceLUID a = en_InterfaceLUID b"

definition route_Add :: "string option \<Rightarrow> RouteEntry \<Rightarrow> RouteEntry list \<Rightarrow> route_error option \<times> RouteEntry list" where
  "route_Add fault e t =
     (case entryToRow e of
        None \<Rightarrow> (Some (RouteFailed (''dest cidr '' @ go_q (en_DestCIDR e))), t)
      | Some row \<Rightarrow>
          (case fault of
             Some m \<Rightarrow> (Some (RouteFailed (''CreateIpForwardEntry2 dest='' @ en_DestCIDR e @ '': '' @ m)), t)
           | None \<Rightarrow> (if list_ex (same_row row) t then (Some AlreadyExists, t) else (None, t @ [row]))))"

definition route_Remove :: "string option \<Rightarrow> RouteEntry \<Rightarrow> RouteEntry list \<Rightarrow> route_error option \<times> RouteEntry list" where
  "route_Remove fault e t =
     (case entryToRow e of
        None \<Rightarrow> (Some (RouteFailed (''dest cidr '' @ go_q (en_DestCIDR e))), t)
      | Some row \<Rightarrow>
          (case fault of
             Some m \<Rightarrow> (Some (RouteFailed (''DeleteIpForwardEntry2 dest='' @ en_DestCIDR e @ '': '' @ m)), t)
           | None \<Rightarrow> (if list_ex (same_row row) t then (None, filter (\<lambda>r. \<not> same_row row r) t) else (Some NotFound, t))))"

definition route_Snapshot :: "string option \<Rightarrow> RouteEntry list \<Rightarrow> string + RouteEntry list" where
  "route_Snapshot fault t = (case fault of Some m \<Rightarrow> Inl (''GetIpForwardTable2: '' @ m) | None \<Rightarrow> Inr t)"

definition route_text :: "string \<Rightarrow> RouteEntry \<Rightarrow> route_error \<Rightarrow> string" where
  "route_text proc e err =
     (case err of
        RouteFailed m \<Rightarrow> m
      | AlreadyExists \<Rightarrow> proc @ '' dest='' @ en_DestCIDR e @ '': The object already exists.''
      | NotFound \<Rightarrow> proc @ '' dest='' @ en_DestCIDR e @ '': Element not found.'')"

fun best_gateway :: "RouteEntry option \<Rightarrow> RouteEntry list \<Rightarrow> RouteEntry option" where
  "best_gateway best [] = best"
| "best_gateway best (r # rs) =
     (if en_DestCIDR r \<noteq> ''0.0.0.0/0'' then best_gateway best rs
      else best_gateway (case best of None \<Rightarrow> Some r | Some b \<Rightarrow> (if en_Metric r < en_Metric b then Some r else Some b)) rs)"

definition gateway_Default :: "string option \<Rightarrow> RouteEntry list \<Rightarrow> string + RouteEntry" where
  "gateway_Default fault t =
     (case route_Snapshot fault t of
        Inl e \<Rightarrow> Inl (''route.Snapshot: '' @ e)
      | Inr rows \<Rightarrow>
          (case best_gateway None rows of None \<Rightarrow> Inl ''no IPv4 default route present'' | Some r \<Rightarrow> Inr r))"

record Adapter = ad_LUID :: "64 word" ad_FriendlyName :: string ad_Description :: string

definition adapter_Diff :: "Adapter list \<Rightarrow> Adapter list \<Rightarrow> Adapter list" where
  "adapter_Diff before after = filter (\<lambda>a. ad_LUID a \<notin> set (map ad_LUID before)) after"

text \<open>
  \<^verbatim>\<open>resolveServerIPv4\<close>: the answer of the \<open>i\<close>-th lookup is an error or the addresses, each as its IPv4 text if it has one.
\<close>

type_synonym lookups = "nat \<Rightarrow> string + string option list"

definition Win_first_v4 :: "string option list \<Rightarrow> string option" where
  "Win_first_v4 ips = (case filter (\<lambda>ip. ip \<noteq> None) ips of [] \<Rightarrow> None | ip # _ \<Rightarrow> ip)"

fun resolve_loop :: "lookups \<Rightarrow> string \<Rightarrow> nat \<Rightarrow> nat \<Rightarrow> string + string" where
  "resolve_loop lookup host i left =
     (case lookup i of
        Inr ips \<Rightarrow> (case Win_first_v4 ips of Some v4 \<Rightarrow> Inr v4 | None \<Rightarrow> Inl (''no IPv4 for server host '' @ go_q host))
      | Inl e \<Rightarrow>
          (case left of 0 \<Rightarrow> Inl (''resolve server host '' @ go_q host @ '': '' @ e) | Suc n \<Rightarrow> resolve_loop lookup host (Suc i) n))"

definition Win_resolveServerIPv4 :: "lookups \<Rightarrow> string \<Rightarrow> nat \<Rightarrow> string + string" where
  "Win_resolveServerIPv4 lookup host attempts = resolve_loop lookup host 0 (attempts - 1)"

section \<open>Name servers and resolution rules\<close>

record DnsSettings = ds_InterfaceAlias :: string ds_Addresses :: "string list"

definition looksLikeValidIP :: "string \<Rightarrow> bool" where
  "looksLikeValidIP s \<longleftrightarrow>
     (let parts = split_on (CHR ''.'') s in
      length parts = 4 \<and>
      list_all (\<lambda>p. p \<noteq> [] \<and> length p \<le> 3 \<and> (case ParseInt64 p of None \<Rightarrow> False | Some n \<Rightarrow> 0 \<le> n \<and> n \<le> 255)) parts)"

text \<open>\<open>find_all\<close> gives the matches of the pattern for dotted quads in a line.\<close>

definition scan_limit :: nat where "scan_limit = 65536"

definition parseDNSAddresses :: "(string \<Rightarrow> string list) \<Rightarrow> string \<Rightarrow> string list" where
  "parseDNSAddresses find_all text =
     filter looksLikeValidIP (concat (map find_all (takeWhile (\<lambda>l. length l < scan_limit) (split_on (CHR 0x0A) text))))"

text \<open>The fixed servers of an interface; without them it uses the leased ones.\<close>

type_synonym name_servers = "string \<rightharpoonup> string list"

definition resolvers :: "(string \<Rightarrow> string list) \<Rightarrow> name_servers \<Rightarrow> string \<Rightarrow> string list" where
  "resolvers lease fixed alias = (case fixed alias of None \<Rightarrow> lease alias | Some xs \<Rightarrow> xs)"

datatype netsh = SetDhcp string | SetStatic string string | AddServer string string nat

definition netsh_effect :: "netsh \<Rightarrow> name_servers \<Rightarrow> name_servers" where
  "netsh_effect c fixed =
     (case c of
        SetDhcp a \<Rightarrow> fixed(a := None)
      | SetStatic a s \<Rightarrow> fixed(a \<mapsto> [s])
      | AddServer a s i \<Rightarrow> (let xs = (case fixed a of None \<Rightarrow> [] | Some xs \<Rightarrow> xs) in fixed(a \<mapsto> take (i - 1) xs @ [s] @ drop (i - 1) xs)))"

definition netsh_args :: "netsh \<Rightarrow> string" where
  "netsh_args c =
     (case c of
        SetDhcp a \<Rightarrow> ''interface ipv4 set dnsservers name='' @ go_q a @ '' source=dhcp''
      | SetStatic a s \<Rightarrow> ''interface ipv4 set dnsservers name='' @ go_q a @ '' static '' @ s @ '' primary''
      | AddServer a s i \<Rightarrow> ''interface ipv4 add dnsservers name='' @ go_q a @ '' address='' @ s @ '' index='' @ nat_str i)"

text \<open>A failure is the error of the process with its output.\<close>

definition runNetsh :: "string option \<Rightarrow> netsh \<Rightarrow> name_servers \<Rightarrow> string option \<times> name_servers" where
  "runNetsh fault c fixed = (case fault of Some e \<Rightarrow> (Some (''netsh '' @ netsh_args c @ '': '' @ e), fixed) | None \<Rightarrow> (None, netsh_effect c fixed))"

definition dns_Snapshot :: "(string \<Rightarrow> string list) \<Rightarrow> string + string \<Rightarrow> string \<Rightarrow> string + DnsSettings" where
  "dns_Snapshot find_all out alias =
     (case out of
        Inl e \<Rightarrow> Inl (''netsh interface ipv4 show dnsservers name='' @ go_q alias @ '': '' @ e)
      | Inr text \<Rightarrow> Inr \<lparr> ds_InterfaceAlias = alias, ds_Addresses = parseDNSAddresses find_all text \<rparr>)"

fun add_servers :: "(nat \<Rightarrow> string option) \<Rightarrow> string \<Rightarrow> nat \<Rightarrow> string list \<Rightarrow> name_servers \<Rightarrow> string option \<times> name_servers" where
  "add_servers faults alias i [] fixed = (None, fixed)"
| "add_servers faults alias i (a # as) fixed =
     (case runNetsh (faults i) (AddServer alias a (i + 1)) fixed of
        (Some e, fixed') \<Rightarrow> (Some e, fixed')
      | (None, fixed') \<Rightarrow> add_servers faults alias (Suc i) as fixed')"

text \<open>\<open>faults i\<close> is the failure of the \<open>i\<close>-th call.\<close>

definition dns_Set :: "(nat \<Rightarrow> string option) \<Rightarrow> DnsSettings \<Rightarrow> name_servers \<Rightarrow> string option \<times> name_servers" where
  "dns_Set faults s fixed =
     (case ds_Addresses s of
        [] \<Rightarrow> runNetsh (faults 0) (SetDhcp (ds_InterfaceAlias s)) fixed
      | a # as \<Rightarrow>
          (case runNetsh (faults 0) (SetStatic (ds_InterfaceAlias s) a) fixed of
             (Some e, fixed') \<Rightarrow> (Some e, fixed')
           | (None, fixed') \<Rightarrow> add_servers faults (ds_InterfaceAlias s) 1 as fixed'))"

definition dns_Restore :: "(nat \<Rightarrow> string option) \<Rightarrow> DnsSettings \<Rightarrow> name_servers \<Rightarrow> string option \<times> name_servers" where
  "dns_Restore = dns_Set"

text \<open>A rule is a key of the registry with its values.\<close>

type_synonym nrpt = "string \<rightharpoonup> (string \<times> string) list"

fun set_values :: "(nat \<Rightarrow> string option) \<Rightarrow> nat \<Rightarrow> string \<Rightarrow> (string \<times> string) list \<Rightarrow> nrpt \<Rightarrow> string option \<times> nrpt" where
  "set_values faults i name [] reg = (case faults i of Some e \<Rightarrow> (Some e, reg) | None \<Rightarrow> (None, reg))"
| "set_values faults i name ((k, v) # kvs) reg =
     (case faults i of
        Some e \<Rightarrow> (Some (''set '' @ k @ '': '' @ e), reg)
      | None \<Rightarrow> set_values faults (Suc i) name kvs (reg(name \<mapsto> AList.update k v (the (reg name)))))"

definition AddNrptRule :: "(nat \<Rightarrow> string option) \<Rightarrow> string \<Rightarrow> string \<Rightarrow> string list \<Rightarrow> nrpt \<Rightarrow> string option \<times> nrpt" where
  "AddNrptRule faults displayName namespace nameServers reg =
     (if displayName = [] \<or> namespace = [] \<or> nameServers = []
      then (Some ''dns.AddNrptRule: displayName, namespace, and at least one nameServer required'', reg)
      else case faults 0 of
        Some e \<Rightarrow> (Some (''create NRPT rule '' @ go_q displayName @ '': '' @ e), reg)
      | None \<Rightarrow>
          set_values faults 1 displayName
            [(''Version'', ''1''), (''Name'', namespace), (''GenericDNSServers'', concat (butlast (concat (map (\<lambda>s. [s, '';'']) nameServers)))),
             (''ConfigOptions'', ''8'')]
            (if reg displayName = None then reg(displayName \<mapsto> []) else reg))"

definition RemoveNrptRule :: "string option \<Rightarrow> string option \<Rightarrow> string \<Rightarrow> nrpt \<Rightarrow> string option \<times> nrpt" where
  "RemoveNrptRule delFault notifyFault displayName reg =
     (if displayName = [] then (Some ''dns.RemoveNrptRule: displayName required'', reg)
      else case delFault of
        Some e \<Rightarrow> (Some (''delete NRPT rule '' @ go_q displayName @ '': '' @ e), reg)
      | None \<Rightarrow> (notifyFault, reg(displayName := None)))"

section \<open>The undo journal\<close>

record Journal = jn_TunName :: string jn_Routes :: "RouteEntry list" jn_DNSPrior :: "DnsSettings list"

definition zero_Journal :: Journal where
  "zero_Journal = \<lparr> jn_TunName = [], jn_Routes = [], jn_DNSPrior = [] \<rparr>"

datatype undo_file = NoUndo | BadUndo string | UndoFile Journal

definition undo_Load :: "undo_file \<Rightarrow> string + Journal" where
  "undo_Load f = (case f of NoUndo \<Rightarrow> Inr zero_Journal | BadUndo e \<Rightarrow> Inl e | UndoFile j \<Rightarrow> Inr j)"

definition undo_Save :: "bool \<Rightarrow> Journal \<Rightarrow> undo_file \<Rightarrow> bool \<times> undo_file" where
  "undo_Save ok j f = (ok, if ok then UndoFile j else f)"

definition undo_Clear :: "bool \<Rightarrow> undo_file \<Rightarrow> bool \<times> undo_file" where
  "undo_Clear ok = undo_Save ok zero_Journal"

interpretation undo_store: json_store undo_Load undo_Save "\<lambda>_. True" Inr
  by unfold_locales (simp_all add: undo_Load_def undo_Save_def)

section \<open>The runtime directory\<close>

datatype rt_file = RtConfig "json option" | RtText string

definition isLogFile :: "string \<Rightarrow> bool" where
  "isLogFile name \<longleftrightarrow> suffix ''.log'' name \<or> sublist ''.log.'' name"

text \<open>A failure comes with the names that were removed before it.\<close>

definition EnsureClean :: "(string \<times> string list) option \<Rightarrow> (string \<rightharpoonup> rt_file) \<Rightarrow> string option \<times> (string \<rightharpoonup> rt_file)" where
  "EnsureClean fault files =
     (case fault of
        None \<Rightarrow> (None, \<lambda>n. if isLogFile n then files n else None)
      | Some (e, gone) \<Rightarrow> (Some e, \<lambda>n. if isLogFile n \<or> n \<notin> set gone then files n else None))"

definition renameIfExists :: "string \<Rightarrow> string \<Rightarrow> string option \<Rightarrow> (string \<rightharpoonup> rt_file) \<Rightarrow> string option \<times> (string \<rightharpoonup> rt_file)" where
  "renameIfExists from to fault files =
     (case fault of
        Some e \<Rightarrow> (Some (''rename '' @ from @ '' -> '' @ to @ '': '' @ e), files)
      | None \<Rightarrow> (case files from of None \<Rightarrow> (None, files) | Some c \<Rightarrow> (None, files(to \<mapsto> c, from := None))))"

fun rotate_names :: "(nat \<Rightarrow> string option) \<Rightarrow> nat \<Rightarrow> (string \<times> string) list \<Rightarrow> (string \<rightharpoonup> rt_file) \<Rightarrow> string option \<times> (string \<rightharpoonup> rt_file)" where
  "rotate_names faults i [] files = (None, files)"
| "rotate_names faults i ((from, to) # rs) files =
     (case renameIfExists from to (faults i) files of
        (Some e, files') \<Rightarrow> (Some e, files') | (None, files') \<Rightarrow> rotate_names faults (Suc i) rs files')"

definition RotateLog :: "(nat \<Rightarrow> string option) \<Rightarrow> string \<Rightarrow> (string \<rightharpoonup> rt_file) \<Rightarrow> string option \<times> (string \<rightharpoonup> rt_file)" where
  "RotateLog faults path files =
     (case faults 0 of
        Some e \<Rightarrow> (Some (''remove '' @ path @ ''.3: '' @ e), files)
      | None \<Rightarrow> rotate_names faults 1 [(path @ ''.2'', path @ ''.3''), (path @ ''.1'', path @ ''.2''), (path, path @ ''.1'')] (files(path @ ''.3'' := None)))"

section \<open>The machine and the session\<close>

record Host =
  ho_routes :: "RouteEntry list"
  ho_fixed :: name_servers
  ho_nrpt :: nrpt
  ho_running :: "nat list"
  ho_pids :: nat
  ho_files :: "string \<rightharpoonup> rt_file"
  ho_undo :: undo_file

record win_session =
  ws_id :: string
  ws_stopping :: bool
  ws_singbox :: "nat option"
  ws_xray :: "nat option"
  ws_tunLUID :: "64 word"
  ws_peerRoute :: RouteEntry
  ws_snapshot :: "RouteEntry list option"
  ws_dnsPrior :: "DnsSettings option"
  ws_dnsAlias :: string
  ws_nrptName :: string
  ws_api :: bool
  ws_up :: "64 word"
  ws_down :: "64 word"

text \<open>Sessions are referred to by their position in \<open>wh_heap\<close>.\<close>

record WinHelper =
  wh_host :: Host
  wh_heap :: "win_session list"
  wh_active :: "nat option"
  wh_watch :: "watcher list"

definition Win_IsCleanupPending :: "WinHelper \<Rightarrow> bool" where
  "Win_IsCleanupPending h = (case wh_active h of None \<Rightarrow> False | Some s \<Rightarrow> ws_stopping (wh_heap h ! s))"

definition Win_IsChainActive :: "WinHelper \<Rightarrow> bool" where
  "Win_IsChainActive h = (case wh_active h of None \<Rightarrow> False | Some s \<Rightarrow> \<not> ws_stopping (wh_heap h ! s))"

text \<open>The calls of the system that can fail.\<close>

datatype call = CClean | CWrite string | CRoutes | CGateway | CAddPeer | CDns nat | CAdapters | CExe string | CRotate string nat
  | CSpawn string | CNrpt nat | CUndo | CNrptDelete | CNrptNotify | CRestoreDns nat | CRemoveRoute | CAddRoute string
  | CRemoveAll | CClose

type_synonym faults = "call \<Rightarrow> string option"

section \<open>Starting\<close>

text \<open>One look at the adapters while sing-box creates its own.\<close>

datatype adapter_poll = PollCancelled string | PollFailed | PollSaw "Adapter list"

record start_world =
  sw_faults :: faults
  sw_gone :: "string list"
  sw_id :: string
  sw_decode :: string
  sw_lookup :: lookups
  sw_show :: "string + string"
  sw_find :: "string \<Rightarrow> string list"
  sw_before :: "Adapter list"
  sw_polls :: "adapter_poll list"
  sw_sanitize :: "string \<Rightarrow> json option \<Rightarrow> json option"
  sw_stop :: stop_event

record progress =
  pg_sess :: win_session
  pg_host :: Host
  pg_peer :: bool
  pg_dns :: bool
  pg_sb :: bool
  pg_xr :: bool
  pg_nrpt :: bool

type_synonym stage = "progress \<Rightarrow> string option \<times> progress"

fun run_stages :: "stage list \<Rightarrow> stage" where
  "run_stages [] p = (None, p)"
| "run_stages (f # fs) p = (case f p of (Some e, p') \<Rightarrow> (Some e, p') | (None, p') \<Rightarrow> run_stages fs p')"

definition fail_as :: "string \<Rightarrow> string option \<Rightarrow> stage" where
  "fail_as what e p = (map_option (\<lambda>m. what @ m) e, p)"

definition stage_write :: "start_world \<Rightarrow> string \<Rightarrow> string \<Rightarrow> json option \<Rightarrow> stage" where
  "stage_write w kind name raw p =
     (case sw_faults w (CWrite name) of
        Some e \<Rightarrow> (Some (''write '' @ kind @ '' config: '' @ e), p)
      | None \<Rightarrow> (None, p \<lparr> pg_host := (pg_host p) \<lparr> ho_files := (ho_files (pg_host p))(name \<mapsto> RtConfig (sw_sanitize w kind raw)) \<rparr> \<rparr>))"

definition stage_snapshot :: "start_world \<Rightarrow> stage" where
  "stage_snapshot w p =
     (case route_Snapshot (sw_faults w CRoutes) (ho_routes (pg_host p)) of
        Inl e \<Rightarrow> (Some (''route.Snapshot: '' @ e), p)
      | Inr snap \<Rightarrow> (None, p \<lparr> pg_sess := (pg_sess p) \<lparr> ws_snapshot := Some snap \<rparr> \<rparr>))"

definition peer_entry :: "string \<Rightarrow> RouteEntry \<Rightarrow> RouteEntry" where
  "peer_entry v4 gw = \<lparr> en_DestCIDR = v4 @ ''/32'', en_NextHop = en_NextHop gw, en_InterfaceLUID = en_InterfaceLUID gw, en_Metric = 0 \<rparr>"

definition stage_peer :: "start_world \<Rightarrow> StartChainArgs \<Rightarrow> stage" where
  "stage_peer w a p =
     (case gateway_Default (sw_faults w CGateway) (ho_routes (pg_host p)) of
        Inl e \<Rightarrow> (Some (''gateway.Default: '' @ e), p)
      | Inr gw \<Rightarrow>
          (case Win_resolveServerIPv4 (sw_lookup w) (sa_ServerHost a) 6 of
             Inl e \<Rightarrow> (Some e, p)
           | Inr v4 \<Rightarrow>
               (let peer = peer_entry v4 gw;
                    p = p \<lparr> pg_sess := (pg_sess p) \<lparr> ws_peerRoute := peer \<rparr> \<rparr>
                in case route_Add (sw_faults w CAddPeer) peer (ho_routes (pg_host p)) of
                     (Some e, t) \<Rightarrow> (Some (''route.Add(peer): '' @ route_text ''CreateIpForwardEntry2'' peer e), p)
                   | (None, t) \<Rightarrow> (None, p \<lparr> pg_host := (pg_host p) \<lparr> ho_routes := t \<rparr>, pg_peer := True \<rparr>))))"

definition stage_dns :: "start_world \<Rightarrow> StartChainArgs \<Rightarrow> stage" where
  "stage_dns w a p =
     (if sa_DnsAlias a = [] \<or> sa_DnsServers a = [] then (None, p)
      else case dns_Snapshot (sw_find w) (sw_show w) (sa_DnsAlias a) of
        Inl e \<Rightarrow> (Some (''dns.Snapshot: '' @ e), p)
      | Inr prior \<Rightarrow>
          (case dns_Set (\<lambda>i. sw_faults w (CDns i)) \<lparr> ds_InterfaceAlias = sa_DnsAlias a, ds_Addresses = sa_DnsServers a \<rparr> (ho_fixed (pg_host p)) of
             (Some e, f) \<Rightarrow> (Some (''dns.Set: '' @ e), p \<lparr> pg_host := (pg_host p) \<lparr> ho_fixed := f \<rparr> \<rparr>)
           | (None, f) \<Rightarrow> (None, p \<lparr> pg_host := (pg_host p) \<lparr> ho_fixed := f \<rparr>, pg_sess := (pg_sess p) \<lparr> ws_dnsPrior := Some prior \<rparr>,
                                    pg_dns := True \<rparr>)))"

definition Win_spawn :: "Host \<Rightarrow> nat \<times> Host" where
  "Win_spawn h = (ho_pids h, h \<lparr> ho_running := ho_running h @ [ho_pids h], ho_pids := ho_pids h + 1 \<rparr>)"

text \<open>The executable, the log and the process of a core.\<close>

definition stage_spawn :: "start_world \<Rightarrow> string \<Rightarrow> string \<Rightarrow> (nat \<Rightarrow> progress \<Rightarrow> progress) \<Rightarrow> stage" where
  "stage_spawn w name label up p =
     (case sw_faults w (CExe name) of
        Some e \<Rightarrow> (Some (''binary path'' @ label @ '': '' @ e), p)
      | None \<Rightarrow>
          (case RotateLog (\<lambda>i. sw_faults w (CRotate name i)) (name @ ''.log'') (ho_files (pg_host p)) of
             (Some e, fs) \<Rightarrow> (Some (''rotate '' @ name @ '' log: '' @ e), p \<lparr> pg_host := (pg_host p) \<lparr> ho_files := fs \<rparr> \<rparr>)
           | (None, fs) \<Rightarrow>
               (let p = p \<lparr> pg_host := (pg_host p) \<lparr> ho_files := fs \<rparr> \<rparr> in
                case sw_faults w (CSpawn name) of
                  Some e \<Rightarrow> (Some (''spawn '' @ name @ '': '' @ e), p)
                | None \<Rightarrow> (case Win_spawn (pg_host p) of (pid, host) \<Rightarrow> (None, up pid (p \<lparr> pg_host := host \<rparr>))))))"

definition singbox_up :: "nat \<Rightarrow> progress \<Rightarrow> progress" where
  "singbox_up pid p = p \<lparr> pg_sess := (pg_sess p) \<lparr> ws_singbox := Some pid \<rparr>, pg_sb := True \<rparr>"

definition xray_up :: "nat \<Rightarrow> progress \<Rightarrow> progress" where
  "xray_up pid p = p \<lparr> pg_sess := (pg_sess p) \<lparr> ws_xray := Some pid, ws_api := True \<rparr>, pg_xr := True \<rparr>"

fun discover :: "Adapter list \<Rightarrow> adapter_poll list \<Rightarrow> string + Adapter" where
  "discover before [] = Inl ''sing-box did not create a TUN adapter within 10s''"
| "discover before (PollCancelled e # ps) = Inl e"
| "discover before (PollFailed # ps) = discover before ps"
| "discover before (PollSaw cur # ps) = (case adapter_Diff before cur of [] \<Rightarrow> discover before ps | ad # _ \<Rightarrow> Inr ad)"

definition stage_discover :: "start_world \<Rightarrow> stage" where
  "stage_discover w p =
     (case discover (sw_before w) (sw_polls w) of
        Inl e \<Rightarrow> (Some e, p)
      | Inr ad \<Rightarrow> (None, p \<lparr> pg_sess := (pg_sess p) \<lparr> ws_tunLUID := ad_LUID ad \<rparr> \<rparr>))"

text \<open>A failure of the rule does not end the start.\<close>

definition stage_nrpt :: "start_world \<Rightarrow> stage" where
  "stage_nrpt w p =
     (let name = ''ITGRay-'' @ ws_id (pg_sess p) in
      case AddNrptRule (\<lambda>i. sw_faults w (CNrpt i)) name ''.'' [''1.1.1.1''] (ho_nrpt (pg_host p)) of
        (Some e, reg) \<Rightarrow> (None, p \<lparr> pg_host := (pg_host p) \<lparr> ho_nrpt := reg \<rparr> \<rparr>)
      | (None, reg) \<Rightarrow> (None, p \<lparr> pg_host := (pg_host p) \<lparr> ho_nrpt := reg \<rparr>, pg_sess := (pg_sess p) \<lparr> ws_nrptName := name \<rparr>,
                                  pg_nrpt := True \<rparr>))"

definition dnsPriorAsList :: "DnsSettings option \<Rightarrow> DnsSettings list" where
  "dnsPriorAsList prior = (case prior of None \<Rightarrow> [] | Some s \<Rightarrow> [s])"

definition stage_undo :: "start_world \<Rightarrow> StartChainArgs \<Rightarrow> stage" where
  "stage_undo w a p =
     (let j = \<lparr> jn_TunName = sa_TunName a, jn_Routes = (case ws_snapshot (pg_sess p) of None \<Rightarrow> [] | Some es \<Rightarrow> es),
                jn_DNSPrior = dnsPriorAsList (ws_dnsPrior (pg_sess p)) \<rparr>
      in case sw_faults w CUndo of
        Some e \<Rightarrow> (Some (''undo.Save: '' @ e), p)
      | None \<Rightarrow> (None, p \<lparr> pg_host := (pg_host p) \<lparr> ho_undo := snd (undo_Save True j (ho_undo (pg_host p))) \<rparr> \<rparr>))"

definition start_stages :: "start_world \<Rightarrow> StartChainArgs \<Rightarrow> bool \<Rightarrow> stage list" where
  "start_stages w a tun =
     [stage_write w ''sing-box'' ''sing-box.json'' (sa_SingboxConfig a), stage_write w ''xray'' ''xray.json'' (sa_XrayConfig a)]
     @ (if tun then [stage_snapshot w, stage_peer w a, stage_dns w a, fail_as ''adapter.Snapshot(before): '' (sw_faults w CAdapters)] else [])
     @ [stage_spawn w ''sing-box'' [] singbox_up]
     @ (if tun then [stage_discover w] else [])
     @ [stage_spawn w ''xray'' '' xray'' xray_up]
     @ (if tun then [stage_nrpt w] else [])
     @ [stage_undo w a]"

definition stop_if :: "stop_event \<Rightarrow> bool \<Rightarrow> nat option \<Rightarrow> nat list \<Rightarrow> nat list" where
  "stop_if ev done c r = (if done then (case c of None \<Rightarrow> r | Some pid \<Rightarrow> snd (Child_Stop ev pid r)) else r)"

text \<open>\<^verbatim>\<open>rollback\<close>: what was done is undone, errors are only logged.\<close>

definition Win_rollback :: "start_world \<Rightarrow> progress \<Rightarrow> Host" where
  "Win_rollback w p =
     (let s = pg_sess p; h = pg_host p in
      h \<lparr> ho_running := stop_if (sw_stop w) (pg_sb p) (ws_singbox s) (stop_if (sw_stop w) (pg_xr p) (ws_xray s) (ho_running h)),
          ho_nrpt := (if pg_nrpt p \<and> ws_nrptName s \<noteq> []
             then snd (RemoveNrptRule (sw_faults w CNrptDelete) (sw_faults w CNrptNotify) (ws_nrptName s) (ho_nrpt h)) else ho_nrpt h),
          ho_fixed := (case (pg_dns p, ws_dnsPrior s) of
             (True, Some prior) \<Rightarrow> snd (dns_Restore (\<lambda>i. sw_faults w (CRestoreDns i)) prior (ho_fixed h)) | _ \<Rightarrow> ho_fixed h),
          ho_routes := (if pg_peer p then snd (route_Remove (sw_faults w CRemoveRoute) (ws_peerRoute s) (ho_routes h)) else ho_routes h),
          ho_files := (case sw_faults w CRemoveAll of None \<Rightarrow> Map.empty | Some e \<Rightarrow> ho_files h) \<rparr>)"

definition new_session :: "start_world \<Rightarrow> StartChainArgs \<Rightarrow> win_session" where
  "new_session w a =
     \<lparr> ws_id = sw_id w, ws_stopping = False, ws_singbox = None, ws_xray = None, ws_tunLUID = 0, ws_peerRoute = zero_RouteEntry,
       ws_snapshot = None, ws_dnsPrior = None, ws_dnsAlias = sa_DnsAlias a, ws_nrptName = [], ws_api = False, ws_up = 0, ws_down = 0 \<rparr>"

definition begin_start :: "start_world \<Rightarrow> StartChainArgs \<Rightarrow> Host \<Rightarrow> progress" where
  "begin_start w a h =
     \<lparr> pg_sess = new_session w a, pg_host = h, pg_peer = False, pg_dns = False, pg_sb = False, pg_xr = False, pg_nrpt = False \<rparr>"

definition pid_json :: "nat option \<Rightarrow> json" where
  "pid_json c = JNum (case c of None \<Rightarrow> 0 | Some n \<Rightarrow> int n)"

definition enc_WinStartResult :: "win_session \<Rightarrow> json" where
  "enc_WinStartResult s =
     JObj [(''session_id'', JStr (ws_id s)), (''tun_luid'', JNum (uint (ws_tunLUID s))), (''singbox_pid'', pid_json (ws_singbox s)),
           (''xray_pid'', pid_json (ws_xray s))]"

definition Win_start_locked :: "start_world \<Rightarrow> StartChainArgs \<Rightarrow> WinHelper \<Rightarrow> (string + json option) \<times> WinHelper" where
  "Win_start_locked w a h =
     (case wh_active h of
        Some s \<Rightarrow> (Inl (''chain already running (session='' @ ws_id (wh_heap h ! s) @ '')''), h)
      | None \<Rightarrow>
          (case EnsureClean (map_option (\<lambda>e. (e, sw_gone w)) (sw_faults w CClean)) (ho_files (wh_host h)) of
             (Some e, fs) \<Rightarrow> (Inl (''runtime.EnsureClean: '' @ e), h \<lparr> wh_host := (wh_host h) \<lparr> ho_files := fs \<rparr> \<rparr>)
           | (None, fs) \<Rightarrow>
               (case run_stages (start_stages w a (sa_Mode a \<noteq> ''sysproxy'')) (begin_start w a ((wh_host h) \<lparr> ho_files := fs \<rparr>)) of
                  (Some e, p) \<Rightarrow> (Inl e, h \<lparr> wh_host := Win_rollback w p \<rparr>)
                | (None, p) \<Rightarrow>
                    (Inr (Some (enc_WinStartResult (pg_sess p))),
                     h \<lparr> wh_host := pg_host p, wh_heap := wh_heap h @ [pg_sess p], wh_active := Some (length (wh_heap h)),
                         wh_watch := wh_watch h @ [WStart (length (wh_heap h))] \<rparr>))))"

definition Win_NewStartChainHandler :: "start_world \<Rightarrow> WinHelper handler" where
  "Win_NewStartChainHandler w raw h =
     (case (case raw of None \<Rightarrow> None | Some j \<Rightarrow> dec_struct StartChainArgs_fields j zero_StartChainArgs) of
        None \<Rightarrow> (Inl (''decode args: '' @ sw_decode w), h)
      | Some a \<Rightarrow> (case check_start a of Some e \<Rightarrow> (Inl e, h) | None \<Rightarrow> Win_start_locked w a h))"

section \<open>Stopping\<close>

definition route_key :: "RouteEntry \<Rightarrow> string" where
  "route_key e = en_DestCIDR e @ ''|'' @ en_NextHop e @ ''|'' @ nat_str (unat (en_InterfaceLUID e))"

text \<open>\<^verbatim>\<open>indexRouteEntries\<close> and its copies: the last entry with a key; and the keys, in the order in which Go visits them.\<close>

definition indexRouteEntries :: "RouteEntry list \<Rightarrow> string \<rightharpoonup> RouteEntry" where
  "indexRouteEntries es = map_of (rev (map (\<lambda>e. (route_key e, e)) es))"

definition missing :: "(string list \<Rightarrow> string list) \<Rightarrow> RouteEntry list \<Rightarrow> RouteEntry list \<Rightarrow> RouteEntry list" where
  "missing iter want have =
     map (\<lambda>k. the (indexRouteEntries want k))
       (filter (\<lambda>k. indexRouteEntries have k = None) (iter (remdups (map route_key want))))"

fun add_routes :: "faults \<Rightarrow> RouteEntry list \<Rightarrow> RouteEntry list \<Rightarrow> string list \<times> RouteEntry list" where
  "add_routes faults [] t = ([], t)"
| "add_routes faults (e # es) t =
     (case route_Add (faults (CAddRoute (route_key e))) e t of
        (r, t') \<Rightarrow>
          (case add_routes faults es t' of
             (errs, t'') \<Rightarrow> ((case r of None \<Rightarrow> [] | Some AlreadyExists \<Rightarrow> [] | Some x \<Rightarrow> [''route.Add: '' @ route_text ''CreateIpForwardEntry2'' e x]) @ errs, t'')))"

text \<open>What the session undoes at a stop, one step per definition: the errors, the session and the machine.\<close>

record stop_world =
  st_stop :: "nat \<Rightarrow> nat list \<Rightarrow> string option \<times> nat list"
  st_faults :: faults
  st_iter :: "string list \<Rightarrow> string list"

type_synonym undoing = "win_session \<times> Host \<Rightarrow> string list \<times> win_session \<times> Host"

definition undo_cores :: "stop_world \<Rightarrow> undoing" where
  "undo_cores w = (\<lambda>(s, h).
     case stopBoth (st_stop w) (ws_xray s) (ws_singbox s) (ho_running h) of (xrayErr, sbErr, r) \<Rightarrow>
       (err_line ''xray.Stop: '' xrayErr @ err_line ''singbox.Stop: '' sbErr,
        s \<lparr> ws_xray := (if xrayErr = None then None else ws_xray s), ws_singbox := (if sbErr = None then None else ws_singbox s) \<rparr>,
        h \<lparr> ho_running := r \<rparr>))"

definition undo_dns :: "stop_world \<Rightarrow> undoing" where
  "undo_dns w = (\<lambda>(s, h).
     case ws_dnsPrior s of
       None \<Rightarrow> ([], s, h)
     | Some prior \<Rightarrow>
         (case dns_Restore (\<lambda>i. st_faults w (CRestoreDns i)) prior (ho_fixed h) of
            (Some e, f) \<Rightarrow> ([''dns.Restore: '' @ e], s, h \<lparr> ho_fixed := f \<rparr>)
          | (None, f) \<Rightarrow> ([], s \<lparr> ws_dnsPrior := None \<rparr>, h \<lparr> ho_fixed := f \<rparr>)))"

definition undo_nrpt :: "stop_world \<Rightarrow> undoing" where
  "undo_nrpt w = (\<lambda>(s, h).
     if ws_nrptName s = [] then ([], s, h)
     else case RemoveNrptRule (st_faults w CNrptDelete) (st_faults w CNrptNotify) (ws_nrptName s) (ho_nrpt h) of
       (Some e, reg) \<Rightarrow> ([''dns.RemoveNrptRule: '' @ e], s, h \<lparr> ho_nrpt := reg \<rparr>)
     | (None, reg) \<Rightarrow> ([], s \<lparr> ws_nrptName := [] \<rparr>, h \<lparr> ho_nrpt := reg \<rparr>))"

definition undo_peer :: "stop_world \<Rightarrow> undoing" where
  "undo_peer w = (\<lambda>(s, h).
     if en_DestCIDR (ws_peerRoute s) = [] then ([], s, h)
     else case route_Remove (st_faults w CRemoveRoute) (ws_peerRoute s) (ho_routes h) of
       (r, t) \<Rightarrow>
         (if r = None \<or> r = Some NotFound then ([], s \<lparr> ws_peerRoute := zero_RouteEntry \<rparr>, h \<lparr> ho_routes := t \<rparr>)
          else ([''route.Remove: '' @ route_text ''DeleteIpForwardEntry2'' (ws_peerRoute s) (the r)], s, h \<lparr> ho_routes := t \<rparr>)))"

definition undo_routes :: "stop_world \<Rightarrow> undoing" where
  "undo_routes w = (\<lambda>(s, h).
     case ws_snapshot s of
       None \<Rightarrow> ([], s, h)
     | Some snap \<Rightarrow>
         (case route_Snapshot (st_faults w CRoutes) (ho_routes h) of
            Inl e \<Rightarrow> ([''route.Snapshot(post): '' @ e], s, h)
          | Inr current \<Rightarrow>
              (case add_routes (st_faults w) (missing (st_iter w) snap current) (ho_routes h) of
                 (errs, t) \<Rightarrow> (errs, (if errs = [] then s \<lparr> ws_snapshot := None \<rparr> else s), h \<lparr> ho_routes := t \<rparr>))))"

definition undo_api :: "stop_world \<Rightarrow> undoing" where
  "undo_api w = (\<lambda>(s, h).
     ((if ws_api s then err_line ''xrayAPI.Close: '' (st_faults w CClose) else []), s \<lparr> ws_api := False \<rparr>, h))"

fun undo_all :: "undoing list \<Rightarrow> undoing" where
  "undo_all [] sh = ([], sh)"
| "undo_all (u # us) sh = (case u sh of (errs, sh') \<Rightarrow> (case undo_all us sh' of (errs', sh'') \<Rightarrow> (errs @ errs', sh'')))"

definition teardown :: "stop_world \<Rightarrow> undoing" where
  "teardown w = undo_all [undo_cores w, undo_dns w, undo_nrpt w, undo_peer w, undo_routes w, undo_api w]"

definition Win_stopActiveChainLocked :: "stop_world \<Rightarrow> nat \<Rightarrow> WinHelper \<Rightarrow> string list \<times> WinHelper" where
  "Win_stopActiveChainLocked w i h =
     (case teardown w ((wh_heap h ! i) \<lparr> ws_stopping := True \<rparr>, wh_host h) of
        (errs, s, host) \<Rightarrow>
          (let cleared = (case st_faults w CUndo of None \<Rightarrow> (True, snd (undo_Clear True (ho_undo host))) | Some e \<Rightarrow> (False, ho_undo host));
               errs' = (if errs = [] then err_line ''undo.Clear: '' (st_faults w CUndo) else errs);
               host' = (if errs = [] then host \<lparr> ho_undo := snd cleared \<rparr> else host)
           in (errs', h \<lparr> wh_host := host', wh_heap := (wh_heap h)[i := s], wh_active := (if errs' = [] then None else wh_active h) \<rparr>)))"

definition Win_stop_locked :: "stop_world \<Rightarrow> string \<Rightarrow> WinHelper \<Rightarrow> (string + json option) \<times> WinHelper" where
  "Win_stop_locked w sid h =
     (case wh_active h of
        None \<Rightarrow> (Inr (Some (JObj [(''status'', JStr ''no-active-chain'')])), h)
      | Some i \<Rightarrow>
          (if sid \<noteq> [] \<and> sid \<noteq> ws_id (wh_heap h ! i)
           then (Inl (''session id mismatch: caller='' @ sid @ '' active='' @ ws_id (wh_heap h ! i)), h)
           else case Win_stopActiveChainLocked w i h of (errs, h') \<Rightarrow>
             (Inr (Some (JObj ((if errs = [] then [] else [(''partial_errors'', JArr (map JStr errs))])
                               @ [(''status'', JStr ''stopped'')]))), h')))"

definition Win_NewStopChainHandler :: "string \<Rightarrow> stop_world \<Rightarrow> WinHelper handler" where
  "Win_NewStopChainHandler decErr w raw h =
     (case (case raw of None \<Rightarrow> Some [] | Some j \<Rightarrow> dec_struct StopChainArgs_fields j []) of
        None \<Rightarrow> (Inl (''decode args: '' @ decErr), h)
      | Some sid \<Rightarrow> Win_stop_locked w sid h)"

definition Win_StopActiveChain :: "stop_world \<Rightarrow> WinHelper \<Rightarrow> string list \<times> WinHelper" where
  "Win_StopActiveChain w h = (case wh_active h of None \<Rightarrow> ([], h) | Some i \<Rightarrow> Win_stopActiveChainLocked w i h)"

section \<open>The crash watcher and the counters\<close>

definition Win_exited :: "WinHelper \<Rightarrow> nat option \<Rightarrow> bool" where
  "Win_exited h c = (case c of None \<Rightarrow> False | Some pid \<Rightarrow> pid \<notin> set (ho_running (wh_host h)))"

definition Win_guard_failed :: "nat \<Rightarrow> WinHelper \<Rightarrow> bool" where
  "Win_guard_failed s h \<longleftrightarrow> wh_active h \<noteq> Some s \<or> ws_stopping (wh_heap h ! s)"

definition Win_watchChainExit :: "stop_world \<Rightarrow> nat \<Rightarrow> WinHelper \<Rightarrow> WinHelper option" where
  "Win_watchChainExit w i h =
     (if length (wh_watch h) \<le> i then None
      else case wh_watch h ! i of
        WStart s \<Rightarrow>
          (if Win_guard_failed s h then Some (h \<lparr> wh_watch := remove_at i (wh_watch h) \<rparr>)
           else Some (h \<lparr> wh_watch := (wh_watch h)[i := WWait s (ws_singbox (wh_heap h ! s)) (ws_xray (wh_heap h ! s))] \<rparr>))
      | WWait s sb xr \<Rightarrow>
          (if \<not> (Win_exited h sb \<or> Win_exited h xr) then None
           else let h' = h \<lparr> wh_watch := remove_at i (wh_watch h) \<rparr>
                in Some (if Win_guard_failed s h then h' else snd (Win_stopActiveChainLocked w s h'))))"

text \<open>\<^verbatim>\<open>readChainCounters\<close>: \<open>meanwhile\<close> is what others do during the call, \<open>res\<close> its answer.\<close>

definition Win_readChainCounters :: "(64 word \<times> 64 word) option \<Rightarrow> (WinHelper \<Rightarrow> WinHelper) \<Rightarrow> WinHelper
    \<Rightarrow> (64 word \<times> 64 word) option \<times> WinHelper" where
  "Win_readChainCounters res meanwhile h =
     (case wh_active h of
        None \<Rightarrow> (None, h)
      | Some i \<Rightarrow>
          (let s = wh_heap h ! i in
           if ws_stopping s \<or> \<not> ws_api s then (None, h)
           else let h' = meanwhile h in
             case res of
               None \<Rightarrow> (Some (ws_up s, ws_down s), h')
             | Some (u, d) \<Rightarrow>
                 (Some (u, d), if wh_active h' = Some i
                    then h' \<lparr> wh_heap := (wh_heap h')[i := (wh_heap h' ! i) \<lparr> ws_up := u, ws_down := d \<rparr>] \<rparr> else h')))"

section \<open>Recovery after a crash, and the single operations\<close>

fun restore_dns_list :: "(nat \<Rightarrow> string option) \<Rightarrow> DnsSettings list \<Rightarrow> name_servers \<Rightarrow> name_servers" where
  "restore_dns_list faults [] f = f"
| "restore_dns_list faults (s # ss) f = restore_dns_list faults ss (snd (dns_Restore faults s f))"

definition recoverFromUndo :: "faults \<Rightarrow> (string list \<Rightarrow> string list) \<Rightarrow> Host \<Rightarrow> Host" where
  "recoverFromUndo faults iter h =
     (case undo_Load (ho_undo h) of
        Inl e \<Rightarrow> h
      | Inr j \<Rightarrow>
          (if jn_Routes j = [] \<and> jn_DNSPrior j = [] \<and> jn_TunName j = [] then h
           else let t = (case route_Snapshot (faults CRoutes) (ho_routes h) of
                           Inl e \<Rightarrow> ho_routes h
                         | Inr cur \<Rightarrow> snd (add_routes faults (missing iter (jn_Routes j) cur) (ho_routes h)))
             in h \<lparr> ho_routes := t, ho_fixed := restore_dns_list (\<lambda>i. faults (CRestoreDns i)) (jn_DNSPrior j) (ho_fixed h),
                    ho_undo := snd (undo_Clear (faults CUndo = None) (ho_undo h)) \<rparr>))"

definition RouteEntry_fields :: "RouteEntry fields" where
  "RouteEntry_fields =
     [(''dest_cidr'', fld en_DestCIDR (\<lambda>x r. r \<lparr> en_DestCIDR := x \<rparr>) dec_string),
      (''next_hop'', fld en_NextHop (\<lambda>x r. r \<lparr> en_NextHop := x \<rparr>) dec_string),
      (''interface_luid'', fld (uint \<circ> en_InterfaceLUID) (\<lambda>x r. r \<lparr> en_InterfaceLUID := word_of_int x \<rparr>) (dec_int 0 (2 ^ 64 - 1))),
      (''metric'', fld (uint \<circ> en_Metric) (\<lambda>x r. r \<lparr> en_Metric := word_of_int x \<rparr>) (dec_int 0 (2 ^ 32 - 1)))]"

definition enc_RouteEntry :: "RouteEntry \<Rightarrow> json" where
  "enc_RouteEntry e =
     JObj [(''dest_cidr'', JStr (en_DestCIDR e)), (''next_hop'', JStr (en_NextHop e)),
           (''interface_luid'', JNum (uint (en_InterfaceLUID e))), (''metric'', JNum (uint (en_Metric e)))]"

definition dec_arg :: "'a fields \<Rightarrow> 'a \<Rightarrow> json option \<Rightarrow> 'a option" where
  "dec_arg fs z raw = (case raw of None \<Rightarrow> None | Some j \<Rightarrow> dec_struct fs j z)"

definition NewRouteSnapshotHandler :: "faults \<Rightarrow> Host handler" where
  "NewRouteSnapshotHandler faults raw h =
     (case route_Snapshot (faults CRoutes) (ho_routes h) of
        Inl e \<Rightarrow> (Inl e, h) | Inr es \<Rightarrow> (Inr (Some (JObj [(''routes'', JArr (map enc_RouteEntry es))])), h))"

definition NewRouteAddHandler :: "string \<Rightarrow> faults \<Rightarrow> Host handler" where
  "NewRouteAddHandler decErr faults raw h =
     (case dec_arg RouteEntry_fields zero_RouteEntry raw of
        None \<Rightarrow> (Inl (''decode args: '' @ decErr), h)
      | Some e \<Rightarrow>
          (case route_Add (faults (CAddRoute (route_key e))) e (ho_routes h) of
             (Some r, t) \<Rightarrow> (Inl (route_text ''CreateIpForwardEntry2'' e r), h) | (None, t) \<Rightarrow> (Inr (Some (JObj [])), h \<lparr> ho_routes := t \<rparr>)))"

definition NewRouteRemoveHandler :: "string \<Rightarrow> faults \<Rightarrow> Host handler" where
  "NewRouteRemoveHandler decErr faults raw h =
     (case dec_arg RouteEntry_fields zero_RouteEntry raw of
        None \<Rightarrow> (Inl (''decode args: '' @ decErr), h)
      | Some e \<Rightarrow>
          (case route_Remove (faults CRemoveRoute) e (ho_routes h) of
             (Some r, t) \<Rightarrow> (Inl (route_text ''DeleteIpForwardEntry2'' e r), h) | (None, t) \<Rightarrow> (Inr (Some (JObj [])), h \<lparr> ho_routes := t \<rparr>)))"

fun remove_routes :: "(string \<Rightarrow> string option) \<Rightarrow> RouteEntry list \<Rightarrow> RouteEntry list \<Rightarrow> RouteEntry list" where
  "remove_routes faults [] t = t"
| "remove_routes faults (e # es) t = remove_routes faults es (snd (route_Remove (faults (route_key e)) e t))"

text \<open>\<open>rmFaults\<close> are the failures of removals, by key.\<close>

definition route_restore :: "faults \<Rightarrow> (string \<Rightarrow> string option) \<Rightarrow> (string list \<Rightarrow> string list) \<Rightarrow> RouteEntry list \<Rightarrow> RouteEntry list \<Rightarrow> RouteEntry list" where
  "route_restore faults rmFaults iter snapshot current =
     snd (add_routes faults (missing iter snapshot current) (remove_routes rmFaults (missing iter current snapshot) current))"

definition NewRouteRestoreHandler :: "string \<Rightarrow> faults \<Rightarrow> (string \<Rightarrow> string option) \<Rightarrow> (string list \<Rightarrow> string list) \<Rightarrow> Host handler" where
  "NewRouteRestoreHandler decErr faults rmFaults iter raw h =
     (case dec_arg [(''snapshot'', fld (\<lambda>s. s) (\<lambda>x s. x) (dec_slice (dec_struct RouteEntry_fields) zero_RouteEntry))] [] raw of
        None \<Rightarrow> (Inl (''decode args: '' @ decErr), h)
      | Some snapshot \<Rightarrow>
          (case route_Snapshot (faults CRoutes) (ho_routes h) of
             Inl e \<Rightarrow> (Inl e, h)
           | Inr current \<Rightarrow> (Inr (Some (JObj [])), h \<lparr> ho_routes := route_restore faults rmFaults iter snapshot current \<rparr>)))"

definition DnsSettings_fields :: "DnsSettings fields" where
  "DnsSettings_fields =
     [(''interface_alias'', fld ds_InterfaceAlias (\<lambda>x r. r \<lparr> ds_InterfaceAlias := x \<rparr>) dec_string),
      (''addresses'', fld ds_Addresses (\<lambda>x r. r \<lparr> ds_Addresses := x \<rparr>) (dec_slice dec_string []))]"

definition enc_DnsSettings :: "DnsSettings \<Rightarrow> json" where
  "enc_DnsSettings s = JObj [(''interface_alias'', JStr (ds_InterfaceAlias s)), (''addresses'', if ds_Addresses s = [] then JNull else JArr (map JStr (ds_Addresses s)))]"

definition zero_DnsSettings :: DnsSettings where "zero_DnsSettings = \<lparr> ds_InterfaceAlias = [], ds_Addresses = [] \<rparr>"

definition NewDnsSetHandler :: "string \<Rightarrow> faults \<Rightarrow> (string \<Rightarrow> string list) \<Rightarrow> string + string \<Rightarrow> Host handler" where
  "NewDnsSetHandler decErr faults find_all out raw h =
     (case dec_arg DnsSettings_fields zero_DnsSettings raw of
        None \<Rightarrow> (Inl (''decode args: '' @ decErr), h)
      | Some s \<Rightarrow>
          (case dns_Snapshot find_all out (ds_InterfaceAlias s) of
             Inl e \<Rightarrow> (Inl e, h)
           | Inr prior \<Rightarrow>
               (case dns_Set (\<lambda>i. faults (CDns i)) s (ho_fixed h) of
                  (Some e, f) \<Rightarrow> (Inl e, h \<lparr> ho_fixed := f \<rparr>)
                | (None, f) \<Rightarrow> (Inr (Some (JObj [(''prior'', enc_DnsSettings prior)])), h \<lparr> ho_fixed := f \<rparr>))))"

definition NewDnsRestoreHandler :: "string \<Rightarrow> faults \<Rightarrow> Host handler" where
  "NewDnsRestoreHandler decErr faults raw h =
     (case dec_arg DnsSettings_fields zero_DnsSettings raw of
        None \<Rightarrow> (Inl (''decode args: '' @ decErr), h)
      | Some s \<Rightarrow>
          (case dns_Restore (\<lambda>i. faults (CRestoreDns i)) s (ho_fixed h) of
             (Some e, f) \<Rightarrow> (Inl e, h \<lparr> ho_fixed := f \<rparr>) | (None, f) \<Rightarrow> (Inr (Some (JObj [])), h \<lparr> ho_fixed := f \<rparr>)))"

section \<open>What each call does to the machine\<close>

lemma add_servers_other: "a \<noteq> al \<Longrightarrow> snd (add_servers faults al i ys f) a = f a"
  by (induction faults al i ys f rule: add_servers.induct)
    (auto simp: runNetsh_def netsh_effect_def Let_def split: option.split)

lemma dns_Set_other: "a \<noteq> ds_InterfaceAlias s \<Longrightarrow> snd (dns_Set faults s f) a = f a"
  by (auto simp: dns_Set_def runNetsh_def netsh_effect_def add_servers_other split: list.split option.split)

lemma add_servers_ok:
  assumes "f al = Some xs" "length xs = i"
  shows "add_servers (\<lambda>_. None) al i ys f = (None, f(al \<mapsto> xs @ ys))"
  using assms
proof (induction ys arbitrary: i xs f)
  case Nil
  then show ?case by (simp add: fun_upd_idem)
next
  case (Cons a ys)
  have "add_servers (\<lambda>_. None) al (Suc i) ys (f(al \<mapsto> xs @ [a])) = (None, (f(al \<mapsto> xs @ [a]))(al \<mapsto> (xs @ [a]) @ ys))"
    using Cons.prems by (intro Cons.IH) simp_all
  then show ?case using Cons.prems by (simp add: runNetsh_def netsh_effect_def) (simp add: fun_upd_def)
qed

lemma dns_Set_ok:
  "dns_Set (\<lambda>_. None) s f = (None, f(ds_InterfaceAlias s := (if ds_Addresses s = [] then None else Some (ds_Addresses s))))"
  by (simp add: dns_Set_def runNetsh_def netsh_effect_def add_servers_ok [of _ _ "[x]" for x] split: list.split)

lemma dns_Set_first_fails: "faults 0 = Some e \<Longrightarrow> snd (dns_Set faults s f) = f"
  by (simp add: dns_Set_def runNetsh_def split: list.split)

text \<open>Only the first call of \<^verbatim>\<open>dns.Set\<close> may fail.\<close>

lemma dns_Set_early:
  assumes "\<And>i. faults (Suc i) = None" "dns_Set faults s f = (Some e, f')"
  shows "f' = f"
proof (cases "faults 0")
  case None
  have "faults i = None" for i using None assms(1) by (cases i) simp_all
  then have "faults = (\<lambda>_. None)" by (rule ext)
  then show ?thesis using dns_Set_ok [of s f] assms(2) by simp
next
  case (Some e')
  then show ?thesis using dns_Set_first_fails [of faults e' s f] assms(2) by simp
qed

lemma set_values_other: "m \<noteq> name \<Longrightarrow> snd (set_values faults i name kvs reg) m = reg m"
  by (induction faults i name kvs reg rule: set_values.induct) (auto split: option.split)

lemma AddNrptRule_other: "m \<noteq> name \<Longrightarrow> snd (AddNrptRule faults name ns servers reg) m = reg m"
  by (auto simp: AddNrptRule_def set_values_other split: option.split)

lemma AddNrptRule_create_fails: "faults 0 = Some e \<Longrightarrow> AddNrptRule faults name ns servers reg = (Some e', reg') \<Longrightarrow> reg' = reg"
  by (auto simp: AddNrptRule_def split: if_splits)

lemma set_values_ok: "(\<And>i. faults i = None) \<Longrightarrow> fst (set_values faults i name kvs reg) = None"
  by (induction faults i name kvs reg rule: set_values.induct) auto

lemma AddNrptRule_ok:
  assumes "\<And>i. faults i = None" "name \<noteq> []" "ns \<noteq> []" "servers \<noteq> []"
  shows "fst (AddNrptRule faults name ns servers reg) = None"
  using assms(2-4) assms(1) [of 0] set_values_ok [of faults, OF assms(1)]
  by (simp add: AddNrptRule_def del: set_values.simps)

lemma same_row_refl [simp]: "same_row r r"
  by (simp add: same_row_def)

lemma same_row_sym: "same_row a b = same_row b a"
  by (auto simp: same_row_def)

lemma same_row_trans: "same_row a b \<Longrightarrow> same_row b c \<Longrightarrow> same_row a c"
  by (simp add: same_row_def)

lemma route_Add_None: "route_Add fault e t = (None, t') \<longleftrightarrow>
    fault = None \<and> (\<exists>row. entryToRow e = Some row \<and> \<not> list_ex (same_row row) t \<and> t' = t @ [row])"
  by (auto simp: route_Add_def split: option.splits if_splits)

lemma route_Remove_added:
  assumes "entryToRow e = Some row" "\<not> list_ex (same_row row) t"
  shows "route_Remove None e (t @ [row]) = (None, t)"
  using assms by (auto simp: route_Remove_def list_ex_iff intro: filter_True)

lemma route_Remove_sub: "set (snd (route_Remove fault e t)) \<subseteq> set t"
  by (auto simp: route_Remove_def split: option.splits)

lemma route_Remove_gone:
  assumes "fst (route_Remove fault e t) \<in> {None, Some NotFound}" "entryToRow e = Some row"
  shows "\<not> list_ex (same_row row) (snd (route_Remove fault e t))"
  using assms by (auto simp: route_Remove_def list_ex_iff split: option.splits if_splits)

lemma route_key_row: "same_row a b \<Longrightarrow> route_key a = route_key b"
  by (simp add: route_key_def same_row_def)

section \<open>A start that fails, and a session that is up\<close>

text \<open>
  What a start has done to the machine \<open>h0\<close>, and what the session remembers of it. \<open>lease\<close> are the leased name
  servers; \<open>dh\<close> and \<open>rh\<close> allow that the name servers of the interface \<open>al\<close>, or the rule \<open>name\<close>, are changed without
  being remembered.
\<close>

definition rule_name :: "start_world \<Rightarrow> string" where "rule_name w = ''ITGRay-'' @ sw_id w"

definition routes_kept :: "Host \<Rightarrow> progress \<Rightarrow> bool" where
  "routes_kept h0 p \<longleftrightarrow>
     (if pg_peer p
      then (\<exists>row. entryToRow (ws_peerRoute (pg_sess p)) = Some row \<and> \<not> list_ex (same_row row) (ho_routes h0) \<and>
              en_DestCIDR (ws_peerRoute (pg_sess p)) \<noteq> [] \<and> ho_routes (pg_host p) = ho_routes h0 @ [row])
      else ho_routes (pg_host p) = ho_routes h0)"

definition prior_of :: "(string \<Rightarrow> string list) \<Rightarrow> Host \<Rightarrow> string \<Rightarrow> DnsSettings" where
  "prior_of lease h0 al = \<lparr> ds_InterfaceAlias = al, ds_Addresses = resolvers lease (ho_fixed h0) al \<rparr>"

definition dns_kept :: "(string \<Rightarrow> string list) \<Rightarrow> bool \<Rightarrow> string \<Rightarrow> Host \<Rightarrow> progress \<Rightarrow> bool" where
  "dns_kept lease dh al h0 p \<longleftrightarrow>
     (\<forall>a. a \<noteq> al \<longrightarrow> ho_fixed (pg_host p) a = ho_fixed h0 a) \<and>
     (if pg_dns p then ws_dnsPrior (pg_sess p) = Some (prior_of lease h0 al)
      else ws_dnsPrior (pg_sess p) = None \<and> (dh \<or> ho_fixed (pg_host p) = ho_fixed h0))"

definition nrpt_kept :: "bool \<Rightarrow> string \<Rightarrow> Host \<Rightarrow> progress \<Rightarrow> bool" where
  "nrpt_kept rh name h0 p \<longleftrightarrow>
     (\<forall>m. m \<noteq> name \<longrightarrow> ho_nrpt (pg_host p) m = ho_nrpt h0 m) \<and>
     (if pg_nrpt p then ws_nrptName (pg_sess p) = name
      else ws_nrptName (pg_sess p) = [] \<and> (rh \<or> ho_nrpt (pg_host p) = ho_nrpt h0))"

definition core_list :: "nat option \<Rightarrow> nat list" where
  "core_list c = (case c of None \<Rightarrow> [] | Some pid \<Rightarrow> [pid])"

definition cores_kept :: "Host \<Rightarrow> progress \<Rightarrow> bool" where
  "cores_kept h0 p \<longleftrightarrow>
     ho_running (pg_host p) = ho_running h0 @ core_list (ws_singbox (pg_sess p)) @ core_list (ws_xray (pg_sess p)) \<and>
     ho_pids h0 \<le> ho_pids (pg_host p) \<and>
     list_all (\<lambda>pid. ho_pids h0 \<le> pid \<and> pid < ho_pids (pg_host p))
       (core_list (ws_singbox (pg_sess p)) @ core_list (ws_xray (pg_sess p))) \<and>
     (pg_sb p \<longleftrightarrow> ws_singbox (pg_sess p) \<noteq> None) \<and> (pg_xr p \<longleftrightarrow> ws_xray (pg_sess p) \<noteq> None)"

definition undoable :: "(string \<Rightarrow> string list) \<Rightarrow> bool \<Rightarrow> bool \<Rightarrow> string \<Rightarrow> string \<Rightarrow> Host \<Rightarrow> progress \<Rightarrow> bool" where
  "undoable lease dh rh al name h0 p \<longleftrightarrow>
     routes_kept h0 p \<and> dns_kept lease dh al h0 p \<and> nrpt_kept rh name h0 p \<and> cores_kept h0 p \<and>
     ws_snapshot (pg_sess p) \<in> {None, Some (ho_routes h0)} \<and> ws_id (pg_sess p) = drop 7 name \<and> \<not> ws_stopping (pg_sess p)"

lemmas undoable_defs = undoable_def routes_kept_def dns_kept_def nrpt_kept_def cores_kept_def

lemma undoable_mono: "undoable lease False rh al name h0 p \<Longrightarrow> undoable lease dh rh al name h0 p"
  by (auto simp: undoable_def dns_kept_def)

text \<open>
  What netsh shows before the change are the name servers in use. The calls of a start can fail in any way; two kinds of
  failures leave a change that nothing remembers: a call of \<^verbatim>\<open>dns.Set\<close> other than its first, and a call for the rule
  after its key was made.
\<close>

definition shows_servers :: "(string \<Rightarrow> string list) \<Rightarrow> start_world \<Rightarrow> StartChainArgs \<Rightarrow> Host \<Rightarrow> bool" where
  "shows_servers lease w a h0 \<longleftrightarrow>
     (case sw_show w of Inl e \<Rightarrow> True | Inr text \<Rightarrow> parseDNSAddresses (sw_find w) text = resolvers lease (ho_fixed h0) (sa_DnsAlias a))"

definition dns_cut :: "start_world \<Rightarrow> bool" where
  "dns_cut w \<longleftrightarrow> (\<exists>i. sw_faults w (CDns (Suc i)) \<noteq> None)"

definition rule_cut :: "start_world \<Rightarrow> bool" where
  "rule_cut w \<longleftrightarrow> sw_faults w (CNrpt 0) = None \<and> (\<exists>i. sw_faults w (CNrpt (Suc i)) \<noteq> None)"

lemma undoable_begin:
  "rule_name w = name \<Longrightarrow> undoable lease dh rh al name h0 (begin_start w a (h0 \<lparr> ho_files := fs \<rparr>))"
  by (auto simp: undoable_defs begin_start_def new_session_def core_list_def rule_name_def)

text \<open>Stages that touch only files, the snapshot or the adapter.\<close>

lemma undoable_frame:
  assumes "undoable lease dh rh al name h0 p"
    and "ho_routes (pg_host p') = ho_routes (pg_host p)" "ho_fixed (pg_host p') = ho_fixed (pg_host p)"
      "ho_nrpt (pg_host p') = ho_nrpt (pg_host p)" "ho_running (pg_host p') = ho_running (pg_host p)" "ho_pids (pg_host p') = ho_pids (pg_host p)"
    and "pg_peer p' = pg_peer p" "pg_dns p' = pg_dns p" "pg_nrpt p' = pg_nrpt p" "pg_sb p' = pg_sb p" "pg_xr p' = pg_xr p"
    and "ws_peerRoute (pg_sess p') = ws_peerRoute (pg_sess p) \<or> \<not> pg_peer p" "ws_dnsPrior (pg_sess p') = ws_dnsPrior (pg_sess p)"
      "ws_nrptName (pg_sess p') = ws_nrptName (pg_sess p)" "ws_singbox (pg_sess p') = ws_singbox (pg_sess p)"
      "ws_xray (pg_sess p') = ws_xray (pg_sess p)" "ws_id (pg_sess p') = ws_id (pg_sess p)" "ws_stopping (pg_sess p') = ws_stopping (pg_sess p)"
    and "ws_snapshot (pg_sess p') \<in> {None, Some (ho_routes h0)}"
  shows "undoable lease dh rh al name h0 p'"
proof -
  have u: "routes_kept h0 p" "dns_kept lease dh al h0 p" "nrpt_kept rh name h0 p" "cores_kept h0 p"
    using assms(1) by (simp_all add: undoable_def)
  have "routes_kept h0 p'" using u(1) assms(2,7,12) by (auto simp: routes_kept_def split: if_splits)
  moreover have "dns_kept lease dh al h0 p'" using u(2) assms(3,8,13) by (simp add: dns_kept_def)
  moreover have "nrpt_kept rh name h0 p'" using u(3) assms(4,9,14) by (simp add: nrpt_kept_def)
  moreover have "cores_kept h0 p'" using u(4) unfolding cores_kept_def assms(5,6,10,11,15,16) .
  ultimately show ?thesis using assms(1,17-19) unfolding undoable_def by simp
qed

text \<open>
  A stage from states with \<open>P\<close> to states with \<open>Q\<close>: \<open>G\<close> holds afterwards in any case, \<open>Q\<close> if it did not fail.
\<close>

definition stage_ok :: "(progress \<Rightarrow> bool) \<Rightarrow> (progress \<Rightarrow> bool) \<Rightarrow> stage \<Rightarrow> (progress \<Rightarrow> bool) \<Rightarrow> bool" where
  "stage_ok G P f Q \<longleftrightarrow> (\<forall>p. P p \<longrightarrow> (case f p of (None, p') \<Rightarrow> G p' \<and> Q p' | (Some e, p') \<Rightarrow> G p'))"

lemma stage_okI:
  "(\<And>p p'. P p \<Longrightarrow> f p = (None, p') \<Longrightarrow> G p' \<and> Q p') \<Longrightarrow> (\<And>p p' e. P p \<Longrightarrow> f p = (Some e, p') \<Longrightarrow> G p') \<Longrightarrow> stage_ok G P f Q"
  by (simp add: stage_ok_def split: prod.split option.split)

lemma stage_ok_Nil: "(\<And>p. P p \<Longrightarrow> G p) \<Longrightarrow> stage_ok G P (run_stages []) P"
  by (simp add: stage_ok_def)

lemma stage_ok_Cons: "stage_ok G P f Q \<Longrightarrow> stage_ok G Q (run_stages fs) R \<Longrightarrow> stage_ok G P (run_stages (f # fs)) R"
  unfolding stage_ok_def by (auto split: prod.splits option.splits) blast+

text \<open>The order of a start: before the route, before sing-box, before xray, and after.\<close>

definition before_peer :: "progress \<Rightarrow> bool" where
  "before_peer p \<longleftrightarrow> \<not> pg_peer p \<and> ws_peerRoute (pg_sess p) = zero_RouteEntry \<and> ws_singbox (pg_sess p) = None \<and> ws_xray (pg_sess p) = None"

definition peer_known :: "progress \<Rightarrow> bool" where
  "peer_known p \<longleftrightarrow> pg_peer p \<or> ws_peerRoute (pg_sess p) = zero_RouteEntry"

definition before_sb :: "progress \<Rightarrow> bool" where
  "before_sb p \<longleftrightarrow> peer_known p \<and> ws_singbox (pg_sess p) = None \<and> ws_xray (pg_sess p) = None"

definition before_xr :: "progress \<Rightarrow> bool" where
  "before_xr p \<longleftrightarrow> peer_known p \<and> ws_singbox (pg_sess p) \<noteq> None \<and> ws_xray (pg_sess p) = None"

definition both_up :: "progress \<Rightarrow> bool" where
  "both_up p \<longleftrightarrow> peer_known p \<and> ws_singbox (pg_sess p) \<noteq> None \<and> ws_xray (pg_sess p) \<noteq> None"

lemma stage_ok_weaken: "stage_ok G P f Q \<Longrightarrow> (\<And>p. P' p \<Longrightarrow> P p) \<Longrightarrow> (\<And>p. G p \<Longrightarrow> Q p \<Longrightarrow> Q' p) \<Longrightarrow> stage_ok G P' f Q'"
  unfolding stage_ok_def by (auto split: prod.splits option.splits) blast+

lemma stage_ok_mono: "stage_ok G P f Q \<Longrightarrow> (\<And>p. G p \<Longrightarrow> G' p) \<Longrightarrow> stage_ok G' P f Q"
  unfolding stage_ok_def by (auto split: prod.splits option.splits)

text \<open>A stage that changes nothing that counts.\<close>

definition frame :: "progress \<Rightarrow> progress \<Rightarrow> bool" where
  "frame p p' \<longleftrightarrow>
     ho_routes (pg_host p') = ho_routes (pg_host p) \<and> ho_fixed (pg_host p') = ho_fixed (pg_host p) \<and>
     ho_nrpt (pg_host p') = ho_nrpt (pg_host p) \<and> ho_running (pg_host p') = ho_running (pg_host p) \<and> ho_pids (pg_host p') = ho_pids (pg_host p) \<and>
     pg_peer p' = pg_peer p \<and> pg_dns p' = pg_dns p \<and> pg_nrpt p' = pg_nrpt p \<and> pg_sb p' = pg_sb p \<and> pg_xr p' = pg_xr p \<and>
     ws_peerRoute (pg_sess p') = ws_peerRoute (pg_sess p) \<and> ws_dnsPrior (pg_sess p') = ws_dnsPrior (pg_sess p) \<and>
     ws_nrptName (pg_sess p') = ws_nrptName (pg_sess p) \<and> ws_singbox (pg_sess p') = ws_singbox (pg_sess p) \<and>
     ws_xray (pg_sess p') = ws_xray (pg_sess p) \<and> ws_id (pg_sess p') = ws_id (pg_sess p) \<and>
     ws_stopping (pg_sess p') = ws_stopping (pg_sess p) \<and> ws_snapshot (pg_sess p') = ws_snapshot (pg_sess p)"

lemma frame_undoable:
  assumes "frame p p'" "undoable lease dh rh al name h0 p"
  shows "undoable lease dh rh al name h0 p'"
  by (rule undoable_frame [OF assms(2)]) (use assms in \<open>simp_all add: frame_def undoable_def\<close>)

lemma frame_stage:
  assumes "\<And>p. frame p (snd (f p))" "\<And>p p'. frame p p' \<Longrightarrow> Q p \<Longrightarrow> Q p'"
  shows "stage_ok (undoable lease dh rh al name h0) (\<lambda>p. undoable lease dh rh al name h0 p \<and> Q p) f (\<lambda>p. undoable lease dh rh al name h0 p \<and> Q p)"
  by (rule stage_okI) (metis assms frame_undoable snd_conv)+

lemma frame_orders:
  "frame p p' \<Longrightarrow> before_peer p \<Longrightarrow> before_peer p'" "frame p p' \<Longrightarrow> before_sb p \<Longrightarrow> before_sb p'" "frame p p' \<Longrightarrow> before_xr p \<Longrightarrow> before_xr p'"
  "frame p p' \<Longrightarrow> both_up p \<Longrightarrow> both_up p'"
  by (simp_all add: frame_def before_peer_def before_sb_def peer_known_def before_xr_def peer_known_def both_up_def peer_known_def)

lemma frames:
  "frame p (snd (stage_write w kind n raw p))" "frame p (snd (fail_as what e p))" "frame p (snd (stage_discover w p))"
  "frame p (snd (stage_undo w a p))"
  by (simp_all add: frame_def stage_write_def fail_as_def stage_discover_def stage_undo_def Let_def split: option.split sum.split)

lemma snapshot_ok:
  "stage_ok (undoable lease dh rh al name h0) (\<lambda>p. undoable lease dh rh al name h0 p \<and> before_peer p) (stage_snapshot w)
     (\<lambda>p. undoable lease dh rh al name h0 p \<and> before_peer p)"
proof (rule stage_okI)
  fix p p' assume p: "undoable lease dh rh al name h0 p \<and> before_peer p" "stage_snapshot w p = (None, p')"
  then have p': "p' = p \<lparr> pg_sess := (pg_sess p) \<lparr> ws_snapshot := Some (ho_routes h0) \<rparr> \<rparr>"
    by (auto simp: stage_snapshot_def route_Snapshot_def undoable_def routes_kept_def before_peer_def split: option.splits)
  have "undoable lease dh rh al name h0 p'"
    by (rule undoable_frame [of lease dh rh al name h0 p]) (use p(1) in \<open>simp_all add: p'\<close>)
  then show "undoable lease dh rh al name h0 p' \<and> (undoable lease dh rh al name h0 p' \<and> before_peer p')"
    using p(1) by (simp add: p' before_peer_def)
qed (auto simp: stage_snapshot_def split: sum.splits)

lemma peer_entry_dest: "en_DestCIDR (peer_entry v4 gw) \<noteq> []"
  by (simp add: peer_entry_def)

lemma peer_ok:
  "stage_ok (undoable lease dh rh al name h0) (\<lambda>p. undoable lease dh rh al name h0 p \<and> before_peer p) (stage_peer w a)
     (\<lambda>p. undoable lease dh rh al name h0 p \<and> before_sb p)"
proof (rule stage_okI)
  fix p p' assume p: "undoable lease dh rh al name h0 p \<and> before_peer p" "stage_peer w a p = (None, p')"
  then obtain peer row where
    r: "en_DestCIDR peer \<noteq> []" "entryToRow peer = Some row" "\<not> list_ex (same_row row) (ho_routes (pg_host p))"
    and p': "p' = p \<lparr> pg_sess := (pg_sess p) \<lparr> ws_peerRoute := peer \<rparr>,
                      pg_host := (pg_host p) \<lparr> ho_routes := ho_routes (pg_host p) @ [row] \<rparr>, pg_peer := True \<rparr>"
    using peer_entry_dest by (auto simp: stage_peer_def Let_def route_Add_None split: sum.splits prod.splits option.splits)
  have u: "ho_routes (pg_host p) = ho_routes h0" using p(1) by (simp add: undoable_def routes_kept_def before_peer_def)
  have "routes_kept h0 p'" using r u by (simp add: p' routes_kept_def)
  moreover have "dns_kept lease dh al h0 p'" "nrpt_kept rh name h0 p'" "cores_kept h0 p'"
    using p(1) by (simp_all add: undoable_def p' dns_kept_def nrpt_kept_def cores_kept_def)
  ultimately show "undoable lease dh rh al name h0 p' \<and> (undoable lease dh rh al name h0 p' \<and> before_sb p')"
    using p(1) by (simp add: undoable_def before_sb_def peer_known_def before_peer_def p')
next
  fix p p' e assume p: "undoable lease dh rh al name h0 p \<and> before_peer p" "stage_peer w a p = (Some e, p')"
  then obtain peer where "p' = p \<or> p' = p \<lparr> pg_sess := (pg_sess p) \<lparr> ws_peerRoute := peer \<rparr> \<rparr>"
    by (auto simp: stage_peer_def Let_def split: sum.splits prod.splits option.splits)
  then show "undoable lease dh rh al name h0 p'"
  proof
    assume p': "p' = p \<lparr> pg_sess := (pg_sess p) \<lparr> ws_peerRoute := peer \<rparr> \<rparr>"
    show ?thesis by (rule undoable_frame [of lease dh rh al name h0 p]) (use p(1) in \<open>simp_all add: p' before_peer_def undoable_def\<close>)
  qed (use p(1) in simp)
qed

text \<open>The change of name servers, and the progress after it.\<close>

definition dns_change :: "start_world \<Rightarrow> StartChainArgs \<Rightarrow> progress \<Rightarrow> string option \<times> name_servers" where
  "dns_change w a p =
     dns_Set (\<lambda>i. sw_faults w (CDns i)) \<lparr> ds_InterfaceAlias = sa_DnsAlias a, ds_Addresses = sa_DnsServers a \<rparr> (ho_fixed (pg_host p))"

definition dns_changed :: "name_servers \<Rightarrow> DnsSettings \<Rightarrow> progress \<Rightarrow> progress" where
  "dns_changed f prior p =
     p \<lparr> pg_host := (pg_host p) \<lparr> ho_fixed := f \<rparr>, pg_sess := (pg_sess p) \<lparr> ws_dnsPrior := Some prior \<rparr>, pg_dns := True \<rparr>"

lemma stage_dns_cases:
  "stage_dns w a p =
     (if sa_DnsAlias a = [] \<or> sa_DnsServers a = [] then (None, p)
      else case sw_show w of
        Inl e \<Rightarrow> (Some (''dns.Snapshot: netsh interface ipv4 show dnsservers name='' @ go_q (sa_DnsAlias a) @ '': '' @ e), p)
      | Inr shown \<Rightarrow>
          (case fst (dns_change w a p) of
             Some e \<Rightarrow> (Some (''dns.Set: '' @ e), p \<lparr> pg_host := (pg_host p) \<lparr> ho_fixed := snd (dns_change w a p) \<rparr> \<rparr>)
           | None \<Rightarrow> (None, dns_changed (snd (dns_change w a p))
                \<lparr> ds_InterfaceAlias = sa_DnsAlias a, ds_Addresses = parseDNSAddresses (sw_find w) shown \<rparr> p)))"
  by (simp add: stage_dns_def dns_Snapshot_def dns_change_def dns_changed_def split: sum.split prod.split option.split)

lemma stage_dns_None:
  assumes "stage_dns w a p = (None, p')"
  shows "p' = p \<or> (\<exists>shown. sw_show w = Inr shown \<and> p' = dns_changed (snd (dns_change w a p))
           \<lparr> ds_InterfaceAlias = sa_DnsAlias a, ds_Addresses = parseDNSAddresses (sw_find w) shown \<rparr> p)"
proof (cases "sa_DnsAlias a = [] \<or> sa_DnsServers a = []")
  case False
  show ?thesis
  proof (cases "sw_show w")
    case (Inr shown)
    then show ?thesis using assms False unfolding stage_dns_cases by (cases "fst (dns_change w a p)") simp_all
  qed (use assms False in \<open>simp add: stage_dns_cases\<close>)
qed (use assms in \<open>simp add: stage_dns_cases\<close>)

lemma dns_ok:
  assumes "shows_servers lease w a h0" "al = sa_DnsAlias a" "dns_cut w \<longrightarrow> dh"
  shows "stage_ok (undoable lease dh rh al name h0) (\<lambda>p. undoable lease False rh al name h0 p \<and> before_sb p) (stage_dns w a)
     (\<lambda>p. undoable lease False rh al name h0 p \<and> before_sb p)"
proof (rule stage_okI)
  fix p p' assume p: "undoable lease False rh al name h0 p \<and> before_sb p" "stage_dns w a p = (None, p')"
  consider "p' = p" | f shown where "sw_show w = Inr shown" "f = snd (dns_change w a p)"
      "p' = dns_changed f \<lparr> ds_InterfaceAlias = al, ds_Addresses = parseDNSAddresses (sw_find w) shown \<rparr> p"
    using stage_dns_None [OF p(2)] assms(2) by metis
  then have "undoable lease False rh al name h0 p' \<and> before_sb p'"
  proof cases
    case (2 f shown)
    have "f b = ho_fixed (pg_host p) b" if "b \<noteq> al" for b
      using that assms(2) by (simp add: 2(2) dns_change_def dns_Set_other)
    moreover have "ho_fixed (pg_host p) b = ho_fixed h0 b" if "b \<noteq> al" for b
      using p(1) that by (simp add: undoable_def dns_kept_def)
    ultimately have "dns_kept lease False al h0 p'"
      using assms 2(1) by (simp add: 2(3) dns_changed_def dns_kept_def shows_servers_def prior_of_def)
    moreover have "routes_kept h0 p'" "nrpt_kept rh name h0 p'" "cores_kept h0 p'"
      using p(1) by (simp_all add: undoable_def 2(3) dns_changed_def routes_kept_def nrpt_kept_def cores_kept_def)
    ultimately show ?thesis using p(1) by (simp add: undoable_def before_sb_def peer_known_def 2(3) dns_changed_def)
  qed (use p(1) in simp)
  then show "undoable lease dh rh al name h0 p' \<and> (undoable lease False rh al name h0 p' \<and> before_sb p')"
    using undoable_mono by blast
next
  fix p p' e assume p: "undoable lease False rh al name h0 p \<and> before_sb p" "stage_dns w a p = (Some e, p')"
  let ?f = "snd (dns_change w a p)"
  have p': "p' = p \<or> fst (dns_change w a p) \<noteq> None \<and> p' = p \<lparr> pg_host := (pg_host p) \<lparr> ho_fixed := ?f \<rparr> \<rparr>"
    using p(2) unfolding stage_dns_cases
    by (cases "sa_DnsAlias a = [] \<or> sa_DnsServers a = []"; cases "sw_show w"; cases "fst (dns_change w a p)") simp_all
  have o: "?f b = ho_fixed (pg_host p) b" if "b \<noteq> al" for b using that assms(2) by (simp add: dns_change_def dns_Set_other)
  have whole: "dh \<or> ?f = ho_fixed (pg_host p)" if failed: "fst (dns_change w a p) \<noteq> None"
  proof (cases dh)
    case False
    then have "sw_faults w (CDns (Suc i)) = None" for i using assms(3) by (auto simp: dns_cut_def)
    then show ?thesis
      using failed dns_Set_early [of "\<lambda>i. sw_faults w (CDns i)"] unfolding dns_change_def by (metis option.exhaust prod.collapse)
  qed simp
  have nd: "pg_dns p \<or> ho_fixed (pg_host p) = ho_fixed h0" using p(1) by (simp add: undoable_def dns_kept_def split: if_splits)
  show "undoable lease dh rh al name h0 p'"
  proof (cases "p' = p")
    case False
    then have f: "fst (dns_change w a p) \<noteq> None" "p' = p \<lparr> pg_host := (pg_host p) \<lparr> ho_fixed := ?f \<rparr> \<rparr>" using p' by auto
    have "dns_kept lease dh al h0 p'" using p(1) o whole [OF f(1)] nd by (auto simp: f(2) undoable_def dns_kept_def)
    moreover have "routes_kept h0 p'" "nrpt_kept rh name h0 p'" "cores_kept h0 p'"
      using p(1) by (simp_all add: undoable_def f(2) routes_kept_def nrpt_kept_def cores_kept_def)
    ultimately show ?thesis using p(1) by (simp add: undoable_def f(2))
  qed (use p(1) undoable_mono in blast)
qed

text \<open>The machine after a process was started.\<close>

definition spawned :: "(string \<rightharpoonup> rt_file) \<Rightarrow> progress \<Rightarrow> progress" where
  "spawned fs p = p \<lparr> pg_host := (pg_host p) \<lparr> ho_files := fs, ho_running := ho_running (pg_host p) @ [ho_pids (pg_host p)],
     ho_pids := ho_pids (pg_host p) + 1 \<rparr> \<rparr>"

lemma stage_spawn_cases:
  "\<exists>fs. (\<exists>e. stage_spawn w n label up p = (Some e, p \<lparr> pg_host := (pg_host p) \<lparr> ho_files := fs \<rparr> \<rparr>)) \<or>
     stage_spawn w n label up p = (None, up (ho_pids (pg_host p)) (spawned fs p))"
proof (cases "sw_faults w (CExe n)")
  case None
  obtain r fs where rot: "RotateLog (\<lambda>i. sw_faults w (CRotate n i)) (n @ ''.log'') (ho_files (pg_host p)) = (r, fs)" by fastforce
  have "stage_spawn w n label up p =
     (case r of Some e \<Rightarrow> (Some (''rotate '' @ n @ '' log: '' @ e), p \<lparr> pg_host := (pg_host p) \<lparr> ho_files := fs \<rparr> \<rparr>)
      | None \<Rightarrow> (case sw_faults w (CSpawn n) of
           Some e \<Rightarrow> (Some (''spawn '' @ n @ '': '' @ e), p \<lparr> pg_host := (pg_host p) \<lparr> ho_files := fs \<rparr> \<rparr>)
         | None \<Rightarrow> (None, up (ho_pids (pg_host p)) (spawned fs p))))"
    by (simp add: stage_spawn_def None rot Win_spawn_def Let_def spawned_def split: option.split)
  then show ?thesis by (cases r; cases "sw_faults w (CSpawn n)") (simp_all, blast+)
qed (rule exI [of _ "ho_files (pg_host p)"], simp add: stage_spawn_def)

lemma spawn_ok:
  assumes "\<And>p fs. undoable lease dh rh al name h0 p \<Longrightarrow> P p \<Longrightarrow>
      undoable lease dh rh al name h0 (up (ho_pids (pg_host p)) (spawned fs p)) \<and> Q (up (ho_pids (pg_host p)) (spawned fs p))"
  shows "stage_ok (undoable lease dh rh al name h0) (\<lambda>p. undoable lease dh rh al name h0 p \<and> P p) (stage_spawn w n label up)
     (\<lambda>p. undoable lease dh rh al name h0 p \<and> Q p)"
proof (rule stage_okI)
  fix p p' assume p: "undoable lease dh rh al name h0 p \<and> P p" "stage_spawn w n label up p = (None, p')"
  then obtain fs where "p' = up (ho_pids (pg_host p)) (spawned fs p)"
    using stage_spawn_cases [of w n label up p] by auto
  then show "undoable lease dh rh al name h0 p' \<and> (undoable lease dh rh al name h0 p' \<and> Q p')" using assms p(1) by simp
next
  fix p p' e assume p: "undoable lease dh rh al name h0 p \<and> P p" "stage_spawn w n label up p = (Some e, p')"
  then obtain fs where "p' = p \<lparr> pg_host := (pg_host p) \<lparr> ho_files := fs \<rparr> \<rparr>"
    using stage_spawn_cases [of w n label up p] by auto
  then have "frame p p'" by (simp add: frame_def)
  then show "undoable lease dh rh al name h0 p'" using p(1) frame_undoable by blast
qed

lemma singbox_ok:
  assumes "undoable lease dh rh al name h0 p" "before_sb p"
  shows "undoable lease dh rh al name h0 (singbox_up (ho_pids (pg_host p)) (spawned fs p)) \<and> before_xr (singbox_up (ho_pids (pg_host p)) (spawned fs p))"
proof -
  let ?p = "singbox_up (ho_pids (pg_host p)) (spawned fs p)"
  have "cores_kept h0 ?p"
    using assms by (auto simp: undoable_def before_sb_def peer_known_def cores_kept_def singbox_up_def spawned_def core_list_def)
  moreover have "routes_kept h0 ?p" "dns_kept lease dh al h0 ?p" "nrpt_kept rh name h0 ?p"
    using assms(1) by (simp_all add: undoable_def singbox_up_def spawned_def routes_kept_def dns_kept_def nrpt_kept_def)
  ultimately show ?thesis
    using assms by (simp add: undoable_def before_sb_def peer_known_def before_xr_def peer_known_def singbox_up_def spawned_def)
qed

lemma xray_ok:
  assumes "undoable lease dh rh al name h0 p" "before_xr p"
  shows "undoable lease dh rh al name h0 (xray_up (ho_pids (pg_host p)) (spawned fs p)) \<and> both_up (xray_up (ho_pids (pg_host p)) (spawned fs p))"
proof -
  let ?p = "xray_up (ho_pids (pg_host p)) (spawned fs p)"
  have "cores_kept h0 ?p"
    using assms by (auto simp: undoable_def before_xr_def peer_known_def cores_kept_def xray_up_def spawned_def core_list_def list_all_iff split: option.splits)
  moreover have "routes_kept h0 ?p" "dns_kept lease dh al h0 ?p" "nrpt_kept rh name h0 ?p"
    using assms(1) by (simp_all add: undoable_def xray_up_def spawned_def routes_kept_def dns_kept_def nrpt_kept_def)
  ultimately show ?thesis
    using assms by (simp add: undoable_def before_xr_def peer_known_def both_up_def peer_known_def xray_up_def spawned_def)
qed

lemma AddNrptRule_cut:
  assumes "fst (AddNrptRule (\<lambda>i. sw_faults w (CNrpt i)) name ns servers reg) \<noteq> None" "name \<noteq> []" "ns \<noteq> []" "servers \<noteq> []"
  shows "rule_cut w \<or> snd (AddNrptRule (\<lambda>i. sw_faults w (CNrpt i)) name ns servers reg) = reg"
proof (cases "sw_faults w (CNrpt 0)")
  case None
  have "\<not> (\<forall>i. sw_faults w (CNrpt i) = None)"
  proof
    assume "\<forall>i. sw_faults w (CNrpt i) = None"
    then have "fst (AddNrptRule (\<lambda>i. sw_faults w (CNrpt i)) name ns servers reg) = None"
      by (intro AddNrptRule_ok) (use assms(2-4) in simp_all)
    then show False using assms(1) by simp
  qed
  then obtain i where i: "sw_faults w (CNrpt i) \<noteq> None" by blast
  then have "\<exists>j. i = Suc j" using None by (cases i) simp_all
  then show ?thesis using i None by (auto simp: rule_cut_def)
next
  case (Some e)
  then show ?thesis
    using AddNrptRule_create_fails [of "\<lambda>i. sw_faults w (CNrpt i)"] assms(1) by (metis option.exhaust prod.collapse)
qed

lemma nrpt_ok:
  assumes "name = rule_name w" "rule_cut w \<longrightarrow> rh"
  shows "stage_ok (undoable lease dh rh al name h0) (\<lambda>p. undoable lease dh rh al name h0 p \<and> both_up p) (stage_nrpt w)
     (\<lambda>p. undoable lease dh rh al name h0 p \<and> both_up p)"
proof (rule stage_okI)
  fix p p' assume p: "undoable lease dh rh al name h0 p \<and> both_up p" "stage_nrpt w p = (None, p')"
  let ?add = "AddNrptRule (\<lambda>i. sw_faults w (CNrpt i)) name ''.'' [''1.1.1.1''] (ho_nrpt (pg_host p))"
  have n: "''ITGRay-'' @ ws_id (pg_sess p) = name" using p(1) assms(1) by (simp add: undoable_def rule_name_def)
  have other: "snd ?add m = ho_nrpt h0 m" if "m \<noteq> name" for m
    using p(1) that by (simp add: AddNrptRule_other undoable_def nrpt_kept_def)
  have k: "routes_kept h0 p" "dns_kept lease dh al h0 p" "cores_kept h0 p" "nrpt_kept rh name h0 p" using p(1) by (simp_all add: undoable_def)
  show "undoable lease dh rh al name h0 p' \<and> (undoable lease dh rh al name h0 p' \<and> both_up p')"
  proof (cases "fst ?add")
    case None
    then have p': "p' = p \<lparr> pg_host := (pg_host p) \<lparr> ho_nrpt := snd ?add \<rparr>, pg_sess := (pg_sess p) \<lparr> ws_nrptName := name \<rparr>, pg_nrpt := True \<rparr>"
      using p(2) unfolding stage_nrpt_def n Let_def by (cases ?add) simp
    have "nrpt_kept rh name h0 p'" using other by (simp add: p' nrpt_kept_def)
    moreover have "routes_kept h0 p'" "dns_kept lease dh al h0 p'" "cores_kept h0 p'"
      using k by (simp_all add: p' routes_kept_def dns_kept_def cores_kept_def)
    ultimately show ?thesis using p(1) by (simp add: undoable_def both_up_def peer_known_def p')
  next
    case (Some e)
    have c: "rh \<or> snd ?add = ho_nrpt (pg_host p)"
      using AddNrptRule_cut [of w name "''.''" "[''1.1.1.1'']" "ho_nrpt (pg_host p)"] Some assms by (auto simp: rule_name_def)
    have p': "p' = p \<lparr> pg_host := (pg_host p) \<lparr> ho_nrpt := snd ?add \<rparr> \<rparr>"
      using p(2) Some unfolding stage_nrpt_def n Let_def by (cases ?add) simp
    have "nrpt_kept rh name h0 p'" using k(4) other c by (auto simp: p' nrpt_kept_def)
    moreover have "routes_kept h0 p'" "dns_kept lease dh al h0 p'" "cores_kept h0 p'"
      using k by (simp_all add: p' routes_kept_def dns_kept_def cores_kept_def)
    ultimately show ?thesis using p(1) by (simp add: undoable_def both_up_def peer_known_def p')
  qed
qed (simp add: stage_nrpt_def Let_def split: prod.splits option.splits)

lemma start_stages_undoable:
  assumes "shows_servers lease w a h0" "name = rule_name w" "al = sa_DnsAlias a" "dns_cut w \<longrightarrow> dh" "rule_cut w \<longrightarrow> rh"
  shows "stage_ok (undoable lease dh rh al name h0) (\<lambda>p. undoable lease False rh al name h0 p \<and> before_peer p) (run_stages (start_stages w a tun))
     (\<lambda>p. undoable lease False rh al name h0 p \<and> both_up p)"
proof -
  let ?U = "undoable lease False rh al name h0" and ?G = "undoable lease dh rh al name h0"
  have up: "stage_ok ?G P f Q" if "stage_ok ?U P f Q" for P f Q by (rule stage_ok_mono [OF that]) (rule undoable_mono)
  have sb: "stage_ok ?G (\<lambda>p. ?U p \<and> before_sb p) (stage_spawn w ''sing-box'' [] singbox_up) (\<lambda>p. ?U p \<and> before_xr p)"
    by (rule up, rule spawn_ok, rule singbox_ok)
  have xr: "stage_ok ?G (\<lambda>p. ?U p \<and> before_xr p) (stage_spawn w ''xray'' '' xray'' xray_up) (\<lambda>p. ?U p \<and> both_up p)"
    by (rule up, rule spawn_ok, rule xray_ok)
  have first: "stage_ok ?G (\<lambda>p. ?U p \<and> before_peer p) (stage_spawn w ''sing-box'' [] singbox_up) (\<lambda>p. ?U p \<and> before_xr p)"
    by (rule stage_ok_weaken [OF sb]) (simp_all add: before_peer_def before_sb_def peer_known_def)
  have wr: "stage_ok ?G (\<lambda>p. ?U p \<and> before_peer p) (stage_write w kind n raw) (\<lambda>p. ?U p \<and> before_peer p)" for kind n raw
    by (rule up, rule frame_stage [OF frames(1)], rule frame_orders(1))
  have ad: "stage_ok ?G (\<lambda>p. ?U p \<and> before_sb p) (fail_as what e) (\<lambda>p. ?U p \<and> before_sb p)" for what e
    by (rule up, rule frame_stage [OF frames(2)], rule frame_orders(2))
  have di: "stage_ok ?G (\<lambda>p. ?U p \<and> before_xr p) (stage_discover w) (\<lambda>p. ?U p \<and> before_xr p)"
    by (rule up, rule frame_stage [OF frames(3)], rule frame_orders(3))
  have un: "stage_ok ?G (\<lambda>p. ?U p \<and> both_up p) (stage_undo w a) (\<lambda>p. ?U p \<and> both_up p)"
    by (rule up, rule frame_stage [OF frames(4)], rule frame_orders(4))
  have last: "stage_ok ?G (\<lambda>p. ?U p \<and> both_up p) (run_stages [stage_undo w a]) (\<lambda>p. ?U p \<and> both_up p)"
    by (rule stage_ok_Cons [OF un stage_ok_Nil]) (use undoable_mono in blast)
  note nr = up [OF nrpt_ok [OF assms(2,5)]] and dn = dns_ok [OF assms(1,3,4)]
    and sn = up [OF snapshot_ok] and pe = up [OF peer_ok]
  have "stage_ok ?G (\<lambda>p. ?U p \<and> before_peer p) (run_stages (start_stages w a True)) (\<lambda>p. ?U p \<and> both_up p)"
    unfolding start_stages_def if_True append.simps
    by (rule stage_ok_Cons [OF wr stage_ok_Cons [OF wr stage_ok_Cons [OF sn stage_ok_Cons [OF pe stage_ok_Cons [OF dn
      stage_ok_Cons [OF ad stage_ok_Cons [OF sb stage_ok_Cons [OF di stage_ok_Cons [OF xr stage_ok_Cons [OF nr last]]]]]]]]]])
  moreover have "stage_ok ?G (\<lambda>p. ?U p \<and> before_peer p) (run_stages (start_stages w a False)) (\<lambda>p. ?U p \<and> both_up p)"
    unfolding start_stages_def if_False append.simps
    by (rule stage_ok_Cons [OF wr stage_ok_Cons [OF wr stage_ok_Cons [OF first stage_ok_Cons [OF xr last]]]])
  ultimately show ?thesis by (cases tun) simp_all
qed

text \<open>A row as \<^verbatim>\<open>Snapshot\<close> writes it: addresses in their usual form.\<close>

definition plain_row :: "RouteEntry \<Rightarrow> bool" where
  "plain_row e \<longleftrightarrow> entryToRow e = Some e \<and> CHR ''|'' \<notin> set (en_DestCIDR e) \<and> CHR ''|'' \<notin> set (en_NextHop e)"

text \<open>A machine on which the service can start: rows are as the system shows them, processes have the numbers given out so far, and no fixed list of name servers is empty.\<close>

definition sound_host :: "Host \<Rightarrow> bool" where
  "sound_host h \<longleftrightarrow>
     list_all (\<lambda>pid. pid < ho_pids h) (ho_running h) \<and> list_all plain_row (ho_routes h) \<and>
     (\<forall>al. ho_fixed h al \<noteq> Some [])"

text \<open>
  The same network: routes and processes, the name servers in use on every interface, except on \<open>al\<close> if \<open>dh\<close>, and the
  name resolution rules, except the rule \<open>name\<close> if \<open>rh\<close>.
\<close>

definition same_network :: "(string \<Rightarrow> string list) \<Rightarrow> bool \<Rightarrow> bool \<Rightarrow> string \<Rightarrow> string \<Rightarrow> Host \<Rightarrow> Host \<Rightarrow> bool" where
  "same_network lease dh rh al name h h' \<longleftrightarrow>
     ho_routes h' = ho_routes h \<and> ho_running h' = ho_running h \<and>
     (\<forall>b. b \<noteq> al \<or> \<not> dh \<longrightarrow> resolvers lease (ho_fixed h') b = resolvers lease (ho_fixed h) b) \<and>
     (\<forall>m. m \<noteq> name \<or> \<not> rh \<longrightarrow> ho_nrpt h' m = ho_nrpt h m)"

text \<open>The calls by which a start is undone succeed.\<close>

definition undo_works :: "start_world \<Rightarrow> bool" where
  "undo_works w \<longleftrightarrow>
     sw_faults w CNrptDelete = None \<and> sw_faults w CNrptNotify = None \<and> sw_faults w CRemoveRoute = None \<and>
     (\<forall>i. sw_faults w (CRestoreDns i) = None)"

text \<open>Name servers that were leased are fixed afterwards.\<close>

lemma lease_becomes_fixed:
  "ho_fixed h0 al = None \<Longrightarrow> lease al \<noteq> [] \<Longrightarrow> snd (dns_Restore (\<lambda>_. None) (prior_of lease h0 al) f) al = Some (lease al)"
  by (simp add: dns_Restore_def dns_Set_ok prior_of_def resolvers_def)

lemma restored_resolvers:
  assumes "sound_host h0" "\<forall>b. b \<noteq> al \<longrightarrow> f b = ho_fixed h0 b"
  shows "resolvers lease (snd (dns_Restore (\<lambda>_. None) (prior_of lease h0 al) f)) = resolvers lease (ho_fixed h0)"
proof
  fix b
  show "resolvers lease (snd (dns_Restore (\<lambda>_. None) (prior_of lease h0 al) f)) b = resolvers lease (ho_fixed h0) b"
    using assms by (cases "b = al") (auto simp: dns_Restore_def dns_Set_ok prior_of_def resolvers_def sound_host_def split: option.splits)
qed

lemma removed_rule:
  assumes "\<forall>m. m \<noteq> name \<longrightarrow> reg m = reg0 m" "reg0 name = None" "name \<noteq> []"
  shows "RemoveNrptRule None None name reg = (None, reg0)"
  using assms by (auto simp: RemoveNrptRule_def)

lemma Child_Stop_removes: "snd (Child_Stop ev q r) = removeAll q r"
  by (cases ev) (auto simp: Child_Stop_def removeAll_id)

lemma rollback_cores:
  assumes "cores_kept h0 p" "sound_host h0"
  shows "ho_running (Win_rollback w p) = ho_running h0"
proof -
  have "q \<notin> set (ho_running h0)" if "ho_pids h0 \<le> q" for q
    using assms(2) that by (auto simp: sound_host_def list_all_iff)
  then show ?thesis
    using assms(1) by (cases "ws_singbox (pg_sess p)"; cases "ws_xray (pg_sess p)")
      (auto simp: Win_rollback_def Let_def cores_kept_def core_list_def stop_if_def Child_Stop_removes removeAll_id)
qed

lemma rollback_restores:
  assumes "undoable lease dh rh al name h0 p" "undo_works w" "sound_host h0" "ho_nrpt h0 name = None" "name \<noteq> []"
  shows "same_network lease dh rh al name h0 (Win_rollback w p)"
proof -
  have k: "routes_kept h0 p" "dns_kept lease dh al h0 p" "nrpt_kept rh name h0 p" "cores_kept h0 p" using assms(1) by (simp_all add: undoable_def)
  have u: "sw_faults w CNrptDelete = None" "sw_faults w CNrptNotify = None" "sw_faults w CRemoveRoute = None"
    "(\<lambda>i. sw_faults w (CRestoreDns i)) = (\<lambda>_. None)" using assms(2) by (auto simp: undo_works_def)
  have "ho_routes (Win_rollback w p) = ho_routes h0"
    using k(1) route_Remove_added by (auto simp: Win_rollback_def Let_def u(3) routes_kept_def split: if_splits)
  moreover have "ho_nrpt (Win_rollback w p) m = ho_nrpt h0 m" if "m \<noteq> name \<or> \<not> rh" for m
    using k(3) removed_rule [of name "ho_nrpt (pg_host p)" "ho_nrpt h0"] assms(4,5) that
    by (auto simp: Win_rollback_def Let_def u(1,2) nrpt_kept_def split: if_splits)
  moreover have "resolvers lease (ho_fixed (Win_rollback w p)) b = resolvers lease (ho_fixed h0) b" if "b \<noteq> al \<or> \<not> dh" for b
  proof (cases "pg_dns p")
    case True
    then show ?thesis
      using k(2) restored_resolvers [OF assms(3), of al "ho_fixed (pg_host p)" lease]
      by (simp add: Win_rollback_def Let_def u(4) dns_kept_def)
  next
    case False
    then have "ho_fixed (Win_rollback w p) b = ho_fixed h0 b" using k(2) that by (auto simp: Win_rollback_def Let_def dns_kept_def)
    then show ?thesis by (simp add: resolvers_def)
  qed
  ultimately show ?thesis using rollback_cores [OF k(4) assms(3)] by (simp add: same_network_def)
qed

lemma start_locked_undoable:
  assumes "shows_servers lease w a (wh_host h)" "run_stages (start_stages w a tun) (begin_start w a ((wh_host h) \<lparr> ho_files := fs \<rparr>)) = (r, p)"
  shows "undoable lease (dns_cut w) (rule_cut w) (sa_DnsAlias a) (rule_name w) (wh_host h) p"
    "r = None \<Longrightarrow> both_up p \<and> undoable lease False (rule_cut w) (sa_DnsAlias a) (rule_name w) (wh_host h) p"
proof -
  let ?b = "begin_start w a ((wh_host h) \<lparr> ho_files := fs \<rparr>)"
  have u: "undoable lease False (rule_cut w) (sa_DnsAlias a) (rule_name w) (wh_host h) ?b" by (rule undoable_begin) simp
  have b: "before_peer ?b" by (simp add: before_peer_def begin_start_def new_session_def)
  have "stage_ok (undoable lease (dns_cut w) (rule_cut w) (sa_DnsAlias a) (rule_name w) (wh_host h))
      (\<lambda>p. undoable lease False (rule_cut w) (sa_DnsAlias a) (rule_name w) (wh_host h) p \<and> before_peer p) (run_stages (start_stages w a tun))
      (\<lambda>p. undoable lease False (rule_cut w) (sa_DnsAlias a) (rule_name w) (wh_host h) p \<and> both_up p)"
    by (rule start_stages_undoable [OF assms(1) refl refl]) simp_all
  note run = this [unfolded stage_ok_def, rule_format, OF conjI [OF u b], unfolded assms(2)]
  show "undoable lease (dns_cut w) (rule_cut w) (sa_DnsAlias a) (rule_name w) (wh_host h) p" using run by (cases r) simp_all
  show "r = None \<Longrightarrow> both_up p \<and> undoable lease False (rule_cut w) (sa_DnsAlias a) (rule_name w) (wh_host h) p" using run by simp
qed

text \<open>
  C4. A start that fails leaves no trace in the network. If the start of a chain fails, at whatever call, and the calls that
  undo it work, then the routes and the running processes are those from before, the name servers in use are those
  from before on every interface, except on the chosen one if a call of \<^verbatim>\<open>dns.Set\<close> after its first one fails, and the name resolution
  rules are those from before, except the rule of this session if a call for it fails after its key was made. The machine
  is one on which the rows of the route table are as the system writes them, process numbers are not reused and no fixed
  list of name servers is empty; netsh shows the name servers in use, and no rule has the name of the session's.
\<close>

theorem failed_start_restores:
  assumes "Win_start_locked w a h = (Inl e, h')"
    and "sound_host (wh_host h)" "shows_servers lease w a (wh_host h)" "undo_works w" "ho_nrpt (wh_host h) (rule_name w) = None"
  shows "ho_routes (wh_host h') = ho_routes (wh_host h) \<and> ho_running (wh_host h') = ho_running (wh_host h) \<and>
    (\<forall>b. b \<noteq> sa_DnsAlias a \<or> (\<forall>i. sw_faults w (CDns (Suc i)) = None) \<longrightarrow>
       resolvers lease (ho_fixed (wh_host h')) b = resolvers lease (ho_fixed (wh_host h)) b) \<and>
    (\<forall>m. m \<noteq> rule_name w \<or> sw_faults w (CNrpt 0) \<noteq> None \<or> (\<forall>i. sw_faults w (CNrpt (Suc i)) = None) \<longrightarrow>
       ho_nrpt (wh_host h') m = ho_nrpt (wh_host h) m) \<and>
    wh_active h' = wh_active h \<and> wh_heap h' = wh_heap h"
proof -
  have n: "rule_name w \<noteq> []" by (simp add: rule_name_def)
  consider "\<exists>fs. h' = h \<lparr> wh_host := (wh_host h) \<lparr> ho_files := fs \<rparr> \<rparr>"
    | fs p where "run_stages (start_stages w a (sa_Mode a \<noteq> ''sysproxy'')) (begin_start w a ((wh_host h) \<lparr> ho_files := fs \<rparr>)) = (Some e, p)"
        "h' = h \<lparr> wh_host := Win_rollback w p \<rparr>"
  proof (cases "wh_active h")
    case (Some s)
    then have "h' = h \<lparr> wh_host := (wh_host h) \<lparr> ho_files := ho_files (wh_host h) \<rparr> \<rparr>" using assms(1) by (simp add: Win_start_locked_def)
    then show ?thesis using that(1) by blast
  next
    case None
    obtain c fs where c: "EnsureClean (map_option (\<lambda>e. (e, sw_gone w)) (sw_faults w CClean)) (ho_files (wh_host h)) = (c, fs)" by fastforce
    then show ?thesis
      using assms(1) None that by (cases c) (auto simp: Win_start_locked_def split: prod.splits option.splits)
  qed
  then have "same_network lease (dns_cut w) (rule_cut w) (sa_DnsAlias a) (rule_name w) (wh_host h) (wh_host h') \<and>
      wh_active h' = wh_active h \<and> wh_heap h' = wh_heap h"
  proof cases
    case (2 fs p)
    then show ?thesis
      using rollback_restores [OF start_locked_undoable(1) [OF assms(3) 2(1)] assms(4,2,5) n] by simp
  qed (auto simp: same_network_def)
  note same = this
  have c: "\<not> dns_cut w \<longleftrightarrow> (\<forall>i. sw_faults w (CDns (Suc i)) = None)"
    "\<not> rule_cut w \<longleftrightarrow> sw_faults w (CNrpt 0) \<noteq> None \<or> (\<forall>i. sw_faults w (CNrpt (Suc i)) = None)"
    by (simp_all add: dns_cut_def rule_cut_def)
  show ?thesis using same unfolding same_network_def c by (elim conjE, intro conjI) assumption+
qed

text \<open>A machine with a default route and leased name servers, and a start on it.\<close>

definition sample_host :: Host where
  "sample_host =
     \<lparr> ho_routes = [\<lparr> en_DestCIDR = ''0.0.0.0/0'', en_NextHop = ''10.0.0.1'', en_InterfaceLUID = 7, en_Metric = 25 \<rparr>],
       ho_fixed = Map.empty, ho_nrpt = Map.empty, ho_running = [], ho_pids = 1, ho_files = Map.empty, ho_undo = NoUndo \<rparr>"

definition sample_helper :: WinHelper where
  "sample_helper = \<lparr> wh_host = sample_host, wh_heap = [], wh_active = None, wh_watch = [] \<rparr>"

definition sample_start :: StartChainArgs where
  "sample_start = zero_StartChainArgs \<lparr> sa_Mode := ''tun'', sa_TunName := ''itg'', sa_ServerHost := ''v.example'', sa_DnsAlias := ''Wi-Fi'', sa_DnsServers := [''1.1.1.1''] \<rparr>"

definition sample_world :: "faults \<Rightarrow> start_world" where
  "sample_world f =
     \<lparr> sw_faults = f, sw_gone = [], sw_id = ''s1'', sw_decode = [], sw_lookup = (\<lambda>_. Inr [Some ''203.0.113.7'']), sw_show = Inr ''10.0.0.1'',
       sw_find = (\<lambda>l. [l]), sw_before = [], sw_polls = [PollSaw [\<lparr> ad_LUID = 9, ad_FriendlyName = ''itg'', ad_Description = [] \<rparr>]],
       sw_sanitize = (\<lambda>k r. r), sw_stop = GraceExpires \<rparr>"

definition no_xray :: faults where
  "no_xray c = (if c = CSpawn ''xray'' then Some ''denied'' else None)"

definition sample_lease :: "string \<Rightarrow> string list" where "sample_lease al = [''10.0.0.1'']"

lemma sample_sound: "sound_host (wh_host sample_helper)"
proof -
  have "list_all plain_row (ho_routes sample_host)" by code_simp
  then show ?thesis by (simp add: sound_host_def sample_helper_def sample_host_def)
qed

lemma sample_parse: "parseDNSAddresses (\<lambda>l. [l]) ''10.0.0.1'' = [''10.0.0.1'']"
proof -
  have "split_on (CHR 0x0A) ''10.0.0.1'' = [''10.0.0.1'']" "looksLikeValidIP ''10.0.0.1''" by code_simp+
  then show ?thesis by (simp add: parseDNSAddresses_def scan_limit_def)
qed

lemma sample_shows: "shows_servers sample_lease (sample_world f) sample_start (wh_host sample_helper)"
  by (simp add: shows_servers_def sample_world_def sample_lease_def sample_helper_def sample_host_def resolvers_def sample_parse)

lemma sample_peer: "entryToRow (peer_entry ''203.0.113.7'' (hd (ho_routes sample_host))) = Some (peer_entry ''203.0.113.7'' (hd (ho_routes sample_host)))"
  by code_simp

lemmas sample_run = Win_start_locked_def EnsureClean_def start_stages_def begin_start_def new_session_def stage_write_def stage_snapshot_def
  route_Snapshot_def stage_peer_def gateway_Default_def Win_resolveServerIPv4_def Win_first_v4_def stage_dns_def dns_Snapshot_def dns_Set_def runNetsh_def
  fail_as_def stage_spawn_def RotateLog_def renameIfExists_def Win_spawn_def singbox_up_def stage_discover_def adapter_Diff_def
  sample_world_def sample_start_def sample_helper_def zero_StartChainArgs_def sample_parse

lemma sample_rule: "ho_nrpt (wh_host sample_helper) (rule_name (sample_world f)) = None"
  by (simp add: sample_helper_def sample_host_def)

theorem failed_start_restores_witness:
  "fst (Win_start_locked (sample_world no_xray) sample_start sample_helper) = Inl ''spawn xray: denied'' \<and>
   (let h' = snd (Win_start_locked (sample_world no_xray) sample_start sample_helper) in
    ho_routes (wh_host h') = ho_routes sample_host \<and> ho_running (wh_host h') = [] \<and>
    resolvers sample_lease (ho_fixed (wh_host h')) ''Wi-Fi'' = [''10.0.0.1''] \<and> ho_nrpt (wh_host h') ''ITGRay-s1'' = None)"
proof -
  obtain r h' where x: "Win_start_locked (sample_world no_xray) sample_start sample_helper = (r, h')" by fastforce
  have e: "fst (Win_start_locked (sample_world no_xray) sample_start sample_helper) = Inl ''spawn xray: denied''"
    using sample_peer by (simp add: sample_run sample_host_def no_xray_def route_Add_def Let_def same_row_def peer_entry_def)
  have u: "undo_works (sample_world no_xray)" by (simp add: undo_works_def sample_world_def no_xray_def)
  have f: "sw_faults (sample_world no_xray) (CDns i) = None" "sw_faults (sample_world no_xray) (CNrpt i) = None" for i
    by (simp_all add: sample_world_def no_xray_def)
  have "Win_start_locked (sample_world no_xray) sample_start sample_helper = (Inl ''spawn xray: denied'', h')" using x e by simp
  from failed_start_restores [OF this sample_sound sample_shows u sample_rule] e x f show ?thesis
    by (simp add: Let_def) (simp add: sample_helper_def sample_host_def resolvers_def sample_lease_def)
qed

text \<open>
  Why the two exceptions: a rule whose values could not be written, and a list of name servers that was cut
  short, are on the machine but not in the session.
\<close>

lemma half_rule_forgotten:
  assumes "sw_faults w (CNrpt 0) = None" "sw_faults w (CNrpt 1) = Some e" "ws_nrptName (pg_sess p) = []"
  shows "ws_nrptName (pg_sess (snd (stage_nrpt w p))) = [] \<and> pg_nrpt (snd (stage_nrpt w p)) = pg_nrpt p \<and>
     ho_nrpt (pg_host (snd (stage_nrpt w p))) (''ITGRay-'' @ ws_id (pg_sess p)) \<noteq> None"
  using assms by (simp add: stage_nrpt_def AddNrptRule_def Let_def)

lemma half_dns_forgotten:
  assumes "sa_DnsAlias a \<noteq> []" "sa_DnsServers a = x # y # ys" "sw_show w = Inr shown" "sw_faults w (CDns 0) = None" "sw_faults w (CDns 1) = Some e"
  shows "\<exists>m p'. stage_dns w a p = (Some m, p') \<and> pg_dns p' = pg_dns p \<and> ws_dnsPrior (pg_sess p') = ws_dnsPrior (pg_sess p) \<and>
     ho_fixed (pg_host p') (sa_DnsAlias a) = Some [x]"
  using assms by (simp add: stage_dns_def dns_Snapshot_def dns_Set_def runNetsh_def netsh_effect_def)

section \<open>Stopping, as often as it takes\<close>

lemma append_sep_inj:
  assumes "a @ c # x = b @ c # y" "c \<notin> set a" "c \<notin> set b"
  shows "a = b \<and> x = y"
  using assms
proof (induction a arbitrary: b)
  case Nil
  then show ?case by (cases b) auto
next
  case (Cons d a)
  then show ?case by (cases b) auto
qed

lemma route_key_inj:
  assumes "plain_row a" "plain_row b" "route_key a = route_key b"
  shows "same_row a b"
proof -
  let ?n = "\<lambda>e. nat_str (unat (en_InterfaceLUID e))"
  have "en_DestCIDR a = en_DestCIDR b \<and> en_NextHop a @ ''|'' @ ?n a = en_NextHop b @ ''|'' @ ?n b"
    using assms append_sep_inj [of "en_DestCIDR a" "CHR ''|''" _ "en_DestCIDR b"] by (simp add: route_key_def plain_row_def)
  moreover from this have "en_NextHop a = en_NextHop b \<and> ?n a = ?n b"
    using assms append_sep_inj [of "en_NextHop a" "CHR ''|''" "?n a" "en_NextHop b" "?n b"] by (simp add: plain_row_def)
  ultimately show ?thesis by (simp add: same_row_def nat_str_inject word_unat_eq_iff)
qed

lemma add_servers_None:
  "fst (add_servers faults al i ys f) = None \<Longrightarrow> add_servers faults al i ys f = add_servers (\<lambda>_. None) al i ys f"
  by (induction faults al i ys f rule: add_servers.induct) (auto simp: runNetsh_def split: option.splits)

lemma dns_Set_None:
  assumes "dns_Set faults s f = (None, f')"
  shows "f' = snd (dns_Set (\<lambda>_. None) s f)"
proof (cases "ds_Addresses s")
  case Nil
  then show ?thesis using assms by (auto simp: dns_Set_def runNetsh_def split: option.splits)
next
  case (Cons a ys)
  then have z: "faults 0 = None" using assms by (auto simp: dns_Set_def runNetsh_def split: option.splits)
  then have "add_servers faults (ds_InterfaceAlias s) 1 ys (netsh_effect (SetStatic (ds_InterfaceAlias s) a) f) = (None, f')"
    using assms Cons by (simp add: dns_Set_def runNetsh_def)
  then show ?thesis using add_servers_None [of faults "ds_InterfaceAlias s" 1 ys] Cons by (simp add: dns_Set_def runNetsh_def)
qed

text \<open>Rows that are added by \<open>add_routes\<close>.\<close>

lemma add_routes_rows:
  assumes "add_routes faults es t = (errs, t')" "list_all plain_row es"
  shows "set t \<subseteq> set t' \<and> set t' \<subseteq> set t \<union> set es \<and> (errs = [] \<longrightarrow> list_all (\<lambda>e. list_ex (same_row e) t') es)"
  using assms
proof (induction es arbitrary: t errs)
  case (Cons e es)
  obtain r t1 where r: "route_Add (faults (CAddRoute (route_key e))) e t = (r, t1)" by fastforce
  obtain errs2 where a: "add_routes faults es t1 = (errs2, t')"
    and errs: "errs = (case r of None \<Rightarrow> [] | Some AlreadyExists \<Rightarrow> [] | Some x \<Rightarrow> [''route.Add: '' @ route_text ''CreateIpForwardEntry2'' e x]) @ errs2"
    using Cons.prems(1) by (auto simp: r split: prod.splits)
  note ih = Cons.IH [OF a]
  have e: "entryToRow e = Some e" "list_all plain_row es" using Cons.prems(2) plain_row_def [of e] by simp_all
  have t1: "set t \<subseteq> set t1" "set t1 \<subseteq> set t \<union> {e}" "r = None \<or> r = Some AlreadyExists \<Longrightarrow> list_ex (same_row e) t1"
    using r e(1) by (auto simp: route_Add_def list_ex_iff split: option.splits if_splits)
  have "list_ex (same_row e) t'" if "errs = []"
  proof -
    have "r = None \<or> r = Some AlreadyExists" using that errs by (auto split: option.splits route_error.splits)
    then show ?thesis using t1(3) ih e(2) by (auto simp: list_ex_iff)
  qed
  then show ?case using t1(1,2) ih e(2) errs by auto
qed simp

lemma add_routes_clean: "add_routes (\<lambda>_. None) es t = (errs, t') \<Longrightarrow> list_all plain_row es \<Longrightarrow> errs = []"
proof (induction es arbitrary: t errs)
  case (Cons e es)
  have "fst (route_Add None e t) \<in> {None, Some AlreadyExists}" using Cons.prems(2) by (auto simp: plain_row_def route_Add_def)
  then show ?case using Cons by (auto split: prod.splits)
qed simp

lemma missing_rows:
  assumes "set (iter (remdups (map route_key want))) = set (map route_key want)"
  shows "set (missing iter want cur) \<subseteq> set want"
    "e \<in> set want \<Longrightarrow> (\<exists>r \<in> set cur. route_key r = route_key e) \<or> (\<exists>m \<in> set (missing iter want cur). route_key m = route_key e)"
proof -
  have idx: "indexRouteEntries es k = Some e \<Longrightarrow> e \<in> set es \<and> route_key e = k" for es k e
    by (auto simp: indexRouteEntries_def dest: map_of_SomeD)
  have dom: "indexRouteEntries es k = None \<longleftrightarrow> k \<notin> route_key ` set es" for es k
    by (auto simp: indexRouteEntries_def map_of_eq_None_iff image_image)
  show "set (missing iter want cur) \<subseteq> set want"
    using assms idx dom by (fastforce simp: missing_def)
  show "(\<exists>r \<in> set cur. route_key r = route_key e) \<or> (\<exists>m \<in> set (missing iter want cur). route_key m = route_key e)" if e: "e \<in> set want"
  proof (cases "route_key e \<in> route_key ` set cur")
    case False
    obtain m where m: "indexRouteEntries want (route_key e) = Some m" using dom [of want "route_key e"] e by fastforce
    then have "m \<in> set (missing iter want cur)"
      unfolding missing_def using e assms dom [of cur "route_key e"] False
      by (auto intro!: image_eqI [of _ _ "route_key e"])
    then show ?thesis using idx [OF m] by blast
  qed auto
qed

lemma add_missing:
  assumes "list_all plain_row want" "list_all plain_row cur" "\<And>ks. set (iter ks) = set ks"
    and "add_routes faults (missing iter want cur) cur = (errs, t)"
  shows "list_all plain_row t" "list_all plain_row (missing iter want cur)" "set cur \<subseteq> set t"
    "x \<in> set t \<Longrightarrow> x \<in> set cur \<or> x \<in> set want" "errs = [] \<Longrightarrow> list_all (\<lambda>e. list_ex (same_row e) t) want"
proof -
  let ?es = "missing iter want cur"
  have m: "set ?es \<subseteq> set want" "\<And>e. e \<in> set want \<Longrightarrow>
      (\<exists>r \<in> set cur. route_key r = route_key e) \<or> (\<exists>x \<in> set ?es. route_key x = route_key e)"
    using missing_rows [where iter = iter and want = want and cur = cur] assms(3) by auto
  show es: "list_all plain_row ?es" using m(1) assms(1) by (auto simp: list_all_iff)
  note rows = add_routes_rows [OF assms(4) es]
  show "list_all plain_row t" using rows assms(2) es by (auto simp: list_all_iff)
  show "set cur \<subseteq> set t" "x \<in> set t \<Longrightarrow> x \<in> set cur \<or> x \<in> set want" using rows m(1) by blast+
  show "list_all (\<lambda>e. list_ex (same_row e) t) want" if ok: "errs = []"
    unfolding list_all_iff
  proof
    fix e assume e: "e \<in> set want"
    from m(2) [OF e] show "list_ex (same_row e) t"
    proof
      assume "\<exists>r \<in> set cur. route_key r = route_key e"
      then obtain r where "r \<in> set cur" "same_row e r" using route_key_inj [of e] assms(1,2) e by (fastforce simp: list_all_iff)
      then show ?thesis using rows by (auto simp: list_ex_iff)
    next
      assume "\<exists>x \<in> set ?es. route_key x = route_key e"
      then obtain x where x: "x \<in> set ?es" "same_row e x" using route_key_inj [of e] assms(1) es e by (fastforce simp: list_all_iff)
      then have "list_ex (same_row x) t" using rows ok by (auto simp: list_all_iff)
      then obtain y where "y \<in> set t" "same_row x y" by (auto simp: list_ex_iff)
      then show ?thesis using same_row_trans [OF x(2)] by (auto simp: list_ex_iff)
    qed
  qed
qed

text \<open>
  What a session has still to undo on a machine that was \<open>h0\<close> before it, and on which there were the routes \<open>t0\<close> and the
  processes \<open>r0\<close> before the first attempt: each part is either remembered or already as it was. \<open>rh\<close> allows that the
  rule of the session was made and not remembered.
\<close>

definition dns_pending :: "(string \<Rightarrow> string list) \<Rightarrow> string \<Rightarrow> Host \<Rightarrow> win_session \<Rightarrow> Host \<Rightarrow> bool" where
  "dns_pending lease al h0 s h \<longleftrightarrow>
     (\<forall>b. b \<noteq> al \<longrightarrow> ho_fixed h b = ho_fixed h0 b) \<and>
     (case ws_dnsPrior s of
        Some pr \<Rightarrow> pr = prior_of lease h0 al | None \<Rightarrow> resolvers lease (ho_fixed h) = resolvers lease (ho_fixed h0))"

definition nrpt_pending :: "bool \<Rightarrow> string \<Rightarrow> Host \<Rightarrow> win_session \<Rightarrow> Host \<Rightarrow> bool" where
  "nrpt_pending rh name h0 s h \<longleftrightarrow>
     (\<forall>m. m \<noteq> name \<longrightarrow> ho_nrpt h m = ho_nrpt h0 m) \<and> (ws_nrptName s = name \<or> ws_nrptName s = [] \<and> (rh \<or> ho_nrpt h = ho_nrpt h0))"

definition peer_gone :: "RouteEntry \<Rightarrow> Host \<Rightarrow> bool" where
  "peer_gone peer h \<longleftrightarrow>
     en_DestCIDR peer = [] \<or> (case entryToRow peer of None \<Rightarrow> True | Some row \<Rightarrow> \<not> list_ex (same_row row) (ho_routes h))"

definition routes_there :: "Host \<Rightarrow> Host \<Rightarrow> bool" where
  "routes_there h0 h \<longleftrightarrow> list_all (\<lambda>e. list_ex (same_row e) (ho_routes h)) (ho_routes h0)"

definition is_peer :: "RouteEntry \<Rightarrow> RouteEntry \<Rightarrow> bool" where
  "is_peer peer x \<longleftrightarrow>
     en_DestCIDR peer \<noteq> [] \<and> (case entryToRow peer of None \<Rightarrow> False | Some row \<Rightarrow> same_row row x)"

text \<open>The routes are those of \<open>t0\<close> and some of \<open>h0\<close>; of the routes of \<open>t0\<close> only the one to the server can be gone.\<close>

definition routes_between :: "RouteEntry \<Rightarrow> Host \<Rightarrow> RouteEntry list \<Rightarrow> Host \<Rightarrow> bool" where
  "routes_between peer h0 t0 h \<longleftrightarrow>
     set (ho_routes h) \<subseteq> set t0 \<union> set (ho_routes h0) \<and> (\<forall>x \<in> set t0. is_peer peer x \<or> x \<in> set (ho_routes h))"

definition routes_pending :: "RouteEntry \<Rightarrow> Host \<Rightarrow> RouteEntry list \<Rightarrow> win_session \<Rightarrow> Host \<Rightarrow> bool" where
  "routes_pending peer h0 t0 s h \<longleftrightarrow>
     list_all plain_row (ho_routes h) \<and> (ws_peerRoute s = peer \<or> ws_peerRoute s = zero_RouteEntry \<and> peer_gone peer h) \<and>
     (ws_snapshot s = Some (ho_routes h0) \<or> ws_snapshot s = None \<and> routes_there h0 h) \<and> routes_between peer h0 t0 h"

definition cores_pending :: "Host \<Rightarrow> nat list \<Rightarrow> win_session \<Rightarrow> Host \<Rightarrow> bool" where
  "cores_pending h0 r0 s h \<longleftrightarrow>
     set (ho_running h) \<subseteq> set r0 \<inter> set (ho_running h0) \<union> set_option (ws_singbox s) \<union> set_option (ws_xray s) \<and>
     set r0 \<inter> set (ho_running h0) \<subseteq> set (ho_running h) \<and>
     (set_option (ws_singbox s) \<union> set_option (ws_xray s)) \<inter> set (ho_running h0) = {}"

text \<open>The route to the server is new on \<open>h0\<close>.\<close>

definition fresh_peer :: "RouteEntry \<Rightarrow> Host \<Rightarrow> bool" where
  "fresh_peer peer h0 \<longleftrightarrow> en_DestCIDR peer = [] \<or> (\<exists>row. entryToRow peer = Some row \<and> \<not> list_ex (same_row row) (ho_routes h0))"

definition fair_stop :: "stop_world \<Rightarrow> bool" where
  "fair_stop w \<longleftrightarrow> core_stopper (st_stop w) \<and> (\<forall>ks. set (st_iter w ks) = set ks)"

text \<open>An attempt in which no call fails.\<close>

definition clean_stop :: "stop_world \<Rightarrow> bool" where
  "clean_stop w \<longleftrightarrow> st_faults w = (\<lambda>_. None) \<and> (\<forall>pid r. fst (st_stop w pid r) = None)"

lemma clean_stopBoth: "clean_stop w \<Longrightarrow> stopBoth (st_stop w) x sb r = (xe, se, r') \<Longrightarrow> xe = None \<and> se = None"
  by (auto simp: clean_stop_def stopBoth_def stop_opt_def split: option.splits prod.splits) (metis fst_conv option.distinct(1))+

lemma stopBoth_others:
  assumes "core_stopper stop" "stopBoth stop x sb r = (xe, se, r')"
  shows "set r - set_option x - set_option sb \<subseteq> set r'"
proof -
  have "set q - set_option c \<subseteq> set (snd (stop_opt stop c q))" for c q
    using core_stopper.stop_others [OF assms(1)] by (auto simp: stop_opt_def split: option.splits)
  note o = this
  have "r' = snd (stop_opt stop sb (snd (stop_opt stop x r)))" using assms(2) by (auto simp: stopBoth_def split: prod.splits)
  then show ?thesis using o [of r x] o [of "snd (stop_opt stop x r)" sb] by blast
qed

lemma undo_cores_step:
  assumes "undo_cores w (s, h) = (errs, s', h')" "fair_stop w" "cores_pending h0 r0 s h"
  shows "cores_pending h0 r0 s' h' \<and> (clean_stop w \<longrightarrow> errs = []) \<and> (errs = [] \<longrightarrow> ws_singbox s' = None \<and> ws_xray s' = None) \<and>
      s' = s \<lparr> ws_xray := ws_xray s', ws_singbox := ws_singbox s' \<rparr> \<and> h' = h \<lparr> ho_running := ho_running h' \<rparr>"
proof -
  obtain xe se r where b: "stopBoth (st_stop w) (ws_xray s) (ws_singbox s) (ho_running h) = (xe, se, r)" by (metis prod_cases3)
  have s': "s' = s \<lparr> ws_xray := (if xe = None then None else ws_xray s), ws_singbox := (if se = None then None else ws_singbox s) \<rparr>"
    and h': "h' = h \<lparr> ho_running := r \<rparr>" and errs: "errs = err_line ''xray.Stop: '' xe @ err_line ''singbox.Stop: '' se"
    using assms(1) by (auto simp: undo_cores_def b)
  have "core_stopper (st_stop w)" using assms(2) by (simp add: fair_stop_def)
  note g = core_stopper.stopBoth_gone [OF this b] and k = stopBoth_others [OF this b]
  let ?o = "set_option (ws_xray s) \<union> set_option (ws_singbox s)"
  have "set r \<subseteq> set (ho_running h)" "set (ho_running h) - ?o \<subseteq> set r" using g(1) k by auto
  then have "cores_pending h0 r0 s' h'"
    using assms(3) g(2,3) unfolding cores_pending_def by (auto simp: s' h')
  moreover have "errs = [] \<longrightarrow> ws_singbox s' = None \<and> ws_xray s' = None" using errs by (auto simp: s' err_line_def split: option.splits)
  moreover have "clean_stop w \<longrightarrow> errs = []" using clean_stopBoth [OF _ b] by (auto simp: errs err_line_def)
  ultimately show ?thesis by (simp add: s' h')
qed

lemma undo_dns_step:
  assumes "undo_dns w (s, h) = (errs, s', h')" "sound_host h0" "dns_pending lease al h0 s h"
  shows "dns_pending lease al h0 s' h' \<and> (clean_stop w \<longrightarrow> errs = []) \<and> (errs = [] \<longrightarrow> ws_dnsPrior s' = None) \<and> s' = s \<lparr> ws_dnsPrior := ws_dnsPrior s' \<rparr> \<and>
      h' = h \<lparr> ho_fixed := ho_fixed h' \<rparr>"
proof (cases "ws_dnsPrior s")
  case (Some pr)
  obtain r f where d: "dns_Restore (\<lambda>i. st_faults w (CRestoreDns i)) pr (ho_fixed h) = (r, f)" by fastforce
  have pr: "pr = prior_of lease h0 al" and o: "\<forall>b. b \<noteq> al \<longrightarrow> ho_fixed h b = ho_fixed h0 b"
    using assms(3) Some by (simp_all add: dns_pending_def)
  have f: "\<forall>b. b \<noteq> al \<longrightarrow> f b = ho_fixed h0 b"
    using d o dns_Set_other [of _ pr "\<lambda>i. st_faults w (CRestoreDns i)" "ho_fixed h"] by (simp add: pr prior_of_def dns_Restore_def)
  have "resolvers lease f = resolvers lease (ho_fixed h0)" if "r = None"
    using d that dns_Set_None [of _ pr "ho_fixed h" f] restored_resolvers [OF assms(2) o, of lease] by (simp add: dns_Restore_def pr)
  moreover have "r = None" if "clean_stop w" using d that dns_Set_ok [of pr "ho_fixed h"] by (simp add: dns_Restore_def clean_stop_def)
  ultimately show ?thesis
    using assms(1) Some d f pr by (cases r) (auto simp: undo_dns_def dns_pending_def)
qed (use assms in \<open>auto simp: undo_dns_def\<close>)

lemma undo_nrpt_step:
  assumes "undo_nrpt w (s, h) = (errs, s', h')" "ho_nrpt h0 name = None" "nrpt_pending rh name h0 s h"
  shows "nrpt_pending rh name h0 s' h' \<and> (clean_stop w \<longrightarrow> errs = []) \<and> (errs = [] \<longrightarrow> ws_nrptName s' = []) \<and> s' = s \<lparr> ws_nrptName := ws_nrptName s' \<rparr> \<and>
      h' = h \<lparr> ho_nrpt := ho_nrpt h' \<rparr>"
proof (cases "ws_nrptName s = []")
  case False
  then have n: "ws_nrptName s = name" "name \<noteq> []" and o: "\<forall>m. m \<noteq> name \<longrightarrow> ho_nrpt h m = ho_nrpt h0 m"
    using assms(3) by (auto simp: nrpt_pending_def)
  obtain r reg where d: "RemoveNrptRule (st_faults w CNrptDelete) (st_faults w CNrptNotify) name (ho_nrpt h) = (r, reg)" by fastforce
  then have f: "\<forall>m. m \<noteq> name \<longrightarrow> reg m = ho_nrpt h0 m" "r = None \<Longrightarrow> reg = ho_nrpt h0"
    using o n(2) assms(2) by (auto simp: RemoveNrptRule_def split: option.splits)
  moreover have "r = None" if "clean_stop w" using d that n(2) by (simp add: RemoveNrptRule_def clean_stop_def)
  ultimately show ?thesis
    using assms(1) n d by (cases r) (auto simp: undo_nrpt_def nrpt_pending_def)
qed (use assms in \<open>auto simp: undo_nrpt_def\<close>)

lemma undo_peer_step:
  assumes "undo_peer w (s, h) = (errs, s', h')" "fresh_peer peer h0" "routes_pending peer h0 t0 s h"
  shows "routes_pending peer h0 t0 s' h' \<and> (clean_stop w \<longrightarrow> errs = []) \<and> (errs = [] \<longrightarrow> en_DestCIDR (ws_peerRoute s') = []) \<and>
      s' = s \<lparr> ws_peerRoute := ws_peerRoute s' \<rparr> \<and> h' = h \<lparr> ho_routes := ho_routes h' \<rparr>"
proof (cases "en_DestCIDR (ws_peerRoute s) = []")
  case False
  then have n: "ws_peerRoute s = peer" using assms(3) by (auto simp: routes_pending_def zero_RouteEntry_def)
  with False assms(2) obtain row where row: "entryToRow peer = Some row" "\<not> list_ex (same_row row) (ho_routes h0)"
    by (auto simp: fresh_peer_def)
  obtain r t where d: "route_Remove (st_faults w CRemoveRoute) peer (ho_routes h) = (r, t)" by fastforce
  have sub: "set t \<subseteq> set (ho_routes h)" using d route_Remove_sub by (metis snd_conv)
  have kept: "x \<in> set t" if "x \<in> set (ho_routes h)" "\<not> same_row row x" for x
    using d row(1) that by (auto simp: route_Remove_def split: option.splits if_splits)
  have gone: "peer_gone peer (h \<lparr> ho_routes := t \<rparr>)" if "r = None \<or> r = Some NotFound"
    using that d route_Remove_gone [of "st_faults w CRemoveRoute" peer "ho_routes h" row] row(1) by (auto simp: peer_gone_def)
  have "routes_there h0 (h \<lparr> ho_routes := t \<rparr>)" if there: "routes_there h0 h"
    unfolding routes_there_def list_all_iff
  proof
    fix e assume e: "e \<in> set (ho_routes h0)"
    with there obtain x where x: "x \<in> set (ho_routes h)" "same_row e x" by (auto simp: routes_there_def list_all_iff list_ex_iff)
    have "\<not> same_row row x" using row(2) e x(2) same_row_trans same_row_sym by (metis list_ex_iff)
    then show "list_ex (same_row e) (ho_routes (h \<lparr> ho_routes := t \<rparr>))" using kept x by (auto simp: list_ex_iff)
  qed
  moreover have "list_all plain_row t" using assms(3) sub by (auto simp: routes_pending_def list_all_iff)
  moreover have "routes_between peer h0 t0 (h \<lparr> ho_routes := t \<rparr>)"
  proof -
    have "is_peer peer x" if "same_row row x" for x using that row(1) False n by (simp add: is_peer_def)
    moreover have "routes_between peer h0 t0 h" using assms(3) by (simp add: routes_pending_def)
    ultimately show ?thesis using sub kept unfolding routes_between_def by (simp, blast)
  qed
  moreover have "r = None \<or> r = Some NotFound" if "clean_stop w"
    using d that row(1) by (auto simp: route_Remove_def clean_stop_def split: if_splits)
  ultimately show ?thesis
    using assms(1,3) n d False gone by (auto simp: undo_peer_def routes_pending_def zero_RouteEntry_def split: if_splits)
qed (use assms in \<open>auto simp: undo_peer_def\<close>)

lemma undo_routes_step:
  assumes "undo_routes w (s, h) = (errs, s', h')" "fresh_peer peer h0" "routes_pending peer h0 t0 s h" "sound_host h0" "fair_stop w"
  shows "routes_pending peer h0 t0 s' h' \<and> (clean_stop w \<longrightarrow> errs = []) \<and> (errs = [] \<longrightarrow> ws_snapshot s' = None) \<and>
      s' = s \<lparr> ws_snapshot := ws_snapshot s' \<rparr> \<and> h' = h \<lparr> ho_routes := ho_routes h' \<rparr>"
proof (cases "ws_snapshot s = None \<or> st_faults w CRoutes \<noteq> None")
  case True
  then show ?thesis using assms(1,3) by (auto simp: clean_stop_def undo_routes_def route_Snapshot_def split: option.splits)
next
  case False
  let ?cur = "ho_routes h"
  let ?es = "missing (st_iter w) (ho_routes h0) ?cur"
  have snap: "ws_snapshot s = Some (ho_routes h0)" using False assms(3) by (auto simp: routes_pending_def)
  obtain t where a: "add_routes (st_faults w) ?es ?cur = (errs, t)"
    and s': "s' = (if errs = [] then s \<lparr> ws_snapshot := None \<rparr> else s)" and h': "h' = h \<lparr> ho_routes := t \<rparr>"
    using assms(1) False snap by (auto simp: undo_routes_def route_Snapshot_def split: prod.splits)
  have plain: "list_all plain_row (ho_routes h0)" "list_all plain_row ?cur"
    using assms(3,4) by (simp_all add: sound_host_def routes_pending_def)
  have fair: "set (st_iter w ks) = set ks" for ks using assms(5) by (simp add: fair_stop_def)
  note am = add_missing [OF plain fair a]
  have "peer_gone peer h'" if gone: "peer_gone peer h"
  proof -
    obtain row where "en_DestCIDR peer = [] \<or>
        entryToRow peer = Some row \<and> \<not> list_ex (same_row row) (ho_routes h0) \<and> \<not> list_ex (same_row row) (ho_routes h)"
      using gone assms(2) by (cases "entryToRow peer") (auto simp: peer_gone_def fresh_peer_def)
    then show ?thesis using am(4) by (auto simp: peer_gone_def h' list_ex_iff) blast
  qed
  moreover have "routes_there h0 h'" if "errs = []" using am(5) [OF that] by (simp add: routes_there_def h')
  moreover have "errs = []" if "clean_stop w" using a am(2) that add_routes_clean by (simp add: clean_stop_def)
  moreover have "routes_between peer h0 t0 h'"
    using assms(3) am(3,4) by (fastforce simp: routes_pending_def routes_between_def h')
  ultimately show ?thesis using assms(3) snap am(1) by (auto simp: s' h' routes_pending_def)
qed

definition pending :: "(string \<Rightarrow> string list) \<Rightarrow> bool \<Rightarrow> string \<Rightarrow> string \<Rightarrow> RouteEntry \<Rightarrow> Host \<Rightarrow> RouteEntry list \<Rightarrow> nat list \<Rightarrow> win_session \<Rightarrow> Host \<Rightarrow> bool" where
  "pending lease rh al name peer h0 t0 r0 s h \<longleftrightarrow>
     cores_pending h0 r0 s h \<and> dns_pending lease al h0 s h \<and> nrpt_pending rh name h0 s h \<and> routes_pending peer h0 t0 s h"

definition cleared :: "win_session \<Rightarrow> bool" where
  "cleared s \<longleftrightarrow>
     ws_singbox s = None \<and> ws_xray s = None \<and> ws_dnsPrior s = None \<and> ws_nrptName s = [] \<and> en_DestCIDR (ws_peerRoute s) = [] \<and>
     ws_snapshot s = None"

lemma routes_pending_cong:
  "ws_peerRoute s' = ws_peerRoute s \<Longrightarrow> ws_snapshot s' = ws_snapshot s \<Longrightarrow> ho_routes h' = ho_routes h
    \<Longrightarrow> routes_pending peer h0 t0 s' h' = routes_pending peer h0 t0 s h"
  unfolding routes_pending_def peer_gone_def routes_there_def routes_between_def by (simp only:)

lemma teardown_step:
  assumes "teardown w (s, h) = (errs, s', h')" "pending lease rh al name peer h0 t0 r0 s h"
    and "fair_stop w" "sound_host h0" "ho_nrpt h0 name = None" "fresh_peer peer h0"
  shows "pending lease rh al name peer h0 t0 r0 s' h' \<and> (errs = [] \<longrightarrow> cleared s') \<and> (clean_stop w \<longrightarrow> errs = [])"
proof -
  obtain e1 s1 h1 where 1: "undo_cores w (s, h) = (e1, s1, h1)" by (metis prod_cases3)
  obtain e2 s2 h2 where 2: "undo_dns w (s1, h1) = (e2, s2, h2)" by (metis prod_cases3)
  obtain e3 s3 h3 where 3: "undo_nrpt w (s2, h2) = (e3, s3, h3)" by (metis prod_cases3)
  obtain e4 s4 h4 where 4: "undo_peer w (s3, h3) = (e4, s4, h4)" by (metis prod_cases3)
  obtain e5 s5 h5 where 5: "undo_routes w (s4, h4) = (e5, s5, h5)" by (metis prod_cases3)
  have c: "cores_pending h0 r0 s h" "dns_pending lease al h0 s h" "nrpt_pending rh name h0 s h" "routes_pending peer h0 t0 s h"
    using assms(2) by (simp_all add: pending_def)
  have fin: "s' = s5 \<lparr> ws_api := False \<rparr>" "h' = h5" "errs = [] \<Longrightarrow> e1 = [] \<and> e2 = [] \<and> e3 = [] \<and> e4 = [] \<and> e5 = []"
    "clean_stop w \<Longrightarrow> errs = e1 @ e2 @ e3 @ e4 @ e5"
    using assms(1) by (auto simp: teardown_def 1 2 3 4 5 undo_api_def clean_stop_def err_line_def)
  note d1 = undo_cores_step [OF 1 assms(3) c(1)]
  then obtain x y r where r1: "s1 = s \<lparr> ws_xray := x, ws_singbox := y \<rparr>" "h1 = h \<lparr> ho_running := r \<rparr>" by blast
  have "dns_pending lease al h0 s1 h1" using c(2) by (simp add: dns_pending_def r1 split: option.splits)
  note d2 = undo_dns_step [OF 2 assms(4) this]
  then obtain pr f where r2: "s2 = s1 \<lparr> ws_dnsPrior := pr \<rparr>" "h2 = h1 \<lparr> ho_fixed := f \<rparr>" by blast
  have "nrpt_pending rh name h0 s2 h2" using c(3) by (simp add: nrpt_pending_def r1 r2)
  note d3 = undo_nrpt_step [OF 3 assms(5) this]
  then obtain m reg where r3: "s3 = s2 \<lparr> ws_nrptName := m \<rparr>" "h3 = h2 \<lparr> ho_nrpt := reg \<rparr>" by blast
  have "routes_pending peer h0 t0 s3 h3" using c(4) by (subst routes_pending_cong [of s3 s h3 h]) (simp_all add: r1 r2 r3)
  note d4 = undo_peer_step [OF 4 assms(6) this]
  then obtain pe t where r4: "s4 = s3 \<lparr> ws_peerRoute := pe \<rparr>" "h4 = h3 \<lparr> ho_routes := t \<rparr>" by blast
  note d5 = undo_routes_step [OF 5 assms(6) conjunct1 [OF d4] assms(4,3)]
  then obtain sn u where r5: "s5 = s4 \<lparr> ws_snapshot := sn \<rparr>" "h5 = h4 \<lparr> ho_routes := u \<rparr>" by blast
  have "cores_pending h0 r0 s' h'" using conjunct1 [OF d1] by (simp add: cores_pending_def fin r2 r3 r4 r5)
  moreover have "dns_pending lease al h0 s' h'" using conjunct1 [OF d2] by (simp add: dns_pending_def fin r3 r4 r5 split: option.splits)
  moreover have "nrpt_pending rh name h0 s' h'" using conjunct1 [OF d3] by (simp add: nrpt_pending_def fin r4 r5)
  moreover have "routes_pending peer h0 t0 s' h'" using conjunct1 [OF d5] by (subst routes_pending_cong [of s' s5 h' h5]) (simp_all add: fin)
  moreover have "cleared s'" if "errs = []"
  proof -
    have "ws_singbox s1 = None \<and> ws_xray s1 = None" "ws_dnsPrior s2 = None" "ws_nrptName s3 = []" "en_DestCIDR (ws_peerRoute s4) = []" "ws_snapshot s5 = None"
      using fin(3) [OF that] d1 d2 d3 d4 d5 by blast+
    then show ?thesis by (simp add: cleared_def fin(1) r2 r3 r4 r5)
  qed
  moreover have "errs = []" if "clean_stop w"
  proof -
    have "e1 = []" "e2 = []" "e3 = []" "e4 = []" "e5 = []" using d1 d2 d3 d4 d5 that by blast+
    then show ?thesis using fin(4) [OF that] by simp
  qed
  ultimately show ?thesis by (simp add: pending_def)
qed

text \<open>
  Nothing is left to undo. Of the routes \<open>t0\<close> and the processes \<open>r0\<close> of the machine before the stop, the route to the server
  and the processes of the session are gone, and nothing else; the routes from before the start are there; and no other
  route or process has come up.
\<close>

definition restored :: "(string \<Rightarrow> string list) \<Rightarrow> bool \<Rightarrow> string \<Rightarrow> RouteEntry \<Rightarrow> Host \<Rightarrow> RouteEntry list \<Rightarrow> nat list \<Rightarrow> Host \<Rightarrow> bool" where
  "restored lease rh name peer h0 t0 r0 h \<longleftrightarrow>
     routes_there h0 h \<and> peer_gone peer h \<and> routes_between peer h0 t0 h \<and>
     resolvers lease (ho_fixed h) = resolvers lease (ho_fixed h0) \<and> (\<forall>m. m \<noteq> name \<or> \<not> rh \<longrightarrow> ho_nrpt h m = ho_nrpt h0 m) \<and>
     set (ho_running h) = set r0 \<inter> set (ho_running h0)"

lemma cleared_restored:
  assumes "pending lease rh al name peer h0 t0 r0 s h" "cleared s" "name \<noteq> []"
  shows "restored lease rh name peer h0 t0 r0 h"
proof -
  have "peer_gone peer h" using assms(1,2) by (auto simp: pending_def routes_pending_def cleared_def peer_gone_def)
  then show ?thesis
    using assms by (auto simp: pending_def cores_pending_def dns_pending_def nrpt_pending_def routes_pending_def cleared_def restored_def)
qed

text \<open>The active session, with what it has still to undo.\<close>

definition session_pending :: "(string \<Rightarrow> string list) \<Rightarrow> bool \<Rightarrow> string \<Rightarrow> string \<Rightarrow> RouteEntry \<Rightarrow> Host \<Rightarrow> RouteEntry list \<Rightarrow> nat list \<Rightarrow> WinHelper \<Rightarrow> bool" where
  "session_pending lease rh al name peer h0 t0 r0 h \<longleftrightarrow>
     (case wh_active h of
        None \<Rightarrow> restored lease rh name peer h0 t0 r0 (wh_host h)
      | Some i \<Rightarrow> i < length (wh_heap h) \<and> pending lease rh al name peer h0 t0 r0 (wh_heap h ! i) (wh_host h))"

lemma pending_host:
  "ho_routes h' = ho_routes h \<Longrightarrow> ho_fixed h' = ho_fixed h \<Longrightarrow> ho_nrpt h' = ho_nrpt h \<Longrightarrow> ho_running h' = ho_running h
    \<Longrightarrow> pending lease rh al name peer h0 t0 r0 s h' = pending lease rh al name peer h0 t0 r0 s h"
  unfolding pending_def cores_pending_def dns_pending_def nrpt_pending_def routes_pending_def peer_gone_def routes_there_def routes_between_def by (simp only:)

lemma pending_stopping:
  "pending lease rh al name peer h0 t0 r0 (s \<lparr> ws_stopping := b \<rparr>) h = pending lease rh al name peer h0 t0 r0 s h"
  by (simp add: pending_def cores_pending_def dns_pending_def nrpt_pending_def routes_pending_def)

lemma attempt_step:
  assumes "Win_StopActiveChain w h = (errs, h')" "session_pending lease rh al name peer h0 t0 r0 h"
    and "fair_stop w" "sound_host h0" "ho_nrpt h0 name = None" "fresh_peer peer h0" "name \<noteq> []"
  shows "session_pending lease rh al name peer h0 t0 r0 h' \<and> (clean_stop w \<longrightarrow> errs = [] \<and> wh_active h' = None)"
proof (cases "wh_active h")
  case (Some i)
  have i: "i < length (wh_heap h)" "pending lease rh al name peer h0 t0 r0 ((wh_heap h ! i) \<lparr> ws_stopping := True \<rparr>) (wh_host h)"
    using assms(2) Some by (simp_all add: session_pending_def pending_stopping)
  obtain es s host where t: "teardown w ((wh_heap h ! i) \<lparr> ws_stopping := True \<rparr>, wh_host h) = (es, s, host)" by (metis prod_cases3)
  note d = teardown_step [OF t i(2) assms(3-6)]
  have errs: "errs = (if es = [] then err_line ''undo.Clear: '' (st_faults w CUndo) else es)"
    and heap: "wh_heap h' ! i = s" "i < length (wh_heap h')" and active: "wh_active h' = (if errs = [] then None else Some i)"
    and host: "ho_routes (wh_host h') = ho_routes host" "ho_fixed (wh_host h') = ho_fixed host" "ho_nrpt (wh_host h') = ho_nrpt host"
      "ho_running (wh_host h') = ho_running host"
    using assms(1) Some i(1) by (auto simp: Win_StopActiveChain_def Win_stopActiveChainLocked_def t Let_def)
  have p: "pending lease rh al name peer h0 t0 r0 s (wh_host h')" using d pending_host [OF host] by simp
  have "restored lease rh name peer h0 t0 r0 (wh_host h')" if "errs = []"
  proof -
    have "es = []" using that errs by (simp split: if_splits)
    then show ?thesis using cleared_restored [OF p _ assms(7)] d by blast
  qed
  moreover have "errs = []" if "clean_stop w" using that d by (simp add: errs err_line_def clean_stop_def)
  ultimately show ?thesis using p heap by (auto simp: session_pending_def active)
qed (use assms in \<open>auto simp: Win_StopActiveChain_def\<close>)

lemma attempts_keep:
  assumes "list_all fair_stop ws" "session_pending lease rh al name peer h0 t0 r0 h"
    and "sound_host h0" "ho_nrpt h0 name = None" "fresh_peer peer h0" "name \<noteq> []"
  shows "session_pending lease rh al name peer h0 t0 r0 (fold (\<lambda>w h. snd (Win_StopActiveChain w h)) ws h)"
  using assms(1,2)
proof (induction ws arbitrary: h)
  case (Cons w ws)
  then have "session_pending lease rh al name peer h0 t0 r0 (snd (Win_StopActiveChain w h))"
    using attempt_step [OF prod.collapse [symmetric] Cons.prems(2) _ assms(3-6), of w] by simp
  then show ?case using Cons by simp
qed simp

text \<open>A session with an adapter of its own remembers the routes.\<close>

lemma keeps_snapshot:
  "ws_snapshot (pg_sess (snd (stage_write w kind n raw p))) = ws_snapshot (pg_sess p)"
  "ws_snapshot (pg_sess (snd (stage_peer w a p))) = ws_snapshot (pg_sess p)"
  "ws_snapshot (pg_sess (snd (stage_dns w a p))) = ws_snapshot (pg_sess p)"
  "ws_snapshot (pg_sess (snd (fail_as what e p))) = ws_snapshot (pg_sess p)"
  "ws_snapshot (pg_sess (snd (stage_discover w p))) = ws_snapshot (pg_sess p)"
  "ws_snapshot (pg_sess (snd (stage_nrpt w p))) = ws_snapshot (pg_sess p)"
  "ws_snapshot (pg_sess (snd (stage_undo w a p))) = ws_snapshot (pg_sess p)"
  by (simp_all add: stage_write_def stage_peer_def stage_dns_def fail_as_def stage_discover_def stage_nrpt_def stage_undo_def Let_def
    split: option.split sum.split prod.split)

lemma spawn_keeps_snapshot:
  assumes "\<And>pid p. ws_snapshot (pg_sess (up pid p)) = ws_snapshot (pg_sess p)"
  shows "ws_snapshot (pg_sess (snd (stage_spawn w n label up p))) = ws_snapshot (pg_sess p)"
  using stage_spawn_cases [of w n label up p] assms by (auto simp: spawned_def)

lemma run_keeps:
  assumes "\<And>f p. f \<in> set fs \<Longrightarrow> g (snd (f p)) = g p"
  shows "g (snd (run_stages fs p)) = g p"
  using assms
proof (induction fs arbitrary: p)
  case (Cons f fs)
  then have "g (snd (f p)) = g p" by simp
  moreover have "g (snd (run_stages fs q)) = g q" for q using Cons by simp
  ultimately show ?case by (cases "f p"; cases "fst (f p)") simp_all
qed simp

lemma run_stages_append: "run_stages (fs @ gs) p = (case run_stages fs p of (Some e, p') \<Rightarrow> (Some e, p') | (None, p') \<Rightarrow> run_stages gs p')"
  by (induction fs arbitrary: p) (auto split: prod.split option.split)

lemma keeps_routes:
  "ho_routes (pg_host (snd (stage_write w kind n raw p))) = ho_routes (pg_host p)"
  "ho_routes (pg_host (snd (stage_snapshot w p))) = ho_routes (pg_host p)"
  "ho_routes (pg_host (snd (stage_dns w a p))) = ho_routes (pg_host p)"
  "ho_routes (pg_host (snd (fail_as what e p))) = ho_routes (pg_host p)"
  "ho_routes (pg_host (snd (stage_discover w p))) = ho_routes (pg_host p)"
  "ho_routes (pg_host (snd (stage_nrpt w p))) = ho_routes (pg_host p)"
  "ho_routes (pg_host (snd (stage_undo w a p))) = ho_routes (pg_host p)"
  by (simp_all add: stage_write_def stage_snapshot_def stage_dns_def fail_as_def stage_discover_def stage_nrpt_def stage_undo_def Let_def
    split: option.split sum.split prod.split)

lemma spawn_keeps_routes:
  assumes "\<And>pid p. ho_routes (pg_host (up pid p)) = ho_routes (pg_host p)"
  shows "ho_routes (pg_host (snd (stage_spawn w n label up p))) = ho_routes (pg_host p)"
  using stage_spawn_cases [of w n label up p] assms by (auto simp: spawned_def)

lemma tun_snapshot:
  assumes "run_stages (start_stages w a True) p = (None, p')"
  shows "ws_snapshot (pg_sess p') = Some (ho_routes (pg_host p))"
proof -
  let ?rest = "drop 3 (start_stages w a True)" and ?first = "take 2 (start_stages w a True)"
  have st: "start_stages w a True = ?first @ stage_snapshot w # ?rest" by (simp add: start_stages_def)
  have first: "ho_routes (pg_host (snd (f q))) = ho_routes (pg_host q)" if "f \<in> set ?first" for f q
    using that by (auto simp: start_stages_def keeps_routes)
  have rest: "ws_snapshot (pg_sess (snd (f q))) = ws_snapshot (pg_sess q)" if "f \<in> set ?rest" for f q
    using that by (auto simp: start_stages_def keeps_snapshot singbox_up_def xray_up_def intro!: spawn_keeps_snapshot)
  obtain q where q: "run_stages ?first p = (None, q)" "run_stages (stage_snapshot w # ?rest) q = (None, p')"
    using assms by (subst (asm) st, simp only: run_stages_append) (auto split: prod.splits option.splits)
  then obtain q' where q': "stage_snapshot w q = (None, q')" "run_stages ?rest q' = (None, p')" by (auto split: prod.splits option.splits)
  have "ws_snapshot (pg_sess q') = Some (ho_routes (pg_host q))" using q'(1) by (auto simp: stage_snapshot_def route_Snapshot_def split: option.splits)
  moreover have "ho_routes (pg_host (snd (run_stages ?first p))) = ho_routes (pg_host p)" by (rule run_keeps) (rule first)
  moreover have "ws_snapshot (pg_sess (snd (run_stages ?rest q'))) = ws_snapshot (pg_sess q')" by (rule run_keeps) (rule rest)
  ultimately show ?thesis using q(1) q'(2) by simp
qed

lemma started_pending:
  assumes "undoable lease False rh al name h0 p" "both_up p" "peer = ws_peerRoute (pg_sess p)" "sound_host h0"
    and "list_all plain_row t" "set rs \<subseteq> set (ho_running (pg_host p))" "ws_snapshot (pg_sess p) = None \<Longrightarrow> t = ho_routes (pg_host p)"
  shows "pending lease rh al name peer h0 t rs (pg_sess p) ((pg_host p) \<lparr> ho_routes := t, ho_running := rs \<rparr>) \<and> fresh_peer peer h0"
proof -
  let ?h = "(pg_host p) \<lparr> ho_routes := t, ho_running := rs \<rparr>"
  have u: "routes_kept h0 p" "dns_kept lease False al h0 p" "nrpt_kept rh name h0 p" "cores_kept h0 p"
    "ws_snapshot (pg_sess p) \<in> {None, Some (ho_routes h0)}" using assms(1) by (simp_all add: undoable_def)
  let ?o = "set_option (ws_singbox (pg_sess p)) \<union> set_option (ws_xray (pg_sess p))"
  have "set (ho_running (pg_host p)) \<subseteq> set (ho_running h0) \<union> ?o" "\<forall>q \<in> ?o. ho_pids h0 \<le> q"
    using u(4) by (auto simp: cores_kept_def core_list_def split: option.splits)
  moreover have "\<forall>q \<in> set (ho_running h0). q < ho_pids h0" using assms(4) by (simp add: sound_host_def list_all_iff)
  ultimately have "cores_pending h0 rs (pg_sess p) ?h" using assms(6) by (fastforce simp: cores_pending_def)
  moreover have "dns_pending lease al h0 (pg_sess p) ?h" using u(2) by (simp add: dns_kept_def dns_pending_def split: if_splits)
  moreover have "nrpt_pending rh name h0 (pg_sess p) ?h" using u(3) by (auto simp: nrpt_kept_def nrpt_pending_def split: if_splits)
  moreover have "routes_there h0 ?h" if "ws_snapshot (pg_sess p) = None"
  proof -
    have "set (ho_routes h0) \<subseteq> set t" using u(1) assms(7) [OF that] by (auto simp: routes_kept_def split: if_splits)
    then show ?thesis unfolding routes_there_def list_all_iff list_ex_iff using same_row_refl by fastforce
  qed
  then have "routes_pending peer h0 t (pg_sess p) ?h" using u(5) assms(3,5) by (auto simp: routes_pending_def routes_between_def)
  moreover have "fresh_peer peer h0"
    using u(1) assms(2,3) by (auto simp: fresh_peer_def routes_kept_def both_up_def peer_known_def zero_RouteEntry_def split: if_splits)
  ultimately show ?thesis by (simp add: pending_def)
qed

text \<open>If no one else has changed the routes, those after the stop are those from before the start.\<close>

lemma routes_as_before:
  assumes "routes_kept h0 p" "both_up p" "routes_between (ws_peerRoute (pg_sess p)) h0 (ho_routes (pg_host p)) h"
    and "peer_gone (ws_peerRoute (pg_sess p)) h"
  shows "set (ho_routes h) = set (ho_routes h0)"
proof (cases "pg_peer p")
  case True
  then obtain row where r: "entryToRow (ws_peerRoute (pg_sess p)) = Some row" "\<not> list_ex (same_row row) (ho_routes h0)"
    "en_DestCIDR (ws_peerRoute (pg_sess p)) \<noteq> []" "ho_routes (pg_host p) = ho_routes h0 @ [row]"
    using assms(1) by (auto simp: routes_kept_def)
  have "\<not> is_peer (ws_peerRoute (pg_sess p)) x" if "x \<in> set (ho_routes h0)" for x using r(1,2) that by (auto simp: is_peer_def list_ex_iff)
  moreover have "row \<notin> set (ho_routes h)" using assms(4) r(1,3) same_row_refl by (auto simp: peer_gone_def list_ex_iff)
  ultimately show ?thesis using assms(3) unfolding routes_between_def r(4) by auto
next
  case False
  then have "ho_routes (pg_host p) = ho_routes h0" "ws_peerRoute (pg_sess p) = zero_RouteEntry"
    using assms(1,2) by (simp_all add: routes_kept_def both_up_def peer_known_def)
  then show ?thesis using assms(3) by (auto simp: routes_between_def is_peer_def zero_RouteEntry_def)
qed

lemma start_locked_Inr:
  assumes "Win_start_locked w a h = (Inr r, h')"
  obtains fs p where "run_stages (start_stages w a (sa_Mode a \<noteq> ''sysproxy'')) (begin_start w a ((wh_host h) \<lparr> ho_files := fs \<rparr>)) = (None, p)"
    "h' = h \<lparr> wh_host := pg_host p, wh_heap := wh_heap h @ [pg_sess p], wh_active := Some (length (wh_heap h)),
              wh_watch := wh_watch h @ [WStart (length (wh_heap h))] \<rparr>"
  using assms that by (auto simp: Win_start_locked_def split: option.splits prod.splits)

text \<open>The machine while the session is up: processes end, and, with an adapter, other programs and the system change the routes.\<close>

definition drift :: "RouteEntry list \<Rightarrow> nat list \<Rightarrow> WinHelper \<Rightarrow> WinHelper" where
  "drift t rs h = h \<lparr> wh_host := (wh_host h) \<lparr> ho_routes := t, ho_running := rs \<rparr> \<rparr>"

lemma started_session:
  assumes "Win_start_locked w a h = (Inr r, h1)" "shows_servers lease w a (wh_host h)" "sound_host (wh_host h)"
    and "list_all plain_row t" "set rs \<subseteq> set (ho_running (wh_host h1))" "sa_Mode a = ''sysproxy'' \<longrightarrow> t = ho_routes (wh_host h1)"
  obtains fs p where "run_stages (start_stages w a (sa_Mode a \<noteq> ''sysproxy'')) (begin_start w a ((wh_host h) \<lparr> ho_files := fs \<rparr>)) = (None, p)"
    "wh_host h1 = pg_host p" "wh_heap h1 = wh_heap h @ [pg_sess p]" "wh_active h1 = Some (length (wh_heap h))"
    "pending lease (rule_cut w) (sa_DnsAlias a) (rule_name w) (ws_peerRoute (pg_sess p)) (wh_host h) t rs (pg_sess p) (wh_host (drift t rs h1))"
    "fresh_peer (ws_peerRoute (pg_sess p)) (wh_host h)" "routes_kept (wh_host h) p" "both_up p"
proof -
  from assms(1) obtain fs p where
    p: "run_stages (start_stages w a (sa_Mode a \<noteq> ''sysproxy'')) (begin_start w a ((wh_host h) \<lparr> ho_files := fs \<rparr>)) = (None, p)"
    and h1: "h1 = h \<lparr> wh_host := pg_host p, wh_heap := wh_heap h @ [pg_sess p], wh_active := Some (length (wh_heap h)),
              wh_watch := wh_watch h @ [WStart (length (wh_heap h))] \<rparr>" by (rule start_locked_Inr)
  have u: "undoable lease False (rule_cut w) (sa_DnsAlias a) (rule_name w) (wh_host h) p" "both_up p"
    using start_locked_undoable(2) [OF assms(2) p] by simp_all
  have "t = ho_routes (pg_host p)" if "ws_snapshot (pg_sess p) = None"
  proof (cases "sa_Mode a = ''sysproxy''")
    case False
    with p have "run_stages (start_stages w a True) (begin_start w a ((wh_host h) \<lparr> ho_files := fs \<rparr>)) = (None, p)" by simp
    from tun_snapshot [OF this] that show ?thesis by simp
  qed (use assms(6) in \<open>simp add: h1\<close>)
  note pend = started_pending [OF u refl assms(3,4) _ this, of rs]
  have "routes_kept (wh_host h) p" using u(1) by (simp add: undoable_def)
  then show ?thesis using that [OF p] pend u(2) assms(5) by (simp add: h1 drift_def)
qed

text \<open>
  C3. A stop that fails can be repeated until the machine is as it was. Take a start that succeeded, on a machine on which
  the rows of the route table are as the system writes them, process numbers are not reused, no fixed list of name
  servers is empty, netsh shows the name servers in use and no rule has the name of the session's. Whatever became of the routes
  meanwhile (in TUN mode), whichever processes have ended, and after any number of attempts to stop whose calls fail in any way,
  an attempt in which no call fails reports no error and leaves no session. After it the name servers in use are those from before;
  so are the name resolution rules, except the rule of this session if at the start a call for it failed after its key was made; of the
  running processes those of the session are gone and no others; of the routes the one to the server is gone and no other, those from
  before the start are there, and there are no new ones. If no one else has changed the routes, they are those from before the start.
\<close>

theorem stop_retries_restore:
  assumes "Win_start_locked w a h = (Inr r, h1)"
    and "sound_host (wh_host h)" "shows_servers lease w a (wh_host h)" "ho_nrpt (wh_host h) (rule_name w) = None"
    and "list_all plain_row t" "set rs \<subseteq> set (ho_running (wh_host h1))" "sa_Mode a = ''sysproxy'' \<longrightarrow> t = ho_routes (wh_host h1)"
    and "list_all fair_stop ws" "fair_stop v" "clean_stop v"
    and "Win_StopActiveChain v (fold (\<lambda>x g. snd (Win_StopActiveChain x g)) ws (drift t rs h1)) = (errs, h2)"
  shows "errs = [] \<and> wh_active h2 = None \<and>
    restored lease (rule_cut w) (rule_name w) (ws_peerRoute (last (wh_heap h1))) (wh_host h) t rs (wh_host h2) \<and>
    (t = ho_routes (wh_host h1) \<longrightarrow> set (ho_routes (wh_host h2)) = set (ho_routes (wh_host h)))"
proof -
  have n: "rule_name w \<noteq> []" by (simp add: rule_name_def)
  obtain fs p where "run_stages (start_stages w a (sa_Mode a \<noteq> ''sysproxy'')) (begin_start w a ((wh_host h) \<lparr> ho_files := fs \<rparr>)) = (None, p)"
    and p: "wh_host h1 = pg_host p" "wh_heap h1 = wh_heap h @ [pg_sess p]" "wh_active h1 = Some (length (wh_heap h))"
      "pending lease (rule_cut w) (sa_DnsAlias a) (rule_name w) (ws_peerRoute (pg_sess p)) (wh_host h) t rs (pg_sess p) (wh_host (drift t rs h1))"
    and fresh: "fresh_peer (ws_peerRoute (pg_sess p)) (wh_host h)" and k: "routes_kept (wh_host h) p" "both_up p"
    by (rule started_session [OF assms(1,3,2,5,6,7)])
  have "session_pending lease (rule_cut w) (sa_DnsAlias a) (rule_name w) (ws_peerRoute (pg_sess p)) (wh_host h) t rs (drift t rs h1)"
    using p by (simp add: session_pending_def drift_def)
  from attempt_step [OF assms(11) attempts_keep [OF assms(8) this assms(2,4) fresh n] assms(9,2,4) fresh n]
  have r: "errs = []" "wh_active h2 = None"
    "restored lease (rule_cut w) (rule_name w) (ws_peerRoute (pg_sess p)) (wh_host h) t rs (wh_host h2)"
    using assms(10) by (auto simp: session_pending_def)
  have "set (ho_routes (wh_host h2)) = set (ho_routes (wh_host h))" if "t = ho_routes (wh_host h1)"
    using routes_as_before [OF k] r(3) that unfolding restored_def p(1) by blast
  then show ?thesis using r p(2) by simp
qed

text \<open>An attempt in which every call fails, and one in which none does.\<close>

definition failing_stop :: stop_world where
  "failing_stop = \<lparr> st_stop = (\<lambda>p r. (Some ''busy'', r)), st_faults = (\<lambda>c. Some ''failed''), st_iter = (\<lambda>ks. ks) \<rparr>"

definition sample_stop :: stop_world where
  "sample_stop = \<lparr> st_stop = Child_Stop GraceExpires, st_faults = (\<lambda>c. None), st_iter = rev \<rparr>"

lemma sample_fair: "fair_stop failing_stop" "fair_stop sample_stop" "clean_stop sample_stop"
proof -
  show "fair_stop failing_stop" by (simp add: fair_stop_def failing_stop_def core_stopper_def)
  show "fair_stop sample_stop" by (simp add: fair_stop_def sample_stop_def supervisor.core_stopper_axioms)
  show "clean_stop sample_stop" by (simp add: clean_stop_def sample_stop_def Child_Stop_gone)
qed

lemma sample_started:
  obtains r h1 where "Win_start_locked (sample_world (\<lambda>_. None)) sample_start sample_helper = (Inr r, h1)"
    "ho_running (wh_host h1) = [1, 2]" "ho_nrpt (wh_host h1) ''ITGRay-s1'' \<noteq> None"
proof -
  let ?x = "Win_start_locked (sample_world (\<lambda>_. None)) sample_start sample_helper"
  have "isl (fst ?x) = False \<and> ho_running (wh_host (snd ?x)) = [1, 2] \<and> ho_nrpt (wh_host (snd ?x)) ''ITGRay-s1'' \<noteq> None"
    using sample_peer
    by (simp add: sample_run sample_host_def route_Add_def Let_def same_row_def peer_entry_def xray_up_def stage_nrpt_def AddNrptRule_def stage_undo_def)
  then show ?thesis using that by (cases ?x; cases "fst ?x") auto
qed

theorem stop_retries_restore_witness:
  "\<exists>h1. snd (Win_start_locked (sample_world (\<lambda>_. None)) sample_start sample_helper) = h1 \<and>
     (let res = Win_StopActiveChain sample_stop (snd (Win_StopActiveChain failing_stop (drift [] [2] h1))) in
      fst res = [] \<and> wh_active (snd res) = None \<and> ho_running (wh_host (snd res)) = [] \<and>
      set (ho_routes (wh_host (snd res))) \<subseteq> set (ho_routes sample_host) \<and> routes_there sample_host (wh_host (snd res)) \<and>
      ho_nrpt (wh_host (snd res)) ''ITGRay-s1'' = None)"
proof -
  obtain r h1 where h1: "Win_start_locked (sample_world (\<lambda>_. None)) sample_start sample_helper = (Inr r, h1)"
    "ho_running (wh_host h1) = [1, 2]" by (rule sample_started)
  have m: "sa_Mode sample_start = ''tun''" by (simp add: sample_start_def)
  have c: "\<not> rule_cut (sample_world (\<lambda>_. None))" by (simp add: rule_cut_def sample_world_def)
  obtain errs h2 where e: "Win_StopActiveChain sample_stop (snd (Win_StopActiveChain failing_stop (drift [] [2] h1))) = (errs, h2)" by fastforce
  have "errs = [] \<and> wh_active h2 = None \<and>
      restored sample_lease (rule_cut (sample_world (\<lambda>_. None))) (rule_name (sample_world (\<lambda>_. None))) (ws_peerRoute (last (wh_heap h1)))
        (wh_host sample_helper) [] [2] (wh_host h2)"
    using stop_retries_restore [OF h1(1) sample_sound sample_shows sample_rule, of "[]" "[2]" "[failing_stop]" sample_stop] h1(2) m sample_fair e
    by simp
  then show ?thesis
    using h1(1) e c unfolding restored_def routes_between_def by (simp add: Let_def sample_helper_def sample_host_def)
qed

section \<open>Recovery\<close>

lemma started_journal:
  assumes "run_stages (start_stages w a tun) p = (None, p')"
  shows "ho_undo (pg_host p') = UndoFile \<lparr> jn_TunName = sa_TunName a,
      jn_Routes = (case ws_snapshot (pg_sess p') of None \<Rightarrow> [] | Some es \<Rightarrow> es), jn_DNSPrior = dnsPriorAsList (ws_dnsPrior (pg_sess p')) \<rparr>"
proof -
  obtain fs where fs: "start_stages w a tun = fs @ [stage_undo w a]" by (simp add: start_stages_def)
  obtain q where "stage_undo w a q = (None, p')" using assms by (auto simp: fs run_stages_append split: prod.splits option.splits)
  then show ?thesis by (auto simp: stage_undo_def undo_Save_def Let_def split: option.splits)
qed

lemma routes_there_mono: "routes_there h0 h \<Longrightarrow> set (ho_routes h) \<subseteq> set (ho_routes h') \<Longrightarrow> routes_there h0 h'"
  unfolding routes_there_def list_all_iff list_ex_iff by blast

lemma recover_pending:
  assumes "pending lease rh al name peer h0 t0 r0 s h" "sound_host h0" "\<And>ks. set (iter ks) = set ks" "h' = recoverFromUndo (\<lambda>_. None) iter h"
    and j: "ho_undo h = UndoFile \<lparr> jn_TunName = tun,
      jn_Routes = (case ws_snapshot s of None \<Rightarrow> [] | Some es \<Rightarrow> es), jn_DNSPrior = dnsPriorAsList (ws_dnsPrior s) \<rparr>"
  shows "routes_there h0 h' \<and> resolvers lease (ho_fixed h') = resolvers lease (ho_fixed h0) \<and>
     ho_undo h' = UndoFile zero_Journal \<and> ho_nrpt h' = ho_nrpt h \<and> set (ho_routes h) \<subseteq> set (ho_routes h')"
proof -
  have rt: "list_all plain_row (ho_routes h)" "ws_snapshot s = Some (ho_routes h0) \<or> ws_snapshot s = None \<and> routes_there h0 h"
    and dn: "dns_pending lease al h0 s h"
    using assms(1) by (simp_all add: pending_def routes_pending_def)
  let ?want = "case ws_snapshot s of None \<Rightarrow> [] | Some es \<Rightarrow> es"
  show ?thesis
  proof (cases "?want = [] \<and> dnsPriorAsList (ws_dnsPrior s) = [] \<and> tun = []")
    case True
    then have "h' = h" "ho_undo h = UndoFile zero_Journal" "ws_dnsPrior s = None"
      using assms(4) j by (simp_all add: recoverFromUndo_def undo_Load_def zero_Journal_def dnsPriorAsList_def split: option.splits)
    then show ?thesis using True rt(2) dn by (auto simp: dns_pending_def routes_there_def)
  next
    case False
    obtain errs t where a: "add_routes (\<lambda>_. None) (missing iter ?want (ho_routes h)) (ho_routes h) = (errs, t)" by fastforce
    define f where "f = restore_dns_list (\<lambda>_. None) (dnsPriorAsList (ws_dnsPrior s)) (ho_fixed h)"
    have h': "h' = h \<lparr> ho_routes := t, ho_fixed := f, ho_undo := UndoFile zero_Journal \<rparr>"
      using assms(4) [unfolded recoverFromUndo_def j undo_Load_def undo_file.case sum.case Journal.select_convs if_not_P [OF False]]
      by (simp add: a f_def undo_Clear_def undo_Save_def route_Snapshot_def Let_def)
    have "list_all plain_row ?want" using rt(2) assms(2) by (auto simp: sound_host_def)
    note am = add_missing [OF this rt(1) assms(3) a]
    have "routes_there h0 h'"
      using rt(2)
    proof
      assume "ws_snapshot s = Some (ho_routes h0)"
      then show ?thesis using am(5) add_routes_clean [OF a am(2)] by (simp add: routes_there_def h')
    qed (use am(3) routes_there_mono [of h0 h h'] in \<open>simp add: h'\<close>)
    moreover have "resolvers lease f = resolvers lease (ho_fixed h0)"
      using dn restored_resolvers [OF assms(2), of al "ho_fixed h" lease]
      by (auto simp: f_def dnsPriorAsList_def dns_pending_def split: option.splits)
    ultimately show ?thesis using am(3) by (simp add: h')
  qed
qed

text \<open>
  Recovery after a crash of the helper is incomplete. If the helper dies while a session is up, the recovery at its
  next start, in which no call fails, restores the routes and the name servers and empties the journal. But it
  keeps every name resolution rule and every route that it finds, so the rule that sends all lookups to
  1.1.1.1 and the route to the server stay.
\<close>

theorem recovery_keeps_rules:
  assumes "Win_start_locked w a h = (Inr r, h1)"
    and "sound_host (wh_host h)" "shows_servers lease w a (wh_host h)"
    and "list_all plain_row t" "set rs \<subseteq> set (ho_running (wh_host h1))" "sa_Mode a = ''sysproxy'' \<longrightarrow> t = ho_routes (wh_host h1)"
    and "\<forall>ks. set (iter ks) = set ks"
    and "h2 = recoverFromUndo (\<lambda>_. None) iter (wh_host (drift t rs h1))"
  shows "routes_there (wh_host h) h2 \<and> resolvers lease (ho_fixed h2) = resolvers lease (ho_fixed (wh_host h)) \<and>
     ho_undo h2 = UndoFile zero_Journal \<and> ho_nrpt h2 = ho_nrpt (wh_host h1) \<and> set t \<subseteq> set (ho_routes h2)"
proof -
  obtain fs p where run: "run_stages (start_stages w a (sa_Mode a \<noteq> ''sysproxy'')) (begin_start w a ((wh_host h) \<lparr> ho_files := fs \<rparr>)) = (None, p)"
    and p: "wh_host h1 = pg_host p"
      "pending lease (rule_cut w) (sa_DnsAlias a) (rule_name w) (ws_peerRoute (pg_sess p)) (wh_host h) t rs (pg_sess p) (wh_host (drift t rs h1))"
    by (rule started_session [OF assms(1,3,2,4,5,6)])
  have "ho_undo (wh_host (drift t rs h1)) = ho_undo (pg_host p)" by (simp add: drift_def p(1))
  from recover_pending [OF p(2) assms(2) _ assms(8) this [unfolded started_journal [OF run]]] show ?thesis
    using assms(7) by (simp add: drift_def)
qed

theorem recovery_keeps_rules_witness:
  "\<exists>h1 h2. snd (Win_start_locked (sample_world (\<lambda>_. None)) sample_start sample_helper) = h1 \<and>
     recoverFromUndo (\<lambda>_. None) rev (wh_host (drift [] [] h1)) = h2 \<and>
     routes_there (wh_host sample_helper) h2 \<and> ho_undo h2 = UndoFile zero_Journal \<and> ho_nrpt h2 ''ITGRay-s1'' \<noteq> None"
proof -
  obtain r h1 where h1: "Win_start_locked (sample_world (\<lambda>_. None)) sample_start sample_helper = (Inr r, h1)"
    "ho_nrpt (wh_host h1) ''ITGRay-s1'' \<noteq> None" by (rule sample_started)
  have m: "sa_Mode sample_start = ''tun''" by (simp add: sample_start_def)
  show ?thesis
    using recovery_keeps_rules [OF h1(1) sample_sound sample_shows, of "[]" "[]" rev] h1 m by auto
qed

section \<open>Connecting after a crash\<close>

text \<open>In a start with an adapter, the routes change only when the route to the server is added.\<close>

lemma tun_routes:
  assumes "run_stages (start_stages w a True) p = (None, p')"
  obtains q q' where "stage_peer w a q = (None, q')" "ho_routes (pg_host q) = ho_routes (pg_host p)" "ho_routes (pg_host p') = ho_routes (pg_host q')"
proof -
  let ?first = "take 3 (start_stages w a True)" and ?rest = "drop 4 (start_stages w a True)"
  have st: "start_stages w a True = ?first @ stage_peer w a # ?rest" by (simp add: start_stages_def)
  have first: "ho_routes (pg_host (snd (f q))) = ho_routes (pg_host q)" if "f \<in> set ?first" for f q
    using that by (auto simp: start_stages_def keeps_routes)
  have rest: "ho_routes (pg_host (snd (f q))) = ho_routes (pg_host q)" if "f \<in> set ?rest" for f q
    using that by (auto simp: start_stages_def keeps_routes singbox_up_def xray_up_def intro!: spawn_keeps_routes)
  obtain q where q: "run_stages ?first p = (None, q)" "run_stages (stage_peer w a # ?rest) q = (None, p')"
    using assms by (subst (asm) st, simp only: run_stages_append) (auto split: prod.splits option.splits)
  then obtain q' where q': "stage_peer w a q = (None, q')" "run_stages ?rest q' = (None, p')" by (auto split: prod.splits option.splits)
  have "ho_routes (pg_host (snd (run_stages ?first p))) = ho_routes (pg_host p)" by (rule run_keeps) (rule first)
  moreover have "ho_routes (pg_host (snd (run_stages ?rest q'))) = ho_routes (pg_host q')" by (rule run_keeps) (rule rest)
  ultimately show ?thesis using that [OF q'(1)] q(1) q'(2) by simp
qed

lemma stage_peer_None:
  assumes "stage_peer w a q = (None, q')"
  obtains gw v4 row where "gateway_Default None (ho_routes (pg_host q)) = Inr gw" "Win_resolveServerIPv4 (sw_lookup w) (sa_ServerHost a) 6 = Inr v4"
    "entryToRow (peer_entry v4 gw) = Some row" "\<not> list_ex (same_row row) (ho_routes (pg_host q))" "ho_routes (pg_host q') = ho_routes (pg_host q) @ [row]"
proof -
  have "sw_faults w CGateway = None" using assms by (auto simp: stage_peer_def gateway_Default_def route_Snapshot_def split: option.splits)
  then show ?thesis
    using assms that by (auto simp: stage_peer_def Let_def route_Add_None split: sum.splits prod.splits option.splits)
qed

lemma best_gateway_append: "best_gateway b (xs @ [r]) = best_gateway (best_gateway b xs) [r]"
  by (induction b xs rule: best_gateway.induct) simp_all

lemma peer_row_not_default:
  assumes "entryToRow (peer_entry v4 gw) = Some row"
  shows "en_DestCIDR row \<noteq> ''0.0.0.0/0''"
proof
  assume "en_DestCIDR row = ''0.0.0.0/0''"
  then have "v4 @ ''/32'' = ''0.0.0.0/0''" using assms by (auto simp: entryToRow_def peer_entry_def split: if_splits)
  then have "last (v4 @ ''/32'') = last ''0.0.0.0/0''" by simp
  then show False by simp
qed

lemma nothing_missing: "set want \<subseteq> set cur \<Longrightarrow> (\<And>ks. set (iter ks) = set ks) \<Longrightarrow> missing iter want cur = []"
  by (auto simp: missing_def indexRouteEntries_def filter_empty_conv map_of_eq_None_iff image_image)

lemma recover_routes:
  assumes "ho_undo h = UndoFile j" "set (jn_Routes j) \<subseteq> set (ho_routes h)" "\<And>ks. set (iter ks) = set ks"
  shows "ho_routes (recoverFromUndo faults iter (h \<lparr> ho_running := rs \<rparr>)) = ho_routes h"
  using assms nothing_missing [OF assms(2,3)] by (simp add: recoverFromUndo_def undo_Load_def route_Snapshot_def Let_def split: option.split)

text \<open>
  C24. After a crash of the helper the same server cannot be used again. If the helper dies while a session with an
  adapter is up, then whatever happens in the recovery, and whatever the calls do then, every start
  of a chain with an adapter to a server with the same address fails as long as the routes stay: the route to the server is
  still there, and adding it again is an error.
\<close>

theorem reconnect_after_crash_fails:
  assumes "Win_start_locked w a h = (Inr r, h1)" "sa_Mode a \<noteq> ''sysproxy''"
    and "\<forall>ks. set (iter ks) = set ks" "h2 = recoverFromUndo faults iter ((wh_host h1) \<lparr> ho_running := rs \<rparr>)"
    and "sa_Mode a' \<noteq> ''sysproxy''" "Win_resolveServerIPv4 (sw_lookup w') (sa_ServerHost a') 6 = Win_resolveServerIPv4 (sw_lookup w) (sa_ServerHost a) 6"
  shows "\<exists>e. fst (Win_start_locked w' a' \<lparr> wh_host = h2, wh_heap = [], wh_active = None, wh_watch = [] \<rparr>) = Inl e"
proof -
  from assms(1) obtain fs p where "run_stages (start_stages w a (sa_Mode a \<noteq> ''sysproxy'')) (begin_start w a ((wh_host h) \<lparr> ho_files := fs \<rparr>)) = (None, p)"
    and h1: "h1 = h \<lparr> wh_host := pg_host p, wh_heap := wh_heap h @ [pg_sess p], wh_active := Some (length (wh_heap h)),
              wh_watch := wh_watch h @ [WStart (length (wh_heap h))] \<rparr>" by (rule start_locked_Inr)
  then have run: "run_stages (start_stages w a True) (begin_start w a ((wh_host h) \<lparr> ho_files := fs \<rparr>)) = (None, p)" using assms(2) by simp
  let ?t = "ho_routes (wh_host h)"
  have b: "ho_routes (pg_host (begin_start v c (k \<lparr> ho_files := f \<rparr>))) = ho_routes k" for v c k f by (simp add: begin_start_def)
  obtain q q' where q: "stage_peer w a q = (None, q')" "ho_routes (pg_host q) = ?t" "ho_routes (pg_host p) = ho_routes (pg_host q')"
    using tun_routes [OF run] unfolding b by blast
  obtain gw v4 row where g: "gateway_Default None ?t = Inr gw" "Win_resolveServerIPv4 (sw_lookup w) (sa_ServerHost a) 6 = Inr v4"
    "entryToRow (peer_entry v4 gw) = Some row" and t: "ho_routes (pg_host p) = ?t @ [row]"
    using stage_peer_None [OF q(1)] unfolding q(2,3) by blast
  have h2: "ho_routes h2 = ?t @ [row]"
    using assms(4) recover_routes [OF started_journal [OF run], of iter "faults"] assms(3) tun_snapshot [OF run] by (simp add: h1 t b subset_insertI)
  have False if start: "Win_start_locked w' a' \<lparr> wh_host = h2, wh_heap = [], wh_active = None, wh_watch = [] \<rparr> = (Inr r2, h3)" for r2 h3
  proof -
    obtain fs2 p2 where "run_stages (start_stages w' a' (sa_Mode a' \<noteq> ''sysproxy'')) (begin_start w' a' (h2 \<lparr> ho_files := fs2 \<rparr>)) = (None, p2)"
      by (rule start_locked_Inr [OF start]) simp
    with assms(5) have "run_stages (start_stages w' a' True) (begin_start w' a' (h2 \<lparr> ho_files := fs2 \<rparr>)) = (None, p2)" by simp
    from tun_routes [OF this] obtain q2 q3 where q2: "stage_peer w' a' q2 = (None, q3)" "ho_routes (pg_host q2) = ?t @ [row]"
      unfolding b h2 by blast
    obtain gw2 v2 row2 where g2: "gateway_Default None (?t @ [row]) = Inr gw2" "Win_resolveServerIPv4 (sw_lookup w') (sa_ServerHost a') 6 = Inr v2"
      "entryToRow (peer_entry v2 gw2) = Some row2" "\<not> list_ex (same_row row2) (?t @ [row])"
      using stage_peer_None [OF q2(1)] unfolding q2(2) by blast
    have "gw2 = gw" "v2 = v4"
      using g2(1,2) g(1,2) assms(6) peer_row_not_default [OF g(3)]
      by (simp_all add: gateway_Default_def route_Snapshot_def best_gateway_append split: option.splits)
    then show False using g2(3,4) g(3) by simp
  qed
  then show ?thesis by (metis prod.collapse sum.exhaust)
qed

theorem reconnect_after_crash_fails_witness:
  "\<exists>e. fst (Win_start_locked (sample_world (\<lambda>_. None)) sample_start
     \<lparr> wh_host = recoverFromUndo (\<lambda>_. None) rev
         ((wh_host (snd (Win_start_locked (sample_world (\<lambda>_. None)) sample_start sample_helper))) \<lparr> ho_running := [] \<rparr>),
       wh_heap = [], wh_active = None, wh_watch = [] \<rparr>) = Inl e"
proof -
  obtain r h1 where h1: "Win_start_locked (sample_world (\<lambda>_. None)) sample_start sample_helper = (Inr r, h1)" by (rule sample_started)
  have "sa_Mode sample_start \<noteq> ''sysproxy''" by (simp add: sample_start_def)
  from reconnect_after_crash_fails [OF h1 this _ refl this refl, of rev] h1 show ?thesis by simp
qed

end
