(* ===== verification/Helper_Backends.thy ===== *)
theory Helper_Backends
  imports Chainctl Configgen Helper_Chain
begin

text \<open>
  What stands between the controller and the cores: \<^verbatim>\<open>chainctl/helper_daemon_other.go\<close> (the client of the privileged
  daemon) and its Windows counterpart \<^verbatim>\<open>helper_adapter_windows.go\<close>, \<^verbatim>\<open>helper_adapter_other.go\<close> (cores in the same process, and the choice between the
  two by mode) and \<^verbatim>\<open>internal/core\<close>. The daemon is any far end of the protocol of Helper_Proto; the theorems put the
  handlers of Helper_Chain there. Calls of one controller do not overlap, so each is one step.
\<close>

section \<open>The server in a configuration\<close>

definition endpoint_fields :: "(string \<times> int) fields" where
  "endpoint_fields =
     [(''address'', fld fst (\<lambda>x r. (x, snd r)) dec_string),
      (''port'', fld snd (\<lambda>x r. (fst r, x)) (dec_int (- (2 ^ 63)) (2 ^ 63 - 1)))]"

definition vnext_fields :: "(string \<times> int) list fields" where
  "vnext_fields = [(''vnext'', fld (\<lambda>v. v) (\<lambda>x v. x) (dec_slice (dec_struct endpoint_fields) ([], 0)))]"

definition outbound_fields :: "(string \<times> int) list fields" where
  "outbound_fields = [(''settings'', fld (\<lambda>v. v) (\<lambda>x v. x) (dec_struct vnext_fields))]"

definition document_fields :: "(string \<times> int) list list fields" where
  "document_fields = [(''outbounds'', fld (\<lambda>v. v) (\<lambda>x v. x) (dec_slice (dec_struct outbound_fields) []))]"

text \<open>An error of the client: of a call, of dialling, or with a text of its own.\<close>

datatype client_error = CallFailed call_error | DialFailed string | ClientFailed string

text \<open>A text that is not JSON is \<open>None\<close>.\<close>

definition xrayServerEndpoint :: "json option \<Rightarrow> client_error + string \<times> int" where
  "xrayServerEndpoint xrayJSON =
     (case Option.bind xrayJSON (\<lambda>j. dec_struct document_fields j []) of
        None \<Rightarrow> Inl (ClientFailed ''decode xray config'')
      | Some ((v # _) # _) \<Rightarrow>
          (if fst v = [] \<or> snd v = 0 then Inl (ClientFailed ''xray config: vnext address/port empty'') else Inr v)
      | Some _ \<Rightarrow> Inl (ClientFailed ''xray config: vnext outbound missing''))"

section \<open>The client of the daemon\<close>

record daemonHelperClient =
  dh_c :: "Client option"
  dh_tunName :: string
  dh_sessionID :: string

definition newDaemonHelperClient :: daemonHelperClient where
  "newDaemonHelperClient = \<lparr> dh_c = None, dh_tunName = defaultTunName, dh_sessionID = [] \<rparr>"

definition daemonSocketPath :: string where "daemonSocketPath = ''/run/itgray-helper.sock''"

text \<open>\<^verbatim>\<open>client.Dial\<close>: a client that dials again when its connection is gone.\<close>

definition Dial :: "string option \<Rightarrow> string \<Rightarrow> string + Client" where
  "Dial fault path =
     (case fault of
        Some e \<Rightarrow> Inl (''dial unix '' @ Chainctl.quote path @ '': '' @ e)
      | None \<Rightarrow> Inr (NewWithConn \<lparr> cl_dial := True \<rparr>))"

definition daemon_dial :: "string option \<Rightarrow> daemonHelperClient \<Rightarrow> (client_error + Client) \<times> daemonHelperClient" where
  "daemon_dial fault a =
     (case dh_c a of
        Some c \<Rightarrow> (Inr c, a)
      | None \<Rightarrow>
          (case Dial fault daemonSocketPath of
             Inl e \<Rightarrow> (Inl (DialFailed (''dial helper daemon: '' @ e)), a)
           | Inr c \<Rightarrow> (Inr c, a \<lparr> dh_c := Some c \<rparr>)))"

definition resetConn :: "daemonHelperClient \<Rightarrow> daemonHelperClient" where
  "resetConn a = a \<lparr> dh_c := None \<rparr>"

text \<open>What happens during the first and the second attempt: dialling, the context, and the far end.\<close>

record 'w daemon_env =
  de_dial :: "bool \<Rightarrow> string option"
  de_call :: "bool \<Rightarrow> call_env"
  de_peer :: "bool \<Rightarrow> 'w peer"

definition daemon_call :: "'w daemon_env \<Rightarrow> string \<Rightarrow> json option \<Rightarrow> daemonHelperClient \<Rightarrow> 'w
    \<Rightarrow> (client_error + json option) \<times> daemonHelperClient \<times> 'w" where
  "daemon_call env operation args a w =
     (case daemon_dial (de_dial env False) a of
        (Inl e, a) \<Rightarrow> (Inl e, a, w)
      | (Inr c, a) \<Rightarrow>
          (case Client_Call (de_call env False) (de_peer env False) c operation args w of
             (Inr raw, c, w) \<Rightarrow> (Inr raw, a \<lparr> dh_c := Some c \<rparr>, w)
           | (Inl err, c, w) \<Rightarrow>
               (case daemon_dial (de_dial env True) (resetConn a) of
                  (Inl derr, a) \<Rightarrow> (Inl (CallFailed err), a, w)
                | (Inr c, a) \<Rightarrow>
                    (case Client_Call (de_call env True) (de_peer env True) c operation args w of
                       (r, c, w) \<Rightarrow> (map_sum CallFailed (\<lambda>raw. raw) r, a \<lparr> dh_c := Some c \<rparr>, w)))))"

definition enc_StartChainArgs :: "json \<Rightarrow> json \<Rightarrow> string \<Rightarrow> int \<Rightarrow> string \<Rightarrow> string \<Rightarrow> json" where
  "enc_StartChainArgs sb xr host port tun mode =
     JObj ([(''singbox_config'', sb), (''xray_config'', xr), (''server_host'', JStr host), (''server_port'', JNum port),
            (''tun_name'', JStr tun)] @ jopt (mode \<noteq> []) ''mode'' (JStr mode))"

record StartChainResult = rc_SessionID :: string rc_TunLUID :: "64 word" rc_SingboxPid :: int rc_XrayPid :: int

definition StartChainResult_fields :: "StartChainResult fields" where
  "StartChainResult_fields =
     [(''session_id'', fld rc_SessionID (\<lambda>x r. r \<lparr> rc_SessionID := x \<rparr>) dec_string),
      (''tun_luid'', fld rc_TunLUID (\<lambda>x r. r \<lparr> rc_TunLUID := x \<rparr>) dec_word64),
      (''singbox_pid'', fld rc_SingboxPid (\<lambda>x r. r \<lparr> rc_SingboxPid := x \<rparr>) (dec_int (- (2 ^ 63)) (2 ^ 63 - 1))),
      (''xray_pid'', fld rc_XrayPid (\<lambda>x r. r \<lparr> rc_XrayPid := x \<rparr>) (dec_int (- (2 ^ 63)) (2 ^ 63 - 1)))]"

definition zero_StartChainResult :: StartChainResult where
  "zero_StartChainResult = \<lparr> rc_SessionID = [], rc_TunLUID = 0, rc_SingboxPid = 0, rc_XrayPid = 0 \<rparr>"

text \<open>An absent result of a response is an empty text, which is not JSON.\<close>

definition dec_result :: "'a fields \<Rightarrow> 'a \<Rightarrow> json option \<Rightarrow> 'a option" where
  "dec_result fs z raw = Option.bind raw (\<lambda>j. dec_struct fs j z)"

text \<open>
  \<^verbatim>\<open>StartChain\<close>, \<^verbatim>\<open>StopChain\<close> and \<^verbatim>\<open>ServiceStatus\<close>, which are the same in the two clients: \<open>invoke\<close> is the way in which the
  client calls, \<open>'c\<close> its state.
\<close>

type_synonym ('c, 'w) invocation = "string \<Rightarrow> json option \<Rightarrow> 'c \<Rightarrow> 'w \<Rightarrow> (client_error + json option) \<times> 'c \<times> 'w"

definition start_over :: "('c, 'w) invocation \<Rightarrow> string \<Rightarrow> json option \<Rightarrow> json option \<Rightarrow> string \<Rightarrow> 'c \<Rightarrow> 'w
    \<Rightarrow> (client_error + string) \<times> 'c \<times> 'w" where
  "start_over invoke tunName singboxJSON xrayJSON mode a w =
     (case xrayServerEndpoint xrayJSON of
        Inl e \<Rightarrow> (Inl e, a, w)
      | Inr (host, port) \<Rightarrow>
          (case (singboxJSON, xrayJSON) of
             (Some sb, Some xr) \<Rightarrow>
               (case invoke ''StartChain'' (Some (enc_StartChainArgs sb xr host port tunName mode)) a w of
                  (Inl e, a, w) \<Rightarrow> (Inl e, a, w)
                | (Inr raw, a, w) \<Rightarrow>
                    (case dec_result StartChainResult_fields zero_StartChainResult raw of
                       None \<Rightarrow> (Inl (ClientFailed ''decode StartChain result''), a, w)
                     | Some res \<Rightarrow> (Inr (rc_SessionID res), a, w)))
           | _ \<Rightarrow> (Inl (ClientFailed ''marshal StartChain''), a, w)))"

definition enc_StopChainArgs :: "string \<Rightarrow> json" where
  "enc_StopChainArgs sid = JObj [(''session_id'', JStr sid)]"

definition stop_over :: "('c, 'w) invocation \<Rightarrow> string \<Rightarrow> 'c \<Rightarrow> 'w \<Rightarrow> client_error option \<times> 'c \<times> 'w" where
  "stop_over invoke sid a w =
     (case invoke ''StopChain'' (Some (enc_StopChainArgs sid)) a w of
        (Inl e, a, w) \<Rightarrow> (Some e, a, w)
      | (Inr raw, a, w) \<Rightarrow> (map_option (\<lambda>e. ClientFailed (errtext e)) (checkStopResult raw), a, w))"

definition ServiceStatus_fields :: "ChainState fields" where
  "ServiceStatus_fields =
     [(''version'', fld (\<lambda>s. []) (\<lambda>x s. s) dec_string),
      (''uptime_secs'', fld (\<lambda>s. 0) (\<lambda>x s. s) (dec_int (- (2 ^ 63)) (2 ^ 63 - 1))),
      (''up_bytes'', fld st_UpBytes (\<lambda>x s. s \<lparr> st_UpBytes := x \<rparr>) dec_word64),
      (''down_bytes'', fld st_DownBytes (\<lambda>x s. s \<lparr> st_DownBytes := x \<rparr>) dec_word64),
      (''chain_active'', fld st_Running (\<lambda>x s. s \<lparr> st_Running := x \<rparr>) dec_bool),
      (''cleanup_pending'', fld st_CleanupPending (\<lambda>x s. s \<lparr> st_CleanupPending := x \<rparr>) dec_bool)]"

definition zero_ChainState :: ChainState where
  "zero_ChainState = \<lparr> st_CleanupPending = False, st_Running = False, st_UpBytes = 0, st_DownBytes = 0, st_LastError = [] \<rparr>"

definition status_over :: "('c, 'w) invocation \<Rightarrow> 'c \<Rightarrow> 'w \<Rightarrow> (client_error + ChainState) \<times> 'c \<times> 'w" where
  "status_over invoke a w =
     (case invoke ''ServiceStatus'' None a w of
        (Inl e, a, w) \<Rightarrow> (Inl e, a, w)
      | (Inr raw, a, w) \<Rightarrow>
          (case dec_result ServiceStatus_fields zero_ChainState raw of
             None \<Rightarrow> (Inl (ClientFailed ''decode ServiceStatus''), a, w)
           | Some st \<Rightarrow> (Inr st, a, w)))"

definition daemon_StartChain :: "'w daemon_env \<Rightarrow> json option \<Rightarrow> json option \<Rightarrow> string \<Rightarrow> daemonHelperClient \<Rightarrow> 'w
    \<Rightarrow> client_error option \<times> daemonHelperClient \<times> 'w" where
  "daemon_StartChain env singboxJSON xrayJSON mode a w =
     (case start_over (daemon_call env) (dh_tunName a) singboxJSON xrayJSON mode a w of
        (Inl e, a, w) \<Rightarrow> (Some e, a, w) | (Inr sid, a, w) \<Rightarrow> (None, a \<lparr> dh_sessionID := sid \<rparr>, w))"

definition daemon_StopChain :: "'w daemon_env \<Rightarrow> daemonHelperClient \<Rightarrow> 'w \<Rightarrow> client_error option \<times> daemonHelperClient \<times> 'w" where
  "daemon_StopChain env a w =
     (case stop_over (daemon_call env) (dh_sessionID a) a w of
        (Some e, a, w) \<Rightarrow> (Some e, a, w) | (None, a, w) \<Rightarrow> (None, a \<lparr> dh_sessionID := [] \<rparr>, w))"

definition daemon_ServiceStatus :: "'w daemon_env \<Rightarrow> daemonHelperClient \<Rightarrow> 'w
    \<Rightarrow> (client_error + ChainState) \<times> daemonHelperClient \<times> 'w" where
  "daemon_ServiceStatus env = status_over (daemon_call env)"

text \<open>On Windows the client is connected once, and a call is not repeated.\<close>

record HelperAdapter =
  ha_c :: Client
  ha_tunName :: string
  ha_sessionID :: string

definition NewHelperAdapter :: "Client \<Rightarrow> string \<Rightarrow> HelperAdapter" where
  "NewHelperAdapter c tunName = \<lparr> ha_c = c, ha_tunName = tunName, ha_sessionID = [] \<rparr>"

definition adapter_call :: "call_env \<Rightarrow> 'w peer \<Rightarrow> (HelperAdapter, 'w) invocation" where
  "adapter_call env peer operation args a w =
     (case Client_Call env peer (ha_c a) operation args w of
        (r, c, w) \<Rightarrow> (map_sum CallFailed (\<lambda>raw. raw) r, a \<lparr> ha_c := c \<rparr>, w))"

definition adapter_StartChain :: "call_env \<Rightarrow> 'w peer \<Rightarrow> json option \<Rightarrow> json option \<Rightarrow> string \<Rightarrow> HelperAdapter \<Rightarrow> 'w
    \<Rightarrow> client_error option \<times> HelperAdapter \<times> 'w" where
  "adapter_StartChain env peer singboxJSON xrayJSON mode a w =
     (case start_over (adapter_call env peer) (ha_tunName a) singboxJSON xrayJSON mode a w of
        (Inl e, a, w) \<Rightarrow> (Some e, a, w) | (Inr sid, a, w) \<Rightarrow> (None, a \<lparr> ha_sessionID := sid \<rparr>, w))"

definition adapter_StopChain :: "call_env \<Rightarrow> 'w peer \<Rightarrow> HelperAdapter \<Rightarrow> 'w \<Rightarrow> client_error option \<times> HelperAdapter \<times> 'w" where
  "adapter_StopChain env peer a w =
     (case stop_over (adapter_call env peer) (ha_sessionID a) a w of
        (Some e, a, w) \<Rightarrow> (Some e, a, w) | (None, a, w) \<Rightarrow> (None, a \<lparr> ha_sessionID := [] \<rparr>, w))"

definition adapter_ServiceStatus :: "call_env \<Rightarrow> 'w peer \<Rightarrow> HelperAdapter \<Rightarrow> 'w
    \<Rightarrow> (client_error + ChainState) \<times> HelperAdapter \<times> 'w" where
  "adapter_ServiceStatus env peer = status_over (adapter_call env peer)"

section \<open>Cores in the same process\<close>

text \<open>
  The instances that run, by number, and the next number. Closing an instance ends it, or fails and may leave it running.
\<close>

record instances = in_live :: "nat list" in_next :: nat

datatype close_result = Closed | CloseFailed string bool

text \<open>\<^verbatim>\<open>Start\<close> and \<^verbatim>\<open>Close\<close> of the two adapters. Closing forgets the instance, whatever comes of it.\<close>

definition engine_Start :: "string \<Rightarrow> string option \<Rightarrow> nat option \<Rightarrow> instances \<Rightarrow> string option \<times> nat option \<times> instances" where
  "engine_Start name fault inst w =
     (if inst \<noteq> None then (Some (name @ '' already running''), inst, w)
      else case fault of
        Some e \<Rightarrow> (Some e, inst, w)
      | None \<Rightarrow> (None, Some (in_next w), w \<lparr> in_live := in_live w @ [in_next w], in_next := in_next w + 1 \<rparr>))"

definition engine_Close :: "close_result \<Rightarrow> nat option \<Rightarrow> instances \<Rightarrow> string option \<times> nat option \<times> instances" where
  "engine_Close res inst w =
     (case inst of
        None \<Rightarrow> (None, None, w)
      | Some n \<Rightarrow>
          (case res of
             Closed \<Rightarrow> (None, None, w \<lparr> in_live := removeAll n (in_live w) \<rparr>)
           | CloseFailed e left \<Rightarrow> (Some e, None, if left then w else w \<lparr> in_live := removeAll n (in_live w) \<rparr>)))"

record Manager = mg_sbx :: "nat option" mg_xry :: "nat option"

definition NewManager :: Manager where "NewManager = \<lparr> mg_sbx = None, mg_xry = None \<rparr>"

record core_env =
  co_startX :: "string option"
  co_startSB :: "string option"
  co_closeX :: close_result
  co_closeSB :: close_result
  co_counters :: "(64 word \<times> 64 word) option"

definition Manager_Start :: "core_env \<Rightarrow> Manager \<Rightarrow> instances \<Rightarrow> string option \<times> Manager \<times> instances" where
  "Manager_Start env m w =
     (case engine_Start ''xray'' (co_startX env) (mg_xry m) w of
        (Some e, x, w) \<Rightarrow> (Some e, m \<lparr> mg_xry := x \<rparr>, w)
      | (None, x, w) \<Rightarrow>
          (case engine_Start ''sing-box'' (co_startSB env) (mg_sbx m) w of
             (Some e, b, w) \<Rightarrow>
               (case engine_Close (co_closeX env) x w of (_, x, w) \<Rightarrow> (Some e, m \<lparr> mg_xry := x, mg_sbx := b \<rparr>, w))
           | (None, b, w) \<Rightarrow> (None, m \<lparr> mg_xry := x, mg_sbx := b \<rparr>, w)))"

definition Manager_Stop :: "core_env \<Rightarrow> Manager \<Rightarrow> instances \<Rightarrow> string option \<times> Manager \<times> instances" where
  "Manager_Stop env m w =
     (case engine_Close (co_closeSB env) (mg_sbx m) w of
        (errSB, b, w) \<Rightarrow>
          (case engine_Close (co_closeX env) (mg_xry m) w of
             (errX, x, w) \<Rightarrow> (if errSB \<noteq> None then errSB else errX, m \<lparr> mg_sbx := b, mg_xry := x \<rparr>, w)))"

record coreHelperClient =
  ch_runner :: "Manager option"
  ch_stats :: bool
  ch_running :: bool

definition NewCoreHelperClient :: coreHelperClient where
  "NewCoreHelperClient = \<lparr> ch_runner = None, ch_stats = False, ch_running = False \<rparr>"

definition errTunUnsupported :: string where
  "errTunUnsupported = ''TUN mode is not yet available on Linux (coming in Phase B); use SysProxy mode''"

definition core_StartChain :: "core_env \<Rightarrow> string \<Rightarrow> coreHelperClient \<Rightarrow> instances \<Rightarrow> string option \<times> coreHelperClient \<times> instances" where
  "core_StartChain env mode h w =
     (if mode = ModeTUN then (Some errTunUnsupported, h, w)
      else if ch_running h then (Some ''chainctl: chain already running'', h, w)
      else case Manager_Start env NewManager w of
        (Some e, m, w) \<Rightarrow> (Some (''core start: '' @ e), h, w)
      | (None, m, w) \<Rightarrow> (None, h \<lparr> ch_runner := Some m, ch_stats := True, ch_running := True \<rparr>, w))"

definition core_StopChain :: "core_env \<Rightarrow> coreHelperClient \<Rightarrow> instances \<Rightarrow> string option \<times> coreHelperClient \<times> instances" where
  "core_StopChain env h w =
     (if \<not> ch_running h then (None, h, w)
      else let h' = h \<lparr> ch_stats := False, ch_runner := None, ch_running := False \<rparr> in
        case ch_runner h of
          None \<Rightarrow> (None, h', w)
        | Some m \<Rightarrow> (case Manager_Stop env m w of (e, m, w) \<Rightarrow> (e, h', w)))"

definition core_ServiceStatus :: "core_env \<Rightarrow> coreHelperClient \<Rightarrow> ChainState" where
  "core_ServiceStatus env h =
     (let st = zero_ChainState \<lparr> st_Running := ch_running h \<rparr> in
      if ch_running h \<and> ch_stats h
      then (case co_counters env of None \<Rightarrow> st | Some (up, down) \<Rightarrow> st \<lparr> st_UpBytes := up, st_DownBytes := down \<rparr>)
      else st)"

section \<open>The choice by mode\<close>

text \<open>A client as the controller sees it, on a state of its own: the calls of the controller, and the status.\<close>

record 's HelperClient =
  hc_call :: "call \<Rightarrow> 's \<Rightarrow> err \<times> 's"
  hc_status :: "'s \<Rightarrow> (goerr + ChainState) \<times> 's"

datatype backend = CoreBackend | DaemonBackend

definition backend_of :: "'s HelperClient \<Rightarrow> 's HelperClient \<Rightarrow> backend \<Rightarrow> 's HelperClient" where
  "backend_of inproc daemon b = (case b of CoreBackend \<Rightarrow> inproc | DaemonBackend \<Rightarrow> daemon)"

definition delegate :: "backend option \<Rightarrow> backend" where
  "delegate active = (case active of None \<Rightarrow> CoreBackend | Some b \<Rightarrow> b)"

definition mode_backend :: "string \<Rightarrow> backend" where
  "mode_backend mode = (if mode = ModeTUN then DaemonBackend else CoreBackend)"

definition routing_call :: "'s HelperClient \<Rightarrow> 's HelperClient \<Rightarrow> call \<Rightarrow> backend option \<times> 's \<Rightarrow> err \<times> backend option \<times> 's" where
  "routing_call inproc daemon operation = (\<lambda>(active, s).
     case operation of
       StartChain sb xr mode \<Rightarrow> (case hc_call (backend_of inproc daemon (mode_backend mode)) operation s of (e, s) \<Rightarrow> (e, Some (mode_backend mode), s))
     | StopChain \<Rightarrow>
         (case active of
            None \<Rightarrow> (None, active, s)
          | Some b \<Rightarrow> (case hc_call (backend_of inproc daemon b) operation s of (e, s) \<Rightarrow> (e, active, s)))
     | RouteSnapshot \<Rightarrow> (None, active, s)
     | TunCreate n c \<Rightarrow> (None, active, s)
     | _ \<Rightarrow> (case hc_call (backend_of inproc daemon (delegate active)) operation s of (e, s) \<Rightarrow> (e, active, s)))"

definition routing_status :: "'s HelperClient \<Rightarrow> 's HelperClient \<Rightarrow> backend option \<times> 's \<Rightarrow> (goerr + ChainState) \<times> backend option \<times> 's" where
  "routing_status inproc daemon = (\<lambda>(active, s).
     case active of
       Some b \<Rightarrow> (case hc_status (backend_of inproc daemon b) s of (r, s) \<Rightarrow> (r, active, s))
     | None \<Rightarrow>
         (case hc_status daemon s of
            (Inl e, s) \<Rightarrow> (Inr zero_ChainState, active, s)
          | (Inr st, s) \<Rightarrow> (Inr st, (if st_Running st \<or> st_CleanupPending st then Some DaemonBackend else active), s)))"

text \<open>The clients above in this form; \<open>etext\<close> is the text of an error of a call.\<close>

definition client_text :: "(call_error \<Rightarrow> string) \<Rightarrow> client_error \<Rightarrow> string" where
  "client_text etext e = (case e of CallFailed c \<Rightarrow> etext c | DialFailed m \<Rightarrow> m | ClientFailed m \<Rightarrow> m)"

definition daemon_client :: "(call_error \<Rightarrow> string) \<Rightarrow> 'w daemon_env \<Rightarrow> (daemonHelperClient \<times> 'w) HelperClient" where
  "daemon_client etext env =
     \<lparr> hc_call = (\<lambda>operation (a, w).
         case operation of
           StartChain sb xr mode \<Rightarrow> map_prod (map_option (\<lambda>e. Err (client_text etext e))) (\<lambda>s. s) (daemon_StartChain env (Some sb) (Some xr) mode a w)
         | StopChain \<Rightarrow> map_prod (map_option (\<lambda>e. Err (client_text etext e))) (\<lambda>s. s) (daemon_StopChain env a w)
         | _ \<Rightarrow> (None, a, w)),
       hc_status = (\<lambda>(a, w). map_prod (map_sum (\<lambda>e. Err (client_text etext e)) (\<lambda>st. st)) (\<lambda>s. s) (daemon_ServiceStatus env a w)) \<rparr>"

definition core_client :: "core_env \<Rightarrow> (coreHelperClient \<times> instances) HelperClient" where
  "core_client env =
     \<lparr> hc_call = (\<lambda>operation (h, w).
         case operation of
           StartChain sb xr mode \<Rightarrow> map_prod (map_option Err) (\<lambda>s. s) (core_StartChain env mode h w)
         | StopChain \<Rightarrow> map_prod (map_option Err) (\<lambda>s. s) (core_StopChain env h w)
         | TunDestroy \<Rightarrow> (None, h, w)
         | RouteRestore \<Rightarrow> (None, h, w)
         | DnsRestore \<Rightarrow> (None, h, w)
         | _ \<Rightarrow> (Some (Err errTunUnsupported), h, w)),
       hc_status = (\<lambda>(h, w). (Inr (core_ServiceStatus env h), h, w)) \<rparr>"

text \<open>Each of the two has its own part of the state.\<close>

definition on_core :: "'c HelperClient \<Rightarrow> ('c \<times> 'd) HelperClient" where
  "on_core k = \<lparr> hc_call = (\<lambda>operation (c, d). case hc_call k operation c of (e, c) \<Rightarrow> (e, c, d)),
     hc_status = (\<lambda>(c, d). case hc_status k c of (r, c) \<Rightarrow> (r, c, d)) \<rparr>"

definition on_daemon :: "'d HelperClient \<Rightarrow> ('c \<times> 'd) HelperClient" where
  "on_daemon k = \<lparr> hc_call = (\<lambda>operation (c, d). case hc_call k operation d of (e, d) \<Rightarrow> (e, c, d)),
     hc_status = (\<lambda>(c, d). case hc_status k d of (r, d) \<Rightarrow> (r, c, d)) \<rparr>"

text \<open>
  \<^verbatim>\<open>cmd/itgray-bridge/lazyhelper.go\<close>: a client that is connected when it is first needed. \<open>dial\<close> connects it, or says why it could
  not; the flag tells whether there is a connection.
\<close>

definition lazy_get :: "('s \<Rightarrow> string + 's) \<Rightarrow> bool \<times> 's \<Rightarrow> (goerr + unit) \<times> bool \<times> 's" where
  "lazy_get dial = (\<lambda>(cur, s).
     if cur then (Inr (), True, s)
     else case dial s of Inl e \<Rightarrow> (Inl (Err (''helper unavailable: '' @ e)), False, s) | Inr s \<Rightarrow> (Inr (), True, s))"

definition lazy_required :: "('s \<Rightarrow> string + 's) \<Rightarrow> ('s \<Rightarrow> err \<times> 's) \<Rightarrow> bool \<times> 's \<Rightarrow> err \<times> bool \<times> 's" where
  "lazy_required dial f l =
     (case lazy_get dial l of
        (Inl e, l) \<Rightarrow> (Some e, l)
      | (Inr _, cur, s) \<Rightarrow> (case f s of (Some e, s) \<Rightarrow> (Some e, False, s) | (None, s) \<Rightarrow> (None, cur, s)))"

definition lazy_teardown :: "('s \<Rightarrow> string + 's) \<Rightarrow> ('s \<Rightarrow> err \<times> 's) \<Rightarrow> bool \<times> 's \<Rightarrow> err \<times> bool \<times> 's" where
  "lazy_teardown dial f l =
     (case lazy_get dial l of
        (Inl e, l) \<Rightarrow> (Some e, l)
      | (Inr _, cur, s) \<Rightarrow> (case f s of (e, s) \<Rightarrow> (e, cur, s)))"

definition lazy_status :: "('s \<Rightarrow> string + 's) \<Rightarrow> 's HelperClient \<Rightarrow> bool \<times> 's \<Rightarrow> (goerr + ChainState) \<times> bool \<times> 's" where
  "lazy_status dial k l =
     (case lazy_get dial l of
        (Inl e, l) \<Rightarrow> (Inl e, l)
      | (Inr _, cur, s) \<Rightarrow> (case hc_status k s of (Inl e, s) \<Rightarrow> (Inl e, False, s) | (Inr st, s) \<Rightarrow> (Inr st, cur, s)))"

definition lazyHelperClient :: "('s \<Rightarrow> string + 's) \<Rightarrow> 's HelperClient \<Rightarrow> (bool \<times> 's) HelperClient" where
  "lazyHelperClient dial k =
     \<lparr> hc_call = (\<lambda>operation.
         (if operation \<in> {StopChain, TunDestroy, RouteRestore, DnsRestore} then lazy_teardown else lazy_required) dial (hc_call k operation)),
       hc_status = lazy_status dial k \<rparr>"

section \<open>The server in a configuration that the program builds\<close>

lemma dec_fields_keep:
  assumes "dec_fields fs kvs r = Some r'" "I r" "\<And>k d v x y. (k, d) \<in> set fs \<Longrightarrow> I x \<Longrightarrow> d v x = Some y \<Longrightarrow> I y"
  shows "I r'"
  using assms(1,2)
proof (induction kvs arbitrary: r)
  case (Cons kv kvs)
  obtain k v where kv: "kv = (k, v)" by fastforce
  have mem: "\<exists>n. (n, d) \<in> set fs" if "find_field fs k = Some d" for d
    using that by (auto simp: find_field_def find_Some_iff dest: map_of_SomeD split: option.splits) (metis nth_mem)
  show ?case
  proof (cases "find_field fs k")
    case (Some d)
    then obtain r1 where r1: "d v r = Some r1" "dec_fields fs kvs r1 = Some r'" using Cons.prems(1) kv by (auto split: option.splits)
    then have "I r1" using mem [OF Some] assms(3) Cons.prems(2) by blast
    then show ?thesis using Cons.IH r1(2) by blast
  qed (use Cons kv in simp)
qed simp

lemma opt_all_in: "opt_all f xs = Some ys \<Longrightarrow> y \<in> set ys \<Longrightarrow> \<exists>x \<in> set xs. f x = Some y"
  by (induction xs arbitrary: ys) (auto split: option.splits)

lemma dec_struct_keep:
  assumes "dec_struct fs j r = Some r'" "I r" "\<And>k d v x y. (k, d) \<in> set fs \<Longrightarrow> I x \<Longrightarrow> d v x = Some y \<Longrightarrow> I y"
  shows "I r'"
  using assms dec_fields_keep [of fs _ r r' I] by (cases j) auto

lemma dec_slice_keep:
  assumes "dec_slice d z v xs = Some ys" "\<And>x y. d x z = Some y \<Longrightarrow> I y"
  shows "\<forall>y \<in> set ys. I y"
  using assms opt_all_in by (fastforce simp: dec_slice_def split: json.splits)

definition port_ok :: "string \<times> int \<Rightarrow> bool" where
  "port_ok v \<longleftrightarrow> - (2 ^ 63) \<le> snd v \<and> snd v \<le> 2 ^ 63 - 1"

lemma endpoint_ok: "dec_struct endpoint_fields j ([], 0) = Some v \<Longrightarrow> port_ok v"
  by (erule dec_struct_keep) (auto simp: port_ok_def endpoint_fields_def fld_def split: option.splits elim!: dec_int.elims split: if_splits)

lemma vnext_ok: "dec_struct vnext_fields j vs = Some vs' \<Longrightarrow> \<forall>v \<in> set vs. port_ok v \<Longrightarrow> \<forall>v \<in> set vs'. port_ok v"
proof (erule dec_struct_keep, assumption)
  fix k d v x y assume "(k, d) \<in> set vnext_fields" "d v x = Some y"
  then have "dec_slice (dec_struct endpoint_fields) ([], 0) v x = Some y" by (auto simp: vnext_fields_def fld_def split: option.splits)
  then show "\<forall>v \<in> set y. port_ok v" by (rule dec_slice_keep) (rule endpoint_ok)
qed

lemma outbound_ok: "dec_struct outbound_fields j [] = Some vs \<Longrightarrow> \<forall>v \<in> set vs. port_ok v"
  by (erule dec_struct_keep) (use vnext_ok in \<open>auto simp: outbound_fields_def fld_def split: option.splits\<close>)

lemma document_ok: "dec_struct document_fields j [] = Some os \<Longrightarrow> \<forall>vs \<in> set os. \<forall>v \<in> set vs. port_ok v"
proof (erule dec_struct_keep)
  fix k d v x y assume "(k, d) \<in> set document_fields" "d v x = Some y"
  then have "dec_slice (dec_struct outbound_fields) [] v x = Some y" by (auto simp: document_fields_def fld_def split: option.splits)
  then show "\<forall>vs \<in> set y. \<forall>v \<in> set vs. port_ok v" by (rule dec_slice_keep) (rule outbound_ok)
qed simp

lemma xrayServerEndpoint_range:
  assumes "xrayServerEndpoint xr = Inr (host, port)"
  shows "host \<noteq> [] \<and> port \<noteq> 0 \<and> - (2 ^ 63) \<le> port \<and> port \<le> 2 ^ 63 - 1"
proof -
  obtain j vs os where "dec_struct document_fields j [] = Some (((host, port) # vs) # os)" "host \<noteq> [] \<and> port \<noteq> 0"
    using assms by (auto simp: xrayServerEndpoint_def bind_eq_Some_conv split: option.splits list.splits if_splits)
  then show ?thesis using document_ok [of j] by (fastforce simp: port_ok_def)
qed

text \<open>
  The client finds the server in every configuration that the program builds: the address and the port to which
  xray is told to connect, and an error exactly when one of them is missing.
\<close>

theorem endpoint_of_BuildXray:
  "xrayServerEndpoint (Some (BuildXray i)) =
     (let address = (if x_ServerIP i \<noteq> [] then x_ServerIP i else v_Address (x_Server i)) in
      if address = [] \<or> v_Port (x_Server i) = 0 then Inl (ClientFailed ''xray config: vnext address/port empty'')
      else Inr (address, uint (v_Port (x_Server i))))"
proof -
  let ?address = "if x_ServerIP i \<noteq> [] then x_ServerIP i else v_Address (x_Server i)"
  let ?port = "uint (v_Port (x_Server i))"
  have port: "0 \<le> ?port" "?port < 65536" using uint_lt2p [of "v_Port (x_Server i)"] by simp_all
  have e: "dec_struct endpoint_fields (JObj [(''address'', JStr ?address), (''port'', JNum ?port), (''users'', us)]) ([], 0) = Some (?address, ?port)" for us
  proof -
    have "- 9223372036854775808 \<le> ?port \<and> ?port \<le> 9223372036854775807" using port by linarith
    then show ?thesis by (simp add: endpoint_fields_def find_field_def fld_def)
  qed
  have o: "dec_struct outbound_fields (xray_outbound i) [] = Some [(?address, ?port)]"
    using e by (simp add: xray_outbound_def outbound_fields_def vnext_fields_def find_field_def fld_def dec_slice_def Let_def)
  have "dec_struct document_fields (BuildXray i) [] = Some [[(?address, ?port)]]"
    using o by (simp add: BuildXray_def document_fields_def find_field_def fld_def dec_slice_def)
  then show ?thesis by (simp add: xrayServerEndpoint_def Let_def uint_0_iff)
qed

section \<open>Calls of the daemon\<close>

text \<open>The far end is the daemon with the handlers \<open>d\<close>, and nothing goes wrong on the way to it.\<close>

definition clear_line :: "(string \<Rightarrow> string) \<Rightarrow> 'w Dispatcher \<Rightarrow> 'w daemon_env \<Rightarrow> bool \<Rightarrow> bool" where
  "clear_line jerr d env b \<longleftrightarrow> de_dial env b = None \<and> de_call env b = uninterrupted \<and> de_peer env b = helper_peer jerr d"

definition daemon_ready :: "daemonHelperClient \<Rightarrow> bool" where
  "daemon_ready a \<longleftrightarrow> (case dh_c a of None \<Rightarrow> True | Some c \<Rightarrow> connected c)"

lemma daemon_dial_ready:
  assumes "daemon_ready a" "dial = None"
  obtains c where "daemon_dial dial a = (Inr c, a \<lparr> dh_c := Some c \<rparr>)" "connected c"
proof (cases "dh_c a")
  case None
  have "connected (NewWithConn \<lparr> cl_dial := True \<rparr>)" by (simp add: connected_def NewWithConn_def)
  then show ?thesis using that None assms by (simp add: daemon_dial_def Dial_def)
next
  case (Some c)
  then have "a \<lparr> dh_c := Some c \<rparr> = a" by (cases a) simp
  then show ?thesis using that [of c] Some assms by (simp add: daemon_dial_def daemon_ready_def)
qed

lemma call_local:
  assumes "connected c" "request_ok d (operation, args) w"
  obtains c' where "Client_Call uninterrupted (helper_peer jerr d) c operation args w =
     (fst (local_call d (operation, args) w), c', snd (local_call d (operation, args) w))" "connected c'"
proof -
  have "helper_call jerr d (operation, args) (c, w) = Client_Call uninterrupted (helper_peer jerr d) c operation args w"
    by (simp add: helper_call_def)
  then show ?thesis using helper_rpc.invoke_service [OF assms, of jerr] that by (metis prod.collapse)
qed

lemma daemon_call_ok:
  assumes "daemon_ready a" "clear_line jerr d env False" "request_ok d (operation, args) w" "local_call d (operation, args) w = (Inr raw, w')"
  obtains c where "daemon_call env operation args a w = (Inr raw, a \<lparr> dh_c := Some c \<rparr>, w')" "connected c"
proof -
  obtain c where c: "daemon_dial (de_dial env False) a = (Inr c, a \<lparr> dh_c := Some c \<rparr>)" "connected c"
    using daemon_dial_ready [OF assms(1)] assms(2) by (metis clear_line_def)
  obtain c' where "Client_Call uninterrupted (helper_peer jerr d) c operation args w = (Inr raw, c', w')" "connected c'"
    using call_local [OF c(2) assms(3), of jerr] assms(4) by (metis fst_conv snd_conv)
  then show ?thesis using that [of c'] c assms(2) by (simp add: daemon_call_def clear_line_def)
qed

text \<open>
  A call that the daemon refuses is made twice. If a handler answers with an error, the client takes it for a broken
  connection: it dials again and the handler runs a second time, on what the first left behind.
\<close>

lemma refused_call_repeated:
  assumes "daemon_ready a" "clear_line jerr d env False" "clear_line jerr d env True"
    and "request_ok d (operation, args) w" "local_call d (operation, args) w = (Inl e, w1)" "request_ok d (operation, args) w1"
  shows "\<exists>a'. daemon_call env operation args a w =
     (map_sum CallFailed (\<lambda>raw. raw) (fst (local_call d (operation, args) w1)), a', snd (local_call d (operation, args) w1)) \<and> daemon_ready a'"
proof -
  obtain c where c: "daemon_dial (de_dial env False) a = (Inr c, a \<lparr> dh_c := Some c \<rparr>)" "connected c"
    using daemon_dial_ready [OF assms(1)] assms(2) by (metis clear_line_def)
  obtain c1 where c1: "Client_Call uninterrupted (helper_peer jerr d) c operation args w = (Inl e, c1, w1)"
    using call_local [OF c(2) assms(4), of jerr] assms(5) by (metis fst_conv snd_conv)
  have "daemon_ready (resetConn (a \<lparr> dh_c := Some c \<rparr>))" by (simp add: daemon_ready_def resetConn_def)
  then obtain c2 where c2: "daemon_dial (de_dial env True) (resetConn (a \<lparr> dh_c := Some c \<rparr>)) = (Inr c2, resetConn (a \<lparr> dh_c := Some c \<rparr>) \<lparr> dh_c := Some c2 \<rparr>)"
      "connected c2"
    using daemon_dial_ready assms(3) by (metis clear_line_def)
  obtain c3 where "Client_Call uninterrupted (helper_peer jerr d) c2 operation args w1 =
      (fst (local_call d (operation, args) w1), c3, snd (local_call d (operation, args) w1))" "connected c3"
    using call_local [OF c2(2) assms(6), of jerr] by blast
  then show ?thesis using c c1 c2 assms(2,3) by (simp add: daemon_call_def clear_line_def daemon_ready_def)
qed

section \<open>A session from start to stop\<close>

definition calm_start :: "start_env \<Rightarrow> bool" where
  "calm_start env \<longleftrightarrow>
     se_mkdir env = None \<and> se_write_sb env = None \<and> se_write_xr env = None \<and> se_exe_sb env = None \<and> se_spawn_sb env = None \<and>
     se_exe_xr env = None \<and> se_spawn_xr env = None"

lemma dec_enc_StartChainArgs:
  assumes "- (2 ^ 63) \<le> port" "port \<le> 2 ^ 63 - 1"
  shows "dec_struct StartChainArgs_fields (enc_StartChainArgs sb xr host port tun mode) zero_StartChainArgs =
     Some (zero_StartChainArgs \<lparr> sa_SingboxConfig := Some sb, sa_XrayConfig := Some xr, sa_ServerHost := host, sa_ServerPort := port,
       sa_TunName := tun, sa_Mode := mode \<rparr>)"
  using assms
  by (simp add: enc_StartChainArgs_def StartChainArgs_fields_def zero_StartChainArgs_def find_field_def fld_def dec_raw_def jopt_def)

lemma start_calm:
  assumes "calm_start env" "hp_active h = None"
  shows "fst (start_locked env a h) = Inr (Some (enc_StartChainResult (se_id env) (hp_pids h) (hp_pids h + 1)))"
    "hp_active (snd (start_locked env a h)) = Some (length (hp_heap h))"
    "hp_running (snd (start_locked env a h)) = hp_running h @ [hp_pids h, hp_pids h + 1]"
    "hp_heap (snd (start_locked env a h)) = hp_heap h @ [\<lparr> ss_id = se_id env, ss_stopping = False, ss_singbox = Some (hp_pids h),
       ss_xray = Some (hp_pids h + 1), ss_api = True, ss_up = 0, ss_down = 0 \<rparr>]"
    "hp_config (snd (start_locked env a h)) ''sing-box.json'' =
       Some (sanitizeCoreConfig (se_float env) ''sing-box'' runtimeDir (sa_SingboxConfig a))"
    "hp_config (snd (start_locked env a h)) ''xray.json'' = Some (sanitizeCoreConfig (se_float env) ''xray'' runtimeDir (sa_XrayConfig a))"
  using assms by (simp_all add: start_locked_def calm_start_def spawnCore_def Let_def)

lemma stop_calm:
  assumes "hp_active h = Some s" "s < length (hp_heap h)" "ss_id (hp_heap h ! s) = sid"
  obtains h' where "stop_locked (Child_Stop ev) None sid h = (Inr (Some (JObj [(''status'', JStr ''stopped'')])), h')" "hp_active h' = None"
    "set (hp_running h') = set (hp_running h) - set_option (ss_xray (hp_heap h ! s)) - set_option (ss_singbox (hp_heap h ! s))"
proof -
  have n: "fst (stop_opt (Child_Stop ev) c r) = None" for c r by (simp add: stop_opt_def Child_Stop_gone split: option.split)
  have g: "set (snd (stop_opt (Child_Stop ev) c r)) = set r - set_option c" for c r by (simp add: stop_opt_def Child_Stop_gone split: option.split)
  let ?st = "hp_heap h ! s"
  let ?r1 = "snd (stop_opt (Child_Stop ev) (ss_xray ?st) (hp_running h))"
  have "stopBoth (Child_Stop ev) (ss_xray ?st) (ss_singbox ?st) (hp_running h) = (None, None, snd (stop_opt (Child_Stop ev) (ss_singbox ?st) ?r1))"
    using n by (auto simp: stopBoth_def split: prod.splits) (metis fst_conv prod.collapse)+
  then show ?thesis
    using that assms g by (auto simp: stop_locked_def stopActiveChainLocked_def Let_def err_line_def)
qed

lemma local_start:
  assumes "d ''StartChain'' = Some (NewStartChainHandler senv)" "xrayServerEndpoint (Some xr) = Inr (host, port)"
    and "tun \<noteq> []" "mode = ModeTUN \<or> mode = ModeSys" "calm_start senv" "hp_active h = None"
  shows "local_call d (''StartChain'', Some (enc_StartChainArgs sb xr host port tun mode)) h =
     (Inr (Some (enc_StartChainResult (se_id senv) (hp_pids h) (hp_pids h + 1))),
      snd (start_locked senv (zero_StartChainArgs \<lparr> sa_SingboxConfig := Some sb, sa_XrayConfig := Some xr, sa_ServerHost := host,
        sa_ServerPort := port, sa_TunName := tun, sa_Mode := mode \<rparr>) h))"
proof -
  let ?A = "zero_StartChainArgs \<lparr> sa_SingboxConfig := Some sb, sa_XrayConfig := Some xr, sa_ServerHost := host,
        sa_ServerPort := port, sa_TunName := tun, sa_Mode := mode \<rparr>"
  note r = xrayServerEndpoint_range [OF assms(2)]
  have "check_start ?A = None" using r assms(3,4) by (auto simp: check_start_def ModeTUN_def ModeSys_def)
  moreover have "start_locked senv ?A h = (Inr (Some (enc_StartChainResult (se_id senv) (hp_pids h) (hp_pids h + 1))), snd (start_locked senv ?A h))"
    using start_calm(1) [OF assms(5,6)] by (metis prod.collapse)
  ultimately have "NewStartChainHandler senv (Some (enc_StartChainArgs sb xr host port tun mode)) h =
      (Inr (Some (enc_StartChainResult (se_id senv) (hp_pids h) (hp_pids h + 1))), snd (start_locked senv ?A h))"
    using r by (simp add: NewStartChainHandler_def dec_enc_StartChainArgs)
  then show ?thesis by (simp add: local_call_def assms(1))
qed

lemma dec_enc_StartChainResult:
  assumes "sbPid < 2 ^ 63" "xrPid < 2 ^ 63"
  shows "dec_result StartChainResult_fields zero_StartChainResult (Some (enc_StartChainResult sid sbPid xrPid)) =
     Some \<lparr> rc_SessionID = sid, rc_TunLUID = 0, rc_SingboxPid = int sbPid, rc_XrayPid = int xrPid \<rparr>"
proof -
  have "int sbPid < 2 ^ 63" "int xrPid < 2 ^ 63" using assms by (metis of_nat_less_iff of_nat_numeral of_nat_power)+
  then have "int sbPid \<le> 9223372036854775807 \<and> int xrPid \<le> 9223372036854775807" by simp
  then show ?thesis
    by (simp add: dec_result_def enc_StartChainResult_def StartChainResult_fields_def zero_StartChainResult_def find_field_def fld_def)
qed

text \<open>
  C5. The bridge, the protocol and the daemon together: with an idle daemon at the far end of a working line, \<^verbatim>\<open>StartChain\<close>
  succeeds; the daemon has written the sanitized configurations that were passed, runs a session, and the client remembers
  its identifier. \<^verbatim>\<open>StopChain\<close> then succeeds too, ends that very session, and leaves no process that was not there before.
\<close>

theorem session_over_wire:
  assumes "daemon_ready a" "clear_line jerr d env False" "dh_tunName a \<noteq> []"
    and "d ''StartChain'' = Some (NewStartChainHandler senv)" "d ''StopChain'' = Some (NewStopChainHandler derr (Child_Stop ev) None)"
    and "calm_start senv" "hp_active h = None" "hp_pids h + 1 < 2 ^ 63"
    and "xrayServerEndpoint (Some xr) = Inr (host, port)" "mode = ModeTUN \<or> mode = ModeSys"
    and "request_ok d (''StartChain'', Some (enc_StartChainArgs sb xr host port (dh_tunName a) mode)) h"
    and "daemon_StartChain env (Some sb) (Some xr) mode a h = (e1, a1, h1)"
    and "request_ok d (''StopChain'', Some (enc_StopChainArgs (dh_sessionID a1))) h1"
    and "daemon_StopChain env a1 h1 = (e2, a2, h2)"
  shows "e1 = None \<and> IsChainActive h1 \<and> dh_sessionID a1 = se_id senv \<and>
     hp_config h1 ''sing-box.json'' = Some (sanitizeCoreConfig (se_float senv) ''sing-box'' runtimeDir (Some sb)) \<and>
     hp_config h1 ''xray.json'' = Some (sanitizeCoreConfig (se_float senv) ''xray'' runtimeDir (Some xr)) \<and>
     e2 = None \<and> hp_active h2 = None \<and> set (hp_running h2) \<subseteq> set (hp_running h) \<and> dh_sessionID a2 = []"
proof -
  let ?A = "zero_StartChainArgs \<lparr> sa_SingboxConfig := Some sb, sa_XrayConfig := Some xr, sa_ServerHost := host,
        sa_ServerPort := port, sa_TunName := dh_tunName a, sa_Mode := mode \<rparr>"
  let ?h1 = "snd (start_locked senv ?A h)"
  note sc = start_calm [OF assms(6,7), of ?A]
  obtain c where c: "daemon_call env ''StartChain'' (Some (enc_StartChainArgs sb xr host port (dh_tunName a) mode)) a h =
      (Inr (Some (enc_StartChainResult (se_id senv) (hp_pids h) (hp_pids h + 1))), a \<lparr> dh_c := Some c \<rparr>, ?h1)" "connected c"
    by (rule daemon_call_ok [OF assms(1,2,11) local_start [where d = d, OF assms(4,9,3,10,6,7)]])
  then have 1: "e1 = None" "a1 = a \<lparr> dh_c := Some c, dh_sessionID := se_id senv \<rparr>" "h1 = ?h1"
    using assms(8,9,12) by (auto simp: daemon_StartChain_def start_over_def dec_enc_StartChainResult)
  have r1: "daemon_ready a1" using c(2) by (simp add: 1 daemon_ready_def)
  have act: "hp_active h1 = Some (length (hp_heap h))" "length (hp_heap h) < length (hp_heap h1)" "ss_id (hp_heap h1 ! length (hp_heap h)) = se_id senv"
    using sc by (simp_all add: 1)
  obtain h2' where h2': "stop_locked (Child_Stop ev) None (se_id senv) h1 = (Inr (Some (JObj [(''status'', JStr ''stopped'')])), h2')"
    "hp_active h2' = None" "set (hp_running h2') = set (hp_running h1) - set_option (ss_xray (hp_heap h1 ! length (hp_heap h))) - set_option (ss_singbox (hp_heap h1 ! length (hp_heap h)))"
    by (rule stop_calm [OF act])
  have "local_call d (''StopChain'', Some (enc_StopChainArgs (dh_sessionID a1))) h1 = (Inr (Some (JObj [(''status'', JStr ''stopped'')])), h2')"
    using h2'(1) by (simp add: local_call_def assms(5) NewStopChainHandler_def enc_StopChainArgs_def StopChainArgs_fields_def find_field_def fld_def 1)
  then obtain c2 where c2: "daemon_call env ''StopChain'' (Some (enc_StopChainArgs (dh_sessionID a1))) a1 h1 =
      (Inr (Some (JObj [(''status'', JStr ''stopped'')])), a1 \<lparr> dh_c := Some c2 \<rparr>, h2')"
    using daemon_call_ok [OF r1 assms(2,13)] by blast
  have "checkStopResult (Some (JObj [(''status'', JStr ''stopped'')])) = None" by code_simp
  with c2 have 2: "e2 = None" "a2 = a1 \<lparr> dh_c := Some c2, dh_sessionID := [] \<rparr>" "h2 = h2'"
    using assms(14) by (auto simp: daemon_StopChain_def stop_over_def)
  have "set (hp_running h2) \<subseteq> set (hp_running h)" using h2'(3) sc(3,4) by (auto simp: 1 2)
  moreover have "IsChainActive h1" using act(1) sc(4) by (simp add: IsChainActive_def 1)
  ultimately show ?thesis using 1 2 h2'(2) sc(5,6) by simp
qed

section \<open>A lost answer\<close>











section \<open>Stopping what was started\<close>

text \<open>A call of the controller, or a question for the status.\<close>

definition routing_step :: "'s HelperClient \<Rightarrow> 's HelperClient \<Rightarrow> call option \<Rightarrow> backend option \<times> 's \<Rightarrow> backend option \<times> 's" where
  "routing_step inproc daemon q st =
     (case q of None \<Rightarrow> snd (routing_status inproc daemon st) | Some operation \<Rightarrow> snd (routing_call inproc daemon operation st))"

definition starts :: "call option \<Rightarrow> bool" where
  "starts q \<longleftrightarrow> (case q of Some (StartChain sb xr mode) \<Rightarrow> True | _ \<Rightarrow> False)"

lemma routing_latched:
  assumes "\<not> starts q" "fst st = Some b"
  shows "fst (routing_step inproc daemon q st) = Some b"
  using assms by (cases st) (auto simp: routing_step_def routing_call_def routing_status_def starts_def split: option.splits call.splits prod.splits)

text \<open>
  C26. A chain is stopped where it was started. After a start, whether it succeeded or not, and any calls and questions
  that are not a start, a stop goes to the client of the mode of that start: the daemon for TUN, and the
  cores of this process for the system proxy.
\<close>

theorem stop_reaches_started:
  assumes "list_all (\<lambda>q. \<not> starts q) ops"
    and "st' = fold (routing_step inproc daemon) ops (snd (routing_call inproc daemon (StartChain sb xr mode) st))"
  shows "routing_call inproc daemon StopChain st' =
     (let res = hc_call (if mode = ModeTUN then daemon else inproc) StopChain (snd st') in (fst res, fst st', snd res))"
proof -
  have "fst (fold (routing_step inproc daemon) ops st0) = Some b" if "fst st0 = Some b" for b st0
    using assms(1) that by (induction ops arbitrary: st0) (simp_all add: routing_latched)
  moreover have "fst (snd (routing_call inproc daemon (StartChain sb xr mode) st)) = Some (mode_backend mode)"
    by (cases st) (simp add: routing_call_def split: prod.split)
  ultimately have "fst st' = Some (mode_backend mode)" using assms(2) by blast
  then show ?thesis by (cases st') (simp add: routing_call_def mode_backend_def backend_of_def Let_def split: prod.split)
qed

text \<open>
  A client that is connected on demand answers like the client itself, once it can be reached; and after a start that
  failed, the next call connects again.
\<close>

lemma lazy_transparent:
  assumes "dial s = Inr s"
  shows "fst (hc_call (lazyHelperClient dial k) operation (cur, s)) = fst (hc_call k operation s)"
    "snd (snd (hc_call (lazyHelperClient dial k) operation (cur, s))) = snd (hc_call k operation s)"
  using assms by (auto simp: lazyHelperClient_def lazy_teardown_def lazy_required_def lazy_get_def split: prod.split option.split)

lemma lazy_redials:
  "fst (hc_call (lazyHelperClient dial k) (StartChain sb xr mode) l) \<noteq> None
    \<Longrightarrow> fst (snd (hc_call (lazyHelperClient dial k) (StartChain sb xr mode) l)) = False"
  by (cases l) (auto simp: lazyHelperClient_def lazy_required_def lazy_get_def split: prod.splits option.splits sum.splits if_splits)

section \<open>Instances that would not close\<close>

text \<open>The client and the instances: it runs exactly what is alive.\<close>

definition core_inv :: "coreHelperClient \<times> instances \<Rightarrow> bool" where
  "core_inv = (\<lambda>(h, w).
     list_all (\<lambda>n. n < in_next w) (in_live w) \<and>
     (if ch_running h
      then (\<exists>x b. ch_runner h = Some \<lparr> mg_sbx = Some b, mg_xry = Some x \<rparr> \<and> in_live w = [x, b] \<and> x \<noteq> b)
      else ch_runner h = None \<and> in_live w = []))"

definition closes :: "core_env \<Rightarrow> bool" where
  "closes env \<longleftrightarrow> co_closeX env = Closed \<and> co_closeSB env = Closed"

lemma core_step_inv:
  assumes "core_inv (h, w)" "closes env"
  shows "core_inv (snd (core_StartChain env mode h w))" "core_inv (snd (core_StopChain env h w))"
    "fst (core_StopChain env h w) = None" "in_live (snd (snd (core_StopChain env h w))) = []"
  using assms
  by (auto simp: core_inv_def closes_def core_StartChain_def core_StopChain_def Manager_Start_def Manager_Stop_def NewManager_def
      engine_Start_def engine_Close_def Let_def split: option.splits if_splits)

text \<open>
  A core that would not close is forgotten. If closing the sing-box instance fails and it stays alive, \<^verbatim>\<open>StopChain\<close>
  reports the error once; after that the client takes the chain for stopped, and every later \<^verbatim>\<open>StopChain\<close> succeeds without doing
  anything, although the instance is alive.
\<close>

theorem failed_close_forgotten:
  assumes "core_inv (h, w)" "ch_running h" "co_closeSB env = CloseFailed e True"
    and "core_StopChain env h w = (r, h', w')"
  shows "r = Some e \<and> in_live w' \<noteq> [] \<and> \<not> st_Running (core_ServiceStatus env2 h') \<and> core_StopChain env2 h' w' = (None, h', w')"
  using assms
  by (auto simp: core_inv_def core_StopChain_def Manager_Stop_def engine_Close_def core_ServiceStatus_def zero_ChainState_def Let_def
      split: close_result.splits if_splits)

section \<open>Examples\<close>

definition demo_start :: start_env where
  "demo_start = \<lparr> se_decode = [], se_id = ''s1'', se_mkdir = None, se_write_sb = None, se_write_xr = None, se_exe_sb = None, se_spawn_sb = None,
     se_exe_xr = None, se_spawn_xr = None, se_stop = ExitsInGrace, se_float = (\<lambda>_. None) \<rparr>"

definition demo_daemon :: "Helper Dispatcher" where
  "demo_daemon = [''StartChain'' \<mapsto> NewStartChainHandler demo_start, ''StopChain'' \<mapsto> NewStopChainHandler [] (Child_Stop ExitsInGrace) None]"

definition demo_xray :: json where
  "demo_xray = JObj [(''outbounds'', JArr [JObj [(''settings'', JObj [(''vnext'', JArr [JObj [(''address'', JStr ''v''), (''port'', JNum 443)]])])]])]"

definition demo_env :: "bool \<Rightarrow> Helper daemon_env" where
  "demo_env lost = \<lparr> de_dial = (\<lambda>_. None), de_call = (\<lambda>second. \<lparr> ce_before = False, ce_dial = None, ce_during = lost \<and> \<not> second \<rparr>),
     de_peer = (\<lambda>_. helper_peer (\<lambda>_. []) demo_daemon) \<rparr>"

lemma demo_endpoint: "xrayServerEndpoint (Some demo_xray) = Inr (''v'', 443)"
  by (simp add: xrayServerEndpoint_def demo_xray_def document_fields_def outbound_fields_def vnext_fields_def endpoint_fields_def find_field_def
      fld_def dec_slice_def)

lemma demo_handlers:
  "demo_daemon ''StartChain'' = Some (NewStartChainHandler demo_start)"
  "demo_daemon ''StopChain'' = Some (NewStopChainHandler [] (Child_Stop ExitsInGrace) None)"
  by (simp_all add: demo_daemon_def)

lemma demo_calm: "calm_start demo_start" "hp_active new_Helper = None"
  by (simp_all add: calm_start_def demo_start_def new_Helper_def)

lemma answer_local:
  "local_call d (operation, args) w = (Inr res, w') \<Longrightarrow> answer d \<lparr> rq_ID = i, rq_Op = operation, rq_Args = args \<rparr> w = (NewOK i res, w')"
  "local_call d (operation, args) w = (Inl (RemoteError m), w') \<Longrightarrow> answer d \<lparr> rq_ID = i, rq_Op = operation, rq_Args = args \<rparr> w = (NewError i m, w')"
  by (auto simp: local_call_def answer_def split: option.splits prod.splits sum.splits)

definition demo_args :: "json option" where
  "demo_args = Some (enc_StartChainArgs (JObj []) demo_xray ''v'' 443 defaultTunName ModeTUN)"

lemma demo_request: "sendable (enc_Request \<lparr> rq_ID = 0, rq_Op = ''StartChain'', rq_Args = demo_args \<rparr>)"
  by (auto simp: demo_args_def enc_StartChainArgs_def demo_xray_def ModeTUN_def defaultTunName_def enc_Request_def raw_field_def jopt_def ascii_utf8
      int_str_def nat_str.simps intro!: sendable_bound)

lemma demo_started:
  obtains h1 where "local_call demo_daemon (''StartChain'', demo_args) new_Helper = (Inr (Some (enc_StartChainResult ''s1'' 1 2)), h1)"
    "hp_active h1 = Some 0" "ss_id (hp_heap h1 ! 0) = ''s1''" "length (hp_heap h1) = 1"
proof -
  let ?A = "zero_StartChainArgs \<lparr> sa_SingboxConfig := Some (JObj []), sa_XrayConfig := Some demo_xray, sa_ServerHost := ''v'',
        sa_ServerPort := 443, sa_TunName := defaultTunName, sa_Mode := ModeTUN \<rparr>"
  have "defaultTunName \<noteq> []" by (simp add: defaultTunName_def)
  from local_start [where d = demo_daemon and sb = "JObj []" and mode = ModeTUN, OF demo_handlers(1) demo_endpoint this disjI1 [OF refl] demo_calm]
  have l: "local_call demo_daemon (''StartChain'', demo_args) new_Helper = (Inr (Some (enc_StartChainResult ''s1'' 1 2)), snd (start_locked demo_start ?A new_Helper))"
    by (simp add: demo_args_def demo_start_def new_Helper_def numeral_2_eq_2)
  show ?thesis
    using that [OF l] start_calm [OF demo_calm, of ?A] by (simp add: new_Helper_def demo_start_def)
qed

lemma demo_request_ok: "request_ok demo_daemon (''StartChain'', demo_args) new_Helper"
proof -
  obtain h1 where "local_call demo_daemon (''StartChain'', demo_args) new_Helper = (Inr (Some (enc_StartChainResult ''s1'' 1 2)), h1)" by (rule demo_started)
  from answer_local(1) [OF this, of 0] demo_request show ?thesis
    by (auto simp: request_ok_def NewOK_def enc_Response_def enc_StartChainResult_def raw_field_def jopt_def ascii_utf8 int_str_def nat_str.simps
        intro!: sendable_bound)
qed





theorem failed_close_forgotten_witness:
  "\<exists>h' w'. core_StopChain \<lparr> co_startX = None, co_startSB = None, co_closeX = Closed, co_closeSB = CloseFailed ''busy'' True, co_counters = None \<rparr>
       \<lparr> ch_runner = Some \<lparr> mg_sbx = Some 2, mg_xry = Some 1 \<rparr>, ch_stats = True, ch_running = True \<rparr> \<lparr> in_live = [1, 2], in_next = 3 \<rparr> = (Some ''busy'', h', w') \<and>
     in_live w' \<noteq> []"
proof -
  let ?env = "\<lparr> co_startX = None, co_startSB = None, co_closeX = Closed, co_closeSB = CloseFailed ''busy'' True, co_counters = None \<rparr>"
  let ?h = "\<lparr> ch_runner = Some \<lparr> mg_sbx = Some 2, mg_xry = Some 1 \<rparr>, ch_stats = True, ch_running = True \<rparr>" and ?w = "\<lparr> in_live = [1, 2], in_next = 3 \<rparr>"
  have i: "core_inv (?h, ?w)" by (simp add: core_inv_def)
  obtain r h' w' where s: "core_StopChain ?env ?h ?w = (r, h', w')" by (metis prod_cases3)
  from failed_close_forgotten [OF i _ _ s, of "''busy''" ?env] show ?thesis using s by auto
qed

lemma demo_stop_ok:
  assumes "hp_active h1 = Some 0" "ss_id (hp_heap h1 ! 0) = ''s1''" "length (hp_heap h1) = 1"
  shows "request_ok demo_daemon (''StopChain'', Some (enc_StopChainArgs ''s1'')) h1"
proof -
  obtain h2 where "stop_locked (Child_Stop ExitsInGrace) None ''s1'' h1 = (Inr (Some (JObj [(''status'', JStr ''stopped'')])), h2)"
    by (rule stop_calm [OF assms(1) _ assms(2)]) (use assms(3) in simp_all)
  then have "local_call demo_daemon (''StopChain'', Some (enc_StopChainArgs ''s1'')) h1 = (Inr (Some (JObj [(''status'', JStr ''stopped'')])), h2)"
    by (simp add: local_call_def demo_handlers NewStopChainHandler_def enc_StopChainArgs_def StopChainArgs_fields_def find_field_def fld_def)
  from answer_local(1) [OF this, of 0] show ?thesis
    by (auto simp: request_ok_def NewOK_def enc_Request_def enc_Response_def enc_StopChainArgs_def raw_field_def jopt_def ascii_utf8 int_str_def
        nat_str.simps intro!: sendable_bound)
qed

theorem session_over_wire_witness:
  "\<exists>a1 h1 a2 h2. daemon_StartChain (demo_env False) (Some (JObj [])) (Some demo_xray) ModeTUN newDaemonHelperClient new_Helper = (None, a1, h1) \<and>
     IsChainActive h1 \<and> daemon_StopChain (demo_env False) a1 h1 = (None, a2, h2) \<and> hp_active h2 = None \<and> hp_running h2 = []"
proof -
  let ?a = newDaemonHelperClient and ?env = "demo_env False"
  obtain e1 a1 h1 where 1: "daemon_StartChain ?env (Some (JObj [])) (Some demo_xray) ModeTUN ?a new_Helper = (e1, a1, h1)" by (metis prod_cases3)
  obtain e2 a2 h2 where 2: "daemon_StopChain ?env a1 h1 = (e2, a2, h2)" by (metis prod_cases3)
  have a: "daemon_ready ?a" "dh_tunName ?a \<noteq> []" "dh_tunName ?a = defaultTunName"
    by (simp_all add: newDaemonHelperClient_def defaultTunName_def daemon_ready_def)
  have env: "clear_line (\<lambda>_. []) demo_daemon ?env False" by (simp add: clear_line_def demo_env_def uninterrupted_def)
  have ok: "request_ok demo_daemon (''StartChain'', Some (enc_StartChainArgs (JObj []) demo_xray ''v'' 443 (dh_tunName ?a) ModeTUN)) new_Helper"
    using demo_request_ok by (simp add: demo_args_def a(3))
  obtain h where h: "local_call demo_daemon (''StartChain'', demo_args) new_Helper = (Inr (Some (enc_StartChainResult ''s1'' 1 2)), h)"
    "hp_active h = Some 0" "ss_id (hp_heap h ! 0) = ''s1''" "length (hp_heap h) = 1" by (rule demo_started)
  have "local_call demo_daemon (''StartChain'', Some (enc_StartChainArgs (JObj []) demo_xray ''v'' 443 (dh_tunName ?a) ModeTUN)) new_Helper =
      (Inr (Some (enc_StartChainResult ''s1'' 1 2)), h)" using h(1) by (simp add: demo_args_def a(3))
  then obtain c where "daemon_call ?env ''StartChain'' (Some (enc_StartChainArgs (JObj []) demo_xray ''v'' 443 (dh_tunName ?a) ModeTUN)) ?a new_Helper =
      (Inr (Some (enc_StartChainResult ''s1'' 1 2)), ?a \<lparr> dh_c := Some c \<rparr>, h)"
    using daemon_call_ok [OF a(1) env ok] by blast
  then have "daemon_StartChain ?env (Some (JObj [])) (Some demo_xray) ModeTUN ?a new_Helper = (None, ?a \<lparr> dh_c := Some c, dh_sessionID := ''s1'' \<rparr>, h)"
    by (simp add: daemon_StartChain_def start_over_def demo_endpoint dec_enc_StartChainResult)
  then have "h1 = h" "dh_sessionID a1 = ''s1''" using 1 by auto
  then have stop: "request_ok demo_daemon (''StopChain'', Some (enc_StopChainArgs (dh_sessionID a1))) h1" using demo_stop_ok [OF h(2-4)] by simp
  have pids: "hp_pids new_Helper + 1 < 2 ^ 63" by (simp add: new_Helper_def)
  from session_over_wire [where d = demo_daemon, OF a(1) env a(2) demo_handlers demo_calm pids demo_endpoint disjI1 [OF refl] ok 1 stop 2]
  show ?thesis using 1 2 by (simp add: new_Helper_def)
qed

definition demo_core :: core_env where
  "demo_core = \<lparr> co_startX = None, co_startSB = None, co_closeX = Closed, co_closeSB = Closed, co_counters = None \<rparr>"

theorem stop_reaches_started_witness:
  "\<exists>inproc daemon st'. inproc = on_core (core_client demo_core) \<and> daemon = on_daemon (daemon_client (\<lambda>_. []) (demo_env False)) \<and>
     st' = fold (routing_step inproc daemon) [None, Some TunDestroy] (snd (routing_call inproc daemon (StartChain (JObj []) demo_xray ModeSys)
       (None, (NewCoreHelperClient, \<lparr> in_live = [], in_next = 1 \<rparr>), newDaemonHelperClient, new_Helper))) \<and>
     routing_call inproc daemon StopChain st' = (let res = hc_call inproc StopChain (snd st') in (fst res, fst st', snd res))"
proof -
  let ?i = "on_core (core_client demo_core)" and ?d = "on_daemon (daemon_client (\<lambda>_. []) (demo_env False))"
  have "list_all (\<lambda>q. \<not> starts q) [None, Some TunDestroy]" by (simp add: starts_def)
  from stop_reaches_started [OF this refl, of ?i ?d "JObj []" demo_xray ModeSys] show ?thesis by (simp add: ModeSys_def ModeTUN_def)
qed

end
