(* ===== verification/Bridge_Rpc.thy ===== *)
theory Bridge_Rpc
  imports Rules_Service Helper_Proto Hub
begin

text \<open>
  What the user interface talks to: \<^verbatim>\<open>cmd/itgray-bridge/dispatcher\<close> (JSON-RPC over lines of text, with requests handled in
  parallel), bus and forwarder (events), and \<^verbatim>\<open>handlers/rules.go\<close> on top of the rules service. Handlers lock what they
  share, so a handler is one step; the interleaving of reading, handling and writing is free.
\<close>

section \<open>Messages\<close>

record RpcRequest =
  jq_JSONRPC :: string
  jq_ID :: "json option"
  jq_Method :: string
  jq_Params :: "json option"

definition RpcRequest_fields :: "RpcRequest fields" where
  "RpcRequest_fields =
     [(''jsonrpc'', fld jq_JSONRPC (\<lambda>x r. r \<lparr> jq_JSONRPC := x \<rparr>) dec_string),
      (''id'', fld jq_ID (\<lambda>x r. r \<lparr> jq_ID := x \<rparr>) dec_raw),
      (''method'', fld jq_Method (\<lambda>x r. r \<lparr> jq_Method := x \<rparr>) dec_string),
      (''params'', fld jq_Params (\<lambda>x r. r \<lparr> jq_Params := x \<rparr>) dec_raw)]"

definition zero_RpcRequest :: RpcRequest where
  "zero_RpcRequest = \<lparr> jq_JSONRPC = [], jq_ID = None, jq_Method = [], jq_Params = None \<rparr>"

definition dec_RpcRequest :: "string \<Rightarrow> RpcRequest option" where
  "dec_RpcRequest line = Option.bind (json_parse line) (\<lambda>j. dec_struct RpcRequest_fields j zero_RpcRequest)"

record RpcError =
  je_Code :: int
  je_Message :: string
  je_Data :: "json option"

definition CodeParseError :: int where "CodeParseError = - 32700"
definition CodeInvalidRequest :: int where "CodeInvalidRequest = - 32600"
definition CodeMethodNotFound :: int where "CodeMethodNotFound = - 32601"
definition CodeInternal :: int where "CodeInternal = - 32603"
definition JSONRPCVersion :: string where "JSONRPCVersion = ''2.0''"

record RpcResponse =
  jr_ID :: "json option"
  jr_Result :: "json option"
  jr_Error :: "RpcError option"

definition enc_RpcError :: "RpcError \<Rightarrow> json" where
  "enc_RpcError e = JObj ([(''code'', JNum (je_Code e)), (''message'', JStr (je_Message e))] @ raw_field ''data'' (je_Data e))"

text \<open>An identifier that is absent is written as null.\<close>

definition enc_RpcResponse :: "RpcResponse \<Rightarrow> json" where
  "enc_RpcResponse r =
     JObj ([(''jsonrpc'', JStr JSONRPCVersion), (''id'', case jr_ID r of None \<Rightarrow> JNull | Some j \<Rightarrow> j)]
       @ raw_field ''result'' (jr_Result r) @ raw_field ''error'' (map_option enc_RpcError (jr_Error r)))"

section \<open>One request\<close>

datatype handler_error = RpcFailure RpcError | PlainFailure string

text \<open>A handler fails, or gives a value, which is a document or cannot be written as one.\<close>

type_synonym 'w rpc_handler = "json option \<Rightarrow> 'w \<Rightarrow> (handler_error + string + json) \<times> 'w"
type_synonym 'w rpc_dispatcher = "string \<rightharpoonup> 'w rpc_handler"

definition rpc_New :: "'w rpc_dispatcher" where "rpc_New = Map.empty"

text \<open>A method that is registered twice is a panic.\<close>

definition rpc_Register :: "string \<Rightarrow> 'w rpc_handler \<Rightarrow> 'w rpc_dispatcher \<Rightarrow> 'w rpc_dispatcher option" where
  "rpc_Register method h d = (case d method of Some _ \<Rightarrow> None | None \<Rightarrow> Some (d(method \<mapsto> h)))"

definition rpc_error :: "json option \<Rightarrow> int \<Rightarrow> string \<Rightarrow> RpcResponse" where
  "rpc_error i code message = \<lparr> jr_ID = i, jr_Result = None, jr_Error = Some \<lparr> je_Code = code, je_Message = message, je_Data = None \<rparr> \<rparr>"

definition rpc_handle :: "'w rpc_dispatcher \<Rightarrow> string \<Rightarrow> 'w \<Rightarrow> RpcResponse option \<times> 'w" where
  "rpc_handle d line w =
     (case dec_RpcRequest line of
        None \<Rightarrow> (Some (rpc_error (Some JNull) CodeParseError ''invalid JSON''), w)
      | Some req \<Rightarrow>
          (if jq_JSONRPC req \<noteq> JSONRPCVersion then (Some (rpc_error (jq_ID req) CodeInvalidRequest ''bad jsonrpc version''), w)
           else if jq_ID req = None then (None, w)
           else case d (jq_Method req) of
             None \<Rightarrow> (Some (rpc_error (jq_ID req) CodeMethodNotFound (''method not found: '' @ jq_Method req)), w)
           | Some h \<Rightarrow>
               (case h (jq_Params req) w of
                  (Inl (RpcFailure e), w) \<Rightarrow> (Some \<lparr> jr_ID = jq_ID req, jr_Result = None, jr_Error = Some e \<rparr>, w)
                | (Inl (PlainFailure m), w) \<Rightarrow> (Some (rpc_error (jq_ID req) CodeInternal m), w)
                | (Inr (Inl m), w) \<Rightarrow> (Some (rpc_error (jq_ID req) CodeInternal (''marshal result: '' @ m)), w)
                | (Inr (Inr j), w) \<Rightarrow> (Some \<lparr> jr_ID = jq_ID req, jr_Result = Some j, jr_Error = None \<rparr>, w))))"

section \<open>Serving\<close>

definition maxConcurrentRequests :: nat where "maxConcurrentRequests = 32"

definition maxLineBytes :: nat where "maxLineBytes = 1024 * 1024"

text \<open>The lines that the scanner yields: a line that does not fit its buffer ends the input.\<close>

definition trim_cr :: "string \<Rightarrow> string" where
  "trim_cr l = (if l \<noteq> [] \<and> last l = CHR 0x0D then butlast l else l)"

definition rpc_lines :: "string \<Rightarrow> string list" where
  "rpc_lines text = map trim_cr (takeWhile (\<lambda>l. length l < maxLineBytes) (split_on (CHR 0x0A) text))"

text \<open>A request that waits for its handler, or for its answer to be written.\<close>

datatype flight = Waiting string | Answered "RpcResponse option"

text \<open>The read loop holds a line while it waits for one of the handlers to end.\<close>

record 'w serving =
  sv_lines :: "string list"
  sv_held :: "string option"
  sv_flying :: "flight list"
  sv_out :: "RpcResponse list"
  sv_failed :: bool
  sv_world :: 'w

definition serve_start :: "string \<Rightarrow> 'w \<Rightarrow> 'w serving" where
  "serve_start text w =
     \<lparr> sv_lines = rpc_lines text, sv_held = None, sv_flying = [], sv_out = [], sv_failed = False, sv_world = w \<rparr>"

text \<open>\<open>d\<close> gives the handlers for what a call finds outside (random numbers, the success of writes).\<close>

inductive serve_step :: "('e \<Rightarrow> 'w rpc_dispatcher) \<Rightarrow> 'w serving \<Rightarrow> 'w serving \<Rightarrow> bool" for d where
  Break: "sv_held s = None \<Longrightarrow> sv_lines s = l # ls \<Longrightarrow> sv_failed s \<Longrightarrow> serve_step d s (s \<lparr> sv_lines := [] \<rparr>)"
| Blank: "sv_held s = None \<Longrightarrow> sv_lines s = [] # ls \<Longrightarrow> \<not> sv_failed s \<Longrightarrow> serve_step d s (s \<lparr> sv_lines := ls \<rparr>)"
| Scan: "sv_held s = None \<Longrightarrow> sv_lines s = l # ls \<Longrightarrow> l \<noteq> [] \<Longrightarrow> \<not> sv_failed s \<Longrightarrow>
    serve_step d s (s \<lparr> sv_lines := ls, sv_held := Some l \<rparr>)"
| Accept: "sv_held s = Some l \<Longrightarrow> length (sv_flying s) < maxConcurrentRequests \<Longrightarrow>
    serve_step d s (s \<lparr> sv_held := None, sv_flying := sv_flying s @ [Waiting l] \<rparr>)"
| Handle: "i < length (sv_flying s) \<Longrightarrow> sv_flying s ! i = Waiting l \<Longrightarrow> rpc_handle (d e) l (sv_world s) = (r, w) \<Longrightarrow>
    serve_step d s (s \<lparr> sv_flying := (sv_flying s)[i := Answered r], sv_world := w \<rparr>)"
| Write: "i < length (sv_flying s) \<Longrightarrow> sv_flying s ! i = Answered (Some r) \<Longrightarrow> \<not> sv_failed s \<Longrightarrow>
    serve_step d s (s \<lparr> sv_flying := remove_at i (sv_flying s), sv_out := sv_out s @ [r] \<rparr>)"
| WriteFails: "i < length (sv_flying s) \<Longrightarrow> sv_flying s ! i = Answered (Some r) \<Longrightarrow> \<not> sv_failed s \<Longrightarrow>
    serve_step d s (s \<lparr> sv_flying := remove_at i (sv_flying s), sv_failed := True \<rparr>)"
| Drop: "i < length (sv_flying s) \<Longrightarrow> sv_flying s ! i = Answered r \<Longrightarrow> r = None \<or> sv_failed s \<Longrightarrow>
    serve_step d s (s \<lparr> sv_flying := remove_at i (sv_flying s) \<rparr>)"

inductive_cases serve_stepE: "serve_step d s s'"

text \<open>\<^verbatim>\<open>Serve\<close> returns once the loop has ended and no request is in flight: with the failed write, a line that was too long, or
  nothing.\<close>

definition serve_done :: "'w serving \<Rightarrow> bool" where
  "serve_done s \<longleftrightarrow> sv_lines s = [] \<and> sv_held s = None \<and> sv_flying s = []"

datatype serve_error = WriteError | LineTooLong

definition serve_result :: "string \<Rightarrow> 'w serving \<Rightarrow> serve_error option" where
  "serve_result text s =
     (if sv_failed s then Some WriteError
      else if \<exists>l \<in> set (split_on (CHR 0x0A) text). maxLineBytes \<le> length l then Some LineTooLong
      else None)"

section \<open>Events\<close>

text \<open>\<^verbatim>\<open>Bus.Emit\<close>: a notification; an absent payload is left out. An event of the hub without a payload carries a nil map, which is
  written as null.\<close>

definition Emit :: "string \<Rightarrow> json option \<Rightarrow> json" where
  "Emit topic payload =
     JObj ([(''jsonrpc'', JStr ''2.0''), (''method'', JStr (''event:'' @ topic))] @ raw_field ''params'' payload)"

definition hubToProtocol :: "string \<rightharpoonup> string" where
  "hubToProtocol = map_of
     [(''vpn:status'', ''vpn.status''), (''vpn:speed'', ''vpn.speed''), (''chain:error'', ''chain.error''), (''helper:state'', ''helper.state''),
      (''sub:synced'', ''sub.synced''), (''probe:result'', ''probe.result''), (''servers:changed'', ''servers.changed''),
      (''rules:changed'', ''rules.changed''), (''geo:progress'', ''geo.progress''), (''log:line'', ''log.line'')]"

text \<open>What the forwarder writes for the events it receives, until the end of the channel; those that are buffered when it is
  cancelled included.\<close>

fun Forwarder_drain :: "(string \<times> json) list \<Rightarrow> json list" where
  "Forwarder_drain [] = []"
| "Forwarder_drain ((name, payload) # evs) =
     (case hubToProtocol name of None \<Rightarrow> Forwarder_drain evs | Some topic \<Rightarrow> Emit topic (Some payload) # Forwarder_drain evs)"

lemma Forwarder_drain_known:
  "Forwarder_drain evs = map (\<lambda>(name, payload). Emit (the (hubToProtocol name)) (Some payload)) (filter (\<lambda>(name, payload). hubToProtocol name \<noteq> None) evs)"
  by (induction evs rule: Forwarder_drain.induct) (auto split: option.split)

section \<open>The handlers for rules\<close>

text \<open>What a call finds outside: the pattern compiler, the success of the write, random draws, and texts of errors.\<close>

record rules_env =
  re_regexp :: "string \<Rightarrow> bool"
  re_ok :: bool
  re_draw :: "nat \<Rightarrow> draw"
  re_text :: "svc_error \<Rightarrow> string"
  re_json :: string

definition with_params :: "rules_env \<Rightarrow> 'p fields \<Rightarrow> 'p \<Rightarrow> ('p \<Rightarrow> 'w \<Rightarrow> (handler_error + string + json) \<times> 'w) \<Rightarrow> 'w rpc_handler" where
  "with_params env fs z f params w =
     (case Option.bind params (\<lambda>j. dec_struct fs j z) of
        None \<Rightarrow> (Inl (PlainFailure (re_json env)), w)
      | Some p \<Rightarrow> f p w)"

definition reply :: "rules_env \<Rightarrow> ('a \<Rightarrow> json) \<Rightarrow> (svc_error + 'a) \<times> 'w \<Rightarrow> (handler_error + string + json) \<times> 'w" where
  "reply env f r = (case r of (Inl e, w) \<Rightarrow> (Inl (PlainFailure (re_text env e)), w) | (Inr x, w) \<Rightarrow> (Inr (Inr (f x)), w))"

definition emptyResult :: "unit \<Rightarrow> json" where "emptyResult x = JObj []"

definition id_result :: "string \<Rightarrow> json" where "id_result i = JObj [(''id'', JStr i)]"

definition enc_RuleView :: "RuleView \<Rightarrow> json" where
  "enc_RuleView r = JObj [(''id'', JStr (rv_ID r)), (''name'', JStr (rv_Name r)), (''enabled'', JBool (rv_Enabled r)),
     (''action'', JStr (rv_Action r)), (''conditions'', enc_Conditions (rv_Conditions r))]"

definition enc_GroupView :: "GroupView \<Rightarrow> json" where
  "enc_GroupView g = JObj [(''id'', JStr (gv_ID g)), (''name'', JStr (gv_Name g)), (''locked'', JBool (gv_Locked g)),
     (''enabled'', JBool (gv_Enabled g)), (''rules'', JArr (map enc_RuleView (gv_Rules g)))]"

definition enc_RulesView :: "string \<times> GroupView list \<Rightarrow> json" where
  "enc_RulesView v = JObj [(''defaultAction'', JStr (fst v)), (''groups'', JArr (map enc_GroupView (snd v)))]"

definition enc_ImportPreview :: "ImportPreviewView \<Rightarrow> json" where
  "enc_ImportPreview v = JObj [(''name'', JStr (ip_Name v)), (''groups'', JArr (map enc_GroupView (ip_Groups v))),
     (''proxyCount'', JNum (int (ip_ProxyCount v))), (''directCount'', JNum (int (ip_DirectCount v))), (''blockCount'', JNum (int (ip_BlockCount v)))]"

definition string_param :: "string \<Rightarrow> string fields" where
  "string_param n = [(n, fld (\<lambda>s. s) (\<lambda>x s. x) dec_string)]"

definition groupEdit_params :: "(string \<times> string \<times> bool) fields" where
  "groupEdit_params =
     [(''id'', fld fst (\<lambda>x (a, b, c). (x, b, c)) dec_string), (''name'', fld (\<lambda>(a, b, c). b) (\<lambda>x (a, b, c). (a, x, c)) dec_string),
      (''enabled'', fld (\<lambda>(a, b, c). c) (\<lambda>x (a, b, c). (a, b, x)) dec_bool)]"

definition ruleAdd_params :: "(string \<times> Rule) fields" where
  "ruleAdd_params = [(''groupId'', fld fst (\<lambda>x (a, b). (x, b)) dec_string), (''rule'', fld snd (\<lambda>x (a, b). (a, x)) (dec_struct Rule_fields))]"

definition ruleEdit_params :: "Rule fields" where
  "ruleEdit_params = [(''rule'', fld (\<lambda>r. r) (\<lambda>x r. x) (dec_struct Rule_fields))]"

definition ruleMove_params :: "(string \<times> string) fields" where
  "ruleMove_params = [(''id'', fld fst (\<lambda>x (a, b). (x, b)) dec_string), (''toGroupId'', fld snd (\<lambda>x (a, b). (a, x)) dec_string)]"

definition replaceAll_params :: "Model fields" where
  "replaceAll_params = [(''model'', fld (\<lambda>m. m) (\<lambda>x m. x) (dec_struct Model_fields))]"

definition h_List :: "rules_env \<Rightarrow> rules_state rpc_handler" where
  "h_List env params s = (Inr (Inr (enc_RulesView (RulesService_List s))), s)"

definition h_ReplaceAll :: "rules_env \<Rightarrow> rules_state rpc_handler" where
  "h_ReplaceAll env = with_params env replaceAll_params zero_Model (\<lambda>m s. reply env emptyResult (ReplaceAll (re_regexp env) (re_ok env) m s))"

definition h_GroupAdd :: "rules_env \<Rightarrow> rules_state rpc_handler" where
  "h_GroupAdd env = with_params env (string_param ''name'') [] (\<lambda>n s. reply env id_result (GroupAdd (re_ok env) n (re_draw env 0) s))"

definition h_GroupEdit :: "rules_env \<Rightarrow> rules_state rpc_handler" where
  "h_GroupEdit env = with_params env groupEdit_params ([], [], False) (\<lambda>(i, n, e) s. reply env emptyResult (GroupEdit (re_ok env) i n e s))"

definition h_GroupRemove :: "rules_env \<Rightarrow> rules_state rpc_handler" where
  "h_GroupRemove env = with_params env (string_param ''id'') [] (\<lambda>i s. reply env emptyResult (GroupRemove (re_ok env) i s))"

definition h_RuleAdd :: "rules_env \<Rightarrow> rules_state rpc_handler" where
  "h_RuleAdd env = with_params env ruleAdd_params ([], zero_Rule)
     (\<lambda>(g, r) s. reply env id_result (RuleAdd (re_regexp env) (re_ok env) g r (re_draw env 0) s))"

definition h_RuleEdit :: "rules_env \<Rightarrow> rules_state rpc_handler" where
  "h_RuleEdit env = with_params env ruleEdit_params zero_Rule (\<lambda>r s. reply env emptyResult (RuleEdit (re_regexp env) (re_ok env) r s))"

definition h_RuleRemove :: "rules_env \<Rightarrow> rules_state rpc_handler" where
  "h_RuleRemove env = with_params env (string_param ''id'') [] (\<lambda>i s. reply env emptyResult (RuleRemove (re_ok env) i s))"

definition h_RuleToggle :: "rules_env \<Rightarrow> rules_state rpc_handler" where
  "h_RuleToggle env = with_params env (string_param ''id'') [] (\<lambda>i s. reply env emptyResult (RuleToggle (re_ok env) i s))"

definition h_RuleMove :: "rules_env \<Rightarrow> rules_state rpc_handler" where
  "h_RuleMove env = with_params env ruleMove_params ([], []) (\<lambda>(i, g) s. reply env emptyResult (RuleMove (re_ok env) i g s))"

definition h_ImportPreview :: "rules_env \<Rightarrow> rules_state rpc_handler" where
  "h_ImportPreview env = with_params env (string_param ''link'') [] (\<lambda>l s. reply env enc_ImportPreview (ImportPreview (re_regexp env) l, s))"

definition h_ImportApply :: "rules_env \<Rightarrow> rules_state rpc_handler" where
  "h_ImportApply env = with_params env (string_param ''link'') []
     (\<lambda>l s. reply env emptyResult (ImportApply (re_regexp env) (re_ok env) l (re_draw env) s))"

definition h_ExportGroup :: "rules_env \<Rightarrow> rules_state rpc_handler" where
  "h_ExportGroup env = with_params env (string_param ''groupId'') []
     (\<lambda>g s. reply env (\<lambda>l. JObj [(''link'', JStr l)]) (ExportGroup g s, s))"

text \<open>The methods that main registers for rules.\<close>

definition rules_methods :: "rules_env \<Rightarrow> (string \<times> rules_state rpc_handler) list" where
  "rules_methods env =
     [(''rules.list'', h_List env), (''rules.replaceAll'', h_ReplaceAll env), (''rules.groupAdd'', h_GroupAdd env), (''rules.groupEdit'', h_GroupEdit env),
      (''rules.groupRemove'', h_GroupRemove env), (''rules.ruleAdd'', h_RuleAdd env), (''rules.ruleEdit'', h_RuleEdit env),
      (''rules.ruleRemove'', h_RuleRemove env), (''rules.ruleToggle'', h_RuleToggle env), (''rules.ruleMove'', h_RuleMove env),
      (''rules.importPreview'', h_ImportPreview env), (''rules.importApply'', h_ImportApply env), (''rules.exportGroup'', h_ExportGroup env)]"

definition rules_dispatcher :: "rules_env \<Rightarrow> rules_state rpc_dispatcher" where
  "rules_dispatcher env = map_of (rules_methods env)"

section \<open>Every request is answered once\<close>

text \<open>The identifier of the answer that a line asks for, if it asks for one.\<close>

definition wants :: "string \<Rightarrow> json option option" where
  "wants line =
     (case dec_RpcRequest line of
        None \<Rightarrow> Some (Some JNull)
      | Some req \<Rightarrow> (if jq_JSONRPC req \<noteq> JSONRPCVersion then Some (jq_ID req) else if jq_ID req = None then None else Some (jq_ID req)))"

lemma rpc_handle_wants: "map_option jr_ID (fst (rpc_handle d line w)) = wants line"
  by (auto simp: rpc_handle_def wants_def rpc_error_def split: option.split prod.split sum.split handler_error.split)

fun flight_wants :: "flight \<Rightarrow> json option option" where
  "flight_wants (Waiting l) = wants l"
| "flight_wants (Answered r) = map_option jr_ID r"

definition asked :: "json option option list \<Rightarrow> json option multiset" where
  "asked qs = mset (concat (map (\<lambda>q. case q of None \<Rightarrow> [] | Some i \<Rightarrow> [i]) qs))"

definition line_asks :: "string list \<Rightarrow> json option multiset" where
  "line_asks ls = asked (map wants (filter (\<lambda>l. l \<noteq> []) ls))"

definition owed :: "'w serving \<Rightarrow> json option multiset" where
  "owed s = mset (map jr_ID (sv_out s)) + asked (map flight_wants (sv_flying s)) + asked (map wants (case sv_held s of None \<Rightarrow> [] | Some l \<Rightarrow> [l]))
     + line_asks (sv_lines s)"

lemma asked_append [simp]: "asked (xs @ ys) = asked xs + asked ys"
  by (simp add: asked_def)

lemma asked_remove: "i < length qs \<Longrightarrow> asked qs = asked (remove_at i qs) + asked [qs ! i]"
  by (subst id_take_nth_drop [of i qs]) (simp_all add: asked_def remove_at_def)

lemma asked_update: "i < length qs \<Longrightarrow> qs ! i = q \<Longrightarrow> asked (qs[i := q]) = asked qs"
  by (metis list_update_id)

lemma asked_None [simp]: "asked [None] = {#}"
  by (simp add: asked_def)

lemma asked_Some [simp]: "asked [Some x] = {#x#}"
  by (simp add: asked_def)

lemma asked_Nil [simp]: "asked [] = {#}"
  by (simp add: asked_def)

lemma line_asks_simps [simp]:
  "line_asks [] = {#}"
  "line_asks ([] # ls) = line_asks ls"
  "l \<noteq> [] \<Longrightarrow> line_asks (l # ls) = asked [wants l] + line_asks ls"
  by (simp_all add: line_asks_def asked_def)

lemma owed_step:
  assumes "serve_step d s s'" "\<not> sv_failed s'"
  shows "owed s' = owed s"
  using assms
proof cases
  case (Handle i l e r w)
  have "map flight_wants ((sv_flying s)[i := Answered r]) = map flight_wants (sv_flying s)"
    using Handle rpc_handle_wants [of "d e" l "sv_world s"]
    by (simp add: map_update) (metis flight_wants.simps(1) length_map list_update_id nth_map)
  then show ?thesis using Handle by (simp add: owed_def)
next
  case (Write i r)
  then show ?thesis using asked_remove [of i "map flight_wants (sv_flying s)"]
    by (simp add: owed_def map_remove_at)
next
  case (Drop i r)
  then show ?thesis using assms asked_remove [of i "map flight_wants (sv_flying s)"]
    by (simp add: owed_def map_remove_at)
qed (use assms in \<open>simp_all add: owed_def\<close>)

lemma failed_step: "serve_step d s s' \<Longrightarrow> sv_failed s \<Longrightarrow> sv_failed s'"
  by (erule serve_stepE) simp_all

lemma flying_step: "serve_step d s s' \<Longrightarrow> length (sv_flying s) \<le> maxConcurrentRequests \<Longrightarrow> length (sv_flying s') \<le> maxConcurrentRequests"
  by (erule serve_stepE) auto

lemma serving_invariant:
  assumes "(serve_step d)\<^sup>*\<^sup>* (serve_start text w) s"
  shows "length (sv_flying s) \<le> maxConcurrentRequests \<and> (\<not> sv_failed s \<longrightarrow> owed s = line_asks (rpc_lines text))"
  using assms
proof (induction rule: rtranclp_induct)
  case base
  then show ?case by (simp add: serve_start_def owed_def)
next
  case (step s s')
  then show ?case using owed_step flying_step failed_step by metis
qed

section \<open>Serving ends\<close>

fun flight_weight :: "flight \<Rightarrow> nat" where
  "flight_weight (Waiting l) = 2"
| "flight_weight (Answered r) = 1"

definition serve_weight :: "'w serving \<Rightarrow> nat" where
  "serve_weight s = 4 * length (sv_lines s) + (if sv_held s = None then 0 else 3) + sum_list (map flight_weight (sv_flying s))"

lemma sum_list_remove: "i < length xs \<Longrightarrow> sum_list xs = sum_list (remove_at i xs) + (xs ! i :: nat)"
  by (subst id_take_nth_drop [of i xs]) (simp_all add: remove_at_def)

lemma sum_list_update_add: "i < length xs \<Longrightarrow> sum_list (xs[i := x]) + xs ! i = sum_list xs + (x :: nat)"
  by (induction xs arbitrary: i) (auto split: nat.split)

lemma serve_weight_less:
  assumes "serve_step d s s'"
  shows "serve_weight s' < serve_weight s"
  using assms
proof cases
  case (Handle i l e r w)
  then show ?thesis using sum_list_update_add [of i "map flight_weight (sv_flying s)" 1]
    by (simp add: serve_weight_def map_update)
next
  case (Write i r)
  then show ?thesis using sum_list_remove [of i "map flight_weight (sv_flying s)"]
    by (simp add: serve_weight_def map_remove_at)
next
  case (WriteFails i r)
  then show ?thesis using sum_list_remove [of i "map flight_weight (sv_flying s)"]
    by (simp add: serve_weight_def map_remove_at)
next
  case (Drop i r)
  then show ?thesis using sum_list_remove [of i "map flight_weight (sv_flying s)"]
    by (simp add: serve_weight_def map_remove_at)
qed (simp_all add: serve_weight_def)

lemma flying_progress:
  assumes "sv_flying s \<noteq> []"
  shows "\<exists>s'. serve_step d s s'"
proof (cases "sv_flying s ! 0")
  case (Waiting l)
  then show ?thesis using assms serve_step.Handle [of 0 s l d undefined] by (metis length_greater_0_conv surj_pair)
next
  case (Answered r)
  then show ?thesis
    using assms serve_step.Write [of 0 s "the r" d] serve_step.Drop [of 0 s r d] by (cases r) auto
qed

lemma serve_progress:
  assumes "\<not> serve_done s"
  shows "\<exists>s'. serve_step d s s'"
proof (cases "sv_flying s = []")
  case True
  show ?thesis
  proof (cases "sv_held s")
    case (Some l)
    then show ?thesis using True serve_step.Accept [of s l d] by (auto simp: maxConcurrentRequests_def)
  next
    case None
    then obtain l ls where "sv_lines s = l # ls" using assms True by (cases "sv_lines s") (auto simp: serve_done_def)
    then show ?thesis using None serve_step.Break [of s l ls d] serve_step.Blank [of s ls d] serve_step.Scan [of s l ls d] by blast
  qed
qed (rule flying_progress)

lemma serve_wf: "wfp (\<lambda>s' s. serve_step d s s')"
  by (rule wfp_if_convertible_to_nat [of _ serve_weight]) (rule serve_weight_less)

lemma serve_stuck: "serve_done s \<longleftrightarrow> \<not> (\<exists>s'. serve_step d s s')"
proof
  show "\<not> (\<exists>s'. serve_step d s s')" if "serve_done s" using that by (auto simp: serve_done_def elim!: serve_stepE)
qed (use serve_progress in blast)

section \<open>What a call for rules does\<close>

definition served :: "rules_env \<Rightarrow> bool \<Rightarrow> rules_state \<Rightarrow> (handler_error + string + json) \<times> rules_state \<Rightarrow> bool" where
  "served env rep s r \<longleftrightarrow> (\<exists>e. r = (Inl e, s)) \<or> (\<exists>j. r = (Inr (Inr j), s))
     \<or> (\<exists>j p s'. r = (Inr (Inr j), s') \<and> exec (re_regexp env) (re_ok env) p s = (Inr (), s') \<and> is_replace p = rep)"

lemma void_unit: "void r = r"
  by (cases r) (auto simp: void_def split: sum.split)

lemma exec_refused: "exec re ok p s = (Inl e, s') \<Longrightarrow> s' = s"
proof (cases "is_replace p")
  case True
  then obtain m where "p = OpReplaceAll m" by (cases p) simp_all
  moreover assume "exec re ok p s = (Inl e, s')"
  ultimately show ?thesis using ReplaceAll_cases [of re ok m s] by (cases ok) (auto simp: commit_ok commit_failed)
next
  case False
  moreover assume "exec re ok p s = (Inl e, s')"
  ultimately show ?thesis using exec_outcome [of p re ok s] by (cases ok) (auto simp: outcome_def commit_ok commit_failed)
qed

lemma served_reply:
  assumes "exec (re_regexp env) (re_ok env) p s = void r"
  shows "served env (is_replace p) s (reply env f r)"
proof (cases "fst r")
  case (Inl e)
  then have "exec (re_regexp env) (re_ok env) p s = (Inl e, snd r)" using assms by (simp add: void_def)
  then show ?thesis using Inl exec_refused by (cases r) (auto simp: served_def reply_def)
next
  case (Inr x)
  then show ?thesis using assms by (cases r) (auto simp: served_def reply_def void_def)
qed

lemma served_params:
  assumes "\<And>p. served env rep s (f p s)"
  shows "served env rep s (with_params env fs z f params s)"
  using assms by (auto simp: with_params_def served_def split: option.split)

lemma served_read: "served env rep s (reply env f (r, s))"
  by (auto simp: served_def reply_def split: sum.split)

lemmas served_ops =
  served_reply [of env "OpGroupAdd n d" s "GroupAdd (re_ok env) n d s" for env n d s, simplified]
  served_reply [of env "OpGroupEdit i n e" s "GroupEdit (re_ok env) i n e s" for env i n e s, simplified void_unit, simplified]
  served_reply [of env "OpGroupRemove i" s "GroupRemove (re_ok env) i s" for env i s, simplified void_unit, simplified]
  served_reply [of env "OpRuleAdd i r d" s "RuleAdd (re_regexp env) (re_ok env) i r d s" for env i r d s, simplified]
  served_reply [of env "OpRuleEdit r" s "RuleEdit (re_regexp env) (re_ok env) r s" for env r s, simplified void_unit, simplified]
  served_reply [of env "OpRuleRemove i" s "RuleRemove (re_ok env) i s" for env i s, simplified void_unit, simplified]
  served_reply [of env "OpRuleToggle i" s "RuleToggle (re_ok env) i s" for env i s, simplified void_unit, simplified]
  served_reply [of env "OpRuleMove i g" s "RuleMove (re_ok env) i g s" for env i g s, simplified void_unit, simplified]
  served_reply [of env "OpReplaceAll m" s "ReplaceAll (re_regexp env) (re_ok env) m s" for env m s, simplified void_unit, simplified]
  served_reply [of env "OpImportApply l d" s "ImportApply (re_regexp env) (re_ok env) l d s" for env l d s, simplified void_unit, simplified]

lemmas handler_defs = h_List_def h_ReplaceAll_def h_GroupAdd_def h_GroupEdit_def h_GroupRemove_def h_RuleAdd_def h_RuleEdit_def
  h_RuleRemove_def h_RuleToggle_def h_RuleMove_def h_ImportPreview_def h_ImportApply_def h_ExportGroup_def

lemma rules_methods_served:
  assumes "rules_dispatcher env n = Some h"
  shows "served env (n = ''rules.replaceAll'') s (h params s)"
proof -
  have "(n, h) \<in> set (rules_methods env)" using assms by (auto simp: rules_dispatcher_def dest: map_of_SomeD)
  moreover have "list_all (\<lambda>(n, h). served env (n = ''rules.replaceAll'') s (h params s)) (rules_methods env)"
    unfolding rules_methods_def list.pred_inject prod.case handler_defs
    by (intro conjI TrueI) (auto intro!: served_params served_ops served_read simp: split_def served_def [of _ _ _ "(Inr (Inr _), _)"])
  ultimately show ?thesis by (auto simp: list_all_iff)
qed

definition replaces :: "string \<Rightarrow> bool" where
  "replaces line = (case dec_RpcRequest line of None \<Rightarrow> False | Some req \<Rightarrow> jq_Method req = ''rules.replaceAll'')"

text \<open>The outcome of a line: nothing changed, or a change of the service that was asked for and reported as done.\<close>

lemma rpc_handle_served:
  assumes "rpc_handle (rules_dispatcher env) l w = (r, w')"
  shows "w' = w \<and> (\<forall>x. r = Some x \<longrightarrow> (jr_Error x = None \<longleftrightarrow> jr_Result x \<noteq> None))
     \<or> (\<exists>x p. r = Some x \<and> jr_Error x = None \<and> jr_Result x \<noteq> None
          \<and> exec (re_regexp env) (re_ok env) p w = (Inr (), w') \<and> is_replace p = replaces l)"
proof (cases "\<exists>req h. dec_RpcRequest l = Some req \<and> jq_JSONRPC req = JSONRPCVersion \<and> jq_ID req \<noteq> None \<and> rules_dispatcher env (jq_Method req) = Some h")
  case True
  then obtain req h where q: "dec_RpcRequest l = Some req" "jq_JSONRPC req = JSONRPCVersion" "jq_ID req \<noteq> None"
      "rules_dispatcher env (jq_Method req) = Some h" by blast
  from rules_methods_served [OF q(4), of w "jq_Params req"] show ?thesis
    using assms q by (auto simp: rpc_handle_def served_def replaces_def rpc_error_def split: handler_error.splits)
next
  case False
  then show ?thesis using assms by (fastforce simp: rpc_handle_def rpc_error_def split: option.splits if_splits)
qed

lemma exec_done_announced: "exec re ok p s = (Inr (), s') \<Longrightarrow> rs_events s' = rs_events s @ [EventRulesChanged]"
proof (cases "is_replace p")
  case True
  then obtain m where "p = OpReplaceAll m" by (cases p) simp_all
  moreover assume "exec re ok p s = (Inr (), s')"
  ultimately show ?thesis using ReplaceAll_cases [of re ok m s] by (cases ok) (auto simp: commit_ok commit_failed publishChanged_def)
next
  case False
  moreover assume "exec re ok p s = (Inr (), s')"
  ultimately show ?thesis
    using exec_outcome [of p re ok s] by (cases ok) (auto simp: outcome_def commit_ok commit_failed publishChanged_def)
qed

fun flight_line :: "flight \<Rightarrow> string list" where
  "flight_line (Waiting l) = [l]"
| "flight_line (Answered r) = []"

definition unread :: "'w serving \<Rightarrow> string set" where
  "unread s = set (sv_lines s) \<union> set_option (sv_held s) \<union> set (concat (map flight_line (sv_flying s)))"

lemma flying_line: "i < length fs \<Longrightarrow> fs ! i = Waiting l \<Longrightarrow> l \<in> set (concat (map flight_line fs))"
  by (auto simp: in_set_conv_nth intro!: bexI [of _ "Waiting l"])

lemma unread_step: "serve_step d s s' \<Longrightarrow> unread s' \<subseteq> unread s"
  by (erule serve_stepE) (auto simp: unread_def dest!: in_set_remove_at in_set_update)

lemma locked_step:
  assumes "serve_step rules_dispatcher s s'" "\<And>l. l \<in> unread s \<Longrightarrow> \<not> replaces l"
  shows "locked_groups (Load (rs_disk (sv_world s'))) = locked_groups (Load (rs_disk (sv_world s)))"
  using assms
proof cases
  case (Handle i l e r w)
  then have "\<not> replaces l" using assms(2) flying_line [of i "sv_flying s" l] by (auto simp: unread_def)
  with rpc_handle_served [OF Handle(4)]
  have "w = sv_world s \<or> (\<exists>p. exec (re_regexp e) (re_ok e) p (sv_world s) = (Inr (), w) \<and> \<not> is_replace p)" by metis
  then show ?thesis using Handle exec_locked [of _ "re_regexp e" "re_ok e" "sv_world s"] by auto (metis snd_conv)
qed simp_all

lemma locked_run:
  assumes "(serve_step rules_dispatcher)\<^sup>*\<^sup>* s0 s" "\<And>l. l \<in> unread s0 \<Longrightarrow> \<not> replaces l"
  shows "unread s \<subseteq> unread s0 \<and> locked_groups (Load (rs_disk (sv_world s))) = locked_groups (Load (rs_disk (sv_world s0)))"
  using assms(1)
proof (induction rule: rtranclp_induct)
  case (step s s')
  then have "\<not> replaces l" if "l \<in> unread s" for l using assms(2) that by blast
  from locked_step [OF step(2) this] step.IH unread_step [OF step(2)] show ?case by auto
qed simp

section \<open>Examples\<close>

definition plain_env :: rules_env where
  "plain_env = \<lparr> re_regexp = (\<lambda>_. True), re_ok = True, re_draw = (\<lambda>_. (1, ''ab'')), re_text = (\<lambda>_. ''refused''), re_json = ''bad'' \<rparr>"

definition garbage :: string where "garbage = ''x''"

definition answered_garbage :: "rules_state serving" where
  "answered_garbage = \<lparr> sv_lines = [], sv_held = None, sv_flying = [],
     sv_out = [rpc_error (Some JNull) CodeParseError ''invalid JSON''], sv_failed = False, sv_world = first_run \<rparr>"

lemma garbage_lines: "rpc_lines garbage = [garbage]"
  by (simp add: rpc_lines_def garbage_def maxLineBytes_def trim_cr_def)

lemma garbage_dec: "dec_RpcRequest garbage = None"
  by code_simp

lemma garbage_asks: "line_asks (rpc_lines garbage) = {#Some JNull#}"
  unfolding garbage_lines by (simp add: line_asks_def wants_def garbage_dec) (simp add: garbage_def)

text \<open>Accepting the only line that was read, and handling it.\<close>

lemma one_line_accepted:
  assumes "rpc_lines text = [l]" "l \<noteq> []"
  shows "(serve_step d)\<^sup>*\<^sup>* (serve_start text w)
    \<lparr> sv_lines = [], sv_held = None, sv_flying = [Waiting l], sv_out = [], sv_failed = False, sv_world = w \<rparr>"
proof -
  let ?a = "serve_start text w"
  let ?b = "?a \<lparr> sv_lines := [], sv_held := Some l \<rparr>"
  have "serve_step d ?a ?b" by (rule serve_step.Scan) (simp_all add: serve_start_def assms)
  moreover have "serve_step d ?b (?b \<lparr> sv_held := None, sv_flying := sv_flying ?b @ [Waiting l] \<rparr>)"
    by (rule serve_step.Accept) (simp_all add: serve_start_def maxConcurrentRequests_def)
  ultimately show ?thesis by (simp add: serve_start_def)
qed

lemma one_line_handled:
  assumes "rpc_lines text = [l]" "l \<noteq> []" and handled: "rpc_handle (d e) l w = (r, w')"
  shows "(serve_step d)\<^sup>*\<^sup>* (serve_start text w)
    \<lparr> sv_lines = [], sv_held = None, sv_flying = [Answered r], sv_out = [], sv_failed = False, sv_world = w' \<rparr>"
proof -
  let ?a = "\<lparr> sv_lines = [], sv_held = None, sv_flying = [Waiting l], sv_out = [], sv_failed = False, sv_world = w \<rparr>"
  have "serve_step d ?a (?a \<lparr> sv_flying := (sv_flying ?a)[0 := Answered r], sv_world := w' \<rparr>)"
    by (rule serve_step.Handle [where e = e and l = l]) (simp_all add: handled)
  then show ?thesis using one_line_accepted [OF assms(1, 2), of d w] by simp
qed

lemma garbage_run: "(serve_step (\<lambda>e :: rules_env. rules_dispatcher e))\<^sup>*\<^sup>* (serve_start garbage first_run) answered_garbage"
proof -
  let ?r = "rpc_error (Some JNull) CodeParseError ''invalid JSON''"
  let ?a = "\<lparr> sv_lines = [], sv_held = None, sv_flying = [Answered (Some ?r)], sv_out = [], sv_failed = False, sv_world = first_run \<rparr>"
  have "rpc_handle (rules_dispatcher plain_env) garbage first_run = (Some ?r, first_run)" by (simp add: rpc_handle_def garbage_dec)
  from one_line_handled [OF garbage_lines, of "\<lambda>e. rules_dispatcher e" plain_env, OF _ this]
  have "(serve_step (\<lambda>e :: rules_env. rules_dispatcher e))\<^sup>*\<^sup>* (serve_start garbage first_run) ?a" by (simp add: garbage_def)
  moreover have "serve_step (\<lambda>e :: rules_env. rules_dispatcher e) ?a (?a \<lparr> sv_flying := remove_at 0 (sv_flying ?a), sv_out := sv_out ?a @ [?r] \<rparr>)"
    by (rule serve_step.Write) simp_all
  ultimately show ?thesis by (simp add: answered_garbage_def)
qed

text \<open>A call that adds a group, and one that asks for the removal of the locked one.\<close>

definition quoted :: "string \<Rightarrow> string" where "quoted s = CHR 0x22 # s @ [CHR 0x22]"

definition call :: "string \<Rightarrow> string \<Rightarrow> string \<Rightarrow> string" where
  "call meth field v = CHR 0x7B # quoted ''jsonrpc'' @ '':'' @ quoted ''2.0'' @ '','' @ quoted ''id'' @ '':7,'' @ quoted ''method'' @ '':''
     @ quoted meth @ '','' @ quoted ''params'' @ '':{'' @ quoted field @ '':'' @ quoted v @ ''}}''"

definition adding :: string where "adding = call ''rules.groupAdd'' ''name'' ''g''"

lemma adding_lines: "rpc_lines adding = [adding]"
  by (simp add: rpc_lines_def maxLineBytes_def trim_cr_def adding_def call_def quoted_def)

lemma adding_dec:
  "dec_RpcRequest adding = Some \<lparr> jq_JSONRPC = ''2.0'', jq_ID = Some (JNum 7), jq_Method = ''rules.groupAdd'',
     jq_Params = Some (JObj [(''name'', JStr ''g'')]) \<rparr>"
  by code_simp

lemma adding_answer:
  "fst (rpc_handle (rules_dispatcher plain_env) adding first_run)
     = Some \<lparr> jr_ID = Some (JNum 7), jr_Result = Some (JObj [(''id'', JStr ''g1-6162'')]), jr_Error = None \<rparr>"
  by code_simp

lemma adding_stored: "rs_disk (snd (rpc_handle (rules_dispatcher plain_env) adding first_run)) \<noteq> Absent"
  by code_simp

section \<open>Properties\<close>

text \<open>
  C14. The user interface gets one answer for every request it sends, and no other: whatever order the handlers end in, there are
  never more than 32 requests in flight, and when the server ends without a failed write, the identifiers of the answers
  are those that the lines of the input ask for, each as often as it is asked for. Notifications are not answered, a line that is
  not a request is answered with the identifier null.
\<close>

theorem every_request_answered:
  assumes "(serve_step d)\<^sup>*\<^sup>* (serve_start text w) s"
  shows "length (sv_flying s) \<le> 32
    \<and> (serve_done s \<and> \<not> sv_failed s \<longrightarrow> mset (map jr_ID (sv_out s)) = line_asks (rpc_lines text))"
  using serving_invariant [OF assms] by (auto simp: serve_done_def owed_def maxConcurrentRequests_def)

theorem every_request_answered_witness:
  "\<exists>s. (serve_step (\<lambda>e :: rules_env. rules_dispatcher e))\<^sup>*\<^sup>* (serve_start garbage first_run) s
     \<and> serve_done s \<and> mset (map jr_ID (sv_out s)) = {#Some JNull#}"
proof -
  let ?s = "answered_garbage"
  have run: "(serve_step (\<lambda>e :: rules_env. rules_dispatcher e))\<^sup>*\<^sup>* (serve_start garbage first_run) ?s" by (rule garbage_run)
  have "serve_done ?s" "\<not> sv_failed ?s" by (simp_all add: answered_garbage_def serve_done_def)
  moreover have "line_asks (rpc_lines garbage) = {#Some JNull#}" by (rule garbage_asks)
  ultimately show ?thesis using every_request_answered [OF run] run by auto
qed

text \<open>
  C27. The server cannot hang: every run of its steps ends (a call of a handler is one step), and a state has no further
  step exactly when the loop has no line left to read, no line waits for a free place and no request is in flight; so a
  full set of handlers or a failed write leaves a step to take. After a failed write not everything is read and
  answered: the loop drops the lines it has not read, and answers that are not written yet are dropped.
\<close>

theorem serve_terminates:
  "wfp (\<lambda>s' s. serve_step d s s') \<and>
   (\<forall>s. \<not> (\<exists>s'. serve_step d s s') \<longleftrightarrow> sv_lines s = [] \<and> sv_held s = None \<and> sv_flying s = [])"
  using serve_wf serve_stuck unfolding serve_done_def by metis

text \<open>
  The answer to a call for rules tells what happened: an error means that nothing has changed; a result means that nothing has
  changed or that the change is stored and announced once, under a name that the forwarder passes on. A call without an answer changes
  nothing.
\<close>

theorem rpc_answer_tells_outcome:
  assumes "rpc_handle (rules_dispatcher env) line w = (r, w')"
  shows "case r of
      None \<Rightarrow> w' = w
    | Some x \<Rightarrow> (case jr_Error x of
        Some e \<Rightarrow> jr_Result x = None \<and> w' = w
      | None \<Rightarrow> jr_Result x \<noteq> None
          \<and> (w' = w \<or> rs_events w' = rs_events w @ [EventRulesChanged] \<and> hubToProtocol EventRulesChanged = Some ''rules.changed''))"
  using rpc_handle_served [OF assms] exec_done_announced [of _ _ _ w w']
  by (auto simp: hubToProtocol_def EventRulesChanged_def split: option.split)

theorem rpc_answer_tells_outcome_witness:
  "rs_events (snd (rpc_handle (rules_dispatcher plain_env) adding first_run)) = [EventRulesChanged]"
  using rpc_answer_tells_outcome [OF prod.collapse [symmetric], of plain_env adding first_run] adding_stored
  by (simp add: adding_answer) (auto simp: first_run_def)

text \<open>
  C15. Locked groups are out of reach of the user interface as long as it does not call \<^verbatim>\<open>rules.replaceAll\<close>: whatever lines it
  sends, in whatever order their handlers run and whichever writes fail, the locked groups of the stored rules stay as they were.
\<close>

theorem rpc_keeps_locked_groups:
  assumes "(serve_step rules_dispatcher)\<^sup>*\<^sup>* (serve_start text w) s" "list_all (\<lambda>l. \<not> replaces l) (rpc_lines text)"
  shows "locked_groups (Load (rs_disk (sv_world s))) = locked_groups (Load (rs_disk w))"
  using locked_run [OF assms(1)] assms(2) by (auto simp: unread_def serve_start_def list_all_iff)

theorem rpc_keeps_locked_groups_witness:
  "\<exists>s. (serve_step rules_dispatcher)\<^sup>*\<^sup>* (serve_start adding first_run) s
     \<and> rs_disk (sv_world s) \<noteq> Absent
     \<and> locked_groups (Load (rs_disk (sv_world s))) = locked_groups (Load Absent)"
proof -
  let ?w = "snd (rpc_handle (rules_dispatcher plain_env) adding first_run)"
  from one_line_handled [OF adding_lines, of "\<lambda>e. rules_dispatcher e" plain_env, OF _ prod.collapse [symmetric]]
  obtain s where run: "(serve_step rules_dispatcher)\<^sup>*\<^sup>* (serve_start adding first_run) s" and w: "sv_world s = ?w"
    by (force simp: adding_def call_def)
  have "rs_disk ?w \<noteq> Absent" using adding_stored by simp
  moreover have "list_all (\<lambda>l. \<not> replaces l) (rpc_lines adding)" by (simp add: adding_lines replaces_def adding_dec)
  from rpc_keeps_locked_groups [OF run this]
  have "locked_groups (Load (rs_disk (sv_world s))) = locked_groups (Load Absent)" by (simp add: first_run_def)
  ultimately show ?thesis using run w by metis
qed

end
