(* ===== verification/Desktop.thy ===== *)
theory Desktop
  imports Subscription
begin

text \<open>
  What the bridge keeps on the machine besides its stores: the log file and its backups (\<^verbatim>\<open>internal/logging\<close>: rotate.go,
  logger.go), the proxy of the desktop (\<^verbatim>\<open>internal/sysproxy\<close>) and the identifier of the device (\<^verbatim>\<open>internal/hwid\<close>), with what
  subscriptions make of it. Every call of the operating system may fail; its outcome is an argument.
\<close>

section \<open>Rotation of the log file\<close>

definition LevelFromString :: "string \<Rightarrow> int" where
  "LevelFromString s =
     (if s = ''error'' then 8 else if s = ''warn'' then 4 else if s \<in> {''debug'', ''trace''} then - 4 else 0)"

text \<open>The file a writer holds: open, or closed by a call that failed, which leaves it behind.\<close>

datatype handle = Live | Dead

record RotatingWriter =
  rw_maxBytes :: int
  rw_keep :: int
  rw_f :: "handle option"
  rw_size :: int

definition NewRotatingWriter :: "int \<Rightarrow> int \<Rightarrow> RotatingWriter" where
  "NewRotatingWriter maxBytes keep = \<lparr> rw_maxBytes = maxBytes, rw_keep = keep, rw_f = None, rw_size = 0 \<rparr>"

text \<open>The files: 0 is the log itself, i its i-th backup.\<close>

type_synonym log_files = "nat \<rightharpoonup> string"

definition file_text :: "log_files \<Rightarrow> nat \<Rightarrow> string" where
  "file_text fs i = (case fs i of None \<Rightarrow> [] | Some t \<Rightarrow> t)"

datatype opened = Opened | NotOpened | NotStatted

record write_env =
  we_open :: opened
  we_close :: bool
  we_rename :: "nat \<Rightarrow> bool"
  we_reopen :: opened
  we_written :: nat

definition writer_open :: "opened \<Rightarrow> RotatingWriter \<times> log_files \<Rightarrow> bool \<times> RotatingWriter \<times> log_files" where
  "writer_open r = (\<lambda>(w, fs).
     case r of
       NotOpened \<Rightarrow> (False, w, fs)
     | NotStatted \<Rightarrow> (False, w, fs(0 \<mapsto> file_text fs 0))
     | Opened \<Rightarrow> (True, w \<lparr> rw_f := Some Live, rw_size := int (length (file_text fs 0)) \<rparr>, fs(0 \<mapsto> file_text fs 0)))"

definition rename_file :: "bool \<Rightarrow> nat \<Rightarrow> nat \<Rightarrow> log_files \<Rightarrow> log_files" where
  "rename_file ok src dst fs = (case fs src of None \<Rightarrow> fs | Some t \<Rightarrow> if ok then fs(dst \<mapsto> t, src := None) else fs)"

fun shift_backups :: "(nat \<Rightarrow> bool) \<Rightarrow> nat \<Rightarrow> log_files \<Rightarrow> log_files" where
  "shift_backups ok 0 fs = fs"
| "shift_backups ok (Suc i) fs = shift_backups ok i (rename_file (ok (Suc i)) i (Suc i) fs)"

text \<open>A file that was closed before cannot be closed again.\<close>

definition writer_rotate :: "write_env \<Rightarrow> RotatingWriter \<times> log_files \<Rightarrow> bool \<times> RotatingWriter \<times> log_files" where
  "writer_rotate env = (\<lambda>(w, fs).
     if rw_f w = Some Dead \<or> \<not> we_close env then (False, w \<lparr> rw_f := Some Dead \<rparr>, fs)
     else writer_open (we_reopen env) (w \<lparr> rw_f := None, rw_size := 0 \<rparr>, shift_backups (we_rename env) (nat (rw_keep w)) fs))"

text \<open>The number of bytes that were written, and whether that is all of them.\<close>

definition writer_Write :: "write_env \<Rightarrow> string \<Rightarrow> RotatingWriter \<times> log_files \<Rightarrow> (nat \<times> bool) \<times> RotatingWriter \<times> log_files" where
  "writer_Write env p = (\<lambda>(w, fs).
     case (if rw_f w = None then writer_open (we_open env) (w, fs) else (True, w, fs)) of
       (False, w, fs) \<Rightarrow> ((0, False), w, fs)
     | (True, w, fs) \<Rightarrow>
         (case (if rw_size w + int (length p) > rw_maxBytes w \<and> rw_size w > 0 then writer_rotate env (w, fs) else (True, w, fs)) of
            (False, w, fs) \<Rightarrow> ((0, False), w, fs)
          | (True, w, fs) \<Rightarrow>
              (if rw_f w = Some Dead then ((0, False), w, fs)
               else let n = min (we_written env) (length p) in
                 ((n, n = length p), w \<lparr> rw_size := rw_size w + int n \<rparr>, fs(0 \<mapsto> file_text fs 0 @ take n p)))))"

definition writer_Close :: "bool \<Rightarrow> RotatingWriter \<Rightarrow> bool \<times> RotatingWriter" where
  "writer_Close ok w = (case rw_f w of None \<Rightarrow> (True, w) | Some h \<Rightarrow> (ok \<and> h = Live, w \<lparr> rw_f := None \<rparr>))"

fun write_all :: "(write_env \<times> string) list \<Rightarrow> RotatingWriter \<times> log_files \<Rightarrow> string \<times> RotatingWriter \<times> log_files" where
  "write_all [] s = ([], s)"
| "write_all ((env, p) # ps) s =
     (case writer_Write env p s of ((n, ok), s) \<Rightarrow> case write_all ps s of (t, s) \<Rightarrow> (take n p @ t, s))"

text \<open>What the files hold, the oldest first.\<close>

fun history :: "nat \<Rightarrow> log_files \<Rightarrow> string" where
  "history 0 fs = file_text fs 0"
| "history (Suc k) fs = file_text fs (Suc k) @ history k fs"

lemma history_cong: "(\<And>i. i \<le> k \<Longrightarrow> fs i = fs' i) \<Longrightarrow> history k fs = history k fs'"
  by (induction k) (simp_all add: file_text_def)

lemma shift_above: "k < j \<Longrightarrow> shift_backups ok k fs j = fs j"
  by (induction k arbitrary: fs) (auto simp: rename_file_def split: option.split)

lemma rename_text:
  "file_text (rename_file ok i j fs) m = file_text fs m \<or> file_text (rename_file ok i j fs) m = file_text fs i \<or> file_text (rename_file ok i j fs) m = []"
  by (auto simp: rename_file_def file_text_def split: option.split)

text \<open>Moving the files up by one loses nothing as long as the highest place is free.\<close>

lemma shift_into_gap: "fs k = None \<Longrightarrow> history k (shift_backups (\<lambda>_. True) k fs) = history k fs"
proof (induction k arbitrary: fs)
  case (Suc k)
  let ?fs = "rename_file True k (Suc k) fs"
  have "?fs k = None" by (simp add: rename_file_def split: option.split)
  then have "history (Suc k) (shift_backups (\<lambda>_. True) (Suc k) fs) = file_text ?fs (Suc k) @ history k ?fs"
    by (simp add: Suc.IH file_text_def shift_above)
  also have "\<dots> = history (Suc k) fs"
  proof (cases "fs k")
    case (Some t)
    then show ?thesis using Suc.prems
      by (cases k) (auto simp: rename_file_def file_text_def intro: history_cong)
  qed (simp add: rename_file_def)
  finally show ?case .
qed simp

text \<open>Rotation loses the oldest backup, and that only if there is a younger one to take its place.\<close>

lemma shift_history:
  "history (Suc k) (shift_backups (\<lambda>_. True) (Suc k) fs)
    = (if fs (Suc k) \<noteq> None \<and> fs k \<noteq> None then history k fs else history (Suc k) fs)"
proof (cases "fs (Suc k)")
  case None
  then show ?thesis using shift_into_gap [of fs "Suc k"] by simp
next
  case (Some x)
  let ?fs = "rename_file True k (Suc k) fs"
  have "?fs k = None" by (simp add: rename_file_def split: option.split)
  then have "history (Suc k) (shift_backups (\<lambda>_. True) (Suc k) fs) = file_text ?fs (Suc k) @ history k ?fs"
    by (simp add: shift_into_gap file_text_def shift_above)
  also have "\<dots> = (if fs k \<noteq> None then history k fs else history (Suc k) fs)"
    by (cases k) (auto simp: rename_file_def file_text_def split: option.split intro: history_cong)
  finally show ?thesis using Some by simp
qed

lemma shift_suffix: "suffix (history k (shift_backups (\<lambda>_. True) k fs)) (history k fs)"
proof (cases k)
  case (Suc j)
  then show ?thesis using shift_history [of j fs] by (auto simp: suffix_def)
qed simp

lemma shift_lengths:
  assumes "\<And>i. length (file_text fs i) \<le> b"
  shows "length (file_text (shift_backups ok k fs) i) \<le> b"
  using assms
proof (induction k arbitrary: fs)
  case (Suc k)
  have "length (file_text (rename_file (ok (Suc k)) k (Suc k) fs) i) \<le> b" for i
    using rename_text [of "ok (Suc k)" k "Suc k" fs i] Suc.prems by auto
  then show ?case by (simp add: Suc.IH)
qed simp

lemma shift_first: "0 < k \<Longrightarrow> shift_backups (\<lambda>_. True) k fs 0 = None"
proof (induction k arbitrary: fs)
  case (Suc k)
  then show ?case by (cases k) (auto simp: rename_file_def split: option.split)
qed simp

lemma history_append: "history k (fs(0 \<mapsto> file_text fs 0 @ t)) = history k fs @ t"
  by (induction k) (simp_all add: file_text_def)

lemma history_touch: "history k (fs(0 \<mapsto> file_text fs 0)) = history k fs"
  using history_append [of k fs "[]"] by simp

lemma history_length: "(\<And>i. length (file_text fs i) \<le> b) \<Longrightarrow> length (history k fs) \<le> (k + 1) * b"
proof (induction k)
  case (Suc k)
  from add_mono [OF Suc.prems [of "Suc k"] Suc.IH [OF Suc.prems]] show ?case by simp
qed simp

text \<open>One write, as long as files can be renamed: what is lost is the oldest, and no file outgrows the limit, or the longest line.\<close>

definition write_ok :: "nat \<Rightarrow> RotatingWriter \<times> log_files \<Rightarrow> bool" where
  "write_ok b = (\<lambda>(w, fs). (\<forall>i. length (file_text fs i) \<le> b)
     \<and> (rw_f w = Some Live \<longrightarrow> rw_size w = int (length (file_text fs 0))))"

lemma open_cases:
  assumes "writer_open r (w, fs) = (ok, w', fs')"
  shows "(\<forall>i. file_text fs' i = file_text fs i) \<and> rw_maxBytes w' = rw_maxBytes w \<and> rw_keep w' = rw_keep w
    \<and> (ok \<longrightarrow> rw_f w' = Some Live \<and> rw_size w' = int (length (file_text fs 0))) \<and> (\<not> ok \<longrightarrow> w' = w)"
  using assms by (auto simp: writer_open_def file_text_def split: opened.splits)

lemma history_text: "(\<And>i. file_text fs i = file_text fs' i) \<Longrightarrow> history k fs = history k fs'"
  by (induction k) simp_all

lemma open_ok:
  assumes "writer_open r (w, fs) = (ok, w', fs')" "write_ok b (w, fs)"
  shows "write_ok b (w', fs') \<and> history k fs' = history k fs \<and> rw_maxBytes w' = rw_maxBytes w \<and> rw_keep w' = rw_keep w
    \<and> (ok \<longrightarrow> rw_f w' = Some Live \<and> rw_size w' = int (length (file_text fs 0)))"
  using open_cases [OF assms(1)] assms(2) history_text [of fs' fs k] by (cases ok) (simp_all add: write_ok_def)

lemma rotate_ok:
  assumes "writer_rotate env (w, fs) = (ok, w', fs')" "write_ok b (w, fs)" "we_rename env = (\<lambda>_. True)" "0 < rw_keep w"
  shows "write_ok b (w', fs') \<and> suffix (history (nat (rw_keep w)) fs') (history (nat (rw_keep w)) fs)
    \<and> rw_maxBytes w' = rw_maxBytes w \<and> rw_keep w' = rw_keep w \<and> (ok \<longrightarrow> rw_f w' = Some Live \<and> rw_size w' = 0)"
proof (cases "rw_f w = Some Dead \<or> \<not> we_close env")
  case True
  then show ?thesis using assms by (auto simp: writer_rotate_def write_ok_def)
next
  case False
  let ?k = "nat (rw_keep w)" and ?w = "w \<lparr> rw_f := None, rw_size := 0 \<rparr>"
  let ?fs = "shift_backups (\<lambda>_. True) ?k fs"
  have r: "writer_open (we_reopen env) (?w, ?fs) = (ok, w', fs')" using False assms(1,3) by (simp add: writer_rotate_def)
  have w: "write_ok b (?w, ?fs)" using assms(2) shift_lengths [of fs b] by (simp add: write_ok_def)
  have "?fs 0 = None" using assms(4) by (intro shift_first) simp
  then have "file_text ?fs 0 = []" by (simp add: file_text_def)
  with open_ok [OF r w, of ?k] show ?thesis using shift_suffix [of ?k fs] by simp
qed

lemma append_ok:
  assumes "write_ok b (w, fs)" "rw_f w = Some Live" "length (file_text fs 0) + n \<le> b" "n \<le> length p"
  shows "write_ok b (w \<lparr> rw_size := rw_size w + int n \<rparr>, fs(0 \<mapsto> file_text fs 0 @ take n p))"
  using assms by (auto simp: write_ok_def file_text_def)

text \<open>The phases of a write: the file may have to be opened, then rotated, and then the text is added, unless something failed.\<close>

definition too_long :: "RotatingWriter \<Rightarrow> string \<Rightarrow> bool" where
  "too_long w p \<longleftrightarrow> rw_size w + int (length p) > rw_maxBytes w \<and> rw_size w > 0"

lemma write_phases:
  assumes "writer_Write env p (w, fs) = ((n, ok), w', fs')"
  obtains w1 fs1 w2 fs2 where
    "(w1, fs1) = (w, fs) \<or> (\<exists>r. writer_open (we_open env) (w, fs) = (r, w1, fs1))"
    "(w2, fs2) = (w1, fs1) \<or> rw_f w1 \<noteq> None \<and> too_long w1 p \<and> (\<exists>r. writer_rotate env (w1, fs1) = (r, w2, fs2))"
    "n = 0 \<and> (w', fs') = (w2, fs2) \<or>
     rw_f w2 = Some Live \<and> ((w2, fs2) = (w1, fs1) \<and> \<not> too_long w1 p \<or> writer_rotate env (w1, fs1) = (True, w2, fs2))
       \<and> n \<le> length p \<and> w' = w2 \<lparr> rw_size := rw_size w2 + int n \<rparr> \<and> fs' = fs2(0 \<mapsto> file_text fs2 0 @ take n p)"
proof -
  obtain ok1 w1 fs1 where 1: "(if rw_f w = None then writer_open (we_open env) (w, fs) else (True, w, fs)) = (ok1, w1, fs1)"
    by (metis prod_cases3)
  obtain ok2 w2 fs2 where 2: "(if too_long w1 p then writer_rotate env (w1, fs1) else (True, w1, fs1)) = (ok2, w2, fs2)"
    by (metis prod_cases3)
  have held: "ok1 \<Longrightarrow> rw_f w1 \<noteq> None" using 1 open_cases by (force split: if_splits)
  have held2: "ok1 \<Longrightarrow> ok2 \<Longrightarrow> rw_f w2 \<noteq> None"
    using 2 held open_cases by (force simp: writer_rotate_def split: if_splits)
  have w: "((n, ok), w', fs') = (if \<not> ok1 then ((0, False), w1, fs1) else if \<not> ok2 then ((0, False), w2, fs2)
      else if rw_f w2 = Some Dead then ((0, False), w2, fs2)
      else let n = min (we_written env) (length p) in
        ((n, n = length p), w2 \<lparr> rw_size := rw_size w2 + int n \<rparr>, fs2(0 \<mapsto> file_text fs2 0 @ take n p)))"
    using assms 1 2 by (auto simp: writer_Write_def too_long_def Let_def split: bool.splits if_splits)
  have a: "(w1, fs1) = (w, fs) \<or> (\<exists>r. writer_open (we_open env) (w, fs) = (r, w1, fs1))" using 1 by (simp split: if_splits)
  have b: "(w2, fs2) = (w1, fs1) \<or> rw_f w1 \<noteq> None \<and> too_long w1 p \<and> (\<exists>r. writer_rotate env (w1, fs1) = (r, w2, fs2))" if ok1
    using 2 held [OF that] by (simp split: if_splits)
  show thesis
  proof (cases "ok1 \<and> ok2 \<and> rw_f w2 \<noteq> Some Dead")
    case True
    have "rw_f w2 = Some Live" using True held2 by (metis handle.exhaust not_None_eq)
    moreover have "(w2, fs2) = (w1, fs1) \<and> \<not> too_long w1 p \<or> writer_rotate env (w1, fs1) = (True, w2, fs2)"
      using 2 True by (simp split: if_splits)
    ultimately show thesis using that [OF a b] True w by (simp add: Let_def)
  next
    case False
    show thesis
    proof (cases ok1)
      case True
      show thesis using that [OF a b] True False w by (simp split: if_splits)
    next
      case False
      show thesis using that [OF a, of w1 fs1] False w by simp
    qed
  qed
qed

lemma opened_ok:
  assumes "(w1, fs1) = (w, fs) \<or> (\<exists>r. writer_open e (w, fs) = (r, w1, fs1))" "write_ok b (w, fs)"
  shows "write_ok b (w1, fs1) \<and> history k fs1 = history k fs \<and> rw_maxBytes w1 = rw_maxBytes w \<and> rw_keep w1 = rw_keep w"
  using assms open_ok [of e w fs _ w1 fs1 b k] by auto

lemma write_step:
  assumes "writer_Write env p (w, fs) = ((n, ok), w', fs')" "write_ok b (w, fs)" "we_rename env = (\<lambda>_. True)"
    and "0 < rw_keep w" "rw_maxBytes w \<le> int b" "length p \<le> b"
  shows "write_ok b (w', fs') \<and> suffix (history (nat (rw_keep w)) fs') (history (nat (rw_keep w)) fs @ take n p)
    \<and> rw_maxBytes w' = rw_maxBytes w \<and> rw_keep w' = rw_keep w"
  using assms(1)
proof (rule write_phases)
  let ?k = "nat (rw_keep w)"
  fix w1 fs1 w2 fs2
  assume 1: "(w1, fs1) = (w, fs) \<or> (\<exists>r. writer_open (we_open env) (w, fs) = (r, w1, fs1))"
    and 2: "(w2, fs2) = (w1, fs1) \<or> rw_f w1 \<noteq> None \<and> too_long w1 p \<and> (\<exists>r. writer_rotate env (w1, fs1) = (r, w2, fs2))"
    and 3: "n = 0 \<and> (w', fs') = (w2, fs2) \<or>
     rw_f w2 = Some Live \<and> ((w2, fs2) = (w1, fs1) \<and> \<not> too_long w1 p \<or> writer_rotate env (w1, fs1) = (True, w2, fs2))
       \<and> n \<le> length p \<and> w' = w2 \<lparr> rw_size := rw_size w2 + int n \<rparr> \<and> fs' = fs2(0 \<mapsto> file_text fs2 0 @ take n p)"
  note o1 = opened_ok [OF 1 assms(2), of ?k]
  have rot: "write_ok b (w2, fs2) \<and> suffix (history ?k fs2) (history ?k fs) \<and> rw_maxBytes w2 = rw_maxBytes w \<and> rw_keep w2 = rw_keep w
      \<and> (r \<longrightarrow> rw_size w2 = 0)" if "writer_rotate env (w1, fs1) = (r, w2, fs2)" for r
    using rotate_ok [OF that, of b] o1 assms(3,4) by auto
  have o2: "write_ok b (w2, fs2) \<and> suffix (history ?k fs2) (history ?k fs) \<and> rw_maxBytes w2 = rw_maxBytes w \<and> rw_keep w2 = rw_keep w"
    using 2 o1 rot by auto
  from 3 show ?thesis
  proof
    assume "n = 0 \<and> (w', fs') = (w2, fs2)"
    then show ?thesis using o2 by simp
  next
    assume 4: "rw_f w2 = Some Live \<and> ((w2, fs2) = (w1, fs1) \<and> \<not> too_long w1 p \<or> writer_rotate env (w1, fs1) = (True, w2, fs2))
       \<and> n \<le> length p \<and> w' = w2 \<lparr> rw_size := rw_size w2 + int n \<rparr> \<and> fs' = fs2(0 \<mapsto> file_text fs2 0 @ take n p)"
    then have "rw_size w2 \<le> 0 \<or> rw_size w2 + int (length p) \<le> rw_maxBytes w" using rot o1 by (auto simp: too_long_def)
    then have "length (file_text fs2 0) + length p \<le> b" using 4 o2 assms(5,6) by (auto simp: write_ok_def)
    with append_ok [of b w2 fs2 n p] 4 o2 show ?thesis by (simp add: history_append)
  qed
qed

text \<open>How much is kept: backups are numbered without a gap, and each was full when it was made.\<close>

definition backups_ok :: "int \<Rightarrow> nat \<Rightarrow> log_files \<Rightarrow> bool" where
  "backups_ok c k fs \<longleftrightarrow> (\<forall>i<k. fs (Suc i) \<noteq> None \<longrightarrow> c < int (length (file_text fs (Suc i))) \<and> (0 < i \<longrightarrow> fs i \<noteq> None))"

lemma backups_ok_cong: "(\<And>i. 0 < i \<Longrightarrow> fs' i = fs i) \<Longrightarrow> backups_ok c k fs' = backups_ok c k fs"
  by (auto simp: backups_ok_def file_text_def)

lemma shift_exact:
  assumes "0 < k" "\<And>i. i < k \<Longrightarrow> fs (Suc i) \<noteq> None \<Longrightarrow> fs i \<noteq> None"
  shows "shift_backups (\<lambda>_. True) k fs i = (if i = 0 then None else if i \<le> k then fs (i - 1) else fs i)"
  using assms
proof (induction k arbitrary: fs)
  case (Suc k)
  let ?fs = "rename_file True k (Suc k) fs"
  have r: "?fs = fs(Suc k := fs k, k := None)"
    using Suc.prems(2) [of k] by (cases "fs (Suc k)") (auto simp: rename_file_def fun_eq_iff split: option.split)
  show ?case
  proof (cases "k = 0")
    case False
    have "?fs i \<noteq> None" if "i < k" "?fs (Suc i) \<noteq> None" for i
      using that Suc.prems(2) [of i] by (auto simp: r split: if_splits)
    from Suc.IH [OF _ this] False have "shift_backups (\<lambda>_. True) k ?fs i = (if i = 0 then None else if i \<le> k then ?fs (i - 1) else ?fs i)"
      by simp
    then show ?thesis by (auto simp: r)
  next
    case True
    then show ?thesis using r by simp
  qed
qed simp

lemma shift_kept:
  assumes ok: "backups_ok c k fs" and "fs 0 \<noteq> None" "c < int (length (file_text fs 0))" "0 < k"
  shows "backups_ok c k (shift_backups (\<lambda>_. True) k fs)"
    "fs k \<noteq> None \<Longrightarrow> shift_backups (\<lambda>_. True) k fs k \<noteq> None"
    "history k (shift_backups (\<lambda>_. True) k fs) = history k fs \<or> shift_backups (\<lambda>_. True) k fs k \<noteq> None"
proof -
  have dense: "fs i \<noteq> None" if "i < k" "fs (Suc i) \<noteq> None" for i
    using ok that assms(2) by (cases "i = 0") (auto simp: backups_ok_def)
  have shift: "shift_backups (\<lambda>_. True) k fs i = (if i = 0 then None else if i \<le> k then fs (i - 1) else fs i)" for i
    using assms(4) dense by (rule shift_exact)
  show "backups_ok c k (shift_backups (\<lambda>_. True) k fs)"
    unfolding backups_ok_def
  proof (intro allI impI)
    fix i assume i: "i < k" "shift_backups (\<lambda>_. True) k fs (Suc i) \<noteq> None"
    then have "fs i \<noteq> None" by (simp add: shift)
    moreover have "file_text (shift_backups (\<lambda>_. True) k fs) (Suc i) = file_text fs i" using i by (simp add: file_text_def shift)
    ultimately show "c < int (length (file_text (shift_backups (\<lambda>_. True) k fs) (Suc i))) \<and> (0 < i \<longrightarrow> shift_backups (\<lambda>_. True) k fs i \<noteq> None)"
      using ok assms(3) i(1) dense [of "i - 1"] by (cases i) (auto simp: backups_ok_def shift)
  qed
  have top: "shift_backups (\<lambda>_. True) k fs k = fs (k - 1)" using shift [of k] assms(4) by simp
  show "shift_backups (\<lambda>_. True) k fs k \<noteq> None" if "fs k \<noteq> None" using dense [of "k - 1"] that assms(4) by (simp add: top)
  show "history k (shift_backups (\<lambda>_. True) k fs) = history k fs \<or> shift_backups (\<lambda>_. True) k fs k \<noteq> None"
    using shift_history [of "k - 1" fs] assms(4) by (auto simp: top)
qed

lemma open_touch: "writer_open r (w, fs) = (ok, w', fs') \<Longrightarrow> 0 < i \<Longrightarrow> fs' i = fs i"
  by (auto simp: writer_open_def split: opened.splits)

lemma rotate_kept:
  assumes "writer_rotate env (w, fs) = (ok, w', fs')" "we_rename env = (\<lambda>_. True)" "0 < rw_keep w"
    and "backups_ok c (nat (rw_keep w)) fs" "file_text fs 0 \<noteq> []" "c < int (length (file_text fs 0))"
  shows "backups_ok c (nat (rw_keep w)) fs'" "fs (nat (rw_keep w)) \<noteq> None \<Longrightarrow> fs' (nat (rw_keep w)) \<noteq> None"
    "history (nat (rw_keep w)) fs' = history (nat (rw_keep w)) fs \<or> fs' (nat (rw_keep w)) \<noteq> None"
proof -
  let ?k = "nat (rw_keep w)"
  let ?fs = "shift_backups (\<lambda>_. True) ?k fs"
  have "fs 0 \<noteq> None" using assms(5) by (auto simp: file_text_def split: option.splits)
  note kept = shift_kept [OF assms(4) this assms(6)]
  consider "fs' = fs" | "writer_open (we_reopen env) (w \<lparr> rw_f := None, rw_size := 0 \<rparr>, ?fs) = (ok, w', fs')"
    using assms(1,2) by (auto simp: writer_rotate_def split: if_splits)
  then have "backups_ok c ?k fs' \<and> (fs ?k \<noteq> None \<longrightarrow> fs' ?k \<noteq> None) \<and> (history ?k fs' = history ?k fs \<or> fs' ?k \<noteq> None)"
  proof cases
    case 2
    have t: "fs' i = ?fs i" if "0 < i" for i using open_touch [OF 2 that] .
    have h: "history ?k fs' = history ?k ?fs" using open_cases [OF 2] by (intro history_text) simp
    have "backups_ok c ?k fs' = backups_ok c ?k ?fs" using t by (rule backups_ok_cong)
    then show ?thesis using kept h t assms(3) by simp
  qed (use assms(4) in auto)
  then show "backups_ok c ?k fs'" "fs ?k \<noteq> None \<Longrightarrow> fs' ?k \<noteq> None" "history ?k fs' = history ?k fs \<or> fs' ?k \<noteq> None" by auto
qed

lemma write_kept:
  assumes "writer_Write env p (w, fs) = ((n, ok), w', fs')" "write_ok b (w, fs)" "we_rename env = (\<lambda>_. True)" "0 < rw_keep w"
    and "backups_ok (rw_maxBytes w - int l) (nat (rw_keep w)) fs" "length p \<le> l"
  shows "backups_ok (rw_maxBytes w - int l) (nat (rw_keep w)) fs'
    \<and> (fs (nat (rw_keep w)) \<noteq> None \<longrightarrow> fs' (nat (rw_keep w)) \<noteq> None)
    \<and> (history (nat (rw_keep w)) fs' = history (nat (rw_keep w)) fs @ take n p \<or> fs' (nat (rw_keep w)) \<noteq> None)"
  using assms(1)
proof (rule write_phases)
  let ?k = "nat (rw_keep w)" and ?c = "rw_maxBytes w - int l"
  fix w1 fs1 w2 fs2
  assume 1: "(w1, fs1) = (w, fs) \<or> (\<exists>r. writer_open (we_open env) (w, fs) = (r, w1, fs1))"
    and 2: "(w2, fs2) = (w1, fs1) \<or> rw_f w1 \<noteq> None \<and> too_long w1 p \<and> (\<exists>r. writer_rotate env (w1, fs1) = (r, w2, fs2))"
    and 3: "n = 0 \<and> (w', fs') = (w2, fs2) \<or>
     rw_f w2 = Some Live \<and> ((w2, fs2) = (w1, fs1) \<and> \<not> too_long w1 p \<or> writer_rotate env (w1, fs1) = (True, w2, fs2))
       \<and> n \<le> length p \<and> w' = w2 \<lparr> rw_size := rw_size w2 + int n \<rparr> \<and> fs' = fs2(0 \<mapsto> file_text fs2 0 @ take n p)"
  note o1 = opened_ok [OF 1 assms(2), of ?k]
  have t1: "fs1 i = fs i" if "0 < i" for i using 1 open_touch that by auto
  have k1: "backups_ok ?c ?k fs1" using assms(5) backups_ok_cong [of fs1 fs] t1 by simp
  have "backups_ok ?c ?k fs2 \<and> (fs1 ?k \<noteq> None \<longrightarrow> fs2 ?k \<noteq> None) \<and> (history ?k fs2 = history ?k fs1 \<or> fs2 ?k \<noteq> None)"
    using 2
  proof
    assume "rw_f w1 \<noteq> None \<and> too_long w1 p \<and> (\<exists>r. writer_rotate env (w1, fs1) = (r, w2, fs2))"
    then obtain r where r: "rw_f w1 \<noteq> None" "too_long w1 p" "writer_rotate env (w1, fs1) = (r, w2, fs2)" by blast
    show ?thesis
    proof (cases "rw_f w1 = Some Live")
      case True
      then have "file_text fs1 0 \<noteq> []" "?c < int (length (file_text fs1 0))" using o1 r(2) assms(6) by (auto simp: write_ok_def too_long_def)
      with rotate_kept [OF r(3), of ?c] show ?thesis using o1 assms(3,4) k1 by simp
    next
      case False
      then have "rw_f w1 = Some Dead" using r(1) by (metis handle.exhaust not_None_eq)
      then show ?thesis using r(3) k1 by (simp add: writer_rotate_def)
    qed
  qed (use k1 in simp)
  moreover have "fs' i = fs2 i" if "0 < i" for i using 3 that by auto
  moreover have "history ?k fs' = history ?k fs2 @ take n p" using 3 by (auto simp: history_append)
  ultimately show ?thesis using backups_ok_cong [of fs' fs2 ?c ?k] t1 o1 assms(4) by auto
qed

text \<open>Any number of writes.\<close>

definition write_all_ok :: "nat \<Rightarrow> (write_env \<times> string) list \<Rightarrow> bool" where
  "write_all_ok l ps \<longleftrightarrow> (\<forall>(env, p) \<in> set ps. we_rename env = (\<lambda>_. True) \<and> length p \<le> l)"

lemma write_all_step:
  assumes "write_all ps (w, fs) = (t, w', fs')" "write_all_ok l ps" "write_ok b (w, fs)" "0 < rw_keep w"
    and "rw_maxBytes w \<le> int b" "l \<le> b" "backups_ok (rw_maxBytes w - int l) (nat (rw_keep w)) fs"
  shows "write_ok b (w', fs') \<and> suffix (history (nat (rw_keep w)) fs') (history (nat (rw_keep w)) fs @ t)
    \<and> backups_ok (rw_maxBytes w - int l) (nat (rw_keep w)) fs' \<and> (fs (nat (rw_keep w)) \<noteq> None \<longrightarrow> fs' (nat (rw_keep w)) \<noteq> None)
    \<and> (history (nat (rw_keep w)) fs' = history (nat (rw_keep w)) fs @ t \<or> fs' (nat (rw_keep w)) \<noteq> None)"
  using assms
proof (induction ps arbitrary: w fs t)
  case (Cons x ps)
  obtain env p where x: "x = (env, p)" by fastforce
  obtain n ok w1 fs1 where 1: "writer_Write env p (w, fs) = ((n, ok), w1, fs1)" by (metis prod_cases3 surj_pair)
  obtain t2 where 2: "write_all ps (w1, fs1) = (t2, w', fs')" "t = take n p @ t2"
    using Cons.prems(1) x 1 by (auto split: prod.splits)
  have e: "we_rename env = (\<lambda>_. True)" "length p \<le> l" "write_all_ok l ps" using Cons.prems(2) x by (auto simp: write_all_ok_def)
  note s = write_step [OF 1 Cons.prems(3) e(1) Cons.prems(4,5)] and k = write_kept [OF 1 Cons.prems(3) e(1) Cons.prems(4,7) e(2)]
  have "length p \<le> b" using e Cons.prems(6) by simp
  note s = s [OF this]
  have "write_ok b (w', fs') \<and> suffix (history (nat (rw_keep w)) fs') (history (nat (rw_keep w)) fs1 @ t2)
    \<and> backups_ok (rw_maxBytes w - int l) (nat (rw_keep w)) fs' \<and> (fs1 (nat (rw_keep w)) \<noteq> None \<longrightarrow> fs' (nat (rw_keep w)) \<noteq> None)
    \<and> (history (nat (rw_keep w)) fs' = history (nat (rw_keep w)) fs1 @ t2 \<or> fs' (nat (rw_keep w)) \<noteq> None)"
    using Cons.IH [OF 2(1) e(3)] Cons.prems(4-6) s k by simp
  moreover have "suffix (history (nat (rw_keep w)) fs1 @ t2) ((history (nat (rw_keep w)) fs @ take n p) @ t2)"
    using s by (auto simp: suffix_def)
  ultimately show ?case using k 2(2) by (auto intro: suffix_order.trans)
qed simp

lemma history_full:
  assumes "backups_ok c k fs" "fs k \<noteq> None"
  shows "int k * c \<le> int (length (history k fs))"
  using assms
proof (induction k)
  case (Suc k)
  have c: "c < int (length (file_text fs (Suc k)))" using Suc.prems by (auto simp: backups_ok_def)
  have "int k * c \<le> int (length (history k fs))"
  proof (cases "k = 0")
    case False
    then have "fs k \<noteq> None" "backups_ok c k fs" using Suc.prems by (auto simp: backups_ok_def)
    then show ?thesis by (rule Suc.IH [rotated])
  qed simp
  then show ?case using c by (simp add: algebra_simps)
qed simp

text \<open>After a rotation could not close the file, the writer keeps the closed file.\<close>

lemma dead_write: "rw_f w = Some Dead \<Longrightarrow> writer_Write env p (w, fs) = ((0, False), w, fs)"
  by (auto simp: writer_Write_def writer_rotate_def)

lemma dead_write_all: "rw_f w = Some Dead \<Longrightarrow> write_all ps (w, fs) = ([], w, fs)"
  by (induction ps) (auto simp: dead_write)

section \<open>Lines of the log\<close>

text \<open>An attribute with its two texts, that of its value and that of printing it.\<close>

record log_attr =
  la_Key :: string
  la_String :: string
  la_Print :: string

record log_record =
  lr_Time :: string
  lr_Level :: int
  lr_Message :: string
  lr_Attrs :: "log_attr list"

record humanHandler =
  hh_level :: int
  hh_scope :: string
  hh_attrs :: "log_attr list"

definition NewHandler :: "int \<Rightarrow> humanHandler" where
  "NewHandler level = \<lparr> hh_level = level, hh_scope = [], hh_attrs = [] \<rparr>"

definition Handler_Enabled :: "humanHandler \<Rightarrow> int \<Rightarrow> bool" where
  "Handler_Enabled h l \<longleftrightarrow> l \<ge> hh_level h"

definition levelTag :: "int \<Rightarrow> string" where
  "levelTag l = (if l \<ge> 8 then ''ERROR'' else if l \<ge> 4 then ''WARN '' else if l \<ge> 0 then ''INFO '' else ''DEBUG'')"

definition record_scope :: "humanHandler \<Rightarrow> log_record \<Rightarrow> string" where
  "record_scope h r =
     (if hh_scope h \<noteq> [] then hh_scope h
      else case find (\<lambda>a. la_Key a = ''scope'') (lr_Attrs r) of None \<Rightarrow> [] | Some a \<Rightarrow> la_String a)"

definition attr_text :: "log_attr \<Rightarrow> string" where
  "attr_text a = (if la_Key a = ''scope'' then [] else '' '' @ la_Key a @ ''='' @ la_Print a)"

text \<open>The line that is written, for the redaction of the text.\<close>

definition Handler_Handle :: "(string \<Rightarrow> string) \<Rightarrow> humanHandler \<Rightarrow> log_record \<Rightarrow> string" where
  "Handler_Handle redact h r =
     (let scope = record_scope h r in
      redact (lr_Time r @ '' '' @ levelTag (lr_Level r) @ '' '' @ (if scope \<noteq> [] then ''['' @ scope @ ''] '' else []) @ lr_Message r
        @ concat (map attr_text (hh_attrs h)) @ concat (map attr_text (lr_Attrs r))) @ [CHR 0x0A])"

fun Handler_WithAttrs :: "log_attr list \<Rightarrow> humanHandler \<Rightarrow> humanHandler" where
  "Handler_WithAttrs [] h = h"
| "Handler_WithAttrs (a # more_attrs) h =
     Handler_WithAttrs more_attrs (if la_Key a = ''scope'' then h \<lparr> hh_scope := la_String a \<rparr> else h \<lparr> hh_attrs := hh_attrs h @ [a] \<rparr>)"

lemma WithAttrs_append: "Handler_WithAttrs (xs @ ys) h = Handler_WithAttrs ys (Handler_WithAttrs xs h)"
  by (induction xs h rule: Handler_WithAttrs.induct) simp_all

lemma WithAttrs_attrs: "hh_attrs (Handler_WithAttrs xs h) = hh_attrs h @ filter (\<lambda>a. la_Key a \<noteq> ''scope'') xs"
  by (induction xs h rule: Handler_WithAttrs.induct) simp_all

section \<open>The proxy of the desktop\<close>

text \<open>The values under the Internet Settings of the user.\<close>

record registry =
  rg_key :: bool
  rg_ProxyEnable :: "int option"
  rg_ProxyServer :: "string option"
  rg_ProxyOverride :: "string option"

record ProxySettings =
  px_Socks :: string
  px_HTTP :: string

text \<open>Which calls succeed.\<close>

record proxy_env =
  pe_create :: bool
  pe_open :: bool
  pe_enable :: bool
  pe_server :: bool
  pe_override :: bool
  pe_disable :: bool
  pe_delete :: "string \<Rightarrow> bool"
  pe_query :: bool
  pe_notify :: bool

datatype proxy_error = KeyFailed | EnableFailed | ServerFailed | OverrideFailed | ErrNotifyOnly | NotifyFailed

definition switch_off :: "proxy_env \<Rightarrow> registry \<Rightarrow> registry" where
  "switch_off env r = (if pe_disable env then r \<lparr> rg_ProxyEnable := Some 0 \<rparr> else r)"

definition proxy_Clear :: "proxy_env \<Rightarrow> registry \<Rightarrow> proxy_error option \<times> registry" where
  "proxy_Clear env r =
     (if \<not> rg_key r \<or> \<not> pe_open env then (None, r)
      else let r = switch_off env r;
               r = (if pe_delete env ''ProxyServer'' then r \<lparr> rg_ProxyServer := None \<rparr> else r);
               r = (if pe_delete env ''ProxyOverride'' then r \<lparr> rg_ProxyOverride := None \<rparr> else r)
           in (if pe_notify env then None else Some NotifyFailed, r))"

fun strings_Join :: "string \<Rightarrow> string list \<Rightarrow> string" where
  "strings_Join sep [] = []"
| "strings_Join sep [x] = x"
| "strings_Join sep (x # y # xs) = x @ sep @ strings_Join sep (y # xs)"

definition proxy_value :: "ProxySettings \<Rightarrow> string" where
  "proxy_value s = strings_Join '';'' ((if px_Socks s = [] then [] else [''socks='' @ px_Socks s])
     @ (if px_HTTP s = [] then [] else [''http='' @ px_HTTP s, ''https='' @ px_HTTP s]))"

definition proxy_Set :: "proxy_env \<Rightarrow> ProxySettings \<Rightarrow> registry \<Rightarrow> proxy_error option \<times> registry" where
  "proxy_Set env s r =
     (if px_Socks s = [] \<and> px_HTTP s = [] then proxy_Clear env r
      else if \<not> pe_create env then (Some KeyFailed, r)
      else let r = r \<lparr> rg_key := True \<rparr> in
        if \<not> pe_enable env then (Some EnableFailed, r)
        else let r = r \<lparr> rg_ProxyEnable := Some 1 \<rparr> in
          if \<not> pe_server env then (Some ServerFailed, switch_off env r)
          else let r = r \<lparr> rg_ProxyServer := Some (proxy_value s) \<rparr> in
            if \<not> pe_override env then (Some OverrideFailed, switch_off env r)
            else (if pe_notify env then None else Some ErrNotifyOnly, r \<lparr> rg_ProxyOverride := Some ''<local>'' \<rparr>))"

definition proxy_IsSet :: "proxy_env \<Rightarrow> registry \<Rightarrow> bool" where
  "proxy_IsSet env r \<longleftrightarrow> rg_key r \<and> pe_open env \<and> pe_query env \<and> rg_ProxyEnable r = Some 1"

section \<open>The identifier of the device\<close>

definition expectedHexLen :: nat where "expectedHexLen = 64"

definition is_hex :: "char \<Rightarrow> bool" where
  "is_hex c \<longleftrightarrow> (let n = of_char c :: nat in (48 \<le> n \<and> n \<le> 57) \<or> (65 \<le> n \<and> n \<le> 70) \<or> (97 \<le> n \<and> n \<le> 102))"

definition readCache :: "string option \<Rightarrow> string option" where
  "readCache file = (case file of None \<Rightarrow> None | Some s \<Rightarrow> if length s = expectedHexLen \<and> list_all is_hex s then Some s else None)"

definition randomHex :: "(string \<Rightarrow> string) \<Rightarrow> string \<Rightarrow> string" where
  "randomHex sha b = hex_encode (sha b)"

datatype hwid_error = CacheWriteFailed | RandomFallback

text \<open>The cached file; \<open>machine\<close> is the identifier of the machine, which may not be available, \<open>rnd\<close> are random bytes.\<close>

definition hwid_Get :: "(string \<Rightarrow> string) \<Rightarrow> string option \<Rightarrow> string \<Rightarrow> bool \<Rightarrow> string option \<Rightarrow> (string \<times> hwid_error option) \<times> string option" where
  "hwid_Get sha machine rnd writeOk file =
     (case readCache file of
        Some v \<Rightarrow> ((v, None), file)
      | None \<Rightarrow>
          (let v = (case machine of Some m \<Rightarrow> m | None \<Rightarrow> randomHex sha rnd) in
           if \<not> writeOk then ((v, Some CacheWriteFailed), file)
           else ((v, if machine = None then Some RandomFallback else None), Some v)))"

lemma hex_digit_hex: "n < 16 \<Longrightarrow> is_hex (hex_digit n)"
  by (auto simp: is_hex_def hex_digit_def Let_def)

lemma hex_encode_hex: "list_all is_hex (hex_encode s)"
proof -
  have "is_hex (hex_digit (of_char c div 16)) \<and> is_hex (hex_digit (of_char c mod 16))" for c :: char
    using of_char_of [of "of_char c"] hex_digit_hex by (simp add: less_mult_imp_div_less)
  then show ?thesis by (auto simp: hex_encode_def list_all_iff)
qed

lemma hex_encode_length: "length (hex_encode s) = 2 * length s"
  by (induction s) (simp_all add: hex_encode_def)

lemma hwid_cached:
  assumes "hwid_Get sha machine rnd True file = ((v, e), file')" "\<And>b. length (sha b) = 32"
    and "\<And>m. machine = Some m \<Longrightarrow> readCache (Some m) = Some m"
  shows "file' = Some v \<and> readCache (Some v) = Some v \<and> v \<noteq> []"
proof -
  have "readCache (Some (randomHex sha rnd)) = Some (randomHex sha rnd)"
    by (simp add: readCache_def randomHex_def expectedHexLen_def hex_encode_hex hex_encode_length assms(2))
  then have "file' = Some v \<and> readCache (Some v) = Some v"
    using assms by (auto simp: hwid_Get_def Let_def readCache_def split: option.splits if_splits)
  then show ?thesis by (auto simp: readCache_def expectedHexLen_def split: if_splits)
qed

section \<open>Examples\<close>

definition fine_env :: write_env where
  "fine_env = \<lparr> we_open = Opened, we_close = True, we_rename = (\<lambda>_. True), we_reopen = Opened, we_written = 100 \<rparr>"

definition demo_writes :: "(write_env \<times> string) list" where
  "demo_writes = [(fine_env, ''ab''), (fine_env, ''cd''), (fine_env, ''ef'')]"

definition demo_log :: "string \<times> RotatingWriter \<times> log_files" where
  "demo_log = write_all demo_writes (NewRotatingWriter 3 1, Map.empty)"

definition demo_env :: proxy_env where
  "demo_env = \<lparr> pe_create = True, pe_open = True, pe_enable = True, pe_server = False, pe_override = True, pe_disable = True,
     pe_delete = (\<lambda>_. True), pe_query = True, pe_notify = True \<rparr>"

definition demo_registry :: registry where
  "demo_registry = \<lparr> rg_key = True, rg_ProxyEnable = Some 1, rg_ProxyServer = Some ''socks=127.0.0.1:1080'', rg_ProxyOverride = None \<rparr>"

section \<open>Properties\<close>

text \<open>
  C29. The log keeps its newest part within bounds. As long as files can be renamed, whatever else fails, what the log and its
  backups hold is the end of what was written; no file grows beyond the limit, or beyond the longest line if that is longer; and
  nothing is lost before all backups exist, each at most a line short of the limit.
\<close>

theorem rotation_keeps_newest:
  assumes "write_all ps (NewRotatingWriter maxBytes keep, Map.empty) = (t, w, fs)" "write_all_ok l ps" "0 < keep"
  shows "suffix (history (nat keep) fs) t
    \<and> (\<forall>i. length (file_text fs i) \<le> max (nat maxBytes) l)
    \<and> length (history (nat keep) fs) \<le> (nat keep + 1) * max (nat maxBytes) l
    \<and> (history (nat keep) fs = t \<or> keep * (maxBytes - int l) \<le> int (length (history (nat keep) fs)))"
proof -
  let ?w = "NewRotatingWriter maxBytes keep"
  have e: "history k Map.empty = []" for k by (induction k) (simp_all add: file_text_def)
  have "write_ok (max (nat maxBytes) l) (?w, Map.empty)" "backups_ok (rw_maxBytes ?w - int l) (nat (rw_keep ?w)) Map.empty"
    by (simp_all add: write_ok_def backups_ok_def file_text_def NewRotatingWriter_def)
  from write_all_step [OF assms(1,2) this(1) _ _ _ this(2)] assms(3)
  have r: "write_ok (max (nat maxBytes) l) (w, fs)" "suffix (history (nat keep) fs) t" "backups_ok (maxBytes - int l) (nat keep) fs"
      "history (nat keep) fs = t \<or> fs (nat keep) \<noteq> None"
    by (auto simp: NewRotatingWriter_def e)
  then have b: "length (file_text fs i) \<le> max (nat maxBytes) l" for i by (simp add: write_ok_def)
  from history_full [OF r(3)] r(4) assms(3)
  have "history (nat keep) fs = t \<or> keep * (maxBytes - int l) \<le> int (length (history (nat keep) fs))" by auto
  then show ?thesis using r(2) b history_length [OF b, of "nat keep"] by simp
qed

theorem rotation_keeps_newest_witness:
  "history 1 (snd (snd demo_log)) = ''cdef'' \<and> suffix (history 1 (snd (snd demo_log))) (fst demo_log)"
proof -
  obtain t w fs where d: "demo_log = (t, w, fs)" by (cases demo_log)
  have ok: "write_all_ok 2 demo_writes" by (simp add: write_all_ok_def demo_writes_def fine_env_def)
  from rotation_keeps_newest [OF d [unfolded demo_log_def] ok] have "suffix (history 1 fs) t" by simp
  then have "suffix (history 1 (snd (snd demo_log))) (fst demo_log)" unfolding d by (simp only: fst_conv snd_conv)
  moreover have "history 1 (snd (snd demo_log)) = ''cdef''" by code_simp
  ultimately show ?thesis by metis
qed

text \<open>
  A log file that could once not be closed silences the log: every later write fails and writes nothing, although the disk
  may be fine again.
\<close>

theorem failed_close_silences_log:
  assumes "rw_f w = Some Live" "rw_size w + int (length p) > rw_maxBytes w" "rw_size w > 0" "\<not> we_close env"
    and "writer_Write env p (w, fs) = ((n, ok), w', fs')"
  shows "write_all ps (w', fs') = ([], w', fs')"
  using assms by (intro dead_write_all) (auto simp: writer_Write_def writer_rotate_def)

theorem failed_close_silences_log_witness:
  "\<exists>w fs. writer_Write (fine_env \<lparr> we_close := False \<rparr>) ''cd'' (\<lparr> rw_maxBytes = 3, rw_keep = 1, rw_f = Some Live, rw_size = 2 \<rparr>, [0 \<mapsto> ''ab''])
      = ((0, False), w, fs) \<and> write_all demo_writes (w, fs) = ([], w, fs)"
proof -
  let ?w = "\<lparr> rw_maxBytes = 3, rw_keep = 1, rw_f = Some Live, rw_size = 2 \<rparr>"
  have "writer_Write (fine_env \<lparr> we_close := False \<rparr>) ''cd'' (?w, [0 \<mapsto> ''ab'']) = ((0, False), ?w \<lparr> rw_f := Some Dead \<rparr>, [0 \<mapsto> ''ab''])"
    by (simp add: writer_Write_def writer_rotate_def fine_env_def)
  with failed_close_silences_log [OF _ _ _ _ this, of demo_writes] show ?thesis by (simp add: fine_env_def)
qed

text \<open>
  The proxy of the desktop is set completely or switched off: a call that succeeds, or fails only to announce the change, has
  stored the addresses and enabled the proxy; any other failure leaves the proxy as it was or switches it off, when that works.
\<close>

theorem proxy_set_or_off:
  assumes "proxy_Set env s r = (e, r')" "px_Socks s \<noteq> [] \<or> px_HTTP s \<noteq> []" "pe_disable env"
  shows "if e = None \<or> e = Some ErrNotifyOnly
    then rg_key r' \<and> rg_ProxyEnable r' = Some 1 \<and> rg_ProxyServer r' = Some (proxy_value s) \<and> rg_ProxyOverride r' = Some ''<local>''
    else rg_ProxyEnable r' = (if e = Some ServerFailed \<or> e = Some OverrideFailed then Some 0 else rg_ProxyEnable r)"
  using assms by (auto simp: proxy_Set_def switch_off_def Let_def split: if_splits)

theorem proxy_set_or_off_witness:
  "rg_ProxyEnable (snd (proxy_Set demo_env \<lparr> px_Socks = ''127.0.0.1:1'', px_HTTP = [] \<rparr> demo_registry)) = Some 0"
  using proxy_set_or_off [of demo_env "\<lparr> px_Socks = ''127.0.0.1:1'', px_HTTP = [] \<rparr>" demo_registry, OF prod.collapse [symmetric]]
  by (simp add: proxy_Set_def demo_env_def Let_def)

text \<open>
  The report of a cleared proxy cannot be relied on: when the registry refuses to switch the proxy off, Clear succeeds all the
  same, and the proxy stays set.
\<close>

theorem clear_hides_failure:
  assumes "\<not> pe_disable env" "pe_notify env" "proxy_IsSet env r" "proxy_Clear env r = (e, r')"
  shows "e = None \<and> proxy_IsSet env r'"
  using assms by (auto simp: proxy_Clear_def proxy_IsSet_def switch_off_def Let_def split: if_splits)

theorem clear_hides_failure_witness:
  "fst (proxy_Clear (demo_env \<lparr> pe_disable := False \<rparr>) demo_registry) = None
    \<and> proxy_IsSet (demo_env \<lparr> pe_disable := False \<rparr>) (snd (proxy_Clear (demo_env \<lparr> pe_disable := False \<rparr>) demo_registry))"
  using clear_hides_failure [OF _ _ _ prod.collapse [symmetric], of "demo_env \<lparr> pe_disable := False \<rparr>" demo_registry]
  by (simp add: demo_env_def demo_registry_def proxy_IsSet_def)

text \<open>
  C30. The device keeps its identifier. Once a start could store it, every later start sends the same identifier to the
  providers of subscriptions, whatever the machine and the random numbers say then; the identifier of a machine that has none is
  random, and kept like the others.
\<close>

theorem device_identity_stable:
  assumes "hwid_Get sha machine rnd True file = ((v, e), file')" "\<And>b. length (sha b) = 32"
    and "\<And>m. machine = Some m \<Longrightarrow> length m = 64 \<and> list_all is_hex m"
  shows "hwid_Get sha machine' rnd' writeOk file' = ((v, None), file')
    \<and> (case NewInputResolver ver f v info sub of
        Inl err \<Rightarrow> Config_Load f = None
      | Inr req \<Rightarrow> fo_HWID req = (if su_HWIDEnabled (c_Subscriptions (the (Config_Load f))) then v else []))"
proof -
  have c: "file' = Some v \<and> readCache (Some v) = Some v \<and> v \<noteq> []"
    using assms by (intro hwid_cached) (auto simp: readCache_def expectedHexLen_def)
  then show ?thesis
    by (auto simp: hwid_Get_def NewInputResolver_def resolveIdentity_def Let_def split: option.split)
qed

theorem device_identity_stable_witness:
  "\<exists>v. hwid_Get (\<lambda>_. replicate 32 CHR ''x'') None ''seed'' True None = ((v, Some RandomFallback), Some v)
    \<and> hwid_Get (\<lambda>_. replicate 32 CHR ''x'') (Some ''other'') [] False (Some v) = ((v, None), Some v)"
proof -
  let ?sha = "\<lambda>_ :: string. replicate 32 CHR ''x''"
  let ?v = "randomHex ?sha ''seed''"
  have "hwid_Get ?sha None ''seed'' True None = ((?v, Some RandomFallback), Some ?v)" by (simp add: hwid_Get_def readCache_def Let_def)
  with device_identity_stable [OF this] show ?thesis by auto
qed

end
