(* ===== verification/App_Services.thy ===== *)
theory App_Services
  imports Store_Services Chainctl Logstream
begin

text \<open>
  The services of \<^verbatim>\<open>internal/bindings\<close> that only report: the snapshot of the application and the public address (app.go, publicip.go), the
  first-run marker (onboarding.go), the connection (run.go), the service of the helper (helper.go), and the log view (logsvc.go), whose
  calls the bridge runs in parallel.
\<close>

section \<open>The snapshot\<close>

text \<open>\<^verbatim>\<open>serverStoreGetter\<close> of main.go.\<close>

definition serverStoreGetter_Get :: "disk \<Rightarrow> string \<Rightarrow> store_error + Server option" where
  "serverStoreGetter_Get d i = (case Servers_Load d of None \<Rightarrow> Inl ServerLoad | Some l \<Rightarrow> Inr (find (\<lambda>s. s_ID s = i) l))"

datatype platform = Linux | Windows | OtherPlatform

definition defaultIdleMode :: "platform \<Rightarrow> string" where
  "defaultIdleMode os = (case os of OtherPlatform \<Rightarrow> ModeSys | _ \<Rightarrow> ModeTUN)"

definition idleModeFromSettings :: "platform \<Rightarrow> string \<Rightarrow> string" where
  "idleModeFromSettings os m = (if m = ModeTUN \<or> m = ModeSys then m else defaultIdleMode os)"

record SpeedSample =
  ss_UpBps :: "64 word"
  ss_DownBps :: "64 word"
  ss_At :: int

record AppSnapshot =
  sn_Status :: string
  sn_CurrentServer :: "ServerView option"
  sn_Mode :: string
  sn_Speeds :: SpeedSample
  sn_HelperState :: string
  sn_Servers :: "ServerView list"
  sn_Subs :: "SubView list"
  sn_Settings :: SettingsView
  sn_Onboarded :: bool
  sn_Version :: string

text \<open>What \<^verbatim>\<open>os.Stat\<close> says of the marker of the first run.\<close>

datatype stat = Exists | NotExist | StatFailed

text \<open>The files and parts that the snapshot reads, one after another; the prober of the helper may be missing.\<close>

record app_env =
  ae_platform :: platform
  ae_servers :: disk
  ae_subs :: subs_file
  ae_build :: "BuildInfo option"
  ae_config :: ConfigStore
  ae_chain :: "Controller option"
  ae_helper :: "string option"
  ae_marker :: stat
  ae_version :: string
  ae_now :: int

datatype snapshot_error = SnapServers | SnapSubs | SnapSettings

definition probeHelper :: "app_env \<Rightarrow> string" where
  "probeHelper env = (case ae_helper env of None \<Rightarrow> ''missing'' | Some st \<Rightarrow> st)"

definition isOnboarded :: "app_env \<Rightarrow> bool" where
  "isOnboarded env \<longleftrightarrow> ae_marker env = Exists"

definition GetSnapshot :: "app_env \<Rightarrow> snapshot_error + AppSnapshot" where
  "GetSnapshot env =
     (case Servers_Load (ae_servers env) of
        None \<Rightarrow> Inl SnapServers
      | Some servers \<Rightarrow>
          (case Subs_Load (ae_subs env) of
             Inl e \<Rightarrow> Inl SnapSubs
           | Inr subs \<Rightarrow>
               (case View (ae_build env) (ae_config env) of
                  Inl e \<Rightarrow> Inl SnapSettings
                | Inr settings \<Rightarrow>
                    (let idle = idleModeFromSettings (ae_platform env) (ns_DefaultMode (sv_Network settings));
                         (st, current, mode) =
                           (case ae_chain env of
                              None \<Rightarrow> (StatusIdle, None, idle)
                            | Some c \<Rightarrow>
                                (case Status c of (st, srv, mode) \<Rightarrow>
                                   (st, map_option (\<lambda>s. hd (toServerViews [s] (subOriginByID subs))) srv, if mode = [] then idle else mode)))
                     in Inr \<lparr> sn_Status = st, sn_CurrentServer = current, sn_Mode = mode,
                          sn_Speeds = \<lparr> ss_UpBps = 0, ss_DownBps = 0, ss_At = ae_now env \<rparr>, sn_HelperState = probeHelper env,
                          sn_Servers = toServerViews servers (subOriginByID subs), sn_Subs = toSubViews subs (serverCountBySource servers),
                          sn_Settings = settings, sn_Onboarded = isOnboarded env, sn_Version = ae_version env \<rparr>))))"

section \<open>Onboarding, connection, helper\<close>

datatype onboarding_error = StatError | MkdirFailed | CreateFailed | CloseFailed

definition Onboarding_GetState :: "stat \<Rightarrow> onboarding_error + bool" where
  "Onboarding_GetState st = (case st of Exists \<Rightarrow> Inr True | NotExist \<Rightarrow> Inr False | StatFailed \<Rightarrow> Inl StatError)"

text \<open>The outcome of the three calls; a file that was created exists even if closing it fails.\<close>

definition onboarding_mark :: "bool \<Rightarrow> bool \<Rightarrow> bool \<Rightarrow> stat \<Rightarrow> onboarding_error option \<times> stat" where
  "onboarding_mark mkdirOk createOk closeOk st =
     (if \<not> mkdirOk then (Some MkdirFailed, st)
      else if \<not> createOk then (Some CreateFailed, st)
      else (if closeOk then None else Some CloseFailed, Exists))"

definition Run_GetStatus :: "Controller \<Rightarrow> (string \<times> string) list" where
  "Run_GetStatus c =
     (case Status c of (st, srv, mode) \<Rightarrow>
        [(''status'', st), (''mode'', mode)]
          @ (case srv of None \<Rightarrow> [] | Some s \<Rightarrow> [(''serverId'', s_ID s), (''serverName'', s_Name s)]))"

text \<open>\<^verbatim>\<open>svcmgr.IsNotInstalled\<close>: the text of the error decides.\<close>

definition lower_char :: "char \<Rightarrow> char" where
  "lower_char c = (let n = of_char c :: nat in if 65 \<le> n \<and> n \<le> 90 then char_of (n + 32) else c)"

fun Contains :: "string \<Rightarrow> string \<Rightarrow> bool" where
  "Contains [] t \<longleftrightarrow> t = []"
| "Contains (c # s) t \<longleftrightarrow> HasPrefix (c # s) t \<or> Contains s t"

definition IsNotInstalled :: "string \<Rightarrow> bool" where
  "IsNotInstalled err = Contains (map lower_char err) ''does not exist''"

definition HelperService_Status :: "string + string \<Rightarrow> string + string" where
  "HelperService_Status r =
     (case r of
        Inl e \<Rightarrow> (if IsNotInstalled e then Inr ''missing'' else Inl e)
      | Inr st \<Rightarrow> Inr (if st = ''Running'' then ''running'' else ''stopped''))"

text \<open>On Linux the daemon is there when its socket answers.\<close>

definition realHelperStatus :: "bool \<Rightarrow> string + string" where
  "realHelperStatus dialOk = (if dialOk then Inr ''Running'' else Inl ''itgray helper: socket does not exist'')"

definition helperProber :: "string + string \<Rightarrow> string" where
  "helperProber r = (case HelperService_Status r of Inl e \<Rightarrow> ''missing'' | Inr st \<Rightarrow> st)"

section \<open>The public address\<close>

definition publicIPCacheTTL :: int where "publicIPCacheTTL = 30 * second"

record publicIPCache =
  ic_value :: string
  ic_serverID :: string
  ic_expiresAt :: "int option"

datatype ip_error = ErrNotConnected | NoSocksPort | RequestFailed string | InvalidResponse string

text \<open>The server of the connection; the empty identifier if it is not known.\<close>

definition connected_id :: "Controller option \<Rightarrow> string option" where
  "connected_id chain =
     (case chain of
        None \<Rightarrow> None
      | Some c \<Rightarrow> (case Status c of (st, srv, mode) \<Rightarrow>
          if st \<noteq> StatusConnected then None else Some (case srv of None \<Rightarrow> [] | Some s \<Rightarrow> s_ID s)))"

definition ip_cached :: "string \<Rightarrow> int \<Rightarrow> publicIPCache \<Rightarrow> string option" where
  "ip_cached curID now c =
     (if ic_serverID c = curID \<and> (case ic_expiresAt c of None \<Rightarrow> False | Some t \<Rightarrow> now < t) then Some (ic_value c) else None)"

text \<open>What the request gave: an error, or a body, of which 64 bytes are read.\<close>

definition ip_response :: "string + string \<Rightarrow> ip_error + string" where
  "ip_response r =
     (case r of
        Inl e \<Rightarrow> Inl (RequestFailed e)
      | Inr body \<Rightarrow> (let ip = TrimSpace (take 64 body) in if ParseIP ip then Inr ip else Inl (InvalidResponse ip)))"

definition ip_store :: "string \<Rightarrow> string \<Rightarrow> int \<Rightarrow> publicIPCache \<Rightarrow> publicIPCache" where
  "ip_store curID ip now c = \<lparr> ic_value = ip, ic_serverID = curID, ic_expiresAt = Some (now + publicIPCacheTTL) \<rparr>"

text \<open>A call that is alone; \<open>now\<close> and \<open>later\<close> are the times before and after the request.\<close>

definition GetPublicIP :: "Controller option \<Rightarrow> int \<Rightarrow> int \<Rightarrow> string + string \<Rightarrow> int \<Rightarrow> publicIPCache \<Rightarrow> (ip_error + string) \<times> publicIPCache" where
  "GetPublicIP chain port now r later c =
     (case connected_id chain of
        None \<Rightarrow> (Inl ErrNotConnected, c)
      | Some curID \<Rightarrow>
          (case ip_cached curID now c of
             Some v \<Rightarrow> (Inr v, c)
           | None \<Rightarrow>
               (if port \<le> 0 then (Inl NoSocksPort, c)
                else case ip_response r of Inl e \<Rightarrow> (Inl e, c) | Inr ip \<Rightarrow> (Inr ip, ip_store curID ip later c))))"

text \<open>Calls in parallel: a call reads the status, then locks the cache to look at it and again to store, not between them and not during the request. \<open>ip_fetched\<close> and
  \<open>ip_answers\<close> record for which server, with which address and when.\<close>

record ip_state =
  ip_cache :: publicIPCache
  ip_now :: int
  ip_chain :: "Controller option"
  ip_reading :: "string list"
  ip_pending :: "string list"
  ip_fetched :: "(string \<times> string \<times> int) list"
  ip_answers :: "(string \<times> string \<times> int) list"

definition ip_start :: "int \<Rightarrow> Controller option \<Rightarrow> ip_state" where
  "ip_start now chain =
     \<lparr> ip_cache = \<lparr> ic_value = [], ic_serverID = [], ic_expiresAt = None \<rparr>, ip_now = now, ip_chain = chain, ip_reading = [], ip_pending = [],
       ip_fetched = [], ip_answers = [] \<rparr>"

inductive ip_step :: "ip_state \<Rightarrow> ip_state \<Rightarrow> bool" where
  Tick: "ip_now s \<le> t \<Longrightarrow> ip_step s (s \<lparr> ip_now := t \<rparr>)"
| Chain: "ip_step s (s \<lparr> ip_chain := c \<rparr>)"
| Connected: "connected_id (ip_chain s) = Some i \<Longrightarrow> ip_step s (s \<lparr> ip_reading := ip_reading s @ [i] \<rparr>)"
| Hit: "k < length (ip_reading s) \<Longrightarrow> ip_reading s ! k = i \<Longrightarrow> ip_cached i (ip_now s) (ip_cache s) = Some v \<Longrightarrow>
    ip_step s (s \<lparr> ip_reading := remove_at k (ip_reading s), ip_answers := ip_answers s @ [(i, v, ip_now s)] \<rparr>)"
| Miss: "k < length (ip_reading s) \<Longrightarrow> ip_reading s ! k = i \<Longrightarrow> ip_cached i (ip_now s) (ip_cache s) = None \<Longrightarrow>
    ip_step s (s \<lparr> ip_reading := remove_at k (ip_reading s), ip_pending := ip_pending s @ [i] \<rparr>)"
| Failed: "k < length (ip_pending s) \<Longrightarrow> ip_step s (s \<lparr> ip_pending := remove_at k (ip_pending s) \<rparr>)"
| Fetched: "k < length (ip_pending s) \<Longrightarrow> ip_pending s ! k = i \<Longrightarrow> ip_response r = Inr ip \<Longrightarrow>
    ip_step s (s \<lparr> ip_pending := remove_at k (ip_pending s), ip_cache := ip_store i ip (ip_now s) (ip_cache s),
      ip_fetched := ip_fetched s @ [(i, ip, ip_now s)], ip_answers := ip_answers s @ [(i, ip, ip_now s)] \<rparr>)"

inductive_cases ip_stepE: "ip_step s s'"

section \<open>The log view\<close>

definition startTailLimit :: int where "startTailLimit = 500"

record LogsEntry =
  le_Seq :: "64 word"
  le_Time :: string
  le_Level :: string
  le_Source :: string
  le_Message :: string

definition logs_entries :: "(int \<Rightarrow> string) \<Rightarrow> Buffer \<Rightarrow> LogsEntry list" where
  "logs_entries format b =
     map (\<lambda>e. \<lparr> le_Seq = en_Seq e, le_Time = format (en_Time e), le_Level = en_Level e, le_Source = en_Source e, le_Message = en_Message e \<rparr>)
       (Tail startTailLimit b)"

text \<open>\<^verbatim>\<open>Poller.Start\<close> and \<^verbatim>\<open>Poller.Stop\<close>: whether the poller runs. A call counts its subscriber first and
  then starts or stops the poller; \<open>lv_todo\<close> are the calls in between.\<close>

datatype poller_call = StartPoller | StopPoller

record log_view =
  lv_buffer :: Buffer
  lv_polling :: bool
  lv_todo :: "poller_call list"

definition poller_do :: "poller_call \<Rightarrow> log_view \<Rightarrow> log_view" where
  "poller_do p v = v \<lparr> lv_polling := (p = StartPoller) \<rparr>"

definition logs_subscribe :: "log_view \<Rightarrow> log_view" where
  "logs_subscribe v =
     (case Buffer_Subscribe (lv_buffer v) of (n, b) \<Rightarrow>
        v \<lparr> lv_buffer := b, lv_todo := lv_todo v @ (if n = 1 then [StartPoller] else []) \<rparr>)"

definition logs_unsubscribe :: "log_view \<Rightarrow> log_view" where
  "logs_unsubscribe v =
     (case Buffer_Unsubscribe (lv_buffer v) of (n, b) \<Rightarrow>
        v \<lparr> lv_buffer := b, lv_todo := lv_todo v @ (if n = 0 then [StopPoller] else []) \<rparr>)"

definition logs_finish :: "log_view \<Rightarrow> log_view" where
  "logs_finish v = foldl (\<lambda>v p. poller_do p v) (v \<lparr> lv_todo := [] \<rparr>) (lv_todo v)"

definition LogService_Start :: "(int \<Rightarrow> string) \<Rightarrow> log_view \<Rightarrow> LogsEntry list \<times> log_view" where
  "LogService_Start format v = (let v = logs_finish (logs_subscribe v) in (logs_entries format (lv_buffer v), v))"

definition LogService_Stop :: "log_view \<Rightarrow> log_view" where
  "LogService_Stop v = logs_finish (logs_unsubscribe v)"

text \<open>The directory of the logs: its files, with their sizes where they can be read.\<close>

definition LogService_DirInfo :: "(string \<times> int option) list option \<Rightarrow> int" where
  "LogService_DirInfo listing =
     (case listing of
        None \<Rightarrow> 0
      | Some es \<Rightarrow> sum_list (map (\<lambda>(name, size). if Contains name ''.log'' then (case size of None \<Rightarrow> 0 | Some n \<Rightarrow> n) else 0) es))"

inductive logs_step :: "log_view \<Rightarrow> log_view \<Rightarrow> bool" where
  Subscribe: "logs_step v (logs_subscribe v)"
| Unsubscribe: "logs_step v (logs_unsubscribe v)"
| Poller: "i < length (lv_todo v) \<Longrightarrow> logs_step v (poller_do (lv_todo v ! i) (v \<lparr> lv_todo := remove_at i (lv_todo v) \<rparr>))"

section \<open>The cache of the address\<close>

definition ip_inv :: "ip_state \<Rightarrow> bool" where
  "ip_inv s \<longleftrightarrow>
     (\<forall>(i, ip, t) \<in> set (ip_fetched s). ParseIP ip \<and> t \<le> ip_now s)
     \<and> (case ic_expiresAt (ip_cache s) of None \<Rightarrow> True
        | Some e \<Rightarrow> (ic_serverID (ip_cache s), ic_value (ip_cache s), e - publicIPCacheTTL) \<in> set (ip_fetched s))
     \<and> (\<forall>(i, ip, t) \<in> set (ip_answers s). \<exists>t'. (i, ip, t') \<in> set (ip_fetched s) \<and> t' \<le> t \<and> t < t' + publicIPCacheTTL)"

lemma ip_response_valid: "ip_response r = Inr ip \<Longrightarrow> ParseIP ip"
  by (auto simp: ip_response_def Let_def split: sum.splits if_splits)

lemma ttl_positive: "0 < publicIPCacheTTL"
  by (simp add: publicIPCacheTTL_def)

lemma ip_inv_step: "ip_step s s' \<Longrightarrow> ip_inv s \<Longrightarrow> ip_inv s'"
proof (erule ip_stepE)
  fix k i v
  assume inv: "ip_inv s" and "ip_cached i (ip_now s) (ip_cache s) = Some v"
    and s': "s' = s \<lparr> ip_reading := remove_at k (ip_reading s), ip_answers := ip_answers s @ [(i, v, ip_now s)] \<rparr>"
  then obtain e where e: "ic_expiresAt (ip_cache s) = Some e" "ip_now s < e" "ic_serverID (ip_cache s) = i" "ic_value (ip_cache s) = v"
    by (auto simp: ip_cached_def split: if_splits option.splits)
  then have "(i, v, e - publicIPCacheTTL) \<in> set (ip_fetched s)" using inv by (simp add: ip_inv_def)
  then have "\<exists>t'. (i, v, t') \<in> set (ip_fetched s) \<and> t' \<le> ip_now s \<and> ip_now s < t' + publicIPCacheTTL"
    using inv e(2) by (force simp: ip_inv_def)
  then show "ip_inv s'" using inv unfolding s' by (auto simp: ip_inv_def split: option.splits)
next
  fix k i r ip
  assume inv: "ip_inv s" and r: "ip_response r = Inr ip"
    and s': "s' = s \<lparr> ip_pending := remove_at k (ip_pending s), ip_cache := ip_store i ip (ip_now s) (ip_cache s),
      ip_fetched := ip_fetched s @ [(i, ip, ip_now s)], ip_answers := ip_answers s @ [(i, ip, ip_now s)] \<rparr>"
  show "ip_inv s'" using inv ip_response_valid [OF r] ttl_positive unfolding s' by (fastforce simp: ip_inv_def ip_store_def)
qed (fastforce simp: ip_inv_def split: option.splits)+

section \<open>The log view, one call at a time\<close>

lemma logs_alone:
  assumes "lv_todo v = []" "lv_polling v \<longleftrightarrow> 0 < bu_subs (lv_buffer v)"
  shows "lv_todo (snd (LogService_Start format v)) = [] \<and> lv_polling (snd (LogService_Start format v))"
    "0 < bu_subs (lv_buffer (snd (LogService_Start format v)))"
    "lv_todo (LogService_Stop v) = [] \<and> (lv_polling (LogService_Stop v) \<longleftrightarrow> 0 < bu_subs (lv_buffer (LogService_Stop v)))"
  using assms by (auto simp: LogService_Start_def LogService_Stop_def logs_finish_def logs_subscribe_def logs_unsubscribe_def
      Buffer_Subscribe_def Buffer_Unsubscribe_def poller_do_def Let_def)

section \<open>Reports\<close>

lemma helperProber_states: "helperProber r \<in> {''missing'', ''running'', ''stopped''}"
  by (auto simp: helperProber_def HelperService_Status_def split: sum.split)

lemma helperProber_linux: "helperProber (realHelperStatus ok) = (if ok then ''running'' else ''missing'')"
proof -
  have "IsNotInstalled ''itgray helper: socket does not exist''" by code_simp
  then show ?thesis by (simp add: helperProber_def HelperService_Status_def realHelperStatus_def)
qed

lemma mark_then_state: "onboarding_mark a b c st = (None, st') \<Longrightarrow> Onboarding_GetState st' = Inr True"
  by (auto simp: onboarding_mark_def Onboarding_GetState_def split: if_splits)

lemma current_in_list:
  assumes "GetSnapshot env = Inr sn" "ae_chain env = Some c" "Status c = (st, Some srv, mode)"
    and "Servers_Load (ae_servers env) = Some servers" "srv \<in> set servers"
  shows "\<exists>v. sn_CurrentServer sn = Some v \<and> v \<in> set (sn_Servers sn)"
  using assms by (auto simp: GetSnapshot_def toServerViews_def Let_def split: sum.splits)

definition demo_up :: Controller where
  "demo_up = \<lparr> k_cancel = Some 1, k_canceled = [], k_next = 2, k_cleanupPending = False, k_cleanupMode = [], k_current = None,
     k_mode = ModeTUN, k_prevUp = 0, k_prevDown = 0, k_prevAt = 0 \<rparr>"

section \<open>Properties\<close>

text \<open>
  C28. The public address that is shown belongs to the server it is shown for: however calls, requests and changes of the connection
  interleave, every answer is an address that a request begun on that server brought, less than 30 seconds before.
\<close>

theorem public_ip_fresh:
  assumes "ip_step\<^sup>*\<^sup>* (ip_start now chain) s"
  shows "list_all (\<lambda>(i, ip, t). ParseIP ip \<and> (\<exists>t'. (i, ip, t') \<in> set (ip_fetched s) \<and> t' \<le> t \<and> t < t' + 30 * second)) (ip_answers s)"
proof -
  have "ip_inv s" using assms
    by (induction rule: rtranclp_induct) (auto simp: ip_inv_step, simp add: ip_inv_def ip_start_def)
  then show ?thesis by (fastforce simp: ip_inv_def list_all_iff publicIPCacheTTL_def)
qed

theorem public_ip_fresh_witness:
  "\<exists>s. ip_step\<^sup>*\<^sup>* (ip_start 0 (Some demo_up)) s \<and> ip_answers s = [([], ''1.2.3.4'', 0)]
    \<and> list_all (\<lambda>(i, ip, t). ParseIP ip \<and> (\<exists>t'. (i, ip, t') \<in> set (ip_fetched s) \<and> t' \<le> t \<and> t < t' + 30 * second)) (ip_answers s)"
proof -
  let ?a = "ip_start 0 (Some demo_up)"
  let ?r = "?a \<lparr> ip_reading := [[]] \<rparr>"
  let ?b = "?r \<lparr> ip_reading := remove_at 0 (ip_reading ?r), ip_pending := ip_pending ?r @ [[]] \<rparr>"
  let ?c = "?b \<lparr> ip_pending := remove_at 0 (ip_pending ?b), ip_cache := ip_store [] ''1.2.3.4'' (ip_now ?b) (ip_cache ?b),
      ip_fetched := ip_fetched ?b @ [([], ''1.2.3.4'', ip_now ?b)], ip_answers := ip_answers ?b @ [([], ''1.2.3.4'', ip_now ?b)] \<rparr>"
  have "connected_id (Some demo_up) = Some []" by (simp add: connected_id_def Status_def demo_up_def StatusConnected_def StatusError_def)
  then have "ip_step ?a ?r" using ip_step.Connected [of ?a "[]"] by (simp add: ip_start_def)
  moreover have "ip_step ?r ?b" by (rule ip_step.Miss) (simp_all add: ip_start_def ip_cached_def)
  moreover have "ip_response (Inr ''1.2.3.4'') = Inr ''1.2.3.4''" by code_simp
  then have "ip_step ?b ?c" by (intro ip_step.Fetched) (simp_all add: ip_start_def)
  ultimately have run: "ip_step\<^sup>*\<^sup>* ?a ?c" by (meson converse_rtranclp_into_rtranclp rtranclp.rtrancl_refl)
  have "ip_answers ?c = [([], ''1.2.3.4'', 0)]" by (simp add: ip_start_def)
  with run public_ip_fresh [OF run] show ?thesis by blast
qed

lemma opens_stay_silent:
  assumes "lv_todo v = []" "1 \<le> bu_subs (lv_buffer v)" "\<not> lv_polling v"
  shows "\<not> lv_polling (fold (\<lambda>format u. snd (LogService_Start format u)) formats v)"
  using assms
proof (induction formats arbitrary: v)
  case (Cons format formats)
  show ?case
    unfolding fold_simps comp_apply
    by (rule Cons.IH) (use Cons.prems in \<open>simp_all add: LogService_Start_def logs_finish_def logs_subscribe_def Buffer_Subscribe_def Let_def\<close>)
qed simp

text \<open>
  C31. Closing the log view and opening it again can silence it. With one view open and its poller running, a call that
  closes it and one that opens it can overlap so that both count before either reaches the poller; which of the two then
  reaches the poller last decides. If it is the one that closes, a view is open and nothing is polled, and opening any
  number of further views does not start the poller; if it is the one that opens, the poller runs.
\<close>

theorem logs_reopened_silent:
  assumes "lv_polling v" "bu_subs (lv_buffer v) = 1" "lv_todo v = []"
  shows "(\<exists>v'. logs_step\<^sup>*\<^sup>* v v' \<and> lv_todo v' = [] \<and> bu_subs (lv_buffer v') = 1 \<and> \<not> lv_polling v' \<and>
      (\<forall>formats. \<not> lv_polling (fold (\<lambda>format u. snd (LogService_Start format u)) formats v'))) \<and>
    (\<exists>v'. logs_step\<^sup>*\<^sup>* v v' \<and> lv_todo v' = [] \<and> bu_subs (lv_buffer v') = 1 \<and> lv_polling v')"
proof
  let ?b = "logs_subscribe (logs_unsubscribe v)"
  let ?c = "poller_do StartPoller (?b \<lparr> lv_todo := remove_at 1 (lv_todo ?b) \<rparr>)"
  let ?d = "poller_do StopPoller (?c \<lparr> lv_todo := remove_at 0 (lv_todo ?c) \<rparr>)"
  let ?e = "poller_do StopPoller (?b \<lparr> lv_todo := remove_at 0 (lv_todo ?b) \<rparr>)"
  let ?f = "poller_do StartPoller (?e \<lparr> lv_todo := remove_at 0 (lv_todo ?e) \<rparr>)"
  have b: "lv_todo ?b = [StopPoller, StartPoller]" "bu_subs (lv_buffer ?b) = 1"
    using assms by (simp_all add: logs_subscribe_def logs_unsubscribe_def Buffer_Subscribe_def Buffer_Unsubscribe_def)
  then have c: "lv_todo ?c = [StopPoller]" "lv_todo ?e = [StartPoller]" by (simp_all add: poller_do_def)
  have "logs_step v (logs_unsubscribe v)" "logs_step (logs_unsubscribe v) ?b" by (rule logs_step.intros)+
  then have run: "logs_step\<^sup>*\<^sup>* v ?b" by simp
  have "logs_step ?b ?c" "logs_step ?b ?e" using logs_step.Poller [of 1 ?b] logs_step.Poller [of 0 ?b] b by simp_all
  moreover have "logs_step ?c ?d" "logs_step ?e ?f" using logs_step.Poller [of 0 ?c] logs_step.Poller [of 0 ?e] c by simp_all
  ultimately have r: "logs_step\<^sup>*\<^sup>* v ?d" "logs_step\<^sup>*\<^sup>* v ?f" using run by (meson rtranclp.rtrancl_into_rtrancl)+
  have d: "lv_todo ?d = []" "bu_subs (lv_buffer ?d) = 1" "\<not> lv_polling ?d" using b by (simp_all add: poller_do_def)
  with r(1) opens_stay_silent [of ?d] show "\<exists>v'. logs_step\<^sup>*\<^sup>* v v' \<and> lv_todo v' = [] \<and> bu_subs (lv_buffer v') = 1 \<and> \<not> lv_polling v' \<and>
      (\<forall>formats. \<not> lv_polling (fold (\<lambda>format u. snd (LogService_Start format u)) formats v'))" by auto
  have "lv_todo ?f = []" "bu_subs (lv_buffer ?f) = 1" "lv_polling ?f" using b by (simp_all add: poller_do_def)
  with r(2) show "\<exists>v'. logs_step\<^sup>*\<^sup>* v v' \<and> lv_todo v' = [] \<and> bu_subs (lv_buffer v') = 1 \<and> lv_polling v'" by blast
qed

theorem logs_reopened_silent_witness:
  "\<exists>v'. logs_step\<^sup>*\<^sup>* \<lparr> lv_buffer = (New_Buffer 0) \<lparr> bu_subs := 1 \<rparr>, lv_polling = True, lv_todo = [] \<rparr> v'
    \<and> bu_subs (lv_buffer v') = 1 \<and> \<not> lv_polling v'"
  using logs_reopened_silent [of "\<lparr> lv_buffer = (New_Buffer 0) \<lparr> bu_subs := 1 \<rparr>, lv_polling = True, lv_todo = [] \<rparr>"] by auto

text \<open>
  A new installation starts in TUN mode on every platform: the settings already say so, and the default of the platform is
  not asked.
\<close>

theorem platform_default_unused:
  assumes "GetSnapshot env = Inr sn" "ae_chain env = None" "cs_disk (ae_config env) = Absent"
  shows "sn_Mode sn = ModeTUN"
  using assms by (auto simp: GetSnapshot_def View_def toView_def Config_Load_def EffectiveMode_def Defaults_def
      idleModeFromSettings_def ModeTUN_def Let_def split: option.splits sum.splits)

end
